(* ===== verification/Prelude.thy ===== *)
theory Prelude
  imports Complex_Main
begin

text \<open>
  The prelude of the development: the types every component shares, the fact collections, and
  the generic lemmas on keyed tables, Python strings, decimal rounding and instants.

  A database table is a list of rows; a primary key is a field with \<open>distinct\<close> values.
  Instants (aware \<^verbatim>\<open>datetime\<close>, \<^verbatim>\<open>timestamptz\<close>) are microseconds since the epoch as \<open>int\<close>;
  \<^verbatim>\<open>Decimal\<close> and \<^verbatim>\<open>NUMERIC\<close> values are exact rationals. A Python \<^verbatim>\<open>str\<close> is a \<open>string\<close>,
  one \<open>char\<close> per code point (code points below 256).
\<close>

type_synonym time = int
type_synonym money = rat

named_theorems table_simps \<open>lookups in keyed tables after an update\<close>
named_theorems frame_simps \<open>fields a step leaves alone\<close>
named_theorems inv_intros \<open>preservation lemmas, one per operation\<close>

section \<open>Instants\<close>

definition second_us :: int where
  "second_us = 1000000"

definition hour_us :: int where
  "hour_us = 3600 * second_us"

definition day_us :: int where
  "day_us = 24 * hour_us"

text \<open>\<open>replace(microsecond=0)\<close> of an instant, and the midnight (UTC) before it.\<close>

definition floor_second :: "time \<Rightarrow> time" where
  "floor_second t = t - t mod second_us"

definition floor_day :: "time \<Rightarrow> time" where
  "floor_day t = t - t mod day_us"

lemma floor_second_le: "floor_second t \<le> t"
  by (simp add: floor_second_def second_us_def)

lemma floor_day_le: "floor_day t \<le> t"
  by (simp add: floor_day_def day_us_def hour_us_def second_us_def)

lemma floor_day_mono: "s \<le> t \<Longrightarrow> floor_day s \<le> floor_day t"
proof -
  assume "s \<le> t"
  have eq: "floor_day x = day_us * (x div day_us)" for x
    by (simp add: floor_day_def minus_mod_eq_mult_div)
  have "0 < day_us" by (simp add: day_us_def hour_us_def second_us_def)
  with \<open>s \<le> t\<close> have "s div day_us \<le> t div day_us" by (intro zdiv_mono1)
  with \<open>0 < day_us\<close> show ?thesis by (simp add: eq)
qed

section \<open>Keyed tables\<close>

definition find_by :: "('a \<Rightarrow> 'k) \<Rightarrow> 'k \<Rightarrow> 'a list \<Rightarrow> 'a option" where
  "find_by key k xs = find (\<lambda>x. key x = k) xs"

definition update_where :: "('a \<Rightarrow> bool) \<Rightarrow> ('a \<Rightarrow> 'a) \<Rightarrow> 'a list \<Rightarrow> 'a list" where
  "update_where p f xs = map (\<lambda>x. if p x then f x else x) xs"

abbreviation unique_on :: "('a \<Rightarrow> 'k) \<Rightarrow> 'a list \<Rightarrow> bool" where
  "unique_on key xs \<equiv> distinct (map key xs)"

lemma find_by_Nil [simp]: "find_by key k [] = None"
  by (simp add: find_by_def)

lemma find_by_Cons [simp]:
  "find_by key k (x # xs) = (if key x = k then Some x else find_by key k xs)"
  by (simp add: find_by_def)

lemma find_by_SomeD: "find_by key k xs = Some x \<Longrightarrow> x \<in> set xs \<and> key x = k"
  by (induction xs) (auto split: if_splits)

lemma find_by_None: "find_by key k xs = None \<longleftrightarrow> k \<notin> key ` set xs"
  by (induction xs) auto

lemma find_by_unique: "unique_on key xs \<Longrightarrow> x \<in> set xs \<Longrightarrow> find_by key (key x) xs = Some x"
  by (induction xs) (auto simp: rev_image_eqI)

lemma filter_key_unique:
  "unique_on key xs \<Longrightarrow>
   filter (\<lambda>x. key x = k) xs = (case find_by key k xs of None \<Rightarrow> [] | Some x \<Rightarrow> [x])"
proof (induction xs)
  case Nil
  then show ?case by simp
next
  case (Cons x xs)
  show ?case
  proof (cases "key x = k")
    case True
    then have "filter (\<lambda>y. key y = k) xs = []" using Cons.prems by (auto simp: filter_empty_conv rev_image_eqI)
    with True show ?thesis by simp
  next
    case False
    with Cons show ?thesis by simp
  qed
qed

lemma filter_key_le_1: "unique_on key xs \<Longrightarrow> length (filter (\<lambda>x. key x = k \<and> P x) xs) \<le> 1"
proof -
  assume "unique_on key xs"
  moreover have "filter (\<lambda>x. key x = k \<and> P x) xs = filter P (filter (\<lambda>x. key x = k) xs)"
    by (simp add: conj_commute)
  ultimately show ?thesis by (simp add: filter_key_unique split: option.split)
qed

lemma distinct_concat_groups:
  assumes "\<And>x. length (g x) \<le> 1" "\<And>x r. r \<in> set (g x) \<Longrightarrow> f r = k x"
  shows "distinct (map k xs) \<Longrightarrow> distinct (map f (concat (map g xs)))"
proof (induction xs)
  case Nil
  then show ?case by simp
next
  case (Cons x xs)
  have "distinct (map f (g x))" using assms(1) [of x] by (cases "g x") auto
  moreover have "set (map f (g x)) \<subseteq> {k x}" using assms(2) by auto
  moreover have "set (map f (concat (map g xs))) \<subseteq> k ` set xs" using assms(2) by auto
  moreover have "k x \<notin> k ` set xs" using Cons.prems by simp
  ultimately have "set (map f (g x)) \<inter> set (map f (concat (map g xs))) = {}" by blast
  moreover have "distinct (map f (concat (map g xs)))" using Cons by simp
  ultimately show ?case using \<open>distinct (map f (g x))\<close> by simp
qed

lemma find_by_append:
  "find_by key k (xs @ ys) = (case find_by key k xs of None \<Rightarrow> find_by key k ys | Some x \<Rightarrow> Some x)"
  by (induction xs) auto

lemma update_where_Nil [simp]: "update_where p f [] = []"
  by (simp add: update_where_def)

lemma update_where_Cons [simp]:
  "update_where p f (x # xs) = (if p x then f x else x) # update_where p f xs"
  by (simp add: update_where_def)

lemma length_update_where [simp]: "length (update_where p f xs) = length xs"
  by (simp add: update_where_def)

lemma set_update_where: "set (update_where p f xs) = (\<lambda>x. if p x then f x else x) ` set xs"
  by (simp add: update_where_def)

lemma list_all_update_where:
  "list_all P xs \<Longrightarrow> (\<And>x. x \<in> set xs \<Longrightarrow> p x \<Longrightarrow> P x \<Longrightarrow> P (f x)) \<Longrightarrow> list_all P (update_where p f xs)"
  by (auto simp: list_all_iff set_update_where)

lemma update_where_keys [table_simps]:
  "(\<And>x. p x \<Longrightarrow> key (f x) = key x) \<Longrightarrow> map key (update_where p f xs) = map key xs"
  by (induction xs) auto

lemma update_where_key_set [table_simps]:
  "(\<And>x. p x \<Longrightarrow> key (f x) = key x) \<Longrightarrow> key ` set (update_where p f xs) = key ` set xs"
  by (metis set_map update_where_keys)

lemma find_by_update_where [table_simps]:
  "(\<And>x. p x \<Longrightarrow> key (f x) = key x) \<Longrightarrow>
   find_by key k (update_where p f xs) = map_option (\<lambda>x. if p x then f x else x) (find_by key k xs)"
  by (induction xs) auto

lemma find_by_replace:
  "key y = k \<Longrightarrow> find_by key k xs = Some x \<Longrightarrow>
   find_by key k (update_where (\<lambda>x. key x = k) (\<lambda>_. y) xs) = Some y"
  by (induction xs) (auto split: if_splits)

lemma find_by_replace_other:
  "key y = k \<Longrightarrow> k' \<noteq> k \<Longrightarrow>
   find_by key k' (update_where (\<lambda>x. key x = k) (\<lambda>_. y) xs) = find_by key k' xs"
  by (induction xs) auto

lemma update_where_id [simp]: "(\<And>x. x \<in> set xs \<Longrightarrow> \<not> p x) \<Longrightarrow> update_where p f xs = xs"
  by (induction xs) auto

lemma sum_list_map_filter_append:
  "sum_list (map f (filter p (xs @ [x]))) =
   (sum_list (map f (filter p xs)) :: 'b :: comm_monoid_add) + (if p x then f x else 0)"
  by (simp add: add.commute)

lemma sum_list_filter_nonneg:
  "(\<And>x. x \<in> set xs \<Longrightarrow> (0 :: 'b :: ordered_comm_monoid_add) \<le> f x) \<Longrightarrow>
   0 \<le> sum_list (map f (filter p xs))"
  by (intro sum_list_nonneg) auto

section \<open>Python strings\<close>

definition py_space :: "char \<Rightarrow> bool" where
  "py_space c = (let n = (of_char c :: nat) in
     (9 \<le> n \<and> n \<le> 13) \<or> (28 \<le> n \<and> n \<le> 32) \<or> n = 133 \<or> n = 160)"

definition strip_by :: "(char \<Rightarrow> bool) \<Rightarrow> string \<Rightarrow> string" where
  "strip_by p s = rev (dropWhile p (rev (dropWhile p s)))"

abbreviation py_strip :: "string \<Rightarrow> string" where
  "py_strip \<equiv> strip_by py_space"

text \<open>\<open>str.replace(p, r)\<close> for a non-empty \<open>p\<close>: leftmost, non-overlapping.\<close>

function replace_all :: "string \<Rightarrow> string \<Rightarrow> string \<Rightarrow> string" where
  "replace_all p r s = (case s of [] \<Rightarrow> [] | c # cs \<Rightarrow>
     if p \<noteq> [] \<and> take (length p) s = p then r @ replace_all p r (drop (length p) s)
     else c # replace_all p r cs)"
  by pat_completeness auto
termination
  by (relation "measure (\<lambda>(p, r, s). length s)") auto

declare replace_all.simps [simp del]

lemma replace_all_absent: "hd p \<notin> set s \<Longrightarrow> p \<noteq> [] \<Longrightarrow> replace_all p r s = s"
proof (induction s)
  case Nil
  then show ?case by (simp add: replace_all.simps)
next
  case (Cons c cs)
  then have "take (length p) (c # cs) \<noteq> p" by (cases p) auto
  with Cons show ?case by (simp add: replace_all.simps [of p r "c # cs"])
qed

lemma strip_by_id:
  "(s \<noteq> [] \<Longrightarrow> \<not> p (hd s)) \<Longrightarrow> (s \<noteq> [] \<Longrightarrow> \<not> p (last s)) \<Longrightarrow> strip_by p s = s"
proof -
  assume h: "s \<noteq> [] \<Longrightarrow> \<not> p (hd s)" and l: "s \<noteq> [] \<Longrightarrow> \<not> p (last s)"
  have "dropWhile p s = s" using h by (cases s) auto
  moreover have "dropWhile p (rev s) = rev s" using l by (cases s rule: rev_cases) auto
  ultimately show ?thesis by (simp add: strip_by_def)
qed

lemma last_strip_by: "strip_by p s \<noteq> [] \<Longrightarrow> \<not> p (last (strip_by p s))"
proof -
  let ?r = "dropWhile p (rev (dropWhile p s))"
  assume "strip_by p s \<noteq> []"
  then have ne: "?r \<noteq> []" by (simp add: strip_by_def)
  then have "\<not> p (hd ?r)" by (rule hd_dropWhile)
  with ne show ?thesis by (simp add: strip_by_def last_rev)
qed

lemma hd_strip_by: "strip_by p s \<noteq> [] \<Longrightarrow> \<not> p (hd (strip_by p s))"
proof -
  let ?d = "dropWhile p s"
  assume ne: "strip_by p s \<noteq> []"
  then have "?d \<noteq> []" by (metis dropWhile.simps(1) rev.simps(1) strip_by_def)
  then have "\<not> p (hd ?d)" by (rule hd_dropWhile)
  obtain zs where "rev ?d = zs @ dropWhile p (rev ?d)"
    by (metis takeWhile_dropWhile_id)
  then have "?d = rev (dropWhile p (rev ?d)) @ rev zs"
    by (metis rev_append rev_rev_ident)
  with ne have "hd ?d = hd (strip_by p s)"
    by (metis hd_append2 strip_by_def)
  with \<open>\<not> p (hd ?d)\<close> show ?thesis by simp
qed

lemma strip_by_idem [simp]: "strip_by p (strip_by p s) = strip_by p s"
  by (intro strip_by_id) (auto dest: hd_strip_by last_strip_by)

section \<open>Decimal rounding\<close>

text \<open>\<open>ROUND(x, n)\<close> of Postgres \<^verbatim>\<open>NUMERIC\<close>: to \<open>n\<close> digits, halves away from zero.\<close>

definition pg_round :: "nat \<Rightarrow> rat \<Rightarrow> rat" where
  "pg_round n x = (if x < 0 then - (of_int \<lfloor>- x * 10 ^ n + 1 / 2\<rfloor> / 10 ^ n)
                   else of_int \<lfloor>x * 10 ^ n + 1 / 2\<rfloor> / 10 ^ n)"

lemma pg_round_zero [simp]: "pg_round n 0 = 0"
proof -
  have "\<lfloor>1 / 2 :: rat\<rfloor> = 0" by (simp add: floor_eq_iff)
  then show ?thesis by (simp add: pg_round_def)
qed

lemma pg_round_nonneg: "0 \<le> x \<Longrightarrow> 0 \<le> pg_round n x"
  by (simp add: pg_round_def add_nonneg_nonneg)

lemma pg_round_mono_nonneg: "0 \<le> x \<Longrightarrow> x \<le> y \<Longrightarrow> pg_round n x \<le> pg_round n y"
  by (simp add: pg_round_def divide_right_mono floor_mono)

lemma pg_round_error: "0 \<le> x \<Longrightarrow> \<bar>pg_round n x - x\<bar> \<le> 1 / (2 * 10 ^ n)"
proof -
  let ?s = "10 ^ n :: rat"
  let ?m = "of_int \<lfloor>x * ?s + 1 / 2\<rfloor> :: rat"
  assume x: "0 \<le> x"
  have s: "0 < ?s" by simp
  have "?m \<le> x * ?s + 1 / 2" and "x * ?s + 1 / 2 < ?m + 1"
    by linarith+
  then have "\<bar>?m - x * ?s\<bar> \<le> 1 / 2" by linarith
  moreover have "?m / ?s - x = (?m - x * ?s) / ?s" using s by (simp add: field_simps)
  moreover have "\<bar>?m - x * ?s\<bar> / ?s \<le> (1 / 2) / ?s"
    using \<open>\<bar>?m - x * ?s\<bar> \<le> 1 / 2\<close> s by (intro divide_right_mono) auto
  ultimately have "\<bar>?m / ?s - x\<bar> \<le> (1 / 2) / ?s"
    using s by (simp only: abs_divide abs_of_pos)
  moreover have "(1 / 2) / ?s = 1 / (2 * ?s)" by simp
  ultimately show ?thesis using x by (simp add: pg_round_def)
qed

lemma pg_round_of_int: "0 \<le> k \<Longrightarrow> pg_round n (of_int k / 10 ^ n) = of_int k / 10 ^ n"
proof -
  assume "0 \<le> k"
  have "\<lfloor>of_int k / 10 ^ n * 10 ^ n + 1 / 2 :: rat\<rfloor> = k" by (simp add: floor_eq_iff)
  with \<open>0 \<le> k\<close> show ?thesis by (simp add: pg_round_def)
qed

end
