(* ===== verification/Uuids.thy ===== *)
theory Uuids
  imports Prelude
begin

text \<open>
  \<^verbatim>\<open>uuid.UUID\<close> as the services use it: the reader of CPython (\<^verbatim>\<open>uuid.UUID(hex)\<close>, with the whole
  grammar of \<^verbatim>\<open>int(s, 16)\<close>), the canonical writer \<^verbatim>\<open>str(uuid)\<close>, and the two helpers of the
  services built on them, \<^verbatim>\<open>_same_uuid\<close> (accrual engine) and \<^verbatim>\<open>_is_uuid\<close> (listener).
  A UUID value is a natural number below \<open>2 ^ 128\<close>.
\<close>

type_synonym uuid = nat

section \<open>\<open>int(s, 16)\<close>\<close>

definition hex_value :: "char \<Rightarrow> nat option" where
  "hex_value c = (let n = (of_char c :: nat) in
     if 48 \<le> n \<and> n \<le> 57 then Some (n - 48)
     else if 97 \<le> n \<and> n \<le> 102 then Some (n - 87)
     else if 65 \<le> n \<and> n \<le> 70 then Some (n - 55) else None)"

text \<open>Digits with single underscores between them; the flag says that the next character must
  be a digit (at the start and after an underscore).\<close>

fun hex_digits :: "bool \<Rightarrow> nat \<Rightarrow> string \<Rightarrow> nat option" where
  "hex_digits u acc [] = (if u then None else Some acc)"
| "hex_digits u acc (c # cs) =
    (if c = CHR ''_'' then (if u then None else hex_digits True acc cs)
     else case hex_value c of None \<Rightarrow> None | Some d \<Rightarrow> hex_digits False (16 * acc + d) cs)"

definition int_space :: "char \<Rightarrow> bool" where
  "int_space c = (let n = (of_char c :: nat) in
     (9 \<le> n \<and> n \<le> 13) \<or> n = 32 \<or> n = 133 \<or> n = 160)"

fun split_sign :: "string \<Rightarrow> bool \<times> string" where
  "split_sign (c # cs) =
    (if c = CHR ''-'' then (True, cs) else if c = CHR ''+'' then (False, cs)
     else (False, c # cs))"
| "split_sign [] = (False, [])"

fun drop_0x :: "string \<Rightarrow> string" where
  "drop_0x (c # d # cs) =
    (if c = CHR ''0'' \<and> (d = CHR ''x'' \<or> d = CHR ''X'')
     then (case cs of e # es \<Rightarrow> if e = CHR ''_'' then es else cs | [] \<Rightarrow> [])
     else c # d # cs)"
| "drop_0x cs = cs"

definition int_base16 :: "string \<Rightarrow> int option" where
  "int_base16 s = (case split_sign (strip_by int_space s) of (neg, t) \<Rightarrow>
     (case hex_digits True 0 (drop_0x t) of None \<Rightarrow> None
      | Some n \<Rightarrow> Some (if neg then - int n else int n)))"

section \<open>Reading and writing\<close>

definition is_brace :: "char \<Rightarrow> bool" where
  "is_brace c = (c = CHR ''{'' \<or> c = CHR ''}'')"

definition parse_uuid :: "string \<Rightarrow> uuid option" where
  "parse_uuid s =
    (let t = replace_all ''uuid:'' [] (replace_all ''urn:'' [] s);
         h = replace_all ''-'' [] (strip_by is_brace t)
     in if length h \<noteq> 32 then None
        else case int_base16 h of None \<Rightarrow> None
             | Some n \<Rightarrow> if 0 \<le> n \<and> n < 2 ^ 128 then Some (nat n) else None)"

definition hex_char :: "nat \<Rightarrow> char" where
  "hex_char d = (if d < 10 then char_of (48 + d) else char_of (87 + d))"

fun hex_fixed :: "nat \<Rightarrow> nat \<Rightarrow> string" where
  "hex_fixed 0 n = []"
| "hex_fixed (Suc k) n = hex_fixed k (n div 16) @ [hex_char (n mod 16)]"

definition uuid_dashes :: "string \<Rightarrow> string" where
  "uuid_dashes h = take 8 h @ ''-'' @ take 4 (drop 8 h) @ ''-'' @ take 4 (drop 12 h) @ ''-'' @
     take 4 (drop 16 h) @ ''-'' @ drop 20 h"

definition uuid_text :: "uuid \<Rightarrow> string" where
  "uuid_text n = uuid_dashes (hex_fixed 32 n)"

text \<open>\<^verbatim>\<open>_same_uuid(a, b)\<close> of the accrual engine on \<open>str(a)\<close>, \<open>str(b)\<close>: a text that is no UUID is
  never the same. \<^verbatim>\<open>_is_uuid(value)\<close> of the listener on \<open>str(value)\<close>.\<close>

definition same_uuid :: "string \<Rightarrow> string \<Rightarrow> bool" where
  "same_uuid a b = (case (parse_uuid a, parse_uuid b) of
     (Some x, Some y) \<Rightarrow> x = y | _ \<Rightarrow> False)"

definition is_uuid :: "string \<Rightarrow> bool" where
  "is_uuid s = (parse_uuid s \<noteq> None)"

section \<open>The writer's output is read back\<close>

definition hex_lower :: "char set" where
  "hex_lower = set ''0123456789abcdef''"

lemma less_16_cases:
  "(d :: nat) < 16 \<Longrightarrow> d = 0 \<or> d = 1 \<or> d = 2 \<or> d = 3 \<or> d = 4 \<or> d = 5 \<or> d = 6 \<or> d = 7 \<or>
   d = 8 \<or> d = 9 \<or> d = 10 \<or> d = 11 \<or> d = 12 \<or> d = 13 \<or> d = 14 \<or> d = 15"
  by arith

lemma hex_char_lower: "d < 16 \<Longrightarrow> hex_char d \<in> hex_lower"
  by (drule less_16_cases)
    (elim disjE; simp add: hex_char_def hex_lower_def char_of_def bit_Suc_0_iff)

lemma hex_value_char: "d < 16 \<Longrightarrow> hex_value (hex_char d) = Some d"
  by (simp add: hex_value_def hex_char_def Let_def)

lemma length_hex_fixed [simp]: "length (hex_fixed k n) = k"
  by (induction k arbitrary: n) auto

lemma set_hex_fixed: "set (hex_fixed k n) \<subseteq> hex_lower"
  by (induction k arbitrary: n) (auto intro: hex_char_lower)

lemma hex_lower_simps:
  "c \<in> hex_lower \<Longrightarrow> c \<noteq> CHR ''_'' \<and> c \<noteq> CHR ''-'' \<and> c \<noteq> CHR ''+'' \<and> c \<noteq> CHR ''u'' \<and>
     c \<noteq> CHR ''x'' \<and> c \<noteq> CHR ''X'' \<and> \<not> is_brace c \<and> \<not> int_space c"
proof -
  assume "c \<in> hex_lower"
  moreover have "\<forall>c \<in> set ''0123456789abcdef''. c \<noteq> CHR ''_'' \<and> c \<noteq> CHR ''-'' \<and>
    c \<noteq> CHR ''+'' \<and> c \<noteq> CHR ''u'' \<and> c \<noteq> CHR ''x'' \<and> c \<noteq> CHR ''X'' \<and> \<not> is_brace c \<and>
    \<not> int_space c"
    by code_simp
  ultimately show ?thesis by (simp only: hex_lower_def) blast
qed

lemma hex_digits_snoc:
  "hex_digits u acc s = Some v \<Longrightarrow> d < 16 \<Longrightarrow>
   hex_digits u acc (s @ [hex_char d]) = Some (16 * v + d)"
proof (induction u acc s rule: hex_digits.induct)
  case (1 u acc)
  then show ?case
    using hex_value_char [of d] hex_lower_simps [OF hex_char_lower [of d]]
    by (auto split: if_splits)
next
  case (2 u acc c cs)
  then show ?case by (auto split: if_splits option.splits)
qed

lemma hex_digits_hex_fixed:
  "hex_digits True 0 (hex_fixed (Suc k) n) = Some (n mod 16 ^ Suc k)"
proof (induction k arbitrary: n)
  case 0
  have "n mod 16 < 16" by simp
  then show ?case
    using hex_value_char [of "n mod 16"] hex_lower_simps [OF hex_char_lower [of "n mod 16"]]
    by simp
next
  case (Suc k)
  have "hex_digits True 0 (hex_fixed (Suc (Suc k)) n) =
        Some (16 * (n div 16 mod 16 ^ Suc k) + n mod 16)"
    by (subst hex_fixed.simps, rule hex_digits_snoc [OF Suc.IH]) simp
  also have "16 * (n div 16 mod 16 ^ Suc k) + n mod 16 = n mod 16 ^ Suc (Suc k)"
    using mod_mult2_eq [of n 16 "16 ^ Suc k"] by (simp only: power_Suc [of 16 "Suc k"])
  finally show ?case .
qed

lemma replace_all_single: "replace_all [c] [] s = filter (\<lambda>x. x \<noteq> c) s"
proof (induction s)
  case Nil
  then show ?case by (simp add: replace_all.simps)
next
  case (Cons a s)
  then show ?case by (subst replace_all.simps) simp
qed

lemma set_uuid_dashes: "set (uuid_dashes h) \<subseteq> insert (CHR ''-'') (set h)"
proof -
  have "set (take i (drop j h)) \<subseteq> set h" "set (drop j h) \<subseteq> set h" "set (take i h) \<subseteq> set h" for i j
    by (auto dest: in_set_takeD in_set_dropD)
  then show ?thesis by (simp add: uuid_dashes_def) blast
qed

lemma uuid_text_chars: "c \<in> set (uuid_text n) \<Longrightarrow> c \<in> hex_lower \<or> c = CHR ''-''"
  unfolding uuid_text_def using set_uuid_dashes set_hex_fixed by blast

lemma take_drop_chain: "take i (drop j h) @ drop (j + i) h = drop j h"
  by (metis add.commute append_take_drop_id drop_drop)

lemma filter_uuid_dashes:
  "CHR ''-'' \<notin> set h \<Longrightarrow> filter (\<lambda>x. x \<noteq> CHR ''-'') (uuid_dashes h) = h"
proof -
  assume h: "CHR ''-'' \<notin> set h"
  have keep: "set ys \<subseteq> set h \<Longrightarrow> filter (\<lambda>x. x \<noteq> CHR ''-'') ys = ys" for ys
    using h by (auto simp: filter_id_conv)
  have sub: "set (take i (drop j h)) \<subseteq> set h" "set (drop j h) \<subseteq> set h" "set (take i h) \<subseteq> set h"
    for i j by (auto dest: in_set_takeD in_set_dropD)
  have "filter (\<lambda>x. x \<noteq> CHR ''-'') (uuid_dashes h) =
        take 8 h @ take 4 (drop 8 h) @ take 4 (drop 12 h) @ take 4 (drop 16 h) @ drop 20 h"
    by (simp add: uuid_dashes_def keep [OF sub(1)] keep [OF sub(2)] keep [OF sub(3)])
  also have "\<dots> = h"
    using take_drop_chain [of 4 16 h] take_drop_chain [of 4 12 h] take_drop_chain [of 4 8 h]
      take_drop_chain [of 8 0 h] by simp
  finally show ?thesis .
qed

lemma length_uuid_text [simp]: "length (uuid_text n) = 36"
  by (simp add: uuid_text_def uuid_dashes_def del: hex_fixed.simps)

lemma hex_fixed_Cons: "hex_fixed (Suc k) n = hex_char (n div 16 ^ k mod 16) # hex_fixed k n"
  by (induction k arbitrary: n) (simp_all add: div_mult2_eq)

lemma int_base16_hex_fixed:
  "int_base16 (hex_fixed (Suc (Suc k)) n) = Some (int (n mod 16 ^ Suc (Suc k)))"
proof -
  let ?h = "hex_fixed (Suc (Suc k)) n"
  have sp: "\<not> int_space c" if "c \<in> set ?h" for c
    using that set_hex_fixed hex_lower_simps by blast
  have "?h \<noteq> []" by (metis length_hex_fixed list.size(3) nat.distinct(1))
  then have strip: "strip_by int_space ?h = ?h"
    using sp hd_in_set last_in_set by (intro strip_by_id) blast+
  obtain c d cs where h: "?h = c # d # cs" by (metis hex_fixed_Cons)
  then have "c \<in> hex_lower" "d \<in> hex_lower"
    using set_hex_fixed [of "Suc (Suc k)" n] by auto
  then have "split_sign ?h = (False, ?h)" and "drop_0x ?h = ?h"
    using hex_lower_simps h by auto
  then show ?thesis
    using hex_digits_hex_fixed [of "Suc k" n] strip by (simp add: int_base16_def del: hex_fixed.simps)
qed

lemma parse_uuid_text: "n < 2 ^ 128 \<Longrightarrow> parse_uuid (uuid_text n) = Some n"
proof -
  assume n: "n < 2 ^ 128"
  let ?s = "uuid_text n"
  have u: "CHR ''u'' \<notin> set ?s"
    using uuid_text_chars hex_lower_simps by fastforce
  have "\<not> is_brace c" if "c \<in> set ?s" for c
    using uuid_text_chars [OF that] hex_lower_simps by (auto simp: is_brace_def)
  moreover have "?s \<noteq> []" by (metis length_uuid_text list.size(3) zero_neq_numeral)
  ultimately have strip: "strip_by is_brace ?s = ?s"
    using hd_in_set last_in_set by (intro strip_by_id) blast+
  have "CHR ''-'' \<notin> set (hex_fixed 32 n)"
    using set_hex_fixed hex_lower_simps by blast
  then have "replace_all ''-'' [] ?s = hex_fixed 32 n"
    by (simp add: replace_all_single uuid_text_def filter_uuid_dashes del: hex_fixed.simps)
  moreover have "int_base16 (hex_fixed 32 n) = Some (int (n mod 16 ^ 32))"
    using int_base16_hex_fixed [of 30 n] by (simp only: eval_nat_numeral) simp
  moreover have "n mod 16 ^ 32 = n" using n by simp
  ultimately show ?thesis
    using u strip n by (simp add: parse_uuid_def replace_all_absent del: hex_fixed.simps)
qed

lemma uuid_text_inj: "m < 2 ^ 128 \<Longrightarrow> n < 2 ^ 128 \<Longrightarrow> uuid_text m = uuid_text n \<Longrightarrow> m = n"
  by (metis option.inject parse_uuid_text)

lemma parse_uuid_bound: "parse_uuid s = Some n \<Longrightarrow> n < 2 ^ 128"
  by (auto simp: parse_uuid_def Let_def split: if_splits option.splits)

lemma same_uuid_iff: "same_uuid a b \<longleftrightarrow> (\<exists>n. parse_uuid a = Some n \<and> parse_uuid b = Some n)"
  by (auto simp: same_uuid_def split: option.splits)

lemma same_uuid_refl: "is_uuid a \<Longrightarrow> same_uuid a a"
  by (auto simp: same_uuid_iff is_uuid_def)

lemma same_uuid_sym: "same_uuid a b \<Longrightarrow> same_uuid b a"
  by (auto simp: same_uuid_iff)

lemma same_uuid_trans: "same_uuid a b \<Longrightarrow> same_uuid b c \<Longrightarrow> same_uuid a c"
  by (auto simp: same_uuid_iff)

lemma same_uuid_text: "n < 2 ^ 128 \<Longrightarrow> same_uuid (uuid_text n) s \<longleftrightarrow> parse_uuid s = Some n"
  by (auto simp: same_uuid_iff parse_uuid_text)

end
