(* ===== verification/Json.thy ===== *)
theory Json
  imports Uuids
begin

text \<open>
  JSON values as \<^verbatim>\<open>json.loads\<close> / \<^verbatim>\<open>jsonb\<close> give them, Python's truth value and \<^verbatim>\<open>str\<close> of such a value,
  and the reader of \<^verbatim>\<open>decimal.Decimal(text)\<close> (CPython's grammar with its exponent limits).
  A JSON object keeps its members in order; the last duplicate wins.
\<close>

datatype json =
    JNull
  | JBool bool
  | JInt int
  | JFloat rat
  | JStr string
  | JArr "json list"
  | JObj "(string \<times> json) list"

definition members :: "(string \<times> json) list \<Rightarrow> string \<Rightarrow> json option" where
  "members kvs k = map_of (rev kvs) k"

text \<open>\<open>v.get(k)\<close> of a dict: \<open>None\<close> (here \<open>JNull\<close>) where the key is absent.\<close>

definition jget :: "(string \<times> json) list \<Rightarrow> string \<Rightarrow> json" where
  "jget kvs k = (case members kvs k of None \<Rightarrow> JNull | Some v \<Rightarrow> v)"

fun py_truthy :: "json \<Rightarrow> bool" where
  "py_truthy JNull = False"
| "py_truthy (JBool b) = b"
| "py_truthy (JInt i) = (i \<noteq> 0)"
| "py_truthy (JFloat r) = (r \<noteq> 0)"
| "py_truthy (JStr s) = (s \<noteq> [])"
| "py_truthy (JArr vs) = (vs \<noteq> [])"
| "py_truthy (JObj kvs) = (kvs \<noteq> [])"

section \<open>Decimal text\<close>

definition is_digit :: "char \<Rightarrow> bool" where
  "is_digit c = (let n = (of_char c :: nat) in 48 \<le> n \<and> n \<le> 57)"

definition digit_value :: "char \<Rightarrow> nat" where
  "digit_value c = of_char c - 48"

definition digits_nat :: "string \<Rightarrow> nat" where
  "digits_nat ds = foldl (\<lambda>a c. 10 * a + digit_value c) 0 ds"

fun nat_text :: "nat \<Rightarrow> string" where
  "nat_text n = (if n < 10 then [char_of (48 + n)]
                 else nat_text (n div 10) @ [char_of (48 + n mod 10)])"

declare nat_text.simps [simp del]

definition int_text :: "int \<Rightarrow> string" where
  "int_text i = (if i < 0 then ''-'' @ nat_text (nat (- i)) else nat_text (nat i))"

text \<open>
  \<open>str(v)\<close> of a JSON value where it can be the text of a UUID. The text of a float, a list or
  an object never is one (a point, an exponent sign, brackets or quotes are left in it), so
  it is left out.
\<close>

fun json_text :: "json \<Rightarrow> string option" where
  "json_text JNull = Some ''None''"
| "json_text (JBool b) = Some (if b then ''True'' else ''False'')"
| "json_text (JInt i) = Some (int_text i)"
| "json_text (JStr s) = Some s"
| "json_text _ = None"

definition json_is_uuid :: "json \<Rightarrow> bool" where
  "json_is_uuid v = (case json_text v of None \<Rightarrow> False | Some s \<Rightarrow> is_uuid s)"

section \<open>\<open>Decimal(text)\<close>\<close>

datatype py_decimal = Finite rat | Infinite | NotANumber

definition ten_to :: "int \<Rightarrow> rat" where
  "ten_to e = (if 0 \<le> e then 10 ^ nat e else 1 / 10 ^ nat (- e))"

definition signed_digits :: "string \<Rightarrow> int option" where
  "signed_digits s = (case split_sign s of (neg, ds) \<Rightarrow>
     if ds \<noteq> [] \<and> list_all is_digit ds
     then Some (if neg then - int (digits_nat ds) else int (digits_nat ds)) else None)"

fun exponent_part :: "string \<Rightarrow> int option" where
  "exponent_part [] = Some 0"
| "exponent_part (c # cs) =
    (if c = CHR ''e'' \<or> c = CHR ''E'' then signed_digits cs else None)"

fun fraction_part :: "string \<Rightarrow> string \<times> string" where
  "fraction_part (c # cs) =
    (if c = CHR ''.'' then (takeWhile is_digit cs, dropWhile is_digit cs) else ([], c # cs))"
| "fraction_part [] = ([], [])"

text \<open>The limits of the C implementation: an adjusted exponent above
  \<open>999999999999999999\<close> or an exponent below \<open>-1999999999999999997\<close> is refused.\<close>

definition exponent_ok :: "string \<Rightarrow> int \<Rightarrow> bool" where
  "exponent_ok ds e = (let sig = dropWhile (\<lambda>c. c = CHR ''0'') ds;
      adj = (if sig = [] then e else e + int (length sig) - 1)
    in adj \<le> 999999999999999999 \<and> - 1999999999999999997 \<le> e)"

definition decimal_number :: "string \<Rightarrow> rat option" where
  "decimal_number s = (let ip = takeWhile is_digit s in
     case fraction_part (dropWhile is_digit s) of (fp, r) \<Rightarrow>
       if ip = [] \<and> fp = [] then None
       else case exponent_part r of None \<Rightarrow> None
         | Some e \<Rightarrow> let e' = e - int (length fp) in
             if exponent_ok (ip @ fp) e'
             then Some (rat_of_nat (digits_nat (ip @ fp)) * ten_to e') else None)"

definition lower_char :: "char \<Rightarrow> char" where
  "lower_char c = (let n = (of_char c :: nat) in
     if 65 \<le> n \<and> n \<le> 90 then char_of (n + 32) else c)"

definition nan_text :: "string \<Rightarrow> bool" where
  "nan_text s = (let t = map lower_char s in
     (take 3 t = ''nan'' \<and> list_all is_digit (drop 3 t)) \<or>
     (take 4 t = ''snan'' \<and> list_all is_digit (drop 4 t)))"

definition parse_decimal :: "string \<Rightarrow> py_decimal option" where
  "parse_decimal s =
    (case split_sign (filter (\<lambda>c. c \<noteq> CHR ''_'') (py_strip s)) of (neg, t) \<Rightarrow>
       if map lower_char t \<in> {''inf'', ''infinity''} then Some Infinite
       else if nan_text t then Some NotANumber
       else case decimal_number t of None \<Rightarrow> None
            | Some q \<Rightarrow> Some (Finite (if neg then - q else q)))"

lemmas decimal_eval = parse_decimal_def decimal_number_def strip_by_def py_space_def is_digit_def
  digits_nat_def digit_value_def lower_char_def nan_text_def exponent_ok_def signed_digits_def
  ten_to_def Let_def char_of_def bit_Suc_0_iff

lemma parse_decimal_examples:
  "parse_decimal ''12.50'' = Some (Finite (25 / 2))"
  "parse_decimal ''-1_0e-1 '' = Some (Finite (- 1))"
  "parse_decimal ''1e'' = None"
  "parse_decimal ''NaN1'' = Some NotANumber"
  by (simp_all add: decimal_eval)

text \<open>What \<^verbatim>\<open>datetime.fromisoformat\<close> answers: an error, a naive or an aware instant, or an offset that
  leaves the range of \<^verbatim>\<open>datetime\<close> when the instant is taken to UTC.\<close>

datatype iso_result = IsoBad | IsoNaive time | IsoAware time | IsoOverflow

lemma jget_Nil [simp]: "jget [] k = JNull"
  by (simp add: jget_def members_def)

lemma jget_append1: "jget (kvs @ [(k, v)]) k' = (if k' = k then v else jget kvs k')"
  by (simp add: jget_def members_def)

end
