(* ===== verification/Schema.thy ===== *)
theory Schema
  imports Json
begin

text \<open>
  The OLTP schema of Postgres (\<^verbatim>\<open>services/campaign_manager/app/models.py\<close>, migrations 001, 006,
  009 and 010): one record per table the money path uses, the enums, \<^verbatim>\<open>CHAR(4)\<close> comparison,
  \<^verbatim>\<open>NUMERIC(p, s)\<close> storage, and the constraints the database keeps (keys, foreign keys, checks)
  as \<open>db_ok\<close>. A reader that ignores a column (creation times, document versions) is unaffected
  by it, so such columns are left out.
\<close>

datatype campaign_status = DRAFT | ACTIVE | PAUSED | COMPLETED

datatype response_status = RS_PENDING | ACCEPTED | DECLINED | EXPIRED | SNOOZE

datatype consent_status = GRANTED | REVOKED | CS_PENDING

datatype accrual_status = AC_PENDING | PAID

primrec status_text :: "campaign_status \<Rightarrow> string" where
  "status_text DRAFT = ''DRAFT''"
| "status_text ACTIVE = ''ACTIVE''"
| "status_text PAUSED = ''PAUSED''"
| "status_text COMPLETED = ''COMPLETED''"

lemma status_text_inj [simp]: "status_text a = status_text b \<longleftrightarrow> a = b"
  by (cases a; cases b) simp_all

section \<open>Rows\<close>

record user_row =
  us_id :: uuid
  us_external :: string
  us_segment :: "int option"
  us_rfm :: "int option"

record campaign_row =
  ca_id :: uuid
  ca_name :: string
  ca_segments :: "int list"
  ca_rate :: money
  ca_min :: "money option"
  ca_total :: money
  ca_spent :: money
  ca_status :: campaign_status
  ca_start :: time
  ca_end :: time
  ca_channels :: "string list"
  ca_behavior :: bool
  ca_tiers :: "json option"
  ca_daily :: "money option"
  ca_auto_pause :: bool
  ca_rfm_min :: "int option"
  ca_rfm_max :: "int option"
  ca_created_by :: "uuid option"
  ca_archived :: "time option"

record category_row =
  cc_campaign :: uuid
  cc_mcc :: string
  cc_min :: "money option"

record rec_row =
  re_id :: uuid
  re_user :: uuid
  re_campaign :: uuid
  re_mcc :: string
  re_score :: rat
  re_generated :: time
  re_status :: response_status
  re_expires :: time
  re_responded :: "time option"
  re_channel :: "string option"

record consent_row =
  co_id :: uuid
  co_user :: uuid
  co_type :: string
  co_status :: consent_status
  co_created :: time

record accrual_row =
  ac_id :: uuid
  ac_user :: uuid
  ac_campaign :: uuid
  ac_rec :: "uuid option"
  ac_tx :: string
  ac_mcc :: string
  ac_amount :: money
  ac_cashback :: money
  ac_status :: accrual_status
  ac_at :: time
  ac_paid :: "time option"

record db =
  users :: "user_row list"
  campaigns :: "campaign_row list"
  categories :: "category_row list"
  recs :: "rec_row list"
  consents :: "consent_row list"
  accruals :: "accrual_row list"

section \<open>\<open>CHAR(4)\<close> and \<open>NUMERIC\<close>\<close>

text \<open>Trailing blanks do not count in a \<^verbatim>\<open>bpchar\<close> comparison, and \<^verbatim>\<open>bpchar::text\<close> drops them.\<close>

definition rtrim :: "string \<Rightarrow> string" where
  "rtrim s = rev (dropWhile (\<lambda>c. c = CHR '' '') (rev s))"

definition bpchar_eq :: "string \<Rightarrow> string \<Rightarrow> bool" where
  "bpchar_eq a b = (rtrim a = rtrim b)"

lemma bpchar_eq_refl [simp]: "bpchar_eq a a"
  by (simp add: bpchar_eq_def)

text \<open>A value stored in \<^verbatim>\<open>NUMERIC(15, 2)\<close>: rounded to two digits, refused (SQLSTATE 22003) when
  it does not fit.\<close>

definition store_money :: "rat \<Rightarrow> money option" where
  "store_money x = (let r = pg_round 2 x in if \<bar>r\<bar> < 10 ^ 13 then Some r else None)"

text \<open>A value \<^verbatim>\<open>NUMERIC(15, 2)\<close> can hold: a whole number of cents.\<close>

definition cents :: "rat \<Rightarrow> bool" where
  "cents x = (of_int \<lfloor>x * 100\<rfloor> = x * 100)"

lemma cents_iff: "cents x \<longleftrightarrow> (\<exists>k. x = of_int k / 100)"
proof
  assume "cents x"
  then have "of_int \<lfloor>x * 100\<rfloor> = x * 100" by (simp only: cents_def)
  then have "x = of_int \<lfloor>x * 100\<rfloor> / 100" by linarith
  then show "\<exists>k. x = of_int k / 100" by blast
next
  assume "\<exists>k. x = of_int k / 100"
  then show "cents x" by (auto simp: cents_def)
qed

lemma cents_zero [simp]: "cents 0"
  by (simp add: cents_def)

lemma cents_add: "cents x \<Longrightarrow> cents y \<Longrightarrow> cents (x + y)"
  by (auto simp: cents_iff add_divide_distrib [symmetric] simp flip: of_int_add)

lemma cents_pg_round [simp]: "cents (pg_round 2 x)"
  unfolding cents_iff pg_round_def by (auto simp flip: of_int_minus minus_divide_left)

lemma pg_round_cents: "cents x \<Longrightarrow> 0 \<le> x \<Longrightarrow> pg_round 2 x = x"
proof -
  assume "cents x" "0 \<le> x"
  then obtain k where k: "x = of_int k / 100" by (auto simp: cents_iff)
  with \<open>0 \<le> x\<close> have "0 \<le> k" by simp
  then show ?thesis using pg_round_of_int [of k 2] by (simp add: k)
qed

lemma store_money_cents: "cents x \<Longrightarrow> 0 \<le> x \<Longrightarrow> x < 10 ^ 13 \<Longrightarrow> store_money x = Some x"
  by (simp add: store_money_def pg_round_cents)

section \<open>Constraints\<close>

definition paying_accruals :: "accrual_row list \<Rightarrow> accrual_row list" where
  "paying_accruals xs = filter (\<lambda>a. ac_rec a \<noteq> None) xs"

definition keys_ok :: "db \<Rightarrow> bool" where
  "keys_ok d = (unique_on us_id (users d) \<and> unique_on ca_id (campaigns d) \<and>
     unique_on (\<lambda>c. (cc_campaign c, rtrim (cc_mcc c))) (categories d) \<and>
     unique_on re_id (recs d) \<and> unique_on co_id (consents d) \<and> unique_on ac_id (accruals d))"

text \<open>Migrations 001 and 009: \<^verbatim>\<open>uq_accrual_transaction_campaign\<close>, \<^verbatim>\<open>uq_accrual_recommendation\<close> (nulls
  are distinct) and the partial index \<^verbatim>\<open>uq_accrual_transaction\<close>.\<close>

definition accrual_keys_ok :: "accrual_row list \<Rightarrow> bool" where
  "accrual_keys_ok xs = (unique_on ac_id xs \<and> unique_on (\<lambda>a. (ac_tx a, ac_campaign a)) xs \<and>
     unique_on ac_rec (paying_accruals xs) \<and> unique_on ac_tx (paying_accruals xs))"

text \<open>\<^verbatim>\<open>ck_campaign_budget\<close>, \<^verbatim>\<open>ck_campaign_dates\<close>, and the ranges of the money columns (nothing in the
  services writes a negative amount).\<close>

definition campaign_ok :: "campaign_row \<Rightarrow> bool" where
  "campaign_ok c = (ca_spent c \<le> ca_total c \<and> ca_start c \<le> ca_end c \<and> 0 \<le> ca_spent c \<and>
     cents (ca_spent c) \<and> cents (ca_total c) \<and> ca_total c < 10 ^ 13)"

definition checks_ok :: "db \<Rightarrow> bool" where
  "checks_ok d = (list_all campaign_ok (campaigns d) \<and>
     list_all (\<lambda>a. cents (ac_cashback a) \<and> 0 \<le> ac_cashback a) (accruals d))"

lemma checks_ok_campaign: "checks_ok d \<Longrightarrow> find_by ca_id cid (campaigns d) = Some c \<Longrightarrow> campaign_ok c"
  by (auto simp: checks_ok_def list_all_iff dest: find_by_SomeD)

definition refs_ok :: "db \<Rightarrow> bool" where
  "refs_ok d =
    (list_all (\<lambda>c. cc_campaign c \<in> ca_id ` set (campaigns d)) (categories d) \<and>
     list_all (\<lambda>r. re_user r \<in> us_id ` set (users d) \<and> re_campaign r \<in> ca_id ` set (campaigns d))
       (recs d) \<and>
     list_all (\<lambda>a. ac_user a \<in> us_id ` set (users d) \<and> ac_campaign a \<in> ca_id ` set (campaigns d) \<and>
       (case ac_rec a of None \<Rightarrow> True | Some r \<Rightarrow> r \<in> re_id ` set (recs d))) (accruals d))"

definition db_ok :: "db \<Rightarrow> bool" where
  "db_ok d = (keys_ok d \<and> accrual_keys_ok (accruals d) \<and> checks_ok d \<and> refs_ok d)"

lemma db_okI:
  "keys_ok d \<Longrightarrow> accrual_keys_ok (accruals d) \<Longrightarrow> checks_ok d \<Longrightarrow> refs_ok d \<Longrightarrow> db_ok d"
  by (simp add: db_ok_def)

lemma db_okD:
  assumes "db_ok d"
  shows db_ok_keys: "keys_ok d" and db_ok_accruals: "accrual_keys_ok (accruals d)"
    and db_ok_checks: "checks_ok d" and db_ok_refs: "refs_ok d"
  using assms by (simp_all add: db_ok_def)

text \<open>What a campaign has paid according to the ledger, and since an instant.\<close>

definition paid_total :: "db \<Rightarrow> uuid \<Rightarrow> money" where
  "paid_total d cid = sum_list (map ac_cashback (filter (\<lambda>a. ac_campaign a = cid) (accruals d)))"

definition paid_since :: "db \<Rightarrow> uuid \<Rightarrow> time \<Rightarrow> money" where
  "paid_since d cid t =
     sum_list (map ac_cashback (filter (\<lambda>a. ac_campaign a = cid \<and> t \<le> ac_at a) (accruals d)))"

lemma store_money_bound: "store_money x = Some y \<Longrightarrow> \<bar>y\<bar> < 10 ^ 13"
  by (auto simp: store_money_def Let_def split: if_splits)

end
