(* ===== verification/Fsm.thy ===== *)
theory Fsm
  imports Schema
begin

text \<open>
  The campaign state machine: \<^verbatim>\<open>services/campaign_manager/app/fsm.py\<close> (over the strings the service
  uses) and the database's own copy of it, the trigger \<^verbatim>\<open>trg_campaign_status_guard\<close> of migration
  009. The locale \<open>machine\<close> is what every status machine of the repository promises: a terminal state
  allows no action.
\<close>

section \<open>The service's table\<close>

definition STATUSES :: "string list" where
  "STATUSES = [''DRAFT'', ''ACTIVE'', ''PAUSED'', ''COMPLETED'']"

definition ACTIONS :: "string list" where
  "ACTIONS = [''activate'', ''pause'', ''complete'']"

definition TRANSITIONS :: "((string \<times> string) \<times> string) list" where
  "TRANSITIONS =
    [((''DRAFT'', ''activate''), ''ACTIVE''),
     ((''ACTIVE'', ''pause''), ''PAUSED''),
     ((''ACTIVE'', ''complete''), ''COMPLETED''),
     ((''PAUSED'', ''activate''), ''ACTIVE''),
     ((''PAUSED'', ''complete''), ''COMPLETED'')]"

text \<open>\<open>None\<close> is \<^verbatim>\<open>InvalidTransition\<close>.\<close>

definition transition :: "string \<Rightarrow> string \<Rightarrow> string option" where
  "transition current act =
    (if current \<notin> set STATUSES then None
     else if act \<notin> set ACTIONS then None
     else map_of TRANSITIONS (current, act))"

definition can_transition :: "string \<Rightarrow> string \<Rightarrow> bool" where
  "can_transition current act = ((current, act) \<in> fst ` set TRANSITIONS)"

definition allowed_actions :: "string \<Rightarrow> string list" where
  "allowed_actions current = map (snd \<circ> fst) (filter (\<lambda>e. fst (fst e) = current) TRANSITIONS)"

section \<open>The trigger\<close>

definition FSM_TRANSITIONS :: "(string \<times> string) list" where
  "FSM_TRANSITIONS =
    [(''DRAFT'', ''ACTIVE''), (''ACTIVE'', ''PAUSED''), (''ACTIVE'', ''COMPLETED''),
     (''PAUSED'', ''ACTIVE''), (''PAUSED'', ''COMPLETED'')]"

text \<open>Whether the trigger lets an update of \<open>status\<close> from \<open>old\<close> to \<open>new\<close> pass.\<close>

definition status_guard :: "campaign_status \<Rightarrow> campaign_status \<Rightarrow> bool" where
  "status_guard old new =
    (old = new \<or> (status_text old, status_text new) \<in> set FSM_TRANSITIONS)"

text \<open>The status a text of the enum stands for.\<close>

definition status_of :: "string \<Rightarrow> campaign_status option" where
  "status_of s = find (\<lambda>st. status_text st = s) [DRAFT, ACTIVE, PAUSED, COMPLETED]"

section \<open>What the tables say\<close>

lemmas fsm_tables = STATUSES_def ACTIONS_def TRANSITIONS_def FSM_TRANSITIONS_def

lemma status_of_text [simp]: "status_of (status_text st) = Some st"
  by (cases st) (simp_all add: status_of_def)

lemma transition_cases:
  "transition (status_text st) act = Some new \<longleftrightarrow>
   (st = DRAFT \<and> act = ''activate'' \<and> new = ''ACTIVE'') \<or>
   (st = ACTIVE \<and> act = ''pause'' \<and> new = ''PAUSED'') \<or>
   (st = ACTIVE \<and> act = ''complete'' \<and> new = ''COMPLETED'') \<or>
   (st = PAUSED \<and> act = ''activate'' \<and> new = ''ACTIVE'') \<or>
   (st = PAUSED \<and> act = ''complete'' \<and> new = ''COMPLETED'')"
  by (cases st) (auto simp: transition_def fsm_tables)

lemma transition_can: "transition current act \<noteq> None \<longleftrightarrow> can_transition current act"
  unfolding transition_def can_transition_def fsm_tables by simp

lemma allowed_actions_can: "act \<in> set (allowed_actions current) \<longleftrightarrow> can_transition current act"
  by (simp add: allowed_actions_def can_transition_def TRANSITIONS_def)

text \<open>The two state machines agree. A change of status passes the database trigger exactly when it
  is no change or some action of the service's table makes it; and the service offers, admits and
  carries out the same actions.\<close>

theorem fsm_matches_guard:
  "(status_guard old new \<longleftrightarrow> old = new \<or> (\<exists>act. transition (status_text old) act = Some (status_text new))) \<and>
   (act \<in> set (allowed_actions cur) \<longleftrightarrow> transition cur act \<noteq> None)"
proof
  have "(status_text old, status_text new) \<in> set FSM_TRANSITIONS \<longleftrightarrow>
      (\<exists>act. transition (status_text old) act = Some (status_text new))"
    unfolding transition_cases by (cases old; cases new) (simp_all add: FSM_TRANSITIONS_def)
  then show "status_guard old new \<longleftrightarrow>
      old = new \<or> (\<exists>act. transition (status_text old) act = Some (status_text new))"
    by (simp only: status_guard_def)
  show "act \<in> set (allowed_actions cur) \<longleftrightarrow> transition cur act \<noteq> None"
    using transition_can allowed_actions_can by simp
qed

section \<open>Status machines\<close>

text \<open>A refused action leaves the state as it is.\<close>

definition try_step :: "('s \<Rightarrow> 'a \<Rightarrow> 's option) \<Rightarrow> 's \<Rightarrow> 'a \<Rightarrow> 's" where
  "try_step step s act = (case step s act of None \<Rightarrow> s | Some t \<Rightarrow> t)"

locale machine =
  fixes step :: "'s \<Rightarrow> 'a \<Rightarrow> 's option" and final :: "'s \<Rightarrow> bool" and known :: "'s \<Rightarrow> bool"
  assumes final_stops: "final s \<Longrightarrow> step s act = None"
    and step_known: "step s act = Some t \<Longrightarrow> known s \<and> known t"
begin

lemma final_stays: "final s \<Longrightarrow> foldl (try_step step) s acts = s"
  by (induction acts) (simp_all add: try_step_def final_stops)

lemma known_stays: "known s \<Longrightarrow> known (foldl (try_step step) s acts)"
  by (induction acts arbitrary: s) (auto simp: try_step_def dest: step_known split: option.splits)

lemma final_reached:
  assumes "final (foldl (try_step step) s as)"
  shows "foldl (try_step step) s (as @ bs) = foldl (try_step step) s as"
  using final_stays [OF assms] by simp

end

lemma transition_known: "transition s act = Some t \<Longrightarrow> s \<in> set STATUSES \<and> t \<in> set STATUSES"
  by (auto simp: transition_def fsm_tables split: if_splits)

interpretation camp: machine transition "\<lambda>s. s = ''COMPLETED''" "\<lambda>s. s \<in> set STATUSES"
  by unfold_locales (auto simp: transition_def fsm_tables split: if_splits)

end
