(* ===== verification/Faults.thy ===== *)
theory Faults
  imports Prelude
begin

text \<open>
  Exceptions as values: the class name, the message, the SQLSTATE attribute asyncpg errors carry,
  SQLAlchemy's \<^verbatim>\<open>orig\<close> and Python's \<^verbatim>\<open>__cause__\<close>. \<open>sqlstate_of\<close> and \<open>is_retryable\<close> are
  \<^verbatim>\<open>_sqlstate\<close> and \<^verbatim>\<open>is_retryable\<close> of the transaction listener.
\<close>

datatype exn = Exn (ex_class: string) (ex_msg: string) (ex_state: "string option")
    (ex_orig: "exn option") (ex_cause: "exn option")

text \<open>The walk along \<open>orig\<close> or \<open>__cause__\<close>; a value has no cycles, so the guard against them
  (\<^verbatim>\<open>seen\<close>) has nothing to do here.\<close>

fun sqlstate_of :: "exn \<Rightarrow> string option" where
  "sqlstate_of (Exn cls msg (Some (c # cs)) orig cause) = Some (c # cs)"
| "sqlstate_of (Exn cls msg st (Some e) cause) = sqlstate_of e"
| "sqlstate_of (Exn cls msg st None (Some e)) = sqlstate_of e"
| "sqlstate_of (Exn cls msg st None None) = None"

definition permanent_classes :: "string list" where
  "permanent_classes = [''22'', ''23'']"

definition is_retryable :: "exn \<Rightarrow> bool" where
  "is_retryable e =
    (if ex_class e = ''PermanentMessageError'' then False
     else case sqlstate_of e of
       Some st \<Rightarrow> take 2 st \<notin> set permanent_classes
     | None \<Rightarrow> \<not> (ex_class e = ''RedisResponseError'' \<and> take 9 (ex_msg e) = ''WRONGTYPE''))"

text \<open>An error Postgres reports, as asyncpg and SQLAlchemy hand it on, and other failures.\<close>

definition pg_error :: "string \<Rightarrow> exn" where
  "pg_error st = Exn ''DBAPIError'' [] None (Some (Exn ''PostgresError'' [] (Some st) None None)) None"

definition permanent_error :: "string \<Rightarrow> exn" where
  "permanent_error msg = Exn ''PermanentMessageError'' msg None None None"

lemma sqlstate_pg_error: "st \<noteq> [] \<Longrightarrow> sqlstate_of (pg_error st) = Some st"
  by (cases st) (simp_all add: pg_error_def)

lemma retryable_pg_error: "st \<noteq> [] \<Longrightarrow> is_retryable (pg_error st) \<longleftrightarrow> take 2 st \<notin> {''22'', ''23''}"
  using sqlstate_pg_error by (simp add: is_retryable_def permanent_classes_def) (simp add: pg_error_def)

lemma permanent_error_final [simp]: "\<not> is_retryable (permanent_error msg)"
  by (simp add: is_retryable_def permanent_error_def)

text \<open>The answer of an HTTP handler: a result, an \<^verbatim>\<open>HTTPException\<close> of a status, or an exception that
  leaves the handler (a 500).\<close>

datatype 'a answer = Reply 'a | Reject nat | Crash exn

text \<open>An exception of Python itself.\<close>

definition py_error :: "string \<Rightarrow> exn" where
  "py_error cls = Exn cls [] None None None"

text \<open>Redis answers an operation on a key of another type with an error.\<close>

definition redis_wrongtype :: exn where
  "redis_wrongtype = Exn ''RedisResponseError'' ''WRONGTYPE Operation against a key'' None None None"

end
