(* ===== verification/Payloads.thy ===== *)
theory Payloads
  imports Fsm Faults
begin

text \<open>
  The campaign schemas of \<^verbatim>\<open>services/campaign_manager/app/schemas.py\<close>: \<open>campaign_base\<close> is
  \<^verbatim>\<open>CampaignBase\<close>, extended to the body of \<^verbatim>\<open>POST /campaigns\<close> and to \<^verbatim>\<open>CampaignResponse\<close> (which runs
  the same validators again), \<open>campaign_update\<close> is the body of \<^verbatim>\<open>PATCH\<close>, where a field is absent or
  given, an explicit null included. A pydantic validator that raises \<^verbatim>\<open>ValueError\<close> refuses the value
  (\<open>Inr False\<close>, a 422); any other exception leaves the request (\<open>Inl\<close>).
  A string is a list of the code points below 256; outside them no character is a digit that
  the validators accept and the database's \<^verbatim>\<open>CHAR(4)\<close> could hold as a merchant code in use.
\<close>

section \<open>Times\<close>

text \<open>A \<^verbatim>\<open>datetime\<close> with or without a time zone; an aware one as microseconds of UTC, a naive one as
  microseconds of its own clock face.\<close>

datatype py_time = Naive time | Aware time

text \<open>\<^verbatim>\<open>a <= b\<close>; mixed operands raise \<^verbatim>\<open>TypeError\<close>.\<close>

fun py_time_le :: "py_time \<Rightarrow> py_time \<Rightarrow> exn + bool" where
  "py_time_le (Naive a) (Naive b) = Inr (a \<le> b)"
| "py_time_le (Aware a) (Aware b) = Inr (a \<le> b)"
| "py_time_le _ _ = Inl (py_error ''TypeError'')"

text \<open>\<^verbatim>\<open>_aware\<close>, as an instant of UTC.\<close>

primrec aware :: "py_time \<Rightarrow> time" where
  "aware (Naive t) = t"
| "aware (Aware t) = t"

section \<open>\<open>CampaignBase\<close>\<close>

record campaign_base =
  cb_name :: string
  cb_segments :: "int list"
  cb_rate :: rat
  cb_min :: "rat option"
  cb_total :: rat
  cb_start :: py_time
  cb_end :: py_time
  cb_channels :: "string list"
  cb_behavior :: bool
  cb_tiers :: "json option"
  cb_daily :: "rat option"
  cb_auto_pause :: bool
  cb_rfm_min :: "int option"
  cb_rfm_max :: "int option"

definition ALLOWED_CHANNELS :: "string list" where
  "ALLOWED_CHANNELS = [''ONLINE'', ''POS'', ''ATM'', ''MOBILE'']"

definition channels_known :: "string list \<Rightarrow> bool" where
  "channels_known chs = list_all (\<lambda>ch. ch \<in> set ALLOWED_CHANNELS) chs"

definition opt_ok :: "('a \<Rightarrow> bool) \<Rightarrow> 'a option \<Rightarrow> bool" where
  "opt_ok p x = (case x of None \<Rightarrow> True | Some v \<Rightarrow> p v)"

lemma opt_ok_simps [simp]: "opt_ok p None" "opt_ok p (Some v) = p v"
  by (simp_all add: opt_ok_def)

definition name_ok :: "string \<Rightarrow> bool" where
  "name_ok s = (1 \<le> length s \<and> length s \<le> 255)"

definition rfm_range :: "int \<Rightarrow> bool" where
  "rfm_range v = (1 \<le> v \<and> v \<le> 5)"

text \<open>\<^verbatim>\<open>list[dict]\<close>\<close>

definition tiers_typed :: "json \<Rightarrow> bool" where
  "tiers_typed j = (case j of JArr vs \<Rightarrow> list_all (\<lambda>v. case v of JObj _ \<Rightarrow> True | _ \<Rightarrow> False) vs | _ \<Rightarrow> False)"

definition base_fields_ok :: "'a campaign_base_scheme \<Rightarrow> bool" where
  "base_fields_ok b = (name_ok (cb_name b) \<and> cb_segments b \<noteq> [] \<and> 0 \<le> cb_rate b \<and> cb_rate b \<le> 100 \<and>
     opt_ok (\<lambda>m. 0 \<le> m) (cb_min b) \<and> 0 < cb_total b \<and> opt_ok tiers_typed (cb_tiers b) \<and>
     opt_ok (\<lambda>l. 0 < l) (cb_daily b) \<and> opt_ok rfm_range (cb_rfm_min b) \<and>
     opt_ok rfm_range (cb_rfm_max b) \<and> channels_known (cb_channels b))"

definition rfm_consistent :: "int option \<Rightarrow> int option \<Rightarrow> bool" where
  "rfm_consistent lo hi = (case (lo, hi) of (Some a, Some b) \<Rightarrow> a \<le> b | _ \<Rightarrow> True)"

definition wizard_consistent :: "'a campaign_base_scheme \<Rightarrow> bool" where
  "wizard_consistent b = (rfm_consistent (cb_rfm_min b) (cb_rfm_max b) \<and>
     opt_ok (\<lambda>l. l \<le> cb_total b) (cb_daily b))"

text \<open>Field validators first, then \<^verbatim>\<open>_dates_consistent\<close>, then \<^verbatim>\<open>_wizard_fields_consistent\<close>.\<close>

definition validate_base :: "'a campaign_base_scheme \<Rightarrow> exn + bool" where
  "validate_base b =
    (if \<not> base_fields_ok b then Inr False
     else case py_time_le (cb_end b) (cb_start b) of
       Inl e \<Rightarrow> Inl e
     | Inr le \<Rightarrow> Inr (\<not> le \<and> wizard_consistent b))"

section \<open>\<open>CampaignCreate\<close>\<close>

record campaign_create = campaign_base +
  cr_mccs :: "string list"
  cr_min_tx :: "(string \<times> rat) list option"

text \<open>\<^verbatim>\<open>^\d{4}$\<close> with \<^verbatim>\<open>match\<close>: \<^verbatim>\<open>$\<close> also matches before a final newline.\<close>

definition four_digits :: "string \<Rightarrow> bool" where
  "four_digits s = (length s = 4 \<and> list_all is_digit s)"

definition mcc_re :: "string \<Rightarrow> bool" where
  "mcc_re s = (four_digits s \<or> (s \<noteq> [] \<and> last s = CHR 0x0A \<and> four_digits (butlast s)))"

definition mcc_codes_valid :: "string list \<Rightarrow> bool" where
  "mcc_codes_valid codes = list_all mcc_re codes"

definition validate_create :: "campaign_create \<Rightarrow> exn + bool" where
  "validate_create p =
    (if cr_mccs p = [] \<or> \<not> mcc_codes_valid (cr_mccs p) then Inr False else validate_base p)"

section \<open>\<open>CampaignUpdate\<close>\<close>

datatype 'a field = Unset | Given "'a option"

record campaign_update =
  cu_name :: "string field"
  cu_segments :: "int list field"
  cu_rate :: "rat field"
  cu_min :: "rat field"
  cu_total :: "rat field"
  cu_start :: "py_time field"
  cu_end :: "py_time field"
  cu_channels :: "string list field"
  cu_behavior :: "bool field"
  cu_tiers :: "json field"
  cu_daily :: "rat field"
  cu_auto_pause :: "bool field"
  cu_rfm_min :: "int field"
  cu_rfm_max :: "int field"
  cu_mccs :: "string list field"
  cu_min_tx :: "(string \<times> rat) list field"

primrec field_value :: "'a field \<Rightarrow> 'a option" where
  "field_value Unset = None"
| "field_value (Given v) = v"

definition given_null :: "'a field \<Rightarrow> bool" where
  "given_null f = (f = Given None)"

text \<open>\<^verbatim>\<open>setattr\<close> of a nullable and of a required column.\<close>

primrec set_opt :: "'a field \<Rightarrow> 'a option \<Rightarrow> 'a option" where
  "set_opt Unset old = old"
| "set_opt (Given v) old = v"

definition set_req :: "'a field \<Rightarrow> 'a \<Rightarrow> 'a" where
  "set_req f old = (case field_value f of None \<Rightarrow> old | Some v \<Rightarrow> v)"

lemma set_req_simps [simp]:
  "set_req Unset old = old" "set_req (Given (Some v)) old = v" "set_req (Given None) old = old"
  by (simp_all add: set_req_def)

lemma given_null_simps [simp]: "\<not> given_null Unset" "\<not> given_null (Given (Some v))" "given_null (Given None)"
  by (simp_all add: given_null_def)

definition validate_update :: "campaign_update \<Rightarrow> bool" where
  "validate_update p =
    (opt_ok name_ok (field_value (cu_name p)) \<and> opt_ok (\<lambda>s. s \<noteq> []) (field_value (cu_segments p)) \<and>
     opt_ok (\<lambda>r. 0 \<le> r \<and> r \<le> 100) (field_value (cu_rate p)) \<and>
     opt_ok (\<lambda>m. 0 \<le> m) (field_value (cu_min p)) \<and> opt_ok (\<lambda>t. 0 < t) (field_value (cu_total p)) \<and>
     opt_ok channels_known (field_value (cu_channels p)) \<and>
     opt_ok tiers_typed (field_value (cu_tiers p)) \<and>
     opt_ok (\<lambda>c. c \<noteq> [] \<and> mcc_codes_valid c) (field_value (cu_mccs p)) \<and>
     opt_ok (\<lambda>l. 0 < l) (field_value (cu_daily p)) \<and>
     opt_ok rfm_range (field_value (cu_rfm_min p)) \<and> opt_ok rfm_range (field_value (cu_rfm_max p)) \<and>
     rfm_consistent (field_value (cu_rfm_min p)) (field_value (cu_rfm_max p)))"

section \<open>\<open>CampaignResponse\<close>\<close>

record campaign_response = campaign_base +
  rs_id :: uuid
  rs_spent :: rat
  rs_status :: string
  rs_mccs :: "string list"
  rs_created_by :: "uuid option"
  rs_min_tx :: "(string \<times> rat) list"
  rs_archived :: "time option"

text \<open>Building the response: its validators raise \<^verbatim>\<open>ValidationError\<close> inside the handler, which nothing
  turns into a 4xx.\<close>

definition build_response :: "campaign_response \<Rightarrow> campaign_response answer" where
  "build_response r =
    (case validate_base r of
       Inl e \<Rightarrow> Crash e
     | Inr ok \<Rightarrow> if ok then Reply r else Crash (py_error ''ValidationError''))"

lemma build_response_reply: "build_response r = Reply x \<Longrightarrow> x = r \<and> validate_base r = Inr True"
  by (auto simp: build_response_def split: sum.splits if_splits)

lemma build_response_no_reject [simp]: "build_response r \<noteq> Reject n"
  by (auto simp: build_response_def split: sum.split)

text \<open>What the second case lets through does not fit \<^verbatim>\<open>CHAR(4)\<close>.\<close>

lemma mcc_re_newline: "mcc_re (''5411'' @ [CHR 0x0A]) \<and> length (''5411'' @ [CHR 0x0A]) = 5"
  by (simp add: mcc_re_def four_digits_def is_digit_def)

end
