(* ===== verification/Cashback.thy ===== *)
theory Cashback
  imports Schema "HOL-Library.Multiset"
begin

text \<open>
  \<^verbatim>\<open>calculate_cashback(campaign, mcc, amount)\<close> of migration 009: the category and minimum guards,
  the flat rate, and the loop over \<^verbatim>\<open>rate_tiers\<close> with its early \<^verbatim>\<open>EXIT\<close>. The reference definition
  is the closed sum over the tiers (\<open>tier_sum\<close>); the lemmas show that the loop computes it, in any
  order of the tiers, and bound the result.

  \<open>num_in\<close> stands for Postgres' \<^verbatim>\<open>text::NUMERIC\<close> (\<open>None\<close>: refused, SQLSTATE 22P02). Arithmetic is
  exact: \<^verbatim>\<open>NUMERIC\<close> keeps every digit of a sum or a product, and of the division by 100 while the
  product is below \<open>10 ^ 12\<close> and the rate has at most four decimals.
\<close>

type_synonym sqlstate = string
type_synonym tier = "money \<times> money option \<times> money option"

section \<open>The tiers of a campaign\<close>

text \<open>\<^verbatim>\<open>(value->>'key')::NUMERIC\<close>: SQL NULL (\<open>None\<close>) for an absent key, a JSON null or a value that is
  no object; the text of a boolean, a list or an object is no number.\<close>

fun json_numeric :: "(string \<Rightarrow> rat option) \<Rightarrow> json \<Rightarrow> sqlstate + money option" where
  "json_numeric num_in JNull = Inr None"
| "json_numeric num_in (JInt i) = Inr (Some (of_int i))"
| "json_numeric num_in (JFloat r) = Inr (Some r)"
| "json_numeric num_in (JStr s) =
    (case num_in s of None \<Rightarrow> Inl ''22P02'' | Some r \<Rightarrow> Inr (Some r))"
| "json_numeric num_in _ = Inl ''22P02''"

fun json_field :: "json \<Rightarrow> string \<Rightarrow> json" where
  "json_field (JObj kvs) k = jget kvs k"
| "json_field _ k = JNull"

definition tier_row :: "(string \<Rightarrow> rat option) \<Rightarrow> json \<Rightarrow> sqlstate + tier" where
  "tier_row num_in v =
    (case json_numeric num_in (json_field v ''min_amount'') of Inl e \<Rightarrow> Inl e
     | Inr mn \<Rightarrow>
      (case (if json_field v ''max_amount'' = JStr [] then Inr None
             else json_numeric num_in (json_field v ''max_amount'')) of Inl e \<Rightarrow> Inl e
       | Inr mx \<Rightarrow>
        (case json_numeric num_in (json_field v ''rate'') of Inl e \<Rightarrow> Inl e
         | Inr rt \<Rightarrow> Inr (case mn of None \<Rightarrow> 0 | Some m \<Rightarrow> m, mx, rt))))"

fun tier_rows :: "(string \<Rightarrow> rat option) \<Rightarrow> json list \<Rightarrow> sqlstate + tier list" where
  "tier_rows num_in [] = Inr []"
| "tier_rows num_in (v # vs) =
    (case tier_row num_in v of Inl e \<Rightarrow> Inl e
     | Inr t \<Rightarrow> (case tier_rows num_in vs of Inl e \<Rightarrow> Inl e | Inr ts \<Rightarrow> Inr (t # ts)))"

section \<open>The loop\<close>

definition tier_segment :: "money \<Rightarrow> tier \<Rightarrow> money" where
  "tier_segment amt t = (case t of (mn, mx, rt) \<Rightarrow>
     min amt (case mx of None \<Rightarrow> amt | Some m \<Rightarrow> m) - mn)"

fun tier_loop :: "money \<Rightarrow> money option \<Rightarrow> tier list \<Rightarrow> money option" where
  "tier_loop amt acc [] = acc"
| "tier_loop amt acc ((mn, mx, rt) # ts) =
    (if amt \<le> mn then acc
     else let seg = tier_segment amt (mn, mx, rt) in
       tier_loop amt
         (if 0 < seg
          then (case (acc, rt) of (Some a, Some r) \<Rightarrow> Some (a + seg * r / 100) | _ \<Rightarrow> None)
          else acc) ts)"

definition tiers_cashback :: "money \<Rightarrow> tier list \<Rightarrow> money option" where
  "tiers_cashback amt ts = map_option (pg_round 2) (tier_loop amt (Some 0) (sort_key fst ts))"

section \<open>\<open>calculate_cashback\<close>\<close>

definition category_of :: "db \<Rightarrow> uuid \<Rightarrow> string \<Rightarrow> category_row option" where
  "category_of d cid mcc = find (\<lambda>c. cc_campaign c = cid \<and> bpchar_eq (cc_mcc c) mcc) (categories d)"

definition min_amount :: "campaign_row \<Rightarrow> category_row \<Rightarrow> money option" where
  "min_amount c cc = (case cc_min cc of None \<Rightarrow> ca_min c | Some m \<Rightarrow> Some m)"

definition scale_tiers :: "campaign_row \<Rightarrow> json list" where
  "scale_tiers c = (case ca_tiers c of Some (JArr vs) \<Rightarrow> vs | _ \<Rightarrow> [])"

definition calculate_cashback ::
  "(string \<Rightarrow> rat option) \<Rightarrow> db \<Rightarrow> uuid \<Rightarrow> string \<Rightarrow> money \<Rightarrow> sqlstate + money option" where
  "calculate_cashback num_in d cid mcc amt =
    (case find_by ca_id cid (campaigns d) of
       None \<Rightarrow> Inl ''P0001''
     | Some c \<Rightarrow>
      (case category_of d cid mcc of
         None \<Rightarrow> Inr (Some 0)
       | Some cc \<Rightarrow>
          if (case min_amount c cc of None \<Rightarrow> False | Some m \<Rightarrow> amt < m) then Inr (Some 0)
          else if scale_tiers c = [] then Inr (Some (pg_round 2 (amt * ca_rate c / 100)))
          else (case tier_rows num_in (scale_tiers c) of
                  Inl e \<Rightarrow> Inl e
                | Inr ts \<Rightarrow> Inr (tiers_cashback amt ts))))"

section \<open>The loop is the sum over the tiers\<close>

definition tier_part :: "money \<Rightarrow> tier \<Rightarrow> money" where
  "tier_part amt t = max 0 (tier_segment amt t) * (case snd (snd t) of None \<Rightarrow> 0 | Some r \<Rightarrow> r) / 100"

definition tier_sum :: "money \<Rightarrow> tier list \<Rightarrow> money" where
  "tier_sum amt ts = sum_list (map (tier_part amt) ts)"

abbreviation rated :: "tier list \<Rightarrow> bool" where
  "rated ts \<equiv> (\<forall>t \<in> set ts. snd (snd t) \<noteq> None)"

lemma tier_segment_beyond: "amt \<le> fst t \<Longrightarrow> tier_segment amt t \<le> 0"
  by (auto simp: tier_segment_def split: option.splits prod.splits)

lemma tier_sum_beyond: "(\<And>t. t \<in> set ts \<Longrightarrow> amt \<le> fst t) \<Longrightarrow> tier_sum amt ts = 0"
proof (induction ts)
  case Nil
  then show ?case by (simp add: tier_sum_def)
next
  case (Cons t ts)
  then have "tier_segment amt t \<le> 0" by (intro tier_segment_beyond) simp
  then have "tier_part amt t = 0" by (simp add: tier_part_def max_def)
  with Cons show ?case by (simp add: tier_sum_def)
qed

lemma tier_loop_sum:
  "sorted (map fst ts) \<Longrightarrow> rated ts \<Longrightarrow> tier_loop amt (Some a) ts = Some (a + tier_sum amt ts)"
proof (induction ts arbitrary: a)
  case Nil
  then show ?case by (simp add: tier_sum_def)
next
  case (Cons t ts)
  obtain mn mx r where t: "t = (mn, mx, Some r)" using Cons.prems(2) by (cases t) auto
  show ?case
  proof (cases "amt \<le> mn")
    case True
    with Cons.prems(1) t have "tier_sum amt (t # ts) = 0"
      by (intro tier_sum_beyond) (auto simp: order_trans)
    with True t show ?thesis by simp
  next
    case False
    have "tier_part amt t = (if 0 < tier_segment amt t then tier_segment amt t * r / 100 else 0)"
      by (simp add: tier_part_def t max_def)
    with False Cons t show ?thesis by (simp add: tier_sum_def Let_def algebra_simps)
  qed
qed

lemma tier_sum_perm: "mset ts = mset us \<Longrightarrow> tier_sum amt ts = tier_sum amt us"
  by (metis mset_map sum_mset_sum_list tier_sum_def)

lemma tiers_cashback_sum: "rated ts \<Longrightarrow> tiers_cashback amt ts = Some (pg_round 2 (tier_sum amt ts))"
proof -
  assume "rated ts"
  then have "tier_loop amt (Some 0) (sort_key fst ts) = Some (0 + tier_sum amt (sort_key fst ts))"
    by (intro tier_loop_sum) auto
  moreover have "tier_sum amt (sort_key fst ts) = tier_sum amt ts"
    by (rule tier_sum_perm) simp
  ultimately show ?thesis by (simp add: tiers_cashback_def)
qed

section \<open>Bounds\<close>

lemma tier_segment_mono: "amt \<le> amt' \<Longrightarrow> tier_segment amt t \<le> tier_segment amt' t"
  by (auto simp: tier_segment_def split: option.splits prod.splits)

abbreviation rates_within :: "money \<Rightarrow> tier list \<Rightarrow> bool" where
  "rates_within cap ts \<equiv> (\<forall>t \<in> set ts. \<exists>r. snd (snd t) = Some r \<and> 0 \<le> r \<and> r \<le> cap)"

lemma rates_within_rated: "rates_within cap ts \<Longrightarrow> rated ts"
  by auto

lemma tier_part_nonneg: "snd (snd t) = Some r \<Longrightarrow> 0 \<le> r \<Longrightarrow> 0 \<le> tier_part amt t"
  by (simp add: tier_part_def)

lemma tier_part_mono:
  "snd (snd t) = Some r \<Longrightarrow> 0 \<le> r \<Longrightarrow> amt \<le> amt' \<Longrightarrow> tier_part amt t \<le> tier_part amt' t"
  using tier_segment_mono [of amt amt' t]
  by (auto simp: tier_part_def intro!: divide_right_mono mult_right_mono)

lemma tier_sum_nonneg: "rates_within cap ts \<Longrightarrow> 0 \<le> tier_sum amt ts"
  unfolding tier_sum_def by (intro sum_list_nonneg) (auto intro: tier_part_nonneg)

lemma tier_sum_mono: "rates_within cap ts \<Longrightarrow> amt \<le> amt' \<Longrightarrow> tier_sum amt ts \<le> tier_sum amt' ts"
  unfolding tier_sum_def by (intro sum_list_mono) (auto intro: tier_part_mono)

text \<open>Tiers that do not overlap, from \<open>lo\<close> on.\<close>

fun disjoint_from :: "money \<Rightarrow> tier list \<Rightarrow> bool" where
  "disjoint_from lo [] = True"
| "disjoint_from lo ((mn, mx, rt) # ts) =
    (lo \<le> mn \<and> (case mx of None \<Rightarrow> ts = [] | Some m \<Rightarrow> mn \<le> m \<and> disjoint_from m ts))"

lemma tier_sum_le_top:
  "disjoint_from lo ts \<Longrightarrow> rates_within cap ts \<Longrightarrow> 0 \<le> cap \<Longrightarrow>
   tier_sum amt ts \<le> max 0 (amt - lo) * cap / 100"
proof (induction ts arbitrary: lo)
  case Nil
  then show ?case by (simp add: tier_sum_def)
next
  case (Cons t ts)
  obtain mn mx r where t: "t = (mn, mx, Some r)" and r: "0 \<le> r" "r \<le> cap"
    using Cons.prems(2) by (cases t) auto
  have part: "tier_part amt t \<le> max 0 (tier_segment amt t) * cap / 100"
    using r by (simp add: tier_part_def t mult_left_mono)
  show ?case
  proof (cases mx)
    case None
    then have "ts = []" and "lo \<le> mn" using Cons.prems(1) t by simp_all
    then have "max 0 (tier_segment amt t) \<le> max 0 (amt - lo)"
      using t None by (simp add: tier_segment_def)
    then have "max 0 (tier_segment amt t) * cap / 100 \<le> max 0 (amt - lo) * cap / 100"
      using Cons.prems(3) by (simp add: mult_right_mono)
    with part \<open>ts = []\<close> show ?thesis by (simp add: tier_sum_def)
  next
    case (Some m)
    then have lo: "lo \<le> mn" "mn \<le> m" "disjoint_from m ts" using Cons.prems(1) t by simp_all
    have "tier_sum amt ts \<le> max 0 (amt - m) * cap / 100"
      using Cons.IH [OF lo(3)] Cons.prems by simp
    moreover have "max 0 (tier_segment amt t) + max 0 (amt - m) \<le> max 0 (amt - lo)"
      using t Some lo by (simp add: tier_segment_def max_def min_def)
    then have "(max 0 (tier_segment amt t) + max 0 (amt - m)) * cap / 100 \<le> max 0 (amt - lo) * cap / 100"
      using Cons.prems(3) by (simp add: mult_right_mono)
    ultimately show ?thesis using part by (simp add: tier_sum_def algebra_simps)
  qed
qed

section \<open>The function as a whole\<close>

lemma calculate_cashback_tiers:
  assumes "find_by ca_id cid (campaigns d) = Some c" "category_of d cid mcc = Some cc"
    and "case min_amount c cc of None \<Rightarrow> True | Some m \<Rightarrow> m \<le> amt"
    and "scale_tiers c \<noteq> []" "tier_rows num_in (scale_tiers c) = Inr ts"
  shows "calculate_cashback num_in d cid mcc amt = Inr (tiers_cashback amt ts)"
  using assms by (auto simp: calculate_cashback_def split: option.splits)

text \<open>The function reads one campaign row and its category; nothing else of the database matters,
  and of the campaign not even its budget.\<close>

lemma category_of_accruals [frame_simps]: "category_of (d\<lparr>accruals := xs\<rparr>) = category_of d"
  by (simp add: category_of_def fun_eq_iff)

lemma calculate_cashback_frame [frame_simps]:
  "(\<And>c. ca_id (f c) = ca_id c \<and> ca_min (f c) = ca_min c \<and> ca_tiers (f c) = ca_tiers c \<and>
      ca_rate (f c) = ca_rate c) \<Longrightarrow>
   calculate_cashback num_in (d\<lparr>campaigns := update_where p f (campaigns d)\<rparr>) cid mcc amt =
   calculate_cashback num_in d cid mcc amt"
  by (auto simp: calculate_cashback_def category_of_def find_by_update_where min_amount_def
      scale_tiers_def split: option.splits)

lemma calculate_cashback_accruals [frame_simps]:
  "calculate_cashback num_in (d\<lparr>accruals := xs\<rparr>) cid mcc amt = calculate_cashback num_in d cid mcc amt"
  by (simp add: calculate_cashback_def category_of_accruals split: option.split)

lemma calculate_cashback_cents: "calculate_cashback num_in d cid mcc amt = Inr (Some x) \<Longrightarrow> cents x"
  by (auto simp: calculate_cashback_def tiers_cashback_def split: option.splits if_splits sum.splits)

text \<open>C23: When a campaign has rate tiers that all carry a rate, \<open>calculate_cashback\<close> pays the sum of
  every tier's share of the amount, rounded to cents, whatever the order in which the tiers are
  stored or in which the sort breaks ties: the early exit of the loop loses nothing.\<close>

theorem cashback_is_tier_sum:
  assumes "find_by ca_id cid (campaigns d) = Some c" "category_of d cid mcc = Some cc"
    and "case min_amount c cc of None \<Rightarrow> True | Some m \<Rightarrow> m \<le> amt"
    and "scale_tiers c \<noteq> []" "tier_rows num_in (scale_tiers c) = Inr ts" "rated ts"
    and "mset us = mset ts"
  shows "calculate_cashback num_in d cid mcc amt = Inr (Some (pg_round 2 (tier_sum amt us)))"
  using assms by (simp add: calculate_cashback_tiers tiers_cashback_sum tier_sum_perm [OF assms(7)])

definition sample_tiers :: "json list" where
  "sample_tiers =
    [JObj [(''min_amount'', JInt 5000), (''max_amount'', JNull), (''rate'', JInt 2)],
     JObj [(''min_amount'', JInt 0), (''max_amount'', JInt 5000), (''rate'', JInt 1)]]"

definition sample_campaign :: campaign_row where
  "sample_campaign = \<lparr>ca_id = 7, ca_name = ''spring'', ca_segments = [], ca_rate = 5, ca_min = Some 100,
     ca_total = 1000, ca_spent = 0, ca_status = ACTIVE, ca_start = 0, ca_end = 10 ^ 15,
     ca_channels = [], ca_behavior = False, ca_tiers = Some (JArr sample_tiers), ca_daily = None,
     ca_auto_pause = True, ca_rfm_min = None, ca_rfm_max = None, ca_created_by = None,
     ca_archived = None\<rparr>"

definition sample_db :: db where
  "sample_db = \<lparr>users = [\<lparr>us_id = 3, us_external = ''u1'', us_segment = Some 3, us_rfm = Some 4\<rparr>],
     campaigns = [sample_campaign],
     categories = [\<lparr>cc_campaign = 7, cc_mcc = ''5411'', cc_min = None\<rparr>],
     recs = [\<lparr>re_id = 9, re_user = 3, re_campaign = 7, re_mcc = ''5411'', re_score = 1 / 2,
       re_generated = 0, re_status = ACCEPTED, re_expires = 10 ^ 14, re_responded = Some 10,
       re_channel = None\<rparr>],
     consents = [\<lparr>co_id = 5, co_user = 3, co_type = ''personalised_cashback'', co_status = GRANTED,
       co_created = 0\<rparr>],
     accruals = []\<rparr>"

lemmas sample_defs = sample_tiers_def sample_campaign_def sample_db_def

lemma sample_db_find [simp]: "find_by ca_id 7 (campaigns sample_db) = Some sample_campaign"
  by (simp add: sample_defs)

lemma sample_tier_rows:
  "tier_rows (\<lambda>_. None) (scale_tiers sample_campaign) = Inr [(5000, None, Some 2), (0, Some 5000, Some 1)]"
  by (simp add: sample_defs scale_tiers_def tier_row_def jget_def members_def)

lemma sample_category:
  "category_of sample_db 7 ''5411'' = Some \<lparr>cc_campaign = 7, cc_mcc = ''5411'', cc_min = None\<rparr>"
  by (simp add: sample_defs category_of_def)

theorem cashback_is_tier_sum_witness:
  "calculate_cashback (\<lambda>_. None) sample_db 7 ''5411'' 6000 =
   Inr (Some (pg_round 2 (tier_sum 6000 [(0, Some 5000, Some 1), (5000, None, Some 2)])))"
  by (rule cashback_is_tier_sum [OF sample_db_find sample_category _ _ sample_tier_rows])
    (simp_all add: sample_defs min_amount_def scale_tiers_def)

text \<open>C28: With tiers that do not overlap and rates between 0 and a cap, the payout lies between 0 and
  the cap's share of the amount (both rounded to cents): the scale never pays one part twice.\<close>

theorem cashback_within_cap:
  assumes "find_by ca_id cid (campaigns d) = Some c" "category_of d cid mcc = Some cc"
    and "case min_amount c cc of None \<Rightarrow> True | Some m \<Rightarrow> m \<le> amt"
    and "scale_tiers c \<noteq> []" "tier_rows num_in (scale_tiers c) = Inr ts"
    and "disjoint_from 0 (sort_key fst ts)" "rates_within cap ts" "0 \<le> cap" "0 \<le> amt"
  shows "\<exists>x. calculate_cashback num_in d cid mcc amt = Inr (Some x) \<and> 0 \<le> x \<and>
    x \<le> pg_round 2 (amt * cap / 100)"
proof -
  have "tier_sum amt (sort_key fst ts) \<le> max 0 (amt - 0) * cap / 100"
    using assms by (intro tier_sum_le_top) auto
  moreover have "tier_sum amt (sort_key fst ts) = tier_sum amt ts"
    by (rule tier_sum_perm) simp
  ultimately have "tier_sum amt ts \<le> amt * cap / 100" using assms by simp
  moreover have "0 \<le> tier_sum amt ts" using assms(7) by (rule tier_sum_nonneg)
  ultimately show ?thesis
    using assms(1-5) rates_within_rated [OF assms(7)]
    by (simp add: calculate_cashback_tiers tiers_cashback_sum pg_round_nonneg pg_round_mono_nonneg)
qed

theorem cashback_within_cap_witness:
  "\<exists>x. calculate_cashback (\<lambda>_. None) sample_db 7 ''5411'' 6000 = Inr (Some x) \<and> 0 \<le> x \<and>
    x \<le> pg_round 2 (6000 * 2 / 100)"
  by (rule cashback_within_cap [OF sample_db_find sample_category _ _ sample_tier_rows])
    (simp_all add: sample_defs min_amount_def scale_tiers_def)

end
