(* ===== verification/Eligibility.thy ===== *)
theory Eligibility
  imports Cashback "HOL-Library.Product_Lexorder"
begin

text \<open>
  \<^verbatim>\<open>eligible_campaigns(user, mcc, amount, at)\<close> of migration 009, the one definition of who gets which
  campaign: its joins, its \<^verbatim>\<open>WHERE\<close> clause condition by condition, the latest consent, the money
  spent since the start of the UTC day, and its order. The interface the clients rely on (accrual
  engine, recommendation API, \<^verbatim>\<open>GET /campaigns/applicable\<close>) is the locale \<open>eligibility\<close>.
\<close>

record elig_row =
  el_id :: uuid
  el_mcc :: string
  el_rate :: money
  el_tiers :: "json option"
  el_min :: "money option"
  el_channels :: "string list"
  el_total :: money
  el_spent :: money
  el_daily :: "money option"
  el_today :: money
  el_start :: time
  el_end :: time
  el_name :: string

section \<open>The parts of the query\<close>

definition newer :: "consent_row \<Rightarrow> consent_row \<Rightarrow> bool" where
  "newer a b = (co_created b < co_created a \<or> (co_created a = co_created b \<and> co_id b < co_id a))"

definition later_consent :: "consent_row \<Rightarrow> consent_row option \<Rightarrow> consent_row option" where
  "later_consent c best = (case best of None \<Rightarrow> Some c | Some b \<Rightarrow> if newer c b then Some c else Some b)"

definition latest_consent :: "db \<Rightarrow> uuid \<Rightarrow> consent_row option" where
  "latest_consent d u =
     fold later_consent (filter (\<lambda>c. co_user c = u \<and> co_type c = ''personalised_cashback'') (consents d)) None"

definition consent_granted :: "db \<Rightarrow> uuid \<Rightarrow> bool" where
  "consent_granted d u = (case latest_consent d u of None \<Rightarrow> False | Some c \<Rightarrow> co_status c = GRANTED)"

definition spent_today :: "time \<Rightarrow> db \<Rightarrow> uuid \<Rightarrow> time \<Rightarrow> money" where
  "spent_today now d cid tm = paid_since d cid (floor_day (min tm now))"

definition segment_ok :: "user_row \<Rightarrow> campaign_row \<Rightarrow> bool" where
  "segment_ok u c = (ca_segments c = [] \<or>
     (case us_segment u of None \<Rightarrow> False | Some s \<Rightarrow> s \<in> set (ca_segments c)))"

definition rfm_ok :: "user_row \<Rightarrow> campaign_row \<Rightarrow> bool" where
  "rfm_ok u c = ((ca_rfm_min c = None \<and> ca_rfm_max c = None) \<or>
     (case us_rfm u of None \<Rightarrow> False
      | Some s \<Rightarrow> (case ca_rfm_min c of None \<Rightarrow> True | Some m \<Rightarrow> m \<le> s) \<and>
                  (case ca_rfm_max c of None \<Rightarrow> True | Some m \<Rightarrow> s \<le> m)))"

definition amount_ok :: "money option \<Rightarrow> campaign_row \<Rightarrow> category_row \<Rightarrow> bool" where
  "amount_ok amt c cc = (case amt of None \<Rightarrow> True
     | Some a \<Rightarrow> (case min_amount c cc of None \<Rightarrow> 0 | Some m \<Rightarrow> m) \<le> a)"

definition elig_where ::
  "time \<Rightarrow> db \<Rightarrow> user_row \<Rightarrow> money option \<Rightarrow> time \<Rightarrow> category_row \<Rightarrow> campaign_row \<Rightarrow> bool" where
  "elig_where now d u amt tm cc c =
    (ca_status c = ACTIVE \<and> ca_archived c = None \<and> ca_start c \<le> tm \<and> tm < ca_end c \<and>
     amount_ok amt c cc \<and> segment_ok u c \<and> consent_granted d (us_id u) \<and> rfm_ok u c \<and>
     0 < ca_total c - ca_spent c \<and>
     (case ca_daily c of None \<Rightarrow> True | Some l \<Rightarrow> spent_today now d (ca_id c) tm < l))"

definition elig_of :: "time \<Rightarrow> db \<Rightarrow> time \<Rightarrow> category_row \<Rightarrow> campaign_row \<Rightarrow> elig_row" where
  "elig_of now d tm cc c =
    \<lparr>el_id = ca_id c, el_mcc = rtrim (cc_mcc cc), el_rate = ca_rate c, el_tiers = ca_tiers c,
     el_min = min_amount c cc, el_channels = ca_channels c, el_total = ca_total c,
     el_spent = ca_spent c, el_daily = ca_daily c, el_today = spent_today now d (ca_id c) tm,
     el_start = ca_start c, el_end = ca_end c, el_name = ca_name c\<rparr>"

text \<open>The rows before \<^verbatim>\<open>ORDER BY\<close>: users, categories and campaigns joined.\<close>

definition elig_join ::
  "time \<Rightarrow> db \<Rightarrow> uuid \<Rightarrow> string \<Rightarrow> money option \<Rightarrow> time \<Rightarrow> elig_row list" where
  "elig_join now d uid mcc amt tm =
    concat (map (\<lambda>u. concat (map (\<lambda>cc.
        map (elig_of now d tm cc)
          (filter (\<lambda>c. ca_id c = cc_campaign cc \<and> elig_where now d u amt tm cc c) (campaigns d)))
      (filter (\<lambda>cc. bpchar_eq (cc_mcc cc) mcc) (categories d))))
    (filter (\<lambda>u. us_id u = uid) (users d)))"

definition eligible_campaigns ::
  "time \<Rightarrow> db \<Rightarrow> uuid \<Rightarrow> string \<Rightarrow> money option \<Rightarrow> time \<Rightarrow> elig_row list" where
  "eligible_campaigns now d uid mcc amt tm =
     sort_key (\<lambda>r. (- el_rate r, - el_start r, el_id r)) (elig_join now d uid mcc amt tm)"

section \<open>What the rows are\<close>

lemma eligible_iff:
  "r \<in> set (eligible_campaigns now d uid mcc amt tm) \<longleftrightarrow>
   (\<exists>u cc c. u \<in> set (users d) \<and> us_id u = uid \<and> cc \<in> set (categories d) \<and>
      bpchar_eq (cc_mcc cc) mcc \<and> c \<in> set (campaigns d) \<and> ca_id c = cc_campaign cc \<and>
      elig_where now d u amt tm cc c \<and> r = elig_of now d tm cc c)"
  by (auto simp: eligible_campaigns_def elig_join_def)

lemma eligible_sorted:
  "sorted (map (\<lambda>r. (- el_rate r, - el_start r, el_id r)) (eligible_campaigns now d uid mcc amt tm))"
  by (simp add: eligible_campaigns_def)

section \<open>The latest consent\<close>

lemma newer_trans: "\<not> newer a b \<Longrightarrow> newer c b \<Longrightarrow> \<not> newer a c"
  by (auto simp: newer_def)

lemma newer_irrefl [simp]: "\<not> newer a a"
  by (simp add: newer_def)

lemma fold_later_consent:
  "fold later_consent cs (Some b) = Some m \<Longrightarrow>
   m \<in> insert b (set cs) \<and> (\<forall>c \<in> insert b (set cs). \<not> newer c m)"
proof (induction cs arbitrary: b)
  case Nil
  then show ?case by simp
next
  case (Cons c cs)
  show ?case
  proof (cases "newer c b")
    case True
    then have IH: "m \<in> insert c (set cs)" "\<forall>c' \<in> insert c (set cs). \<not> newer c' m"
      using Cons by (simp_all add: later_consent_def)
    moreover have "\<not> newer b m" using IH(2) True newer_def by fastforce
    ultimately show ?thesis by auto
  next
    case False
    then have "m \<in> insert b (set cs)" "\<forall>c' \<in> insert b (set cs). \<not> newer c' m"
      using Cons by (simp_all add: later_consent_def)
    moreover from this have "\<not> newer c m" using False newer_def by fastforce
    ultimately show ?thesis by auto
  qed
qed

lemma fold_later_consent_Some: "\<exists>m. fold later_consent cs (Some b) = Some m"
  by (induction cs arbitrary: b) (auto simp: later_consent_def)

lemma latest_consent_latest:
  assumes "latest_consent d u = Some m"
  shows "m \<in> set (consents d)" "co_user m = u" "co_type m = ''personalised_cashback''"
    and "c \<in> set (consents d) \<Longrightarrow> co_user c = u \<Longrightarrow> co_type c = ''personalised_cashback'' \<Longrightarrow>
         \<not> newer c m"
proof -
  let ?cs = "filter (\<lambda>c. co_user c = u \<and> co_type c = ''personalised_cashback'') (consents d)"
  obtain b bs where bs: "?cs = b # bs" using assms by (cases ?cs) (auto simp: latest_consent_def)
  then have "fold later_consent bs (Some b) = Some m"
    using assms by (simp add: latest_consent_def later_consent_def)
  then have m: "m \<in> set ?cs" "\<forall>c \<in> set ?cs. \<not> newer c m"
    using fold_later_consent [of bs b m] bs by auto
  then show "m \<in> set (consents d)" "co_user m = u" "co_type m = ''personalised_cashback''" by auto
  show "\<not> newer c m" if "c \<in> set (consents d)" "co_user c = u" "co_type c = ''personalised_cashback''"
    using m(2) that by auto
qed

section \<open>One row per campaign\<close>

lemma elig_rows_distinct:
  assumes "unique_on ca_id cs" "distinct (map cc_campaign ccs)"
  shows "distinct (map el_id (concat (map (\<lambda>cc. map (elig_of now d tm cc)
           (filter (\<lambda>c. ca_id c = cc_campaign cc \<and> P cc c) cs)) ccs)))"
proof (rule distinct_concat_groups [OF _ _ assms(2)])
  show "length (map (elig_of now d tm cc) (filter (\<lambda>c. ca_id c = cc_campaign cc \<and> P cc c) cs)) \<le> 1" for cc
    using filter_key_le_1 [OF assms(1)] by simp
qed (auto simp: elig_of_def)

lemma category_campaigns_distinct:
  "unique_on (\<lambda>c. (cc_campaign c, rtrim (cc_mcc c))) ccs \<Longrightarrow>
   distinct (map cc_campaign (filter (\<lambda>cc. bpchar_eq (cc_mcc cc) mcc) ccs))"
  by (induction ccs) (auto simp: bpchar_eq_def rev_image_eqI)

lemma elig_join_distinct:
  assumes "keys_ok d"
  shows "distinct (map el_id (elig_join now d uid mcc amt tm))"
proof -
  have "elig_join now d uid mcc amt tm = (case find_by us_id uid (users d) of None \<Rightarrow> [] | Some u \<Rightarrow>
      concat (map (\<lambda>cc. map (elig_of now d tm cc)
          (filter (\<lambda>c. ca_id c = cc_campaign cc \<and> elig_where now d u amt tm cc c) (campaigns d)))
      (filter (\<lambda>cc. bpchar_eq (cc_mcc cc) mcc) (categories d))))"
    using assms by (simp add: elig_join_def keys_ok_def filter_key_unique split: option.splits)
  then show ?thesis
    using assms by (simp add: keys_ok_def elig_rows_distinct category_campaigns_distinct
        split: option.split)
qed

lemma distinct_sort_key_map: "distinct (map f (sort_key k xs)) \<longleftrightarrow> distinct (map f xs)"
  by (metis mset_eq_imp_distinct_iff mset_map mset_sort)

lemma eligible_distinct: "keys_ok d \<Longrightarrow> distinct (map el_id (eligible_campaigns now d uid mcc amt tm))"
  by (simp add: eligible_campaigns_def distinct_sort_key_map elig_join_distinct)

section \<open>The contract\<close>

definition open_campaign :: "campaign_row \<Rightarrow> time \<Rightarrow> bool" where
  "open_campaign c tm = (ca_status c = ACTIVE \<and> ca_archived c = None \<and> ca_start c \<le> tm \<and>
     tm < ca_end c \<and> ca_spent c < ca_total c)"

text \<open>A row reports a campaign: the numbers a client decides on are those of the tables.\<close>

definition reports :: "elig_row \<Rightarrow> campaign_row \<Rightarrow> category_row \<Rightarrow> bool" where
  "reports r c cc = (el_rate r = ca_rate c \<and> el_tiers r = ca_tiers c \<and> el_total r = ca_total c \<and>
     el_spent r = ca_spent c \<and> el_daily r = ca_daily c \<and> el_min r = min_amount c cc \<and>
     el_channels r = ca_channels c)"

locale eligibility =
  fixes elig :: "time \<Rightarrow> db \<Rightarrow> uuid \<Rightarrow> string \<Rightarrow> money option \<Rightarrow> time \<Rightarrow> elig_row list"
  assumes elig_row: "keys_ok d \<Longrightarrow> r \<in> set (elig now d uid mcc amt tm) \<Longrightarrow>
      \<exists>c cc. find_by ca_id (el_id r) (campaigns d) = Some c \<and> category_of d (el_id r) mcc = Some cc \<and>
        open_campaign c tm \<and> reports r c cc \<and> amount_ok amt c cc"
    and elig_today: "r \<in> set (elig now d uid mcc amt tm) \<Longrightarrow> el_today r = spent_today now d (el_id r) tm"
    and elig_daily: "r \<in> set (elig now d uid mcc amt tm) \<Longrightarrow> el_daily r = Some l \<Longrightarrow> el_today r < l"
    and elig_consent: "r \<in> set (elig now d uid mcc amt tm) \<Longrightarrow> consent_granted d uid"
    and elig_once: "keys_ok d \<Longrightarrow> distinct (map el_id (elig now d uid mcc amt tm))"
begin

lemma elig_without_consent: "\<not> consent_granted d uid \<Longrightarrow> elig now d uid mcc amt tm = []"
  using elig_consent by (metis list.set_intros(1) neq_Nil_conv)

lemma elig_budget_left:
  "keys_ok d \<Longrightarrow> r \<in> set (elig now d uid mcc amt tm) \<Longrightarrow> el_spent r < el_total r"
  using elig_row by (force simp: open_campaign_def reports_def)

text \<open>What a client sees that asks for one campaign.\<close>

lemma elig_pick:
  assumes "keys_ok d" "find_by el_id cid (elig now d uid mcc amt tm) = Some r"
  obtains c cc where "find_by ca_id cid (campaigns d) = Some c" "category_of d cid mcc = Some cc"
    "open_campaign c tm" "reports r c cc" "amount_ok amt c cc" "el_today r = spent_today now d cid tm"
    "consent_granted d uid"
proof -
  have r: "r \<in> set (elig now d uid mcc amt tm)" "el_id r = cid"
    using find_by_SomeD [OF assms(2)] by auto
  with that elig_row [OF assms(1) r(1)] elig_today [OF r(1)] elig_consent [OF r(1)] show thesis by auto
qed

lemma elig_cashback:
  assumes "keys_ok d" "r \<in> set (elig now d uid mcc (Some a) tm)"
  shows "calculate_cashback num_in d (el_id r) mcc a =
    (case el_tiers r of
       Some (JArr (v # vs)) \<Rightarrow> (case tier_rows num_in (v # vs) of Inl e \<Rightarrow> Inl e | Inr ts \<Rightarrow> Inr (tiers_cashback a ts))
     | _ \<Rightarrow> Inr (Some (pg_round 2 (a * el_rate r / 100))))"
proof -
  obtain c cc where c: "find_by ca_id (el_id r) (campaigns d) = Some c"
      "category_of d (el_id r) mcc = Some cc" "reports r c cc" "amount_ok (Some a) c cc"
    using elig_row [OF assms] by blast
  from c(4) have "\<not> (case min_amount c cc of None \<Rightarrow> False | Some m \<Rightarrow> a < m)"
    by (auto simp: amount_ok_def split: option.splits)
  with c(1-3) show ?thesis
    by (auto simp: calculate_cashback_def reports_def scale_tiers_def
        split: option.splits json.splits list.splits sum.splits)
qed

end

lemma category_of_row:
  "keys_ok d \<Longrightarrow> cc \<in> set (categories d) \<Longrightarrow> bpchar_eq (cc_mcc cc) mcc \<Longrightarrow>
   category_of d (cc_campaign cc) mcc = Some cc"
proof -
  assume k: "keys_ok d" and cc: "cc \<in> set (categories d)" "bpchar_eq (cc_mcc cc) mcc"
  let ?key = "\<lambda>c. (cc_campaign c, rtrim (cc_mcc c))"
  have "category_of d (cc_campaign cc) mcc = find_by ?key (?key cc) (categories d)"
    using cc(2) by (simp add: category_of_def find_by_def bpchar_eq_def)
  also have "\<dots> = Some cc"
    using k cc(1) find_by_unique [of ?key "categories d" cc] by (simp only: keys_ok_def)
  finally show ?thesis .
qed

lemma eligible_row:
  assumes "keys_ok d" "r \<in> set (eligible_campaigns now d uid mcc amt tm)"
  shows "\<exists>c cc. find_by ca_id (el_id r) (campaigns d) = Some c \<and> category_of d (el_id r) mcc = Some cc \<and>
     open_campaign c tm \<and> reports r c cc \<and> amount_ok amt c cc"
proof -
  obtain u cc c where h: "cc \<in> set (categories d)" "bpchar_eq (cc_mcc cc) mcc" "c \<in> set (campaigns d)"
      "ca_id c = cc_campaign cc" "elig_where now d u amt tm cc c" "r = elig_of now d tm cc c"
    using assms(2) by (auto simp: eligible_iff)
  have "find_by ca_id (el_id r) (campaigns d) = Some c"
    using assms(1) h(3) by (simp add: h(6) elig_of_def keys_ok_def find_by_unique)
  moreover have "category_of d (el_id r) mcc = Some cc"
    using category_of_row [OF assms(1) h(1,2)] h(4,6) by (simp add: elig_of_def)
  ultimately show ?thesis
    using h(5,6) by (auto simp: elig_where_def open_campaign_def reports_def elig_of_def)
qed

interpretation elg: eligibility eligible_campaigns
proof
  show "el_today r = spent_today now d (el_id r) tm"
    if "r \<in> set (eligible_campaigns now d uid mcc amt tm)" for r now d uid mcc amt tm
    using that by (auto simp: eligible_iff elig_of_def)
  show "el_today r < l" if "r \<in> set (eligible_campaigns now d uid mcc amt tm)" "el_daily r = Some l"
    for r now d uid mcc amt tm l
    using that by (auto simp: eligible_iff elig_of_def elig_where_def)
  show "consent_granted d uid" if "r \<in> set (eligible_campaigns now d uid mcc amt tm)"
    for r now d uid mcc amt tm
    using that by (auto simp: eligible_iff elig_where_def)
qed (rule eligible_row, assumption+, rule eligible_distinct, assumption)

text \<open>Withdrawing consent stops everything: once a client's newest consent record is not GRANTED
  (wherever the table keeps it), no campaign is eligible for any MCC, amount or instant.\<close>

theorem revoked_consent_blocks:
  assumes "consents d = xs @ k # ys" "co_user k = uid" "co_type k = ''personalised_cashback''"
    and "co_status k \<noteq> GRANTED"
    and "\<forall>c \<in> set (xs @ ys). co_user c = uid \<longrightarrow> newer k c"
  shows "eligible_campaigns now d uid mcc amt tm = []"
proof (rule elg.elig_without_consent)
  show "\<not> consent_granted d uid"
  proof (cases "latest_consent d uid")
    case None
    then show ?thesis by (simp add: consent_granted_def)
  next
    case (Some m)
    note m = latest_consent_latest [OF Some]
    have "\<not> newer k m" using m(4) [of k] assms(1-3) by simp
    then have "m = k" using m(1,2) assms(1,5) by auto
    with Some assms(4) show ?thesis by (simp add: consent_granted_def)
  qed
qed

theorem revoked_consent_blocks_witness:
  "eligible_campaigns 5 (sample_db\<lparr>consents := consents sample_db @
     [\<lparr>co_id = 2, co_user = 3, co_type = ''personalised_cashback'', co_status = REVOKED, co_created = 4\<rparr>]\<rparr>)
     3 ''5411'' None 6 = []"
  by (rule revoked_consent_blocks [where xs = "consents sample_db" and ys = "[]" and
      k = "\<lparr>co_id = 2, co_user = 3, co_type = ''personalised_cashback'', co_status = REVOKED, co_created = 4\<rparr>"])
    (simp_all add: sample_db_def newer_def)

text \<open>The two SQL functions agree: for every row of \<open>eligible_campaigns\<close> asked with an amount,
  \<open>calculate_cashback\<close> raises no "campaign not found" and takes neither of its zero branches; it
  pays the row's scale (or its flat rate).\<close>

theorem eligible_is_calculable:
  assumes "keys_ok d" "r \<in> set (eligible_campaigns now d uid mcc (Some a) tm)"
  shows "calculate_cashback num_in d (el_id r) mcc a =
    (case el_tiers r of
       Some (JArr (v # vs)) \<Rightarrow> (case tier_rows num_in (v # vs) of Inl e \<Rightarrow> Inl e | Inr ts \<Rightarrow> Inr (tiers_cashback a ts))
     | _ \<Rightarrow> Inr (Some (pg_round 2 (a * el_rate r / 100))))"
  by (rule elg.elig_cashback [OF assms])

lemma sample_keys_ok: "keys_ok sample_db"
  by (simp add: keys_ok_def sample_db_def sample_campaign_def)

lemma sample_eligible:
  "eligible_campaigns 50 sample_db 3 ''5411'' (Some 6000) 60 =
   [elig_of 50 sample_db 60 \<lparr>cc_campaign = 7, cc_mcc = ''5411'', cc_min = None\<rparr> sample_campaign]"
  by (simp add: eligible_campaigns_def elig_join_def sample_db_def sample_campaign_def elig_where_def
      amount_ok_def min_amount_def segment_ok_def consent_granted_def latest_consent_def
      later_consent_def rfm_ok_def)

theorem eligible_is_calculable_witness:
  "calculate_cashback (\<lambda>_. None) sample_db 7 ''5411'' 6000 =
   (case tier_rows (\<lambda>_. None) sample_tiers of Inl e \<Rightarrow> Inl e | Inr ts \<Rightarrow> Inr (tiers_cashback 6000 ts))"
  using eligible_is_calculable [OF sample_keys_ok, of _ 50 3 "''5411''" 6000 60 "\<lambda>_. None",
      unfolded sample_eligible, OF list.set_intros(1)]
  by (simp add: elig_of_def sample_campaign_def sample_tiers_def)

end
