(* ===== verification/Campaigns.thy ===== *)
theory Campaigns
  imports Payloads Eligibility
begin

text \<open>
  The campaign endpoints (\<^verbatim>\<open>services/campaign_manager/app/api/campaigns.py\<close>) that write: create, edit,
  delete, archive and the status change, each as one database transaction.

  \<open>cm_env\<close> says what happens around one call: failures of its statements, what other transactions
  commit before a statement (\<open>ce_world\<close>), whether a commit whose reply is lost was applied, the
  clocks, the fresh id, the driver's reading of a naive time (\<open>ce_local\<close>) and the admin accounts that
  \<^verbatim>\<open>created_by\<close> may refer to. A failed statement and a Python error are a \<open>Crash\<close> (a 500).
\<close>

section \<open>One transaction\<close>

datatype cstmt = CLoad | CHistory | CWrite | CReload | CCommit

record cm_env =
  ce_fault :: "cstmt \<Rightarrow> exn option"
  ce_world :: "cstmt \<Rightarrow> db \<Rightarrow> db"
  ce_applied :: bool
  ce_now :: time
  ce_clock :: time
  ce_local :: "time \<Rightarrow> time"
  ce_id :: uuid
  ce_admin :: "uuid \<Rightarrow> bool"

text \<open>A statement sees what others committed before it.\<close>

definition at_stmt :: "cm_env \<Rightarrow> cstmt \<Rightarrow> db \<Rightarrow> (db \<Rightarrow> 'a answer \<times> db) \<Rightarrow> 'a answer \<times> db" where
  "at_stmt env st d k =
    (let d1 = ce_world env st d in
     case ce_fault env st of Some e \<Rightarrow> (Crash e, d1) | None \<Rightarrow> k d1)"

text \<open>The statements' effect \<open>w\<close> becomes visible with the commit.\<close>

definition commit :: "cm_env \<Rightarrow> db \<Rightarrow> (exn + db) \<Rightarrow> (db \<Rightarrow> 'a answer \<times> db) \<Rightarrow> 'a answer \<times> db" where
  "commit env d w k =
    (case w of
       Inl e \<Rightarrow> (Crash e, d)
     | Inr d1 \<Rightarrow>
        (case ce_fault env CCommit of
           None \<Rightarrow> k d1
         | Some e \<Rightarrow> (Crash e, if ce_applied env then d1 else d)))"

section \<open>Columns\<close>

definition int4_ok :: "int \<Rightarrow> bool" where
  "int4_ok i = (- (2 ^ 31) \<le> i \<and> i < 2 ^ 31)"

text \<open>\<^verbatim>\<open>NUMERIC(5, 2)\<close> and \<^verbatim>\<open>CHAR(4)\<close>\<close>

definition store_rate :: "rat \<Rightarrow> money option" where
  "store_rate x = (let r = pg_round 2 x in if \<bar>r\<bar> < 1000 then Some r else None)"

definition store_char4 :: "string \<Rightarrow> string option" where
  "store_char4 s = (if length (rtrim s) \<le> 4 then Some (take 4 s) else None)"

definition store_opt :: "('a \<Rightarrow> 'b option) \<Rightarrow> 'a option \<Rightarrow> 'b option option" where
  "store_opt f x = (case x of None \<Rightarrow> Some None | Some v \<Rightarrow> map_option Some (f v))"

definition instant :: "cm_env \<Rightarrow> py_time \<Rightarrow> time" where
  "instant env t = (case t of Naive x \<Rightarrow> ce_local env x | Aware x \<Rightarrow> x)"

text \<open>The columns of \<open>b\<close> written over the row \<open>c\<close> (all but \<^verbatim>\<open>rate_tiers\<close>), with the checks of the table.\<close>

definition store_base :: "cm_env \<Rightarrow> 'a campaign_base_scheme \<Rightarrow> campaign_row \<Rightarrow> exn + campaign_row" where
  "store_base env b c =
    (if \<not> list_all int4_ok (cb_segments b) then Inl (py_error ''DataError'')
     else if CHR 0x00 \<in> set (cb_name b) then Inl (pg_error ''22021'')
     else case (store_rate (cb_rate b), store_opt store_money (cb_min b), store_money (cb_total b),
                store_opt store_money (cb_daily b)) of
       (Some rate, Some mn, Some tot, Some daily) \<Rightarrow>
         (let c1 = c\<lparr>ca_name := cb_name b, ca_segments := cb_segments b, ca_rate := rate, ca_min := mn,
            ca_total := tot, ca_start := instant env (cb_start b), ca_end := instant env (cb_end b),
            ca_channels := cb_channels b, ca_behavior := cb_behavior b, ca_daily := daily,
            ca_auto_pause := cb_auto_pause b, ca_rfm_min := cb_rfm_min b, ca_rfm_max := cb_rfm_max b\<rparr> in
          if ca_spent c1 \<le> ca_total c1 \<and> ca_start c1 \<le> ca_end c1 then Inr c1
          else Inl (pg_error ''23514''))
     | _ \<Rightarrow> Inl (pg_error ''22003''))"

text \<open>The ORM writes an attribute set to \<^verbatim>\<open>None\<close> of a JSON column as JSON \<^verbatim>\<open>null\<close>.\<close>

definition json_column :: "json option \<Rightarrow> json option" where
  "json_column v = Some (case v of None \<Rightarrow> JNull | Some j \<Rightarrow> j)"

definition tiers_value :: "json option \<Rightarrow> json option" where
  "tiers_value col = (case col of Some JNull \<Rightarrow> None | _ \<Rightarrow> col)"

text \<open>The category rows of a campaign, in one flush.\<close>

fun category_rows :: "uuid \<Rightarrow> (string \<Rightarrow> rat option) \<Rightarrow> string list \<Rightarrow> exn + category_row list" where
  "category_rows cid mn [] = Inr []"
| "category_rows cid mn (code # codes) =
    (case (store_char4 code, store_opt store_money (mn code)) of
       (Some m, Some v) \<Rightarrow>
         (case category_rows cid mn codes of
            Inl e \<Rightarrow> Inl e
          | Inr rows \<Rightarrow> Inr (\<lparr>cc_campaign = cid, cc_mcc = m, cc_min = v\<rparr> # rows))
     | (None, _) \<Rightarrow> Inl (pg_error ''22001'')
     | (_, None) \<Rightarrow> Inl (pg_error ''22003''))"

definition category_key :: "category_row \<Rightarrow> uuid \<times> string" where
  "category_key cc = (cc_campaign cc, rtrim (cc_mcc cc))"

definition insert_categories ::
  "uuid \<Rightarrow> (string \<Rightarrow> rat option) \<Rightarrow> string list \<Rightarrow> category_row list \<Rightarrow> exn + category_row list" where
  "insert_categories cid mn codes cats =
    (case category_rows cid mn codes of
       Inl e \<Rightarrow> Inl e
     | Inr rows \<Rightarrow>
         if unique_on category_key (cats @ rows) then Inr (cats @ rows) else Inl (pg_error ''23505''))"

text \<open>\<^verbatim>\<open>per_cat.get(code, default)\<close>\<close>

definition category_min :: "(string \<times> rat) list \<Rightarrow> rat option \<Rightarrow> string \<Rightarrow> rat option" where
  "category_min per_cat dflt code = (case map_of per_cat code of Some v \<Rightarrow> Some v | None \<Rightarrow> dflt)"

section \<open>Responses\<close>

definition base_of_row :: "campaign_row \<Rightarrow> campaign_base" where
  "base_of_row c = \<lparr>cb_name = ca_name c, cb_segments = ca_segments c, cb_rate = ca_rate c,
     cb_min = ca_min c, cb_total = ca_total c, cb_start = Aware (ca_start c), cb_end = Aware (ca_end c),
     cb_channels = ca_channels c, cb_behavior = ca_behavior c, cb_tiers = tiers_value (ca_tiers c),
     cb_daily = ca_daily c, cb_auto_pause = ca_auto_pause c, cb_rfm_min = ca_rfm_min c,
     cb_rfm_max = ca_rfm_max c\<rparr>"

text \<open>\<^verbatim>\<open>_to_response\<close> of an ORM object with the values \<open>b\<close> in memory.\<close>

definition to_response ::
  "campaign_base \<Rightarrow> campaign_row \<Rightarrow> string list \<Rightarrow> (string \<times> rat) list \<Rightarrow> campaign_response answer" where
  "to_response b c mccs mins =
     build_response (campaign_base.extend b
       \<lparr>rs_id = ca_id c, rs_spent = ca_spent c, rs_status = status_text (ca_status c), rs_mccs = mccs,
        rs_created_by = ca_created_by c, rs_min_tx = mins, rs_archived = ca_archived c\<rparr>)"

definition campaign_mccs :: "db \<Rightarrow> uuid \<Rightarrow> string list" where
  "campaign_mccs d cid = map (\<lambda>cc. py_strip (cc_mcc cc)) (filter (\<lambda>cc. cc_campaign cc = cid) (categories d))"

definition campaign_mins :: "db \<Rightarrow> uuid \<Rightarrow> (string \<times> rat) list" where
  "campaign_mins d cid =
     List.map_filter (\<lambda>cc. map_option (\<lambda>m. (py_strip (cc_mcc cc), m)) (cc_min cc))
       (filter (\<lambda>cc. cc_campaign cc = cid) (categories d))"

text \<open>\<^verbatim>\<open>_load_with_mccs\<close>; an object already in the session keeps the values it has in memory.\<close>

definition load_with_mccs ::
  "cm_env \<Rightarrow> campaign_base option \<Rightarrow> uuid \<Rightarrow> db \<Rightarrow> campaign_response answer \<times> db" where
  "load_with_mccs env memory cid d = at_stmt env CReload d (\<lambda>d1.
     (case find_by ca_id cid (campaigns d1) of
        None \<Rightarrow> Reject 404
      | Some c \<Rightarrow>
          to_response (case memory of None \<Rightarrow> base_of_row c | Some b \<Rightarrow> b) c
            (campaign_mccs d1 cid) (campaign_mins d1 cid), d1))"

section \<open>\<open>POST /campaigns\<close>\<close>

definition new_campaign :: "cm_env \<Rightarrow> string \<Rightarrow> campaign_create \<Rightarrow> campaign_row" where
  "new_campaign env user p = \<lparr>ca_id = ce_id env, ca_name = cb_name p, ca_segments = cb_segments p,
     ca_rate = cb_rate p, ca_min = cb_min p, ca_total = cb_total p, ca_spent = 0, ca_status = DRAFT,
     ca_start = instant env (cb_start p), ca_end = instant env (cb_end p),
     ca_channels = cb_channels p, ca_behavior = cb_behavior p, ca_tiers = json_column (cb_tiers p),
     ca_daily = cb_daily p, ca_auto_pause = cb_auto_pause p, ca_rfm_min = cb_rfm_min p,
     ca_rfm_max = cb_rfm_max p, ca_created_by = parse_uuid user, ca_archived = None\<rparr>"

definition insert_campaign :: "cm_env \<Rightarrow> string \<Rightarrow> campaign_create \<Rightarrow> db \<Rightarrow> exn + db" where
  "insert_campaign env user p d =
    (case store_base env p (new_campaign env user p) of
       Inl e \<Rightarrow> Inl e
     | Inr c \<Rightarrow>
        if ca_id c \<in> ca_id ` set (campaigns d) then Inl (pg_error ''23505'')
        else if \<not> opt_ok (ce_admin env) (ca_created_by c) then Inl (pg_error ''23503'')
        else (case insert_categories (ca_id c)
                (category_min (case cr_min_tx p of None \<Rightarrow> [] | Some m \<Rightarrow> m) (cb_min p))
                (cr_mccs p) (categories d) of
            Inl e \<Rightarrow> Inl e
          | Inr cats \<Rightarrow> Inr (d\<lparr>campaigns := campaigns d @ [c], categories := cats\<rparr>)))"

definition create_campaign ::
  "cm_env \<Rightarrow> string \<Rightarrow> campaign_create \<Rightarrow> db \<Rightarrow> campaign_response answer \<times> db" where
  "create_campaign env user p d =
    (case validate_create p of
       Inl e \<Rightarrow> (Crash e, d)
     | Inr False \<Rightarrow> (Reject 422, d)
     | Inr True \<Rightarrow>
        at_stmt env CWrite d (\<lambda>d1. commit env d1 (insert_campaign env user p d1) (\<lambda>d2.
          (let mn = category_min (case cr_min_tx p of None \<Rightarrow> [] | Some m \<Rightarrow> m) (cb_min p) in
           to_response (campaign_base.truncate p) (new_campaign env user p) (cr_mccs p)
             (List.map_filter (\<lambda>code. map_option (Pair code) (mn code)) (cr_mccs p)), d2))))"

section \<open>\<open>PATCH /campaigns/{id}\<close>\<close>

definition merge_base :: "campaign_update \<Rightarrow> campaign_base \<Rightarrow> campaign_base" where
  "merge_base p b = \<lparr>cb_name = set_req (cu_name p) (cb_name b),
     cb_segments = set_req (cu_segments p) (cb_segments b), cb_rate = set_req (cu_rate p) (cb_rate b),
     cb_min = set_opt (cu_min p) (cb_min b), cb_total = set_req (cu_total p) (cb_total b),
     cb_start = set_req (cu_start p) (cb_start b), cb_end = set_req (cu_end p) (cb_end b),
     cb_channels = set_req (cu_channels p) (cb_channels b),
     cb_behavior = set_req (cu_behavior p) (cb_behavior b), cb_tiers = set_opt (cu_tiers p) (cb_tiers b),
     cb_daily = set_opt (cu_daily p) (cb_daily b),
     cb_auto_pause = set_req (cu_auto_pause p) (cb_auto_pause b),
     cb_rfm_min = set_opt (cu_rfm_min p) (cb_rfm_min b),
     cb_rfm_max = set_opt (cu_rfm_max p) (cb_rfm_max b)\<rparr>"

text \<open>A null for a \<^verbatim>\<open>NOT NULL\<close> column.\<close>

definition null_column :: "campaign_update \<Rightarrow> bool" where
  "null_column p = (given_null (cu_name p) \<or> given_null (cu_segments p) \<or> given_null (cu_rate p) \<or>
     given_null (cu_total p) \<or> given_null (cu_channels p) \<or> given_null (cu_behavior p) \<or>
     given_null (cu_auto_pause p))"

definition write_update :: "cm_env \<Rightarrow> uuid \<Rightarrow> campaign_update \<Rightarrow> campaign_base \<Rightarrow> db \<Rightarrow> exn + db" where
  "write_update env cid p b d =
    (if null_column p then Inl (pg_error ''23502'')
     else case find_by ca_id cid (campaigns d) of
       None \<Rightarrow> Inl (py_error ''StaleDataError'')
     | Some c \<Rightarrow>
        (case store_base env b
            (c\<lparr>ca_tiers := (case cu_tiers p of Unset \<Rightarrow> ca_tiers c | Given v \<Rightarrow> json_column v)\<rparr>) of
           Inl e \<Rightarrow> Inl e
         | Inr c1 \<Rightarrow>
            (let cs = update_where (\<lambda>x. ca_id x = cid) (\<lambda>_. c1) (campaigns d) in
             case field_value (cu_mccs p) of
               None \<Rightarrow> Inr (d\<lparr>campaigns := cs\<rparr>)
             | Some codes \<Rightarrow>
                (case insert_categories cid
                    (category_min (case field_value (cu_min_tx p) of None \<Rightarrow> [] | Some m \<Rightarrow> m) (cb_min b))
                    codes (filter (\<lambda>cc. cc_campaign cc \<noteq> cid) (categories d)) of
                   Inl e \<Rightarrow> Inl e
                 | Inr cats \<Rightarrow> Inr (d\<lparr>campaigns := cs, categories := cats\<rparr>)))))"

definition update_campaign ::
  "cm_env \<Rightarrow> uuid \<Rightarrow> campaign_update \<Rightarrow> db \<Rightarrow> campaign_response answer \<times> db" where
  "update_campaign env cid p d =
    (if \<not> validate_update p then (Reject 422, d)
     else at_stmt env CLoad d (\<lambda>d1.
       case find_by ca_id cid (campaigns d1) of
         None \<Rightarrow> (Reject 404, d1)
       | Some c \<Rightarrow>
          if ca_status c \<noteq> DRAFT then (Reject 409, d1)
          else if given_null (cu_start p) \<or> given_null (cu_end p)
          then (Crash (py_error ''AttributeError''), d1)
          else (let b = merge_base p (base_of_row c) in
            if aware (cb_end b) \<le> aware (cb_start b) then (Reject 422, d1)
            else if cb_daily b \<noteq> None \<and> given_null (cu_total p)
            then (Crash (py_error ''TypeError''), d1)
            else if \<not> opt_ok (\<lambda>l. l \<le> cb_total b) (cb_daily b) then (Reject 422, d1)
            else at_stmt env CWrite d1 (\<lambda>d2. commit env d2 (write_update env cid p b d2) (\<lambda>d3.
                   load_with_mccs env (Some b) cid d3)))))"

section \<open>\<open>DELETE /campaigns/{id}\<close>\<close>

definition has_history :: "db \<Rightarrow> uuid \<Rightarrow> bool" where
  "has_history d cid = (list_ex (\<lambda>r. re_campaign r = cid) (recs d) \<or>
     list_ex (\<lambda>a. ac_campaign a = cid) (accruals d))"

text \<open>The row with its categories (\<^verbatim>\<open>ON DELETE CASCADE\<close>); \<^verbatim>\<open>RESTRICT\<close> on what refers to it.\<close>

definition delete_rows :: "uuid \<Rightarrow> db \<Rightarrow> exn + db" where
  "delete_rows cid d =
    (if has_history d cid \<and> cid \<in> ca_id ` set (campaigns d) then Inl (pg_error ''23503'')
     else Inr (d\<lparr>campaigns := filter (\<lambda>c. ca_id c \<noteq> cid) (campaigns d),
       categories := filter (\<lambda>cc. cc_campaign cc \<noteq> cid) (categories d)\<rparr>))"

text \<open>\<^verbatim>\<open>except IntegrityError\<close>\<close>

definition integrity_error :: "exn \<Rightarrow> bool" where
  "integrity_error e = (case sqlstate_of e of None \<Rightarrow> False | Some st \<Rightarrow> take 2 st = ''23'')"

definition integrity_409 :: "'a answer \<times> db \<Rightarrow> 'a answer \<times> db" where
  "integrity_409 r = (case fst r of Crash e \<Rightarrow> if integrity_error e then (Reject 409, snd r) else r | _ \<Rightarrow> r)"

definition delete_campaign :: "cm_env \<Rightarrow> uuid \<Rightarrow> db \<Rightarrow> unit answer \<times> db" where
  "delete_campaign env cid d = at_stmt env CLoad d (\<lambda>d1.
     case find_by ca_id cid (campaigns d1) of
       None \<Rightarrow> (Reject 404, d1)
     | Some c \<Rightarrow> at_stmt env CHistory d1 (\<lambda>d2.
         if ca_status c \<noteq> DRAFT \<or> has_history d2 cid then (Reject 409, d2)
         else integrity_409 (at_stmt env CWrite d2 (\<lambda>d3. commit env d3 (delete_rows cid d3) (\<lambda>d4.
                (Reply (), d4))))))"

section \<open>\<open>POST /campaigns/{id}/archive\<close>\<close>

definition archivable :: "uuid \<Rightarrow> campaign_row \<Rightarrow> bool" where
  "archivable cid c = (ca_id c = cid \<and> (ca_status c = PAUSED \<or> ca_status c = COMPLETED))"

definition archive_row :: "time \<Rightarrow> campaign_row \<Rightarrow> campaign_row" where
  "archive_row now c = c\<lparr>ca_archived := Some (case ca_archived c of None \<Rightarrow> now | Some t \<Rightarrow> t)\<rparr>"

definition archive_campaign :: "cm_env \<Rightarrow> uuid \<Rightarrow> db \<Rightarrow> campaign_response answer \<times> db" where
  "archive_campaign env cid d = at_stmt env CWrite d (\<lambda>d1.
     if list_ex (archivable cid) (campaigns d1)
     then commit env d1
        (Inr (d1\<lparr>campaigns := update_where (archivable cid) (archive_row (ce_now env)) (campaigns d1)\<rparr>))
        (load_with_mccs env None cid)
     else at_stmt env CLoad d1 (\<lambda>d2.
        (case find_by ca_id cid (campaigns d2) of None \<Rightarrow> Reject 404 | Some c \<Rightarrow> Reject 409, d2)))"

section \<open>\<open>PATCH /campaigns/{id}/status\<close>\<close>

record status_action =
  sa_id :: uuid
  sa_previous :: string
  sa_current :: string
  sa_action :: string
  sa_future :: bool

text \<open>The rows the compare-and-set update takes.\<close>

definition status_where :: "cm_env \<Rightarrow> uuid \<Rightarrow> campaign_status \<Rightarrow> campaign_status \<Rightarrow> campaign_row \<Rightarrow> bool" where
  "status_where env cid previous new c =
    (ca_id c = cid \<and> ca_status c = previous \<and> ca_archived c = None \<and>
     (new = ACTIVE \<longrightarrow> ce_now env < ca_end c))"

text \<open>The trigger refuses the whole statement.\<close>

definition guarded_update :: "(campaign_row \<Rightarrow> bool) \<Rightarrow> campaign_status \<Rightarrow> db \<Rightarrow> exn + db" where
  "guarded_update p new d =
    (if list_all (\<lambda>c. p c \<longrightarrow> status_guard (ca_status c) new) (campaigns d)
     then Inr (d\<lparr>campaigns := update_where p (\<lambda>c. c\<lparr>ca_status := new\<rparr>) (campaigns d)\<rparr>)
     else Inl (pg_error ''23514''))"

text \<open>The update and the commit, once the checks on the row \<open>c\<close> that was read have passed.\<close>

definition status_write ::
  "cm_env \<Rightarrow> uuid \<Rightarrow> string \<Rightarrow> campaign_status \<Rightarrow> campaign_status \<Rightarrow> db \<Rightarrow> status_action answer \<times> db" where
  "status_write env cid act previous new d =
    (let p = status_where env cid previous new in
     case guarded_update p new d of
       Inl e \<Rightarrow> (Reject 409, d)
     | Inr d1 \<Rightarrow>
        (case find p (campaigns d) of
           None \<Rightarrow> (Reject 409, d)
         | Some c \<Rightarrow> commit env d (Inr d1) (\<lambda>d2.
             (Reply \<lparr>sa_id = cid, sa_previous = status_text previous, sa_current = status_text new,
                sa_action = act, sa_future = (new = ACTIVE \<and> ce_now env < ca_start c)\<rparr>, d2))))"

definition patch_status :: "cm_env \<Rightarrow> uuid \<Rightarrow> string \<Rightarrow> db \<Rightarrow> status_action answer \<times> db" where
  "patch_status env cid act d =
    (if act \<notin> set ACTIONS then (Reject 422, d)
     else at_stmt env CLoad d (\<lambda>d1.
       case find_by ca_id cid (campaigns d1) of
         None \<Rightarrow> (Reject 404, d1)
       | Some c \<Rightarrow>
         (case transition (status_text (ca_status c)) act of
            None \<Rightarrow> (Reject 409, d1)
          | Some nm \<Rightarrow>
            (case status_of nm of
               None \<Rightarrow> (Crash (py_error ''DataError''), d1)
             | Some new \<Rightarrow>
                if ca_archived c \<noteq> None then (Reject 409, d1)
                else if new = ACTIVE \<and> ca_end c \<le> ce_clock env then (Reject 409, d1)
                else at_stmt env CWrite d1 (status_write env cid act (ca_status c) new)))))"

end
