(* ===== verification/Float64.thy ===== *)
theory Float64
  imports Prelude
begin

text \<open>
  Python's \<^verbatim>\<open>float\<close> where the services compute with it: \<open>fl x\<close> is the double nearest to the exact
  value \<open>x\<close> (ties to even), so \<open>fl (a * b)\<close> is the product of two doubles \<open>a\<close> and \<open>b\<close>, and
  \<open>py_round n x\<close> is \<^verbatim>\<open>round(x, n)\<close>. Overflow to infinity is left out: no value here comes near it.
\<close>

fun ilog2 :: "nat \<Rightarrow> nat" where
  "ilog2 n = (if n < 2 then 0 else Suc (ilog2 (n div 2)))"

declare ilog2.simps [simp del]

lemma ilog2_bounds: "0 < n \<Longrightarrow> 2 ^ ilog2 n \<le> n \<and> n < 2 ^ Suc (ilog2 n)"
proof (induction n rule: ilog2.induct)
  case (1 n)
  show ?case
  proof (cases "n < 2")
    case True
    with 1 show ?thesis by (simp add: ilog2.simps [of n])
  next
    case False
    then have "0 < n div 2" by simp
    with 1 False have "2 ^ ilog2 (n div 2) \<le> n div 2 \<and> n div 2 < 2 ^ Suc (ilog2 (n div 2))" by blast
    with False show ?thesis by (auto simp: ilog2.simps [of n])
  qed
qed

definition pow2 :: "int \<Rightarrow> rat" where
  "pow2 e = (if 0 \<le> e then 2 ^ nat e else 1 / 2 ^ nat (- e))"

lemma pow2_powi: "pow2 e = 2 powi e"
  by (simp add: pow2_def power_int_def inverse_eq_divide power_one_over)

lemma pow2_int: "pow2 (int k) = of_int (2 ^ k)"
  by (simp add: pow2_def)

lemma pow2_pos [simp]: "0 < pow2 e"
  by (simp add: pow2_def)

lemma pow2_add: "pow2 (a + b) = pow2 a * pow2 b"
  by (simp add: pow2_powi power_int_add)

lemma pow2_mono: "a \<le> b \<Longrightarrow> pow2 a \<le> pow2 b"
  by (simp add: pow2_powi power_int_increasing)

text \<open>The exponent of the binade of a positive value: \<open>2\<^sup>e \<le> x < 2\<^sup>e\<^sup>+\<^sup>1\<close>.\<close>

definition binade :: "rat \<Rightarrow> int" where
  "binade x = (let (n, d) = quotient_of x; e = int (ilog2 (nat n)) - int (ilog2 (nat d)) in
     if pow2 e \<le> x then e else e - 1)"

lemma binade_bounds:
  assumes "0 < x"
  shows "pow2 (binade x) \<le> x \<and> x < pow2 (binade x + 1)"
proof -
  obtain n d where q: "quotient_of x = (n, d)" by (cases "quotient_of x")
  have d: "0 < d" using quotient_of_denom_pos [OF q] .
  have x: "x = of_int n / of_int d" using quotient_of_div [OF q] .
  have n: "0 < n" using assms x d by (simp add: zero_less_divide_iff)
  define a b where ab: "a = ilog2 (nat n)" "b = ilog2 (nat d)"
  have "2 ^ a \<le> nat n \<and> nat n < 2 ^ Suc a" "2 ^ b \<le> nat d \<and> nat d < 2 ^ Suc b"
    using ilog2_bounds n d by (simp_all only: ab zero_less_nat_eq)
  then have "2 ^ a \<le> n \<and> n < 2 ^ Suc a" "2 ^ b \<le> d \<and> d < 2 ^ Suc b"
    using n d by (simp_all add: nat_le_iff le_nat_iff nat_less_iff zless_nat_eq_int_zless)
  then have "(of_int (2 ^ a) :: rat) \<le> of_int n" "of_int n < (of_int (2 ^ Suc a) :: rat)"
      "(of_int (2 ^ b) :: rat) \<le> of_int d" "of_int d < (of_int (2 ^ Suc b) :: rat)"
    by (simp_all only: of_int_le_iff of_int_less_iff)
  then have N: "pow2 (int a) \<le> of_int n" "of_int n < pow2 (int a + 1)"
    and D: "pow2 (int b) \<le> of_int d" "of_int d < pow2 (int b + 1)"
    unfolding pow2_int [symmetric] by (simp_all add: add.commute)
  define e where "e = int a - int b"
  have "pow2 (e - 1) < x"
  proof -
    have "pow2 (e - 1) * pow2 (int b + 1) = pow2 (int a)" by (simp add: e_def flip: pow2_add)
    moreover have "pow2 (e - 1) * of_int d < pow2 (e - 1) * pow2 (int b + 1)"
      using D by (intro mult_strict_left_mono) simp_all
    ultimately have "pow2 (e - 1) * of_int d < of_int n" using N by linarith
    then show ?thesis using d by (simp add: x pos_less_divide_eq)
  qed
  moreover have "x < pow2 (e + 1)"
  proof -
    have "pow2 (e + 1) * pow2 (int b) = pow2 (int a + 1)"
      by (simp add: e_def algebra_simps flip: pow2_add)
    moreover have "pow2 (e + 1) * pow2 (int b) \<le> pow2 (e + 1) * of_int d"
      using D by (intro mult_left_mono) (simp_all add: less_imp_le)
    ultimately have "of_int n < pow2 (e + 1) * of_int d" using N by linarith
    then show ?thesis using d by (simp add: x pos_divide_less_eq)
  qed
  ultimately show ?thesis
    by (simp add: binade_def q ab [symmetric] e_def [symmetric] Let_def)
qed

definition half_even :: "rat \<Rightarrow> int" where
  "half_even x = (let f = \<lfloor>x\<rfloor>; r = x - of_int f in
     if r < 1 / 2 then f else if 1 / 2 < r then f + 1 else if even f then f else f + 1)"

definition fl :: "rat \<Rightarrow> rat" where
  "fl x = (if x = 0 then 0 else
     (let q = max (binade \<bar>x\<bar> - 52) (-1074) in of_int (half_even (x / pow2 q)) * pow2 q))"

definition py_round :: "nat \<Rightarrow> rat \<Rightarrow> rat" where
  "py_round n x = fl (of_int (half_even (x * 10 ^ n)) / 10 ^ n)"

section \<open>Bounds\<close>

lemma fl_0 [simp]: "fl 0 = 0"
  by (simp add: fl_def)

lemma half_even_of_int [simp]: "half_even (of_int k) = k"
  by (simp add: half_even_def)

lemma half_even_nonneg: "0 \<le> x \<Longrightarrow> 0 \<le> half_even x"
  by (simp add: half_even_def Let_def)

lemma half_even_le: "x \<le> of_int k \<Longrightarrow> half_even x \<le> k"
proof -
  assume le: "x \<le> of_int k"
  then have f: "\<lfloor>x\<rfloor> \<le> k" by (simp add: floor_le_iff)
  show ?thesis
  proof (cases "\<lfloor>x\<rfloor> = k")
    case True
    then have "x = of_int k" using le by linarith
    then show ?thesis by simp
  next
    case False
    with f show ?thesis by (simp add: half_even_def Let_def)
  qed
qed

lemma fl_nonneg: "0 \<le> x \<Longrightarrow> 0 \<le> fl x"
  by (simp add: fl_def Let_def half_even_nonneg less_imp_le)

lemma fl_le_pow2:
  assumes "0 \<le> x" "x \<le> pow2 k" "-1022 \<le> k"
  shows "fl x \<le> pow2 k"
proof (cases "x = 0")
  case False
  with assms have pos: "0 < x" by simp
  define q where "q = max (binade x - 52) (-1074)"
  have "binade x \<le> k"
  proof (rule ccontr)
    assume "\<not> binade x \<le> k"
    then have k: "k + 1 \<le> binade x" by simp
    have "pow2 k < pow2 (k + 1)" by (simp add: pow2_add) (simp add: pow2_def)
    also have "\<dots> \<le> pow2 (binade x)" using k by (rule pow2_mono)
    finally show False using binade_bounds [OF pos] assms(2) by simp
  qed
  then have q: "q \<le> k" using assms(3) by (simp add: q_def)
  then have int: "pow2 (k - q) = of_int (2 ^ nat (k - q))" by (simp add: pow2_def)
  have "x / pow2 q \<le> pow2 (k - q)"
    using assms(2) by (simp add: pos_divide_le_eq flip: pow2_add)
  then have "half_even (x / pow2 q) \<le> 2 ^ nat (k - q)" by (simp only: int half_even_le)
  then have "of_int (half_even (x / pow2 q)) \<le> pow2 (k - q)" by (simp only: int of_int_le_iff)
  then have "of_int (half_even (x / pow2 q)) * pow2 q \<le> pow2 (k - q) * pow2 q"
    by (intro mult_right_mono) (simp_all add: less_imp_le)
  then show ?thesis using False pos
    by (simp add: fl_def q_def [symmetric] Let_def flip: pow2_add)
qed (simp add: less_imp_le)

lemma fl_le_1: "0 \<le> x \<Longrightarrow> x \<le> 1 \<Longrightarrow> fl x \<le> 1"
  using fl_le_pow2 [of x 0] by (simp add: pow2_def)

text \<open>A value with at most 53 significant bits is a double.\<close>

lemma fl_exact:
  assumes "x = of_int m * pow2 r" "\<bar>m\<bar> < 2 ^ 53" "-1074 \<le> r"
  shows "fl x = x"
proof (cases "x = 0")
  case False
  then have pos: "0 < \<bar>x\<bar>" by simp
  define q where "q = max (binade \<bar>x\<bar> - 52) (-1074)"
  have "\<bar>x\<bar> = of_int \<bar>m\<bar> * pow2 r" using assms(1) by (simp add: abs_mult less_imp_le)
  also have "\<dots> < pow2 53 * pow2 r"
    using assms(2) by (intro mult_strict_right_mono) (simp_all add: pow2_def flip: of_int_less_iff [where 'a = rat])
  finally have lt: "\<bar>x\<bar> < pow2 (53 + r)" by (simp add: pow2_add)
  have "binade \<bar>x\<bar> < 53 + r"
  proof (rule ccontr)
    assume "\<not> binade \<bar>x\<bar> < 53 + r"
    then have "pow2 (53 + r) \<le> pow2 (binade \<bar>x\<bar>)" by (intro pow2_mono) simp
    then show False using binade_bounds [OF pos] lt by simp
  qed
  then have "q \<le> r" using assms(3) by (simp add: q_def)
  then have "pow2 (r - q) = of_int (2 ^ nat (r - q))" by (simp add: pow2_def)
  moreover have "x / pow2 q = of_int m * pow2 (r - q)"
  proof -
    have "pow2 r = pow2 (r - q) * pow2 q" by (simp flip: pow2_add)
    then show ?thesis using assms(1) less_imp_neq [OF pow2_pos [of q]] by simp
  qed
  ultimately have "x / pow2 q = of_int (m * 2 ^ nat (r - q))" by simp
  then have "of_int (half_even (x / pow2 q)) * pow2 q = x / pow2 q * pow2 q" by (simp only: half_even_of_int)
  also have "\<dots> = x" using less_imp_neq [OF pow2_pos [of q]] by simp
  finally show ?thesis using False by (simp add: fl_def q_def [symmetric] Let_def)
qed simp

lemma fl_1 [simp]: "fl 1 = 1"
  by (rule fl_exact [of _ 1 0]) (simp_all add: pow2_def)

section \<open>Error\<close>

lemma half_even_error: "\<bar>of_int (half_even x) - x\<bar> \<le> 1 / 2"
proof -
  have "of_int \<lfloor>x\<rfloor> \<le> x" "x < of_int \<lfloor>x\<rfloor> + 1" by linarith+
  then show ?thesis by (auto simp: half_even_def Let_def)
qed

lemma fl_error:
  assumes "0 \<le> x" "x < pow2 k" "-1021 \<le> k"
  shows "\<bar>fl x - x\<bar> \<le> pow2 (k - 54)"
proof (cases "x = 0")
  case False
  with assms have pos: "0 < x" by simp
  define q where "q = max (binade x - 52) (-1074)"
  have "binade x < k"
  proof (rule ccontr)
    assume "\<not> binade x < k"
    then have "pow2 k \<le> pow2 (binade x)" by (intro pow2_mono) simp
    then show False using binade_bounds [OF pos] assms(2) by simp
  qed
  then have q: "q \<le> k - 53" using assms(3) by (simp add: q_def)
  have "fl x - x = (of_int (half_even (x / pow2 q)) - x / pow2 q) * pow2 q"
    using False pos less_imp_neq [OF pow2_pos [of q]]
    by (simp add: fl_def q_def [symmetric] Let_def left_diff_distrib)
  then have "\<bar>fl x - x\<bar> = \<bar>of_int (half_even (x / pow2 q)) - x / pow2 q\<bar> * pow2 q"
    by (simp add: abs_mult less_imp_le)
  also have "\<dots> \<le> 1 / 2 * pow2 q"
    using half_even_error by (intro mult_right_mono) (simp_all add: less_imp_le)
  also have "1 / 2 * pow2 q = pow2 (q - 1)"
    using pow2_add [of q "-1"] by (simp add: pow2_def [of "-1"])
  also have "\<dots> \<le> pow2 (k - 54)" using q by (intro pow2_mono) simp
  finally show ?thesis .
qed (simp add: less_imp_le)

text \<open>Comparing two doubles compares the exact amounts they come from.\<close>

lemma fl_less_cents:
  assumes "a * 100 = of_int m" "b * 100 = of_int n" "0 \<le> a" "0 \<le> b" "a < 2 ^ 40" "b < 2 ^ 40"
  shows "fl a < fl b \<longleftrightarrow> a < b"
proof -
  have gap: "fl x < fl y" if "x < y" "x * 100 = of_int i" "y * 100 = of_int j" "0 \<le> x" "y < 2 ^ 40" for x y and i j :: int
  proof -
    have "(of_int i :: rat) < of_int j" using that by linarith
    then have "i + 1 \<le> j" by simp
    then have "(of_int i :: rat) + 1 \<le> of_int j" by (metis of_int_1 of_int_add of_int_le_iff)
    then have "x + 1 / 100 \<le> y" using that by linarith
    moreover have "\<bar>fl x - x\<bar> \<le> pow2 (-14)" "\<bar>fl y - y\<bar> \<le> pow2 (-14)"
      using fl_error [of x 40] fl_error [of y 40] that by (simp_all add: pow2_def [of 40])
    moreover have "pow2 (-14) < 1 / 200" by (simp add: pow2_def)
    ultimately show ?thesis by linarith
  qed
  show ?thesis
    using gap [of a b m n] gap [of b a n m] assms by (metis not_less_iff_gr_or_eq order_less_asym)
qed

section \<open>Order\<close>

lemma half_even_ge: "of_int k \<le> x \<Longrightarrow> k \<le> half_even x"
proof -
  assume "of_int k \<le> x"
  then have "k \<le> \<lfloor>x\<rfloor>" by (simp add: le_floor_iff)
  also have "\<dots> \<le> half_even x" by (simp add: half_even_def Let_def)
  finally show ?thesis .
qed

lemma half_even_mono: "x \<le> y \<Longrightarrow> half_even x \<le> half_even y"
proof (cases "\<lfloor>x\<rfloor> = \<lfloor>y\<rfloor>")
  case False
  assume le: "x \<le> y"
  then have "\<lfloor>x\<rfloor> + 1 \<le> \<lfloor>y\<rfloor>" using False floor_mono [OF le] by linarith
  then have "x \<le> of_int \<lfloor>y\<rfloor>" by linarith
  then have "half_even x \<le> \<lfloor>y\<rfloor>" by (rule half_even_le)
  also have "\<dots> \<le> half_even y" by (rule half_even_ge) simp
  finally show ?thesis .
qed (auto simp: half_even_def Let_def)

lemma half_even_minus: "half_even (- x) = - half_even x"
proof (cases "x \<in> \<int>")
  case True
  then obtain k where "x = of_int k" by (auto elim: Ints_cases)
  then show ?thesis using half_even_of_int [of "- k"] by simp
next
  case False
  have "\<lfloor>- x\<rfloor> = - \<lfloor>x\<rfloor> - 1"
  proof -
    have "of_int \<lfloor>x\<rfloor> \<noteq> x" using False by (metis Ints_of_int)
    then have "of_int \<lfloor>x\<rfloor> < x" "x < of_int \<lfloor>x\<rfloor> + 1" by linarith+
    then show ?thesis by (intro floor_unique) auto
  qed
  then show ?thesis by (auto simp: half_even_def Let_def)
qed

lemma fl_minus: "fl (- x) = - fl x"
  by (simp add: fl_def Let_def half_even_minus)

lemma fl_nonpos: "x \<le> 0 \<Longrightarrow> fl x \<le> 0"
  using fl_nonneg [of "- x"] by (simp add: fl_minus)

lemma binade_mono: "0 < x \<Longrightarrow> x \<le> y \<Longrightarrow> binade x \<le> binade y"
proof (rule ccontr)
  assume a: "0 < x" "x \<le> y" "\<not> binade x \<le> binade y"
  then have "pow2 (binade y + 1) \<le> pow2 (binade x)" by (intro pow2_mono) simp
  then show False using binade_bounds [of x] binade_bounds [of y] a by simp
qed

lemma fl_ge_binade:
  assumes "0 < y" "-1022 \<le> binade y"
  shows "pow2 (binade y) \<le> fl y"
proof -
  define q where "q = binade y - 52"
  have m: "max (binade y - 52) (-1074) = q" using assms(2) by (simp add: q_def)
  have "pow2 52 * pow2 q \<le> y" using binade_bounds [OF assms(1)] by (simp add: q_def flip: pow2_add)
  then have "of_int (2 ^ 52) \<le> y / pow2 q" by (simp add: pos_le_divide_eq pow2_def [of 52])
  then have "2 ^ 52 \<le> half_even (y / pow2 q)" by (rule half_even_ge)
  then have "(of_int (2 ^ 52) :: rat) \<le> of_int (half_even (y / pow2 q))" by (simp only: of_int_le_iff)
  then have "pow2 52 * pow2 q \<le> of_int (half_even (y / pow2 q)) * pow2 q"
    by (intro mult_right_mono) (simp_all add: pow2_def [of 52] less_imp_le)
  moreover have "pow2 52 * pow2 q = pow2 (binade y)" by (simp add: q_def flip: pow2_add)
  moreover have "fl y = of_int (half_even (y / pow2 q)) * pow2 q" using assms m by (simp add: fl_def Let_def)
  ultimately show ?thesis by (simp only:)
qed

text \<open>Rounding keeps the order.\<close>

lemma fl_mono: "0 \<le> x \<Longrightarrow> x \<le> y \<Longrightarrow> fl x \<le> fl y"
proof (cases "x = 0")
  case True
  then show "0 \<le> x \<Longrightarrow> x \<le> y \<Longrightarrow> fl x \<le> fl y" by (simp add: fl_nonneg)
next
  case False
  assume le: "0 \<le> x" "x \<le> y"
  then have pos: "0 < x" "0 < y" using False by simp_all
  show "fl x \<le> fl y"
  proof (cases "max (binade x - 52) (-1074) = max (binade y - 52) (-1074)")
    case True
    have "x / pow2 q \<le> y / pow2 q" for q using le by (simp add: divide_right_mono less_imp_le)
    then have "half_even (x / pow2 q) \<le> half_even (y / pow2 q)" for q by (rule half_even_mono)
    then have "of_int (half_even (x / pow2 q)) * pow2 q \<le> of_int (half_even (y / pow2 q)) * pow2 q" for q
      by (intro mult_right_mono) (simp_all add: less_imp_le)
    then show ?thesis using pos True by (simp add: fl_def Let_def)
  next
    case False
    then have b: "binade x < binade y" "-1022 < binade y" using binade_mono [OF pos(1) le(2)] by auto
    have "x \<le> pow2 (binade y)"
      using binade_bounds [OF pos(1)] pow2_mono [of "binade x + 1" "binade y"] b(1) by simp
    then have "fl x \<le> pow2 (binade y)" using le b(2) by (intro fl_le_pow2) simp_all
    also have "\<dots> \<le> fl y" using pos b(2) by (intro fl_ge_binade) simp_all
    finally show ?thesis .
  qed
qed

lemma fl_mono_all: "x \<le> y \<Longrightarrow> fl x \<le> fl y"
proof -
  assume le: "x \<le> y"
  consider "0 \<le> x" | "x \<le> 0" "0 \<le> y" | "y \<le> 0" by linarith
  then show ?thesis
  proof cases
    case 1
    then show ?thesis using fl_mono le by blast
  next
    case 2
    then show ?thesis using fl_nonpos fl_nonneg order_trans by blast
  next
    case 3
    then have "fl (- y) \<le> fl (- x)" using le by (intro fl_mono) simp_all
    then show ?thesis by (simp add: fl_minus)
  qed
qed

lemma py_round_mono: "x \<le> y \<Longrightarrow> py_round n x \<le> py_round n y"
  unfolding py_round_def
  by (intro fl_mono_all divide_right_mono) (simp_all add: half_even_mono mult_right_mono)

text \<open>An integer nearer than a half is the one rounded to.\<close>

lemma half_even_near: "\<bar>x - of_int k\<bar> < 1 / 2 \<Longrightarrow> half_even x = k"
proof -
  assume "\<bar>x - of_int k\<bar> < 1 / 2"
  then have "\<bar>of_int (half_even x) - (of_int k :: rat)\<bar> < 1" using half_even_error [of x] by linarith
  then have "\<bar>half_even x - k\<bar> < 1" by linarith
  then show ?thesis by linarith
qed

lemma py_round_between:
  assumes "0 \<le> x" "x \<le> of_nat k" "k < 2 ^ 53"
  shows "0 \<le> py_round n x \<and> py_round n x \<le> of_nat k"
proof -
  have "x * 10 ^ n \<le> of_nat k * 10 ^ n" using assms(2) by (intro mult_right_mono) simp_all
  also have "\<dots> = of_int (int (k * 10 ^ n))" by simp
  finally have "half_even (x * 10 ^ n) \<le> int (k * 10 ^ n)" by (rule half_even_le)
  then have "(of_int (half_even (x * 10 ^ n)) :: rat) \<le> of_int (int (k * 10 ^ n))" by (simp only: of_int_le_iff)
  then have le: "of_int (half_even (x * 10 ^ n)) / 10 ^ n \<le> (of_nat k :: rat)"
    by (simp add: pos_divide_le_eq)
  have ge: "0 \<le> (of_int (half_even (x * 10 ^ n)) / 10 ^ n :: rat)"
    using assms(1) half_even_nonneg [of "x * 10 ^ n"] by simp
  have "fl (of_nat k) = of_nat k" using assms(3) fl_exact [of "of_nat k" "int k" 0] by (simp add: pow2_def)
  then show ?thesis using fl_mono [OF ge le] fl_nonneg [OF ge] by (simp add: py_round_def)
qed


text \<open>A rounded value is a float: rounding it again does nothing.\<close>

lemma fl_idem_pos: "0 < x \<Longrightarrow> fl (fl x) = fl x"
proof -
  assume pos: "0 < x"
  define q where "q = max (binade x - 52) (-1074)"
  define m where "m = half_even (x / pow2 q)"
  have f: "fl x = of_int m * pow2 q" using pos by (simp add: fl_def q_def m_def Let_def)
  have "binade x + 1 \<le> 53 + q" unfolding q_def by linarith
  then have "x \<le> pow2 (53 + q)" using binade_bounds [OF pos] pow2_mono [of "binade x + 1" "53 + q"] by linarith
  then have "x / pow2 q \<le> of_int (2 ^ 53)"
    using pow2_int [of 53] by (simp add: pow2_add pos_divide_le_eq)
  then have le: "m \<le> 2 ^ 53" unfolding m_def by (rule half_even_le)
  have "0 \<le> x / pow2 q" using pos pow2_pos [of q] by (intro divide_nonneg_nonneg) linarith+
  then have ge: "0 \<le> m" unfolding m_def by (rule half_even_nonneg)
  show ?thesis
  proof (cases "m = 2 ^ 53")
    case True
    have "pow2 (1 + q) = 2 * pow2 q" unfolding pow2_add by (simp add: pow2_def)
    then have "fl x = of_int (2 ^ 52) * pow2 (1 + q)" using True by (simp add: f)
    then show ?thesis by (rule fl_exact) (simp_all add: q_def)
  next
    case False
    then show ?thesis using le ge by (intro fl_exact [OF f]) (simp_all add: q_def)
  qed
qed

lemma fl_idem: "fl (fl x) = fl x"
proof (cases "0 < x")
  case False
  then consider "x = 0" | "0 < - x" by linarith
  then show ?thesis
  proof cases
    case 2
    then show ?thesis using fl_idem_pos [of "- x"] by (simp add: fl_minus)
  qed simp
qed (rule fl_idem_pos)

end
