(* ===== verification/Scheduling.thy ===== *)
theory Scheduling
  imports Campaigns Float64
begin

text \<open>
  The background jobs of the campaign manager (\<^verbatim>\<open>services/campaign_manager/app/scheduling.py\<close>): the
  completion of expired campaigns, the settlement of accruals, the two metric exports, and \<^verbatim>\<open>run_job\<close>,
  which keeps one job's failure from the others. The snapshot of the ML limits is in \<^verbatim>\<open>MlLimits\<close>.
\<close>

record sched =
  sc_db :: db
  sc_failures :: "string \<Rightarrow> nat"
  sc_budget :: "((uuid \<times> string) \<times> rat) list"
  sc_ctr :: "(string \<times> rat) list"

section \<open>The statements\<close>

definition expired_campaign :: "time \<Rightarrow> campaign_row \<Rightarrow> bool" where
  "expired_campaign now c =
    ((ca_status c = ACTIVE \<or> ca_status c = PAUSED) \<and> ca_archived c = None \<and> ca_end c \<le> now)"

definition complete_expired :: "time \<Rightarrow> db \<Rightarrow> exn + db" where
  "complete_expired now d = guarded_update (expired_campaign now) COMPLETED d"

definition complete_expired_campaigns :: "cm_env \<Rightarrow> db \<Rightarrow> nat answer \<times> db" where
  "complete_expired_campaigns env d = at_stmt env CWrite d (\<lambda>d1.
     commit env d1 (complete_expired (ce_now env) d1) (\<lambda>d2.
       (Reply (length (filter (expired_campaign (ce_now env)) (campaigns d1))), d2)))"

definition due_accrual :: "time \<Rightarrow> int \<Rightarrow> accrual_row \<Rightarrow> bool" where
  "due_accrual now hours a = (ac_status a = AC_PENDING \<and> ac_at a < now - hours * hour_us)"

definition settle_row :: "time \<Rightarrow> accrual_row \<Rightarrow> accrual_row" where
  "settle_row now a = a\<lparr>ac_status := PAID, ac_paid := Some now\<rparr>"

definition settle :: "time \<Rightarrow> int \<Rightarrow> db \<Rightarrow> db" where
  "settle now hours d =
     d\<lparr>accruals := update_where (due_accrual now hours) (settle_row now) (accruals d)\<rparr>"

definition settle_accruals :: "cm_env \<Rightarrow> int \<Rightarrow> db \<Rightarrow> nat answer \<times> db" where
  "settle_accruals env hours d = at_stmt env CWrite d (\<lambda>d1.
     commit env d1 (Inr (settle (ce_now env) hours d1)) (\<lambda>d2.
       (Reply (length (filter (due_accrual (ce_now env) hours) (accruals d1))), d2)))"

section \<open>Metrics\<close>

text \<open>\<^verbatim>\<open>float(budget_spent) / float(budget_total)\<close>, rounded to four digits.\<close>

definition utilization :: "campaign_row \<Rightarrow> rat" where
  "utilization c = py_round 4
     (if 0 < fl (ca_total c) then fl (fl (ca_spent c) / fl (ca_total c)) else 0)"

definition export_budget_metrics :: "cm_env \<Rightarrow> sched \<Rightarrow> nat answer \<times> sched" where
  "export_budget_metrics env s =
    (let d = ce_world env CLoad (sc_db s) in
     case ce_fault env CLoad of
       Some e \<Rightarrow> (Crash e, s\<lparr>sc_db := d\<rparr>)
     | None \<Rightarrow>
        (let rows = filter (\<lambda>c. ca_status c = ACTIVE) (campaigns d) in
         (Reply (length rows),
          s\<lparr>sc_db := d, sc_budget := map (\<lambda>c. ((ca_id c, ca_name c), utilization c)) rows\<rparr>)))"

text \<open>\<open>version\<close> is the column \<^verbatim>\<open>model_version\<close> of a recommendation. \<^verbatim>\<open>count(*)::float / count(*)\<close> is \<open>fl\<close>
  of the quotient.\<close>

definition responded :: "rec_row \<Rightarrow> bool" where
  "responded r = (re_status r = ACCEPTED \<or> re_status r = DECLINED \<or> re_status r = SNOOZE)"

definition online_ctr :: "(uuid \<Rightarrow> string option) \<Rightarrow> time \<Rightarrow> db \<Rightarrow> (string \<times> rat option) list" where
  "online_ctr version now d =
    (let rows = filter (\<lambda>r. now - 7 * day_us \<le> re_generated r) (recs d);
         versions = remdups (List.map_filter (\<lambda>r. version (re_id r)) rows) in
     map (\<lambda>v. (let group = filter (\<lambda>r. version (re_id r) = Some v) rows;
                   n = length (filter responded group) in
        (v, if n = 0 then None
            else Some (fl (of_nat (length (filter (\<lambda>r. re_status r = ACCEPTED) group)) / of_nat n)))))
       versions)"

definition export_online_ctr ::
  "cm_env \<Rightarrow> (uuid \<Rightarrow> string option) \<Rightarrow> sched \<Rightarrow> nat answer \<times> sched" where
  "export_online_ctr env version s =
    (let d = ce_world env CLoad (sc_db s) in
     case ce_fault env CLoad of
       Some e \<Rightarrow> (Crash e, s\<lparr>sc_db := d\<rparr>)
     | None \<Rightarrow>
        (let gauges = List.map_filter (\<lambda>(v, x). map_option (\<lambda>c. (v, py_round 6 c)) x)
           (online_ctr version (ce_now env) d) in
         (Reply (length gauges), s\<lparr>sc_db := d, sc_ctr := gauges\<rparr>)))"

section \<open>\<open>run_job\<close>\<close>

definition on_db :: "(db \<Rightarrow> 'a answer \<times> db) \<Rightarrow> sched \<Rightarrow> 'a answer \<times> sched" where
  "on_db job s = (let (r, d) = job (sc_db s) in (r, s\<lparr>sc_db := d\<rparr>))"

definition run_job :: "string \<Rightarrow> (sched \<Rightarrow> 'a answer \<times> sched) \<Rightarrow> sched \<Rightarrow> sched" where
  "run_job name job s =
    (let (r, s1) = job s in
     case r of
       Reply _ \<Rightarrow> s1
     | _ \<Rightarrow> s1\<lparr>sc_failures := (sc_failures s1)(name := Suc (sc_failures s1 name))\<rparr>)"

text \<open>The jobs of \<^verbatim>\<open>CampaignScheduler.jobs\<close> that work on the database; \<open>envs\<close> gives each run its
  environment.\<close>

definition sched_jobs ::
  "(string \<Rightarrow> cm_env) \<Rightarrow> (uuid \<Rightarrow> string option) \<Rightarrow> int \<Rightarrow> (string \<times> (sched \<Rightarrow> nat answer \<times> sched)) list" where
  "sched_jobs envs version hours =
    [(''complete-expired-campaigns'',
        on_db (complete_expired_campaigns (envs ''complete-expired-campaigns''))),
     (''settle-accruals'', on_db (settle_accruals (envs ''settle-accruals'') hours)),
     (''export-budget-metrics'', export_budget_metrics (envs ''export-budget-metrics'')),
     (''export-online-ctr'', export_online_ctr (envs ''export-online-ctr'') version)]"

definition sched_tick ::
  "(string \<Rightarrow> cm_env) \<Rightarrow> (uuid \<Rightarrow> string option) \<Rightarrow> int \<Rightarrow> sched \<Rightarrow> sched" where
  "sched_tick envs version hours s =
     foldl (\<lambda>st (name, job). run_job name job st) s (sched_jobs envs version hours)"

section \<open>Failures stay apart\<close>

lemma complete_expired_ok: "complete_expired now d = Inr (d\<lparr>campaigns :=
    update_where (expired_campaign now) (\<lambda>c. c\<lparr>ca_status := COMPLETED\<rparr>) (campaigns d)\<rparr>)"
  by (auto simp: complete_expired_def guarded_update_def list_all_iff expired_campaign_def
      status_guard_def FSM_TRANSITIONS_def)

lemma run_job_db: "sc_db (run_job name job s) = sc_db (snd (job s))"
  by (simp add: run_job_def split: prod.split answer.split)

lemma run_job_failures:
  assumes "sc_failures (snd (job s)) = sc_failures s"
  shows "sc_failures (run_job name job s) =
    (sc_failures s)(name := sc_failures s name + (case fst (job s) of Reply _ \<Rightarrow> 0 | _ \<Rightarrow> 1))"
proof (cases "job s")
  case (Pair r s1)
  with assms show ?thesis by (cases r) (simp_all add: run_job_def)
qed

lemma on_db_failures [simp]: "sc_failures (snd (on_db job s)) = sc_failures s"
  by (simp add: on_db_def split: prod.split)

lemma on_db_db [simp]: "sc_db (snd (on_db job s)) = snd (job (sc_db s))"
  by (simp add: on_db_def split: prod.split)

lemma export_budget_frame [simp]: "sc_failures (snd (export_budget_metrics env s)) = sc_failures s"
    "sc_db (snd (export_budget_metrics env s)) = ce_world env CLoad (sc_db s)"
  by (simp_all add: export_budget_metrics_def Let_def split: option.split)

lemma export_ctr_frame [simp]: "sc_failures (snd (export_online_ctr env version s)) = sc_failures s"
    "sc_db (snd (export_online_ctr env version s)) = ce_world env CLoad (sc_db s)"
  by (simp_all add: export_online_ctr_def Let_def split: option.split)

end
