(* ===== verification/KvStore.thy ===== *)
theory KvStore
  imports Json
begin

text \<open>
  Redis as the services use it: string keys with an optional expiry, read at an explicit instant.
  A value is kept as what its readers make of it: \<open>VJson v\<close> for a text that \<^verbatim>\<open>json.loads\<close> /
  \<^verbatim>\<open>cjson.decode\<close> reads as \<open>v\<close>, \<open>VBad t\<close> for a text that is no JSON, \<open>VNonString\<close> for a key of
  another Redis type (\<^verbatim>\<open>WRONGTYPE\<close> on \<^verbatim>\<open>GET\<close>). The contract the clients use is the locale
  \<open>kv_store\<close>.
\<close>

datatype rval = VJson json | VBad string | VNonString

type_synonym store = "string \<Rightarrow> (rval \<times> time option) option"

definition kv_get :: "time \<Rightarrow> store \<Rightarrow> string \<Rightarrow> rval option" where
  "kv_get now s k = (case s k of None \<Rightarrow> None
     | Some (v, e) \<Rightarrow> (case e of None \<Rightarrow> Some v | Some t \<Rightarrow> if now < t then Some v else None))"

definition kv_set :: "store \<Rightarrow> string \<Rightarrow> rval \<Rightarrow> time option \<Rightarrow> store" where
  "kv_set s k v e = s(k \<mapsto> (v, e))"

definition kv_setex :: "time \<Rightarrow> store \<Rightarrow> string \<Rightarrow> int \<Rightarrow> rval \<Rightarrow> store" where
  "kv_setex now s k ttl v = kv_set s k v (Some (now + ttl * second_us))"

definition kv_del :: "store \<Rightarrow> string \<Rightarrow> store" where
  "kv_del s k = s(k := None)"

definition kv_exists :: "time \<Rightarrow> store \<Rightarrow> string \<Rightarrow> bool" where
  "kv_exists now s k = (kv_get now s k \<noteq> None)"

definition kv_getdel :: "time \<Rightarrow> store \<Rightarrow> string \<Rightarrow> rval option \<times> store" where
  "kv_getdel now s k = (kv_get now s k, kv_del s k)"

section \<open>The contract\<close>

locale kv_store =
  fixes get :: "time \<Rightarrow> 's \<Rightarrow> string \<Rightarrow> rval option"
    and put :: "'s \<Rightarrow> string \<Rightarrow> rval \<Rightarrow> time option \<Rightarrow> 's"
    and del :: "'s \<Rightarrow> string \<Rightarrow> 's"
  assumes get_put_same: "(\<And>t. e = Some t \<Longrightarrow> now < t) \<Longrightarrow> get now (put s k v e) k = Some v"
    and get_put_expired: "t \<le> now \<Longrightarrow> get now (put s k v (Some t)) k = None"
    and get_put_other: "k' \<noteq> k \<Longrightarrow> get now (put s k v e) k' = get now s k'"
    and get_del: "get now (del s k) k' = (if k' = k then None else get now s k')"
begin

text \<open>Compare and delete: the key goes only while its value satisfies the test.\<close>

definition cad :: "time \<Rightarrow> (rval \<Rightarrow> bool) \<Rightarrow> 's \<Rightarrow> string \<Rightarrow> 's" where
  "cad now p s k = (case get now s k of None \<Rightarrow> s | Some v \<Rightarrow> if p v then del s k else s)"

lemma cad_other: "k' \<noteq> k \<Longrightarrow> get now' (cad now p s k) k' = get now' s k'"
  by (simp add: cad_def get_del split: option.split)

lemma cad_keeps: "get now s k = Some v \<Longrightarrow> \<not> p v \<Longrightarrow> cad now p s k = s"
  by (simp add: cad_def)

lemma cad_deletes: "get now s k = Some v \<Longrightarrow> p v \<Longrightarrow> get now' (cad now p s k) k = None"
  by (simp add: cad_def get_del)

lemma cad_gone: "get now (cad now p s k) k = Some v \<Longrightarrow> \<not> p v \<and> get now s k = Some v"
  by (auto simp: cad_def get_del split: option.splits if_splits)

lemma cad_idem: "get now' (cad now p (cad now p s k) k) k' = get now' (cad now p s k) k'"
  by (auto simp: cad_def get_del split: option.splits)

end

interpretation kv: kv_store kv_get kv_set kv_del
  by unfold_locales (auto simp: kv_get_def kv_set_def kv_del_def split: option.splits)

section \<open>The accepted-offer key\<close>

text \<open>\<^verbatim>\<open>accepted_offers:{user_id}:{mcc_code}\<close>, the hot-path key mobile_api writes and the listener
  reads, and \<^verbatim>\<open>_RELEASE_OFFER_LUA\<close>: delete it only while it holds this offer.\<close>

definition offer_key :: "string \<Rightarrow> string \<Rightarrow> string" where
  "offer_key user mcc = ''accepted_offers:'' @ user @ '':'' @ mcc"

definition holds_offer :: "string \<Rightarrow> rval \<Rightarrow> bool" where
  "holds_offer rid v = (case v of
     VJson (JObj kvs) \<Rightarrow> jget kvs ''recommendation_id'' = JStr rid | _ \<Rightarrow> False)"

definition release_offer :: "time \<Rightarrow> store \<Rightarrow> string \<Rightarrow> string \<Rightarrow> store" where
  "release_offer now s k rid = (case kv_get now s k of None \<Rightarrow> s
     | Some v \<Rightarrow> if holds_offer rid v then kv_del s k else s)"

lemma release_offer_cad: "release_offer now s k rid = kv.cad now (holds_offer rid) s k"
  by (simp add: release_offer_def kv.cad_def)

lemmas release_offer_other = kv.cad_other [where p = "holds_offer rid" for rid, folded release_offer_cad]
lemmas release_offer_keeps = kv.cad_keeps [where p = "holds_offer rid" for rid, folded release_offer_cad]
lemmas release_offer_deletes = kv.cad_deletes [where p = "holds_offer rid" for rid, folded release_offer_cad]

end
