(* ===== verification/Accrual.thy ===== *)
theory Accrual
  imports Eligibility KvStore Faults
begin

text \<open>
  \<^verbatim>\<open>AccrualEngine\<close> (\<^verbatim>\<open>services/transaction_listener/app/accrual/engine.py\<close>): the accrual transaction
  statement by statement, its commit, and the two best-effort steps after it.

  \<open>acc_env\<close> is everything around one call: \<open>fault\<close> makes a statement (or the commit) raise,
  \<open>world\<close> is what other transactions commit before a statement sees the database (READ COMMITTED),
  \<open>bind_uuid\<close> is asyncpg's encoding of a text as a UUID parameter. The transaction's own writes take
  effect at the commit; \<open>commit_applied\<close> tells whether a commit that raised had been applied.
  \<^verbatim>\<open>transaction_at\<close> is an instant, so the guard against naive values has nothing to reject.
\<close>

datatype stmt =
    LockOffer
  | Paid_Before
  | LockCampaign
  | Eligible
  | CalcCashback
  | InsertAccrual
  | Paid_Again
  | UpdateBudget
  | Commit

record acc_env =
  fault :: "stmt \<Rightarrow> exn option"
  world :: "stmt \<Rightarrow> db \<Rightarrow> db"
  bind_uuid :: "string \<Rightarrow> exn + uuid"
  num_in :: "string \<Rightarrow> rat option"
  tx_now :: time
  clock :: time
  fresh_id :: uuid
  commit_applied :: bool
  redis_ok :: bool
  kafka_ok :: bool

record acc_req =
  rq_user :: string
  rq_campaign :: string
  rq_rec :: string
  rq_tx :: string
  rq_mcc :: string
  rq_amount :: money
  rq_at :: time

record acc_event =
  ev_accrual :: uuid
  ev_user :: string
  ev_campaign :: string
  ev_rec :: string
  ev_tx :: string
  ev_mcc :: string
  ev_amount :: money
  ev_cashback :: money
  ev_tx_at :: time
  ev_at :: time

datatype acc_result = Accrued uuid money acc_event | Skipped string

section \<open>Statements\<close>

text \<open>A step of the transaction: an exception or a value, and the committed database it leaves.\<close>

type_synonym 'a tx = "db \<Rightarrow> (exn + 'a) \<times> db"

definition tx_return :: "'a \<Rightarrow> 'a tx" where
  "tx_return x = (\<lambda>d. (Inr x, d))"

definition tx_raise :: "exn \<Rightarrow> 'a tx" where
  "tx_raise e = (\<lambda>d. (Inl e, d))"

definition tx_lift :: "exn + 'a \<Rightarrow> 'a tx" where
  "tx_lift r = (\<lambda>d. (r, d))"

definition tx_bind :: "'a tx \<Rightarrow> ('a \<Rightarrow> 'b tx) \<Rightarrow> 'b tx" where
  "tx_bind m f = (\<lambda>d. case m d of (Inl e, d') \<Rightarrow> (Inl e, d') | (Inr x, d') \<Rightarrow> f x d')"

definition run :: "acc_env \<Rightarrow> stmt \<Rightarrow> db tx" where
  "run env st = (\<lambda>d. let d' = world env st d in
     (case fault env st of Some e \<Rightarrow> Inl e | None \<Rightarrow> Inr d', d'))"

section \<open>Helpers of the engine\<close>

definition accepted_by :: "rec_row \<Rightarrow> time \<Rightarrow> bool" where
  "accepted_by ofr tm = (case re_responded ofr of None \<Rightarrow> False | Some t \<Rightarrow> floor_second t \<le> tm)"

definition paid_rows :: "db \<Rightarrow> uuid \<Rightarrow> string \<Rightarrow> accrual_row list" where
  "paid_rows d rid tid = filter (\<lambda>a. ac_rec a = Some rid \<or> ac_tx a = tid) (accruals d)"

definition pays_offer :: "accrual_row list \<Rightarrow> string \<Rightarrow> bool" where
  "pays_offer rows rid = list_ex (\<lambda>a. case ac_rec a of None \<Rightarrow> same_uuid ''None'' rid
     | Some r \<Rightarrow> same_uuid (uuid_text r) rid) rows"

text \<open>\<^verbatim>\<open>INSERT \<dots> ON CONFLICT DO NOTHING\<close>: the unique keys of the table, then the foreign keys.\<close>

definition conflicts :: "accrual_row \<Rightarrow> accrual_row \<Rightarrow> bool" where
  "conflicts w a = (ac_id a = ac_id w \<or> (ac_tx a = ac_tx w \<and> ac_campaign a = ac_campaign w) \<or>
     (ac_rec w \<noteq> None \<and> ac_rec a = ac_rec w) \<or>
     (ac_rec w \<noteq> None \<and> ac_rec a \<noteq> None \<and> ac_tx a = ac_tx w))"

definition row_refs_ok :: "db \<Rightarrow> accrual_row \<Rightarrow> bool" where
  "row_refs_ok d w = (ac_user w \<in> us_id ` set (users d) \<and> ac_campaign w \<in> ca_id ` set (campaigns d) \<and>
     (case ac_rec w of None \<Rightarrow> True | Some r \<Rightarrow> r \<in> re_id ` set (recs d)))"

definition insert_accrual :: "db \<Rightarrow> accrual_row \<Rightarrow> exn + accrual_row option" where
  "insert_accrual d w =
    (if 128 < length (ac_tx w) \<or> 4 < length (rtrim (ac_mcc w)) then Inl (pg_error ''22001'')
     else case (store_money (ac_amount w), store_money (ac_cashback w)) of
       (Some am, Some cb) \<Rightarrow>
         let w' = w\<lparr>ac_amount := am, ac_cashback := cb\<rparr> in
         if list_ex (conflicts w') (accruals d) then Inr None
         else if \<not> row_refs_ok d w' then Inl (pg_error ''23503'') else Inr (Some w')
     | _ \<Rightarrow> Inl (pg_error ''22003''))"

text \<open>\<^verbatim>\<open>UPDATE cashback_campaigns SET budget_spent = budget_spent + :amount\<close>, with the column's type and
  \<^verbatim>\<open>ck_campaign_budget\<close>.\<close>

definition update_budget :: "db \<Rightarrow> uuid \<Rightarrow> money \<Rightarrow> exn + unit" where
  "update_budget d cid cb = (case find_by ca_id cid (campaigns d) of None \<Rightarrow> Inr ()
     | Some c \<Rightarrow> (case store_money (ca_spent c + cb) of None \<Rightarrow> Inl (pg_error ''22003'')
        | Some s \<Rightarrow> if s \<le> ca_total c then Inr () else Inl (pg_error ''23514'')))"

record acc_write =
  wr_row :: accrual_row
  wr_amount :: money

definition apply_write :: "acc_write option \<Rightarrow> db \<Rightarrow> db" where
  "apply_write w d = (case w of None \<Rightarrow> d
     | Some x \<Rightarrow> d\<lparr>accruals := accruals d @ [wr_row x],
         campaigns := update_where (\<lambda>c. ca_id c = ac_campaign (wr_row x))
           (\<lambda>c. c\<lparr>ca_spent := pg_round 2 (ca_spent c + wr_amount x)\<rparr>) (campaigns d)\<rparr>)"

type_synonym acc_outcome = "acc_result \<times> bool \<times> acc_write option"

definition skip_acc :: "string \<Rightarrow> acc_outcome tx" where
  "skip_acc reason = tx_return (Skipped reason, False, None)"

section \<open>The transaction\<close>

text \<open>\<^verbatim>\<open>_accrue_locked\<close>: steps 2 to 6 under the offer lock.\<close>

definition new_row :: "acc_env \<Rightarrow> acc_req \<Rightarrow> uuid \<Rightarrow> uuid \<Rightarrow> uuid \<Rightarrow> money \<Rightarrow> accrual_row" where
  "new_row env q uid cid rid cb =
    \<lparr>ac_id = fresh_id env, ac_user = uid, ac_campaign = cid, ac_rec = Some rid, ac_tx = rq_tx q,
     ac_mcc = rq_mcc q, ac_amount = rq_amount q, ac_cashback = cb, ac_status = AC_PENDING,
     ac_at = clock env, ac_paid = None\<rparr>"

definition acc_event_of :: "acc_env \<Rightarrow> acc_req \<Rightarrow> money \<Rightarrow> acc_event" where
  "acc_event_of env q cb =
    \<lparr>ev_accrual = fresh_id env, ev_user = rq_user q, ev_campaign = rq_campaign q, ev_rec = rq_rec q,
     ev_tx = rq_tx q, ev_mcc = rq_mcc q, ev_amount = rq_amount q, ev_cashback = cb,
     ev_tx_at = rq_at q, ev_at = clock env\<rparr>"

definition insert_step :: "acc_env \<Rightarrow> acc_req \<Rightarrow> uuid \<Rightarrow> uuid \<Rightarrow> uuid \<Rightarrow> money \<Rightarrow> acc_outcome tx" where
  "insert_step env q uid cid rid cb =
    tx_bind (run env InsertAccrual) (\<lambda>d.
    tx_bind (tx_lift (insert_accrual d (new_row env q uid cid rid cb))) (\<lambda>ins.
    case ins of
      None \<Rightarrow> tx_bind (run env Paid_Again) (\<lambda>d.
        tx_return (Skipped ''duplicate'', pays_offer (paid_rows d rid (rq_tx q)) (rq_rec q), None))
    | Some row \<Rightarrow> tx_bind (run env UpdateBudget) (\<lambda>d.
        tx_bind (tx_lift (update_budget d cid cb)) (\<lambda>_.
        tx_return (Accrued (fresh_id env) cb (acc_event_of env q cb), True,
                   Some \<lparr>wr_row = row, wr_amount = cb\<rparr>)))))"

definition accrue_locked :: "acc_env \<Rightarrow> acc_req \<Rightarrow> uuid \<Rightarrow> acc_outcome tx" where
  "accrue_locked env q rid =
    tx_bind (tx_lift (bind_uuid env (rq_campaign q))) (\<lambda>cid.
    tx_bind (run env LockCampaign) (\<lambda>_.
    tx_bind (tx_lift (bind_uuid env (rq_user q))) (\<lambda>uid.
    tx_bind (run env Eligible) (\<lambda>d.
    case find_by el_id cid
        (eligible_campaigns (tx_now env) d uid (rq_mcc q) (Some (rq_amount q)) (rq_at q)) of
      None \<Rightarrow> skip_acc ''not_eligible''
    | Some e \<Rightarrow>
      tx_bind (run env CalcCashback) (\<lambda>d.
      tx_bind (tx_lift (case calculate_cashback (num_in env) d cid (rq_mcc q) (rq_amount q) of
          Inl st \<Rightarrow> Inl (pg_error st) | Inr None \<Rightarrow> Inr 0 | Inr (Some x) \<Rightarrow> Inr x)) (\<lambda>cb.
      if cb \<le> 0 then skip_acc ''zero_cashback''
      else if (case el_daily e of None \<Rightarrow> False | Some l \<Rightarrow> l < el_today e + cb)
      then skip_acc ''daily_limit_reached''
      else if el_total e - el_spent e < cb then skip_acc ''budget_exhausted''
      else insert_step env q uid cid rid cb))))))"

text \<open>\<^verbatim>\<open>accrue\<close> up to the commit.\<close>

definition accrue_body :: "acc_env \<Rightarrow> acc_req \<Rightarrow> acc_outcome tx" where
  "accrue_body env q =
    tx_bind (tx_lift (bind_uuid env (rq_rec q))) (\<lambda>rid.
    tx_bind (run env LockOffer) (\<lambda>d.
    case find_by re_id rid (recs d) of
      None \<Rightarrow> skip_acc ''offer_mismatch''
    | Some ofr \<Rightarrow>
      if \<not> same_uuid (uuid_text (re_user ofr)) (rq_user q) \<or>
         \<not> same_uuid (uuid_text (re_campaign ofr)) (rq_campaign q) \<or>
         py_strip (re_mcc ofr) \<noteq> rq_mcc q
      then skip_acc ''offer_mismatch''
      else
        tx_bind (run env Paid_Before) (\<lambda>d. let paid = paid_rows d rid (rq_tx q) in
        if paid \<noteq> [] then
          tx_return (Skipped ''duplicate'', pays_offer paid (rq_rec q), None)
        else if re_status ofr \<noteq> ACCEPTED then skip_acc ''offer_not_accepted''
        else if \<not> accepted_by ofr (rq_at q) then skip_acc ''accepted_after_purchase''
        else if re_expires ofr \<le> rq_at q then skip_acc ''offer_expired''
        else accrue_locked env q rid)))"

section \<open>The call\<close>

record acc_sys =
  as_db :: db
  as_redis :: store
  as_events :: "acc_event list"

definition after_commit :: "acc_env \<Rightarrow> acc_req \<Rightarrow> acc_result \<Rightarrow> bool \<Rightarrow> acc_sys \<Rightarrow> acc_sys" where
  "after_commit env q res consumed s =
    (let s1 = (if consumed \<and> redis_ok env
               then s\<lparr>as_redis := release_offer (clock env) (as_redis s)
                        (offer_key (rq_user q) (rq_mcc q)) (rq_rec q)\<rparr> else s)
     in case res of
          Accrued aid cb ev \<Rightarrow> if kafka_ok env then s1\<lparr>as_events := as_events s1 @ [ev]\<rparr> else s1
        | Skipped _ \<Rightarrow> s1)"

definition accrue :: "acc_env \<Rightarrow> acc_req \<Rightarrow> acc_sys \<Rightarrow> (exn + acc_result) \<times> acc_sys" where
  "accrue env q s =
    (case accrue_body env q (as_db s) of
       (Inl e, d) \<Rightarrow> (Inl e, s\<lparr>as_db := d\<rparr>)
     | (Inr (res, consumed, w), d) \<Rightarrow>
        (let d' = world env Commit d in
         case fault env Commit of
           Some e \<Rightarrow> (Inl e, s\<lparr>as_db := if commit_applied env then apply_write w d' else d'\<rparr>)
         | None \<Rightarrow> (Inr res, after_commit env q res consumed (s\<lparr>as_db := apply_write w d'\<rparr>))))"

section \<open>The body only reads\<close>

lemma tx_bind_Inr:
  "tx_bind m f d = (Inr y, d'') \<longleftrightarrow> (\<exists>x d'. m d = (Inr x, d') \<and> f x d' = (Inr y, d''))"
  by (auto simp: tx_bind_def split: prod.splits sum.splits)

lemma run_Inr: "run env st d = (Inr x, d') \<longleftrightarrow> fault env st = None \<and> x = world env st d \<and> d' = world env st d"
  by (auto simp: run_def Let_def split: option.splits)

lemma tx_lift_Inr: "tx_lift r d = (Inr x, d') \<longleftrightarrow> r = Inr x \<and> d' = d"
  by (auto simp: tx_lift_def)

lemma tx_return_Inr: "tx_return y d = (Inr x, d') \<longleftrightarrow> x = y \<and> d' = d"
  by (auto simp: tx_return_def)

lemmas tx_inversion = tx_bind_Inr run_Inr tx_lift_Inr tx_return_Inr skip_acc_def

text \<open>A property every other transaction keeps holds after any step.\<close>

definition tx_keeps :: "(db \<Rightarrow> bool) \<Rightarrow> 'a tx \<Rightarrow> bool" where
  "tx_keeps P m = (\<forall>d. P d \<longrightarrow> P (snd (m d)))"

lemma tx_keeps_return [inv_intros]: "tx_keeps P (tx_return x)"
  by (simp add: tx_keeps_def tx_return_def)

lemma tx_keeps_lift [inv_intros]: "tx_keeps P (tx_lift r)"
  by (simp add: tx_keeps_def tx_lift_def)

lemma tx_keeps_skip [inv_intros]: "tx_keeps P (skip_acc r)"
  by (simp add: skip_acc_def tx_keeps_return)

lemma tx_keeps_bind [inv_intros]:
  "tx_keeps P m \<Longrightarrow> (\<And>x. tx_keeps P (f x)) \<Longrightarrow> tx_keeps P (tx_bind m f)"
  by (auto simp: tx_keeps_def tx_bind_def split: prod.split sum.split)

lemma tx_keeps_run: "(\<And>st d. P d \<Longrightarrow> P (world env st d)) \<Longrightarrow> tx_keeps P (run env st)"
  by (simp add: tx_keeps_def run_def Let_def)

lemma accrue_body_keeps:
  assumes "\<And>st d. P d \<Longrightarrow> P (world env st d)"
  shows "tx_keeps P (accrue_body env q)"
proof -
  have r: "tx_keeps P (run env st)" for st using assms by (rule tx_keeps_run)
  have ins: "tx_keeps P (insert_step env q uid cid rid cb)" for uid cid rid cb
    unfolding insert_step_def by (intro inv_intros r) (auto split: option.split intro!: inv_intros r)
  have "tx_keeps P (accrue_locked env q rid)" for rid
    unfolding accrue_locked_def
    by (intro inv_intros r) (auto split: option.split intro!: inv_intros r ins)
  then show ?thesis
    unfolding accrue_body_def Let_def
    by (intro inv_intros r) (auto split: option.split intro!: inv_intros r)
qed

section \<open>What a payment went through\<close>

text \<open>The statements of a paying run, with the database each of them saw.\<close>

definition offer_checks :: "acc_req \<Rightarrow> uuid \<Rightarrow> rec_row \<Rightarrow> db \<Rightarrow> bool" where
  "offer_checks q rid ofr d =
    (same_uuid (uuid_text (re_user ofr)) (rq_user q) \<and>
     same_uuid (uuid_text (re_campaign ofr)) (rq_campaign q) \<and> py_strip (re_mcc ofr) = rq_mcc q \<and>
     paid_rows d rid (rq_tx q) = [] \<and> re_status ofr = ACCEPTED \<and> accepted_by ofr (rq_at q) \<and>
     rq_at q < re_expires ofr)"

definition money_checks :: "acc_env \<Rightarrow> acc_req \<Rightarrow> uuid \<Rightarrow> elig_row \<Rightarrow> money \<Rightarrow> db \<Rightarrow> bool" where
  "money_checks env q cid e cb d =
    (calculate_cashback (num_in env) d cid (rq_mcc q) (rq_amount q) = Inr (Some cb) \<and> 0 < cb \<and>
     (case el_daily e of None \<Rightarrow> True | Some l \<Rightarrow> el_today e + cb \<le> l) \<and> cb \<le> el_total e - el_spent e)"

definition payment ::
  "acc_env \<Rightarrow> acc_req \<Rightarrow> db \<Rightarrow> db \<Rightarrow> uuid \<Rightarrow> uuid \<Rightarrow> uuid \<Rightarrow> rec_row \<Rightarrow> elig_row \<Rightarrow> money \<Rightarrow> accrual_row \<Rightarrow> bool"
  where
  "payment env q d d' rid cid uid ofr e cb row =
    (\<exists>d1 d2 d3 d4 d5 d6.
       d1 = world env LockOffer d \<and> d2 = world env Paid_Before d1 \<and> d3 = world env LockCampaign d2 \<and>
       d4 = world env Eligible d3 \<and> d5 = world env CalcCashback d4 \<and>
       d6 = world env InsertAccrual d5 \<and> d' = world env UpdateBudget d6 \<and>
       bind_uuid env (rq_rec q) = Inr rid \<and> bind_uuid env (rq_campaign q) = Inr cid \<and>
       bind_uuid env (rq_user q) = Inr uid \<and>
       find_by re_id rid (recs d1) = Some ofr \<and> offer_checks q rid ofr d2 \<and>
       find_by el_id cid (eligible_campaigns (tx_now env) d4 uid (rq_mcc q) (Some (rq_amount q)) (rq_at q))
         = Some e \<and>
       money_checks env q cid e cb d5 \<and>
       insert_accrual d6 (new_row env q uid cid rid cb) = Inr (Some row) \<and>
       update_budget d' cid cb = Inr ())"

lemma insert_step_cases:
  assumes "insert_step env q uid cid rid cb d = (Inr (res, consumed, w), d')"
  shows "(w = None \<and> res = Skipped ''duplicate'') \<or>
    (\<exists>row. insert_accrual (world env InsertAccrual d) (new_row env q uid cid rid cb) = Inr (Some row) \<and>
       d' = world env UpdateBudget (world env InsertAccrual d) \<and> update_budget d' cid cb = Inr () \<and>
       res = Accrued (fresh_id env) cb (acc_event_of env q cb) \<and> consumed \<and>
       w = Some \<lparr>wr_row = row, wr_amount = cb\<rparr>)"
  using assms unfolding insert_step_def by (auto simp: tx_inversion split: option.splits)

lemma accrue_locked_cases:
  assumes "accrue_locked env q rid d = (Inr (res, consumed, w), d')"
  shows "(w = None \<and> (\<exists>r. res = Skipped r)) \<or>
    (\<exists>cid uid e cb row d4 d5 d6. d4 = world env Eligible (world env LockCampaign d) \<and>
       d5 = world env CalcCashback d4 \<and> d6 = world env InsertAccrual d5 \<and> d' = world env UpdateBudget d6 \<and>
       bind_uuid env (rq_campaign q) = Inr cid \<and> bind_uuid env (rq_user q) = Inr uid \<and>
       find_by el_id cid (eligible_campaigns (tx_now env) d4 uid (rq_mcc q) (Some (rq_amount q)) (rq_at q))
         = Some e \<and>
       money_checks env q cid e cb d5 \<and>
       insert_accrual d6 (new_row env q uid cid rid cb) = Inr (Some row) \<and>
       update_budget d' cid cb = Inr () \<and>
       res = Accrued (fresh_id env) cb (acc_event_of env q cb) \<and> consumed \<and>
       w = Some \<lparr>wr_row = row, wr_amount = cb\<rparr>)"
proof -
  obtain cid uid where b: "bind_uuid env (rq_campaign q) = Inr cid" "bind_uuid env (rq_user q) = Inr uid"
    using assms unfolding accrue_locked_def by (auto simp: tx_inversion)
  let ?d4 = "world env Eligible (world env LockCampaign d)"
  let ?d5 = "world env CalcCashback ?d4"
  show ?thesis
  proof (cases "find_by el_id cid
      (eligible_campaigns (tx_now env) ?d4 uid (rq_mcc q) (Some (rq_amount q)) (rq_at q))")
    case None
    then show ?thesis using assms b unfolding accrue_locked_def by (auto simp: tx_inversion)
  next
    case (Some e)
    then obtain cb where cb: "(case calculate_cashback (num_in env) ?d5 cid (rq_mcc q) (rq_amount q) of
          Inl st \<Rightarrow> Inl (pg_error st) | Inr None \<Rightarrow> Inr 0 | Inr (Some x) \<Rightarrow> Inr x) = Inr cb"
      and rest: "(if cb \<le> 0 then skip_acc ''zero_cashback''
        else if (case el_daily e of None \<Rightarrow> False | Some l \<Rightarrow> l < el_today e + cb)
        then skip_acc ''daily_limit_reached''
        else if el_total e - el_spent e < cb then skip_acc ''budget_exhausted''
        else insert_step env q uid cid rid cb) ?d5 = (Inr (res, consumed, w), d')"
      using assms b unfolding accrue_locked_def by (auto simp: tx_bind_Inr run_Inr tx_lift_Inr)
    show ?thesis
    proof (cases "cb \<le> 0 \<or> (case el_daily e of None \<Rightarrow> False | Some l \<Rightarrow> l < el_today e + cb) \<or>
        el_total e - el_spent e < cb")
      case True
      then show ?thesis using rest by (auto simp: skip_acc_def tx_return_Inr split: if_splits)
    next
      case False
      then have ins: "insert_step env q uid cid rid cb ?d5 = (Inr (res, consumed, w), d')"
        using rest by auto
      have "calculate_cashback (num_in env) ?d5 cid (rq_mcc q) (rq_amount q) = Inr (Some cb)"
        using cb False by (auto split: sum.splits option.splits)
      then have "money_checks env q cid e cb ?d5"
        using False by (auto simp: money_checks_def split: option.splits)
      with insert_step_cases [OF ins] b Some show ?thesis by blast
    qed
  qed
qed

lemma accrue_body_cases:
  assumes "accrue_body env q d = (Inr (res, consumed, w), d')"
  shows "(w = None \<and> (\<exists>r. res = Skipped r)) \<or>
    (\<exists>rid cid uid ofr e cb row. payment env q d d' rid cid uid ofr e cb row \<and>
       res = Accrued (fresh_id env) cb (acc_event_of env q cb) \<and> consumed \<and>
       w = Some \<lparr>wr_row = row, wr_amount = cb\<rparr>)"
proof -
  let ?d1 = "world env LockOffer d"
  let ?d2 = "world env Paid_Before ?d1"
  obtain rid where rid: "bind_uuid env (rq_rec q) = Inr rid"
    using assms unfolding accrue_body_def by (auto simp: tx_inversion)
  show ?thesis
  proof (cases "find_by re_id rid (recs ?d1)")
    case None
    then show ?thesis using assms rid unfolding accrue_body_def by (auto simp: tx_inversion)
  next
    case (Some ofr)
    show ?thesis
    proof (cases "offer_checks q rid ofr ?d2")
      case False
      then show ?thesis using assms rid Some
        unfolding accrue_body_def offer_checks_def
        by (auto simp: tx_inversion Let_def not_le split: if_splits)
    next
      case True
      then have "accrue_locked env q rid ?d2 = (Inr (res, consumed, w), d')"
        using assms rid Some unfolding accrue_body_def offer_checks_def
        by (auto simp: tx_bind_Inr run_Inr tx_lift_Inr Let_def)
      with accrue_locked_cases [OF this] rid Some True show ?thesis
        unfolding payment_def by blast
    qed
  qed
qed

section \<open>What the locks and keys guarantee\<close>

text \<open>
  The hypothesis on the other transactions: every committed state satisfies the schema's
  constraints; the offer row is theirs to change only before \<^verbatim>\<open>FOR UPDATE\<close>, the campaign row and the
  campaign's ledger only before \<^verbatim>\<open>FOR NO KEY UPDATE\<close> (every writer of the ledger takes that lock);
  between our insert and our commit the unique indexes keep out a row that collides with ours, and
  the key-share locks of the foreign keys keep its user, campaign and offer.
\<close>

definition after_offer_lock :: "stmt \<Rightarrow> bool" where
  "after_offer_lock st = (st \<noteq> LockOffer)"

definition after_campaign_lock :: "stmt \<Rightarrow> bool" where
  "after_campaign_lock st = (st \<notin> {LockOffer, Paid_Before, LockCampaign})"

definition isolated :: "acc_env \<Rightarrow> acc_req \<Rightarrow> bool" where
  "isolated env q =
    ((\<forall>st d. db_ok d \<longrightarrow> db_ok (world env st d)) \<and>
     (\<forall>st d rid. after_offer_lock st \<longrightarrow> bind_uuid env (rq_rec q) = Inr rid \<longrightarrow>
        find_by re_id rid (recs (world env st d)) = find_by re_id rid (recs d)) \<and>
     (\<forall>st d cid. after_campaign_lock st \<longrightarrow> bind_uuid env (rq_campaign q) = Inr cid \<longrightarrow>
        find_by ca_id cid (campaigns (world env st d)) = find_by ca_id cid (campaigns d) \<and>
        (\<forall>t. paid_since (world env st d) cid t = paid_since d cid t)) \<and>
     (\<forall>st d row. st \<in> {UpdateBudget, Commit} \<longrightarrow> ac_id row = fresh_id env \<longrightarrow>
        \<not> list_ex (conflicts row) (accruals d) \<and> row_refs_ok d row \<longrightarrow>
        \<not> list_ex (conflicts row) (accruals (world env st d)) \<and> row_refs_ok (world env st d) row))"

lemma isolated_db_ok: "isolated env q \<Longrightarrow> db_ok d \<Longrightarrow> db_ok (world env st d)"
  by (simp add: isolated_def)

lemma isolated_campaign:
  "isolated env q \<Longrightarrow> bind_uuid env (rq_campaign q) = Inr cid \<Longrightarrow> after_campaign_lock st \<Longrightarrow>
   find_by ca_id cid (campaigns (world env st d)) = find_by ca_id cid (campaigns d)"
  "isolated env q \<Longrightarrow> bind_uuid env (rq_campaign q) = Inr cid \<Longrightarrow> after_campaign_lock st \<Longrightarrow>
   paid_since (world env st d) cid t = paid_since d cid t"
  by (simp_all add: isolated_def)

lemma isolated_row:
  "isolated env q \<Longrightarrow> st \<in> {UpdateBudget, Commit} \<Longrightarrow> ac_id row = fresh_id env \<Longrightarrow>
   \<not> list_ex (conflicts row) (accruals d) \<Longrightarrow> row_refs_ok d row \<Longrightarrow>
   \<not> list_ex (conflicts row) (accruals (world env st d)) \<and> row_refs_ok (world env st d) row"
  unfolding isolated_def by blast

lemma quiet_isolated: "isolated (env\<lparr>world := (\<lambda>_ d. d)\<rparr>) q"
  by (simp add: isolated_def)

lemma insert_accrual_row:
  assumes "insert_accrual d w = Inr (Some row)"
  shows "\<not> list_ex (conflicts row) (accruals d)" "row_refs_ok d row"
    "\<exists>am. store_money (ac_amount w) = Some am \<and>
       (\<exists>cb. store_money (ac_cashback w) = Some cb \<and> row = w\<lparr>ac_amount := am, ac_cashback := cb\<rparr>)"
  using assms by (auto simp: insert_accrual_def Let_def split: if_splits option.splits)

text \<open>The state at the commit of a payment.\<close>

definition payable_at :: "acc_env \<Rightarrow> acc_req \<Rightarrow> db \<Rightarrow> uuid \<Rightarrow> uuid \<Rightarrow> uuid \<Rightarrow> money \<Rightarrow> accrual_row \<Rightarrow> bool" where
  "payable_at env q d rid cid uid cb row =
    (\<exists>c. find_by ca_id cid (campaigns d) = Some c \<and> open_campaign c (rq_at q) \<and>
       ca_spent c + cb \<le> ca_total c \<and>
       (case ca_daily c of None \<Rightarrow> True
        | Some l \<Rightarrow> paid_since d cid (floor_day (min (rq_at q) (tx_now env))) + cb \<le> l) \<and>
       0 < cb \<and> cents cb \<and> \<not> list_ex (conflicts row) (accruals d) \<and> row_refs_ok d row \<and>
       (\<exists>am. row = (new_row env q uid cid rid cb)\<lparr>ac_amount := am\<rparr>))"

lemma payment_payable:
  assumes iso: "isolated env q" and ok: "db_ok d"
    and pay: "payment env q d d' rid cid uid ofr e cb row"
  shows "payable_at env q (world env Commit d') rid cid uid cb row"
    and "db_ok (world env Commit d')"
proof -
  obtain d4 d5 d6 where d: "d4 = world env Eligible (world env LockCampaign (world env Paid_Before (world env LockOffer d)))"
      "d5 = world env CalcCashback d4" "d6 = world env InsertAccrual d5" "d' = world env UpdateBudget d6"
    and cid: "bind_uuid env (rq_campaign q) = Inr cid"
    and e: "find_by el_id cid (eligible_campaigns (tx_now env) d4 uid (rq_mcc q) (Some (rq_amount q)) (rq_at q)) = Some e"
    and m: "money_checks env q cid e cb d5"
    and ins: "insert_accrual d6 (new_row env q uid cid rid cb) = Inr (Some row)"
    using pay unfolding payment_def by blast
  let ?d8 = "world env Commit d'"
  have ok4: "db_ok d4" using ok iso by (simp add: d isolated_db_ok)
  then show ok8: "db_ok ?d8" using iso by (simp add: d isolated_db_ok)
  obtain c cc where c: "find_by ca_id cid (campaigns d4) = Some c" "open_campaign c (rq_at q)"
      "reports e c cc" "el_today e = spent_today (tx_now env) d4 cid (rq_at q)"
    using elg.elig_pick [OF db_ok_keys [OF ok4] e] by metis
  have lock: "after_campaign_lock CalcCashback" "after_campaign_lock InsertAccrual"
    "after_campaign_lock UpdateBudget" "after_campaign_lock Commit"
    by (simp_all add: after_campaign_lock_def)
  have c8: "find_by ca_id cid (campaigns ?d8) = Some c"
    using c(1) by (simp add: d isolated_campaign(1) [OF iso cid] lock)
  have t8: "paid_since ?d8 cid t = paid_since d4 cid t" for t
    by (simp add: d isolated_campaign(2) [OF iso cid] lock)
  have cb: "0 < cb" "cents cb"
    using m calculate_cashback_cents by (auto simp: money_checks_def)
  have spent: "ca_spent c + cb \<le> ca_total c"
    using m c(3) by (auto simp: money_checks_def reports_def)
  have daily: "case ca_daily c of None \<Rightarrow> True
      | Some l \<Rightarrow> paid_since ?d8 cid (floor_day (min (rq_at q) (tx_now env))) + cb \<le> l"
    using m c(3,4) by (auto simp: money_checks_def reports_def spent_today_def t8 split: option.splits)
  note row = insert_accrual_row [OF ins]
  have "0 \<le> ca_spent c" "ca_total c < 10 ^ 13"
    using checks_ok_campaign [OF db_ok_checks [OF ok4] c(1)] by (auto simp: campaign_ok_def)
  then have "store_money cb = Some cb" using cb spent by (intro store_money_cents) auto
  then obtain am where am: "row = (new_row env q uid cid rid cb)\<lparr>ac_amount := am\<rparr>"
    using row(3) by (auto simp: new_row_def)
  then have "ac_id row = fresh_id env" by (simp add: new_row_def)
  then have "\<not> list_ex (conflicts row) (accruals ?d8) \<and> row_refs_ok ?d8 row"
    using row(1,2) isolated_row [OF iso] by (simp add: d)
  with c8 c(2) spent daily cb am show "payable_at env q ?d8 rid cid uid cb row"
    by (auto simp: payable_at_def)
qed

section \<open>Writing the payment\<close>

lemma apply_write_keys:
  "keys_ok d \<Longrightarrow> \<not> list_ex (conflicts row) (accruals d) \<Longrightarrow>
   keys_ok (apply_write (Some \<lparr>wr_row = row, wr_amount = cb\<rparr>) d)"
  by (auto simp: keys_ok_def apply_write_def table_simps list_ex_iff conflicts_def)

lemma accrual_keys_snoc:
  assumes "accrual_keys_ok xs" "\<not> list_ex (conflicts row) xs"
  shows "accrual_keys_ok (xs @ [row])"
proof -
  have no: "\<forall>a \<in> set xs. \<not> conflicts row a" using assms(2) by (auto simp: list_ex_iff)
  then have "ac_id row \<notin> ac_id ` set xs"
    "(ac_tx row, ac_campaign row) \<notin> (\<lambda>a. (ac_tx a, ac_campaign a)) ` set xs"
    using no by (auto simp: conflicts_def)
  moreover have "ac_rec row \<notin> ac_rec ` set (paying_accruals xs)" "ac_tx row \<notin> ac_tx ` set (paying_accruals xs)"
    if "ac_rec row \<noteq> None"
    using no that by (auto simp: conflicts_def paying_accruals_def)
  ultimately show ?thesis using assms(1) by (auto simp: accrual_keys_ok_def paying_accruals_def)
qed

lemma find_unique_row:
  "unique_on key xs \<Longrightarrow> find_by key k xs = Some c \<Longrightarrow> x \<in> set xs \<Longrightarrow> key x = k \<Longrightarrow> x = c"
  using find_by_unique by fastforce

lemma apply_write_checks:
  assumes "db_ok d" "find_by ca_id (ac_campaign row) (campaigns d) = Some c"
    and "ca_spent c + cb \<le> ca_total c" "0 < cb" "cents cb" "ac_cashback row = cb"
  shows "checks_ok (apply_write (Some \<lparr>wr_row = row, wr_amount = cb\<rparr>) d)"
proof -
  have ck: "checks_ok d" using assms(1) by (rule db_ok_checks)
  have uniq: "unique_on ca_id (campaigns d)" using db_ok_keys [OF assms(1)] by (simp add: keys_ok_def)
  have c: "campaign_ok c" using checks_ok_campaign [OF ck assms(2)] .
  then have "cents (ca_spent c + cb)" "pg_round 2 (ca_spent c + cb) = ca_spent c + cb"
    using assms(4,5) by (auto simp: campaign_ok_def intro!: pg_round_cents cents_add)
  then have new: "campaign_ok (c\<lparr>ca_spent := pg_round 2 (ca_spent c + cb)\<rparr>)"
    using c assms(3,4) by (simp add: campaign_ok_def)
  have "x = c" if "x \<in> set (campaigns d)" "ca_id x = ac_campaign row" for x
    using find_unique_row [OF uniq assms(2) that] .
  then have "list_all campaign_ok (campaigns (apply_write (Some \<lparr>wr_row = row, wr_amount = cb\<rparr>) d))"
    using ck new by (auto simp: apply_write_def checks_ok_def intro!: list_all_update_where)
  then show ?thesis
    using ck assms(4-6) by (simp add: checks_ok_def apply_write_def)
qed

lemma apply_write_refs:
  assumes "refs_ok d" "row_refs_ok d row"
  shows "refs_ok (apply_write (Some \<lparr>wr_row = row, wr_amount = cb\<rparr>) d)"
  using assms
  by (auto simp: refs_ok_def row_refs_ok_def apply_write_def list_all_iff table_simps split: option.splits)

lemma payable_write:
  assumes "payable_at env q d rid cid uid cb row" "db_ok d"
  shows "db_ok (apply_write (Some \<lparr>wr_row = row, wr_amount = cb\<rparr>) d)"
proof -
  obtain c where c: "find_by ca_id cid (campaigns d) = Some c" "ca_spent c + cb \<le> ca_total c"
      "0 < cb" "cents cb" "\<not> list_ex (conflicts row) (accruals d)" "row_refs_ok d row"
      "ac_campaign row = cid" "ac_cashback row = cb"
    using assms(1) by (auto simp: payable_at_def new_row_def)
  show ?thesis
  proof (rule db_okI)
    show "keys_ok (apply_write (Some \<lparr>wr_row = row, wr_amount = cb\<rparr>) d)"
      using db_ok_keys [OF assms(2)] c by (intro apply_write_keys)
    show "accrual_keys_ok (accruals (apply_write (Some \<lparr>wr_row = row, wr_amount = cb\<rparr>) d))"
      using accrual_keys_snoc [OF db_ok_accruals [OF assms(2)] c(5)] by (simp add: apply_write_def)
    show "checks_ok (apply_write (Some \<lparr>wr_row = row, wr_amount = cb\<rparr>) d)"
      using apply_write_checks [OF assms(2)] c by simp
    show "refs_ok (apply_write (Some \<lparr>wr_row = row, wr_amount = cb\<rparr>) d)"
      using db_ok_refs [OF assms(2)] c by (intro apply_write_refs)
  qed
qed

text \<open>Every way a call can end, as the effect on the database.\<close>

lemma as_db_after_commit [simp]: "as_db (after_commit env q res consumed s) = as_db s"
  by (simp add: after_commit_def Let_def split: acc_result.split)

lemma accrue_effect:
  assumes "isolated env q" "db_ok (as_db s)"
  shows "(\<exists>d. db_ok d \<and> as_db (snd (accrue env q s)) = d \<and> (\<forall>aid cb ev. fst (accrue env q s) \<noteq> Inr (Accrued aid cb ev))) \<or>
    (\<exists>d rid cid uid cb row. db_ok d \<and> payable_at env q d rid cid uid cb row \<and>
       as_db (snd (accrue env q s)) = apply_write (Some \<lparr>wr_row = row, wr_amount = cb\<rparr>) d \<and>
       (fault env Commit = None \<longrightarrow> fst (accrue env q s) = Inr (Accrued (fresh_id env) cb (acc_event_of env q cb))))"
proof (cases "accrue_body env q (as_db s)")
  case (Pair r d)
  have "tx_keeps db_ok (accrue_body env q)"
    using assms(1) by (intro accrue_body_keeps) (rule isolated_db_ok)
  then have ok: "db_ok d" using assms(2) Pair unfolding tx_keeps_def by (metis snd_conv)
  then have ok': "db_ok (world env Commit d)" using assms(1) isolated_db_ok by blast
  show ?thesis
  proof (cases r)
    case (Inl e)
    with ok Pair show ?thesis by (auto simp: accrue_def)
  next
    case (Inr x)
    obtain res consumed w where x: "x = (res, consumed, w)" by (cases x) auto
    from accrue_body_cases [of env q "as_db s" res consumed w d] Pair Inr x
    consider (skip) r where "w = None" "res = Skipped r"
      | (pay) rid cid uid ofr e cb row where "payment env q (as_db s) d rid cid uid ofr e cb row"
          "res = Accrued (fresh_id env) cb (acc_event_of env q cb)" "w = Some \<lparr>wr_row = row, wr_amount = cb\<rparr>"
      by blast
    then show ?thesis
    proof cases
      case skip
      with ok' Pair Inr x show ?thesis
        by (auto simp: accrue_def Let_def apply_write_def split: option.splits)
    next
      case pay
      have p: "payable_at env q (world env Commit d) rid cid uid cb row"
        using payment_payable(1) [OF assms pay(1)] .
      show ?thesis
      proof (cases "fault env Commit = None \<or> commit_applied env")
        case True
        with ok' p Pair Inr x pay show ?thesis
          by (intro disjI2 exI [of _ "world env Commit d"] exI [of _ rid] exI [of _ cid] exI [of _ uid]
              exI [of _ cb] exI [of _ row]) (auto simp: accrue_def Let_def split: option.splits)
      next
        case False
        with ok' Pair Inr x show ?thesis by (auto simp: accrue_def Let_def)
      qed
    qed
  qed
qed

section \<open>Properties\<close>

lemma accrual_keysD:
  assumes "accrual_keys_ok xs" "a \<in> set xs" "b \<in> set xs" "ac_rec a \<noteq> None" "ac_rec b \<noteq> None"
    and "ac_rec a = ac_rec b \<or> ac_tx a = ac_tx b"
  shows "a = b"
proof -
  have "a \<in> set (paying_accruals xs)" "b \<in> set (paying_accruals xs)"
    using assms by (auto simp: paying_accruals_def)
  moreover have "inj_on ac_rec (set (paying_accruals xs))" "inj_on ac_tx (set (paying_accruals xs))"
    using assms(1) by (auto simp: accrual_keys_ok_def distinct_map)
  ultimately show ?thesis using assms(6) by (auto dest: inj_onD)
qed

lemma accrue_db_ok:
  assumes "isolated env q" "db_ok (as_db s)"
  shows "db_ok (as_db (snd (accrue env q s)))"
  using accrue_effect [OF assms] by (auto dest: payable_write)


definition sample_env :: acc_env where
  "sample_env = \<lparr>fault = (\<lambda>_. None), world = (\<lambda>_ d. d),
     bind_uuid = (\<lambda>s. case parse_uuid s of None \<Rightarrow> Inl (pg_error ''22P02'') | Some n \<Rightarrow> Inr n),
     num_in = (\<lambda>_. None), tx_now = 50, clock = 60, fresh_id = 100, commit_applied = False,
     redis_ok = True, kafka_ok = True\<rparr>"

definition sample_req :: acc_req where
  "sample_req = \<lparr>rq_user = uuid_text 3, rq_campaign = uuid_text 7, rq_rec = uuid_text 9,
     rq_tx = ''tx-1'', rq_mcc = ''5411'', rq_amount = 6000, rq_at = 60\<rparr>"

definition sample_sys :: acc_sys where
  "sample_sys = \<lparr>as_db = sample_db,
     as_redis = [offer_key (uuid_text 3) ''5411'' \<mapsto>
       (VJson (JObj [(''recommendation_id'', JStr (uuid_text 9))]), None)],
     as_events = []\<rparr>"

lemma sample_isolated: "isolated sample_env q"
  by (simp add: isolated_def sample_env_def)

lemma sample_db_ok: "db_ok sample_db"
proof (rule db_okI)
  show "keys_ok sample_db" by (rule sample_keys_ok)
qed (simp_all add: accrual_keys_ok_def paying_accruals_def checks_ok_def refs_ok_def sample_db_def
      sample_campaign_def campaign_ok_def cents_def)


text \<open>The ledger and the budget counter move together.\<close>

definition balanced :: "db \<Rightarrow> bool" where
  "balanced d = list_all (\<lambda>c. ca_spent c = paid_total d (ca_id c)) (campaigns d)"

lemma paid_total_write:
  "paid_total (apply_write (Some \<lparr>wr_row = row, wr_amount = cb\<rparr>) d) k =
   paid_total d k + (if ac_campaign row = k then ac_cashback row else 0)"
  by (simp add: paid_total_def apply_write_def add.commute)

lemma payable_balanced:
  assumes "payable_at env q d rid cid uid cb row" "db_ok d" "balanced d"
  shows "balanced (apply_write (Some \<lparr>wr_row = row, wr_amount = cb\<rparr>) d)"
proof -
  obtain c where c: "find_by ca_id cid (campaigns d) = Some c" "0 < cb" "cents cb"
      "ac_campaign row = cid" "ac_cashback row = cb"
    using assms(1) by (auto simp: payable_at_def new_row_def)
  have ok: "campaign_ok x" if "x \<in> set (campaigns d)" for x
    using db_ok_checks [OF assms(2)] that by (simp add: checks_ok_def list_all_iff)
  then have round: "pg_round 2 (ca_spent x + cb) = ca_spent x + cb" if "x \<in> set (campaigns d)" for x
    using c(2,3) that by (auto simp: campaign_ok_def intro!: pg_round_cents cents_add)
  let ?D = "apply_write (Some \<lparr>wr_row = row, wr_amount = cb\<rparr>) d"
  have "ca_spent y = paid_total ?D (ca_id y)" if y: "y \<in> set (campaigns ?D)" for y
  proof -
    obtain x where x: "x \<in> set (campaigns d)"
        "y = (if ca_id x = cid then x\<lparr>ca_spent := pg_round 2 (ca_spent x + cb)\<rparr> else x)"
      using y c(4) by (auto simp: apply_write_def set_update_where)
    moreover have "ca_spent x = paid_total d (ca_id x)"
      using x(1) assms(3) by (auto simp: balanced_def list_all_iff)
    ultimately show ?thesis using round [OF x(1)] c(4,5)
      by (cases "ca_id x = cid") (auto simp: paid_total_write)
  qed
  then show ?thesis by (simp add: balanced_def list_all_iff)
qed

text \<open>The budget counter is the ledger: if \<open>budget_spent\<close> of every campaign equals the sum of its
  accruals (and the other transactions keep it so), it still does after any call of \<open>accrue\<close>,
  however the call ends: the accrual row and the budget update are never separated.\<close>

theorem accrue_balanced:
  assumes "isolated env q" "db_ok (as_db s)" "balanced (as_db s)"
    and "\<And>st d. balanced d \<Longrightarrow> balanced (world env st d)"
  shows "balanced (as_db (snd (accrue env q s)))"
proof -
  have keeps: "tx_keeps (\<lambda>d. db_ok d \<and> balanced d) (accrue_body env q)"
    using assms(1,4) isolated_db_ok by (intro accrue_body_keeps) blast
  obtain r d where body: "accrue_body env q (as_db s) = (r, d)" by (cases "accrue_body env q (as_db s)")
  then have d: "db_ok d" "balanced d"
    using keeps assms(2,3) unfolding tx_keeps_def by (metis snd_conv)+
  then have d': "balanced (world env Commit d)" using assms(4) by blast
  show ?thesis
  proof (cases r)
    case (Inl e)
    with body d show ?thesis by (simp add: accrue_def)
  next
    case (Inr x)
    obtain res consumed w where x: "x = (res, consumed, w)" by (cases x) auto
    have "balanced (apply_write w (world env Commit d))"
    proof (cases w)
      case None
      with d' show ?thesis by (simp add: apply_write_def)
    next
      case (Some y)
      with accrue_body_cases [of env q "as_db s" res consumed w d] body Inr x
      obtain rid cid uid ofr e cb row where pay: "payment env q (as_db s) d rid cid uid ofr e cb row"
          and w: "w = Some \<lparr>wr_row = row, wr_amount = cb\<rparr>" by auto
      show ?thesis
        using payable_balanced [OF payment_payable(1) [OF assms(1,2) pay] payment_payable(2) [OF assms(1,2) pay] d']
        by (simp add: w)
    qed
    with body Inr x d' show ?thesis
      by (auto simp: accrue_def Let_def split: option.splits)
  qed
qed

theorem accrue_balanced_witness: "balanced (as_db (snd (accrue sample_env sample_req sample_sys)))"
proof (rule accrue_balanced [OF sample_isolated])
  show "db_ok (as_db sample_sys)" by (simp add: sample_sys_def sample_db_ok)
qed (simp_all add: sample_sys_def sample_env_def balanced_def paid_total_def sample_db_def
      sample_campaign_def)

section \<open>What a payment presupposes\<close>

lemma isolated_offer:
  "isolated env q \<Longrightarrow> bind_uuid env (rq_rec q) = Inr rid \<Longrightarrow> after_offer_lock st \<Longrightarrow>
   find_by re_id rid (recs (world env st d)) = find_by re_id rid (recs d)"
  by (simp add: isolated_def)

lemma payment_offer:
  assumes "isolated env q" "payment env q d d' rid cid uid ofr e cb row"
  shows "find_by re_id rid (recs (world env Commit d')) = Some ofr" "re_status ofr = ACCEPTED"
    "accepted_by ofr (rq_at q)" "rq_at q < re_expires ofr" "same_uuid (uuid_text (re_user ofr)) (rq_user q)"
    "same_uuid (uuid_text (re_campaign ofr)) (rq_campaign q)" "py_strip (re_mcc ofr) = rq_mcc q"
proof -
  have rid: "bind_uuid env (rq_rec q) = Inr rid" using assms(2) unfolding payment_def by blast
  have "after_offer_lock st" if "st \<noteq> LockOffer" for st using that by (simp add: after_offer_lock_def)
  then show "find_by re_id rid (recs (world env Commit d')) = Some ofr"
    using assms(2) isolated_offer [OF assms(1) rid] unfolding payment_def by auto
qed (use assms(2) in \<open>auto simp: payment_def offer_checks_def\<close>)


text \<open>The payment of the example: 5000 at 1 percent and 1000 at 2 percent.\<close>

lemma sample_pg_round: "pg_round 2 70 = 70"
  by (rule pg_round_cents) (simp_all add: cents_def)

lemma sample_cashback: "calculate_cashback (\<lambda>_. None) sample_db 7 ''5411'' 6000 = Inr (Some 70)"
  by (subst calculate_cashback_tiers [OF sample_db_find sample_category _ _ sample_tier_rows])
    (simp_all add: sample_defs min_amount_def scale_tiers_def tiers_cashback_def tier_segment_def
      sample_pg_round)

lemma sample_binds:
  "bind_uuid sample_env (rq_user sample_req) = Inr 3" "bind_uuid sample_env (rq_campaign sample_req) = Inr 7"
  "bind_uuid sample_env (rq_rec sample_req) = Inr 9"
  by (simp_all add: sample_env_def sample_req_def parse_uuid_text)

lemma sample_offer_checks:
  "find_by re_id 9 (recs sample_db) = Some ofr \<Longrightarrow> offer_checks sample_req 9 ofr sample_db"
  by (auto simp: sample_db_def offer_checks_def sample_req_def same_uuid_text parse_uuid_text
      paid_rows_def accepted_by_def floor_second_def second_us_def strip_by_def py_space_def split: if_splits)

lemma sample_insert:
  "\<exists>row. insert_accrual sample_db (new_row sample_env sample_req 3 7 9 70) = Inr (Some row)"
proof -
  have "pg_round 2 6000 = 6000" by (rule pg_round_cents) (simp_all add: cents_def)
  then show ?thesis
    by (simp add: insert_accrual_def new_row_def sample_env_def sample_req_def store_money_def
        sample_pg_round row_refs_ok_def sample_db_def sample_campaign_def rtrim_def Let_def)
qed

lemma sample_update: "update_budget sample_db 7 70 = Inr ()"
  by (simp add: update_budget_def store_money_def sample_campaign_def sample_pg_round)

lemma sample_locked:
  "\<exists>x. accrue_locked sample_env sample_req 9 sample_db =
     (Inr (Accrued 100 70 (acc_event_of sample_env sample_req 70), True, x), sample_db)"
proof -
  obtain row where "insert_accrual sample_db (new_row sample_env sample_req 3 7 9 70) = Inr (Some row)"
    using sample_insert by blast
  moreover have "\<And>st. run sample_env st sample_db = (Inr sample_db, sample_db)"
    by (simp add: run_def sample_env_def)
  moreover have "tx_now sample_env = 50" "num_in sample_env = (\<lambda>_. None)" "fresh_id sample_env = 100"
    "rq_mcc sample_req = ''5411''" "rq_amount sample_req = 6000" "rq_at sample_req = 60"
    by (simp_all add: sample_env_def sample_req_def)
  ultimately show ?thesis
    by (simp add: accrue_locked_def insert_step_def tx_bind_def tx_lift_def tx_return_def sample_binds
        sample_eligible sample_cashback sample_update elig_of_def sample_campaign_def)
qed

lemma sample_run:
  "fst (accrue sample_env sample_req sample_sys) = Inr (Accrued 100 70 (acc_event_of sample_env sample_req 70))"
proof -
  obtain ofr where ofr: "find_by re_id 9 (recs sample_db) = Some ofr"
    by (simp add: sample_db_def)
  obtain x where x: "accrue_locked sample_env sample_req 9 sample_db =
     (Inr (Accrued 100 70 (acc_event_of sample_env sample_req 70), True, x), sample_db)"
    using sample_locked by blast
  have runs: "\<And>st. run sample_env st sample_db = (Inr sample_db, sample_db)"
    by (simp add: run_def sample_env_def)
  have "accrue_body sample_env sample_req sample_db =
     (Inr (Accrued 100 70 (acc_event_of sample_env sample_req 70), True, x), sample_db)"
    using sample_offer_checks [OF ofr] ofr x
    by (simp add: accrue_body_def tx_bind_def tx_lift_def sample_binds runs offer_checks_def)
  then show ?thesis
    by (simp add: accrue_def sample_sys_def sample_env_def)
qed


section \<open>Replays\<close>

text \<open>asyncpg encodes the UUID a text denotes, or refuses the text.\<close>

definition binds_value :: "acc_env \<Rightarrow> bool" where
  "binds_value env = (\<forall>s n. bind_uuid env s = Inr n \<longrightarrow> parse_uuid s = Some n)"

text \<open>No other transaction, no fault: the environment of a plain replay.\<close>

definition quiet :: "acc_env \<Rightarrow> bool" where
  "quiet env = (fault env = (\<lambda>_. None) \<and> world env = (\<lambda>_ d. d))"

lemma run_quiet: "quiet env \<Longrightarrow> run env st d = (Inr d, d)"
  by (simp add: quiet_def run_def)

lemma accrue_body_duplicate:
  assumes "quiet env" "bind_uuid env (rq_rec q) = Inr rid" "find_by re_id rid (recs d) = Some ofr"
    and "same_uuid (uuid_text (re_user ofr)) (rq_user q)"
    and "same_uuid (uuid_text (re_campaign ofr)) (rq_campaign q)" "py_strip (re_mcc ofr) = rq_mcc q"
    and "paid_rows d rid (rq_tx q) \<noteq> []"
  shows "accrue_body env q d =
    (Inr (Skipped ''duplicate'', pays_offer (paid_rows d rid (rq_tx q)) (rq_rec q), None), d)"
  using assms by (simp add: accrue_body_def tx_bind_def tx_lift_def run_quiet tx_return_def Let_def)

text \<open>After a payment the paid row is found under its offer and its purchase.\<close>

lemma paid_rows_write:
  assumes "payable_at env q d rid cid uid cb row"
  shows "row \<in> set (paid_rows (apply_write (Some \<lparr>wr_row = row, wr_amount = x\<rparr>) d) rid (rq_tx q))"
    "ac_rec row = Some rid" "ac_tx row = rq_tx q"
  using assms by (auto simp: payable_at_def new_row_def paid_rows_def apply_write_def)

lemma recs_apply_write [frame_simps]: "recs (apply_write w d) = recs d"
  by (simp add: apply_write_def split: option.split)



section \<open>Calls that do not pay\<close>

lemma kv_get_release_other:
  "k \<noteq> offer_key (rq_user q) (rq_mcc q) \<Longrightarrow>
   kv_get now (as_redis (after_commit env q res consumed s)) k = kv_get now (as_redis s) k"
  by (simp add: after_commit_def Let_def release_offer_other split: acc_result.split)

text \<open>C8: All or nothing. A call that skips, or raises before its commit was applied, changes neither
  ledger nor budget (with no other transaction around, the database is the one it started from)
  and publishes nothing; an exception leaves Redis alone as well, and whatever the outcome no key
  but the client's offer key for this MCC is touched, and that one only while it holds this offer.\<close>

theorem accrue_all_or_nothing:
  assumes "world env = (\<lambda>_ d. d)" "accrue env q s = (r, s')"
  shows "((\<exists>k. r = Inr (Skipped k)) \<or> ((\<exists>e. r = Inl e) \<and> \<not> (fault env Commit \<noteq> None \<and> commit_applied env)) \<longrightarrow>
      as_db s' = as_db s \<and> as_events s' = as_events s) \<and>
    ((\<exists>e. r = Inl e) \<longrightarrow> as_redis s' = as_redis s) \<and>
    (\<forall>now k. k \<noteq> offer_key (rq_user q) (rq_mcc q) \<longrightarrow> kv_get now (as_redis s') k = kv_get now (as_redis s) k) \<and>
    (\<forall>v. kv_get (clock env) (as_redis s) (offer_key (rq_user q) (rq_mcc q)) = Some v \<longrightarrow>
       \<not> holds_offer (rq_rec q) v \<longrightarrow> as_redis s' = as_redis s)"
proof -
  obtain r0 d where body: "accrue_body env q (as_db s) = (r0, d)" by (cases "accrue_body env q (as_db s)")
  have "tx_keeps (\<lambda>x. x = as_db s) (accrue_body env q)"
    using assms(1) by (intro accrue_body_keeps) simp
  then have d: "d = as_db s" using body unfolding tx_keeps_def by (metis snd_conv)
  show ?thesis
  proof (cases r0)
    case (Inl e)
    then show ?thesis using assms body d by (auto simp: accrue_def)
  next
    case (Inr x)
    obtain res consumed w where x: "x = (res, consumed, w)" by (cases x) auto
    have skip: "w = None" if "res = Skipped k" for k
      using accrue_body_cases [of env q "as_db s" res consumed w d] body Inr x that by auto
    show ?thesis
    proof (cases "fault env Commit")
      case None
      then have "s' = after_commit env q res consumed (s\<lparr>as_db := apply_write w d\<rparr>)" "r = Inr res"
        using assms body Inr x by (auto simp: accrue_def Let_def)
      then show ?thesis
        using skip d kv_get_release_other [of _ q _ env res consumed "s\<lparr>as_db := apply_write w d\<rparr>"]
        by (auto simp: apply_write_def after_commit_def Let_def release_offer_keeps split: acc_result.splits)
    next
      case (Some e)
      then show ?thesis using assms body Inr x d by (auto simp: accrue_def Let_def)
    qed
  qed
qed

theorem accrue_all_or_nothing_witness:
  "as_db (snd (accrue (sample_env\<lparr>fault := (\<lambda>st. if st = Commit then Some (pg_error ''40001'') else None)\<rparr>)
     sample_req sample_sys)) = sample_db"
proof -
  let ?env = "sample_env\<lparr>fault := (\<lambda>st. if st = Commit then Some (pg_error ''40001'') else None)\<rparr>"
  have w: "world ?env = (\<lambda>_ d. d)" by (simp add: sample_env_def)
  have "\<not> commit_applied ?env" by (simp add: sample_env_def)
  moreover obtain r s' where "accrue ?env sample_req sample_sys = (r, s')" by fastforce
  moreover from this have "\<exists>e. r = Inl e"
    by (auto simp: accrue_def Let_def split: prod.splits sum.splits)
  ultimately show ?thesis
    using accrue_all_or_nothing [OF w] by (auto simp: sample_sys_def)
qed

end
