(* ===== verification/Lifecycle.thy ===== *)
theory Lifecycle
  imports Scheduling Accrual
begin

text \<open>
  What every writer of the campaign manager keeps: the constraints of the database and the balance of
  the budget counters with the ledger, and the life of a campaign, from draft to completed, with its
  terms frozen once it has been activated. \<open>run_call\<close> is one call of an endpoint or one run of a job.
\<close>

datatype cm_call =
    CallCreate string campaign_create
  | CallUpdate uuid campaign_update
  | CallDelete uuid
  | CallArchive uuid
  | CallStatus uuid string
  | CallExpire
  | CallSettle int

definition run_call :: "cm_env \<Rightarrow> cm_call \<Rightarrow> db \<Rightarrow> db" where
  "run_call env call d = (case call of
      CallCreate user p \<Rightarrow> snd (create_campaign env user p d)
    | CallUpdate cid p \<Rightarrow> snd (update_campaign env cid p d)
    | CallDelete cid \<Rightarrow> snd (delete_campaign env cid d)
    | CallArchive cid \<Rightarrow> snd (archive_campaign env cid d)
    | CallStatus cid act \<Rightarrow> snd (patch_status env cid act d)
    | CallExpire \<Rightarrow> snd (complete_expired_campaigns env d)
    | CallSettle hours \<Rightarrow> snd (settle_accruals env hours d))"

section \<open>Invariants of transactions\<close>

text \<open>The other transactions keep \<open>P\<close>; a handler leaves \<open>P\<close> true.\<close>

definition world_keeps :: "(db \<Rightarrow> bool) \<Rightarrow> cm_env \<Rightarrow> bool" where
  "world_keeps P env = (\<forall>st d. P d \<longrightarrow> P (ce_world env st d))"

definition leaves :: "(db \<Rightarrow> bool) \<Rightarrow> 'a answer \<times> db \<Rightarrow> bool" where
  "leaves P r = P (snd r)"

lemma leaves_pair [simp]: "leaves P (a, d) = P d"
  by (simp add: leaves_def)

lemma at_stmt_leaves:
  assumes "world_keeps P env" "P d" "\<And>d1. d1 = ce_world env st d \<Longrightarrow> P d1 \<Longrightarrow> leaves P (k d1)"
  shows "leaves P (at_stmt env st d k)"
  using assms by (auto simp: at_stmt_def Let_def world_keeps_def split: option.split)

lemma commit_leaves:
  assumes "P d" "\<And>d1. w = Inr d1 \<Longrightarrow> P d1" "\<And>d1. w = Inr d1 \<Longrightarrow> P d1 \<Longrightarrow> leaves P (k d1)"
  shows "leaves P (commit env d w k)"
  using assms by (auto simp: commit_def split: sum.split option.split)

lemma commit_Inr_leaves: "P d \<Longrightarrow> P d1 \<Longrightarrow> leaves P (k d1) \<Longrightarrow> leaves P (commit env d (Inr d1) k)"
  by (rule commit_leaves) auto

lemma load_leaves: "world_keeps P env \<Longrightarrow> P d \<Longrightarrow> leaves P (load_with_mccs env memory cid d)"
  unfolding load_with_mccs_def by (erule at_stmt_leaves) simp_all

lemma integrity_409_leaves [simp]: "leaves P (integrity_409 r) = leaves P r"
  by (simp add: integrity_409_def leaves_def split: answer.split)

lemmas leaves_intros = at_stmt_leaves commit_leaves load_leaves

text \<open>What each handler writes: the last hypothesis of a rule is about the effect of its statements.\<close>

lemma create_leaves:
  assumes "world_keeps P env" "P d" "\<And>d1 d2. P d1 \<Longrightarrow> insert_campaign env user p d1 = Inr d2 \<Longrightarrow> P d2"
  shows "leaves P (create_campaign env user p d)"
  using assms unfolding create_campaign_def
  by (auto simp: Let_def intro!: leaves_intros split: sum.split bool.split)

lemma update_leaves:
  assumes "world_keeps P env" "P d"
    and "\<And>d1 c b d2. P (ce_world env CWrite d1) \<Longrightarrow> find_by ca_id cid (campaigns d1) = Some c \<Longrightarrow>
      ca_status c = DRAFT \<Longrightarrow> write_update env cid p b (ce_world env CWrite d1) = Inr d2 \<Longrightarrow> P d2"
  shows "leaves P (update_campaign env cid p d)"
proof -
  have "leaves P (at_stmt env CWrite d1 (\<lambda>d2. commit env d2 (write_update env cid p b d2)
      (\<lambda>d3. load_with_mccs env (Some b) cid d3)))"
    if "P d1" "find_by ca_id cid (campaigns d1) = Some c" "ca_status c = DRAFT" for d1 c b
    using assms that by (intro leaves_intros) auto
  then show ?thesis
    using assms(1,2) unfolding update_campaign_def
    by (auto simp: Let_def intro!: at_stmt_leaves split: option.split)
qed

lemma delete_leaves:
  assumes "world_keeps P env" "P d"
    and "\<And>d1 c d2. find_by ca_id cid (campaigns d1) = Some c \<Longrightarrow> ca_status c = DRAFT \<Longrightarrow>
      delete_rows cid (ce_world env CWrite (ce_world env CHistory d1)) = Inr d2 \<Longrightarrow>
      P (ce_world env CWrite (ce_world env CHistory d1)) \<Longrightarrow> P d2"
  shows "leaves P (delete_campaign env cid d)"
  unfolding delete_campaign_def using assms
  by (auto intro!: at_stmt_leaves commit_leaves split: option.split)

lemma archive_leaves:
  assumes "world_keeps P env" "P d"
    and "\<And>d1. P d1 \<Longrightarrow> P (d1\<lparr>campaigns :=
      update_where (archivable cid) (archive_row (ce_now env)) (campaigns d1)\<rparr>)"
  shows "leaves P (archive_campaign env cid d)"
  unfolding archive_campaign_def using assms
  by (auto intro!: leaves_intros split: option.split)

lemma status_leaves:
  assumes "world_keeps P env" "P d"
    and "\<And>d1 previous new d2. P d1 \<Longrightarrow> transition (status_text previous) act = Some (status_text new) \<Longrightarrow>
      guarded_update (status_where env cid previous new) new d1 = Inr d2 \<Longrightarrow> P d2"
  shows "leaves P (patch_status env cid act d)"
proof -
  have "leaves P (at_stmt env CWrite d1 (status_write env cid act previous new))"
    if "P d1" "transition (status_text previous) act = Some (status_text new)" for d1 previous new
    unfolding status_write_def Let_def using assms(1,3) that
    by (intro at_stmt_leaves) (auto intro!: commit_leaves split: option.split sum.split)
  moreover have "nm = status_text new" if "status_of nm = Some new" for nm new
    using that by (auto simp: status_of_def split: if_splits)
  ultimately show ?thesis
    unfolding patch_status_def using assms(1,2)
    by (auto intro!: at_stmt_leaves split: option.split)
qed

lemma expire_leaves:
  assumes "world_keeps P env" "P d"
    and "\<And>d1. P d1 \<Longrightarrow> P (d1\<lparr>campaigns :=
      update_where (expired_campaign (ce_now env)) (\<lambda>c. c\<lparr>ca_status := COMPLETED\<rparr>) (campaigns d1)\<rparr>)"
  shows "leaves P (complete_expired_campaigns env d)"
  unfolding complete_expired_campaigns_def complete_expired_ok
  by (intro at_stmt_leaves commit_Inr_leaves assms(1,2)) (simp_all only: leaves_pair assms(3))

lemma settle_leaves:
  assumes "world_keeps P env" "P d" "\<And>d1. P d1 \<Longrightarrow> P (settle (ce_now env) hours d1)"
  shows "leaves P (settle_accruals env hours d)"
  unfolding settle_accruals_def
  by (intro at_stmt_leaves commit_Inr_leaves assms(1,2)) (simp_all only: leaves_pair assms(3))

section \<open>The constraints and the balance\<close>

definition books_ok :: "db \<Rightarrow> bool" where
  "books_ok d = (db_ok d \<and> balanced d)"

lemma store_base_frame:
  assumes "store_base env b c = Inr c1"
  shows "ca_id c1 = ca_id c \<and> ca_spent c1 = ca_spent c \<and> ca_status c1 = ca_status c \<and>
    ca_archived c1 = ca_archived c"
  using assms by (auto simp: store_base_def Let_def split: if_splits option.splits)

lemma store_base_ok:
  assumes "store_base env b c = Inr c1" "0 \<le> ca_spent c" "cents (ca_spent c)"
  shows "campaign_ok c1"
proof -
  have "cents x \<and> x < 10 ^ 13" if "store_money y = Some x" for x y
    using that store_money_bound [OF that] by (auto simp: store_money_def Let_def split: if_splits)
  then show ?thesis
    using assms by (auto simp: store_base_def campaign_ok_def Let_def split: if_splits option.splits)
qed

text \<open>Replacing rows one for one, each with its key, its budget and its checks.\<close>

lemma books_map_campaigns:
  assumes "books_ok d" "\<And>c. c \<in> set (campaigns d) \<Longrightarrow> p c \<Longrightarrow> ca_id (f c) = ca_id c \<and>
      ca_spent (f c) = ca_spent c \<and> campaign_ok (f c)"
  shows "books_ok (d\<lparr>campaigns := update_where p f (campaigns d)\<rparr>)"
proof -
  have ids: "map ca_id (update_where p f (campaigns d)) = map ca_id (campaigns d)"
    using assms(2) by (auto simp: update_where_def)
  then have ids_set: "ca_id ` set (update_where p f (campaigns d)) = ca_id ` set (campaigns d)"
    by (metis set_map)
  have "list_all campaign_ok (update_where p f (campaigns d))"
    using assms by (auto simp: books_ok_def db_ok_def checks_ok_def list_all_iff set_update_where)
  moreover have "list_all (\<lambda>c. ca_spent c = paid_total d (ca_id c)) (update_where p f (campaigns d))"
    using assms by (auto simp: books_ok_def balanced_def list_all_iff set_update_where)
  ultimately show ?thesis
    using assms(1) ids ids_set
    by (simp add: books_ok_def db_ok_def keys_ok_def checks_ok_def refs_ok_def balanced_def paid_total_def
        cong: option.case_cong)
qed

lemma books_campaign: "books_ok d \<Longrightarrow> c \<in> set (campaigns d) \<Longrightarrow> campaign_ok c"
  by (simp add: books_ok_def db_ok_def checks_ok_def list_all_iff)

lemma category_rows_campaign:
  "category_rows cid mn codes = Inr rows \<Longrightarrow> cc \<in> set rows \<Longrightarrow> cc_campaign cc = cid"
  by (induction codes arbitrary: rows) (auto split: option.splits sum.splits)

lemma books_categories:
  assumes "books_ok d" "insert_categories cid mn codes cats = Inr cs"
    "cid \<in> ca_id ` set (campaigns d)" "set cats \<subseteq> set (categories d)"
  shows "books_ok (d\<lparr>categories := cs\<rparr>)"
proof -
  obtain rows where rows: "category_rows cid mn codes = Inr rows" "cs = cats @ rows" "unique_on category_key cs"
    using assms(2) by (auto simp: insert_categories_def split: sum.splits if_splits)
  have "unique_on (\<lambda>c. (cc_campaign c, rtrim (cc_mcc c))) cs"
    using rows(3) by (simp only: category_key_def [abs_def])
  moreover have "list_all (\<lambda>c. cc_campaign c \<in> ca_id ` set (campaigns d)) cs"
    using assms rows(2) category_rows_campaign [OF rows(1)]
    by (auto simp: books_ok_def db_ok_def refs_ok_def list_all_iff)
  ultimately show ?thesis
    using assms(1) by (simp add: books_ok_def db_ok_def keys_ok_def checks_ok_def refs_ok_def balanced_def paid_total_def
        cong: option.case_cong)
qed

lemma books_insert:
  assumes "books_ok d" "insert_campaign env user p d = Inr d1"
  shows "books_ok d1"
proof -
  obtain c mn cats where c: "store_base env p (new_campaign env user p) = Inr c"
      "ca_id c \<notin> ca_id ` set (campaigns d)" "d1 = d\<lparr>campaigns := campaigns d @ [c], categories := cats\<rparr>"
      "insert_categories (ca_id c) mn (cr_mccs p) (categories d) = Inr cats"
    using assms(2) by (auto simp: insert_campaign_def split: sum.splits if_splits)
  have ok: "campaign_ok c" using c(1) by (rule store_base_ok) (simp_all add: new_campaign_def)
  have spent: "ca_spent c = 0" using store_base_frame [OF c(1)] by (simp add: new_campaign_def)
  have "ac_campaign a \<in> ca_id ` set (campaigns d)" if "a \<in> set (accruals d)" for a
    using assms(1) that by (simp add: books_ok_def db_ok_def refs_ok_def list_all_iff)
  then have "\<not> ac_campaign a = ca_id c" if "a \<in> set (accruals d)" for a
    using that c(2) by metis
  then have "paid_total d (ca_id c) = 0" by (simp add: paid_total_def filter_False)
  then have "books_ok (d\<lparr>campaigns := campaigns d @ [c]\<rparr>)"
    using assms(1) c(2) ok spent
    by (auto simp: books_ok_def db_ok_def keys_ok_def checks_ok_def refs_ok_def balanced_def paid_total_def
        list_all_iff split: option.splits)
  then show ?thesis using books_categories [OF _ c(4), of "d\<lparr>campaigns := campaigns d @ [c]\<rparr>"] c(3) by simp
qed

lemma write_update_cases:
  assumes "write_update env cid p b d = Inr d1"
  obtains (plain) c t c1 where "find_by ca_id cid (campaigns d) = Some c"
      "store_base env b (c\<lparr>ca_tiers := t\<rparr>) = Inr c1"
      "d1 = d\<lparr>campaigns := update_where (\<lambda>x. ca_id x = cid) (\<lambda>_. c1) (campaigns d)\<rparr>"
    | (cats) c t c1 mn codes cats where "find_by ca_id cid (campaigns d) = Some c"
      "store_base env b (c\<lparr>ca_tiers := t\<rparr>) = Inr c1"
      "insert_categories cid mn codes (filter (\<lambda>cc. cc_campaign cc \<noteq> cid) (categories d)) = Inr cats"
      "d1 = d\<lparr>campaigns := update_where (\<lambda>x. ca_id x = cid) (\<lambda>_. c1) (campaigns d), categories := cats\<rparr>"
  using assms unfolding write_update_def Let_def
  by (simp split: if_splits option.splits sum.splits)

lemma books_rows:
  assumes "books_ok d" "find_by ca_id cid (campaigns d) = Some c"
    "store_base env b (c\<lparr>ca_tiers := t\<rparr>) = Inr c1"
  shows "books_ok (d\<lparr>campaigns := update_where (\<lambda>x. ca_id x = cid) (\<lambda>_. c1) (campaigns d)\<rparr>) \<and>
    ca_id c1 = cid \<and> cid \<in> ca_id ` set (campaigns d)"
proof -
  have cs: "c \<in> set (campaigns d)" "ca_id c = cid" using assms(2) by (auto dest: find_by_SomeD)
  have "campaign_ok c" using books_campaign assms(1) cs(1) by blast
  then have ok: "campaign_ok c1" "ca_id c1 = cid" "ca_spent c1 = ca_spent c"
    using store_base_ok [OF assms(3)] store_base_frame [OF assms(3)] cs(2) by (auto simp: campaign_ok_def)
  have uniq: "unique_on ca_id (campaigns d)" using assms(1) by (simp add: books_ok_def db_ok_def keys_ok_def)
  have "books_ok (d\<lparr>campaigns := update_where (\<lambda>x. ca_id x = cid) (\<lambda>_. c1) (campaigns d)\<rparr>)"
  proof (rule books_map_campaigns [OF assms(1)])
    fix x
    assume "x \<in> set (campaigns d)" "ca_id x = cid"
    then have "x = c" using find_by_unique [OF uniq] assms(2) by fastforce
    then show "ca_id c1 = ca_id x \<and> ca_spent c1 = ca_spent x \<and> campaign_ok c1" using ok cs by simp
  qed
  then show ?thesis using ok(2) imageI [OF cs(1), of ca_id] cs(2) by simp
qed

lemma books_write_update:
  assumes "books_ok d" "write_update env cid p b d = Inr d1"
  shows "books_ok d1"
  using assms(2)
proof (cases rule: write_update_cases)
  case (plain c t c1)
  then show ?thesis using books_rows [OF assms(1) plain(1,2)] by simp
next
  case (cats c t c1 mn codes cats)
  let ?D = "d\<lparr>campaigns := update_where (\<lambda>x. ca_id x = cid) (\<lambda>_. c1) (campaigns d)\<rparr>"
  have D: "books_ok ?D" "ca_id c1 = cid" "cid \<in> ca_id ` set (campaigns d)"
    using books_rows [OF assms(1) cats(1,2)] by simp_all
  then have "cid \<in> ca_id ` set (campaigns ?D)" by (auto simp: set_update_where image_iff)
  then show ?thesis using books_categories [OF D(1) cats(3)] cats(4) by simp
qed

lemma books_delete:
  assumes "books_ok d" "delete_rows cid d = Inr d1"
  shows "books_ok d1"
proof (cases "cid \<in> ca_id ` set (campaigns d)")
  case True
  then have none: "\<forall>r \<in> set (recs d). re_campaign r \<noteq> cid" "\<forall>a \<in> set (accruals d). ac_campaign a \<noteq> cid"
    and d1: "d1 = d\<lparr>campaigns := filter (\<lambda>c. ca_id c \<noteq> cid) (campaigns d),
       categories := filter (\<lambda>cc. cc_campaign cc \<noteq> cid) (categories d)\<rparr>"
    using assms(2) by (auto simp: delete_rows_def has_history_def list_ex_iff split: if_splits)
  have "ca_id ` set (filter (\<lambda>c. ca_id c \<noteq> cid) (campaigns d)) = ca_id ` set (campaigns d) - {cid}" by auto
  then show ?thesis
    using assms(1) none unfolding d1
    by (auto simp: books_ok_def db_ok_def keys_ok_def checks_ok_def refs_ok_def balanced_def paid_total_def
        distinct_map_filter list_all_iff cong: option.case_cong)
next
  case False
  then have "filter (\<lambda>c. ca_id c \<noteq> cid) (campaigns d) = campaigns d" by (auto simp: filter_id_conv)
  moreover have "filter (\<lambda>cc. cc_campaign cc \<noteq> cid) (categories d) = categories d"
    using False assms(1) by (auto simp: filter_id_conv books_ok_def db_ok_def refs_ok_def list_all_iff)
  ultimately show ?thesis using assms False by (auto simp: delete_rows_def split: if_splits)
qed

lemma paying_settled:
  "(\<And>a. f (settle_row now a) = f a) \<Longrightarrow>
   map f (paying_accruals (update_where p (settle_row now) xs)) = map f (paying_accruals xs)"
  by (induction xs) (auto simp: paying_accruals_def settle_row_def)

lemma paid_settled:
  "sum_list (map ac_cashback (filter (\<lambda>a. ac_campaign a = k) (update_where p (settle_row now) xs))) =
   sum_list (map ac_cashback (filter (\<lambda>a. ac_campaign a = k) xs))"
  by (induction xs) (auto simp: settle_row_def)

lemma settle_row_frame [simp]:
  "ac_id (settle_row now a) = ac_id a" "ac_user (settle_row now a) = ac_user a"
  "ac_campaign (settle_row now a) = ac_campaign a" "ac_rec (settle_row now a) = ac_rec a"
  "ac_tx (settle_row now a) = ac_tx a" "ac_cashback (settle_row now a) = ac_cashback a"
  by (simp_all add: settle_row_def)

lemma books_settle:
  assumes "books_ok d"
  shows "books_ok (settle now hours d)"
proof -
  have "accrual_keys_ok (update_where p (settle_row now) xs) = accrual_keys_ok xs" for p xs
    by (simp add: accrual_keys_ok_def update_where_keys paying_settled)
  then show ?thesis
    using assms
    by (simp add: settle_def books_ok_def db_ok_def keys_ok_def checks_ok_def refs_ok_def
        balanced_def paid_total_def paid_settled update_where_keys list_all_update_where
        cong: option.case_cong)
qed

lemma books_guarded:
  assumes "books_ok d" "guarded_update p new d = Inr d1"
  shows "books_ok d1"
proof -
  have "d1 = d\<lparr>campaigns := update_where p (\<lambda>c. c\<lparr>ca_status := new\<rparr>) (campaigns d)\<rparr>"
    using assms(2) by (auto simp: guarded_update_def split: if_splits)
  then show ?thesis
    using books_map_campaigns [OF assms(1)] books_campaign [OF assms(1)] by (simp add: campaign_ok_def)
qed

lemma run_call_books:
  assumes "world_keeps books_ok env" "books_ok d"
  shows "books_ok (run_call env call d)"
proof (cases call)
  case (CallCreate user p)
  with create_leaves [OF assms] books_insert show ?thesis by (force simp: run_call_def leaves_def)
next
  case (CallUpdate cid p)
  with update_leaves [OF assms] books_write_update show ?thesis by (force simp: run_call_def leaves_def)
next
  case (CallDelete cid)
  with delete_leaves [OF assms] books_delete show ?thesis by (force simp: run_call_def leaves_def)
next
  case (CallArchive cid)
  have "books_ok (d1\<lparr>campaigns := update_where (archivable cid) (archive_row (ce_now env)) (campaigns d1)\<rparr>)"
    if "books_ok d1" for d1
    using books_campaign [OF that] by (intro books_map_campaigns that) (auto simp: archive_row_def campaign_ok_def)
  with CallArchive archive_leaves [OF assms] show ?thesis by (simp add: run_call_def leaves_def)
next
  case (CallStatus cid act)
  with status_leaves [OF assms] books_guarded show ?thesis by (force simp: run_call_def leaves_def)
next
  case CallExpire
  have "books_ok (d1\<lparr>campaigns := update_where (expired_campaign (ce_now env)) (\<lambda>c. c\<lparr>ca_status := COMPLETED\<rparr>)
      (campaigns d1)\<rparr>)" if "books_ok d1" for d1
    by (rule books_guarded [OF that complete_expired_ok [unfolded complete_expired_def]])
  with CallExpire expire_leaves [OF assms] show ?thesis by (simp add: run_call_def leaves_def)
next
  case (CallSettle hours)
  with settle_leaves [OF assms] books_settle show ?thesis by (simp add: run_call_def leaves_def)
qed

text \<open>C3: The campaign manager keeps the books. Whatever calls of its endpoints and jobs run, with any
  payloads, failures and lost replies, and other transactions in between that keep them: the keys,
  references and checks of the database hold afterwards, and \<open>budget_spent\<close> of every campaign is still
  the sum of its ledger. No edit, deletion, archiving or settlement moves money.\<close>

theorem campaign_calls_keep_books:
  assumes "\<forall>(env, call) \<in> set calls. \<forall>st d. db_ok d \<and> balanced d \<longrightarrow>
      db_ok (ce_world env st d) \<and> balanced (ce_world env st d)"
    and "db_ok d" "balanced d"
  shows "db_ok (fold (\<lambda>(env, call). run_call env call) calls d) \<and>
    balanced (fold (\<lambda>(env, call). run_call env call) calls d)"
proof -
  have "books_ok (fold (\<lambda>(env, call). run_call env call) cs d1)"
    if "\<forall>(env, call) \<in> set cs. world_keeps books_ok env" "books_ok d1" for cs d1
    using that by (induction cs arbitrary: d1) (auto simp: run_call_books)
  moreover have "\<forall>(env, call) \<in> set calls. world_keeps books_ok env"
    using assms(1) by (force simp: world_keeps_def books_ok_def)
  ultimately show ?thesis using assms(2,3) by (simp add: books_ok_def)
qed

section \<open>The life of a campaign\<close>

definition follows :: "campaign_status \<Rightarrow> campaign_status \<Rightarrow> bool" where
  "follows a b = (a = b \<or> a = DRAFT \<or> (a \<noteq> COMPLETED \<and> b \<noteq> DRAFT))"

text \<open>Everything about a campaign but its status, its spending and its archiving.\<close>

definition terms :: "campaign_row \<Rightarrow> campaign_row" where
  "terms c = c\<lparr>ca_status := DRAFT, ca_spent := 0, ca_archived := None\<rparr>"

definition evolves :: "campaign_row \<Rightarrow> campaign_row \<Rightarrow> bool" where
  "evolves c c1 = (ca_id c1 = ca_id c \<and> follows (ca_status c) (ca_status c1) \<and>
     (ca_archived c \<noteq> None \<longrightarrow> ca_archived c1 = ca_archived c \<and> ca_status c1 = ca_status c) \<and>
     (ca_status c \<noteq> DRAFT \<longrightarrow> terms c1 = terms c))"

text \<open>Every campaign lives on, or was a draft that may have been deleted.\<close>

definition lawful :: "db \<Rightarrow> db \<Rightarrow> bool" where
  "lawful d d1 = list_all (\<lambda>c. ca_status c = DRAFT \<or> list_ex (evolves c) (campaigns d1)) (campaigns d)"

lemma evolves_refl [simp]: "evolves c c"
  by (simp add: evolves_def follows_def)

lemma follows_trans: "follows a b \<Longrightarrow> follows b c \<Longrightarrow> follows a c"
  by (cases a; cases b; cases c) (simp_all add: follows_def)

lemma follows_draft: "follows a DRAFT \<Longrightarrow> a = DRAFT"
  by (auto simp: follows_def)

lemma evolves_draft: "evolves a b \<Longrightarrow> ca_status b = DRAFT \<Longrightarrow> ca_status a = DRAFT"
  using follows_draft by (simp add: evolves_def)

lemma evolves_trans:
  assumes "evolves a b" "evolves b c"
  shows "evolves a c"
  unfolding evolves_def
proof (intro conjI impI)
  show "ca_id c = ca_id a" "follows (ca_status a) (ca_status c)"
    using assms follows_trans by (simp_all add: evolves_def) metis
  assume "ca_archived a \<noteq> None"
  then show "ca_archived c = ca_archived a" "ca_status c = ca_status a" using assms by (simp_all add: evolves_def)
next
  assume "ca_status a \<noteq> DRAFT"
  then show "terms c = terms a" using assms evolves_draft [OF assms(1)] by (auto simp: evolves_def)
qed

lemma lawful_refl [simp]: "lawful d d"
  unfolding lawful_def list_all_iff list_ex_iff using evolves_refl by blast

lemma lawful_trans: "lawful a b \<Longrightarrow> lawful b c \<Longrightarrow> lawful a c"
  unfolding lawful_def list_all_iff list_ex_iff by (meson evolves_draft evolves_trans)

lemma lawful_map:
  assumes "\<And>c. c \<in> set (campaigns d) \<Longrightarrow> p c \<Longrightarrow> ca_status c = DRAFT \<or> evolves c (f c)"
    and "campaigns d1 = update_where p f (campaigns d)"
  shows "lawful d d1"
  unfolding lawful_def list_all_iff list_ex_iff
proof (intro ballI)
  fix c
  assume c: "c \<in> set (campaigns d)"
  then have "(if p c then f c else c) \<in> set (campaigns d1)" by (simp add: assms(2) set_update_where)
  moreover have "ca_status c = DRAFT \<or> evolves c (if p c then f c else c)" using assms(1) c by simp
  ultimately show "ca_status c = DRAFT \<or> (\<exists>x \<in> set (campaigns d1). evolves c x)" by blast
qed

lemma lawful_update:
  assumes "write_update env cid p b d = Inr d1" "unique_on ca_id (campaigns d)"
    "find_by ca_id cid (campaigns d) = Some c" "ca_status c = DRAFT"
  shows "lawful d d1"
proof -
  have draft: "ca_status x = DRAFT" if "x \<in> set (campaigns d)" "ca_id x = cid" for x
    using find_by_unique [OF assms(2) that(1)] that(2) assms(3,4) by simp
  show ?thesis
    using assms(1) by (cases rule: write_update_cases) (auto intro!: lawful_map draft)
qed

lemma lawful_delete:
  assumes "delete_rows cid d = Inr d1" "unique_on ca_id (campaigns d)"
    "find_by ca_id cid (campaigns d) = Some c" "ca_status c = DRAFT"
  shows "lawful d d1"
proof -
  have draft: "ca_status x = DRAFT" if "x \<in> set (campaigns d)" "ca_id x = cid" for x
    using find_by_unique [OF assms(2) that(1)] that(2) assms(3,4) by simp
  have "campaigns d1 = filter (\<lambda>c. ca_id c \<noteq> cid) (campaigns d)"
    using assms(1) by (auto simp: delete_rows_def split: if_splits)
  then show ?thesis
    unfolding lawful_def list_all_iff list_ex_iff using draft by (auto intro: evolves_refl)
qed

lemma lawful_guarded:
  assumes "guarded_update (status_where env cid previous new) new d = Inr d1"
    "transition (status_text previous) act = Some (status_text new)"
  shows "lawful d d1"
proof (rule lawful_map)
  show "campaigns d1 = update_where (status_where env cid previous new) (\<lambda>c. c\<lparr>ca_status := new\<rparr>) (campaigns d)"
    using assms(1) by (auto simp: guarded_update_def split: if_splits)
  have "follows previous new"
    using assms(2) unfolding transition_cases by (cases new) (auto simp: follows_def)
  then show "ca_status c = DRAFT \<or> evolves c (c\<lparr>ca_status := new\<rparr>)"
    if "status_where env cid previous new c" for c
    using that by (auto simp: evolves_def status_where_def terms_def)
qed

text \<open>The other transactions keep the books and the law; they leave a row alone while \<^verbatim>\<open>FOR UPDATE\<close>
  locks it.\<close>

definition others_lawful :: "cm_env \<Rightarrow> bool" where
  "others_lawful env = (\<forall>st d. books_ok d \<longrightarrow> books_ok (ce_world env st d) \<and> lawful d (ce_world env st d))"

definition lock_held :: "cm_env \<Rightarrow> uuid \<Rightarrow> bool" where
  "lock_held env cid = (\<forall>d. \<forall>st \<in> {CHistory, CWrite}.
     find_by ca_id cid (campaigns (ce_world env st d)) = find_by ca_id cid (campaigns d))"

definition row_locked :: "cm_env \<Rightarrow> cm_call \<Rightarrow> bool" where
  "row_locked env call = (case call of
     CallUpdate cid _ \<Rightarrow> lock_held env cid | CallDelete cid \<Rightarrow> lock_held env cid | _ \<Rightarrow> True)"

lemma books_unique: "books_ok d \<Longrightarrow> unique_on ca_id (campaigns d)"
  by (simp add: books_ok_def db_ok_def keys_ok_def)

lemma insert_lawful: "insert_campaign env user p d = Inr d1 \<Longrightarrow> lawful d d1"
  unfolding lawful_def list_all_iff list_ex_iff
  by (auto simp: insert_campaign_def split: sum.splits if_splits intro: evolves_refl)

definition on_course :: "db \<Rightarrow> db \<Rightarrow> bool" where
  "on_course d0 d = (lawful d0 d \<and> books_ok d)"

lemma on_course_keeps: "others_lawful env \<Longrightarrow> world_keeps (on_course d0) env"
  by (auto simp: world_keeps_def others_lawful_def on_course_def intro: lawful_trans)

lemma on_course_step: "on_course d0 x \<Longrightarrow> lawful x y \<Longrightarrow> books_ok y \<Longrightarrow> on_course d0 y"
  by (auto simp: on_course_def intro: lawful_trans)

lemma on_course_map:
  assumes "on_course d0 x" "\<And>c. p c \<Longrightarrow> evolves c (f c) \<and> ca_spent (f c) = ca_spent c \<and>
    (campaign_ok c \<longrightarrow> campaign_ok (f c))"
  shows "on_course d0 (x\<lparr>campaigns := update_where p f (campaigns x)\<rparr>)"
proof (rule on_course_step [OF assms(1)])
  have books: "books_ok x" using assms(1) by (simp add: on_course_def)
  show "lawful x (x\<lparr>campaigns := update_where p f (campaigns x)\<rparr>)"
    using assms(2) by (intro lawful_map) auto
  show "books_ok (x\<lparr>campaigns := update_where p f (campaigns x)\<rparr>)"
    using assms(2) books_campaign [OF books] by (intro books_map_campaigns books) (auto simp: evolves_def)
qed

lemma on_course_create:
  assumes "on_course d0 x" "insert_campaign env user p x = Inr y"
  shows "on_course d0 y"
  using on_course_step [OF assms(1) insert_lawful [OF assms(2)]] books_insert [OF _ assms(2)] assms(1)
  by (simp add: on_course_def)

lemma on_course_update:
  assumes "lock_held env cid" "on_course d0 (ce_world env CWrite x)" "find_by ca_id cid (campaigns x) = Some c"
    "ca_status c = DRAFT" "write_update env cid p b (ce_world env CWrite x) = Inr y"
  shows "on_course d0 y"
proof -
  have books: "books_ok (ce_world env CWrite x)" using assms(2) by (simp add: on_course_def)
  have "find_by ca_id cid (campaigns (ce_world env CWrite x)) = Some c"
    using assms(1,3) by (simp add: lock_held_def)
  then have "lawful (ce_world env CWrite x) y" by (rule lawful_update [OF assms(5) books_unique [OF books] _ assms(4)])
  then show ?thesis by (rule on_course_step [OF assms(2) _ books_write_update [OF books assms(5)]])
qed

lemma on_course_delete:
  assumes "lock_held env cid" "find_by ca_id cid (campaigns x) = Some c" "ca_status c = DRAFT"
    "delete_rows cid (ce_world env CWrite (ce_world env CHistory x)) = Inr y"
    "on_course d0 (ce_world env CWrite (ce_world env CHistory x))"
  shows "on_course d0 y"
proof -
  let ?x = "ce_world env CWrite (ce_world env CHistory x)"
  have books: "books_ok ?x" using assms(5) by (simp add: on_course_def)
  have "find_by ca_id cid (campaigns ?x) = Some c" using assms(1,2) by (simp add: lock_held_def)
  then have "lawful ?x y" by (rule lawful_delete [OF assms(4) books_unique [OF books] _ assms(3)])
  then show ?thesis by (rule on_course_step [OF assms(5) _ books_delete [OF books assms(4)]])
qed

lemma on_course_status:
  assumes "on_course d0 x" "transition (status_text previous) act = Some (status_text new)"
    "guarded_update (status_where env cid previous new) new x = Inr y"
  shows "on_course d0 y"
  using on_course_step [OF assms(1) lawful_guarded [OF assms(3,2)]] books_guarded [OF _ assms(3)] assms(1)
  by (simp add: on_course_def)

lemma on_course_settle: "on_course d0 x \<Longrightarrow> on_course d0 (settle now hours x)"
proof (rule on_course_step)
  show "lawful x (settle now hours x)" using lawful_refl [of x] unfolding lawful_def settle_def by simp
qed (simp_all add: on_course_def books_settle)

lemma run_call_lawful:
  assumes "others_lawful env" "row_locked env call" "books_ok d"
  shows "on_course d (run_call env call d)"
proof -
  note keeps = on_course_keeps [OF assms(1), of d]
  have start: "on_course d d" using assms(3) by (simp add: on_course_def)
  have "evolves c (archive_row (ce_now env) c) \<and> ca_spent (archive_row (ce_now env) c) = ca_spent c \<and>
      (campaign_ok c \<longrightarrow> campaign_ok (archive_row (ce_now env) c))" for c
    by (auto simp: evolves_def follows_def terms_def archive_row_def campaign_ok_def)
  note archived = on_course_map [OF _ this]
  have "evolves c (c\<lparr>ca_status := COMPLETED\<rparr>) \<and> ca_spent (c\<lparr>ca_status := COMPLETED\<rparr>) = ca_spent c \<and>
      (campaign_ok c \<longrightarrow> campaign_ok (c\<lparr>ca_status := COMPLETED\<rparr>))" if "expired_campaign (ce_now env) c" for c
    using that by (auto simp: evolves_def follows_def terms_def expired_campaign_def campaign_ok_def)
  note expired = on_course_map [OF _ this]
  have locked: "lock_held env cid" if "call = CallUpdate cid p \<or> call = CallDelete cid" for cid p
    using assms(2) that by (auto simp: row_locked_def)
  have "leaves (on_course d) (create_campaign env user p d)" for user p
    by (rule create_leaves [OF keeps start on_course_create])
  moreover have "leaves (on_course d) (update_campaign env cid p d)" if "call = CallUpdate cid p" for cid p
    by (rule update_leaves [OF keeps start on_course_update [OF locked]]) (use that in simp)
  moreover have "leaves (on_course d) (delete_campaign env cid d)" if "call = CallDelete cid" for cid
    by (rule delete_leaves [OF keeps start on_course_delete [OF locked]]) (use that in simp)
  moreover have "leaves (on_course d) (archive_campaign env cid d)" for cid
    by (rule archive_leaves [OF keeps start archived])
  moreover have "leaves (on_course d) (patch_status env cid act d)" for cid act
    by (rule status_leaves [OF keeps start on_course_status])
  moreover have "leaves (on_course d) (complete_expired_campaigns env d)"
    by (rule expire_leaves [OF keeps start expired])
  moreover have "leaves (on_course d) (settle_accruals env hours d)" for hours
    by (rule settle_leaves [OF keeps start on_course_settle])
  ultimately show ?thesis by (cases call) (simp_all add: run_call_def leaves_def)
qed

text \<open>C4: A campaign's life only goes forward. Over any calls of the endpoints and the expiry job, with
  any failures and with other lawful transactions in between: a campaign that is not a draft still
  exists; \<open>COMPLETED\<close> is final and no status returns to \<open>DRAFT\<close>; an archived campaign keeps its status
  and its date; and from its activation on its terms (rate, scale, segments, budget, limits, dates)
  are frozen. Only a draft can be deleted or edited.\<close>

theorem campaign_life_is_lawful:
  assumes "\<forall>(env, call) \<in> set calls. others_lawful env \<and> row_locked env call"
    and "db_ok d" "balanced d" "c \<in> set (campaigns d)" "ca_status c \<noteq> DRAFT"
  shows "\<exists>c1 \<in> set (campaigns (fold (\<lambda>(env, call). run_call env call) calls d)).
    ca_id c1 = ca_id c \<and> follows (ca_status c) (ca_status c1) \<and> terms c1 = terms c \<and>
    (ca_archived c \<noteq> None \<longrightarrow> ca_archived c1 = ca_archived c \<and> ca_status c1 = ca_status c)"
proof -
  have "on_course d (fold (\<lambda>(env, call). run_call env call) cs d1)"
    if "\<forall>(env, call) \<in> set cs. others_lawful env \<and> row_locked env call" "on_course d d1" for cs d1
    using that
  proof (induction cs arbitrary: d1)
    case (Cons x cs)
    obtain env call where x: "x = (env, call)" by (cases x)
    have "on_course d1 (run_call env call d1)"
      using Cons.prems x by (intro run_call_lawful) (auto simp: on_course_def)
    then have "on_course d (run_call env call d1)"
      using Cons.prems(2) lawful_trans by (auto simp: on_course_def)
    with Cons x show ?case by simp
  qed simp
  moreover have "on_course d d" using assms(2,3) by (simp add: on_course_def books_ok_def)
  ultimately have "lawful d (fold (\<lambda>(env, call). run_call env call) calls d)"
    using assms(1) by (simp add: on_course_def)
  then show ?thesis
    using assms(4,5) unfolding lawful_def list_all_iff list_ex_iff evolves_def by blast
qed

section \<open>Instances\<close>

definition sample_cm_env :: cm_env where
  "sample_cm_env = \<lparr>ce_fault = \<lambda>_. None, ce_world = \<lambda>_ d. d, ce_applied = True, ce_now = 10 ^ 15,
     ce_clock = 10 ^ 15, ce_local = id, ce_id = 8, ce_admin = \<lambda>_. True\<rparr>"

lemma sample_cm_world [simp]: "ce_world sample_cm_env st d = d"
  by (simp add: sample_cm_env_def)

lemma sample_books: "db_ok sample_db" "balanced sample_db"
  using sample_db_ok by (simp_all add: balanced_def paid_total_def sample_db_def sample_campaign_def)

theorem campaign_calls_keep_books_witness:
  "db_ok (fold (\<lambda>(env, call). run_call env call) [(sample_cm_env, CallExpire), (sample_cm_env, CallArchive 7)] sample_db) \<and>
   balanced (fold (\<lambda>(env, call). run_call env call) [(sample_cm_env, CallExpire), (sample_cm_env, CallArchive 7)] sample_db)"
  by (rule campaign_calls_keep_books) (simp_all add: sample_books)

theorem campaign_life_is_lawful_witness:
  "\<exists>c1 \<in> set (campaigns (fold (\<lambda>(env, call). run_call env call)
      [(sample_cm_env, CallExpire), (sample_cm_env, CallArchive 7)] sample_db)).
    ca_id c1 = ca_id sample_campaign \<and> follows (ca_status sample_campaign) (ca_status c1) \<and>
    terms c1 = terms sample_campaign \<and>
    (ca_archived sample_campaign \<noteq> None \<longrightarrow>
      ca_archived c1 = ca_archived sample_campaign \<and> ca_status c1 = ca_status sample_campaign)"
  by (rule campaign_life_is_lawful [OF _ sample_books])
    (simp_all add: others_lawful_def row_locked_def, simp_all add: sample_db_def sample_campaign_def)

end
