(* ===== verification/CampaignViews.thy ===== *)
theory CampaignViews
  imports Lifecycle "HOL-Library.List_Lexorder" "HOL-Library.Char_ord"
begin

text \<open>
  The reading endpoints of \<^verbatim>\<open>services/campaign_manager/app/api/campaigns.py\<close>: one campaign, the lists,
  the campaigns a client is entitled to, the budget, the statistics and the audience estimate. Each is
  a function of the database its one statement (or transaction) sees. Where a query leaves the order
  of equal rows open, the model takes the order of the table.
\<close>

section \<open>Campaigns\<close>

definition get_campaign :: "cm_env \<Rightarrow> uuid \<Rightarrow> db \<Rightarrow> campaign_response answer" where
  "get_campaign env cid d = fst (load_with_mccs env None cid d)"

text \<open>The first element that fails fails the list.\<close>

fun all_replies :: "'a answer list \<Rightarrow> 'a list answer" where
  "all_replies [] = Reply []"
| "all_replies (a # as) =
    (case a of
       Crash e \<Rightarrow> Crash e
     | Reject n \<Rightarrow> Reject n
     | Reply x \<Rightarrow> (case all_replies as of Reply xs \<Rightarrow> Reply (x # xs) | r \<Rightarrow> r))"

definition newest_first :: "campaign_row list \<Rightarrow> campaign_row list" where
  "newest_first cs = sort_key (\<lambda>c. - ca_start c) cs"

definition list_campaigns ::
  "campaign_status option \<Rightarrow> nat \<Rightarrow> bool \<Rightarrow> db \<Rightarrow> campaign_response list answer" where
  "list_campaigns status lmt archived d =
    (let rows = take lmt (newest_first (filter (\<lambda>c. opt_ok (\<lambda>s. ca_status c = s) status \<and>
          (archived \<or> ca_archived c = None)) (campaigns d))) in
     all_replies (map (\<lambda>c. to_response (base_of_row c) c (campaign_mccs d (ca_id c)) (campaign_mins d (ca_id c)))
       rows))"

record campaign_summary =
  su_id :: uuid
  su_name :: string
  su_status :: string
  su_total :: rat
  su_spent :: rat
  su_rate :: rat
  su_start :: time
  su_end :: time
  su_mccs :: "string list"
  su_archived :: "time option"

definition list_active_campaigns :: "time \<Rightarrow> bool \<Rightarrow> db \<Rightarrow> campaign_summary list" where
  "list_active_campaigns now archived d =
     map (\<lambda>c. \<lparr>su_id = ca_id c, su_name = ca_name c, su_status = status_text (ca_status c),
         su_total = ca_total c, su_spent = ca_spent c, su_rate = ca_rate c, su_start = ca_start c,
         su_end = ca_end c, su_mccs = campaign_mccs d (ca_id c), su_archived = ca_archived c\<rparr>)
       (newest_first (filter (\<lambda>c. ca_status c = ACTIVE \<and> ca_start c \<le> now \<and> now \<le> ca_end c \<and>
          (archived \<or> ca_archived c = None)) (campaigns d)))"

section \<open>Campaigns a client is entitled to\<close>

record applicable =
  ap_id :: uuid
  ap_name :: string
  ap_rate :: rat
  ap_remaining :: rat
  ap_mccs :: "string list"

definition all_mccs :: "db \<Rightarrow> string list" where
  "all_mccs d = remdups (map (\<lambda>cc. rtrim (cc_mcc cc)) (categories d))"

definition offers_everywhere :: "time \<Rightarrow> db \<Rightarrow> uuid \<Rightarrow> elig_row list" where
  "offers_everywhere now d uid = concat (map (\<lambda>m. eligible_campaigns now d uid m None now) (all_mccs d))"

text \<open>\<^verbatim>\<open>GROUP BY\<close> the campaign's columns.\<close>

definition group_key :: "elig_row \<Rightarrow> uuid \<times> string \<times> money \<times> money \<times> money \<times> time" where
  "group_key e = (el_id e, el_name e, el_rate e, el_total e, el_spent e, el_start e)"

definition applicable_of :: "elig_row list \<Rightarrow> uuid \<times> string \<times> money \<times> money \<times> money \<times> time \<Rightarrow> applicable" where
  "applicable_of rows k = (case k of (cid, nm, rate, tot, spent, start) \<Rightarrow>
     \<lparr>ap_id = cid, ap_name = nm, ap_rate = rate, ap_remaining = tot - spent,
      ap_mccs = sort (map el_mcc (filter (\<lambda>e. group_key e = k) rows))\<rparr>)"

definition applicable_for_user :: "time \<Rightarrow> uuid \<Rightarrow> nat \<Rightarrow> db \<Rightarrow> applicable list" where
  "applicable_for_user now uid lmt d =
    (let rows = offers_everywhere now d uid in
     take lmt (map (applicable_of rows)
       (sort_key (\<lambda>(cid, nm, rate, tot, spent, start). (- rate, - start, cid)) (remdups (map group_key rows)))))"

section \<open>Budget\<close>

record campaign_budget =
  bu_total :: rat
  bu_spent :: rat
  bu_remaining :: rat
  bu_daily :: "rat option"
  bu_today :: rat
  bu_remaining_today :: "rat option"

definition campaign_budget :: "time \<Rightarrow> uuid \<Rightarrow> db \<Rightarrow> campaign_budget answer" where
  "campaign_budget now cid d =
    (case find_by ca_id cid (campaigns d) of
       None \<Rightarrow> Reject 404
     | Some c \<Rightarrow>
        (let today = paid_since d cid (floor_day now) in
         Reply \<lparr>bu_total = ca_total c, bu_spent = ca_spent c, bu_remaining = ca_total c - ca_spent c,
           bu_daily = ca_daily c, bu_today = today,
           bu_remaining_today = map_option (\<lambda>l. max (l - today) 0) (ca_daily c)\<rparr>))"

section \<open>Statistics\<close>

record campaign_stats =
  st_impressions :: nat
  st_reach :: nat
  st_clicks :: nat
  st_accepted :: nat
  st_transactions :: nat
  st_revenue :: rat
  st_paid :: rat
  st_ctr :: rat
  st_conversion :: rat
  st_roi :: rat

definition distinct_users :: "rec_row list \<Rightarrow> nat" where
  "distinct_users rs = length (remdups (map re_user rs))"

definition purchased :: "db \<Rightarrow> rec_row \<Rightarrow> bool" where
  "purchased d r = list_ex (\<lambda>a. ac_rec a = Some (re_id r)) (accruals d)"

text \<open>\<^verbatim>\<open>(revenue - total) / total\<close> is a \<^verbatim>\<open>Decimal\<close> quotient of 28 digits, then a float rounded to four
  digits; \<open>dec\<close> is the rounding of that quotient.\<close>

definition campaign_stats :: "(rat \<Rightarrow> rat) \<Rightarrow> uuid \<Rightarrow> db \<Rightarrow> campaign_stats" where
  "campaign_stats dec cid d =
    (let rs = filter (\<lambda>r. re_campaign r = cid) (recs d);
         impressions = length rs;
         acc = filter (\<lambda>r. re_status r = ACCEPTED) rs;
         accepted = length acc;
         accepted_users = distinct_users acc;
         transacted = distinct_users (filter (purchased d) acc);
         pays = filter (\<lambda>a. ac_campaign a = cid) (accruals d);
         revenue = sum_list (map ac_amount pays);
         cashback = sum_list (map ac_cashback pays) in
     \<lparr>st_impressions = impressions, st_reach = distinct_users rs,
      st_clicks = length (filter responded rs), st_accepted = accepted,
      st_transactions = length pays, st_revenue = revenue,
      st_paid = sum_list (map ac_cashback (filter (\<lambda>a. ac_status a = PAID) pays)),
      st_ctr = py_round 6 (if impressions \<noteq> 0 then fl (of_nat accepted / of_nat impressions) else 0),
      st_conversion = py_round 6
        (if accepted_users \<noteq> 0 then fl (of_nat transacted / of_nat accepted_users) else 0),
      st_roi = py_round 4 (if 0 < cashback then fl (dec ((revenue - cashback) / cashback)) else 0)\<rparr>)"

section \<open>Audience\<close>

text \<open>\<^verbatim>\<open>keep\<close> starts at 1.0 and is multiplied by 0.7 for each filter given.\<close>

definition audience_keep :: "nat \<Rightarrow> rat" where
  "audience_keep n = ((\<lambda>k. fl (k * fl (7 / 10))) ^^ n) 1"

definition audience_estimate ::
  "int list \<Rightarrow> int option \<Rightarrow> int option \<Rightarrow> rat option \<Rightarrow> db \<Rightarrow> int" where
  "audience_estimate segs rfm_r rfm_f rfm_m d =
    (let base = length (filter (\<lambda>u. opt_ok (\<lambda>s. s \<in> set segs) (us_segment u) \<and> us_segment u \<noteq> None) (users d));
         n = (if rfm_r \<noteq> None then 1 else 0) + (if rfm_f \<noteq> None then 1 else 0) + (if rfm_m \<noteq> None then 1 else 0) in
     if n = 0 then int base else \<lfloor>fl (of_nat base * audience_keep n)\<rfloor>)"

section \<open>Segments\<close>

definition SEGMENT_BUCKETS :: "(string \<times> int list) list" where
  "SEGMENT_BUCKETS = [(''premium'', [9, 10]), (''mass'', [5, 6, 7, 8]), (''young'', [3, 4]),
     (''senior'', [2]), (''business'', [1])]"

definition DECILE_TO_BUCKET :: "(int \<times> string) list" where
  "DECILE_TO_BUCKET = concat (map (\<lambda>(b, ds). map (\<lambda>x. (x, b)) ds) SEGMENT_BUCKETS)"

definition bucket_of :: "int option \<Rightarrow> string option" where
  "bucket_of seg = (case seg of None \<Rightarrow> None | Some s \<Rightarrow> map_of (rev DECILE_TO_BUCKET) s)"

section \<open>The status change\<close>

text \<open>A status change is a compare-and-set. When \<^verbatim>\<open>PATCH /campaigns/{id}/status\<close> answers with success,
  the row was, at the moment of the update, still in the status the answer calls previous, not
  archived and (to be activated) not past its end; the new status is the one the table of transitions
  gives, the database holds exactly that change of that row, and the trigger had nothing to refuse.\<close>

theorem status_change_is_cas:
  assumes "fst (patch_status env cid act d) = Reply r"
    and "unique_on ca_id (campaigns (ce_world env CWrite (ce_world env CLoad d)))"
  shows "\<exists>c new. find_by ca_id cid (campaigns (ce_world env CWrite (ce_world env CLoad d))) = Some c \<and>
    sa_previous r = status_text (ca_status c) \<and> sa_current r = status_text new \<and>
    transition (status_text (ca_status c)) act = Some (status_text new) \<and> ca_archived c = None \<and>
    (new = ACTIVE \<longrightarrow> ce_now env < ca_end c) \<and> status_guard (ca_status c) new \<and>
    find_by ca_id cid (campaigns (snd (patch_status env cid act d))) = Some (c\<lparr>ca_status := new\<rparr>)"
proof -
  let ?d1 = "ce_world env CLoad d" let ?d2 = "ce_world env CWrite ?d1"
  obtain c0 nm new where c0: "find_by ca_id cid (campaigns ?d1) = Some c0"
      "transition (status_text (ca_status c0)) act = Some nm" "status_of nm = Some new"
      "fst (at_stmt env CWrite ?d1 (status_write env cid act (ca_status c0) new)) = Reply r"
      "snd (patch_status env cid act d) =
        snd (at_stmt env CWrite ?d1 (status_write env cid act (ca_status c0) new))"
    using assms(1) by (auto simp: patch_status_def at_stmt_def [of env CLoad] Let_def split: if_splits option.splits)
  have nm: "nm = status_text new" using c0(3) by (auto simp: status_of_def split: if_splits)
  let ?p = "status_where env cid (ca_status c0) new"
  have fin: "fst (status_write env cid act (ca_status c0) new ?d2) = Reply r"
      "snd (patch_status env cid act d) = snd (status_write env cid act (ca_status c0) new ?d2)"
    using c0(4,5) by (auto simp: at_stmt_def Let_def split: option.splits)
  then obtain c where c: "find ?p (campaigns ?d2) = Some c" "list_all (\<lambda>c. ?p c \<longrightarrow> status_guard (ca_status c) new) (campaigns ?d2)"
      "campaigns (snd (patch_status env cid act d)) = update_where ?p (\<lambda>c. c\<lparr>ca_status := new\<rparr>) (campaigns ?d2)"
      "sa_previous r = status_text (ca_status c0)" "sa_current r = status_text new"
    by (auto simp: status_write_def guarded_update_def commit_def Let_def split: if_splits option.splits)
  have p: "?p c" "c \<in> set (campaigns ?d2)" using c(1) by (auto simp: find_Some_iff)
  then have prev: "ca_id c = cid" "ca_status c = ca_status c0" "ca_archived c = None" "new = ACTIVE \<longrightarrow> ce_now env < ca_end c"
    by (simp_all add: status_where_def)
  then have "find_by ca_id cid (campaigns ?d2) = Some c" using find_by_unique [OF assms(2) p(2)] by simp
  moreover have "find_by ca_id cid (update_where ?p (\<lambda>c. c\<lparr>ca_status := new\<rparr>) (campaigns ?d2)) = Some (c\<lparr>ca_status := new\<rparr>)"
    using calculation p(1) by (simp add: find_by_update_where)
  moreover have "status_guard (ca_status c) new" using c(2) p by (simp add: list_all_iff)
  ultimately show ?thesis using c(3-5) c0(2) nm prev by auto
qed

theorem status_change_is_cas_witness:
  "\<exists>c new. find_by ca_id 7 (campaigns sample_db) = Some c \<and>
    ''ACTIVE'' = status_text (ca_status c) \<and> ''PAUSED'' = status_text new \<and>
    transition (status_text (ca_status c)) ''pause'' = Some (status_text new) \<and> ca_archived c = None \<and>
    (new = ACTIVE \<longrightarrow> 10 ^ 15 < ca_end c) \<and> status_guard (ca_status c) new \<and>
    find_by ca_id 7 (campaigns (snd (patch_status sample_cm_env 7 ''pause'' sample_db))) =
      Some (c\<lparr>ca_status := new\<rparr>)"
proof -
  have "fst (patch_status sample_cm_env 7 ''pause'' sample_db) =
      Reply \<lparr>sa_id = 7, sa_previous = ''ACTIVE'', sa_current = ''PAUSED'', sa_action = ''pause'', sa_future = False\<rparr>"
    by (simp add: patch_status_def at_stmt_def sample_cm_env_def sample_db_def sample_campaign_def transition_def
        fsm_tables status_of_def status_write_def guarded_update_def status_where_def status_guard_def commit_def)
  from status_change_is_cas [OF this] show ?thesis
    by (simp add: sample_cm_env_def) (simp add: sample_db_def)
qed

section \<open>An edit that leaves the campaign unreadable\<close>

definition no_changes :: campaign_update where
  "no_changes = \<lparr>cu_name = Unset, cu_segments = Unset, cu_rate = Unset, cu_min = Unset, cu_total = Unset,
     cu_start = Unset, cu_end = Unset, cu_channels = Unset, cu_behavior = Unset, cu_tiers = Unset,
     cu_daily = Unset, cu_auto_pause = Unset, cu_rfm_min = Unset, cu_rfm_max = Unset, cu_mccs = Unset,
     cu_min_tx = Unset\<rparr>"

lemma merge_rfm_max:
  "merge_base (no_changes\<lparr>cu_rfm_max := Given (Some hi)\<rparr>) b = b\<lparr>cb_rfm_max := Some hi\<rparr>"
  by (simp add: merge_base_def no_changes_def)

lemma all_replies_reply: "all_replies as = Reply xs \<Longrightarrow> a \<in> set as \<Longrightarrow> \<exists>x. a = Reply x"
  by (induction as arbitrary: xs) (auto split: answer.splits)

lemma build_inconsistent: "\<not> wizard_consistent r \<Longrightarrow> build_response r \<noteq> Reply x"
  by (auto simp: build_response_def validate_base_def split: sum.split if_splits)

lemma to_response_rfm:
  "cb_rfm_min b = Some lo \<Longrightarrow> cb_rfm_max b = Some hi \<Longrightarrow> hi < lo \<Longrightarrow> to_response b c mccs mins \<noteq> Reply x"
  unfolding to_response_def
  by (rule build_inconsistent) (simp add: wizard_consistent_def rfm_consistent_def campaign_base.extend_def)

text \<open>The edit \<open>{"rfm_max": hi}\<close> of a valid draft, without failures and undisturbed.\<close>

lemma rfm_max_stored:
  assumes "store_base env (base_of_row c) c = Inr c"
  shows "store_base env ((base_of_row c)\<lparr>cb_rfm_max := Some hi\<rparr>) (c\<lparr>ca_tiers := ca_tiers c\<rparr>) =
    Inr (c\<lparr>ca_rfm_max := Some hi\<rparr>)"
proof -
  have "\<exists>rate mn tot daily. store_rate (ca_rate c) = Some rate \<and> store_opt store_money (ca_min c) = Some mn \<and>
      store_money (ca_total c) = Some tot \<and> store_opt store_money (ca_daily c) = Some daily \<and>
      ca_rate c = rate \<and> ca_min c = mn \<and> ca_total c = tot \<and> ca_daily c = daily \<and>
      list_all int4_ok (ca_segments c) \<and> CHR 0x00 \<notin> set (ca_name c) \<and>
      ca_spent c \<le> ca_total c \<and> ca_start c \<le> ca_end c"
    using assms by (cases c) (auto simp: store_base_def base_of_row_def Let_def instant_def
        split: if_splits option.splits)
  then show ?thesis
    by (cases c) (auto simp: store_base_def base_of_row_def Let_def instant_def)
qed

text \<open>An edit can make a campaign unreadable. For a valid stored draft with \<open>rfm_min = lo\<close>, the edit
  \<open>{"rfm_max": hi}\<close> with \<open>1 \<le> hi < lo\<close> passes validation and is committed (neither the handler nor the
  table compares the merged values), but the answer is a 500, and so is every later
  \<^verbatim>\<open>GET\<close> of the campaign and of the list that contains it; and no client can be eligible for it.\<close>

theorem edit_can_break_campaign:
  assumes "find_by ca_id cid (campaigns d) = Some c" "ca_status c = DRAFT" "ca_archived c = None"
    and "ca_rfm_min c = Some lo" "1 \<le> hi" "hi < lo" "lo \<le> 5"
    and "validate_base (base_of_row c) = Inr True" "store_base env (base_of_row c) c = Inr c"
    and "\<forall>st x. ce_world env st x = x" "\<forall>st. ce_fault env st = None"
    and "d1 = snd (update_campaign env cid (no_changes\<lparr>cu_rfm_max := Given (Some hi)\<rparr>) d)"
  shows "(\<exists>e. fst (update_campaign env cid (no_changes\<lparr>cu_rfm_max := Given (Some hi)\<rparr>) d) = Crash e) \<and>
    find_by ca_id cid (campaigns d1) = Some (c\<lparr>ca_rfm_max := Some hi\<rparr>) \<and>
    (\<forall>x. get_campaign env cid d1 \<noteq> Reply x) \<and>
    (\<forall>xs. list_campaigns None (length (campaigns d1)) False d1 \<noteq> Reply xs) \<and>
    (\<forall>u. \<not> rfm_ok u (c\<lparr>ca_rfm_max := Some hi\<rparr>))"
proof -
  let ?p = "no_changes\<lparr>cu_rfm_max := Given (Some hi)\<rparr>" and ?c = "c\<lparr>ca_rfm_max := Some hi\<rparr>"
  let ?b = "(base_of_row c)\<lparr>cb_rfm_max := Some hi\<rparr>"
  let ?d = "d\<lparr>campaigns := update_where (\<lambda>x. ca_id x = cid) (\<lambda>_. ?c) (campaigns d)\<rparr>"
  have cid: "ca_id c = cid" "c \<in> set (campaigns d)" using assms(1) by (auto dest: find_by_SomeD)
  have valid: "validate_update ?p" using assms(5-7) by (simp add: validate_update_def no_changes_def rfm_range_def rfm_consistent_def)
  have dates: "\<not> aware (cb_end ?b) \<le> aware (cb_start ?b)" and daily: "opt_ok (\<lambda>l. l \<le> cb_total ?b) (cb_daily ?b)"
    using assms(8) by (auto simp: validate_base_def base_of_row_def wizard_consistent_def split: if_splits)
  have "write_update env cid ?p ?b d = Inr ?d"
    using assms(1) rfm_max_stored [OF assms(9)] by (simp add: write_update_def null_column_def no_changes_def)
  then have upd: "update_campaign env cid ?p d = load_with_mccs env (Some ?b) cid ?d"
    using assms(1,2,10,11) valid dates daily
    by (simp add: update_campaign_def at_stmt_def commit_def merge_rfm_max Let_def) (simp add: no_changes_def)
  then have d1: "d1 = ?d" using assms(10,11,12) by (simp add: load_with_mccs_def at_stmt_def Let_def)
  have found: "find_by ca_id cid (campaigns ?d) = Some ?c" using assms(1) cid(1) by (simp add: find_by_replace)
  have bad: "to_response b k mccs mins \<noteq> Reply x" if "b = ?b \<or> b = base_of_row ?c" for b k mccs mins x
    using that assms(4,6) by (intro to_response_rfm [of _ lo hi]) (auto simp: base_of_row_def)
  have "fst (load_with_mccs env (Some ?b) cid ?d) \<noteq> Reply x" "fst (load_with_mccs env (Some ?b) cid ?d) \<noteq> Reject n"
    "get_campaign env cid ?d \<noteq> Reply x" for x n
    using found assms(10,11) bad
    by (simp_all add: load_with_mccs_def get_campaign_def at_stmt_def to_response_def Let_def)
  moreover have "list_campaigns None (length (campaigns ?d)) False ?d \<noteq> Reply xs" for xs
  proof
    assume "list_campaigns None (length (campaigns ?d)) False ?d = Reply xs"
    moreover have "?c \<in> set (newest_first (filter (\<lambda>x. ca_archived x = None) (campaigns ?d)))"
      using assms(3) cid by (auto simp: newest_first_def set_update_where image_iff)
    moreover have "length (newest_first (filter (\<lambda>x. ca_archived x = None) (campaigns ?d))) \<le> length (campaigns ?d)"
      by (simp only: newest_first_def length_sort length_filter_le)
    ultimately show False
      using bad [of "base_of_row ?c"] by (fastforce simp: list_campaigns_def Let_def dest: all_replies_reply)
  qed
  moreover have "\<not> rfm_ok u ?c" for u using assms(4,6) by (auto simp: rfm_ok_def split: option.split)
  ultimately show ?thesis using upd d1 found by (cases "fst (load_with_mccs env (Some ?b) cid ?d)") auto
qed

definition sample_draft :: campaign_row where
  "sample_draft = sample_campaign\<lparr>ca_status := DRAFT, ca_segments := [3], ca_rfm_min := Some 3\<rparr>"

lemma sample_draft_valid: "validate_base (base_of_row sample_draft) = Inr True"
  by (simp add: validate_base_def base_fields_ok_def base_of_row_def sample_draft_def sample_campaign_def name_ok_def
      tiers_value_def tiers_typed_def sample_tiers_def channels_known_def wizard_consistent_def rfm_consistent_def
      rfm_range_def)

lemma sample_draft_stored: "store_base sample_cm_env (base_of_row sample_draft) sample_draft = Inr sample_draft"
  by (simp add: store_base_def base_of_row_def sample_draft_def sample_campaign_def int4_ok_def store_rate_def
      store_money_def store_opt_def pg_round_def instant_def Let_def) (simp add: floor_eq_iff)

theorem edit_can_break_campaign_witness:
  "(\<exists>e. fst (update_campaign sample_cm_env 7 (no_changes\<lparr>cu_rfm_max := Given (Some 2)\<rparr>)
      (sample_db\<lparr>campaigns := [sample_draft]\<rparr>)) = Crash e) \<and>
    find_by ca_id 7 (campaigns (snd (update_campaign sample_cm_env 7 (no_changes\<lparr>cu_rfm_max := Given (Some 2)\<rparr>)
      (sample_db\<lparr>campaigns := [sample_draft]\<rparr>)))) = Some (sample_draft\<lparr>ca_rfm_max := Some 2\<rparr>) \<and>
    (\<forall>x. get_campaign sample_cm_env 7 (snd (update_campaign sample_cm_env 7 (no_changes\<lparr>cu_rfm_max := Given (Some 2)\<rparr>)
      (sample_db\<lparr>campaigns := [sample_draft]\<rparr>))) \<noteq> Reply x) \<and>
    (\<forall>xs. list_campaigns None (length (campaigns (snd (update_campaign sample_cm_env 7
        (no_changes\<lparr>cu_rfm_max := Given (Some 2)\<rparr>) (sample_db\<lparr>campaigns := [sample_draft]\<rparr>))))) False
      (snd (update_campaign sample_cm_env 7 (no_changes\<lparr>cu_rfm_max := Given (Some 2)\<rparr>)
        (sample_db\<lparr>campaigns := [sample_draft]\<rparr>))) \<noteq> Reply xs) \<and>
    (\<forall>u. \<not> rfm_ok u (sample_draft\<lparr>ca_rfm_max := Some 2\<rparr>))"
proof (rule edit_can_break_campaign [OF _ _ _ _ _ _ _ sample_draft_valid sample_draft_stored _ _ refl, where lo = 3])
  show "find_by ca_id 7 (campaigns (sample_db\<lparr>campaigns := [sample_draft]\<rparr>)) = Some sample_draft"
    by (simp add: sample_draft_def sample_campaign_def)
qed (simp_all add: sample_draft_def sample_campaign_def sample_cm_env_def)

section \<open>Budget and eligibility\<close>

text \<open>The budget view tells when a campaign stops paying. If \<^verbatim>\<open>GET /campaigns/{id}/budget\<close> reports that
  nothing remains, of the budget or of today's limit, then the campaign is offered to nobody for the
  rest of the UTC day: it is eligible for no client, category or amount at any instant of that day
  before which nothing was paid in between.\<close>

theorem exhausted_budget_stops_offers:
  assumes "campaign_budget now cid d = Reply b" "unique_on ca_id (campaigns d)"
    and "bu_remaining b \<le> 0 \<or> bu_remaining_today b = Some 0"
    and "floor_day (min tm now) = floor_day now"
  shows "\<forall>r \<in> set (eligible_campaigns now d uid mcc amt tm). el_id r \<noteq> cid"
proof
  fix r
  assume r: "r \<in> set (eligible_campaigns now d uid mcc amt tm)"
  then obtain u cc c where c: "c \<in> set (campaigns d)" "elig_where now d u amt tm cc c" "r = elig_of now d tm cc c"
    by (auto simp: eligible_iff)
  show "el_id r \<noteq> cid"
  proof
    assume "el_id r = cid"
    then have "ca_id c = cid" using c(3) by (simp add: elig_of_def)
    then have "find_by ca_id cid (campaigns d) = Some c" using find_by_unique [OF assms(2) c(1)] by simp
    then have b: "bu_remaining b = ca_total c - ca_spent c"
        "bu_remaining_today b = map_option (\<lambda>l. max (l - paid_since d cid (floor_day now)) 0) (ca_daily c)"
      using assms(1) by (auto simp: campaign_budget_def Let_def)
    have "spent_today now d cid tm = paid_since d cid (floor_day now)" using assms(4) by (simp add: spent_today_def)
    then show False
      using c(2) \<open>ca_id c = cid\<close> assms(3) b by (auto simp: elig_where_def max_def split: option.splits if_splits)
  qed
qed

theorem exhausted_budget_stops_offers_witness:
  "7 \<notin> el_id ` set (eligible_campaigns 50 (sample_db\<lparr>campaigns := [sample_campaign\<lparr>ca_spent := 1000\<rparr>]\<rparr>) 3
     ''5411'' None 50)"
proof -
  let ?d = "sample_db\<lparr>campaigns := [sample_campaign\<lparr>ca_spent := 1000\<rparr>]\<rparr>"
  have "campaign_budget 50 7 ?d = Reply \<lparr>bu_total = 1000, bu_spent = 1000, bu_remaining = 0, bu_daily = None,
      bu_today = 0, bu_remaining_today = None\<rparr>"
    by (simp add: campaign_budget_def sample_campaign_def sample_db_def paid_since_def)
  then have "\<forall>r \<in> set (eligible_campaigns 50 ?d 3 ''5411'' None 50). el_id r \<noteq> 7"
    by (rule exhausted_budget_stops_offers) simp_all
  then show ?thesis by force
qed

section \<open>Applicable campaigns\<close>

lemma rtrim_idem [simp]: "rtrim (rtrim s) = rtrim s"
  by (simp add: rtrim_def dropWhile_idem)

lemma eligible_rtrim:
  assumes "e \<in> set (eligible_campaigns now d uid m amt tm)"
  shows "el_mcc e \<in> set (all_mccs d) \<and> e \<in> set (eligible_campaigns now d uid (el_mcc e) amt tm)"
proof -
  obtain u cc c where cc: "u \<in> set (users d)" "us_id u = uid" "cc \<in> set (categories d)"
      "c \<in> set (campaigns d)" "ca_id c = cc_campaign cc" "elig_where now d u amt tm cc c" "e = elig_of now d tm cc c"
    using assms by (auto simp: eligible_iff)
  then have mcc: "el_mcc e = rtrim (cc_mcc cc)" by (simp add: elig_of_def)
  have "bpchar_eq (cc_mcc cc) (el_mcc e)" by (simp add: mcc bpchar_eq_def)
  with cc have "e \<in> set (eligible_campaigns now d uid (el_mcc e) amt tm)" unfolding eligible_iff by blast
  then show ?thesis using mcc cc(3) by (auto simp: all_mccs_def)
qed

text \<open>\<^verbatim>\<open>GET /campaigns/applicable/{user}\<close> cannot drift from what is paid: with a limit that does not cut,
  a campaign is listed with a category exactly when \<open>eligible_campaigns\<close> returns it for that client and
  category now (for a purchase whose amount is not known yet).\<close>

theorem applicable_is_eligible:
  assumes "length (offers_everywhere now d uid) \<le> lmt"
  shows "(\<exists>a \<in> set (applicable_for_user now uid lmt d). ap_id a = cid \<and> m \<in> set (ap_mccs a)) \<longleftrightarrow>
    (\<exists>e \<in> set (eligible_campaigns now d uid m None now). el_id e = cid \<and> el_mcc e = m)"
proof -
  let ?rows = "offers_everywhere now d uid"
  have rows: "e \<in> set ?rows \<longleftrightarrow> e \<in> set (eligible_campaigns now d uid (el_mcc e) None now)" for e
  proof
    assume "e \<in> set ?rows"
    then obtain m' where "e \<in> set (eligible_campaigns now d uid m' None now)" by (auto simp: offers_everywhere_def)
    then show "e \<in> set (eligible_campaigns now d uid (el_mcc e) None now)" using eligible_rtrim by blast
  next
    assume "e \<in> set (eligible_campaigns now d uid (el_mcc e) None now)"
    then show "e \<in> set ?rows" using eligible_rtrim by (fastforce simp: offers_everywhere_def)
  qed
  have "length (remdups (map group_key ?rows)) \<le> lmt"
    using length_remdups_leq [of "map group_key ?rows"] assms by simp
  then have listed: "set (applicable_for_user now uid lmt d) = applicable_of ?rows ` group_key ` set ?rows"
    by (simp add: applicable_for_user_def Let_def image_comp)
  have ap: "ap_id (applicable_of ?rows (group_key e)) = el_id e"
      "set (ap_mccs (applicable_of ?rows (group_key e))) = el_mcc ` {x \<in> set ?rows. group_key x = group_key e}" for e
    by (simp_all add: applicable_of_def group_key_def)
  have "(\<exists>a \<in> set (applicable_for_user now uid lmt d). ap_id a = cid \<and> m \<in> set (ap_mccs a)) \<longleftrightarrow>
      (\<exists>e \<in> set ?rows. el_id e = cid \<and> m \<in> el_mcc ` {x \<in> set ?rows. group_key x = group_key e})"
    unfolding listed by (simp add: ap)
  also have "\<dots> \<longleftrightarrow> (\<exists>x \<in> set ?rows. el_id x = cid \<and> el_mcc x = m)" by (auto simp: group_key_def)
  also have "\<dots> \<longleftrightarrow> (\<exists>e \<in> set (eligible_campaigns now d uid m None now). el_id e = cid \<and> el_mcc e = m)"
    using rows by blast
  finally show ?thesis .
qed

theorem applicable_is_eligible_witness:
  "(\<exists>a \<in> set (applicable_for_user 50 3 20 sample_db). ap_id a = 7 \<and> ''5411'' \<in> set (ap_mccs a)) \<longleftrightarrow>
    (\<exists>e \<in> set (eligible_campaigns 50 sample_db 3 ''5411'' None 50). el_id e = 7 \<and> el_mcc e = ''5411'')"
proof (rule applicable_is_eligible)
  have le: "length (eligible_campaigns 50 sample_db 3 m None 50) \<le> 1" for m
    by (simp add: eligible_campaigns_def elig_join_def sample_db_def)
  have "length (concat (map (\<lambda>m. eligible_campaigns 50 sample_db 3 m None 50) xs)) \<le> length xs" for xs
  proof (induction xs)
    case (Cons a xs)
    then show ?case using le [of a] by simp
  qed simp
  then have "length (offers_everywhere 50 sample_db 3) \<le> length (all_mccs sample_db)"
    by (simp only: offers_everywhere_def)
  also have "\<dots> \<le> 20" by (simp add: all_mccs_def sample_db_def)
  finally show "length (offers_everywhere 50 sample_db 3) \<le> 20" .
qed

end
