(* ===== verification/Analytics.thy ===== *)
theory Analytics
  imports CampaignViews "HOL-Library.AList"
begin

text \<open>
  The reports of \<^verbatim>\<open>services/campaign_manager/app/api/analytics.py\<close>: the funnel, the indicators of the
  dashboard, the matrix of segments and categories, the cohorts, the top campaigns, the daily trend and
  the delivery channels. A report is a function of what each of its statements sees of the database
  (\<open>an_view\<close>), of the clock, and of what depends on the session's time zone or collation:
  \<open>day_of\<close> and \<open>month_of\<close> number the calendar days and months of the session, \<open>collate\<close> ranks names.
  Counts stay below \<open>2 ^ 53\<close>, so that they are doubles.
\<close>

section \<open>Groups and joins\<close>

definition group_by :: "('a \<Rightarrow> 'k) \<Rightarrow> 'a list \<Rightarrow> ('k \<times> 'a list) list" where
  "group_by f xs = map (\<lambda>k. (k, filter (\<lambda>x. f x = k) xs)) (remdups (map f xs))"

type_synonym joined = "rec_row \<times> accrual_row option"

text \<open>\<^verbatim>\<open>LEFT JOIN cashback_accruals a ON a.recommendation_id = r.recommendation_id\<close>.\<close>

definition join_accruals :: "db \<Rightarrow> rec_row \<Rightarrow> joined list" where
  "join_accruals d r = (let as = filter (\<lambda>a. ac_rec a = Some (re_id r)) (accruals d) in
     if as = [] then [(r, None)] else map (\<lambda>a. (r, Some a)) as)"

definition left_join :: "db \<Rightarrow> rec_row list \<Rightarrow> joined list" where
  "left_join d rs = concat (map (join_accruals d) rs)"

definition count_users :: "(joined \<Rightarrow> bool) \<Rightarrow> joined list \<Rightarrow> nat" where
  "count_users p js = length (remdups (map (re_user \<circ> fst) (filter p js)))"

definition has_accepted :: "joined \<Rightarrow> bool" where
  "has_accepted j = (re_status (fst j) = ACCEPTED)"

definition has_transacted :: "joined \<Rightarrow> bool" where
  "has_transacted j = (has_accepted j \<and> snd j \<noteq> None)"

definition has_paid :: "joined \<Rightarrow> bool" where
  "has_paid j = (has_accepted j \<and> (case snd j of None \<Rightarrow> False | Some a \<Rightarrow> ac_status a = PAID))"

text \<open>The filter by a segment of the shop window: \<open>None\<close> for all clients.\<close>

definition deciles_for :: "string option \<Rightarrow> int list option" where
  "deciles_for seg = (case seg of None \<Rightarrow> None | Some s \<Rightarrow> if s = [] then None else map_of SEGMENT_BUCKETS s)"

definition client_segment :: "db \<Rightarrow> uuid \<Rightarrow> int option" where
  "client_segment d uid = (case find_by us_id uid (users d) of None \<Rightarrow> None | Some u \<Rightarrow> us_segment u)"

definition in_deciles :: "int option \<Rightarrow> int list \<Rightarrow> bool" where
  "in_deciles seg ds = (case seg of None \<Rightarrow> False | Some s \<Rightarrow> s \<in> set ds)"

definition of_deciles :: "db \<Rightarrow> int list option \<Rightarrow> uuid \<Rightarrow> bool" where
  "of_deciles d deciles uid = opt_ok (in_deciles (client_segment d uid)) deciles"

definition known_client :: "db \<Rightarrow> uuid \<Rightarrow> bool" where
  "known_client d uid = (find_by us_id uid (users d) \<noteq> None)"

datatype an_stmt = SCampaign | STarget | SStages | SOffersNow | SOffersPrev | SSpentNow | SSpentPrev

type_synonym an_view = "an_stmt \<Rightarrow> db"

section \<open>The funnel\<close>

definition safe_pct :: "nat \<Rightarrow> nat \<Rightarrow> rat" where
  "safe_pct child parent = (if parent = 0 then 0
     else py_round 2 (min 100 (max 0 (fl (fl ((of_nat parent - of_nat child) / of_nat parent) * 100)))))"

definition target_segments :: "db \<Rightarrow> uuid option \<Rightarrow> int list option \<Rightarrow> int list option" where
  "target_segments d cid deciles =
    (let ids = (case cid of None \<Rightarrow> None
        | Some c \<Rightarrow> (case find_by ca_id c (campaigns d) of
             None \<Rightarrow> Some []
           | Some row \<Rightarrow> if ca_segments row = [] then None else Some (ca_segments row))) in
     case deciles of
       None \<Rightarrow> ids
     | Some ds \<Rightarrow> Some (case ids of None \<Rightarrow> ds | Some ss \<Rightarrow> filter (\<lambda>s. s \<in> set ds) ss))"

definition target_count :: "db \<Rightarrow> int list option \<Rightarrow> nat" where
  "target_count d seg_ids = length (filter (\<lambda>u. opt_ok (in_deciles (us_segment u)) seg_ids) (users d))"

definition in_window :: "db \<Rightarrow> time \<Rightarrow> uuid option \<Rightarrow> int list option \<Rightarrow> rec_row \<Rightarrow> bool" where
  "in_window d cutoff cid deciles r = (cutoff \<le> re_generated r \<and>
     opt_ok (\<lambda>c. re_campaign r = c) cid \<and> of_deciles d deciles (re_user r))"

definition funnel_stages :: "db \<Rightarrow> time \<Rightarrow> uuid option \<Rightarrow> int list option \<Rightarrow> nat list" where
  "funnel_stages d cutoff cid deciles =
    (let js = left_join d (filter (in_window d cutoff cid deciles) (recs d)) in
     map (\<lambda>p. count_users p js) [\<lambda>_. True, \<lambda>j. responded (fst j), has_accepted, has_transacted, has_paid])"

record funnel_step =
  fs_name :: string
  fs_count :: nat
  fs_drop :: rat
  fs_pending :: bool

fun funnel_steps :: "bool \<Rightarrow> nat \<Rightarrow> nat \<Rightarrow> (string \<times> nat) list \<Rightarrow> funnel_step list" where
  "funnel_steps w idx prev [] = []"
| "funnel_steps w idx prev ((nm, v) # raw) =
     \<lparr>fs_name = nm, fs_count = v, fs_drop = (if 0 < idx then safe_pct v prev else 0),
      fs_pending = (2 \<le> idx \<and> w)\<rparr> # funnel_steps w (Suc idx) v raw"

definition stage_names :: "string list" where
  "stage_names = [''target_audience'', ''received'', ''opened'', ''accepted'', ''transacted'', ''cashback_paid'']"

definition funnel :: "an_view \<Rightarrow> time \<Rightarrow> uuid option \<Rightarrow> int \<Rightarrow> string option \<Rightarrow> funnel_step list" where
  "funnel view now cid period segment =
    (let cutoff = now - period * day_us;
         deciles = deciles_for segment;
         target = target_count (view STarget) (target_segments (view SCampaign) cid deciles);
         stages = funnel_stages (view SStages) cutoff cid deciles in
     funnel_steps (0 < stages ! 0 \<and> stages ! 1 = 0) 0 target (zip stage_names (target # stages)))"

section \<open>The indicators\<close>

definition TREND_CAP :: rat where
  "TREND_CAP = fl (9999 / 10)"

definition trend :: "rat \<Rightarrow> rat \<Rightarrow> int \<Rightarrow> int \<Rightarrow> rat option" where
  "trend cur prev base min_base =
    (if base \<le> 0 \<or> base < min_base \<or> prev = 0 then None
     else Some (py_round 1 (max (- TREND_CAP) (min TREND_CAP (fl (fl (fl (cur - prev) / prev) * 100))))))"

definition offers_between :: "db \<Rightarrow> time \<Rightarrow> time \<Rightarrow> uuid list \<Rightarrow> int list option \<Rightarrow> nat \<times> nat \<times> nat" where
  "offers_between d since til cids deciles =
    (let rs = filter (\<lambda>r. since \<le> re_generated r \<and> re_generated r < til \<and> re_campaign r \<in> set cids \<and>
          of_deciles d deciles (re_user r)) (recs d) in
     (length rs, distinct_users rs, length (filter (\<lambda>r. re_status r = ACCEPTED) rs)))"

definition accruals_between :: "db \<Rightarrow> time \<Rightarrow> time \<Rightarrow> uuid list \<Rightarrow> int list option \<Rightarrow> rat \<times> nat" where
  "accruals_between d since til cids deciles =
    (let xs = filter (\<lambda>a. since \<le> ac_at a \<and> ac_at a < til \<and> ac_campaign a \<in> set cids \<and>
          of_deciles d deciles (ac_user a)) (accruals d) in
     (fl (sum_list (map ac_cashback xs)), length xs))"

record kpi =
  kp_campaigns :: nat
  kp_reach :: nat
  kp_spent :: rat
  kp_budget :: rat
  kp_ctr :: rat
  kp_trend_reach :: "rat option"
  kp_trend_spent :: "rat option"
  kp_trend_ctr :: "rat option"
  kp_window :: int
  kp_has_data :: bool

definition ctr :: "nat \<Rightarrow> nat \<Rightarrow> rat" where
  "ctr part whole = (if whole = 0 then 0 else fl (of_nat part / of_nat whole))"

definition kpi_campaigns :: "db \<Rightarrow> uuid option \<Rightarrow> campaign_row list" where
  "kpi_campaigns d cid = filter (\<lambda>c. case cid of Some x \<Rightarrow> ca_id c = x
     | None \<Rightarrow> (ca_status c = ACTIVE \<or> ca_status c = PAUSED) \<and> ca_archived c = None) (campaigns d)"

definition kpis :: "an_view \<Rightarrow> int \<Rightarrow> time \<Rightarrow> uuid option \<Rightarrow> int \<Rightarrow> string option \<Rightarrow> kpi" where
  "kpis view min_base now cid period segment =
    (let cs = kpi_campaigns (view SCampaign) cid;
         cur_since = now - period * day_us;
         prev_since = now - 2 * period * day_us;
         deciles = deciles_for segment in
     if cid = None \<and> cs = []
     then \<lparr>kp_campaigns = 0, kp_reach = 0, kp_spent = 0, kp_budget = 0, kp_ctr = 0, kp_trend_reach = None,
        kp_trend_spent = None, kp_trend_ctr = None, kp_window = period, kp_has_data = False\<rparr>
     else
       (let ids = (case cid of None \<Rightarrow> map ca_id cs | Some x \<Rightarrow> [x]);
            budget = sum_list (map ca_total cs);
            spent = sum_list (map ca_spent cs);
            (delivered, reach, acc) = offers_between (view SOffersNow) cur_since now ids deciles;
            (delivered', reach', acc') = offers_between (view SOffersPrev) prev_since cur_since ids deciles;
            (spent_now, _) = accruals_between (view SSpentNow) cur_since now ids deciles;
            (spent_prev, n) = accruals_between (view SSpentPrev) prev_since cur_since ids deciles;
            avg = py_round 6 (ctr acc delivered) in
        \<lparr>kp_campaigns = length cs, kp_reach = reach, kp_spent = spent, kp_budget = budget, kp_ctr = avg,
         kp_trend_reach = trend (of_nat reach) (of_nat reach') (int delivered') min_base,
         kp_trend_spent = trend spent_now spent_prev (int n) min_base,
         kp_trend_ctr = trend (ctr acc delivered) (ctr acc' delivered') (int delivered') min_base,
         kp_window = period, kp_has_data = (0 < spent \<or> 0 < avg \<or> 0 < delivered)\<rparr>))"

section \<open>The matrix of segments and categories\<close>

record matrix_cell =
  mx_segment :: int
  mx_mcc :: string
  mx_impressions :: nat
  mx_accepted :: nat
  mx_ctr :: rat

definition segment_matrix :: "db \<Rightarrow> time \<Rightarrow> uuid option \<Rightarrow> int \<Rightarrow> string option \<Rightarrow> matrix_cell list" where
  "segment_matrix d now cid period segment =
    (let cutoff = now - period * day_us;
         rows = filter (\<lambda>r. client_segment d (re_user r) \<noteq> None \<and>
            in_window d cutoff cid (deciles_for segment) r) (recs d);
         cell = (\<lambda>((s, m), rs). (let acc = length (filter (\<lambda>r. re_status r = ACCEPTED) rs) in
            \<lparr>mx_segment = s, mx_mcc = py_strip m, mx_impressions = length rs, mx_accepted = acc,
             mx_ctr = py_round 6 (ctr acc (length rs))\<rparr>)) in
     map cell (sort_key fst (group_by (\<lambda>r. (the (client_segment d (re_user r)), rtrim (re_mcc r))) rows)))"

section \<open>Cohorts\<close>

text \<open>\<open>month_of\<close> is \<^verbatim>\<open>date_trunc('month', t)\<close> as a number of months, so that the \<^verbatim>\<open>age\<close> of two
  beginnings of months is their difference; \<open>created\<close> is \<^verbatim>\<open>users.created_at\<close>; \<open>cm\<close> is \<^verbatim>\<open>cohort_month\<close>.\<close>

record cohort_cell =
  ch_period :: int
  ch_active :: nat
  ch_retention :: rat

definition cohort_retention ::
  "(time \<Rightarrow> int) \<Rightarrow> (uuid \<Rightarrow> time) \<Rightarrow> db \<Rightarrow> int \<Rightarrow> nat \<Rightarrow> cohort_cell list" where
  "cohort_retention month_of created d cm periods =
    (let cohort = map us_id (filter (\<lambda>u. month_of (created (us_id u)) = cm) (users d));
         act = filter (\<lambda>a. ac_user a \<in> set cohort \<and> cm \<le> month_of (ac_at a) \<and>
            month_of (ac_at a) < cm + int periods) (accruals d) in
     map (\<lambda>(k, xs). (let active = length (remdups (map ac_user xs)) in
         \<lparr>ch_period = k, ch_active = active, ch_retention = py_round 6 (ctr active (length cohort))\<rparr>))
       (sort_key fst (group_by (\<lambda>a. month_of (ac_at a) - cm) act)))"

section \<open>The top campaigns\<close>

definition campaign_offers :: "db \<Rightarrow> uuid \<Rightarrow> joined list" where
  "campaign_offers d cid = left_join d (filter (\<lambda>r. re_campaign r = cid) (recs d))"

definition top_value :: "(rat \<Rightarrow> rat) \<Rightarrow> db \<Rightarrow> string \<Rightarrow> uuid \<Rightarrow> rat" where
  "top_value dec d metric cid =
    (let js = campaign_offers d cid;
         delivered = count_users (\<lambda>_. True) js;
         acc = count_users has_accepted js;
         bought = count_users has_transacted js;
         pays = filter (\<lambda>a. ac_campaign a = cid) (accruals d);
         revenue = sum_list (map ac_amount pays);
         cashback = sum_list (map ac_cashback pays) in
     if metric = ''ctr'' then ctr acc delivered
     else if metric = ''conversion_rate'' then ctr bought acc
     else if metric = ''cashback_paid'' then fl (sum_list (map ac_cashback (filter (\<lambda>a. ac_status a = PAID) pays)))
     else if 0 < cashback then fl (dec ((revenue - cashback) / cashback)) else 0)"

record top_item =
  ti_id :: uuid
  ti_name :: string
  ti_metric :: rat

definition top_campaigns :: "(rat \<Rightarrow> rat) \<Rightarrow> (string \<Rightarrow> nat) \<Rightarrow> db \<Rightarrow> string \<Rightarrow> nat \<Rightarrow> top_item list" where
  "top_campaigns dec collate d metric lmt =
    (let rows = sort_key (\<lambda>c. (collate (ca_name c), ca_id c)) (campaigns d);
         items = map (\<lambda>c. (ca_id c, ca_name c, top_value dec d metric (ca_id c))) rows in
     map (\<lambda>(cid, nm, v). \<lparr>ti_id = cid, ti_name = nm, ti_metric = py_round 4 v\<rparr>)
       (take lmt (sort_key (\<lambda>(cid, nm, v). - v) items)))"

section \<open>The daily trend\<close>

definition trend_counts :: "db \<Rightarrow> time \<Rightarrow> uuid option \<Rightarrow> int list option \<Rightarrow> rec_row \<Rightarrow> bool" where
  "trend_counts d cutoff cid deciles r = (known_client d (re_user r) \<and> re_status r = ACCEPTED \<and>
     (case re_responded r of None \<Rightarrow> False | Some t \<Rightarrow> cutoff \<le> t) \<and>
     opt_ok (\<lambda>c. re_campaign r = c) cid \<and> of_deciles d deciles (re_user r))"

definition answer_day :: "(time \<Rightarrow> int) \<Rightarrow> rec_row \<Rightarrow> int" where
  "answer_day day_of r = day_of (the (re_responded r))"

definition trend_rows ::
  "(time \<Rightarrow> int) \<Rightarrow> db \<Rightarrow> time \<Rightarrow> uuid option \<Rightarrow> int list option \<Rightarrow> (int \<times> int option \<times> nat) list" where
  "trend_rows day_of d cutoff cid deciles =
     map (\<lambda>((dy, s), rs). (dy, s, length rs))
       (group_by (\<lambda>r. (answer_day day_of r, client_segment d (re_user r)))
         (filter (trend_counts d cutoff cid deciles) (recs d)))"

fun trend_agg :: "((int \<times> string) \<times> nat) list \<Rightarrow> (int \<times> int option \<times> nat) list \<Rightarrow> ((int \<times> string) \<times> nat) list" where
  "trend_agg agg [] = agg"
| "trend_agg agg ((dy, s, n) # rows) = (case bucket_of s of
     None \<Rightarrow> trend_agg agg rows
   | Some b \<Rightarrow> trend_agg (AList.update (dy, b)
        ((case map_of agg (dy, b) of None \<Rightarrow> 0 | Some k \<Rightarrow> k) + n) agg) rows)"

definition daily_trend ::
  "(time \<Rightarrow> int) \<Rightarrow> db \<Rightarrow> time \<Rightarrow> uuid option \<Rightarrow> int \<Rightarrow> string option \<Rightarrow> ((int \<times> string) \<times> nat) list" where
  "daily_trend day_of d now cid period segment =
     sort_key fst (trend_agg [] (trend_rows day_of d (now - period * day_us) cid (deciles_for segment)))"

section \<open>The delivery channels\<close>

record channel_stats =
  cs_channel :: string
  cs_sent :: nat
  cs_opened :: nat
  cs_accepted :: nat
  cs_converted :: nat
  cs_pending :: bool

definition channel_name :: "rec_row \<Rightarrow> string" where
  "channel_name r = (case re_channel r of None \<Rightarrow> ''UNKNOWN'' | Some c \<Rightarrow> c)"

definition channel_row :: "string \<times> joined list \<Rightarrow> channel_stats" where
  "channel_row g = (case g of (ch, js) \<Rightarrow>
    (let opened = length (filter (\<lambda>j. responded (fst j)) js) in
     \<lparr>cs_channel = ch, cs_sent = length js, cs_opened = opened, cs_accepted = length (filter has_accepted js),
      cs_converted = length (filter has_transacted js), cs_pending = (0 < length js \<and> opened = 0)\<rparr>))"

definition channels_report :: "db \<Rightarrow> time \<Rightarrow> uuid option \<Rightarrow> int \<Rightarrow> string option \<Rightarrow> channel_stats list" where
  "channels_report d now cid period segment =
    (let js = left_join d (filter (\<lambda>r. known_client d (re_user r) \<and>
          in_window d (now - period * day_us) cid (deciles_for segment) r) (recs d)) in
     sort_key (\<lambda>s. (- int (cs_sent s), cs_channel s)) (map channel_row (group_by (channel_name \<circ> fst) js)))"


section \<open>Groups and joins: lemmas\<close>

lemma map_fst_group_by [simp]: "map fst (group_by f xs) = remdups (map f xs)"
  by (simp add: group_by_def comp_def)

lemma group_by_mem: "(k, g) \<in> set (group_by f xs) \<longleftrightarrow> k \<in> f ` set xs \<and> g = filter (\<lambda>x. f x = k) xs"
  by (auto simp: group_by_def)

lemma group_by_length: "sum_list (map (length \<circ> snd) (group_by f xs)) = length xs"
proof -
  have eq: "sum_list (map (length \<circ> snd) (group_by f xs)) = (\<Sum>k \<in> f ` set xs. length (filter (\<lambda>x. f x = k) xs))"
    by (simp add: group_by_def comp_def sum_list_distinct_conv_sum_set)
  also have "\<dots> = (\<Sum>k \<in> f ` set xs. card {i. i < length xs \<and> f (xs ! i) = k})"
    by (simp add: length_filter_conv_card)
  also have "\<dots> = card (\<Union>k \<in> f ` set xs. {i. i < length xs \<and> f (xs ! i) = k})"
    by (rule card_UN_disjoint [symmetric]) auto
  also have "(\<Union>k \<in> f ` set xs. {i. i < length xs \<and> f (xs ! i) = k}) = {..< length xs}"
    using nth_mem by blast
  finally show ?thesis by (simp add: comp_def)
qed

lemma group_by_sorted:
  fixes f :: "'a \<Rightarrow> 'k::linorder"
  shows "distinct (map fst (sort_key fst (group_by f xs))) \<and> sorted (map fst (sort_key fst (group_by f xs)))"
proof -
  have "mset (map fst (sort_key fst (group_by f xs))) = mset (remdups (map f xs))"
    by (simp flip: map_fst_group_by)
  then show ?thesis by (metis distinct_remdups mset_eq_imp_distinct_iff sorted_sort_key)
qed

lemma join_accruals_mem:
  "(r', x) \<in> set (join_accruals d r) \<longleftrightarrow> r' = r \<and>
     (case x of None \<Rightarrow> \<not> purchased d r | Some a \<Rightarrow> a \<in> set (accruals d) \<and> ac_rec a = Some (re_id r))"
  by (auto simp: join_accruals_def Let_def purchased_def list_ex_iff filter_empty_conv split: option.split)

lemma left_join_mem:
  "(r, x) \<in> set (left_join d rs) \<longleftrightarrow> r \<in> set rs \<and>
     (case x of None \<Rightarrow> \<not> purchased d r | Some a \<Rightarrow> a \<in> set (accruals d) \<and> ac_rec a = Some (re_id r))"
  by (auto simp: left_join_def join_accruals_mem)

text \<open>A row of the join for every offer that is looked at: the tests on the joined rows are tests on
  the offers.\<close>

lemma join_total: "r \<in> set rs \<Longrightarrow> \<exists>x. (r, x) \<in> set (left_join d rs)"
  by (cases "purchased d r") (auto simp: left_join_mem purchased_def list_ex_iff split: option.splits)

lemma joined_offers: "fst ` {j \<in> set (left_join d rs). q (fst j)} = {r \<in> set rs. q r}"
  using join_total [of _ rs d] by (fastforce simp: left_join_mem image_iff)

lemma fst_image_iff: "fst ` {j \<in> S. p j} = {r. \<exists>x. (r, x) \<in> S \<and> p (r, x)}"
  by force

lemma joined_purchases:
  "fst ` {j \<in> set (left_join d rs). has_transacted j} = {r \<in> set rs. re_status r = ACCEPTED \<and> purchased d r}"
  by (auto simp: fst_image_iff left_join_mem has_transacted_def has_accepted_def purchased_def list_ex_iff split: option.splits)

definition purchase_paid :: "db \<Rightarrow> rec_row \<Rightarrow> bool" where
  "purchase_paid d r = list_ex (\<lambda>a. ac_rec a = Some (re_id r) \<and> ac_status a = PAID) (accruals d)"

lemma joined_paid:
  "fst ` {j \<in> set (left_join d rs). has_paid j} = {r \<in> set rs. re_status r = ACCEPTED \<and> purchase_paid d r}"
  by (auto simp: fst_image_iff left_join_mem has_paid_def has_accepted_def purchase_paid_def list_ex_iff split: option.splits)

lemma count_users_card: "count_users p js = card (re_user ` fst ` {j \<in> set js. p j})"
  by (simp add: count_users_def length_remdups_card_conv image_image comp_def)

text \<open>Where an offer is paid by at most one accrual, the join does not multiply the offers.\<close>

lemma left_join_single:
  assumes "unique_on ac_rec (paying_accruals (accruals d))"
  shows "map fst (left_join d rs) = rs"
proof -
  have le: "length (filter (\<lambda>a. ac_rec a = Some k) (accruals d)) \<le> 1" for k
  proof -
    have "filter (\<lambda>a. ac_rec a = Some k) (accruals d) = filter (\<lambda>a. ac_rec a = Some k \<and> True) (paying_accruals (accruals d))"
      by (auto simp: paying_accruals_def intro!: filter_cong)
    then show ?thesis using filter_key_le_1 [OF assms, of "Some k" "\<lambda>_. True"] by simp
  qed
  have one: "map fst (join_accruals d r) = [r]" for r
    using le [of "re_id r"] by (cases "filter (\<lambda>a. ac_rec a = Some (re_id r)) (accruals d)") (auto simp: join_accruals_def Let_def)
  show ?thesis by (induction rs) (simp_all add: left_join_def one)
qed


section \<open>The funnel narrows\<close>

lemma safe_pct_range: "0 \<le> safe_pct child parent \<and> safe_pct child parent \<le> 100"
  using py_round_between [of "min 100 (max 0 (fl (fl ((of_nat parent - of_nat child) / of_nat parent) * 100)))" 100 2]
  by (simp add: safe_pct_def)

lemma ctr_range: "part \<le> whole \<Longrightarrow> 0 \<le> ctr part whole \<and> ctr part whole \<le> 1"
  using fl_le_1 [of "of_nat part / of_nat whole"] fl_nonneg [of "of_nat part / of_nat whole"]
  by (auto simp: ctr_def pos_divide_le_eq)

lemma ctr_rounded: "part \<le> whole \<Longrightarrow> 0 \<le> py_round n (ctr part whole) \<and> py_round n (ctr part whole) \<le> 1"
  using py_round_between [of "ctr part whole" 1 n] ctr_range by simp

lemma funnel_steps_counts: "map fs_count (funnel_steps w i prev raw) = map snd raw"
  by (induction w i prev raw rule: funnel_steps.induct) simp_all

lemma funnel_steps_drops: "list_all (\<lambda>s. 0 \<le> fs_drop s \<and> fs_drop s \<le> 100) (funnel_steps w i prev raw)"
  by (induction w i prev raw rule: funnel_steps.induct) (simp_all add: safe_pct_range)

definition window_clients :: "db \<Rightarrow> time \<Rightarrow> uuid option \<Rightarrow> int list option \<Rightarrow> (rec_row \<Rightarrow> bool) \<Rightarrow> uuid set" where
  "window_clients d cutoff cid ds p = re_user ` {r \<in> set (recs d). in_window d cutoff cid ds r \<and> p r}"

lemma finite_window_clients [simp]: "finite (window_clients d cutoff cid ds p)"
  by (simp add: window_clients_def)

lemma card_window_clients_mono:
  "(\<And>r. p r \<Longrightarrow> q r) \<Longrightarrow> card (window_clients d cutoff cid ds p) \<le> card (window_clients d cutoff cid ds q)"
  by (rule card_mono) (auto simp: window_clients_def)

lemma funnel_stages_card:
  "funnel_stages d cutoff cid ds = map (\<lambda>p. card (window_clients d cutoff cid ds p))
     [\<lambda>_. True, responded, \<lambda>r. re_status r = ACCEPTED, \<lambda>r. re_status r = ACCEPTED \<and> purchased d r,
      \<lambda>r. re_status r = ACCEPTED \<and> purchase_paid d r]"
proof -
  have q: "count_users (\<lambda>j. q (fst j)) (left_join d (filter (in_window d cutoff cid ds) (recs d))) =
      card (window_clients d cutoff cid ds q)" for q
    by (simp add: count_users_card joined_offers window_clients_def conj_assoc)
  show ?thesis
    using q [of "\<lambda>_. True"] q [of responded] q [of "\<lambda>r. re_status r = ACCEPTED"]
    by (simp add: funnel_stages_def count_users_card joined_purchases joined_paid window_clients_def
        has_accepted_def [abs_def] Let_def)
qed

text \<open>Every stage of the funnel after the audience counts the distinct clients with an offer in the
  window that got so far, so no stage exceeds the one before it, and every drop-off lies between 0 and
  100 per cent.\<close>

theorem funnel_counts_clients:
  "let steps = funnel view now cid period seg;
       N = (\<lambda>p. card (window_clients (view SStages) (now - period * day_us) cid (deciles_for seg) p)) in
    map fs_count steps =
      [target_count (view STarget) (target_segments (view SCampaign) cid (deciles_for seg)),
       N (\<lambda>_. True), N responded, N (\<lambda>r. re_status r = ACCEPTED),
       N (\<lambda>r. re_status r = ACCEPTED \<and> purchased (view SStages) r),
       N (\<lambda>r. re_status r = ACCEPTED \<and> purchase_paid (view SStages) r)] \<and>
    sorted_wrt (\<ge>) (tl (map fs_count steps)) \<and> list_all (\<lambda>s. 0 \<le> fs_drop s \<and> fs_drop s \<le> 100) steps"
proof -
  define N where "N = (\<lambda>p. card (window_clients (view SStages) (now - period * day_us) cid (deciles_for seg) p))"
  have counts: "map fs_count (funnel view now cid period seg) =
      [target_count (view STarget) (target_segments (view SCampaign) cid (deciles_for seg)),
       N (\<lambda>_. True), N responded, N (\<lambda>r. re_status r = ACCEPTED),
       N (\<lambda>r. re_status r = ACCEPTED \<and> purchased (view SStages) r),
       N (\<lambda>r. re_status r = ACCEPTED \<and> purchase_paid (view SStages) r)]"
    by (simp add: funnel_def funnel_steps_counts funnel_stages_card stage_names_def N_def Let_def)
  have mono: "N p \<le> N q" if "\<And>r. p r \<Longrightarrow> q r" for p q
    unfolding N_def by (rule card_window_clients_mono) (rule that)
  have "purchase_paid d r \<Longrightarrow> purchased d r" for d r by (auto simp: purchase_paid_def purchased_def list_ex_iff)
  then have le: "N responded \<le> N (\<lambda>_. True)" "N (\<lambda>r. re_status r = ACCEPTED) \<le> N responded"
      "N (\<lambda>r. re_status r = ACCEPTED \<and> purchased (view SStages) r) \<le> N (\<lambda>r. re_status r = ACCEPTED)"
      "N (\<lambda>r. re_status r = ACCEPTED \<and> purchase_paid (view SStages) r) \<le>
       N (\<lambda>r. re_status r = ACCEPTED \<and> purchased (view SStages) r)"
    by (auto intro!: mono simp: responded_def)
  have "list_all (\<lambda>s. 0 \<le> fs_drop s \<and> fs_drop s \<le> 100) (funnel view now cid period seg)"
    unfolding funnel_def Let_def by (rule funnel_steps_drops)
  with counts le show ?thesis unfolding Let_def N_def [symmetric] by auto
qed


section \<open>The daily trend counts the answers\<close>

lemma filter_group_by: "filter (q \<circ> fst) (group_by f xs) = group_by f (filter (q \<circ> f) xs)"
proof -
  have "remdups (map f (filter (q \<circ> f) xs)) = filter q (remdups (map f xs))"
    by (simp add: remdups_filter [symmetric] filter_map)
  moreover have "filter (\<lambda>x. f x = k) (filter (q \<circ> f) xs) = filter (\<lambda>x. f x = k) xs" if "q k" for k
    using that by (auto intro!: filter_cong)
  ultimately show ?thesis by (simp add: group_by_def filter_map comp_def)
qed

lemma group_by_length_where:
  "sum_list (map (length \<circ> snd) (filter (q \<circ> fst) (group_by f xs))) = length (filter (q \<circ> f) xs)"
  by (simp only: filter_group_by group_by_length)

definition agg_value :: "((int \<times> string) \<times> nat) list \<Rightarrow> int \<times> string \<Rightarrow> nat" where
  "agg_value agg k = (case map_of agg k of None \<Rightarrow> 0 | Some n \<Rightarrow> n)"

definition row_at :: "int \<times> string \<Rightarrow> int \<times> int option \<times> nat \<Rightarrow> bool" where
  "row_at k row = (case row of (dy, s, n) \<Rightarrow> bucket_of s = Some (snd k) \<and> dy = fst k)"

lemma agg_value_update:
  "agg_value (AList.update k' n agg) k = (if k = k' then n else agg_value agg k)"
  by (simp add: agg_value_def update_conv')

lemma row_at_iff: "row_at k (dy, s, n) \<longleftrightarrow> (case bucket_of s of None \<Rightarrow> False | Some b \<Rightarrow> k = (dy, b))"
  by (cases k) (auto simp: row_at_def split: option.split)

lemma trend_agg_value:
  "agg_value (trend_agg agg rows) k = agg_value agg k + sum_list (map (snd \<circ> snd) (filter (row_at k) rows))"
proof (induction agg rows rule: trend_agg.induct)
  case (2 agg dy s n rows)
  then show ?case
    by (cases "bucket_of s") (simp_all add: row_at_iff agg_value_update agg_value_def [symmetric])
qed simp

lemma trend_agg_distinct: "distinct (map fst agg) \<Longrightarrow> distinct (map fst (trend_agg agg rows))"
  by (induction agg rows rule: trend_agg.induct) (auto simp: distinct_update split: option.split)

lemma trend_agg_dom: "fst ` set (trend_agg agg rows) = fst ` set agg \<union> {k. \<exists>row \<in> set rows. row_at k row}"
proof (induction agg rows rule: trend_agg.induct)
  case (2 agg dy s n rows)
  have "{k. \<exists>row \<in> set ((dy, s, n) # rows). row_at k row} =
      (case bucket_of s of None \<Rightarrow> {} | Some b \<Rightarrow> {(dy, b)}) \<union> {k. \<exists>row \<in> set rows. row_at k row}"
    by (auto simp: row_at_iff split: option.splits)
  then show ?case using 2 by (auto simp: dom_update split: option.splits)
qed simp

lemma trend_row_sizes:
  "sum_list (map (snd \<circ> snd) (filter (row_at k) (trend_rows day_of d cutoff cid ds))) =
     length (filter (\<lambda>r. trend_counts d cutoff cid ds r \<and> answer_day day_of r = fst k \<and>
       bucket_of (client_segment d (re_user r)) = Some (snd k)) (recs d))"
proof -
  let ?q = "\<lambda>(dy, s). dy = fst k \<and> bucket_of s = Some (snd k)"
  let ?f = "\<lambda>r. (answer_day day_of r, client_segment d (re_user r))"
  let ?xs = "filter (trend_counts d cutoff cid ds) (recs d)"
  have "map (snd \<circ> snd) (filter (row_at k) (trend_rows day_of d cutoff cid ds)) =
      map (length \<circ> snd) (filter (?q \<circ> fst) (group_by ?f ?xs))"
    by (auto simp: trend_rows_def filter_map comp_def row_at_def case_prod_unfold conj_commute)
  then show ?thesis using group_by_length_where [of ?q ?f ?xs] by (simp add: comp_def conj_ac)
qed

lemma sum_list_pos: "(0 < sum_list (map f (filter q xs))) = (\<exists>x \<in> set xs. q x \<and> 0 < (f x :: nat))"
  by (induction xs) auto

lemma trend_row_pos: "row \<in> set (trend_rows day_of d cutoff cid ds) \<Longrightarrow> 0 < (snd \<circ> snd) row"
  by (auto simp: trend_rows_def group_by_mem filter_empty_conv)

text \<open>The daily trend has one point per day and segment of the shop window, in the order of the days,
  and its number is the number of offers accepted on that day by clients of that segment; a day and
  segment without acceptance has no point, and clients outside every segment are left out.\<close>

theorem daily_trend_counts_answers:
  "let points = daily_trend day_of d now cid period seg;
       taken = trend_counts d (now - period * day_us) cid (deciles_for seg) in
    distinct (map fst points) \<and> sorted (map fst points) \<and>
    (((dy, b), n) \<in> set points \<longleftrightarrow> 0 < n \<and>
      n = length (filter (\<lambda>r. taken r \<and> answer_day day_of r = dy \<and>
        bucket_of (client_segment d (re_user r)) = Some b) (recs d)))"
proof -
  let ?rows = "trend_rows day_of d (now - period * day_us) cid (deciles_for seg)"
  let ?agg = "trend_agg [] ?rows"
  let ?n = "sum_list (map (snd \<circ> snd) (filter (row_at (dy, b)) ?rows))"
  have keys: "distinct (map fst ?agg)" "(dy, b) \<in> dom (map_of ?agg) \<longleftrightarrow> (\<exists>row \<in> set ?rows. row_at (dy, b) row)"
    by (simp_all add: trend_agg_distinct trend_agg_dom dom_map_of_conv_image_fst)
  have "((dy, b), n) \<in> set ?agg \<longleftrightarrow> map_of ?agg (dy, b) = Some n" using keys(1) by (simp add: map_of_eq_Some_iff)
  also have "\<dots> \<longleftrightarrow> (dy, b) \<in> dom (map_of ?agg) \<and> n = ?n"
    using trend_agg_value [of "[]" ?rows "(dy, b)"] by (auto simp: agg_value_def dom_def split: option.splits)
  also have "(dy, b) \<in> dom (map_of ?agg) \<longleftrightarrow> 0 < ?n"
    unfolding keys(2) sum_list_pos using trend_row_pos by blast
  finally have mem: "((dy, b), n) \<in> set ?agg \<longleftrightarrow> 0 < n \<and> n = ?n" by metis
  have "mset (map fst (sort_key fst ?agg)) = mset (map fst ?agg)" by simp
  then have "distinct (map fst (sort_key fst ?agg))" using keys(1) by (metis mset_eq_imp_distinct_iff)
  then show ?thesis using mem by (simp add: daily_trend_def Let_def trend_row_sizes)
qed


section \<open>The delivery channels split the offers\<close>

lemma known_clients: "refs_ok d \<Longrightarrow> r \<in> set (recs d) \<Longrightarrow> known_client d (re_user r)"
  by (auto simp: refs_ok_def list_all_iff known_client_def find_by_None)

lemma channel_row_ok:
  "cs_converted (channel_row g) \<le> cs_accepted (channel_row g) \<and> cs_accepted (channel_row g) \<le> cs_opened (channel_row g) \<and>
   cs_opened (channel_row g) \<le> cs_sent (channel_row g)"
proof -
  have le: "length (filter p xs) \<le> length (filter q xs)" if "\<And>x. p x \<Longrightarrow> q x" for p q :: "joined \<Rightarrow> bool" and xs
    using that by (induction xs) auto
  obtain ch js where g: "g = (ch, js)" by (cases g)
  have "length (filter has_transacted js) \<le> length (filter has_accepted js)" by (rule le) (simp add: has_transacted_def)
  moreover have "length (filter has_accepted js) \<le> length (filter (\<lambda>j. responded (fst j)) js)"
    by (rule le) (simp add: has_accepted_def responded_def)
  ultimately show ?thesis by (simp add: channel_row_def g Let_def)
qed

text \<open>The report of the channels splits the offers of the window: every offer is sent through exactly
  one channel (a channel nobody recorded is UNKNOWN), each channel has one row, and within a row no more
  offers are converted than accepted, accepted than opened, opened than sent.\<close>

theorem channels_split_offers:
  assumes "db_ok d"
  shows "let rows = channels_report d now cid period seg;
      sent = filter (in_window d (now - period * day_us) cid (deciles_for seg)) (recs d) in
    sum_list (map cs_sent rows) = length sent \<and> distinct (map cs_channel rows) \<and>
    set (map cs_channel rows) = channel_name ` set sent \<and>
    list_all (\<lambda>s. cs_converted s \<le> cs_accepted s \<and> cs_accepted s \<le> cs_opened s \<and> cs_opened s \<le> cs_sent s) rows"
proof -
  let ?w = "in_window d (now - period * day_us) cid (deciles_for seg)"
  let ?js = "left_join d (filter ?w (recs d))"
  let ?gs = "group_by (channel_name \<circ> fst) ?js"
  have fst: "map fst ?js = filter ?w (recs d)"
    using assms by (intro left_join_single) (simp add: db_ok_def accrual_keys_ok_def)
  have sel: "filter (\<lambda>r. known_client d (re_user r) \<and> ?w r) (recs d) = filter ?w (recs d)"
    using known_clients [of d] db_ok_refs [OF assms] by (auto intro!: filter_cong)
  define rows where "rows = channels_report d now cid period seg"
  have ms: "mset rows = mset (map channel_row ?gs)" by (simp add: rows_def channels_report_def sel)
  have name: "cs_channel \<circ> channel_row = fst" and size: "cs_sent \<circ> channel_row = length \<circ> snd"
    by (auto simp: channel_row_def Let_def fun_eq_iff split: prod.split)
  have "sum_list (map cs_sent rows) = sum_list (map cs_sent (map channel_row ?gs))"
    using ms by (metis mset_map sum_mset_sum_list)
  also have "\<dots> = length ?js" using group_by_length [of "channel_name \<circ> fst" ?js] by (simp add: size)
  finally have 1: "sum_list (map cs_sent rows) = length (filter ?w (recs d))" by (metis fst length_map)
  have names: "map cs_channel (map channel_row ?gs) = remdups (map channel_name (map fst ?js))"
    by (simp add: name)
  have 2: "distinct (map cs_channel rows)"
    using ms names by (metis distinct_remdups mset_eq_imp_distinct_iff mset_map)
  have "set (map cs_channel rows) = set (map cs_channel (map channel_row ?gs))"
    using ms by (metis mset_map set_mset_mset)
  then have 3: "set (map cs_channel rows) = channel_name ` set (filter ?w (recs d))"
    unfolding names fst by simp
  have "set rows = channel_row ` set ?gs" using ms by (metis list.set_map set_mset_mset)
  then have 4: "list_all (\<lambda>s. cs_converted s \<le> cs_accepted s \<and> cs_accepted s \<le> cs_opened s \<and> cs_opened s \<le> cs_sent s) rows"
    using channel_row_ok by (auto simp: list_all_iff)
  show ?thesis using 1 2 3 4 by (simp only: Let_def rows_def)
qed

section \<open>The top campaigns, and the agreement of the reports\<close>

text \<open>The top campaigns are the best ones: as many as asked for (or all), in descending order of the
  metric, and no campaign that is left out has a higher value than one that is listed.\<close>

theorem top_campaigns_are_best:
  "let best = top_campaigns dec collate d metric n; v = top_value dec d metric in
    length best = min n (length (campaigns d)) \<and> sorted_wrt (\<lambda>i j. v (ti_id j) \<le> v (ti_id i)) best \<and>
    list_all (\<lambda>i. ti_metric i = py_round 4 (v (ti_id i))) best \<and>
    list_all (\<lambda>c. ca_id c \<in> ti_id ` set best \<or> list_all (\<lambda>i. v (ca_id c) \<le> v (ti_id i)) best) (campaigns d)"
proof -
  let ?v = "top_value dec d metric" and ?best = "top_campaigns dec collate d metric n"
  define rows where "rows = sort_key (\<lambda>c. (collate (ca_name c), ca_id c)) (campaigns d)"
  define items where "items = sort_key (\<lambda>(cid, nm, v). - v) (map (\<lambda>c. (ca_id c, ca_name c, ?v (ca_id c))) rows)"
  let ?item = "\<lambda>(cid, nm, v). \<lparr>ti_id = cid, ti_name = nm, ti_metric = py_round 4 v\<rparr>"
  have best: "?best = map ?item (take n items)" by (simp add: top_campaigns_def items_def rows_def Let_def)
  have set: "set items = (\<lambda>c. (ca_id c, ca_name c, ?v (ca_id c))) ` set (campaigns d)"
    and len: "length items = length (campaigns d)" by (simp_all add: items_def rows_def)
  have val: "snd (snd x) = ?v (fst x)" if "x \<in> set items" for x using that set by auto
  have "sorted (map (\<lambda>(cid, nm, v). - v) items)" by (simp add: items_def)
  then have desc: "sorted_wrt (\<lambda>x y. snd (snd y) \<le> snd (snd x)) items"
    by (simp add: sorted_map case_prod_unfold)
  have id: "ti_id (?item x) = fst x" "ti_metric (?item x) = py_round 4 (snd (snd x))" for x by (cases x, simp)+
  have "sorted_wrt (\<lambda>x y. snd (snd y) \<le> snd (snd x)) (take n items)" using desc by (rule sorted_wrt_take)
  then have "sorted_wrt (\<lambda>x y. ?v (fst y) \<le> ?v (fst x)) (take n items)"
    by (rule sorted_wrt_mono_rel [rotated]) (metis val in_set_takeD)
  then have 1: "sorted_wrt (\<lambda>i j. ?v (ti_id j) \<le> ?v (ti_id i)) ?best" by (simp add: best sorted_wrt_map id)
  have 2: "list_all (\<lambda>i. ti_metric i = py_round 4 (?v (ti_id i))) ?best"
    using val by (fastforce simp: best list_all_iff dest: in_set_takeD)
  have 3: "ca_id c \<in> ti_id ` set ?best \<or> list_all (\<lambda>i. ?v (ca_id c) \<le> ?v (ti_id i)) ?best"
    if c: "c \<in> set (campaigns d)" for c
  proof -
    let ?x = "(ca_id c, ca_name c, ?v (ca_id c))"
    have "?x \<in> set items" using c set by auto
    then consider "?x \<in> set (take n items)" | "?x \<in> set (drop n items)" by (metis Un_iff append_take_drop_id set_append)
    then show ?thesis
    proof cases
      case 1
      then have "ca_id c \<in> ti_id ` set ?best" unfolding best by (force simp: image_iff)
      then show ?thesis ..
    next
      case 2
      have "?v (ca_id c) \<le> ?v (fst y)" if "y \<in> set (take n items)" for y
        using desc 2 that val in_set_takeD [OF that]
        by (metis append_take_drop_id snd_conv sorted_wrt_append)
      then show ?thesis by (auto simp: best list_all_iff id)
    qed
  qed
  show ?thesis using 1 2 3 len by (simp add: Let_def list_all_iff best min.commute)
qed


lemma count_offers: "count_users (\<lambda>j. q (fst j)) (left_join d rs) = distinct_users (filter q rs)"
  by (simp add: count_users_card joined_offers distinct_users_def length_remdups_card_conv)

lemma count_purchases:
  "count_users has_transacted (left_join d rs) = distinct_users (filter (purchased d) (filter (\<lambda>r. re_status r = ACCEPTED) rs))"
  by (simp add: count_users_card joined_purchases distinct_users_def length_remdups_card_conv conj_assoc)


section \<open>The indicators stay in range\<close>

lemma trend_cap: "py_round 1 TREND_CAP = TREND_CAP \<and> py_round 1 (- TREND_CAP) = - TREND_CAP"
proof -
  have "\<bar>fl (9999 / 10) - 9999 / 10\<bar> \<le> pow2 (-44)"
    by (rule fl_error [of _ 10, simplified]) (simp_all add: pow2_def)
  moreover have "pow2 (-44) < 1 / 20" by (simp add: pow2_def)
  ultimately have "\<bar>TREND_CAP * 10 - of_int 9999\<bar> < 1 / 2" unfolding TREND_CAP_def of_int_numeral by linarith
  then have "half_even (TREND_CAP * 10) = 9999" by (rule half_even_near)
  then show ?thesis
    by (simp add: py_round_def half_even_minus fl_minus TREND_CAP_def)
qed

lemma trend_range: "trend cur prev base mb = Some x \<Longrightarrow> \<bar>x\<bar> \<le> TREND_CAP"
proof -
  assume "trend cur prev base mb = Some x"
  then obtain y where x: "x = py_round 1 y" "- TREND_CAP \<le> y" "y \<le> TREND_CAP"
    using trend_cap fl_nonneg [of "9999 / 10"] by (auto simp: trend_def TREND_CAP_def split: if_splits)
  then show ?thesis using py_round_mono [of y TREND_CAP 1] py_round_mono [of "- TREND_CAP" y 1] trend_cap
    by (simp add: abs_le_iff)
qed

lemma offers_between_le:
  assumes "offers_between d s u ids ds = (delivered, reach, acc)"
  shows "acc \<le> delivered"
proof -
  define rs where "rs = filter (\<lambda>r. s \<le> re_generated r \<and> re_generated r < u \<and> re_campaign r \<in> set ids \<and>
      of_deciles d ds (re_user r)) (recs d)"
  have "delivered = length rs" "acc = length (filter (\<lambda>r. re_status r = ACCEPTED) rs)"
    using assms unfolding offers_between_def rs_def [symmetric] Let_def by simp_all
  then show ?thesis by simp
qed

text \<open>The indicators stay in their ranges whatever the database holds: the share of accepted offers
  lies between 0 and 1, and no trend exceeds \<open>TREND_CAP\<close> in size.\<close>

theorem kpis_in_range:
  "let k = kpis view mb now cid period seg in
    0 \<le> kp_ctr k \<and> kp_ctr k \<le> 1 \<and>
    list_all (\<lambda>t. case t of None \<Rightarrow> True | Some x \<Rightarrow> \<bar>x\<bar> \<le> TREND_CAP)
      [kp_trend_reach k, kp_trend_spent k, kp_trend_ctr k]"
proof -
  have t: "(case trend a b n m of None \<Rightarrow> True | Some x \<Rightarrow> \<bar>x\<bar> \<le> TREND_CAP)" for a b n m
    using trend_range by (auto split: option.split)
  show ?thesis
    by (auto simp: kpis_def Let_def t ctr_rounded split: prod.splits dest!: offers_between_le)
qed

text \<open>Without running campaigns the dashboard shows zeros, whatever happened in the past.\<close>

lemma kpis_idle:
  "kpi_campaigns (view SCampaign) None = [] \<Longrightarrow>
   kp_reach (kpis view mb now None period seg) = 0 \<and> kp_spent (kpis view mb now None period seg) = 0 \<and>
   \<not> kp_has_data (kpis view mb now None period seg)"
  by (simp add: kpis_def Let_def)

section \<open>Cohorts\<close>

text \<open>A cell's share is a share of the cohort, of a month of the period asked for, once per month.\<close>

lemma cohort_cells:
  assumes "unique_on us_id (users d)" "c \<in> set (cohort_retention month_of created d cm periods)"
  shows "0 \<le> ch_retention c \<and> ch_retention c \<le> 1 \<and> 0 \<le> ch_period c \<and> ch_period c < int periods \<and> 0 < ch_active c"
proof -
  let ?co = "map us_id (filter (\<lambda>u. month_of (created (us_id u)) = cm) (users d))"
  let ?act = "filter (\<lambda>a. ac_user a \<in> set ?co \<and> cm \<le> month_of (ac_at a) \<and> month_of (ac_at a) < cm + int periods) (accruals d)"
  obtain k xs where k: "(k, xs) \<in> set (group_by (\<lambda>a. month_of (ac_at a) - cm) ?act)" "ch_period c = k"
      "ch_active c = length (remdups (map ac_user xs))"
      "ch_retention c = py_round 6 (ctr (length (remdups (map ac_user xs))) (length ?co))"
    using assms(2) by (auto simp: cohort_retention_def Let_def)
  have xs: "xs = filter (\<lambda>a. month_of (ac_at a) - cm = k) ?act" "xs \<noteq> []"
    using k(1) unfolding group_by_mem by (auto simp: filter_empty_conv)
  have "distinct ?co" using assms(1) by (auto simp: distinct_map inj_on_def)
  moreover have "set (remdups (map ac_user xs)) \<subseteq> set ?co" using xs(1) by auto
  ultimately have "length (remdups (map ac_user xs)) \<le> length ?co"
    by (metis List.finite_set card_mono distinct_card distinct_remdups)
  moreover have "0 \<le> k \<and> k < int periods" using xs by (auto simp: filter_empty_conv)
  moreover have "0 < length (remdups (map ac_user xs))" using xs(2) by simp
  ultimately show ?thesis using k(2-4) ctr_rounded by presburger
qed


section \<open>The matrix\<close>

lemma sum_sorted_groups:
  fixes f :: "'a \<Rightarrow> 'k::linorder"
  assumes "\<And>k g. sz (cell (k, g)) = length g"
  shows "sum_list (map sz (map cell (sort_key fst (group_by f xs)))) = length xs"
proof -
  have "sz \<circ> cell = length \<circ> snd" using assms by (auto simp: fun_eq_iff)
  then have "sum_list (map sz (map cell (sort_key fst (group_by f xs)))) =
      sum_list (map (length \<circ> snd) (sort_key fst (group_by f xs)))" by simp
  also have "\<dots> = sum_list (map (length \<circ> snd) (group_by f xs))"
    by (metis mset_map mset_sort sum_mset_sum_list)
  finally show ?thesis by (simp only: group_by_length)
qed

text \<open>The cells of the matrix split the offers of the window whose client has a segment, and a cell's
  share lies between 0 and 1.\<close>

lemma matrix_splits_offers:
  "sum_list (map mx_impressions (segment_matrix d now cid period seg)) =
     length (filter (\<lambda>r. client_segment d (re_user r) \<noteq> None \<and>
       in_window d (now - period * day_us) cid (deciles_for seg) r) (recs d)) \<and>
   list_all (\<lambda>c. mx_accepted c \<le> mx_impressions c \<and> 0 \<le> mx_ctr c \<and> mx_ctr c \<le> 1)
     (segment_matrix d now cid period seg)"
proof
  show "sum_list (map mx_impressions (segment_matrix d now cid period seg)) =
     length (filter (\<lambda>r. client_segment d (re_user r) \<noteq> None \<and>
       in_window d (now - period * day_us) cid (deciles_for seg) r) (recs d))"
    unfolding segment_matrix_def Let_def by (rule sum_sorted_groups) (simp split: prod.split)
  show "list_all (\<lambda>c. mx_accepted c \<le> mx_impressions c \<and> 0 \<le> mx_ctr c \<and> mx_ctr c \<le> 1)
     (segment_matrix d now cid period seg)"
    by (auto simp: segment_matrix_def list_all_iff Let_def ctr_rounded)
qed

end
