(* ===== verification/Bre.thy ===== *)
theory Bre
  imports KvStore Eligibility Faults Float64
begin

text \<open>
  The Business Rules Engine of the recommendation API (\<^verbatim>\<open>services/recommendation_api/app/bre\<close>): the
  seven rules as functions of the candidate and of the state they may touch (Redis and the process's
  cached snapshot of the ML limits), the chain that stops at the first rejection, and \<^verbatim>\<open>release\<close>,
  which takes back the marks of an offer that was not served.

  \<open>bre_env\<close> holds the clocks, the settings, what fails, and \<^verbatim>\<open>float(text)\<close>. A rule's reason and
  metadata only go to the log and are left out. Amounts and rates are doubles: \<open>fl\<close> marks each
  conversion from \<^verbatim>\<open>Decimal\<close> and each operation.
\<close>

datatype rule_outcome = PASS | SKIP | REJECT

record rule_result =
  rr_rule :: string
  rr_outcome :: rule_outcome

record rule_ctx =
  rc_user :: string
  rc_mcc :: string
  rc_campaign_id :: "string option"
  rc_segment :: "int option"
  rc_amount :: "rat option"
  rc_channel :: "string option"
  rc_excluded :: "string list"
  rc_campaign :: "elig_row option"
  rc_status :: "string option"

record bre_sys =
  br_redis :: store
  br_cache :: "(time \<times> json) option"

datatype redis_op = OpGet string | OpSet string | OpDel string

record bre_env =
  be_redis :: bool
  be_now :: time
  be_mono :: time
  be_fault :: "redis_op \<Rightarrow> exn option"
  be_ttl_days :: int
  be_limit :: int
  be_min_award :: rat
  be_float :: "string \<Rightarrow> rat option"

type_synonym rule_fn = "bre_env \<Rightarrow> rule_ctx \<Rightarrow> bre_sys \<Rightarrow> (exn + rule_result) \<times> bre_sys"

section \<open>Redis\<close>

definition bre_get :: "bre_env \<Rightarrow> string \<Rightarrow> bre_sys \<Rightarrow> exn + rval option" where
  "bre_get env k s = (case be_fault env (OpGet k) of Some e \<Rightarrow> Inl e
     | None \<Rightarrow> (case kv_get (be_now env) (br_redis s) k of
         Some VNonString \<Rightarrow> Inl redis_wrongtype | r \<Rightarrow> Inr r))"

text \<open>\<^verbatim>\<open>SETEX\<close> refuses an expiry that is not positive.\<close>

definition bre_setex :: "bre_env \<Rightarrow> string \<Rightarrow> int \<Rightarrow> rval \<Rightarrow> bre_sys \<Rightarrow> exn option \<times> bre_sys" where
  "bre_setex env k ttl v s = (case be_fault env (OpSet k) of Some e \<Rightarrow> (Some e, s)
     | None \<Rightarrow> if ttl \<le> 0 then (Some (Exn ''RedisResponseError'' ''invalid expire time'' None None None), s)
              else (None, s\<lparr>br_redis := kv_setex (be_now env) (br_redis s) k ttl v\<rparr>))"

definition bre_del :: "bre_env \<Rightarrow> string \<Rightarrow> bre_sys \<Rightarrow> exn option \<times> bre_sys" where
  "bre_del env k s = (case be_fault env (OpDel k) of Some e \<Rightarrow> (Some e, s)
     | None \<Rightarrow> (None, s\<lparr>br_redis := kv_del (br_redis s) k\<rparr>))"

text \<open>The truth value of the bytes read, and \<^verbatim>\<open>int(raw)\<close> of them.\<close>

definition raw_truthy :: "rval option \<Rightarrow> bool" where
  "raw_truthy raw = (case raw of None \<Rightarrow> False | Some (VBad t) \<Rightarrow> t \<noteq> [] | Some _ \<Rightarrow> True)"

definition raw_int :: "rval \<Rightarrow> exn + int" where
  "raw_int raw = (case raw of
     VJson (JInt i) \<Rightarrow> Inr i
   | VBad t \<Rightarrow> (case signed_digits (py_strip t) of Some i \<Rightarrow> Inr i | None \<Rightarrow> Inl (py_error ''ValueError''))
   | _ \<Rightarrow> Inl (py_error ''ValueError''))"

definition verdict :: "string \<Rightarrow> rule_outcome \<Rightarrow> rule_result" where
  "verdict rule oc = \<lparr>rr_rule = rule, rr_outcome = oc\<rparr>"

section \<open>R1, R2, R5, R6: the pure rules\<close>

definition category_exclusion :: "rule_ctx \<Rightarrow> rule_result" where
  "category_exclusion ctx = verdict ''R1_category_exclusion''
    (if rc_excluded ctx = [] then PASS
     else if rc_mcc ctx \<in> set (rc_excluded ctx) then REJECT else PASS)"

definition min_transaction :: "rule_ctx \<Rightarrow> rule_result" where
  "min_transaction ctx = verdict ''R2_min_transaction''
    (case (rc_amount ctx, rc_campaign ctx) of
       (Some a, Some c) \<Rightarrow> (case el_min c of None \<Rightarrow> PASS | Some m \<Rightarrow> if a < fl m then REJECT else PASS)
     | _ \<Rightarrow> SKIP)"

definition channel_applicability :: "rule_ctx \<Rightarrow> rule_result" where
  "channel_applicability ctx = verdict ''R5_channel_applicability''
    (case (rc_channel ctx, rc_campaign ctx) of
       (Some ch, Some c) \<Rightarrow>
         if el_channels c = [] then PASS else if ch \<in> set (el_channels c) then PASS else REJECT
     | _ \<Rightarrow> SKIP)"

definition budget_reservation :: "bre_env \<Rightarrow> rule_ctx \<Rightarrow> rule_result" where
  "budget_reservation env ctx = verdict ''R6_budget_reservation''
    (case rc_campaign ctx of
       None \<Rightarrow> SKIP
     | Some c \<Rightarrow>
        if (case rc_status ctx of None \<Rightarrow> ''ACTIVE'' | Some st \<Rightarrow> st) \<noteq> ''ACTIVE'' then REJECT
        else if fl (fl (el_total c) - fl (el_spent c)) \<le> be_min_award env then REJECT
        else (case el_daily c of
            None \<Rightarrow> PASS
          | Some l \<Rightarrow> if fl l \<le> fl (el_today c) then REJECT else PASS))"

definition pure_rule :: "(rule_ctx \<Rightarrow> rule_result) \<Rightarrow> rule_fn" where
  "pure_rule f = (\<lambda>env ctx s. (Inr (f ctx), s))"

section \<open>R3 and R4: the marks in Redis\<close>

definition shown_key :: "string \<Rightarrow> string \<Rightarrow> string" where
  "shown_key user cid = ''recent_offer:'' @ user @ '':'' @ cid"

definition anti_fatigue :: rule_fn where
  "anti_fatigue env ctx s =
    (case (be_redis env, rc_campaign_id ctx) of
       (True, Some cid) \<Rightarrow>
         (let k = shown_key (rc_user ctx) cid in
          case bre_get env k s of
            Inl e \<Rightarrow> (Inl e, s)
          | Inr raw \<Rightarrow>
             if raw_truthy raw then (Inr (verdict ''R3_anti_fatigue'' REJECT), s)
             else (case bre_setex env k (be_ttl_days env * 24 * 3600) (VJson (JInt 1)) s of
                 (Some e, s1) \<Rightarrow> (Inl e, s1)
               | (None, s1) \<Rightarrow> (Inr (verdict ''R3_anti_fatigue'' PASS), s1)))
     | _ \<Rightarrow> (Inr (verdict ''R3_anti_fatigue'' SKIP), s))"

definition anti_fatigue_release :: "bre_env \<Rightarrow> rule_ctx \<Rightarrow> bre_sys \<Rightarrow> exn option \<times> bre_sys" where
  "anti_fatigue_release env ctx s =
    (case (be_redis env, rc_campaign_id ctx) of
       (True, Some cid) \<Rightarrow> bre_del env (shown_key (rc_user ctx) cid) s
     | _ \<Rightarrow> (None, s))"

definition count_key :: "string \<Rightarrow> string" where
  "count_key user = ''rec_count:'' @ user"

definition COUNTER_TTL :: int where
  "COUNTER_TTL = 24 * 3600"

definition raw_count :: "rval option \<Rightarrow> exn + int" where
  "raw_count raw = (case raw of None \<Rightarrow> Inr 0 | Some v \<Rightarrow> raw_int v)"

definition frequency_gate :: rule_fn where
  "frequency_gate env ctx s =
    (if \<not> be_redis env then (Inr (verdict ''R4_frequency_gate'' SKIP), s)
     else case bre_get env (count_key (rc_user ctx)) s of
       Inl e \<Rightarrow> (Inl e, s)
     | Inr raw \<Rightarrow>
        (case raw_count raw of
           Inl e \<Rightarrow> (Inl e, s)
         | Inr n \<Rightarrow>
            if be_limit env \<le> n then (Inr (verdict ''R4_frequency_gate'' REJECT), s)
            else (case bre_setex env (count_key (rc_user ctx)) COUNTER_TTL (VJson (JInt (n + 1))) s of
                (Some e, s1) \<Rightarrow> (Inl e, s1)
              | (None, s1) \<Rightarrow> (Inr (verdict ''R4_frequency_gate'' PASS), s1))))"

definition frequency_release :: "bre_env \<Rightarrow> rule_ctx \<Rightarrow> bre_sys \<Rightarrow> exn option \<times> bre_sys" where
  "frequency_release env ctx s =
    (if \<not> be_redis env then (None, s)
     else case bre_get env (count_key (rc_user ctx)) s of
       Inl e \<Rightarrow> (Some e, s)
     | Inr None \<Rightarrow> (None, s)
     | Inr (Some v) \<Rightarrow>
        (case raw_int v of
           Inl e \<Rightarrow> (Some e, s)
         | Inr n \<Rightarrow>
            if 0 < n - 1
            then bre_setex env (count_key (rc_user ctx)) COUNTER_TTL (VJson (JInt (n - 1))) s
            else bre_del env (count_key (rc_user ctx)) s))"

section \<open>R7: the cap of the ML limits\<close>

definition SNAPSHOT_KEY :: string where
  "SNAPSHOT_KEY = ''ml_limits:snapshot''"

definition decile_bucket :: "int \<Rightarrow> string option" where
  "decile_bucket s = map_of
     [(9, ''premium''), (10, ''premium''), (5, ''mass''), (6, ''mass''), (7, ''mass''), (8, ''mass''),
      (3, ''young''), (4, ''young''), (2, ''senior''), (1, ''business'')] s"

text \<open>\<^verbatim>\<open>_load_snapshot\<close>; only a snapshot that is not JSON \<^verbatim>\<open>null\<close> counts as cached.\<close>

definition CACHE_TTL :: time where
  "CACHE_TTL = 30 * second_us"

definition load_snapshot :: "bre_env \<Rightarrow> bre_sys \<Rightarrow> json option \<times> bre_sys" where
  "load_snapshot env s =
    (case br_cache s of
       Some (t0, snap) \<Rightarrow>
         if be_mono env - t0 < CACHE_TTL then (Some snap, s) else
           (if \<not> be_redis env then (None, s)
            else case bre_get env SNAPSHOT_KEY s of
              Inr (Some (VJson JNull)) \<Rightarrow> (None, s\<lparr>br_cache := None\<rparr>)
            | Inr (Some (VJson v)) \<Rightarrow> (Some v, s\<lparr>br_cache := Some (be_mono env, v)\<rparr>)
            | _ \<Rightarrow> (None, s))
     | None \<Rightarrow>
         (if \<not> be_redis env then (None, s)
          else case bre_get env SNAPSHOT_KEY s of
            Inr (Some (VJson JNull)) \<Rightarrow> (None, s)
          | Inr (Some (VJson v)) \<Rightarrow> (Some v, s\<lparr>br_cache := Some (be_mono env, v)\<rparr>)
          | _ \<Rightarrow> (None, s)))"

text \<open>\<^verbatim>\<open>v.get(k, default)\<close> and \<^verbatim>\<open>float(v)\<close> of a JSON value.\<close>

definition dict_get :: "json \<Rightarrow> string \<Rightarrow> json \<Rightarrow> exn + json" where
  "dict_get v k dflt = (case v of
     JObj kvs \<Rightarrow> Inr (case members kvs k of None \<Rightarrow> dflt | Some x \<Rightarrow> x)
   | _ \<Rightarrow> Inl (py_error ''AttributeError''))"

definition json_float :: "bre_env \<Rightarrow> json \<Rightarrow> exn + rat" where
  "json_float env v = (case v of
     JInt i \<Rightarrow> Inr (fl (of_int i))
   | JFloat r \<Rightarrow> Inr r
   | JBool b \<Rightarrow> Inr (if b then 1 else 0)
   | JStr t \<Rightarrow> (case be_float env t of None \<Rightarrow> Inl (py_error ''ValueError'') | Some r \<Rightarrow> Inr r)
   | _ \<Rightarrow> Inl (py_error ''TypeError''))"

definition opt_error :: "(exn + 'a) \<Rightarrow> ('a \<Rightarrow> exn + 'b) \<Rightarrow> exn + 'b" where
  "opt_error m k = (case m of Inl e \<Rightarrow> Inl e | Inr x \<Rightarrow> k x)"

text \<open>The verdict on a snapshot.\<close>

definition rate_cap :: "bre_env \<Rightarrow> json \<Rightarrow> rule_ctx \<Rightarrow> exn + rule_outcome" where
  "rate_cap env snap ctx =
    opt_error (dict_get snap ''global_enabled'' (JBool True)) (\<lambda>enabled.
      if \<not> py_truthy enabled then Inr REJECT
      else case (decile_bucket (case rc_segment ctx of None \<Rightarrow> -1 | Some sg \<Rightarrow> if sg = 0 then -1 else sg), rc_campaign ctx) of
        (Some bucket, Some c) \<Rightarrow>
          opt_error (dict_get snap ''buckets'' JNull) (\<lambda>bs.
          opt_error (dict_get (if py_truthy bs then bs else JObj []) bucket JNull) (\<lambda>lmt.
            if lmt = JNull then Inr SKIP
            else opt_error (dict_get lmt ''enabled'' (JBool True)) (\<lambda>on.
              if \<not> py_truthy on then Inr REJECT
              else let rate = fl (el_rate c) in
                opt_error (opt_error (dict_get lmt ''max_rate'' (JInt 100)) (json_float env)) (\<lambda>hi.
                opt_error (opt_error (dict_get lmt ''min_rate'' (JInt 0)) (json_float env)) (\<lambda>lo.
                  Inr (if hi < rate then REJECT else if rate < lo then REJECT else PASS))))))
      | _ \<Rightarrow> Inr SKIP)"

definition ml_rate_cap :: rule_fn where
  "ml_rate_cap env ctx s =
    (case load_snapshot env s of
       (None, s1) \<Rightarrow> (Inr (verdict ''R7_ml_rate_cap'' SKIP), s1)
     | (Some snap, s1) \<Rightarrow>
        (case rate_cap env snap ctx of
           Inl e \<Rightarrow> (Inl e, s1)
         | Inr oc \<Rightarrow> (Inr (verdict ''R7_ml_rate_cap'' oc), s1)))"

section \<open>The chain\<close>

definition budget_rule :: rule_fn where
  "budget_rule = (\<lambda>env ctx s. (Inr (budget_reservation env ctx), s))"

definition DEFAULT_RULES :: "(string \<times> rule_fn) list" where
  "DEFAULT_RULES =
    [(''R1_category_exclusion'', pure_rule category_exclusion),
     (''R2_min_transaction'', pure_rule min_transaction),
     (''R7_ml_rate_cap'', ml_rate_cap),
     (''R3_anti_fatigue'', anti_fatigue),
     (''R4_frequency_gate'', frequency_gate),
     (''R5_channel_applicability'', pure_rule channel_applicability),
     (''R6_budget_reservation'', budget_rule)]"

definition EXPLAIN_RULES :: "(string \<times> rule_fn) list" where
  "EXPLAIN_RULES =
    [(''R1_category_exclusion'', pure_rule category_exclusion),
     (''R2_min_transaction'', pure_rule min_transaction),
     (''R7_ml_rate_cap'', ml_rate_cap),
     (''R5_channel_applicability'', pure_rule channel_applicability),
     (''R6_budget_reservation'', budget_rule)]"

fun run_rules ::
  "(string \<times> rule_fn) list \<Rightarrow> bre_env \<Rightarrow> rule_ctx \<Rightarrow> rule_result option \<Rightarrow> bre_sys \<Rightarrow>
   (exn + rule_result) \<times> bre_sys" where
  "run_rules [] env ctx prev s =
     (Inr (case prev of None \<Rightarrow> verdict ''noop'' PASS | Some r \<Rightarrow> r), s)"
| "run_rules ((nm, rule) # rules) env ctx prev s =
    (case rule env ctx s of
       (Inl e, s1) \<Rightarrow> (Inl e, s1)
     | (Inr r, s1) \<Rightarrow>
        if rr_outcome r = REJECT then (Inr r, s1) else run_rules rules env ctx (Some r) s1)"

definition evaluate :: "(string \<times> rule_fn) list \<Rightarrow> rule_fn" where
  "evaluate rules env ctx s = run_rules rules env ctx None s"

text \<open>\<^verbatim>\<open>release\<close>: undo the marks in the order of the chain; the first failure ends it.\<close>

fun release_rules ::
  "(string \<times> rule_fn) list \<Rightarrow> bre_env \<Rightarrow> rule_ctx \<Rightarrow> bre_sys \<Rightarrow> exn option \<times> bre_sys" where
  "release_rules [] env ctx s = (None, s)"
| "release_rules ((nm, rule) # rules) env ctx s =
    (case (if nm = ''R3_anti_fatigue'' then anti_fatigue_release env ctx s
           else if nm = ''R4_frequency_gate'' then frequency_release env ctx s
           else (None, s)) of
       (Some e, s1) \<Rightarrow> (Some e, s1)
     | (None, s1) \<Rightarrow> release_rules rules env ctx s1)"

section \<open>Explanations write nothing\<close>

lemma run_pure [simp]: "pure_rule f env ctx s = (Inr (f ctx), s)"
  by (simp add: pure_rule_def)

lemma run_budget [simp]: "budget_rule env ctx s = (Inr (budget_reservation env ctx), s)"
  by (simp add: budget_rule_def)

lemma load_snapshot_redis [simp]: "br_redis (snd (load_snapshot env s)) = br_redis s"
  by (simp add: load_snapshot_def split: option.split sum.split rval.split json.split)

lemma ml_rate_cap_redis [simp]: "br_redis (snd (ml_rate_cap env ctx s)) = br_redis s"
  using load_snapshot_redis [of env s]
  by (auto simp: ml_rate_cap_def simp del: load_snapshot_redis split: prod.split option.split sum.split)

lemma explain_keeps_redis: "br_redis (snd (evaluate EXPLAIN_RULES env ctx s)) = br_redis s"
  using ml_rate_cap_redis [of env ctx s]
  by (auto simp: evaluate_def EXPLAIN_RULES_def simp del: ml_rate_cap_redis split: prod.split sum.split)

text \<open>The outcome of the chain is that of its last rule, R6, or a rejection on the way.\<close>

definition pure_ok :: "rule_ctx \<Rightarrow> bool" where
  "pure_ok ctx = (rr_outcome (category_exclusion ctx) \<noteq> REJECT \<and> rr_outcome (min_transaction ctx) \<noteq> REJECT)"

lemma explain_pass_iff:
  "(\<exists>r s1. evaluate EXPLAIN_RULES env ctx s = (Inr r, s1) \<and> rr_outcome r = PASS) \<longleftrightarrow>
   pure_ok ctx \<and> (\<exists>r s1. ml_rate_cap env ctx s = (Inr r, s1) \<and> rr_outcome r \<noteq> REJECT) \<and>
   rr_outcome (channel_applicability ctx) \<noteq> REJECT \<and> rr_outcome (budget_reservation env ctx) = PASS"
  by (cases "ml_rate_cap env ctx s"; cases "fst (ml_rate_cap env ctx s)")
    (auto simp: evaluate_def EXPLAIN_RULES_def pure_ok_def)

lemma default_pass_iff:
  "(\<exists>r s1. evaluate DEFAULT_RULES env ctx s = (Inr r, s1) \<and> rr_outcome r = PASS) \<longleftrightarrow>
   pure_ok ctx \<and> (\<exists>r s1. ml_rate_cap env ctx s = (Inr r, s1) \<and> rr_outcome r \<noteq> REJECT \<and>
     (\<exists>r3 s2. anti_fatigue env ctx s1 = (Inr r3, s2) \<and> rr_outcome r3 \<noteq> REJECT \<and>
       (\<exists>r4 s3. frequency_gate env ctx s2 = (Inr r4, s3) \<and> rr_outcome r4 \<noteq> REJECT))) \<and>
   rr_outcome (channel_applicability ctx) \<noteq> REJECT \<and> rr_outcome (budget_reservation env ctx) = PASS"
  by (auto simp: evaluate_def DEFAULT_RULES_def pure_ok_def split: prod.splits sum.splits if_splits)

definition passes :: "(string \<times> rule_fn) list \<Rightarrow> bre_env \<Rightarrow> rule_ctx \<Rightarrow> bre_sys \<Rightarrow> bool" where
  "passes rules env ctx s = (case fst (evaluate rules env ctx s) of Inl e \<Rightarrow> False | Inr r \<Rightarrow> rr_outcome r = PASS)"

lemma passes_iff: "passes rules env ctx s \<longleftrightarrow> (\<exists>r s1. evaluate rules env ctx s = (Inr r, s1) \<and> rr_outcome r = PASS)"
  by (cases "evaluate rules env ctx s"; cases "fst (evaluate rules env ctx s)") (simp_all add: passes_def)

text \<open>The explanation is the serving decision without its marks. The chain of \<^verbatim>\<open>/explain\<close> leaves Redis
  untouched, and a candidate passes the serving chain exactly when it passes the explaining one and
  neither the anti-fatigue rule nor the frequency gate objects to the contact.\<close>

theorem explain_matches_serving:
  "br_redis (snd (evaluate EXPLAIN_RULES env ctx s)) = br_redis s \<and>
   (passes DEFAULT_RULES env ctx s \<longleftrightarrow> passes EXPLAIN_RULES env ctx s \<and>
     (\<exists>r3 s2. anti_fatigue env ctx (snd (ml_rate_cap env ctx s)) = (Inr r3, s2) \<and> rr_outcome r3 \<noteq> REJECT \<and>
       (\<exists>r4 s3. frequency_gate env ctx s2 = (Inr r4, s3) \<and> rr_outcome r4 \<noteq> REJECT)))"
  unfolding passes_iff default_pass_iff explain_pass_iff
  by (auto simp: explain_keeps_redis)

section \<open>Taking the marks back\<close>

lemma shown_count_keys [simp]: "shown_key u c \<noteq> count_key v" "count_key v \<noteq> shown_key u c"
  by (simp_all add: shown_key_def count_key_def)

text \<open>The two marks of a passing candidate: without failures, on a Redis that answers.\<close>

definition quiet_redis :: "bre_env \<Rightarrow> bool" where
  "quiet_redis env = (be_redis env \<and> (\<forall>op. be_fault env op = None) \<and> 0 < be_ttl_days env)"

lemma anti_fatigue_pass:
  assumes "quiet_redis env" "rc_campaign_id ctx = Some cid" "anti_fatigue env ctx s = (Inr r, s1)"
    "rr_outcome r \<noteq> REJECT"
  shows "\<not> raw_truthy (kv_get (be_now env) (br_redis s) (shown_key (rc_user ctx) cid)) \<and>
    br_redis s1 = kv_setex (be_now env) (br_redis s) (shown_key (rc_user ctx) cid)
      (be_ttl_days env * 24 * 3600) (VJson (JInt 1))"
  using assms
  by (auto simp: anti_fatigue_def quiet_redis_def bre_get_def bre_setex_def Let_def verdict_def
      split: option.splits rval.splits if_splits)

lemma frequency_pass:
  assumes "quiet_redis env" "frequency_gate env ctx s = (Inr r, s1)" "rr_outcome r \<noteq> REJECT"
  shows "\<exists>n. raw_count (kv_get (be_now env) (br_redis s) (count_key (rc_user ctx))) = Inr n \<and> n < be_limit env \<and>
    br_redis s1 = kv_setex (be_now env) (br_redis s) (count_key (rc_user ctx)) COUNTER_TTL (VJson (JInt (n + 1)))"
  using assms
  by (auto simp: frequency_gate_def quiet_redis_def bre_get_def bre_setex_def verdict_def COUNTER_TTL_def
      split: option.splits rval.splits sum.splits if_splits)

lemma kv_get_setex:
  "kv_get now (kv_setex now s k ttl v) k' = (if k' = k then (if 0 < ttl then Some v else None) else kv_get now s k')"
  by (simp add: kv_get_def kv_setex_def kv_set_def second_us_def)

lemma kv_get_del: "kv_get now (kv_del s k) k' = (if k' = k then None else kv_get now s k')"
  by (simp add: kv_get_def kv_del_def)

text \<open>What a passing candidate leaves in Redis.\<close>

lemma serving_marks:
  assumes "quiet_redis env" "rc_campaign_id ctx = Some cid" "passes DEFAULT_RULES env ctx s"
  shows "\<exists>n. raw_count (kv_get (be_now env) (br_redis s) (count_key (rc_user ctx))) = Inr n \<and> n < be_limit env \<and>
    \<not> raw_truthy (kv_get (be_now env) (br_redis s) (shown_key (rc_user ctx) cid)) \<and>
    br_redis (snd (evaluate DEFAULT_RULES env ctx s)) =
      kv_setex (be_now env)
        (kv_setex (be_now env) (br_redis s) (shown_key (rc_user ctx) cid) (be_ttl_days env * 24 * 3600) (VJson (JInt 1)))
        (count_key (rc_user ctx)) COUNTER_TTL (VJson (JInt (n + 1)))"
proof -
  obtain r s1 r3 s2 r4 s3 where st: "ml_rate_cap env ctx s = (Inr r, s1)" "rr_outcome r \<noteq> REJECT"
      "anti_fatigue env ctx s1 = (Inr r3, s2)" "rr_outcome r3 \<noteq> REJECT"
      "frequency_gate env ctx s2 = (Inr r4, s3)" "rr_outcome r4 \<noteq> REJECT" "pure_ok ctx"
      "rr_outcome (channel_applicability ctx) \<noteq> REJECT" "rr_outcome (budget_reservation env ctx) = PASS"
    using assms(3) unfolding passes_iff default_pass_iff by blast
  have s1: "br_redis s1 = br_redis s" using ml_rate_cap_redis [of env ctx s] st(1) by simp
  have "snd (evaluate DEFAULT_RULES env ctx s) = s3"
    using st by (simp add: evaluate_def DEFAULT_RULES_def pure_ok_def)
  then show ?thesis
    using anti_fatigue_pass [OF assms(1,2) st(3,4)] frequency_pass [OF assms(1) st(5,6)] s1
    by (auto simp: kv_get_setex)
qed

lemma release_default:
  "release_rules DEFAULT_RULES env ctx s =
    (case anti_fatigue_release env ctx s of
       (Some e, s1) \<Rightarrow> (Some e, s1)
     | (None, s1) \<Rightarrow> frequency_release env ctx s1)"
  by (simp add: DEFAULT_RULES_def split: prod.split option.split)

text \<open>Releasing an offer undoes its marks. If a candidate passes the serving chain and is then not
  served, \<^verbatim>\<open>release\<close> leaves Redis, at that instant, as before the evaluation: the offer counts as not
  shown, the client's counter has its old value, and no other key is touched.\<close>

theorem release_undoes_marks:
  assumes "quiet_redis env" "rc_campaign_id ctx = Some cid" "passes DEFAULT_RULES env ctx s"
    and "kv_get (be_now env) (br_redis s) (shown_key (rc_user ctx) cid) \<noteq> Some (VBad [])"
    and "raw_count (kv_get (be_now env) (br_redis s) (count_key (rc_user ctx))) = Inr n" "0 \<le> n"
  shows "\<exists>s2. release_rules DEFAULT_RULES env ctx (snd (evaluate DEFAULT_RULES env ctx s)) = (None, s2) \<and>
    raw_count (kv_get (be_now env) (br_redis s2) (count_key (rc_user ctx))) = Inr n \<and>
    (\<forall>k. k \<noteq> count_key (rc_user ctx) \<longrightarrow> kv_get (be_now env) (br_redis s2) k = kv_get (be_now env) (br_redis s) k)"
proof -
  let ?now = "be_now env" and ?sk = "shown_key (rc_user ctx) cid" and ?ck = "count_key (rc_user ctx)"
  define s1 where "s1 = snd (evaluate DEFAULT_RULES env ctx s)"
  have marks: "br_redis s1 = kv_setex ?now (kv_setex ?now (br_redis s) ?sk (be_ttl_days env * 24 * 3600) (VJson (JInt 1)))
      ?ck COUNTER_TTL (VJson (JInt (n + 1)))"
    and unseen: "kv_get ?now (br_redis s) ?sk = None"
    using serving_marks [OF assms(1-3)] assms(4,5)
    by (auto simp: s1_def raw_truthy_def split: option.splits rval.splits)
  define s2 where "s2 = s1\<lparr>br_redis := kv_del (br_redis s1) ?sk\<rparr>"
  have after: "anti_fatigue_release env ctx s1 = (None, s2)"
    using assms(1,2) by (simp add: anti_fatigue_release_def bre_del_def quiet_redis_def s2_def)
  have get: "kv_get ?now (br_redis s2) k = (if k = ?ck then Some (VJson (JInt (n + 1))) else kv_get ?now (br_redis s) k)" for k
    by (simp add: s2_def marks kv_get_setex kv_get_del unseen COUNTER_TTL_def)
  then have read: "bre_get env ?ck s2 = Inr (Some (VJson (JInt (n + 1))))"
    using assms(1) by (simp add: bre_get_def quiet_redis_def)
  show ?thesis
  proof (cases "0 < n")
    case True
    then have "frequency_release env ctx s2 = (None, s2\<lparr>br_redis := kv_setex ?now (br_redis s2) ?ck COUNTER_TTL (VJson (JInt n))\<rparr>)"
      using assms(1) read by (simp add: frequency_release_def raw_int_def bre_setex_def quiet_redis_def COUNTER_TTL_def)
    then show ?thesis
      by (simp add: release_default s1_def [symmetric] after kv_get_setex get COUNTER_TTL_def raw_count_def raw_int_def)
  next
    case False
    then have "frequency_release env ctx s2 = (None, s2\<lparr>br_redis := kv_del (br_redis s2) ?ck\<rparr>)"
      using assms(1) read by (simp add: frequency_release_def raw_int_def bre_del_def quiet_redis_def)
    then show ?thesis using False assms(6)
      by (simp add: release_default s1_def [symmetric] after kv_get_del get raw_count_def)
  qed
qed

section \<open>A candidate the gate turns away\<close>

lemma seen_is_rejected:
  assumes "quiet_redis env" "rc_campaign_id ctx = Some cid"
    "raw_truthy (kv_get (be_now env) (br_redis s) (shown_key (rc_user ctx) cid))"
  shows "\<not> passes DEFAULT_RULES env ctx s"
proof -
  have "rr_outcome r3 = REJECT"
    if "br_redis s1 = br_redis s" "anti_fatigue env ctx s1 = (Inr r3, s2)" for s1 s2 r3
    using assms that
    by (auto simp: anti_fatigue_def bre_get_def quiet_redis_def Let_def verdict_def split: option.splits rval.splits)
  moreover have "br_redis s1 = br_redis s" if "ml_rate_cap env ctx s = (Inr r, s1)" for r s1
    using ml_rate_cap_redis [of env ctx s] that by simp
  ultimately show ?thesis
    unfolding passes_iff default_pass_iff by blast
qed

lemma gate_rejects:
  assumes "quiet_redis env" "raw_count (kv_get (be_now env) (br_redis s) (count_key (rc_user ctx))) = Inr n"
    "be_limit env \<le> n"
  shows "frequency_gate env ctx s = (Inr (verdict ''R4_frequency_gate'' REJECT), s)"
  using assms
  by (auto simp: frequency_gate_def bre_get_def quiet_redis_def raw_count_def raw_int_def split: option.splits rval.splits)

text \<open>The frequency gate hides what it turns away. The anti-fatigue rule runs before the gate and marks
  the campaign as shown, and nobody takes the mark back from a rejected candidate: once the client's
  daily limit is reached, a candidate not shown before is rejected by R4 and its mark stays, so that for
  \<open>be_ttl_days\<close> days no evaluation of the same client and campaign passes, although the client has
  never seen the offer.\<close>

theorem gated_offer_is_hidden:
  assumes "quiet_redis env" "rc_campaign_id ctx = Some cid" "pure_ok ctx"
    and "ml_rate_cap env ctx s = (Inr r, s1)" "rr_outcome r \<noteq> REJECT"
    and "kv_get (be_now env) (br_redis s) (shown_key (rc_user ctx) cid) = None"
    and "raw_count (kv_get (be_now env) (br_redis s) (count_key (rc_user ctx))) = Inr n" "be_limit env \<le> n"
    and "evaluate DEFAULT_RULES env ctx s = (v, s2)"
    and "quiet_redis env'" "be_now env' < be_now env + be_ttl_days env * 24 * 3600 * second_us"
    and "rc_user ctx' = rc_user ctx" "rc_campaign_id ctx' = Some cid"
    and "br_redis s3 (shown_key (rc_user ctx) cid) = br_redis s2 (shown_key (rc_user ctx) cid)"
  shows "v = Inr (verdict ''R4_frequency_gate'' REJECT) \<and> \<not> passes DEFAULT_RULES env' ctx' s3"
proof -
  let ?k = "shown_key (rc_user ctx) cid"
  have s1: "br_redis s1 = br_redis s" using ml_rate_cap_redis [of env ctx s] assms(4) by simp
  define m where "m = s1\<lparr>br_redis := kv_setex (be_now env) (br_redis s1) ?k (be_ttl_days env * 24 * 3600) (VJson (JInt 1))\<rparr>"
  have r3: "anti_fatigue env ctx s1 = (Inr (verdict ''R3_anti_fatigue'' PASS), m)"
    using assms(1,2,6) s1
    by (simp add: anti_fatigue_def bre_get_def bre_setex_def quiet_redis_def Let_def raw_truthy_def m_def)
  have "frequency_gate env ctx m = (Inr (verdict ''R4_frequency_gate'' REJECT), m)"
    by (rule gate_rejects [OF assms(1) _ assms(8)]) (simp add: m_def kv_get_setex s1 assms(7))
  then have ev: "evaluate DEFAULT_RULES env ctx s = (Inr (verdict ''R4_frequency_gate'' REJECT), m)"
    using assms(3-5) r3 by (simp add: evaluate_def DEFAULT_RULES_def pure_ok_def verdict_def)
  have "s2 = m" using ev assms(9) by simp
  then have "br_redis s3 ?k = Some (VJson (JInt 1), Some (be_now env + be_ttl_days env * 24 * 3600 * second_us))"
    using assms(14) by (simp add: m_def kv_setex_def kv_set_def)
  then have "kv_get (be_now env') (br_redis s3) ?k = Some (VJson (JInt 1))"
    using assms(11) by (simp add: kv_get_def)
  then show ?thesis
    using ev assms(9) seen_is_rejected [OF assms(10,13), of s3] assms(12) by (simp add: raw_truthy_def)
qed

section \<open>Instances\<close>

definition sample_bre_env :: bre_env where
  "sample_bre_env = \<lparr>be_redis = True, be_now = 50, be_mono = 50, be_fault = (\<lambda>_. None), be_ttl_days = 14,
     be_limit = 5, be_min_award = 1, be_float = (\<lambda>_. None)\<rparr>"

definition sample_row :: elig_row where
  "sample_row = \<lparr>el_id = 7, el_mcc = ''5411'', el_rate = 5, el_tiers = None, el_min = Some 100, el_channels = [],
     el_total = 1000, el_spent = 0, el_daily = None, el_today = 0, el_start = 0, el_end = 10 ^ 15, el_name = ''spring''\<rparr>"

definition sample_ctx :: rule_ctx where
  "sample_ctx = \<lparr>rc_user = ''u'', rc_mcc = ''5411'', rc_campaign_id = Some ''c'', rc_segment = Some 3, rc_amount = None,
     rc_channel = None, rc_excluded = [], rc_campaign = Some sample_row, rc_status = None\<rparr>"

definition sample_bre :: bre_sys where
  "sample_bre = \<lparr>br_redis = Map.empty, br_cache = None\<rparr>"

lemma fl_1000 [simp]: "fl 1000 = 1000"
  by (rule fl_exact [of _ 1000 0]) (simp_all add: pow2_def)

lemma sample_passes: "passes DEFAULT_RULES sample_bre_env sample_ctx sample_bre"
  by (simp add: passes_def evaluate_def DEFAULT_RULES_def category_exclusion_def min_transaction_def ml_rate_cap_def
      load_snapshot_def bre_get_def bre_setex_def kv_get_def anti_fatigue_def frequency_gate_def channel_applicability_def
      budget_reservation_def verdict_def raw_truthy_def raw_count_def sample_bre_env_def sample_ctx_def sample_row_def
      sample_bre_def COUNTER_TTL_def kv_setex_def kv_set_def count_key_def shown_key_def Let_def SNAPSHOT_KEY_def)

theorem release_undoes_marks_witness:
  "\<exists>s2. release_rules DEFAULT_RULES sample_bre_env sample_ctx (snd (evaluate DEFAULT_RULES sample_bre_env sample_ctx sample_bre)) =
      (None, s2) \<and>
    raw_count (kv_get 50 (br_redis s2) (count_key ''u'')) = Inr 0 \<and>
    (\<forall>k. k \<noteq> count_key ''u'' \<longrightarrow> kv_get 50 (br_redis s2) k = None)"
  using release_undoes_marks [OF _ _ sample_passes, of "''c''" 0]
  by (simp add: quiet_redis_def raw_count_def) (simp add: sample_bre_env_def sample_ctx_def sample_bre_def kv_get_def)

definition sample_gated :: bre_sys where
  "sample_gated = \<lparr>br_redis = [count_key ''u'' \<mapsto> (VJson (JInt 5), None)], br_cache = None\<rparr>"

lemma sample_pure: "pure_ok sample_ctx"
  by (simp add: pure_ok_def category_exclusion_def min_transaction_def verdict_def sample_ctx_def sample_row_def)

lemma sample_uncapped:
  "ml_rate_cap sample_bre_env sample_ctx sample_gated = (Inr (verdict ''R7_ml_rate_cap'' SKIP), sample_gated)"
  by (simp add: ml_rate_cap_def load_snapshot_def bre_get_def kv_get_def sample_bre_env_def sample_gated_def
      SNAPSHOT_KEY_def count_key_def)

theorem gated_offer_is_hidden_witness:
  "\<not> passes DEFAULT_RULES (sample_bre_env\<lparr>be_now := 86400000000, be_limit := 50\<rparr>) sample_ctx
      (snd (evaluate DEFAULT_RULES sample_bre_env sample_ctx sample_gated))"
  using gated_offer_is_hidden [OF _ _ sample_pure sample_uncapped _ _ _ _ surjective_pairing,
      where env' = "sample_bre_env\<lparr>be_now := 86400000000, be_limit := 50\<rparr>" and ctx' = sample_ctx and cid = "''c''" and n = 5]
  by (simp add: quiet_redis_def sample_bre_env_def sample_ctx_def sample_gated_def kv_get_def raw_count_def raw_int_def
      verdict_def second_us_def)

end
