(* ===== verification/Ranking.thy ===== *)
theory Ranking
  imports KvStore Bre
begin

text \<open>
  What the recommendation API ranks with: the feature store (\<^verbatim>\<open>feature_store.py\<close>), the retrieval of
  candidates (\<^verbatim>\<open>candidate_gen.py\<close>), the registry of loaded models with its holdout split
  (\<^verbatim>\<open>model_registry.py\<close>) and the helpers of \<^verbatim>\<open>api/recommendations.py\<close> that build the feature matrix
  and the explanation.

  FAISS, MLflow, LightGBM, SHAP and pandas are parameters: the index search of a generator, the
  registry's answers, the two functions of a model, and \<open>num\<close>, the number a cell of the matrix gets.
  \<open>md5\<close> gives the first 32 bits of the digest.
\<close>

section \<open>Feature store\<close>

record fs_env =
  fe_now :: time
  fe_get :: "exn option"
  fe_set :: "exn option"
  fe_ch :: "(string \<Rightarrow> exn + json option) option"
  fe_ttl :: int

definition features_key :: "string \<Rightarrow> string" where
  "features_key user = ''features:'' @ user"

definition from_redis :: "fs_env \<Rightarrow> string \<Rightarrow> store \<Rightarrow> json option" where
  "from_redis env user st =
    (case fe_get env of
       Some e \<Rightarrow> None
     | None \<Rightarrow>
        (case kv_get (fe_now env) st (features_key user) of
           Some (VJson v) \<Rightarrow> if v = JNull then None else Some v
         | _ \<Rightarrow> None))"

definition from_clickhouse :: "fs_env \<Rightarrow> string \<Rightarrow> json option" where
  "from_clickhouse env user = (case fe_ch env of None \<Rightarrow> None
     | Some query \<Rightarrow> (case query user of Inl e \<Rightarrow> None | Inr row \<Rightarrow> row))"

definition fs_get :: "fs_env \<Rightarrow> bool \<Rightarrow> string \<Rightarrow> store \<Rightarrow> json option \<times> store" where
  "fs_get env warm user st =
    (case from_redis env user st of
       Some v \<Rightarrow> (Some v, st)
     | None \<Rightarrow>
        (case from_clickhouse env user of
           None \<Rightarrow> (None, st)
         | Some row \<Rightarrow>
            if \<not> warm \<or> fe_set env \<noteq> None \<or> fe_ttl env \<le> 0 then (Some row, st)
            else (Some row, kv_setex (fe_now env) st (features_key user) (fe_ttl env) (VJson row))))"

section \<open>Candidates\<close>

definition POPULAR_FALLBACK :: "string list" where
  "POPULAR_FALLBACK = [''5411'', ''5812'', ''5541'', ''5912'', ''5732'', ''5311'', ''5814'', ''5651'', ''5921'', ''5942'',
     ''4111'', ''4121'', ''5462'', ''5499'', ''7011'', ''7832'', ''5611'', ''5641'', ''5722'', ''5712'']"

record generator =
  cg_loaded :: bool
  cg_users :: "string \<Rightarrow> nat option"
  cg_items :: "string list"
  cg_ntotal :: nat
  cg_search :: "nat \<Rightarrow> nat \<Rightarrow> int list"
  cg_popular :: "string list"

definition new_generator :: generator where
  "new_generator = \<lparr>cg_loaded = False, cg_users = Map.empty, cg_items = [], cg_ntotal = 0,
     cg_search = (\<lambda>_ _. []), cg_popular = POPULAR_FALLBACK\<rparr>"

text \<open>\<^verbatim>\<open>{u: i for i, u in enumerate(users)}\<close>: the last line of a user counts.\<close>

definition load_generator ::
  "string list \<Rightarrow> string list \<Rightarrow> nat \<Rightarrow> (nat \<Rightarrow> nat \<Rightarrow> int list) \<Rightarrow> generator \<Rightarrow> generator" where
  "load_generator user_lines items n search g =
     g\<lparr>cg_loaded := True, cg_users := map_of (rev (zip user_lines [0..<length user_lines])), cg_items := items,
       cg_ntotal := n, cg_search := search\<rparr>"

definition retrieve :: "generator \<Rightarrow> string \<Rightarrow> nat \<Rightarrow> string list" where
  "retrieve g user k =
    (if \<not> cg_loaded g then take k (cg_popular g)
     else case cg_users g user of
       None \<Rightarrow> take k (cg_popular g)
     | Some i \<Rightarrow> map (\<lambda>j. cg_items g ! nat j)
         (filter (\<lambda>j. 0 \<le> j \<and> j < int (length (cg_items g))) (cg_search g i (min k (cg_ntotal g)))))"

section \<open>Models\<close>

record lmodel =
  lm_version :: string
  lm_columns :: "string list"
  lm_proba :: "rat list list \<Rightarrow> exn + rat list"
  lm_shap :: "rat list list \<Rightarrow> exn + rat list list"
  lm_base :: rat

definition in_holdout :: "(string \<Rightarrow> nat) \<Rightarrow> string \<Rightarrow> rat \<Rightarrow> string \<Rightarrow> bool" where
  "in_holdout md5 user ratio salt =
    (if ratio \<le> 0 then False
     else fl (of_nat (md5 (salt @ ''|'' @ user)) / 4294967295) < ratio)"

record watcher =
  wt_loaded :: "lmodel option"
  wt_holdout :: "lmodel option"
  wt_enabled :: bool
  wt_ratio :: rat
  wt_salt :: string

definition get_for_user :: "(string \<Rightarrow> nat) \<Rightarrow> watcher \<Rightarrow> string \<Rightarrow> lmodel option \<times> string" where
  "get_for_user md5 w user =
    (if wt_enabled w \<and> wt_holdout w \<noteq> None \<and> in_holdout md5 user (wt_ratio w) (wt_salt w)
     then (wt_holdout w, ''holdout'') else (wt_loaded w, ''prod''))"

text \<open>The registry: the versions of a stage and the loading of one.\<close>

record registry =
  rg_stage :: "string \<Rightarrow> exn + string list"
  rg_load :: "string \<Rightarrow> exn + lmodel"

definition fetch_production :: "registry \<Rightarrow> exn + string option" where
  "fetch_production g = (case rg_stage g ''Production'' of Inl e \<Rightarrow> Inl e
     | Inr vs \<Rightarrow> Inr (case vs of [] \<Rightarrow> None | v # _ \<Rightarrow> Some v))"

text \<open>\<^verbatim>\<open>max(versions, key=lambda v: int(v.version))\<close>: the first of the greatest.\<close>

fun max_version :: "string list \<Rightarrow> exn + (int \<times> string) option" where
  "max_version [] = Inr None"
| "max_version (v # vs) =
    (case signed_digits (py_strip v) of
       None \<Rightarrow> Inl (py_error ''ValueError'')
     | Some n \<Rightarrow>
        (case max_version vs of
           Inl e \<Rightarrow> Inl e
         | Inr None \<Rightarrow> Inr (Some (n, v))
         | Inr (Some (m, u)) \<Rightarrow> Inr (Some (if n < m then (m, u) else (n, v)))))"

definition fetch_holdout :: "registry \<Rightarrow> exn + string option" where
  "fetch_holdout g = (case rg_stage g ''Archived'' of Inl e \<Rightarrow> Inl e
     | Inr vs \<Rightarrow> (case max_version vs of Inl e \<Rightarrow> Inl e | Inr r \<Rightarrow> Inr (map_option snd r)))"

definition refresh_holdout :: "registry \<Rightarrow> watcher \<Rightarrow> exn option \<times> watcher" where
  "refresh_holdout g w =
    (case fetch_holdout g of
       Inl e \<Rightarrow> (Some e, w)
     | Inr None \<Rightarrow> (None, w)
     | Inr (Some v) \<Rightarrow>
        if (case wt_holdout w of None \<Rightarrow> False | Some m \<Rightarrow> lm_version m = v) then (None, w)
        else (case rg_load g v of
            Inl e \<Rightarrow> (None, w)
          | Inr m \<Rightarrow> (None, w\<lparr>wt_holdout := Some m\<rparr>)))"

definition refresh :: "registry \<Rightarrow> watcher \<Rightarrow> exn option \<times> watcher" where
  "refresh g w =
    (let after = (\<lambda>w1. if wt_enabled w1 then refresh_holdout g w1 else (None, w1)) in
     case fetch_production g of
       Inl e \<Rightarrow> (Some e, w)
     | Inr None \<Rightarrow> after w
     | Inr (Some v) \<Rightarrow>
        if (case wt_loaded w of None \<Rightarrow> True | Some m \<Rightarrow> v \<noteq> lm_version m)
        then (case rg_load g v of Inl e \<Rightarrow> (Some e, w) | Inr m \<Rightarrow> after (w\<lparr>wt_loaded := Some m\<rparr>))
        else after w)"

text \<open>\<^verbatim>\<open>_loop\<close>: a failed refresh is logged and the next one follows.\<close>

definition watch :: "registry list \<Rightarrow> watcher \<Rightarrow> watcher" where
  "watch gs w = foldl (\<lambda>w1 g. snd (refresh g w1)) w gs"

section \<open>The feature matrix\<close>

definition mcc_int :: "string \<Rightarrow> int" where
  "mcc_int mcc = (case signed_digits (py_strip mcc) of None \<Rightarrow> 0 | Some i \<Rightarrow> i)"

definition build_feature_matrix ::
  "(json \<Rightarrow> rat) \<Rightarrow> (string \<times> json) list \<Rightarrow> string list \<Rightarrow> string list \<Rightarrow> rat list list" where
  "build_feature_matrix num features mccs cols =
     map (\<lambda>mcc. map (\<lambda>c. num (if c = ''mcc_code_int'' then JInt (mcc_int mcc)
        else case members features c of None \<Rightarrow> JInt 0 | Some v \<Rightarrow> v)) cols) mccs"

definition model_columns :: "lmodel \<Rightarrow> (string \<times> json) list \<Rightarrow> string list" where
  "model_columns m features =
     (if lm_columns m = [] then rev (remdups (rev (map fst features))) @ [''mcc_code_int''] else lm_columns m)"

section \<open>Explanations\<close>

definition shap_top5 :: "rat list \<Rightarrow> string list \<Rightarrow> (string \<times> rat) list" where
  "shap_top5 row cols =
     map (\<lambda>(k, v). (k, py_round 6 v)) (take 5 (sort_key (\<lambda>(k, v). - \<bar>v\<bar>) (zip cols row)))"

definition feature_values_for :: "(string \<times> rat) list \<Rightarrow> (string \<times> rat) list \<Rightarrow> (string \<times> rat) list" where
  "feature_values_for factors row =
     List.map_filter (\<lambda>(k, _). map_option (\<lambda>v. (k, py_round 4 v)) (map_of row k)) factors"

text \<open>\<^verbatim>\<open>_to_prob\<close>; \<open>sigmoid\<close> is the double \<^verbatim>\<open>1.0 / (1.0 + np.exp(-v))\<close>.\<close>

definition to_prob :: "(rat \<Rightarrow> rat) \<Rightarrow> rat \<Rightarrow> rat" where
  "to_prob sigmoid v = (let p = (if 0 \<le> v \<and> v \<le> 1 then v else sigmoid v) in
     max (fl (1 / 100)) (min (fl (99 / 100)) p))"

definition confidence :: "rat list \<Rightarrow> rat" where
  "confidence scores = (let margin = (case scores of a # b # _ \<Rightarrow> fl (a - b) | _ \<Rightarrow> fl (2 / 10)) in
     py_round 4 (max (fl (1 / 2)) (min (fl (99 / 100)) (fl (fl (1 / 2) + fl (margin * 2))))))"

definition expected_roi :: "rat \<Rightarrow> rat option \<Rightarrow> rat" where
  "expected_roi score rate =
    (let r = (case rate of None \<Rightarrow> 5 | Some x \<Rightarrow> if x = 0 then 5 else fl x);
         base = fl (fl (3 / 2) + fl (score * fl (7 / 2))) in
     py_round 1 (fl (base * fl (5 / max r 5))))"

datatype strength = STRONG | MODERATE | SLIGHT

definition interpretation_of :: "rat \<Rightarrow> strength \<times> bool" where
  "interpretation_of v =
    ((if fl (1 / 10) \<le> \<bar>v\<bar> then STRONG else if fl (3 / 100) \<le> \<bar>v\<bar> then MODERATE else SLIGHT), 0 \<le> v)"

text \<open>The numbers of \<^verbatim>\<open>_rationale\<close>: percent, whether the raising factors prevail, how many there are.\<close>

definition rationale :: "rat \<Rightarrow> (string \<times> rat) list \<Rightarrow> int \<times> bool \<times> nat" where
  "rationale score factors =
    (let pos = length (filter (\<lambda>(_, v). 0 < v) factors); neg = length factors - pos in
     (half_even (fl (score * 100)), neg \<le> pos, length factors))"

section \<open>Facts\<close>

lemma fs_get_cold: "snd (fs_get env False user st) = st"
  by (simp add: fs_get_def split: option.split)

lemma fs_get_other: "k \<noteq> features_key user \<Longrightarrow> kv_get now (snd (fs_get env warm user st)) k = kv_get now st k"
  by (simp add: fs_get_def kv_setex_def kv.get_put_other split: option.split)

lemma retrieve_in_items: "cg_loaded g \<Longrightarrow> cg_users g user = Some i \<Longrightarrow> m \<in> set (retrieve g user k) \<Longrightarrow> m \<in> set (cg_items g)"
  by (auto simp: retrieve_def nat_less_iff)

lemma refresh_holdout_loaded [simp]: "wt_loaded (snd (refresh_holdout g w)) = wt_loaded w"
  by (simp add: refresh_holdout_def split: sum.split option.split)

lemma refresh_keeps_loaded: "wt_loaded w \<noteq> None \<Longrightarrow> wt_loaded (snd (refresh g w)) \<noteq> None"
  by (auto simp: refresh_def Let_def split: sum.split option.split)

lemma watch_keeps_loaded: "wt_loaded w \<noteq> None \<Longrightarrow> wt_loaded (watch gs w) \<noteq> None"
  unfolding watch_def by (induction gs arbitrary: w) (simp_all add: refresh_keeps_loaded del: not_None_eq)

lemma get_for_user_serves: "wt_loaded w \<noteq> None \<Longrightarrow> fst (get_for_user md5 w user) \<noteq> None"
  by (simp add: get_for_user_def)

text \<open>A model once loaded keeps serving. After any sequence of registry polls, with failures,
  withdrawn versions and broken artefacts among them, every client is served by a loaded model: the
  production model, or, for a client of the holdout share, the predecessor when one is loaded.\<close>

theorem ranking_keeps_serving:
  assumes "wt_loaded w \<noteq> None"
  shows "\<exists>m group. get_for_user md5 (watch gs w) user = (Some m, group) \<and>
    (group = ''prod'' \<longrightarrow> wt_loaded (watch gs w) = Some m) \<and>
    (group = ''holdout'' \<longrightarrow> wt_holdout (watch gs w) = Some m \<and> in_holdout md5 user (wt_ratio (watch gs w)) (wt_salt (watch gs w)))"
  using watch_keeps_loaded [OF assms, of gs] by (auto simp: get_for_user_def)

definition sample_model :: lmodel where
  "sample_model = \<lparr>lm_version = ''7'', lm_columns = [''mcc_code_int''],
     lm_proba = (\<lambda>x. Inr (map (\<lambda>_. 1 / 2) x)), lm_shap = (\<lambda>x. Inr (map (\<lambda>_. [1 / 4]) x)), lm_base = 1 / 4\<rparr>"

definition sample_watcher :: watcher where
  "sample_watcher = \<lparr>wt_loaded = Some sample_model, wt_holdout = None, wt_enabled = True, wt_ratio = 1 / 20,
     wt_salt = ''cashback-holdout-v1''\<rparr>"

definition broken_registry :: registry where
  "broken_registry = \<lparr>rg_stage = (\<lambda>st. if st = ''Production'' then Inr [''8''] else Inl (py_error ''MlflowException'')),
     rg_load = (\<lambda>_. Inl (py_error ''MlflowException''))\<rparr>"

lemma sample_watch: "watch [broken_registry, broken_registry] sample_watcher = sample_watcher"
proof -
  have "rg_stage broken_registry ''Production'' = Inr [''8'']" "rg_load broken_registry v = Inl (py_error ''MlflowException'')" for v
    by (simp_all add: broken_registry_def)
  moreover have "wt_loaded sample_watcher = Some sample_model" "lm_version sample_model = ''7''"
    by (simp_all add: sample_watcher_def sample_model_def)
  ultimately show ?thesis by (simp add: watch_def refresh_def fetch_production_def)
qed

theorem ranking_keeps_serving_witness:
  "get_for_user (\<lambda>_. 0) (watch [broken_registry, broken_registry] sample_watcher) ''u'' = (Some sample_model, ''prod'')"
proof -
  have l: "wt_loaded sample_watcher = Some sample_model" "wt_holdout sample_watcher = None"
    by (simp_all add: sample_watcher_def)
  then obtain m group where "get_for_user (\<lambda>_. 0) (watch [broken_registry, broken_registry] sample_watcher) ''u'' = (Some m, group)"
    "group = ''prod'' \<longrightarrow> wt_loaded (watch [broken_registry, broken_registry] sample_watcher) = Some m"
    using ranking_keeps_serving [of sample_watcher "\<lambda>_. 0" "[broken_registry, broken_registry]" "''u''"] by auto
  with l show ?thesis unfolding sample_watch by (auto simp: get_for_user_def)
qed

end
