(* ===== verification/Recommend.thy ===== *)
theory Recommend
  imports Ranking Campaigns "HOL-Library.Sublist"
begin

text \<open>
  The two routes of the recommendation API (\<^verbatim>\<open>services/recommendation_api/app/api/recommendations.py\<close>):
  \<^verbatim>\<open>GET /recommendations/{user}\<close>, which serves, stores and announces offers, and its read-only twin
  \<^verbatim>\<open>/explain\<close>. Both run \<open>recommend\<close>: features, candidates, ranking, the best campaign
  \<^verbatim>\<open>eligible_campaigns\<close> grants the client per category, and the business rules.

  \<open>rec_env\<close> says what happens around one call: failures of its statements, what other transactions
  commit before each (\<open>re_world\<close>), the clocks (\<open>re_now\<close> and \<open>re_stored\<close> of the two transactions), fresh ids, \<^verbatim>\<open>numpy.argsort\<close> (\<open>re_order\<close>), the
  reading of a text as a Postgres UUID and the rounding of \<^verbatim>\<open>real\<close>. The rules run in \<open>re_bre\<close>, the release
  of their marks in \<open>re_release\<close>.
\<close>

datatype rec_stmt = RFetch | RInsert nat | RStore

record rec_env =
  re_fs :: fs_env
  re_bre :: bre_env
  re_release :: bre_env
  re_fault :: "rec_stmt \<Rightarrow> exn option"
  re_world :: "rec_stmt \<Rightarrow> db \<Rightarrow> db"
  re_applied :: bool
  re_now :: time
  re_stored :: time
  re_clock :: time
  re_fresh :: "nat \<Rightarrow> uuid"
  re_uuid :: "string \<Rightarrow> uuid option"
  re_real :: "rat \<Rightarrow> rat"
  re_md5 :: "string \<Rightarrow> nat"
  re_num :: "json \<Rightarrow> rat"
  re_order :: "rat list \<Rightarrow> nat list"
  re_candidates :: nat
  re_ttl_days :: int
  re_kafka :: bool
  re_send :: "nat \<Rightarrow> exn option"
  re_isof :: "time \<Rightarrow> string"

record rec_item =
  it_mcc :: string
  it_score :: rat
  it_campaign :: uuid
  it_rec :: "uuid option"
  it_expires :: "time option"
  it_factors :: "(string \<times> rat) list"
  it_values :: "(string \<times> rat) list"

record rec_response =
  rp_user :: string
  rp_items :: "rec_item list"
  rp_version :: "string option"
  rp_considered :: nat
  rp_group :: string
  rp_base :: rat
  rp_confidence :: rat
  rp_roi :: "rat option"
  rp_rationale :: "(int \<times> bool \<times> nat) option"
  rp_alt :: "(string \<times> int) list"
  rp_meaning :: "(string \<times> strength \<times> bool) list"

text \<open>The process and what it writes to: the database with the column \<^verbatim>\<open>model_version\<close> of its
  recommendations, Redis (in \<open>rs_bre\<close>, beside the cached ML limits), and the topic.\<close>

record rec_sys =
  rs_db :: db
  rs_version :: "uuid \<Rightarrow> string option"
  rs_bre :: bre_sys
  rs_topic :: "(string \<times> json) list"

record rec_request =
  rq_user :: string
  rq_top_k :: nat
  rq_amount :: "rat option"
  rq_channel :: "string option"

section \<open>The campaign of a candidate\<close>

definition best_eligible :: "rec_env \<Rightarrow> db \<Rightarrow> uuid \<Rightarrow> string \<Rightarrow> elig_row option" where
  "best_eligible env d uid mcc =
    (case eligible_campaigns (re_now env) d uid mcc None (re_clock env) of [] \<Rightarrow> None | r # _ \<Rightarrow> Some r)"

fun campaign_map :: "rec_env \<Rightarrow> db \<Rightarrow> uuid \<Rightarrow> string list \<Rightarrow> (string \<Rightarrow> elig_row option) \<Rightarrow> string \<Rightarrow> elig_row option" where
  "campaign_map env d uid [] acc = acc"
| "campaign_map env d uid (m # ms) acc =
    campaign_map env d uid ms
      (case best_eligible env d uid m of None \<Rightarrow> acc | Some r \<Rightarrow> acc(py_strip m \<mapsto> r))"

definition fetch_campaigns ::
  "rec_env \<Rightarrow> string \<Rightarrow> string list \<Rightarrow> db \<Rightarrow> (string \<Rightarrow> elig_row option) \<times> db" where
  "fetch_campaigns env user mccs d =
    (if mccs = [] then (Map.empty, d)
     else let d1 = re_world env RFetch d in
       (case (re_fault env RFetch, re_uuid env user) of
          (None, Some uid) \<Rightarrow> (campaign_map env d1 uid mccs Map.empty, d1)
        | _ \<Rightarrow> (Map.empty, d1)))"

section \<open>Ranking and rules\<close>

text \<open>\<^verbatim>\<open>int(features["segment_id"])\<close>, where the key is there and not null.\<close>

definition segment_of :: "(string \<times> json) list \<Rightarrow> exn + int option" where
  "segment_of features =
    (case jget features ''segment_id'' of
       JNull \<Rightarrow> Inr None
     | JInt i \<Rightarrow> Inr (Some i)
     | JBool b \<Rightarrow> Inr (Some (if b then 1 else 0))
     | JFloat r \<Rightarrow> Inr (Some (if r < 0 then - \<lfloor>- r\<rfloor> else \<lfloor>r\<rfloor>))
     | JStr t \<Rightarrow> (case signed_digits (py_strip t) of Some i \<Rightarrow> Inr (Some i) | None \<Rightarrow> Inl (py_error ''ValueError''))
     | _ \<Rightarrow> Inl (py_error ''TypeError''))"

definition candidate_ctx :: "rec_request \<Rightarrow> string \<Rightarrow> elig_row \<Rightarrow> int option \<Rightarrow> rule_ctx" where
  "candidate_ctx rq mcc c seg =
     \<lparr>rc_user = rq_user rq, rc_mcc = mcc, rc_campaign_id = Some (uuid_text (el_id c)), rc_segment = seg,
      rc_amount = rq_amount rq, rc_channel = rq_channel rq, rc_excluded = [], rc_campaign = Some c, rc_status = None\<rparr>"

record ranked =
  rk_mccs :: "string list"
  rk_cols :: "string list"
  rk_matrix :: "rat list list"
  rk_scores :: "rat list"
  rk_shap :: "rat list list"

definition offer_item :: "ranked \<Rightarrow> nat \<Rightarrow> elig_row \<Rightarrow> rec_item" where
  "offer_item rk i c =
    (let factors = shap_top5 (rk_shap rk ! i) (rk_cols rk) in
     \<lparr>it_mcc = rk_mccs rk ! i, it_score = rk_scores rk ! i, it_campaign = el_id c, it_rec = None,
      it_expires = None, it_factors = factors,
      it_values = feature_values_for factors (zip (rk_cols rk) (rk_matrix rk ! i))\<rparr>)"

fun rec_loop ::
  "bre_env \<Rightarrow> (string \<times> rule_fn) list \<Rightarrow> rec_request \<Rightarrow> (string \<times> json) list \<Rightarrow> ranked \<Rightarrow>
   (string \<Rightarrow> elig_row option) \<Rightarrow> nat list \<Rightarrow> rec_item list \<Rightarrow> nat \<Rightarrow> bre_sys \<Rightarrow>
   (exn + rec_item list \<times> nat) \<times> bre_sys" where
  "rec_loop benv rules rq features rk camps [] acc n b = (Inr (acc, n), b)"
| "rec_loop benv rules rq features rk camps (i # is) acc n b =
    (case camps (rk_mccs rk ! i) of
       None \<Rightarrow> rec_loop benv rules rq features rk camps is acc (n + 1) b
     | Some c \<Rightarrow>
        (case segment_of features of
           Inl e \<Rightarrow> (Inl e, b)
         | Inr seg \<Rightarrow>
            (case evaluate rules benv (candidate_ctx rq (rk_mccs rk ! i) c seg) b of
               (Inl e, b1) \<Rightarrow> (Inl e, b1)
             | (Inr v, b1) \<Rightarrow>
                if rr_outcome v \<noteq> PASS then rec_loop benv rules rq features rk camps is acc (n + 1) b1
                else if rq_top_k rq \<le> length (acc @ [offer_item rk i c])
                then (Inr (acc @ [offer_item rk i c], n + 1), b1)
                else rec_loop benv rules rq features rk camps is (acc @ [offer_item rk i c]) (n + 1) b1)))"

definition extended ::
  "(rat \<Rightarrow> rat) \<Rightarrow> lmodel \<Rightarrow> (string \<Rightarrow> elig_row option) \<Rightarrow> rec_response \<Rightarrow> rec_response" where
  "extended sigmoid m camps r =
    (case rp_items r of
       [] \<Rightarrow> r
     | top1 # rest \<Rightarrow>
        r\<lparr>rp_base := to_prob sigmoid (lm_base m), rp_confidence := confidence (map it_score (rp_items r)),
          rp_roi := Some (expected_roi (it_score top1) (map_option el_rate (camps (it_mcc top1)))),
          rp_rationale := Some (rationale (it_score top1) (it_factors top1)),
          rp_alt := map (\<lambda>it. (it_mcc it, half_even (fl (it_score it * 100)))) (take 3 rest),
          rp_meaning := map (\<lambda>(k, v). (k, interpretation_of v)) (it_factors top1)\<rparr>)"

definition bare_response :: "string \<Rightarrow> string option \<Rightarrow> rec_response" where
  "bare_response user version =
     \<lparr>rp_user = user, rp_items = [], rp_version = version, rp_considered = 0, rp_group = ''prod'', rp_base = 0,
      rp_confidence = 0, rp_roi = None, rp_rationale = None, rp_alt = [], rp_meaning = []\<rparr>"

definition on_redis :: "(store \<Rightarrow> 'a \<times> store) \<Rightarrow> bre_sys \<Rightarrow> 'a \<times> bre_sys" where
  "on_redis f b = (let (x, st) = f (br_redis b) in (x, b\<lparr>br_redis := st\<rparr>))"

text \<open>The scores and the matrix behind them.\<close>

definition rank_candidates ::
  "rec_env \<Rightarrow> lmodel \<Rightarrow> (string \<times> json) list \<Rightarrow> string list \<Rightarrow> exn + ranked" where
  "rank_candidates env m features mccs =
    (let cols = model_columns m features;
         x = build_feature_matrix (re_num env) features mccs cols in
     opt_error (lm_proba m x) (\<lambda>p. opt_error (lm_shap m x) (\<lambda>sh.
       Inr \<lparr>rk_mccs = mccs, rk_cols = cols, rk_matrix = x, rk_scores = p, rk_shap = sh\<rparr>)))"

definition recommend ::
  "rec_env \<Rightarrow> (rat \<Rightarrow> rat) \<Rightarrow> generator \<Rightarrow> watcher \<Rightarrow> (string \<times> rule_fn) list \<Rightarrow> bool \<Rightarrow> rec_request \<Rightarrow> rec_sys \<Rightarrow>
   (rec_response \<times> (string \<Rightarrow> elig_row option)) answer \<times> rec_sys" where
  "recommend env sigmoid g w rules warm rq s =
    (let (found, b1) = on_redis (fs_get (re_fs env) warm (rq_user rq)) (rs_bre s);
         s1 = s\<lparr>rs_bre := b1\<rparr>;
         mccs = retrieve g (rq_user rq) (re_candidates env) in
     case found of
       None \<Rightarrow> (Reject 404, s1)
     | Some fs \<Rightarrow>
        if mccs = [] then (Reply (bare_response (rq_user rq) (map_option lm_version (wt_loaded w)), Map.empty), s1)
        else (case get_for_user (re_md5 env) w (rq_user rq) of
            (None, _) \<Rightarrow> (Reject 503, s1)
          | (Some m, grp) \<Rightarrow>
             (case fs of
                JObj features \<Rightarrow>
                  (case rank_candidates env m features mccs of
                     Inl e \<Rightarrow> (Crash e, s1)
                   | Inr rk \<Rightarrow>
                      (let (camps, d1) = fetch_campaigns env (rq_user rq) mccs (rs_db s1) in
                       case rec_loop (re_bre env) rules rq features rk camps (re_order env (rk_scores rk)) [] 0 b1 of
                         (Inl e, b2) \<Rightarrow> (Crash e, s1\<lparr>rs_db := d1, rs_bre := b2\<rparr>)
                       | (Inr (items, n), b2) \<Rightarrow>
                          (Reply (extended sigmoid m camps
                             ((bare_response (rq_user rq) (Some (lm_version m)))\<lparr>rp_items := items,
                                rp_considered := n, rp_group := grp\<rparr>), camps),
                           s1\<lparr>rs_db := d1, rs_bre := b2\<rparr>)))
              | _ \<Rightarrow> (Crash (py_error ''AttributeError''), s1))))"

section \<open>Storing the offers\<close>

definition offer_row :: "rec_env \<Rightarrow> uuid \<Rightarrow> uuid \<Rightarrow> campaign_row \<Rightarrow> rec_item \<Rightarrow> string \<Rightarrow> rec_row" where
  "offer_row env rid uid c it mcc =
     \<lparr>re_id = rid, re_user = uid, re_campaign = ca_id c, re_mcc = mcc, re_score = re_real env (it_score it),
      re_generated = re_stored env, re_status = RS_PENDING,
      re_expires = min (ca_end c) (re_stored env + re_ttl_days env * day_us), re_responded = None, re_channel = None\<rparr>"

text \<open>The inserts of one transaction: \<open>d\<close> is what is committed, \<open>own\<close> the rows it has inserted.\<close>

fun persist_items ::
  "rec_env \<Rightarrow> uuid \<Rightarrow> nat \<Rightarrow> rec_item list \<Rightarrow> db \<Rightarrow> rec_row list \<Rightarrow> rec_item list \<Rightarrow>
   (exn + rec_row list \<times> rec_item list) \<times> db" where
  "persist_items env uid k [] d own out = (Inr (own, out), d)"
| "persist_items env uid k (it # its) d own out =
    (let d1 = re_world env (RInsert k) d; rid = re_fresh env k in
     case re_fault env (RInsert k) of
       Some e \<Rightarrow> (Inl e, d1)
     | None \<Rightarrow>
        (case find_by ca_id (it_campaign it) (campaigns d1) of
           None \<Rightarrow> persist_items env uid (k + 1) its d1 own out
         | Some c \<Rightarrow>
            (case store_char4 (it_mcc it) of
               None \<Rightarrow> (Inl (pg_error ''22001''), d1)
             | Some mcc \<Rightarrow>
                if find_by us_id uid (users d1) = None then (Inl (pg_error ''23503''), d1)
                else if rid \<in> re_id ` set (recs d1 @ own) then (Inl (pg_error ''23505''), d1)
                else (let r = offer_row env rid uid c it mcc in
                  persist_items env uid (k + 1) its d1 (own @ [r])
                    (out @ [it\<lparr>it_rec := Some rid, it_expires := Some (re_expires r)\<rparr>])))))"

definition store_offers :: "string option \<Rightarrow> rec_row list \<Rightarrow> rec_sys \<Rightarrow> rec_sys" where
  "store_offers version rows s =
     s\<lparr>rs_db := (rs_db s)\<lparr>recs := recs (rs_db s) @ rows\<rparr>,
       rs_version := (\<lambda>u. if u \<in> re_id ` set rows then version else rs_version s u)\<rparr>"

definition persist_offers ::
  "rec_env \<Rightarrow> string \<Rightarrow> rec_item list \<Rightarrow> string option \<Rightarrow> rec_sys \<Rightarrow> rec_item list answer \<times> rec_sys" where
  "persist_offers env user items version s =
    (if items = [] then (Reply [], s)
     else case re_uuid env user of
       None \<Rightarrow> (Reject 503, s)
     | Some uid \<Rightarrow>
        (case persist_items env uid 0 items (rs_db s) [] [] of
           (Inl e, d1) \<Rightarrow> (Reject 503, s\<lparr>rs_db := d1\<rparr>)
         | (Inr (rows, out), d1) \<Rightarrow>
            (let s2 = s\<lparr>rs_db := re_world env RStore d1\<rparr> in
             case re_fault env RStore of
               Some e \<Rightarrow> (Reject 503, if re_applied env then store_offers version rows s2 else s2)
             | None \<Rightarrow> (Reply out, store_offers version rows s2))))"

section \<open>After the answer is known\<close>

definition unserved_ctx :: "string \<Rightarrow> rec_item \<Rightarrow> rule_ctx" where
  "unserved_ctx user it =
     \<lparr>rc_user = user, rc_mcc = it_mcc it, rc_campaign_id = Some (uuid_text (it_campaign it)), rc_segment = None,
      rc_amount = None, rc_channel = None, rc_excluded = [], rc_campaign = None, rc_status = None\<rparr>"

definition release_unserved :: "rec_env \<Rightarrow> string \<Rightarrow> rec_item list \<Rightarrow> bre_sys \<Rightarrow> bre_sys" where
  "release_unserved env user items b =
     foldl (\<lambda>b1 it. snd (release_rules DEFAULT_RULES (re_release env) (unserved_ctx user it) b1)) b items"

definition created_payload ::
  "rec_env \<Rightarrow> string \<Rightarrow> string option \<Rightarrow> elig_row \<Rightarrow> rec_item \<Rightarrow> json" where
  "created_payload env user version c it =
     JObj [(''recommendation_id'', case it_rec it of None \<Rightarrow> JNull | Some r \<Rightarrow> JStr (uuid_text r)),
       (''user_id'', JStr user), (''mcc_code'', JStr (it_mcc it)),
       (''campaign_id'', JStr (uuid_text (it_campaign it))), (''score'', JFloat (it_score it)),
       (''cashback_rate'', JFloat (fl (el_rate c))), (''campaign_name'', JStr (el_name c)),
       (''model_version'', case version of None \<Rightarrow> JNull | Some v \<Rightarrow> JStr v),
       (''generated_at'', JStr (re_isof env (re_stored env))),
       (''expires_at'', case it_expires it of None \<Rightarrow> JNull | Some t \<Rightarrow> JStr (re_isof env t)),
       (''preferences'', JObj [(''allowed_channels'', JArr [JStr ''push'', JStr ''in_app'', JStr ''email''])])]"

fun emit_created ::
  "rec_env \<Rightarrow> string \<Rightarrow> (string \<Rightarrow> elig_row option) \<Rightarrow> string option \<Rightarrow> nat \<Rightarrow> rec_item list \<Rightarrow>
   (string \<times> json) list \<Rightarrow> exn option \<times> (string \<times> json) list" where
  "emit_created env user camps version k [] topic = (None, topic)"
| "emit_created env user camps version k (it # its) topic =
    (case camps (it_mcc it) of
       None \<Rightarrow> (Some (py_error ''KeyError''), topic)
     | Some c \<Rightarrow> emit_created env user camps version (k + 1) its
         (if re_send env k = None then topic @ [(user, created_payload env user version c it)] else topic))"

definition request_ok :: "rec_request \<Rightarrow> bool" where
  "request_ok rq = (1 \<le> rq_top_k rq \<and> rq_top_k rq \<le> 20 \<and> opt_ok (\<lambda>a. 0 \<le> a) (rq_amount rq) \<and>
     opt_ok (\<lambda>c. c \<in> set [''ONLINE'', ''POS'', ''ATM'', ''MOBILE'']) (rq_channel rq))"

definition offer_pair :: "rec_item \<Rightarrow> string \<times> uuid" where
  "offer_pair it = (it_mcc it, it_campaign it)"

definition get_recommendations ::
  "rec_env \<Rightarrow> (rat \<Rightarrow> rat) \<Rightarrow> generator \<Rightarrow> watcher \<Rightarrow> rec_request \<Rightarrow> rec_sys \<Rightarrow> rec_response answer \<times> rec_sys" where
  "get_recommendations env sigmoid g w rq s =
    (if \<not> request_ok rq then (Reject 422, s)
     else case recommend env sigmoid g w DEFAULT_RULES True rq s of
       (Crash e, s1) \<Rightarrow> (Crash e, s1)
     | (Reject n, s1) \<Rightarrow> (Reject n, s1)
     | (Reply (resp, camps), s1) \<Rightarrow>
        (case persist_offers env (rq_user rq) (rp_items resp) (rp_version resp) s1 of
           (Crash e, s2) \<Rightarrow> (Crash e, s2)
         | (Reject n, s2) \<Rightarrow>
             (Reject n, s2\<lparr>rs_bre := release_unserved env (rq_user rq) (rp_items resp) (rs_bre s2)\<rparr>)
         | (Reply served, s2) \<Rightarrow>
            (let missed = filter (\<lambda>it. offer_pair it \<notin> set (map offer_pair served)) (rp_items resp);
                 s3 = s2\<lparr>rs_bre := release_unserved env (rq_user rq) missed (rs_bre s2)\<rparr> in
             if \<not> re_kafka env \<or> served = [] then (Reply (resp\<lparr>rp_items := served\<rparr>), s3)
             else (case emit_created env (rq_user rq) camps (rp_version resp) 0 served (rs_topic s3) of
                 (Some e, tp) \<Rightarrow> (Crash e, s3\<lparr>rs_topic := tp\<rparr>)
               | (None, tp) \<Rightarrow> (Reply (resp\<lparr>rp_items := served\<rparr>), s3\<lparr>rs_topic := tp\<rparr>)))))"

definition explain_recommendations ::
  "rec_env \<Rightarrow> (rat \<Rightarrow> rat) \<Rightarrow> generator \<Rightarrow> watcher \<Rightarrow> string \<Rightarrow> nat \<Rightarrow> rec_sys \<Rightarrow> rec_response answer \<times> rec_sys" where
  "explain_recommendations env sigmoid g w user k s =
    (let rq = \<lparr>rq_user = user, rq_top_k = k, rq_amount = None, rq_channel = None\<rparr> in
     if \<not> request_ok rq then (Reject 422, s)
     else case recommend env sigmoid g w EXPLAIN_RULES False rq s of
       (Reply (resp, camps), s1) \<Rightarrow> (Reply resp, s1)
     | (Reject n, s1) \<Rightarrow> (Reject n, s1)
     | (Crash e, s1) \<Rightarrow> (Crash e, s1))"

section \<open>The loop\<close>

lemma rec_loop_picks:
  assumes "rec_loop benv rules rq features rk camps is acc n b = (Inr (items, m), b')" "length acc < rq_top_k rq"
  shows "\<exists>js. subseq js is \<and> items = acc @ map (\<lambda>i. offer_item rk i (the (camps (rk_mccs rk ! i)))) js \<and>
    (\<forall>i \<in> set js. camps (rk_mccs rk ! i) \<noteq> None) \<and> length items \<le> rq_top_k rq"
  using assms
proof (induction "is" arbitrary: acc n b)
  case Nil
  then show ?case by (intro exI [of _ "[]"]) auto
next
  case (Cons i "is")
  have skip: "\<exists>js. subseq js (i # is) \<and> items = acc @ map (\<lambda>i. offer_item rk i (the (camps (rk_mccs rk ! i)))) js \<and>
    (\<forall>i \<in> set js. camps (rk_mccs rk ! i) \<noteq> None) \<and> length items \<le> rq_top_k rq"
    if "rec_loop benv rules rq features rk camps is acc (n + 1) b1 = (Inr (items, m), b')" for b1
    using Cons.IH [OF that Cons.prems(2)] by blast
  show ?case
  proof (cases "camps (rk_mccs rk ! i)")
    case None
    with Cons.prems skip show ?thesis by simp
  next
    case (Some c)
    obtain seg v b1 where ev: "segment_of features = Inr seg"
      "evaluate rules benv (candidate_ctx rq (rk_mccs rk ! i) c seg) b = (Inr v, b1)"
      using Cons.prems(1) Some by (auto split: sum.splits prod.splits)
    show ?thesis
    proof (cases "rr_outcome v = PASS")
      case False
      with Cons.prems Some ev skip show ?thesis by simp
    next
      case True
      let ?acc = "acc @ [offer_item rk i c]"
      show ?thesis
      proof (cases "rq_top_k rq \<le> length ?acc")
        case full: True
        then have "items = ?acc" using Cons.prems(1) Some ev True by simp
        then show ?thesis using Some full Cons.prems(2)
          by (intro exI [of _ "[i]"]) (auto simp: subseq_singleton_left)
      next
        case False
        then have rest: "rec_loop benv rules rq features rk camps is ?acc (n + 1) b1 = (Inr (items, m), b')"
          using Cons.prems(1) Some ev True by simp
        have short: "length ?acc < rq_top_k rq" using False by (simp only: not_le)
        obtain js where "subseq js is" "items = ?acc @ map (\<lambda>i. offer_item rk i (the (camps (rk_mccs rk ! i)))) js"
          "\<forall>i \<in> set js. camps (rk_mccs rk ! i) \<noteq> None" "length items \<le> rq_top_k rq"
          using Cons.IH [OF rest short] by blast
        then show ?thesis using Some by (intro exI [of _ "i # js"]) auto
      qed
    qed
  qed
qed

text \<open>The client's counter over one evaluation and over the loop.\<close>

abbreviation seen_today :: "bre_env \<Rightarrow> string \<Rightarrow> bre_sys \<Rightarrow> exn + int" where
  "seen_today benv user b \<equiv> raw_count (kv_get (be_now benv) (br_redis b) (count_key user))"

lemma evaluate_counts:
  assumes "quiet_redis benv" "rc_campaign_id ctx = Some cid" "seen_today benv (rc_user ctx) b = Inr n"
    "evaluate DEFAULT_RULES benv ctx b = (Inr v, b1)"
  shows "\<exists>n1. seen_today benv (rc_user ctx) b1 = Inr n1 \<and> n \<le> n1 \<and>
    (rr_outcome v = PASS \<longrightarrow> n1 = n + 1 \<and> n < be_limit benv)"
proof -
  obtain r7 s1 where r7: "ml_rate_cap benv ctx b = (r7, s1)" by fastforce
  then have s1: "br_redis s1 = br_redis b" using ml_rate_cap_redis [of benv ctx b] by simp
  obtain r3 s2 where r3: "anti_fatigue benv ctx s1 = (r3, s2)" by fastforce
  have s2: "seen_today benv (rc_user ctx) s2 = Inr n"
    using r3 assms(1-3) s1
    by (auto simp: anti_fatigue_def quiet_redis_def bre_get_def bre_setex_def Let_def kv_get_setex
        split: option.splits rval.splits if_splits)
  obtain r4 s3 where r4: "frequency_gate benv ctx s2 = (r4, s3)" by fastforce
  have s3: "\<exists>n1. seen_today benv (rc_user ctx) s3 = Inr n1 \<and> n \<le> n1 \<and>
      (\<forall>x. r4 = Inr x \<and> rr_outcome x \<noteq> REJECT \<longrightarrow> n1 = n + 1 \<and> n < be_limit benv)"
    using r4 assms(1) s2
    by (auto simp: frequency_gate_def quiet_redis_def bre_get_def bre_setex_def kv_get_setex verdict_def raw_count_def
        raw_int_def COUNTER_TTL_def split: option.splits rval.splits sum.splits if_splits)
  have ends: "b1 = b \<or> b1 = s1 \<or> b1 = s2 \<or> b1 = s3"
    and pass: "rr_outcome v = PASS \<Longrightarrow> b1 = s3 \<and> (\<exists>x. r4 = Inr x \<and> rr_outcome x \<noteq> REJECT)"
    using assms(4) r7 r3 r4
    by (auto simp: evaluate_def DEFAULT_RULES_def split: sum.splits if_splits)
  obtain n1 where n1: "seen_today benv (rc_user ctx) s3 = Inr n1" "n \<le> n1"
      "\<And>x. r4 = Inr x \<Longrightarrow> rr_outcome x \<noteq> REJECT \<Longrightarrow> n1 = n + 1 \<and> n < be_limit benv"
    using s3 by blast
  show ?thesis
  proof (cases "rr_outcome v = PASS")
    case True
    with pass n1 show ?thesis by blast
  next
    case False
    have "seen_today benv (rc_user ctx) b1 = Inr n \<or> seen_today benv (rc_user ctx) b1 = Inr n1"
      using ends s1 s2 n1(1) assms(3) by auto
    with False n1(2) show ?thesis by auto
  qed
qed

lemma rec_loop_counts:
  assumes "quiet_redis benv" "rec_loop benv DEFAULT_RULES rq features rk camps is acc m b = (Inr (items, m'), b')"
    "seen_today benv (rq_user rq) b = Inr n"
  shows "\<exists>n1. seen_today benv (rq_user rq) b' = Inr n1 \<and> n + int (length items - length acc) \<le> n1 \<and>
    length acc \<le> length items \<and> (length acc < length items \<longrightarrow> n + int (length items - length acc) \<le> be_limit benv)"
  using assms(2,3)
proof (induction "is" arbitrary: acc m b n)
  case (Cons i "is")
  show ?case
  proof (cases "camps (rk_mccs rk ! i)")
    case None
    with Cons show ?thesis by simp
  next
    case (Some c)
    obtain seg v b1 where ev: "segment_of features = Inr seg"
      "evaluate DEFAULT_RULES benv (candidate_ctx rq (rk_mccs rk ! i) c seg) b = (Inr v, b1)"
      using Cons.prems(1) Some by (auto split: sum.splits prod.splits)
    obtain n1 where n1: "seen_today benv (rq_user rq) b1 = Inr n1" "n \<le> n1"
        "rr_outcome v = PASS \<longrightarrow> n1 = n + 1 \<and> n < be_limit benv"
      using evaluate_counts [OF assms(1) _ _ ev(2), of "uuid_text (el_id c)" n] Cons.prems(2)
      by (auto simp: candidate_ctx_def)
    show ?thesis
    proof (cases "rr_outcome v = PASS \<and> \<not> rq_top_k rq \<le> length (acc @ [offer_item rk i c])")
      case True
      then have "rec_loop benv DEFAULT_RULES rq features rk camps is (acc @ [offer_item rk i c]) (m + 1) b1 =
          (Inr (items, m'), b')"
        using Cons.prems(1) Some ev by simp
      from Cons.IH [OF this n1(1)] n1 True show ?thesis by fastforce
    next
      case False
      show ?thesis
      proof (cases "rr_outcome v = PASS")
        case True
        with False Cons.prems(1) Some ev have "items = acc @ [offer_item rk i c]" "b' = b1" by auto
        then show ?thesis using n1 True by auto
      next
        case False
        then have "rec_loop benv DEFAULT_RULES rq features rk camps is acc (m + 1) b1 = (Inr (items, m'), b')"
          using Cons.prems(1) Some ev by simp
        from Cons.IH [OF this n1(1)] n1(2) show ?thesis by fastforce
      qed
    qed
  qed
qed simp

section \<open>What is stored\<close>

definition unstored :: "rec_item \<Rightarrow> rec_item" where
  "unstored it = it\<lparr>it_rec := None, it_expires := None\<rparr>"

text \<open>The row of a served offer.\<close>

definition stored_as :: "rec_env \<Rightarrow> db \<Rightarrow> uuid \<Rightarrow> rec_item \<Rightarrow> rec_row \<Rightarrow> bool" where
  "stored_as env d uid it r =
    (it_rec it = Some (re_id r) \<and> it_expires it = Some (re_expires r) \<and> re_user r = uid \<and>
     re_campaign r = it_campaign it \<and> Some (re_mcc r) = store_char4 (it_mcc it) \<and> re_status r = RS_PENDING \<and>
     (\<exists>c \<in> set (campaigns d). ca_id c = it_campaign it \<and>
        re_expires r = min (ca_end c) (re_stored env + re_ttl_days env * day_us)))"

definition alone :: "rec_env \<Rightarrow> bool" where
  "alone env = (\<forall>st d. re_world env st d = d)"

lemma persist_items_alone:
  assumes "alone env" "persist_items env uid k its d own out = (r, d')"
  shows "d' = d \<and> (\<forall>own' out'. r = Inr (own', out') \<longrightarrow> (\<exists>rows new. own' = own @ rows \<and> out' = out @ new \<and>
    list_all2 (stored_as env d uid) new rows \<and> subseq (map unstored new) (map unstored its)))"
  using assms(2)
proof (induction its arbitrary: k own out)
  case Nil
  then show ?case by auto
next
  case (Cons it its)
  have w: "re_world env st d = d" for st using assms(1) by (simp add: alone_def)
  consider (skip) "persist_items env uid (k + 1) its d own out = (r, d')"
    | (row) c mcc where "c \<in> set (campaigns d)" "ca_id c = it_campaign it" "store_char4 (it_mcc it) = Some mcc"
        "persist_items env uid (k + 1) its d (own @ [offer_row env (re_fresh env k) uid c it mcc])
           (out @ [it\<lparr>it_rec := Some (re_fresh env k), it_expires := Some (re_expires (offer_row env (re_fresh env k) uid c it mcc))\<rparr>]) = (r, d')"
    | (bad) e where "r = Inl e" "d' = d"
    using Cons.prems by (auto simp: w Let_def split: option.splits if_splits dest: find_by_SomeD)
  then show ?case
  proof cases
    case skip
    from Cons.IH [OF this] show ?thesis by fastforce
  next
    case row
    let ?r = "offer_row env (re_fresh env k) uid c it mcc"
    let ?it = "it\<lparr>it_rec := Some (re_fresh env k), it_expires := Some (re_expires ?r)\<rparr>"
    have st: "stored_as env d uid ?it ?r"
      using row(1-3) by (auto simp: stored_as_def offer_row_def)
    have un: "unstored ?it = unstored it" by (simp add: unstored_def)
    have "d' = d" using Cons.IH [OF row(4)] by blast
    moreover have "\<exists>rows new. own' = own @ rows \<and> out' = out @ new \<and>
        list_all2 (stored_as env d uid) new rows \<and> subseq (map unstored new) (map unstored (it # its))"
      if eq: "r = Inr (own', out')" for own' out'
    proof -
      obtain rows new where "own' = (own @ [?r]) @ rows" "out' = (out @ [?it]) @ new"
          "list_all2 (stored_as env d uid) new rows" "subseq (map unstored new) (map unstored its)"
        using Cons.IH [OF row(4)] eq by blast
      then show ?thesis using st un
        by (intro exI [of _ "?r # rows"] exI [of _ "?it # new"]) simp
    qed
    ultimately show ?thesis by blast
  next
    case bad
    then show ?thesis by simp
  qed
qed

lemma persist_alone:
  assumes "alone env" "persist_offers env user items version s = (a, s')"
  shows "case a of
      Reply served \<Rightarrow> \<exists>rows. s' = (if items = [] then s else store_offers version rows s) \<and>
        (items = [] \<longrightarrow> rows = []) \<and>
        list_all2 (stored_as env (rs_db s) (the (re_uuid env user))) served rows \<and>
        subseq (map unstored served) (map unstored items)
    | Reject n \<Rightarrow> n = 503 \<and> (s' = s \<or> re_applied env \<and> re_fault env RStore \<noteq> None \<and> (\<exists>rows. s' = store_offers version rows s))
    | Crash e \<Rightarrow> False"
proof -
  have w: "re_world env st d = d" for st d using assms(1) by (simp add: alone_def)
  show ?thesis
  proof (cases "items = []")
    case True
    with assms(2) show ?thesis by (auto simp: persist_offers_def)
  next
    case False
    show ?thesis
    proof (cases "re_uuid env user")
      case None
      with assms(2) False show ?thesis by (auto simp: persist_offers_def)
    next
      case (Some uid)
      obtain x d1 where p: "persist_items env uid 0 items (rs_db s) [] [] = (x, d1)" by fastforce
      note i = persist_items_alone [OF assms(1) p]
      show ?thesis
      proof (cases x)
        case (Inl e)
        with assms(2) False Some p i show ?thesis by (auto simp: persist_offers_def)
      next
        case (Inr y)
        obtain rows out where y: "y = (rows, out)" by fastforce
        have d1: "d1 = rs_db s" and l: "list_all2 (stored_as env (rs_db s) uid) out rows"
            "subseq (map unstored out) (map unstored items)"
          using i Inr y by auto
        show ?thesis using assms(2) False Some p Inr y d1 l
          by (cases "re_fault env RStore") (auto simp: persist_offers_def Let_def w)
      qed
    qed
  qed
qed

lemma store_offers_frame [simp]: "rs_bre (store_offers v rows s) = rs_bre s" "rs_topic (store_offers v rows s) = rs_topic s"
  "rs_db (store_offers v rows s) = (rs_db s)\<lparr>recs := recs (rs_db s) @ rows\<rparr>"
  by (simp_all add: store_offers_def)

lemma on_redis_snd: "snd (on_redis f b) = b\<lparr>br_redis := snd (f (br_redis b))\<rparr>"
  by (simp add: on_redis_def split: prod.split)

lemma fetch_campaigns_alone [simp]: "alone env \<Longrightarrow> snd (fetch_campaigns env user mccs d) = d"
  by (simp add: fetch_campaigns_def alone_def Let_def split: option.split)

lemma recommend_frame:
  assumes "recommend env sigmoid g w rules warm rq s = (a, s1)" "alone env"
  shows "rs_db s1 = rs_db s \<and> rs_version s1 = rs_version s \<and> rs_topic s1 = rs_topic s"
proof -
  have "snd (fetch_campaigns env u m (rs_db s)) = rs_db s" for u m using assms(2) by simp
  then have f: "fetch_campaigns env u m (rs_db s) = (c, d) \<Longrightarrow> d = rs_db s" for u m c d
    by (metis snd_conv)
  show ?thesis using assms(1)
    by (auto simp: recommend_def Let_def dest!: f split: prod.splits option.splits if_splits json.splits sum.splits)
qed

section \<open>The answer\<close>

lemma campaign_map_Some:
  "campaign_map env d uid ms acc m = Some r \<Longrightarrow>
   acc m = Some r \<or> (\<exists>x \<in> set ms. py_strip x = m \<and> best_eligible env d uid x = Some r)"
  by (induction ms arbitrary: acc) (fastforce split: option.splits if_splits)+

lemma fetch_campaigns_Some:
  assumes "alone env" "fst (fetch_campaigns env user mccs d) m = Some r"
  shows "\<exists>uid x. re_uuid env user = Some uid \<and> py_strip x = m \<and> best_eligible env d uid x = Some r"
  using assms campaign_map_Some [of env d _ mccs Map.empty m r]
  by (auto simp: fetch_campaigns_def alone_def Let_def split: if_splits option.splits)

lemma extended_frame [simp]: "rp_items (extended sg m camps r) = rp_items r" "rp_version (extended sg m camps r) = rp_version r"
  by (simp_all add: extended_def split: list.split)

text \<open>What \<open>recommend\<close> offers, and on what.\<close>

definition offered_from ::
  "rec_env \<Rightarrow> string list \<Rightarrow> (string \<Rightarrow> elig_row option) \<Rightarrow> nat \<Rightarrow> rec_item list \<Rightarrow> bool" where
  "offered_from env mccs camps k items = (\<exists>m features rk js. rank_candidates env m features mccs = Inr rk \<and>
     subseq js (re_order env (rk_scores rk)) \<and>
     items = map (\<lambda>i. offer_item rk i (the (camps (rk_mccs rk ! i)))) js \<and>
     (\<forall>i \<in> set js. camps (rk_mccs rk ! i) \<noteq> None) \<and> length items \<le> k)"

lemma recommend_reply:
  assumes "recommend env sigmoid g w rules warm rq s = (Reply (resp, camps), s1)" "0 < rq_top_k rq"
  shows "rp_items resp = [] \<or>
    (camps = fst (fetch_campaigns env (rq_user rq) (retrieve g (rq_user rq) (re_candidates env)) (rs_db s)) \<and>
     offered_from env (retrieve g (rq_user rq) (re_candidates env)) camps (rq_top_k rq) (rp_items resp))"
proof -
  let ?mccs = "retrieve g (rq_user rq) (re_candidates env)"
  have "rp_items resp = [] \<or> (\<exists>m features rk d1 b items n b2. rank_candidates env m features ?mccs = Inr rk \<and>
      fetch_campaigns env (rq_user rq) ?mccs (rs_db s) = (camps, d1) \<and>
      rec_loop (re_bre env) rules rq features rk camps (re_order env (rk_scores rk)) [] 0 b = (Inr (items, n), b2) \<and>
      rp_items resp = items)"
    using assms(1)
    by (auto simp: recommend_def bare_response_def Let_def split: prod.splits option.splits if_splits json.splits sum.splits)
  then show ?thesis
  proof (elim disjE exE conjE)
    fix m features rk d1 b items n b2
    assume r: "rank_candidates env m features ?mccs = Inr rk" and f: "fetch_campaigns env (rq_user rq) ?mccs (rs_db s) = (camps, d1)"
      and l: "rec_loop (re_bre env) rules rq features rk camps (re_order env (rk_scores rk)) [] 0 b = (Inr (items, n), b2)"
      and i: "rp_items resp = items"
    have "offered_from env ?mccs camps (rq_top_k rq) items"
      using r rec_loop_picks [OF l] assms(2) unfolding offered_from_def by fastforce
    then show ?thesis using f i by simp
  qed simp
qed

lemma rank_mccs: "rank_candidates env m features mccs = Inr rk \<Longrightarrow> rk_mccs rk = mccs"
  by (auto simp: rank_candidates_def opt_error_def Let_def split: sum.splits)

lemma subseq_subset: "subseq xs ys \<Longrightarrow> set xs \<subseteq> set ys"
  by (induction rule: list_emb.induct) auto

lemma subseq_sorted_wrt: "subseq xs ys \<Longrightarrow> sorted_wrt P ys \<Longrightarrow> sorted_wrt P xs"
proof (induction rule: list_emb.induct)
  case (list_emb_Cons2 x y xs ys)
  then show ?case using subseq_subset [OF list_emb_Cons2.hyps(2)] by auto
qed auto

lemma offered_known:
  assumes "offered_from env mccs camps k items" "it \<in> set items"
  shows "\<exists>c. camps (it_mcc it) = Some c \<and> it_campaign it = el_id c"
proof -
  obtain rk js where "items = map (\<lambda>i. offer_item rk i (the (camps (rk_mccs rk ! i)))) js"
      "\<forall>i \<in> set js. camps (rk_mccs rk ! i) \<noteq> None"
    using assms(1) unfolding offered_from_def by blast
  then show ?thesis using assms(2) by (force simp: offer_item_def Let_def)
qed

lemma offered_sorted:
  assumes "offered_from env mccs camps k items" "\<And>p. sorted_wrt (\<lambda>i j. p ! j \<le> p ! i) (re_order env p)"
  shows "sorted_wrt (\<lambda>a b. it_score b \<le> it_score a) items"
proof -
  obtain rk js where "subseq js (re_order env (rk_scores rk))"
    and i: "items = map (\<lambda>i. offer_item rk i (the (camps (rk_mccs rk ! i)))) js"
    using assms(1) unfolding offered_from_def by blast
  then have "sorted_wrt (\<lambda>i j. rk_scores rk ! j \<le> rk_scores rk ! i) js"
    using subseq_sorted_wrt assms(2) by blast
  then show ?thesis unfolding i by (simp add: sorted_wrt_map offer_item_def Let_def)
qed

lemma unstored_simps [simp]: "it_mcc (unstored it) = it_mcc it" "it_score (unstored it) = it_score it"
  "it_campaign (unstored it) = it_campaign it"
  by (simp_all add: unstored_def)

lemma subseq_unstored:
  assumes "subseq (map unstored served) (map unstored items)" "it \<in> set served"
  shows "\<exists>x \<in> set items. it_mcc x = it_mcc it \<and> it_campaign x = it_campaign it"
proof -
  have "unstored it \<in> unstored ` set items" using subseq_subset [OF assms(1)] assms(2) by auto
  then show ?thesis by (metis (no_types, lifting) imageE unstored_simps(1,3))
qed

end
