(* ===== verification/Serving.thy ===== *)
theory Serving
  imports Recommend
begin

text \<open>
  What the recommendation API promises about an answer: served offers are stored and announced, in the
  order of the model, each with a campaign the client is entitled to and within the client's daily
  limit; an answer that could not be stored leaves no offer, no message and no mark; \<^verbatim>\<open>/explain\<close>
  writes nothing.
\<close>

section \<open>One call\<close>

definition replied :: "'a answer \<Rightarrow> bool" where
  "replied a = (case a of Reply r \<Rightarrow> True | _ \<Rightarrow> False)"

lemma replied_simps [simp]: "replied (Reply r)" "\<not> replied (Reject n)" "\<not> replied (Crash e)"
  by (simp_all add: replied_def)

lemma get_recommendations_cases:
  assumes "get_recommendations env sigmoid g w rq s = (a, s')"
  obtains (invalid) "\<not> request_ok rq" "a = Reject 422" "s' = s"
  | (failed) "request_ok rq" "\<not> replied (fst (recommend env sigmoid g w DEFAULT_RULES True rq s))"
      "s' = snd (recommend env sigmoid g w DEFAULT_RULES True rq s)" "\<not> replied a"
  | (unstored) resp camps s1 n s2 where "request_ok rq"
      "recommend env sigmoid g w DEFAULT_RULES True rq s = (Reply (resp, camps), s1)"
      "persist_offers env (rq_user rq) (rp_items resp) (rp_version resp) s1 = (Reject n, s2)" "a = Reject n"
      "s' = s2\<lparr>rs_bre := release_unserved env (rq_user rq) (rp_items resp) (rs_bre s2)\<rparr>"
  | (stored) resp camps s1 served s2 missed where "request_ok rq"
      "recommend env sigmoid g w DEFAULT_RULES True rq s = (Reply (resp, camps), s1)"
      "persist_offers env (rq_user rq) (rp_items resp) (rp_version resp) s1 = (Reply served, s2)"
      "missed = filter (\<lambda>it. offer_pair it \<notin> set (map offer_pair served)) (rp_items resp)"
      "rs_db s' = rs_db s2" "rs_version s' = rs_version s2"
      "rs_bre s' = release_unserved env (rq_user rq) missed (rs_bre s2)"
      "if \<not> re_kafka env \<or> served = [] then a = Reply (resp\<lparr>rp_items := served\<rparr>) \<and> rs_topic s' = rs_topic s2
       else case emit_created env (rq_user rq) camps (rp_version resp) 0 served (rs_topic s2) of
           (Some e, tp) \<Rightarrow> a = Crash e \<and> rs_topic s' = tp
         | (None, tp) \<Rightarrow> a = Reply (resp\<lparr>rp_items := served\<rparr>) \<and> rs_topic s' = tp"
  | (raised) resp camps s1 e where
      "recommend env sigmoid g w DEFAULT_RULES True rq s = (Reply (resp, camps), s1)"
      "persist_offers env (rq_user rq) (rp_items resp) (rp_version resp) s1 = (Crash e, s')" "a = Crash e"
proof (cases "request_ok rq")
  case False
  with assms invalid show ?thesis by (simp add: get_recommendations_def)
next
  case ok: True
  obtain r s1 where r: "recommend env sigmoid g w DEFAULT_RULES True rq s = (r, s1)" by fastforce
  show ?thesis
  proof (cases r)
    case (Reply x)
    obtain resp camps where x: "x = (resp, camps)" by fastforce
    obtain q s2 where p: "persist_offers env (rq_user rq) (rp_items resp) (rp_version resp) s1 = (q, s2)" by fastforce
    show ?thesis
    proof (cases q)
      case q: (Reply served)
      define missed where "missed = filter (\<lambda>it. offer_pair it \<notin> set (map offer_pair served)) (rp_items resp)"
      show ?thesis
        by (rule stored [OF ok _ _ missed_def, of camps s1 s2])
          (use assms ok r Reply x p q missed_def in
            \<open>auto simp: get_recommendations_def Let_def split: if_splits prod.splits option.splits\<close>)
    next
      case (Reject n)
      with assms ok r Reply x p show ?thesis
        by (intro unstored [OF ok, of resp camps s1 n s2]) (auto simp: get_recommendations_def)
    next
      case (Crash e)
      with assms ok r Reply x p show ?thesis
        by (intro raised [of resp camps s1 e]) (auto simp: get_recommendations_def)
    qed
  next
    case (Reject n)
    with assms ok r show ?thesis by (intro failed) (auto simp: get_recommendations_def)
  next
    case (Crash e)
    with assms ok r show ?thesis by (intro failed) (auto simp: get_recommendations_def)
  qed
qed

text \<open>The announcements of an answer: the offers whose message was taken.\<close>

fun announced :: "rec_env \<Rightarrow> nat \<Rightarrow> rec_item list \<Rightarrow> rec_item list" where
  "announced env k [] = []"
| "announced env k (it # its) = (if re_send env k = None then it # announced env (k + 1) its else announced env (k + 1) its)"

lemma emit_created_announces:
  assumes "\<And>it. it \<in> set its \<Longrightarrow> camps (it_mcc it) \<noteq> None"
  shows "emit_created env user camps version k its topic =
    (None, topic @ map (\<lambda>it. (user, created_payload env user version (the (camps (it_mcc it))) it)) (announced env k its))"
  using assms
proof (induction its arbitrary: k topic)
  case (Cons it its)
  then obtain c where "camps (it_mcc it) = Some c" by fastforce
  with Cons show ?case by simp
qed simp

lemma recommend_marks:
  assumes "recommend env sigmoid g w DEFAULT_RULES warm rq s = (Reply (resp, camps), s1)"
    and "quiet_redis (re_bre env)" "seen_today (re_bre env) (rq_user rq) (rs_bre s) = Inr n"
  shows "rp_items resp \<noteq> [] \<longrightarrow> n + int (length (rp_items resp)) \<le> be_limit (re_bre env)"
proof -
  define b1 where "b1 = snd (on_redis (fs_get (re_fs env) warm (rq_user rq)) (rs_bre s))"
  have key: "count_key (rq_user rq) \<noteq> features_key (rq_user rq)" by (simp add: count_key_def features_key_def)
  have n: "seen_today (re_bre env) (rq_user rq) b1 = Inr n"
    using assms(3) fs_get_other [OF key] by (simp add: b1_def on_redis_snd)
  have "rp_items resp = [] \<or> (\<exists>features rk cs is items m b2.
      rec_loop (re_bre env) DEFAULT_RULES rq features rk cs is [] 0 b1 = (Inr (items, m), b2) \<and> rp_items resp = items)"
    using assms(1) b1_def
    by (auto simp: recommend_def bare_response_def Let_def split: prod.splits option.splits if_splits json.splits sum.splits)
  then show ?thesis
    using rec_loop_counts [OF assms(2) _ n] by fastforce
qed

lemma persist_pairs:
  assumes "alone env" "persist_offers env user items version s = (Reply served, s')"
  shows "subseq (map unstored served) (map unstored items)"
  using persist_alone [OF assms] by auto

section \<open>Properties\<close>


text \<open>C29: Offers are the client's own and come in the model's order. An answer has at most \<^verbatim>\<open>top_k\<close>
  offers, by descending score, and the campaign of each is the first row \<^verbatim>\<open>eligible_campaigns\<close> gives
  this client for the offer's category: the best rate the client is entitled to.\<close>

theorem offers_are_entitled_and_ranked:
  assumes "alone env" "\<And>p. sorted_wrt (\<lambda>i j. p ! j \<le> p ! i) (re_order env p)"
    and "get_recommendations env sigmoid g w rq s = (Reply resp, s')"
  shows "length (rp_items resp) \<le> rq_top_k rq \<and>
    sorted_wrt (\<lambda>a b. it_score b \<le> it_score a) (rp_items resp) \<and>
    list_all (\<lambda>it. \<exists>uid mcc c. re_uuid env (rq_user rq) = Some uid \<and> py_strip mcc = it_mcc it \<and>
      best_eligible env (rs_db s) uid mcc = Some c \<and> it_campaign it = el_id c) (rp_items resp)"
  using assms(3)
proof (cases rule: get_recommendations_cases)
  case (stored resp0 camps s1 served s2 missed)
  have sub: "subseq (map unstored served) (map unstored (rp_items resp0))"
    using persist_pairs [OF assms(1) stored(3)] .
  have ans: "rp_items resp = served" using stored(8) by (auto split: if_splits prod.splits option.splits)
  have off: "rp_items resp0 = [] \<or>
      (camps = fst (fetch_campaigns env (rq_user rq) (retrieve g (rq_user rq) (re_candidates env)) (rs_db s)) \<and>
       offered_from env (retrieve g (rq_user rq) (re_candidates env)) camps (rq_top_k rq) (rp_items resp0))"
    using recommend_reply [OF stored(2)] stored(1) by (auto simp: request_ok_def)
  have "length served \<le> length (rp_items resp0)" using list_emb_length [OF sub] by simp
  moreover have "length (rp_items resp0) \<le> rq_top_k rq" using off by (auto simp: offered_from_def)
  moreover have "sorted_wrt (\<lambda>a b. it_score b \<le> it_score a) (rp_items resp0)"
    using off offered_sorted [OF _ assms(2)] by auto
  then have "sorted_wrt (\<lambda>a b. it_score b \<le> it_score a) (map unstored served)"
    using subseq_sorted_wrt [OF sub, of "\<lambda>a b. it_score b \<le> it_score a"] by (simp add: sorted_wrt_map)
  moreover have "\<exists>uid mcc c. re_uuid env (rq_user rq) = Some uid \<and> py_strip mcc = it_mcc it \<and>
      best_eligible env (rs_db s) uid mcc = Some c \<and> it_campaign it = el_id c" if m: "it \<in> set served" for it
  proof -
    obtain x where x: "x \<in> set (rp_items resp0)" "it_mcc x = it_mcc it" "it_campaign x = it_campaign it"
      using subseq_unstored [OF sub m] by blast
    then obtain c where "fst (fetch_campaigns env (rq_user rq) (retrieve g (rq_user rq) (re_candidates env)) (rs_db s)) (it_mcc it) = Some c"
        "it_campaign it = el_id c"
      using off offered_known by (metis empty_iff empty_set)
    then show ?thesis using fetch_campaigns_Some [OF assms(1)] by metis
  qed
  ultimately show ?thesis by (simp add: ans sorted_wrt_map list_all_iff)
qed auto


text \<open>Releasing a list of offers clears every one of their marks.\<close>

lemma release_clears:
  assumes "quiet_redis renv"
  shows "br_redis (snd (release_rules DEFAULT_RULES renv (unserved_ctx user it) b)) =
    (\<lambda>k. if k = shown_key user (uuid_text (it_campaign it)) then None
      else if k = count_key user then br_redis (snd (release_rules DEFAULT_RULES renv (unserved_ctx user it) b)) k
      else br_redis b k)"
proof -
  let ?ctx = "unserved_ctx user it" and ?k = "shown_key user (uuid_text (it_campaign it))"
  have a: "anti_fatigue_release renv ?ctx b = (None, b\<lparr>br_redis := kv_del (br_redis b) ?k\<rparr>)"
    using assms by (simp add: anti_fatigue_release_def unserved_ctx_def bre_del_def quiet_redis_def)
  have f: "k \<noteq> count_key user \<Longrightarrow> br_redis (snd (frequency_release renv ?ctx b1)) k = br_redis b1 k" for b1 k
    by (auto simp: frequency_release_def unserved_ctx_def bre_setex_def bre_del_def kv_setex_def kv_set_def kv_del_def
        split: sum.split option.split)
  show ?thesis by (rule ext) (auto simp: release_default a f kv_del_def)
qed

lemma release_unserved_clears:
  assumes "quiet_redis (re_release env)"
  shows "(\<forall>it \<in> set items. br_redis (release_unserved env user items b) (shown_key user (uuid_text (it_campaign it))) = None) \<and>
    (\<forall>c. br_redis b (shown_key user c) = None \<longrightarrow> br_redis (release_unserved env user items b) (shown_key user c) = None)"
proof (induction items arbitrary: b)
  case (Cons it its)
  define b1 where "b1 = snd (release_rules DEFAULT_RULES (re_release env) (unserved_ctx user it) b)"
  have b1: "br_redis b1 (shown_key user (uuid_text (it_campaign it))) = None"
      "\<And>c. br_redis b (shown_key user c) = None \<Longrightarrow> br_redis b1 (shown_key user c) = None"
    unfolding b1_def by (subst release_clears [OF assms], simp)+
  have "release_unserved env user (it # its) b = release_unserved env user its b1"
    by (simp add: release_unserved_def b1_def)
  with Cons.IH [of b1] b1 show ?case by auto
qed (simp add: release_unserved_def)

text \<open>C31: Nothing is left of an answer that could not be stored. When the offers found could not be
  written, the call answers 503, no message is sent, the database is as before unless the commit was
  applied although its reply was lost, and every offer is unmarked: the campaign is not held back by the
  anti-fatigue rule.\<close>

theorem unstored_answer_leaves_nothing:
  assumes "alone env" "quiet_redis (re_release env)"
    and "recommend env sigmoid g w DEFAULT_RULES True rq s = (Reply (resp, camps), s1)"
    and "get_recommendations env sigmoid g w rq s = (Reject n, s')" "request_ok rq"
  shows "n = 503 \<and> rs_topic s' = rs_topic s \<and>
    (rs_db s' = rs_db s \<or> re_applied env \<and> re_fault env RStore \<noteq> None) \<and>
    list_all (\<lambda>it. br_redis (rs_bre s') (shown_key (rq_user rq) (uuid_text (it_campaign it))) = None) (rp_items resp)"
  using assms(4)
proof (cases rule: get_recommendations_cases)
  case (unstored resp0 camps0 s0 m s2)
  have eq: "resp0 = resp" "s0 = s1" "n = m" using unstored(2,4) assms(3) by auto
  have f: "rs_db s1 = rs_db s" "rs_topic s1 = rs_topic s"
    using recommend_frame [OF assms(3,1)] by auto
  have p: "m = 503 \<and> (s2 = s1 \<or> re_applied env \<and> re_fault env RStore \<noteq> None \<and> (\<exists>rows. s2 = store_offers (rp_version resp) rows s1))"
    using persist_alone [OF assms(1) unstored(3)] unfolding eq by auto
  show ?thesis
    using p f unstored(5) release_unserved_clears [OF assms(2), of "rp_items resp" "rq_user rq" "rs_bre s2"]
    by (auto simp: eq list_all_iff)
next
  case (stored resp0 camps0 s0 served s2 missed)
  then show ?thesis by (auto split: if_splits prod.splits option.splits)
qed (use assms(3,5) in auto)

section \<open>\<open>/explain\<close>\<close>

lemma explain_loop_redis:
  "rec_loop benv EXPLAIN_RULES rq features rk camps is acc n b = (r, b') \<Longrightarrow> br_redis b' = br_redis b"
proof (induction "is" arbitrary: acc n b)
  case (Cons i "is")
  have e: "evaluate EXPLAIN_RULES benv ctx b = (v, b1) \<Longrightarrow> br_redis b1 = br_redis b" for ctx v b1
    using explain_keeps_redis by (metis snd_conv)
  show ?case using Cons.prems
    by (auto split: option.splits sum.splits prod.splits if_splits dest!: e Cons.IH)
qed simp

lemma explain_keeps:
  assumes "alone env" "explain_recommendations env sigmoid g w user k s = (a, s')"
  shows "rs_db s' = rs_db s \<and> rs_version s' = rs_version s \<and> rs_topic s' = rs_topic s \<and>
    br_redis (rs_bre s') = br_redis (rs_bre s)"
proof -
  let ?rq = "\<lparr>rq_user = user, rq_top_k = k, rq_amount = None, rq_channel = None\<rparr>"
  obtain r s1 where r: "recommend env sigmoid g w EXPLAIN_RULES False ?rq s = (r, s1)" by fastforce
  have "s' = s \<or> s' = s1"
    using assms(2) r by (auto simp: explain_recommendations_def Let_def split: if_splits answer.splits prod.splits)
  moreover have f: "rs_db s1 = rs_db s \<and> rs_version s1 = rs_version s \<and> rs_topic s1 = rs_topic s"
    by (rule recommend_frame [OF r assms(1)])
  moreover have "br_redis (rs_bre s1) = br_redis (rs_bre s)"
  proof -
    have "on_redis (fs_get (re_fs env) False user) (rs_bre s) = (x, b1) \<Longrightarrow> br_redis b1 = br_redis (rs_bre s)" for x b1
      using on_redis_snd [of "fs_get (re_fs env) False user" "rs_bre s"] by (simp add: fs_get_cold)
    then show ?thesis using r
      by (auto simp: recommend_def Let_def dest: explain_loop_redis
          split: prod.splits option.splits if_splits json.splits sum.splits)
  qed
  ultimately show ?thesis by auto
qed

text \<open>\<^verbatim>\<open>/explain\<close> is read-only. Whatever its outcome, the database, the recorded model versions, all of
  Redis and the topic are as before.\<close>

theorem explain_writes_nothing:
  assumes "alone env" "explain_recommendations env sigmoid g w user k s = (a, s')"
  shows "rs_db s' = rs_db s \<and> rs_version s' = rs_version s \<and> rs_topic s' = rs_topic s \<and>
    br_redis (rs_bre s') = br_redis (rs_bre s)"
  using assms by (rule explain_keeps)

section \<open>Instances\<close>

text \<open>One client, one campaign, one candidate; the features come from ClickHouse.\<close>

definition sample_fs :: fs_env where
  "sample_fs = \<lparr>fe_now = 50, fe_get = None, fe_set = None,
     fe_ch = Some (\<lambda>_. Inr (Some (JObj [(''segment_id'', JInt 3)]))), fe_ttl = 3600\<rparr>"

definition sample_env :: "(rec_stmt \<Rightarrow> exn option) \<Rightarrow> bool \<Rightarrow> rec_env" where
  "sample_env flt ap = \<lparr>re_fs = sample_fs, re_bre = sample_bre_env, re_release = sample_bre_env, re_fault = flt,
     re_world = (\<lambda>_ d. d), re_applied = ap, re_now = 50, re_stored = 51, re_clock = 50, re_fresh = (\<lambda>k. 100 + k),
     re_uuid = (\<lambda>_. Some 3), re_real = (\<lambda>x. x), re_md5 = (\<lambda>_. 0), re_num = (\<lambda>_. 0),
     re_order = (\<lambda>p. sort_key (\<lambda>i. - (p ! i)) [0..<length p]), re_candidates = 1, re_ttl_days = 7, re_kafka = True,
     re_send = (\<lambda>_. None), re_isof = (\<lambda>_. ''t'')\<rparr>"

definition sample_rq :: rec_request where
  "sample_rq = \<lparr>rq_user = (uuid_text 3), rq_top_k = 5, rq_amount = None, rq_channel = None\<rparr>"

definition sample_rec :: rec_sys where
  "sample_rec = \<lparr>rs_db = sample_db, rs_version = Map.empty, rs_bre = sample_bre, rs_topic = []\<rparr>"

definition sample_elig :: elig_row where
  "sample_elig = elig_of 50 sample_db 50 \<lparr>cc_campaign = 7, cc_mcc = ''5411'', cc_min = None\<rparr> sample_campaign"

lemma sample_best: "best_eligible (sample_env flt ap) sample_db 3 ''5411'' = Some sample_elig"
  by (simp add: best_eligible_def eligible_campaigns_def elig_join_def sample_db_def sample_campaign_def elig_where_def
      amount_ok_def min_amount_def segment_ok_def consent_granted_def latest_consent_def later_consent_def rfm_ok_def
      sample_env_def sample_elig_def)

lemma sample_strip: "py_strip ''5411'' = ''5411''"
  by (simp add: decimal_eval)

lemma sample_fetch: "flt RFetch = None \<Longrightarrow> fetch_campaigns (sample_env flt ap) (uuid_text 3) [''5411''] sample_db = ([''5411'' \<mapsto> sample_elig], sample_db)"
proof -
  assume "flt RFetch = None"
  then have "re_world (sample_env flt ap) RFetch d = d" "re_fault (sample_env flt ap) RFetch = None" "re_uuid (sample_env flt ap) u = Some 3" for d u
    by (simp_all add: sample_env_def)
  then show ?thesis by (simp add: fetch_campaigns_def sample_best sample_strip)
qed

definition sample_features :: bre_sys where
  "sample_features = sample_bre\<lparr>br_redis := kv_setex 50 Map.empty (features_key (uuid_text 3)) 3600
     (VJson (JObj [(''segment_id'', JInt 3)]))\<rparr>"

lemma sample_found:
  "on_redis (fs_get sample_fs True (uuid_text 3)) sample_bre = (Some (JObj [(''segment_id'', JInt 3)]), sample_features)"
  by (simp add: on_redis_def fs_get_def from_redis_def from_clickhouse_def sample_fs_def sample_bre_def sample_features_def
      kv_get_def)

lemma sample_segment: "segment_of [(''segment_id'', JInt 3)] = Inr (Some 3)"
  by (simp add: segment_of_def jget_def members_def)

lemma sample_offer_passes: "passes DEFAULT_RULES sample_bre_env (candidate_ctx sample_rq ''5411'' sample_elig (Some 3)) sample_features"
  by (simp add: passes_def evaluate_def DEFAULT_RULES_def category_exclusion_def min_transaction_def ml_rate_cap_def
      load_snapshot_def bre_get_def bre_setex_def kv_get_def anti_fatigue_def frequency_gate_def channel_applicability_def
      budget_reservation_def verdict_def raw_truthy_def raw_count_def sample_bre_env_def candidate_ctx_def sample_rq_def
      sample_elig_def elig_of_def sample_campaign_def sample_features_def features_key_def
      sample_bre_def COUNTER_TTL_def kv_setex_def kv_set_def count_key_def shown_key_def Let_def SNAPSHOT_KEY_def)

definition sample_ranked :: ranked where
  "sample_ranked = \<lparr>rk_mccs = [''5411''], rk_cols = [''mcc_code_int''], rk_matrix = [[0]], rk_scores = [1 / 2],
     rk_shap = [[1 / 4]]\<rparr>"

lemma sample_rank: "rank_candidates (sample_env flt ap) sample_model fs [''5411''] = Inr sample_ranked"
  by (simp add: rank_candidates_def model_columns_def sample_model_def build_feature_matrix_def opt_error_def
      sample_env_def sample_ranked_def)

lemma sample_retrieve: "retrieve new_generator (uuid_text 3) (Suc 0) = [''5411'']"
  by (simp add: retrieve_def new_generator_def POPULAR_FALLBACK_def)

lemma sample_recommend:
  "flt RFetch = None \<Longrightarrow> \<exists>resp s1. recommend (sample_env flt ap) (\<lambda>x. x) new_generator sample_watcher DEFAULT_RULES True sample_rq sample_rec =
     (Reply (resp, [''5411'' \<mapsto> sample_elig]), s1) \<and> rp_items resp = [offer_item sample_ranked 0 sample_elig] \<and>
     rp_version resp = Some ''7'' \<and> rs_db s1 = sample_db \<and> rs_topic s1 = []"
proof -
  assume flt: "flt RFetch = None"
  obtain r b1 where ev: "evaluate DEFAULT_RULES sample_bre_env (candidate_ctx sample_rq ''5411'' sample_elig (Some 3)) sample_features = (Inr r, b1)"
      "rr_outcome r = PASS"
    using sample_offer_passes unfolding passes_iff by blast
  have e: "re_fs (sample_env flt ap) = sample_fs" "re_bre (sample_env flt ap) = sample_bre_env" "re_candidates (sample_env flt ap) = Suc 0"
      "re_order (sample_env flt ap) [1 / 2] = [0]" "rs_bre sample_rec = sample_bre" "rs_db sample_rec = sample_db"
      "rs_topic sample_rec = []" "rq_user sample_rq = (uuid_text 3)" "rk_mccs sample_ranked = [''5411'']" "rk_scores sample_ranked = [1 / 2]"
      "get_for_user h sample_watcher u = (Some sample_model, ''prod'')" "lm_version sample_model = ''7''" "rq_top_k sample_rq = 5" for h u
    by (simp_all add: sample_env_def sample_rec_def sample_rq_def sample_ranked_def get_for_user_def sample_watcher_def
        sample_model_def)
  show ?thesis
    by (simp add: recommend_def Let_def e sample_found sample_retrieve sample_rank sample_fetch [of flt, OF flt] sample_segment ev)
      (simp add: bare_response_def)
qed

abbreviation sample_rec_env :: rec_env where
  "sample_rec_env \<equiv> sample_env (\<lambda>_. None) True"

lemma sample_alone: "alone sample_rec_env"
  by (simp add: alone_def sample_env_def)

lemma sample_persist:
  assumes "rs_db s = sample_db"
  shows "\<exists>it s2. persist_offers sample_rec_env (uuid_text 3) [offer_item sample_ranked 0 sample_elig] v s = (Reply [it], s2)"
proof -
  have e: "re_world sample_rec_env st d = d" "re_fault sample_rec_env st = None" "re_uuid sample_rec_env u = Some 3"
      "re_fresh sample_rec_env 0 = 100" for st d u
    by (simp_all add: sample_env_def)
  have i: "it_campaign (offer_item sample_ranked 0 sample_elig) = 7" "it_mcc (offer_item sample_ranked 0 sample_elig) = ''5411''"
    by (simp_all add: offer_item_def sample_ranked_def sample_elig_def elig_of_def sample_campaign_def Let_def)
  have m: "store_char4 ''5411'' = Some ''5411''" by (simp add: store_char4_def rtrim_def)
  have d: "find_by us_id 3 (users sample_db) \<noteq> None" "100 \<notin> re_id ` set (recs sample_db)"
    by (simp_all add: sample_db_def)
  show ?thesis using d by (auto simp: persist_offers_def assms Let_def e i m)
qed

lemma sample_serves:
  "\<exists>resp s'. get_recommendations sample_rec_env (\<lambda>x. x) new_generator sample_watcher sample_rq sample_rec = (Reply resp, s') \<and>
     rp_items resp \<noteq> []"
proof -
  obtain resp s1 where r: "recommend sample_rec_env (\<lambda>x. x) new_generator sample_watcher DEFAULT_RULES True sample_rq sample_rec =
     (Reply (resp, [''5411'' \<mapsto> sample_elig]), s1)" "rp_items resp = [offer_item sample_ranked 0 sample_elig]" "rs_db s1 = sample_db"
    using sample_recommend [of "\<lambda>_. None" True] by blast
  obtain it s2 where p: "persist_offers sample_rec_env (uuid_text 3) (rp_items resp) (rp_version resp) s1 = (Reply [it], s2)"
    using sample_persist [OF r(3)] unfolding r(2) by blast
  have "it_mcc it = ''5411''"
    using subseq_unstored [OF persist_pairs [OF sample_alone p], of it] r(2)
    by (simp add: offer_item_def sample_ranked_def Let_def)
  moreover have "request_ok sample_rq" "rq_user sample_rq = (uuid_text 3)" by (simp_all add: request_ok_def sample_rq_def opt_ok_def)
  ultimately show ?thesis using r(1) p
    by (auto simp: get_recommendations_def Let_def)
qed


lemma sample_argsort: "sorted_wrt (\<lambda>i j. p ! j \<le> p ! i) (re_order sample_rec_env p)"
proof -
  have "sorted (map (\<lambda>i. - (p ! i)) (sort_key (\<lambda>i. - (p ! i)) [0..<length p]))" by simp
  then show ?thesis by (simp add: sample_env_def sorted_wrt_map)
qed

theorem offers_are_entitled_and_ranked_witness:
  "\<exists>resp s'. get_recommendations sample_rec_env (\<lambda>x. x) new_generator sample_watcher sample_rq sample_rec = (Reply resp, s') \<and>
    rp_items resp \<noteq> [] \<and> length (rp_items resp) \<le> 5"
proof -
  obtain resp s' where g: "get_recommendations sample_rec_env (\<lambda>x. x) new_generator sample_watcher sample_rq sample_rec = (Reply resp, s')"
      "rp_items resp \<noteq> []"
    using sample_serves by blast
  with offers_are_entitled_and_ranked [OF sample_alone sample_argsort g(1)] show ?thesis by (auto simp: sample_rq_def)
qed


abbreviation sample_no_store :: rec_env where
  "sample_no_store \<equiv> sample_env (\<lambda>st. if st = RStore then Some (pg_error ''57P01'') else None) False"

theorem unstored_answer_leaves_nothing_witness:
  "\<exists>s'. get_recommendations sample_no_store (\<lambda>x. x) new_generator sample_watcher sample_rq sample_rec = (Reject 503, s') \<and>
    rs_topic s' = [] \<and> rs_db s' = sample_db \<and>
    br_redis (rs_bre s') (shown_key (uuid_text 3) (uuid_text 7)) = None"
proof -
  have al: "alone sample_no_store" by (simp add: alone_def sample_env_def)
  obtain resp s1 where r: "recommend sample_no_store (\<lambda>x. x) new_generator sample_watcher DEFAULT_RULES True sample_rq sample_rec =
     (Reply (resp, [''5411'' \<mapsto> sample_elig]), s1)" "rp_items resp = [offer_item sample_ranked 0 sample_elig]" "rs_db s1 = sample_db"
    using sample_recommend [of "\<lambda>st. if st = RStore then Some (pg_error ''57P01'') else None" False] by auto
  obtain p s2 where p: "persist_offers sample_no_store (uuid_text 3) (rp_items resp) (rp_version resp) s1 = (p, s2)" by fastforce
  have "\<not> replied p" using p r(2)
    by (auto simp: persist_offers_def Let_def sample_env_def split: prod.splits sum.splits)
  moreover have "\<And>e. p \<noteq> Crash e" using persist_alone [OF al p] by auto
  ultimately obtain n where n: "p = Reject n" by (cases p) auto
  have ok: "request_ok sample_rq" "rq_user sample_rq = (uuid_text 3)" by (simp_all add: request_ok_def sample_rq_def opt_ok_def)
  obtain s' where g: "get_recommendations sample_no_store (\<lambda>x. x) new_generator sample_watcher sample_rq sample_rec = (Reject n, s')"
    using r(1) p n ok by (simp add: get_recommendations_def)
  have q: "quiet_redis (re_release sample_no_store)"
    by (simp add: sample_env_def quiet_redis_def sample_bre_env_def)
  have i: "it_campaign (offer_item sample_ranked 0 sample_elig) = 7"
    by (simp add: offer_item_def sample_elig_def elig_of_def sample_campaign_def Let_def)
  have "\<not> re_applied sample_no_store" by (simp add: sample_env_def)
  with unstored_answer_leaves_nothing [OF al q r(1) g ok(1)] g show ?thesis
    by (auto simp: sample_rec_def r(2) i ok(2))
qed

theorem explain_writes_nothing_witness:
  "rs_db (snd (explain_recommendations sample_rec_env (\<lambda>x. x) new_generator sample_watcher (uuid_text 3) 5 sample_rec)) = sample_db"
  using explain_writes_nothing [OF sample_alone, of "\<lambda>x. x" new_generator sample_watcher "uuid_text 3" 5 sample_rec, OF surjective_pairing]
  by (simp add: sample_rec_def)

end
