(* ===== verification/Breaker.thy ===== *)
theory Breaker
  imports Prelude
begin

text \<open>
  The circuit breaker and the retrying call of mobile_api's client to the Recommendation API
  (\<^verbatim>\<open>services/mobile_api/app/clients/recommendation_client.py\<close>), and the cached service token it sends
  (\<^verbatim>\<open>service_token.py\<close>). Times are the monotonic clock in microseconds. \<^verbatim>\<open>tenacity\<close> retries
  \<^verbatim>\<open>httpx.HTTPError\<close> and 5xx answers; what each attempt meets is a list of outcomes.
\<close>

section \<open>The breaker\<close>

datatype breaker_state = Closed | HalfOpen | OpenState

record breaker =
  bk_threshold :: nat
  bk_reset :: int
  bk_failures :: nat
  bk_opened :: "time option"

definition breaker_state :: "time \<Rightarrow> breaker \<Rightarrow> breaker_state" where
  "breaker_state now b = (case bk_opened b of None \<Rightarrow> Closed
     | Some t \<Rightarrow> if bk_reset b \<le> now - t then HalfOpen else OpenState)"

definition before_call :: "time \<Rightarrow> breaker \<Rightarrow> bool" where
  "before_call now b = (breaker_state now b \<noteq> OpenState)"

definition record_success :: "breaker \<Rightarrow> breaker" where
  "record_success b = b\<lparr>bk_failures := 0, bk_opened := None\<rparr>"

definition record_failure :: "time \<Rightarrow> breaker \<Rightarrow> breaker" where
  "record_failure now b = (let n = bk_failures b + 1; b' = b\<lparr>bk_failures := n\<rparr> in
     if bk_threshold b \<le> n \<and> bk_opened b = None then b'\<lparr>bk_opened := Some now\<rparr> else b')"

section \<open>A call\<close>

text \<open>An attempt: an answer (status, does its body parse), an \<^verbatim>\<open>httpx\<close> error, another exception.\<close>

datatype attempt = Answer nat bool | HttpxError | OtherFailure

datatype call_result = CallOk | CallOpen | CallFailed attempt

definition retryable_attempt :: "attempt \<Rightarrow> bool" where
  "retryable_attempt a = (case a of Answer code ok \<Rightarrow> \<not> (200 \<le> code \<and> code < 300)
     | HttpxError \<Rightarrow> True | OtherFailure \<Rightarrow> False)"

definition attempt_ok :: "attempt \<Rightarrow> bool" where
  "attempt_ok a = (case a of Answer code ok \<Rightarrow> 200 \<le> code \<and> code < 300 | _ \<Rightarrow> False)"

text \<open>The last attempt made: the first that is not retried, at most \<open>n\<close> of them.\<close>

fun last_attempt :: "nat \<Rightarrow> (nat \<Rightarrow> attempt) \<Rightarrow> nat \<Rightarrow> attempt" where
  "last_attempt 0 f i = f i"
| "last_attempt (Suc n) f i = (if retryable_attempt (f i) then last_attempt n f (Suc i) else f i)"

definition upstream_call :: "nat \<Rightarrow> time \<Rightarrow> time \<Rightarrow> (nat \<Rightarrow> attempt) \<Rightarrow> breaker \<Rightarrow> call_result \<times> breaker" where
  "upstream_call max_attempts start finish f b =
    (if \<not> before_call start b then (CallOpen, b)
     else let a = last_attempt (max_attempts - 1) f 0 in
       if attempt_ok a
       then (case a of Answer code True \<Rightarrow> (CallOk, record_success b)
             | _ \<Rightarrow> (CallFailed a, record_failure finish (record_success b)))
       else (CallFailed a, record_failure finish b))"

section \<open>The service token\<close>

record token_cache =
  tc_token :: "string option"
  tc_expires :: time

definition refresh_skew :: int where
  "refresh_skew = 30 * second_us"

definition service_token :: "int \<Rightarrow> (time \<Rightarrow> string) \<Rightarrow> time \<Rightarrow> token_cache \<Rightarrow> string \<times> token_cache" where
  "service_token ttl mint now c = (case tc_token c of
     Some t \<Rightarrow> if now < tc_expires c - refresh_skew then (t, c)
        else (mint now, \<lparr>tc_token = Some (mint now), tc_expires = now + ttl * second_us\<rparr>)
   | None \<Rightarrow> (mint now, \<lparr>tc_token = Some (mint now), tc_expires = now + ttl * second_us\<rparr>))"

section \<open>Properties\<close>

lemma breaker_counts:
  "bk_opened b = None \<Longrightarrow> bk_failures b + length ts < bk_threshold b \<Longrightarrow>
   bk_opened (fold record_failure ts b) = None \<and> bk_failures (fold record_failure ts b) = bk_failures b + length ts \<and>
   bk_threshold (fold record_failure ts b) = bk_threshold b \<and> bk_reset (fold record_failure ts b) = bk_reset b"
  by (induction ts arbitrary: b) (auto simp: record_failure_def Let_def)

lemma record_failure_opened: "bk_opened b = Some t \<Longrightarrow> bk_opened (record_failure now b) = Some t"
  by (simp add: record_failure_def Let_def)

lemma fold_failure_opened:
  "bk_opened b = Some t \<Longrightarrow> bk_opened (fold record_failure ts b) = Some t \<and> bk_reset (fold record_failure ts b) = bk_reset b"
  by (induction ts arbitrary: b) (auto simp: record_failure_def Let_def)

text \<open>The breaker opens exactly at the threshold and protects the upstream: from a reset breaker,
  fewer than \<open>threshold\<close> consecutive failures leave it closed, the threshold-th opens it, and from
  then until \<open>reset\<close> has passed every call is refused without touching upstream or breaker.\<close>

theorem breaker_opens_at_threshold:
  assumes "0 < bk_threshold b" "length ts = bk_threshold b - 1"
    and "b0 = record_success b" "b1 = fold record_failure ts b0" "b2 = record_failure t b1"
    and "now - t < bk_reset b"
  shows "breaker_state now b1 = Closed \<and> bk_opened b2 = Some t \<and>
    upstream_call n now fin f b2 = (CallOpen, b2)"
proof -
  have b0: "bk_opened b0 = None" "bk_failures b0 = 0" "bk_threshold b0 = bk_threshold b" "bk_reset b0 = bk_reset b"
    by (simp_all add: assms(3) record_success_def)
  have "bk_failures b0 + length ts < bk_threshold b0" using assms(1,2) b0 by linarith
  from breaker_counts [OF b0(1) this, folded assms(4)]
  have b1: "bk_opened b1 = None" "bk_failures b1 = bk_threshold b - 1"
      "bk_threshold b1 = bk_threshold b" "bk_reset b1 = bk_reset b"
    unfolding b0 assms(2) by simp_all
  then have "bk_opened b2 = Some t" "bk_reset b2 = bk_reset b"
    using assms(1) by (simp_all add: assms(5) record_failure_def Let_def)
  then show ?thesis using b1 assms(6) by (simp add: breaker_state_def upstream_call_def before_call_def)
qed

theorem breaker_opens_at_threshold_witness:
  "upstream_call 3 107 120 (\<lambda>_. HttpxError)
     (record_failure 100 (fold record_failure [97, 98, 99, 99]
        (record_success \<lparr>bk_threshold = 5, bk_reset = 30, bk_failures = 2, bk_opened = Some 1\<rparr>)))
   = (CallOpen, record_failure 100 (fold record_failure [97, 98, 99, 99]
        (record_success \<lparr>bk_threshold = 5, bk_reset = 30, bk_failures = 2, bk_opened = Some 1\<rparr>)))"
  by (rule breaker_opens_at_threshold
      [where b = "\<lparr>bk_threshold = 5, bk_reset = 30, bk_failures = 2, bk_opened = Some 1\<rparr>" and
        ts = "[97, 98, 99, 99]", OF _ _ refl refl refl, THEN conjunct2, THEN conjunct2]) simp_all

text \<open>A failed probe does not open the breaker again. Once it has opened at \<open>t\<close>, further failures
  never move that instant: from \<open>t + reset\<close> on, however many probes have failed and whenever, every
  call is let through to the upstream (until one succeeds). The class comment promises a single
  probe after \<open>reset_seconds\<close>.\<close>

theorem breaker_failed_probe_stays_half_open:
  assumes "bk_opened b = Some t" "t + bk_reset b \<le> now"
  shows "breaker_state now (fold record_failure ts b) = HalfOpen \<and> before_call now (fold record_failure ts b)"
  using fold_failure_opened [OF assms(1), of ts] assms(2)
  by (simp add: breaker_state_def before_call_def)

theorem breaker_failed_probe_stays_half_open_witness:
  "before_call 131 (fold record_failure [130, 130, 130]
     \<lparr>bk_threshold = 5, bk_reset = 30, bk_failures = 5, bk_opened = Some 100\<rparr>)"
  using breaker_failed_probe_stays_half_open
    [of "\<lparr>bk_threshold = 5, bk_reset = 30, bk_failures = 5, bk_opened = Some 100\<rparr>" 100 131 "[130, 130, 130]"]
  by simp

text \<open>The token handed out is always at least 30 s from its expiry (for a lifetime above that).\<close>

lemma service_token_fresh:
  "30 < ttl \<Longrightarrow> service_token ttl mint now c = (t, c') \<Longrightarrow> now < tc_expires c' - refresh_skew"
  by (auto simp: service_token_def refresh_skew_def second_us_def split: option.splits if_splits)

end
