(* ===== verification/Offers.thy ===== *)
theory Offers
  imports KvStore Eligibility Faults
begin

text \<open>
  The mobile BFF's offer responses (\<^verbatim>\<open>services/mobile_api/app/api/mobile.py\<close>,
  \<^verbatim>\<open>respond_to_recommendation\<close>): the conditional transition of the offer row, the activation of the
  hot-path key inside the transaction, its voiding with a fence on every exit without a commit, and
  the effects after the commit.

  \<open>resp_env\<close> says what happens around one call: failures, what other transactions commit before a
  statement (\<open>rv_world\<close>), and the fate of the two Redis scripts. A write whose reply was lost or that
  is still under way (\<open>WriteLate\<close>) may reach Redis later: it then waits in \<open>ms_late\<close>.
\<close>

section \<open>The scripts\<close>

record activation =
  av_key :: string
  av_void :: string
  av_body :: rval

definition void_ttl_s :: int where
  "void_ttl_s = 24 * 3600"

definition activate_script :: "time \<Rightarrow> store \<Rightarrow> activation \<Rightarrow> int \<Rightarrow> store \<times> int" where
  "activate_script now s a ttl =
    (if kv_exists now s (av_void a) then (s, 0) else (kv_setex now s (av_key a) ttl (av_body a), 1))"

definition void_script :: "time \<Rightarrow> store \<Rightarrow> activation \<Rightarrow> store" where
  "void_script now s a =
    (let s1 = kv_setex now s (av_void a) void_ttl_s (VJson (JInt 1)) in
     if kv_get now s1 (av_key a) = Some (av_body a) then kv_del s1 (av_key a) else s1)"

section \<open>The transition\<close>

datatype respond_action = RespAccept | RespDecline | RespSnooze

primrec action_status :: "respond_action \<Rightarrow> response_status" where
  "action_status RespAccept = ACCEPTED"
| "action_status RespDecline = DECLINED"
| "action_status RespSnooze = SNOOZE"

definition respondable :: "response_status \<Rightarrow> bool" where
  "respondable st = (st = RS_PENDING \<or> st = SNOOZE)"

definition may_respond :: "time \<Rightarrow> uuid \<Rightarrow> uuid \<Rightarrow> rec_row \<Rightarrow> bool" where
  "may_respond now rid uid r =
    (re_id r = rid \<and> re_user r = uid \<and> respondable (re_status r) \<and> now < re_expires r)"

definition respond_row :: "time \<Rightarrow> respond_action \<Rightarrow> rec_row \<Rightarrow> rec_row" where
  "respond_row now act r = r\<lparr>re_status := action_status act, re_responded := Some now\<rparr>"

definition respond_write :: "time \<Rightarrow> uuid \<Rightarrow> uuid \<Rightarrow> respond_action \<Rightarrow> db \<Rightarrow> db" where
  "respond_write now rid uid act d =
     d\<lparr>recs := update_where (may_respond now rid uid) (respond_row now act) (recs d)\<rparr>"

text \<open>\<^verbatim>\<open>_respond_rejection\<close> on the row \<^verbatim>\<open>_RESPOND_STATE_SQL\<close> finds.\<close>

definition respond_rejection :: "time \<Rightarrow> rec_row option \<Rightarrow> nat" where
  "respond_rejection now cur = (case cur of None \<Rightarrow> 404
     | Some r \<Rightarrow>
        (let open_offer = respondable (re_status r); expired = (re_expires r \<le> now) in
         if re_status r = EXPIRED \<or> (open_offer \<and> expired) then 410 else 409))"

text \<open>\<^verbatim>\<open>math.ceil((expires_at - accepted_at).total_seconds())\<close>; exact while the span is below 285 years.\<close>

definition offer_ttl :: "time \<Rightarrow> time \<Rightarrow> int" where
  "offer_ttl expires accepted = - ((accepted - expires) div second_us)"

definition offer_body :: "(time \<Rightarrow> string) \<Rightarrow> rec_row \<Rightarrow> uuid \<Rightarrow> time \<Rightarrow> string \<Rightarrow> rval" where
  "offer_body isof r rid now aid =
     VJson (JObj [(''campaign_id'', JStr (uuid_text (re_campaign r))),
       (''recommendation_id'', JStr (uuid_text rid)), (''accepted_at'', JStr (isof now)),
       (''activation_id'', JStr aid)])"

definition activation_of :: "(time \<Rightarrow> string) \<Rightarrow> rec_row \<Rightarrow> uuid \<Rightarrow> time \<Rightarrow> string \<Rightarrow> activation" where
  "activation_of isof r rid now aid =
     \<lparr>av_key = offer_key (uuid_text (re_user r)) (py_strip (re_mcc r)),
      av_void = ''accepted_offers_void:'' @ aid, av_body = offer_body isof r rid now aid\<rparr>"

section \<open>The handler\<close>

datatype write_fate = WriteReplied | WriteReplyLost | WriteLate | WriteNever

datatype rstmt = RUpdate | RState | RCommit

record resp_env =
  rv_fault :: "rstmt \<Rightarrow> exn option"
  rv_world :: "rstmt \<Rightarrow> db \<Rightarrow> db"
  rv_now :: time
  rv_clock :: time
  rv_aid :: string
  rv_isof :: "time \<Rightarrow> string"
  rv_write :: write_fate
  rv_void_ok :: bool
  rv_commit_applied :: bool
  rv_kafka :: bool
  rv_snooze_days :: int

record accepted_event =
  ae_rec :: uuid
  ae_user :: uuid
  ae_campaign :: uuid
  ae_mcc :: string
  ae_ttl :: int

record mob_sys =
  ms_db :: db
  ms_redis :: store
  ms_late :: "(activation \<times> int) list"
  ms_events :: "accepted_event list"

datatype respond_result =
    Responded "string option" "time option"
  | HttpError nat
  | Raised exn

text \<open>\<^verbatim>\<open>_activate_offer\<close>: \<open>True\<close> when the script's reply says the key was written.\<close>

definition run_activation :: "resp_env \<Rightarrow> activation \<Rightarrow> int \<Rightarrow> mob_sys \<Rightarrow> bool \<times> mob_sys" where
  "run_activation env a ttl s = (case rv_write env of
     WriteReplied \<Rightarrow> (case activate_script (rv_clock env) (ms_redis s) a ttl of
        (st, n) \<Rightarrow> (n = 1, s\<lparr>ms_redis := st\<rparr>))
   | WriteReplyLost \<Rightarrow> (False, s\<lparr>ms_redis := fst (activate_script (rv_clock env) (ms_redis s) a ttl)\<rparr>)
   | WriteLate \<Rightarrow> (False, s\<lparr>ms_late := ms_late s @ [(a, ttl)]\<rparr>)
   | WriteNever \<Rightarrow> (False, s))"

definition run_void :: "resp_env \<Rightarrow> activation \<Rightarrow> mob_sys \<Rightarrow> mob_sys" where
  "run_void env a s = (if rv_void_ok env
     then s\<lparr>ms_redis := void_script (rv_clock env) (ms_redis s) a\<rparr> else s)"

text \<open>From the successful \<^verbatim>\<open>UPDATE\<close> on: commit, then the side effects.\<close>

definition respond_commit ::
  "resp_env \<Rightarrow> uuid \<Rightarrow> uuid \<Rightarrow> respond_action \<Rightarrow> rec_row \<Rightarrow> (activation \<times> int) option \<Rightarrow> mob_sys
   \<Rightarrow> respond_result \<times> mob_sys" where
  "respond_commit env rid uid act r av s =
    (let d = rv_world env RCommit (ms_db s);
         d' = respond_write (rv_now env) rid uid act d in
     case rv_fault env RCommit of
       Some e \<Rightarrow>
        (let s1 = s\<lparr>ms_db := if rv_commit_applied env then d' else d\<rparr> in
         (Raised e, case av of None \<Rightarrow> s1 | Some (a, ttl) \<Rightarrow> run_void env a s1))
     | None \<Rightarrow>
        (let s1 = s\<lparr>ms_db := d'\<rparr> in
         case av of
           Some (a, ttl) \<Rightarrow>
            (Responded (Some (av_key a)) None,
             if rv_kafka env
             then s1\<lparr>ms_events := ms_events s1 @ [\<lparr>ae_rec = rid, ae_user = re_user r,
                 ae_campaign = re_campaign r, ae_mcc = py_strip (re_mcc r), ae_ttl = ttl\<rparr>]\<rparr>
             else s1)
         | None \<Rightarrow> (Responded None
             (if act = RespSnooze then Some (rv_clock env + rv_snooze_days env * day_us) else None), s1)))"

definition respond ::
  "resp_env \<Rightarrow> uuid \<Rightarrow> uuid \<Rightarrow> respond_action \<Rightarrow> mob_sys \<Rightarrow> respond_result \<times> mob_sys" where
  "respond env rid uid act s =
    (let s0 = s\<lparr>ms_db := rv_world env RUpdate (ms_db s)\<rparr> in
     case rv_fault env RUpdate of
       Some e \<Rightarrow> (Raised e, s0)
     | None \<Rightarrow>
      (case find (may_respond (rv_now env) rid uid) (recs (ms_db s0)) of
         None \<Rightarrow>
          (let s1 = s0\<lparr>ms_db := rv_world env RState (ms_db s0)\<rparr> in
           case rv_fault env RState of
             Some e \<Rightarrow> (Raised e, s1)
           | None \<Rightarrow> (HttpError (respond_rejection (rv_now env)
               (find (\<lambda>r. re_id r = rid \<and> re_user r = uid) (recs (ms_db s1)))), s1))
       | Some r \<Rightarrow>
          if act = RespAccept then
            (let a = activation_of (rv_isof env) r rid (rv_now env) (rv_aid env);
                 ttl = offer_ttl (re_expires r) (rv_now env) in
             case run_activation env a ttl s0 of
               (False, s1) \<Rightarrow> (HttpError 503, run_void env a s1)
             | (True, s1) \<Rightarrow> respond_commit env rid uid act r (Some (a, ttl)) s1)
          else respond_commit env rid uid act r None s0))"

text \<open>A late write reaches Redis.\<close>

definition deliver_late :: "time \<Rightarrow> mob_sys \<Rightarrow> mob_sys" where
  "deliver_late now s = (case ms_late s of [] \<Rightarrow> s
     | (a, ttl) # rest \<Rightarrow>
        s\<lparr>ms_redis := fst (activate_script now (ms_redis s) a ttl), ms_late := rest\<rparr>)"

section \<open>The fence\<close>

lemma void_key_distinct: "av_void (activation_of isof r rid now aid) \<noteq> av_key (activation_of isof r rid now aid)"
  by (simp add: activation_of_def offer_key_def)

lemma kv_get_set:
  "kv_get now (kv_set s k v e) k' =
   (if k' = k then (case e of None \<Rightarrow> Some v | Some t \<Rightarrow> if now < t then Some v else None)
    else kv_get now s k')"
  by (simp add: kv_get_def kv_set_def split: option.split)

lemma void_script_fence:
  assumes "av_void a \<noteq> av_key a" "now' < now + void_ttl_s * second_us"
  shows "kv_exists now' (void_script now s a) (av_void a)"
  using assms by (simp add: kv_exists_def void_script_def Let_def kv.get_del kv_setex_def kv_get_set)

lemma kv_get_later: "kv_get now' s k = Some v \<Longrightarrow> now \<le> now' \<Longrightarrow> kv_get now s k = Some v"
  by (auto simp: kv_get_def split: option.splits if_splits)

lemma void_script_gone:
  assumes "av_void a \<noteq> av_key a" "now \<le> now'" "now' < now + void_ttl_s * second_us"
  shows "kv_get now' (void_script now s a) (av_key a) \<noteq> Some (av_body a)"
proof
  assume h: "kv_get now' (void_script now s a) (av_key a) = Some (av_body a)"
  then have "kv_get now (void_script now s a) (av_key a) = Some (av_body a)"
    using assms(2) by (rule kv_get_later)
  moreover have "kv_get now (void_script now s a) (av_key a) \<noteq> Some (av_body a)"
    using assms(1) by (simp add: void_script_def Let_def kv_setex_def kv_get_set kv.get_del)
  ultimately show False by simp
qed

lemma activate_fenced: "kv_exists now s (av_void a) \<Longrightarrow> activate_script now s a ttl = (s, 0)"
  by (simp add: activate_script_def)

text \<open>C13: No key without acceptance. When an attempt to accept ends without a commit reported to the
  handler (Redis failed, the reply was lost, the commit raised) and its void script ran, the client's
  hot-path key does not hold this attempt from then on, and for the 24 hours the fence lives a
  write of this attempt that reaches Redis late changes nothing.\<close>

theorem failed_accept_leaves_no_key:
  assumes "respond env rid uid RespAccept s = (res, s')" "rv_fault env RUpdate = None"
    and "find (may_respond (rv_now env) rid uid) (recs (rv_world env RUpdate (ms_db s))) = Some r"
    and "\<forall>x y. res \<noteq> Responded x y" "rv_void_ok env"
    and "a = activation_of (rv_isof env) r rid (rv_now env) (rv_aid env)"
    and "rv_clock env \<le> now" "now < rv_clock env + void_ttl_s * second_us"
  shows "kv_get now (ms_redis s') (av_key a) \<noteq> Some (av_body a) \<and>
    activate_script now (ms_redis s') a ttl = (ms_redis s', 0)"
proof -
  have ne: "av_void a \<noteq> av_key a" using assms(6) void_key_distinct by simp
  have "\<exists>st. ms_redis s' = void_script (rv_clock env) st a"
    using assms(1-6)
    by (auto simp: respond_def Let_def respond_commit_def run_void_def
        split: prod.splits bool.splits option.splits)
  then show ?thesis
    using void_script_gone [OF ne assms(7,8)] void_script_fence [OF ne assms(8)] activate_fenced
    by metis
qed

section \<open>One answer per offer\<close>

text \<open>The rows that are settled: accepted, declined or expired.\<close>

definition settled :: "rec_row \<Rightarrow> bool" where
  "settled r = (\<not> respondable (re_status r))"

definition keeps_settled :: "(db \<Rightarrow> db) \<Rightarrow> bool" where
  "keeps_settled f = (\<forall>d. \<forall>r \<in> set (recs d). settled r \<longrightarrow> r \<in> set (recs (f d)))"

lemma respond_write_settled: "keeps_settled (respond_write now rid uid act)"
  by (auto simp: keeps_settled_def respond_write_def set_update_where settled_def may_respond_def)

lemma ms_db_run_activation [simp]: "ms_db (snd (run_activation env a ttl s)) = ms_db s"
  by (simp add: run_activation_def split: write_fate.split prod.split)

lemma ms_db_run_void [simp]: "ms_db (run_void env a s) = ms_db s"
  by (simp add: run_void_def)

lemma respond_db:
  "ms_db (snd (respond env rid uid act s)) \<in>
   (let d0 = rv_world env RUpdate (ms_db s); d1 = rv_world env RCommit d0 in
    {d0, rv_world env RState d0, d1, respond_write (rv_now env) rid uid act d1})"
proof (cases "rv_fault env RUpdate")
  case (Some e)
  then show ?thesis by (simp add: respond_def Let_def)
next
  case None
  let ?s0 = "s\<lparr>ms_db := rv_world env RUpdate (ms_db s)\<rparr>"
  show ?thesis
  proof (cases "find (may_respond (rv_now env) rid uid) (recs (ms_db ?s0))")
    case None
    with \<open>rv_fault env RUpdate = None\<close> show ?thesis
      by (auto simp: respond_def Let_def split: option.split)
  next
    case (Some r)
    let ?a = "activation_of (rv_isof env) r rid (rv_now env) (rv_aid env)"
    let ?ttl = "offer_ttl (re_expires r) (rv_now env)"
    have commit: "ms_db (snd (respond_commit env rid uid act r av s1)) \<in>
        {rv_world env RCommit (ms_db s1), respond_write (rv_now env) rid uid act (rv_world env RCommit (ms_db s1))}"
      for av s1
      by (auto simp: respond_commit_def Let_def split: option.split prod.split)
    obtain ok s1 where run: "run_activation env ?a ?ttl ?s0 = (ok, s1)" by (cases "run_activation env ?a ?ttl ?s0")
    then have "ms_db s1 = ms_db ?s0" using ms_db_run_activation [of env ?a ?ttl ?s0] by simp
    then show ?thesis
      using None Some run commit [of "Some (?a, ?ttl)" s1] commit [of None ?s0]
      by (auto simp: respond_def Let_def split: bool.split)
  qed
qed


definition sample_offer :: rec_row where
  "sample_offer = \<lparr>re_id = 9, re_user = 3, re_campaign = 7, re_mcc = ''5411'', re_score = 1 / 2,
     re_generated = 0, re_status = RS_PENDING, re_expires = 10 ^ 14, re_responded = None, re_channel = None\<rparr>"

definition sample_resp_env :: resp_env where
  "sample_resp_env = \<lparr>rv_fault = (\<lambda>_. None), rv_world = (\<lambda>_ d. d), rv_now = 10, rv_clock = 11,
     rv_aid = ''a1'', rv_isof = (\<lambda>_. ''t''), rv_write = WriteReplyLost, rv_void_ok = True,
     rv_commit_applied = False, rv_kafka = True, rv_snooze_days = 3\<rparr>"

definition sample_mob :: mob_sys where
  "sample_mob = \<lparr>ms_db = sample_db\<lparr>recs := [sample_offer]\<rparr>, ms_redis = (\<lambda>_. None), ms_late = [],
     ms_events = []\<rparr>"

lemma sample_may_respond:
  "find (may_respond (rv_now sample_resp_env) 9 3) (recs (rv_world sample_resp_env RUpdate (ms_db sample_mob))) =
   Some sample_offer"
  by (simp add: sample_resp_env_def sample_mob_def sample_offer_def may_respond_def respondable_def)

theorem failed_accept_leaves_no_key_witness:
  "kv_get 12 (ms_redis (snd (respond sample_resp_env 9 3 RespAccept sample_mob)))
     (offer_key (uuid_text 3) ''5411'') \<noteq>
   Some (offer_body (\<lambda>_. ''t'') sample_offer 9 10 ''a1'')"
proof -
  let ?a = "activation_of (rv_isof sample_resp_env) sample_offer 9 (rv_now sample_resp_env) (rv_aid sample_resp_env)"
  obtain res s' where r: "respond sample_resp_env 9 3 RespAccept sample_mob = (res, s')" by fastforce
  have "res = HttpError 503"
    using r sample_may_respond
    by (simp add: respond_def Let_def run_activation_def sample_resp_env_def split: prod.splits)
  then have "\<forall>x y. res \<noteq> Responded x y" by simp
  note key = failed_accept_leaves_no_key [OF r _ sample_may_respond this _ refl, of 12]
  have "snd (respond sample_resp_env 9 3 RespAccept sample_mob) = s'" by (simp only: r snd_conv)
  then show ?thesis
    using key by (simp add: sample_resp_env_def void_ttl_s_def second_us_def activation_of_def
        sample_offer_def strip_by_def py_space_def)
qed


section \<open>A successful acceptance\<close>

text \<open>A reported acceptance is real. When the handler answers 200 to an acceptance, the offer was
  open, unexpired and the caller's own, its row is now accepted at the transaction's time, and the
  hot-path key is in Redis with exactly this offer until the offer expires (a whole second up).\<close>

theorem acceptance_is_real:
  assumes "respond env rid uid RespAccept s = (Responded k sn, s')"
    and "rv_world env = (\<lambda>_ d. d)" "unique_on re_id (recs (ms_db s))"
  shows "\<exists>r. find_by re_id rid (recs (ms_db s)) = Some r \<and> re_user r = uid \<and> respondable (re_status r) \<and>
    rv_now env < re_expires r \<and>
    find_by re_id rid (recs (ms_db s')) = Some (r\<lparr>re_status := ACCEPTED, re_responded := Some (rv_now env)\<rparr>) \<and>
    (\<forall>t. t < rv_clock env + offer_ttl (re_expires r) (rv_now env) * second_us \<longrightarrow>
       kv_get t (ms_redis s') (offer_key (uuid_text uid) (py_strip (re_mcc r))) =
         Some (offer_body (rv_isof env) r rid (rv_now env) (rv_aid env)))"
proof -
  let ?s0 = "s\<lparr>ms_db := ms_db s\<rparr>"
  have nf: "rv_fault env RUpdate = None" using assms(1) by (auto simp: respond_def Let_def split: option.splits)
  obtain r where r: "find (may_respond (rv_now env) rid uid) (recs (ms_db s)) = Some r"
    using assms(1,2) nf by (auto simp: respond_def Let_def split: option.splits)
  then have may: "may_respond (rv_now env) rid uid r" "r \<in> set (recs (ms_db s))"
    by (auto simp: find_Some_iff)
  let ?a = "activation_of (rv_isof env) r rid (rv_now env) (rv_aid env)"
  let ?ttl = "offer_ttl (re_expires r) (rv_now env)"
  obtain ok s1 where run: "run_activation env ?a ?ttl ?s0 = (ok, s1)" by (cases "run_activation env ?a ?ttl ?s0")
  then have ok: "ok" "rv_fault env RCommit = None"
    using assms(1,2) nf r by (auto simp: respond_def respond_commit_def Let_def split: bool.splits option.splits)
  have s': "ms_db s' = respond_write (rv_now env) rid uid RespAccept (ms_db s)" "ms_redis s' = ms_redis s1"
    using assms(1,2) nf r run ok ms_db_run_activation [of env ?a ?ttl ?s0]
    by (auto simp: respond_def respond_commit_def Let_def split: if_splits)
  have st: "ms_redis s1 = kv_setex (rv_clock env) (ms_redis s) (av_key ?a) ?ttl (av_body ?a)"
    using run ok(1)
    by (auto simp: run_activation_def activate_script_def split: write_fate.splits if_splits)
  have found: "find_by re_id rid (recs (ms_db s)) = Some r"
    using find_by_unique [OF assms(3) may(2)] may(1) by (simp add: may_respond_def)
  have "find_by re_id rid (recs (ms_db s')) = Some (respond_row (rv_now env) RespAccept r)"
    using found may(1) by (simp add: s' respond_write_def find_by_update_where respond_row_def)
  moreover have "kv_get t (ms_redis s') (offer_key (uuid_text uid) (py_strip (re_mcc r))) =
      Some (offer_body (rv_isof env) r rid (rv_now env) (rv_aid env))"
    if "t < rv_clock env + ?ttl * second_us" for t
    using that may(1) by (simp add: s' st kv_setex_def kv_get_set activation_of_def may_respond_def)
  ultimately show ?thesis
    using found may(1) by (auto simp: may_respond_def respond_row_def)
qed

lemma sample_accept:
  "\<exists>k sn s'. respond (sample_resp_env\<lparr>rv_write := WriteReplied\<rparr>) 9 3 RespAccept sample_mob = (Responded k sn, s')"
  using sample_may_respond
  by (simp add: respond_def Let_def run_activation_def activate_script_def sample_resp_env_def
      respond_commit_def kv_exists_def kv_get_def sample_mob_def)

theorem acceptance_is_real_witness:
  "find_by re_id 9 (recs (ms_db (snd (respond (sample_resp_env\<lparr>rv_write := WriteReplied\<rparr>) 9 3 RespAccept sample_mob)))) =
   Some (sample_offer\<lparr>re_status := ACCEPTED, re_responded := Some 10\<rparr>)"
proof -
  let ?env = "sample_resp_env\<lparr>rv_write := WriteReplied\<rparr>"
  obtain k sn s' where r: "respond ?env 9 3 RespAccept sample_mob = (Responded k sn, s')"
    using sample_accept by blast
  have "rv_world ?env = (\<lambda>_ d. d)" "unique_on re_id (recs (ms_db sample_mob))"
    by (simp_all add: sample_resp_env_def sample_mob_def)
  note acc = acceptance_is_real [OF r this]
  have "snd (respond ?env 9 3 RespAccept sample_mob) = s'" by (simp only: r snd_conv)
  moreover have "find_by re_id 9 (recs (ms_db sample_mob)) = Some sample_offer" "rv_now ?env = 10"
    by (simp_all add: sample_mob_def sample_offer_def sample_resp_env_def)
  ultimately show ?thesis using acc by auto
qed

end
