(* ===== verification/MobileFeed.thy ===== *)
theory MobileFeed
  imports Serving Breaker Offers
begin

text \<open>
  The offers of the mobile BFF, \<^verbatim>\<open>GET /v1/mobile/recommendations/{user_id}\<close>
  (\<^verbatim>\<open>services/mobile_api/app/api/mobile.py\<close>), and who may call what: the customer tokens of mobile_api and
  the service tokens of the recommendation API (the two \<^verbatim>\<open>security.py\<close>, \<^verbatim>\<open>service_token.py\<close>).

  Parameters: \<^verbatim>\<open>jwt.decode\<close> (the claims of a token with a valid signature, audience, issuer and term),
  the attempts of the client, what other transactions commit, the texts of the catalogue (Cyrillic), the
  ellipsis, \<^verbatim>\<open>str\<close> of a float or a container and the reading of a time by pydantic. A rate is a value
  of \<^verbatim>\<open>NUMERIC(5, 2)\<close>; the dash that stands for no rate is \<open>None\<close>.
\<close>

section \<open>Tokens\<close>

type_synonym token_claims = "(string \<times> json) list"

definition CUSTOMER_TYPE :: string where "CUSTOMER_TYPE = ''customer''"

definition SERVICE_TYPE :: string where "SERVICE_TYPE = ''service''"

definition ISSUER_MOBILE_API :: string where "ISSUER_MOBILE_API = ''mobile-api''"

definition ISSUER_CAMPAIGN_MANAGER :: string where "ISSUER_CAMPAIGN_MANAGER = ''campaign-manager''"

definition decode_customer_token :: "(string \<Rightarrow> token_claims option) \<Rightarrow> string \<Rightarrow> uuid answer" where
  "decode_customer_token dec tok =
    (case dec tok of
       None \<Rightarrow> Reject 401
     | Some payload \<Rightarrow>
        if jget payload ''type'' \<noteq> JStr CUSTOMER_TYPE then Reject 401
        else (case members payload ''sub'' of
           None \<Rightarrow> Crash (py_error ''KeyError'')
         | Some (JStr t) \<Rightarrow> (case parse_uuid t of None \<Rightarrow> Reject 401 | Some u \<Rightarrow> Reply u)
         | Some _ \<Rightarrow> Crash (py_error ''AttributeError'')))"

definition require_customer :: "(string \<Rightarrow> token_claims option) \<Rightarrow> string option \<Rightarrow> uuid answer" where
  "require_customer dec creds = (case creds of None \<Rightarrow> Reject 401 | Some tok \<Rightarrow> decode_customer_token dec tok)"

definition require_own_user_id :: "(string \<Rightarrow> token_claims option) \<Rightarrow> string option \<Rightarrow> uuid \<Rightarrow> uuid answer" where
  "require_own_user_id dec creds uid =
    (case require_customer dec creds of
       Reply u \<Rightarrow> if uid \<noteq> u then Reject 403 else Reply uid
     | r \<Rightarrow> r)"

definition decode_service_token :: "(string \<Rightarrow> token_claims option) \<Rightarrow> string \<Rightarrow> token_claims answer" where
  "decode_service_token dec tok =
    (case dec tok of
       None \<Rightarrow> Reject 401
     | Some payload \<Rightarrow>
        if jget payload ''type'' \<noteq> JStr SERVICE_TYPE then Reject 401
        else (case jget payload ''iss'' of JStr _ \<Rightarrow> Reply payload | _ \<Rightarrow> Reject 401))"

definition authorize :: "(string \<Rightarrow> token_claims option) \<Rightarrow> string option \<Rightarrow> string list \<Rightarrow> token_claims answer" where
  "authorize dec creds issuers =
    (case creds of
       None \<Rightarrow> Reject 401
     | Some tok \<Rightarrow>
        (case decode_service_token dec tok of
           Reply payload \<Rightarrow>
             if jget payload ''iss'' \<notin> JStr ` set issuers then Reject 403 else Reply payload
         | r \<Rightarrow> r))"

definition require_mobile_api :: "(string \<Rightarrow> token_claims option) \<Rightarrow> string option \<Rightarrow> token_claims answer" where
  "require_mobile_api dec creds = authorize dec creds [ISSUER_MOBILE_API]"

definition require_campaign_manager :: "(string \<Rightarrow> token_claims option) \<Rightarrow> string option \<Rightarrow> token_claims answer" where
  "require_campaign_manager dec creds = authorize dec creds [ISSUER_CAMPAIGN_MANAGER]"

text \<open>The payload mobile_api signs, \<open>ts\<close> and \<open>ttl\<close> in seconds.\<close>

definition service_claims :: "int \<Rightarrow> int \<Rightarrow> token_claims" where
  "service_claims ts ttl =
     [(''iss'', JStr ISSUER_MOBILE_API), (''sub'', JStr ISSUER_MOBILE_API), (''aud'', JStr ''recommendation-api''),
      (''type'', JStr SERVICE_TYPE), (''iat'', JInt ts), (''exp'', JInt (ts + ttl))]"

section \<open>The catalogue\<close>

definition MCC_CATALOG :: "(string \<times> string) list" where
  "MCC_CATALOG =
     [(''5411'', ''groceries''), (''5499'', ''groceries''), (''5812'', ''restaurant''), (''5814'', ''fastfood''),
      (''5541'', ''fuel''), (''5912'', ''pharmacy''), (''5311'', ''department''), (''5651'', ''apparel''),
      (''5732'', ''electronics''), (''5942'', ''book''), (''5921'', ''alcohol''), (''5462'', ''bakery''),
      (''4111'', ''transit''), (''4121'', ''taxi''), (''4131'', ''bus''), (''4814'', ''telecom''),
      (''4829'', ''transfer''), (''4900'', ''utilities''), (''7832'', ''cinema''), (''7011'', ''hotel'')]"

text \<open>The entry of a code: its key (\<open>None\<close>: \<^verbatim>\<open>DEFAULT_INFO\<close>) and its icon.\<close>

definition mcc_entry :: "string \<Rightarrow> string option" where
  "mcc_entry mcc = (if map_of MCC_CATALOG (py_strip mcc) = None then None else Some (py_strip mcc))"

definition mcc_icon :: "string \<Rightarrow> string" where
  "mcc_icon mcc = (case map_of MCC_CATALOG (py_strip mcc) of None \<Rightarrow> ''default'' | Some i \<Rightarrow> i)"

definition icon_url :: "string \<Rightarrow> string \<Rightarrow> string" where
  "icon_url cdn mcc = rev (dropWhile (\<lambda>c. c = CHR ''/'') (rev cdn)) @ ''/'' @ mcc_icon mcc @ ''.png''"

definition format_rate :: "rat option \<Rightarrow> string option" where
  "format_rate rate =
    (case rate of
       None \<Rightarrow> None
     | Some v \<Rightarrow>
        (let c = nat \<lfloor>\<bar>v\<bar> * 100\<rfloor>; whole = nat_text (c div 100); part = c mod 100 in
         Some ((if v < 0 then ''-'' else []) @ whole @
           (if part = 0 then [] else if part mod 10 = 0 then ''.'' @ nat_text (part div 10)
            else ''.'' @ nat_text (part div 10) @ nat_text (part mod 10)) @ ''%'')))"

definition trim :: "char \<Rightarrow> nat \<Rightarrow> string \<Rightarrow> string" where
  "trim dots max_len t =
    (if length t \<le> max_len then t
     else rev (dropWhile py_space (rev (take (max_len - 1) t))) @ [dots])"

section \<open>The request\<close>

datatype feed_stmt = FContext | FMark

record feed_env =
  fe_decode :: "string \<Rightarrow> token_claims option"
  fe_max_attempts :: nat
  fe_start :: time
  fe_finish :: time
  fe_attempt :: "nat \<Rightarrow> attempt"
  fe_body :: json
  fe_world :: "feed_stmt \<Rightarrow> db \<Rightarrow> db"
  fe_fault :: "feed_stmt \<Rightarrow> bool"
  fe_applied :: bool
  fe_str :: "json \<Rightarrow> string"
  fe_time :: "json \<Rightarrow> time option"
  fe_name :: "string option \<Rightarrow> string"
  fe_terms :: "string option \<Rightarrow> string"
  fe_dots :: char
  fe_cdn :: string
  fe_deeplink :: "string \<Rightarrow> string"

record feed_request =
  fq_creds :: "string option"
  fq_user :: uuid
  fq_top_k :: "nat option"
  fq_amount :: "rat option"
  fq_channel :: "string option"

record feed_item =
  fi_id :: uuid
  fi_mcc :: string
  fi_category :: string
  fi_icon :: string
  fi_rate :: "string option"
  fi_expires :: "time option"
  fi_terms :: string
  fi_deeplink :: string
  fi_campaign :: "uuid option"
  fi_campaign_name :: "string option"

record feed_response =
  fp_user :: uuid
  fp_items :: "feed_item list"
  fp_version :: "string option"

record feed_sys =
  fs_breaker :: breaker
  fs_db :: db

definition feed_request_ok :: "feed_request \<Rightarrow> bool" where
  "feed_request_ok rq = (opt_ok (\<lambda>k. 1 \<le> k \<and> k \<le> 20) (fq_top_k rq) \<and> opt_ok (\<lambda>a. 0 \<le> a) (fq_amount rq) \<and>
     opt_ok (\<lambda>c. c \<in> set [''ONLINE'', ''POS'', ''ATM'', ''MOBILE'']) (fq_channel rq))"

text \<open>What mobile_api asks the recommendation API.\<close>

definition upstream_request :: "nat \<Rightarrow> feed_request \<Rightarrow> rec_request" where
  "upstream_request default_top_k rq =
     \<lparr>rq_user = uuid_text (fq_user rq),
      rq_top_k = (case fq_top_k rq of None \<Rightarrow> default_top_k | Some k \<Rightarrow> k),
      rq_amount = fq_amount rq, rq_channel = fq_channel rq\<rparr>"

section \<open>The offers of the answer\<close>

text \<open>A \<^verbatim>\<open>for\<close> over \<^verbatim>\<open>upstream.get("recommendations", [])\<close>; offers without an id are left out.\<close>

fun offers_with_id :: "json list \<Rightarrow> exn + token_claims list" where
  "offers_with_id [] = Inr []"
| "offers_with_id (JObj item # vs) =
     (case offers_with_id vs of
        Inl e \<Rightarrow> Inl e
      | Inr items \<Rightarrow> Inr (if py_truthy (jget item ''recommendation_id'') then item # items else items))"
| "offers_with_id (_ # vs) = Inl (py_error ''AttributeError'')"

definition raw_items :: "token_claims \<Rightarrow> exn + token_claims list" where
  "raw_items upstream =
    (case members upstream ''recommendations'' of
       None \<Rightarrow> Inr []
     | Some (JArr vs) \<Rightarrow> offers_with_id vs
     | Some (JStr []) \<Rightarrow> Inr []
     | Some (JObj []) \<Rightarrow> Inr []
     | Some (JStr _) \<Rightarrow> Inl (py_error ''AttributeError'')
     | Some (JObj _) \<Rightarrow> Inl (py_error ''AttributeError'')
     | Some _ \<Rightarrow> Inl (py_error ''TypeError''))"

definition py_str :: "feed_env \<Rightarrow> json \<Rightarrow> string" where
  "py_str env v = (case json_text v of Some t \<Rightarrow> t | None \<Rightarrow> fe_str env v)"

fun map_result :: "('a \<Rightarrow> exn + 'b) \<Rightarrow> 'a list \<Rightarrow> exn + 'b list" where
  "map_result f [] = Inr []"
| "map_result f (x # xs) = (case f x of Inl e \<Rightarrow> Inl e
     | Inr y \<Rightarrow> (case map_result f xs of Inl e \<Rightarrow> Inl e | Inr ys \<Rightarrow> Inr (y # ys)))"

definition rec_id_of :: "token_claims \<Rightarrow> exn + uuid" where
  "rec_id_of item =
    (case json_text (jget item ''recommendation_id'') of
       None \<Rightarrow> Inl (py_error ''ValueError'')
     | Some t \<Rightarrow> (case parse_uuid t of None \<Rightarrow> Inl (py_error ''ValueError'') | Some u \<Rightarrow> Inr u))"

definition campaign_id_of :: "token_claims \<Rightarrow> exn + uuid option" where
  "campaign_id_of item =
    (if \<not> py_truthy (jget item ''campaign_id'') then Inr None
     else case jget item ''campaign_id'' of
       JStr t \<Rightarrow> (case parse_uuid t of None \<Rightarrow> Inl (py_error ''ValueError'') | Some u \<Rightarrow> Inr (Some u))
     | _ \<Rightarrow> Inl (py_error ''AttributeError''))"

definition fetch_campaign_context ::
  "feed_env \<Rightarrow> uuid list \<Rightarrow> db \<Rightarrow> (string \<Rightarrow> (string \<times> rat) option) \<times> db" where
  "fetch_campaign_context env cids d =
    (if cids = [] then (Map.empty, d)
     else let d1 = fe_world env FContext d in
       ((if fe_fault env FContext then Map.empty
         else map_of (map (\<lambda>c. (uuid_text (ca_id c), (ca_name c, ca_rate c)))
           (filter (\<lambda>c. ca_id c \<in> set cids) (campaigns d1)))), d1))"

definition shown_now :: "uuid \<Rightarrow> uuid list \<Rightarrow> rec_row \<Rightarrow> bool" where
  "shown_now uid rids r = (re_id r \<in> set rids \<and> re_user r = uid \<and> re_channel r = None)"

definition mark_shown_in_app :: "feed_env \<Rightarrow> uuid \<Rightarrow> uuid list \<Rightarrow> db \<Rightarrow> db" where
  "mark_shown_in_app env uid rids d =
    (if rids = [] then d
     else let d1 = fe_world env FMark d in
       if fe_fault env FMark \<and> \<not> fe_applied env then d1
       else d1\<lparr>recs := update_where (shown_now uid rids) (\<lambda>r. r\<lparr>re_channel := Some ''IN_APP''\<rparr>) (recs d1)\<rparr>)"

definition expires_of :: "feed_env \<Rightarrow> token_claims \<Rightarrow> exn + time option" where
  "expires_of env item =
    (case jget item ''expires_at'' of
       JNull \<Rightarrow> Inr None
     | v \<Rightarrow> (case fe_time env v of None \<Rightarrow> Inl (py_error ''ValidationError'') | Some t \<Rightarrow> Inr (Some t)))"

definition mobile_item ::
  "feed_env \<Rightarrow> (string \<Rightarrow> (string \<times> rat) option) \<Rightarrow> uuid \<times> token_claims \<Rightarrow> exn + feed_item" where
  "mobile_item env ctx p =
    (case p of (rid, item) \<Rightarrow>
      (let mcc = py_strip (case members item ''mcc_code'' of None \<Rightarrow> [] | Some v \<Rightarrow> py_str env v);
           entry = mcc_entry mcc;
           c = (if py_truthy (jget item ''campaign_id'') then ctx (py_str env (jget item ''campaign_id'')) else None) in
       case campaign_id_of item of
         Inl e \<Rightarrow> Inl e
       | Inr cid \<Rightarrow>
          (case expires_of env item of
             Inl e \<Rightarrow> Inl e
           | Inr expires \<Rightarrow>
              Inr \<lparr>fi_id = rid, fi_mcc = (if mcc = [] then ''0000'' else mcc), fi_category = fe_name env entry,
                fi_icon = icon_url (fe_cdn env) mcc, fi_rate = format_rate (map_option snd c), fi_expires = expires,
                fi_terms = trim (fe_dots env) 140 (fe_terms env entry), fi_deeplink = fe_deeplink env (uuid_text rid),
                fi_campaign = cid, fi_campaign_name = map_option fst c\<rparr>)))"

definition version_of :: "token_claims \<Rightarrow> exn + string option" where
  "version_of upstream =
    (case jget upstream ''model_version'' of
       JNull \<Rightarrow> Inr None | JStr v \<Rightarrow> Inr (Some v) | _ \<Rightarrow> Inl (py_error ''ValidationError''))"

definition present_offers :: "feed_env \<Rightarrow> uuid \<Rightarrow> token_claims \<Rightarrow> db \<Rightarrow> feed_response answer \<times> db" where
  "present_offers env uid upstream d =
    (case raw_items upstream of
       Inl e \<Rightarrow> (Crash e, d)
     | Inr items \<Rightarrow>
        (case map_result rec_id_of items of
           Inl e \<Rightarrow> (Crash e, d)
         | Inr rids \<Rightarrow>
            (case map_result campaign_id_of items of
               Inl e \<Rightarrow> (Crash e, d)
             | Inr cids \<Rightarrow>
                (let (ctx, d1) = fetch_campaign_context env (List.map_filter id cids) d;
                     d2 = mark_shown_in_app env uid rids d1 in
                 case map_result (mobile_item env ctx) (zip rids items) of
                   Inl e \<Rightarrow> (Crash e, d2)
                 | Inr shown \<Rightarrow>
                    (case version_of upstream of
                       Inl e \<Rightarrow> (Crash e, d2)
                     | Inr v \<Rightarrow> (Reply \<lparr>fp_user = uid, fp_items = shown, fp_version = v\<rparr>, d2))))))"

definition get_mobile_recommendations :: "feed_env \<Rightarrow> feed_request \<Rightarrow> feed_sys \<Rightarrow> feed_response answer \<times> feed_sys" where
  "get_mobile_recommendations env rq s =
    (case require_own_user_id (fe_decode env) (fq_creds rq) (fq_user rq) of
       Crash e \<Rightarrow> (Crash e, s)
     | Reject n \<Rightarrow> (Reject n, s)
     | Reply uid \<Rightarrow>
        if \<not> feed_request_ok rq then (Reject 422, s)
        else (case upstream_call (fe_max_attempts env) (fe_start env) (fe_finish env) (fe_attempt env) (fs_breaker s) of
           (CallOpen, b) \<Rightarrow> (Reject 503, s\<lparr>fs_breaker := b\<rparr>)
         | (CallFailed a, b) \<Rightarrow> (Reject 502, s\<lparr>fs_breaker := b\<rparr>)
         | (CallOk, b) \<Rightarrow>
            (case fe_body env of
               JObj upstream \<Rightarrow>
                 (let (r, d) = present_offers env uid upstream (fs_db s) in (r, \<lparr>fs_breaker = b, fs_db = d\<rparr>))
             | _ \<Rightarrow> (Crash (py_error ''AttributeError''), s\<lparr>fs_breaker := b\<rparr>))))"


section \<open>Who may call\<close>

lemma require_own_user_id_reply:
  "require_own_user_id dec creds uid = Reply u \<longleftrightarrow> u = uid \<and> (\<exists>tok payload t. creds = Some tok \<and> dec tok = Some payload \<and>
     jget payload ''type'' = JStr CUSTOMER_TYPE \<and> members payload ''sub'' = Some (JStr t) \<and> parse_uuid t = Some uid)"
  by (auto simp: require_own_user_id_def require_customer_def decode_customer_token_def
      split: answer.splits option.splits json.splits if_splits)

text \<open>The offers of a client, and every effect of asking for them, are for that client only: an answer
  other than a refusal without any effect presupposes a customer token whose subject is the client of
  the path.\<close>

theorem feed_is_the_clients_own:
  assumes "get_mobile_recommendations env rq s = (a, s')" "replied a \<or> s' \<noteq> s"
  shows "\<exists>tok payload t. fq_creds rq = Some tok \<and> fe_decode env tok = Some payload \<and>
    jget payload ''type'' = JStr CUSTOMER_TYPE \<and> members payload ''sub'' = Some (JStr t) \<and> parse_uuid t = Some (fq_user rq)"
proof -
  have "require_own_user_id (fe_decode env) (fq_creds rq) (fq_user rq) = Reply (fq_user rq)"
    using assms by (cases "require_own_user_id (fe_decode env) (fq_creds rq) (fq_user rq)")
      (auto simp: get_mobile_recommendations_def require_own_user_id_reply)
  then show ?thesis by (simp add: require_own_user_id_reply)
qed

text \<open>The token mobile_api mints opens the serving route and not the explanation; a token of another type,
  such as an administrator's, opens neither.\<close>

lemma service_token_scope:
  assumes "dec tok = Some (service_claims ts ttl)"
  shows "require_mobile_api dec (Some tok) = Reply (service_claims ts ttl) \<and>
    require_campaign_manager dec (Some tok) = Reject 403"
  using assms
  by (simp add: require_mobile_api_def require_campaign_manager_def authorize_def decode_service_token_def
      service_claims_def jget_def members_def ISSUER_MOBILE_API_def ISSUER_CAMPAIGN_MANAGER_def SERVICE_TYPE_def)

lemma foreign_token_refused:
  assumes "dec tok = Some payload" "jget payload ''type'' \<noteq> JStr SERVICE_TYPE"
  shows "require_mobile_api dec (Some tok) = Reject 401 \<and> require_campaign_manager dec (Some tok) = Reject 401"
  using assms by (simp add: require_mobile_api_def require_campaign_manager_def authorize_def decode_service_token_def)

section \<open>What a request changes\<close>

lemma shown_none: "d\<lparr>recs := update_where (shown_now uid []) f (recs d)\<rparr> = d"
  by (simp add: shown_now_def)

text \<open>Whatever happens, a request changes nothing in the database but the delivery channel of this
  client's offers, and of those only where no channel had been recorded.\<close>

theorem feed_changes_channels_only:
  assumes "\<forall>st d. fe_world env st d = d"
  shows "\<exists>rids. fs_db (snd (get_mobile_recommendations env rq s)) =
    (fs_db s)\<lparr>recs := update_where (shown_now (fq_user rq) rids) (\<lambda>r. r\<lparr>re_channel := Some ''IN_APP''\<rparr>) (recs (fs_db s))\<rparr>"
    (is "\<exists>rids. ?d = ?upd (fq_user rq) rids (fs_db s)")
proof -
  have none: "?upd uid [] d = d" for uid d by (rule shown_none)
  have mark: "\<exists>rids. mark_shown_in_app env uid rs d = ?upd uid rids d" for uid rs d
    using none [of uid d] assms by (simp add: mark_shown_in_app_def Let_def) metis
  have ctx: "snd (fetch_campaign_context env cids d) = d" for cids d
    using assms by (simp add: fetch_campaign_context_def)
  have present: "\<exists>rids. snd (present_offers env uid up d) = ?upd uid rids d" for uid up d
  proof -
    have "snd (present_offers env uid up d) = d \<or> (\<exists>rs. snd (present_offers env uid up d) = mark_shown_in_app env uid rs d)"
      using ctx by (auto simp: present_offers_def Let_def split: sum.splits prod.splits) (metis snd_conv)+
    then show ?thesis using mark none by metis
  qed
  have "?d = fs_db s \<or> (\<exists>up. ?d = snd (present_offers env (fq_user rq) up (fs_db s)))"
    by (auto simp: get_mobile_recommendations_def require_own_user_id_reply Let_def split: answer.splits prod.splits
        call_result.splits json.splits) (metis snd_conv)
  then show ?thesis using present none by metis
qed

section \<open>From the stored offer to the screen\<close>

text \<open>The members of the recommendation API's answer that mobile_api reads.\<close>

definition item_members :: "(time \<Rightarrow> string) \<Rightarrow> rec_item \<Rightarrow> token_claims" where
  "item_members isof it =
     [(''mcc_code'', JStr (it_mcc it)), (''campaign_id'', JStr (uuid_text (it_campaign it))),
      (''recommendation_id'', case it_rec it of None \<Rightarrow> JNull | Some r \<Rightarrow> JStr (uuid_text r)),
      (''expires_at'', case it_expires it of None \<Rightarrow> JNull | Some t \<Rightarrow> JStr (isof t))]"

definition response_members :: "(time \<Rightarrow> string) \<Rightarrow> rec_response \<Rightarrow> token_claims" where
  "response_members isof resp =
     [(''user_id'', JStr (rp_user resp)), (''recommendations'', JArr (map (\<lambda>it. JObj (item_members isof it)) (rp_items resp))),
      (''model_version'', case rp_version resp of None \<Rightarrow> JNull | Some v \<Rightarrow> JStr v)]"

definition well_stored :: "rec_item \<Rightarrow> bool" where
  "well_stored it = (it_campaign it < 2 ^ 128 \<and> (\<exists>r t. it_rec it = Some r \<and> r < 2 ^ 128 \<and> it_expires it = Some t))"

definition shown_item :: "feed_env \<Rightarrow> (string \<Rightarrow> (string \<times> rat) option) \<Rightarrow> rec_item \<Rightarrow> feed_item" where
  "shown_item env ctx it =
    (let mcc = py_strip (it_mcc it); c = ctx (uuid_text (it_campaign it)); rid = the (it_rec it) in
     \<lparr>fi_id = rid, fi_mcc = (if mcc = [] then ''0000'' else mcc), fi_category = fe_name env (mcc_entry mcc),
      fi_icon = icon_url (fe_cdn env) mcc, fi_rate = format_rate (map_option snd c), fi_expires = it_expires it,
      fi_terms = trim (fe_dots env) 140 (fe_terms env (mcc_entry mcc)), fi_deeplink = fe_deeplink env (uuid_text rid),
      fi_campaign = Some (it_campaign it), fi_campaign_name = map_option fst c\<rparr>)"

lemma uuid_text_nonempty [simp]: "uuid_text n \<noteq> []"
  by (metis length_uuid_text list.size(3) zero_neq_numeral)

lemma item_reads:
  "jget (item_members isof it) ''campaign_id'' = JStr (uuid_text (it_campaign it))"
  "members (item_members isof it) ''mcc_code'' = Some (JStr (it_mcc it))"
  "it_rec it = Some r \<Longrightarrow> jget (item_members isof it) ''recommendation_id'' = JStr (uuid_text r)"
  "it_expires it = Some t \<Longrightarrow> jget (item_members isof it) ''expires_at'' = JStr (isof t)"
  by (simp_all add: item_members_def jget_def members_def)

lemma response_reads:
  "members (response_members isof resp) ''recommendations'' =
     Some (JArr (map (\<lambda>it. JObj (item_members isof it)) (rp_items resp)))"
  "version_of (response_members isof resp) = Inr (rp_version resp)"
  by (auto simp: response_members_def version_of_def jget_def members_def split: option.split)

lemma map_result_map: "map_result f (map h xs) = map_result (f \<circ> h) xs"
  by (induction xs) (simp_all split: sum.split)

lemma map_result_ok: "(\<And>x. x \<in> set xs \<Longrightarrow> f x = Inr (g x)) \<Longrightarrow> map_result f xs = Inr (map g xs)"
  by (induction xs) simp_all

lemma offers_with_id_stored:
  "(\<And>it. it \<in> set its \<Longrightarrow> well_stored it) \<Longrightarrow>
   offers_with_id (map (\<lambda>it. JObj (item_members isof it)) its) = Inr (map (item_members isof) its)"
proof (induction its)
  case (Cons it its)
  then obtain r where "it_rec it = Some r" by (auto simp: well_stored_def)
  with Cons show ?case by (simp add: item_reads)
qed simp

lemma mobile_item_stored:
  assumes "well_stored it" "\<forall>t. fe_time env (JStr (isof t)) = Some t"
  shows "mobile_item env ctx (the (it_rec it), item_members isof it) = Inr (shown_item env ctx it)"
  using assms
  by (auto simp: well_stored_def mobile_item_def campaign_id_of_def expires_of_def item_reads parse_uuid_text py_str_def
      shown_item_def Let_def)

lemma present_stored:
  assumes "\<And>it. it \<in> set (rp_items resp) \<Longrightarrow> well_stored it" "\<forall>t. fe_time env (JStr (isof t)) = Some t"
  shows "\<exists>ctx. present_offers env uid (response_members isof resp) d =
    (Reply \<lparr>fp_user = uid, fp_items = map (shown_item env ctx) (rp_items resp), fp_version = rp_version resp\<rparr>,
     mark_shown_in_app env uid (map (the \<circ> it_rec) (rp_items resp))
       (snd (fetch_campaign_context env (map it_campaign (rp_items resp)) d)))"
proof -
  let ?its = "rp_items resp"
  have raw: "raw_items (response_members isof resp) = Inr (map (item_members isof) ?its)"
    using assms(1) by (simp add: raw_items_def response_reads offers_with_id_stored)
  have "map_result rec_id_of (map (item_members isof) ?its) = Inr (map (the \<circ> it_rec) ?its)"
    using map_result_ok [of ?its "rec_id_of \<circ> item_members isof" "the \<circ> it_rec"] assms(1)
    by (fastforce simp: map_result_map rec_id_of_def item_reads parse_uuid_text well_stored_def)
  moreover have "map_result campaign_id_of (map (item_members isof) ?its) = Inr (map (Some \<circ> it_campaign) ?its)"
    using map_result_ok [of ?its "campaign_id_of \<circ> item_members isof" "Some \<circ> it_campaign"] assms(1)
    by (fastforce simp: map_result_map campaign_id_of_def item_reads parse_uuid_text well_stored_def)
  moreover have "map_result (mobile_item env ctx) (zip (map (the \<circ> it_rec) ?its) (map (item_members isof) ?its)) =
      Inr (map (shown_item env ctx) ?its)" for ctx
    using map_result_ok [of ?its "\<lambda>it. mobile_item env ctx (the (it_rec it), item_members isof it)" "shown_item env ctx"]
      assms mobile_item_stored [of _ env isof ctx]
    by (simp add: zip_map_map zip_same_conv_map map_result_map comp_def)
  moreover have "List.map_filter id (map (Some \<circ> it_campaign) ?its) = map it_campaign ?its"
    by (simp add: map_filter_def comp_def)
  ultimately show ?thesis
    by (auto simp: present_offers_def raw response_reads Let_def split: prod.split)
qed


text \<open>The rows behind an answer of the recommendation API, and their owner.\<close>

lemma served_rows:
  assumes "alone env" "get_recommendations env sigmoid g w rq s = (Reply resp, s')"
  shows "\<exists>rows. recs (rs_db s') = recs (rs_db s) @ rows \<and>
    list_all2 (stored_as env (rs_db s) (the (re_uuid env (rq_user rq)))) (rp_items resp) rows"
  using assms(2)
proof (cases rule: get_recommendations_cases)
  case (stored resp0 camps s1 served s2 missed)
  have f: "rs_db s1 = rs_db s" using recommend_frame [OF stored(2) assms(1)] by auto
  obtain rows where rows: "s2 = (if rp_items resp0 = [] then s1 else store_offers (rp_version resp0) rows s1)"
      "rp_items resp0 = [] \<longrightarrow> rows = []" "list_all2 (stored_as env (rs_db s) (the (re_uuid env (rq_user rq)))) served rows"
    using persist_alone [OF assms(1) stored(3)] f by auto
  have "rp_items resp = served" using stored(8) by (auto split: if_splits option.splits prod.splits)
  moreover have "recs (rs_db s') = recs (rs_db s) @ rows" using rows(1,2) stored(5) f by auto
  ultimately show ?thesis using rows(3) by blast
qed auto

definition uuids_fit :: "db \<Rightarrow> bool" where
  "uuids_fit d = list_all (\<lambda>r. re_id r < 2 ^ 128 \<and> re_campaign r < 2 ^ 128) (recs d)"

lemma served_well_stored:
  assumes "alone env" "get_recommendations env sigmoid g w rq s = (Reply resp, s')" "uuids_fit (rs_db s')"
    and "it \<in> set (rp_items resp)"
  shows "well_stored it"
proof -
  obtain rows where "recs (rs_db s') = recs (rs_db s) @ rows"
      "list_all2 (stored_as env (rs_db s) (the (re_uuid env (rq_user rq)))) (rp_items resp) rows"
    using served_rows [OF assms(1,2)] by blast
  then obtain r where "r \<in> set (recs (rs_db s'))" "stored_as env (rs_db s) (the (re_uuid env (rq_user rq))) it r"
    using assms(4) by (force simp: list_all2_conv_all_nth in_set_conv_nth)
  then show ?thesis using assms(3) by (auto simp: well_stored_def stored_as_def uuids_fit_def list_all_iff)
qed



section \<open>Instances\<close>

definition sample_customer :: token_claims where
  "sample_customer = [(''type'', JStr ''customer''), (''sub'', JStr (uuid_text 3))]"

definition sample_feed_env :: "json \<Rightarrow> feed_env" where
  "sample_feed_env body = \<lparr>fe_decode = (\<lambda>t. if t = ''good'' then Some sample_customer else None), fe_max_attempts = 3,
     fe_start = 0, fe_finish = 1, fe_attempt = (\<lambda>_. Answer 200 True), fe_body = body, fe_world = (\<lambda>_ d. d),
     fe_fault = (\<lambda>_. False), fe_applied = False, fe_str = (\<lambda>_. []), fe_time = (\<lambda>v. case v of JStr t \<Rightarrow> Some (if CHR ''-'' \<in> set t then - int (length t) else int (length t)) | _ \<Rightarrow> None), fe_name = (\<lambda>_. ''n''),
     fe_terms = (\<lambda>_. ''t''), fe_dots = CHR ''.'', fe_cdn = ''c/'', fe_deeplink = (\<lambda>t. t)\<rparr>"

text \<open>A text from which the instant can be read back.\<close>

definition unary_text :: "time \<Rightarrow> string" where
  "unary_text t = (if t < 0 then replicate (nat (- t)) CHR ''-'' else replicate (nat t) CHR ''+'')"

definition sample_feed_rq :: feed_request where
  "sample_feed_rq = \<lparr>fq_creds = Some ''good'', fq_user = 3, fq_top_k = None, fq_amount = None, fq_channel = None\<rparr>"

definition sample_closed :: breaker where
  "sample_closed = \<lparr>bk_threshold = 5, bk_reset = 30, bk_failures = 0, bk_opened = None\<rparr>"

lemma sample_upstream: "upstream_request 5 sample_feed_rq = sample_rq"
  by (simp add: upstream_request_def sample_feed_rq_def sample_rq_def)

lemma sample_call: "upstream_call 3 0 1 (\<lambda>_. Answer 200 True) sample_closed = (CallOk, record_success sample_closed)"
  by (simp add: upstream_call_def before_call_def breaker_state_def sample_closed_def retryable_attempt_def attempt_ok_def
      numeral_2_eq_2)

lemma sample_own: "require_own_user_id (fe_decode (sample_feed_env body)) (fq_creds sample_feed_rq) (fq_user sample_feed_rq) = Reply 3"
  by (simp add: require_own_user_id_reply sample_feed_env_def sample_feed_rq_def sample_customer_def jget_def members_def
      CUSTOMER_TYPE_def parse_uuid_text)

lemma sample_feed_rq_ok: "feed_request_ok sample_feed_rq"
  by (simp add: feed_request_ok_def sample_feed_rq_def opt_ok_def)

lemma sample_feed:
  "get_mobile_recommendations (sample_feed_env (JObj up)) sample_feed_rq \<lparr>fs_breaker = sample_closed, fs_db = d\<rparr> =
    (fst (present_offers (sample_feed_env (JObj up)) 3 up d),
     \<lparr>fs_breaker = record_success sample_closed, fs_db = snd (present_offers (sample_feed_env (JObj up)) 3 up d)\<rparr>)"
proof -
  have e: "fe_max_attempts (sample_feed_env b) = 3" "fe_start (sample_feed_env b) = 0" "fe_finish (sample_feed_env b) = 1"
      "fe_attempt (sample_feed_env b) = (\<lambda>_. Answer 200 True)" "fe_body (sample_feed_env b) = b" for b
    by (simp_all add: sample_feed_env_def)
  show ?thesis
    by (simp add: get_mobile_recommendations_def sample_own sample_feed_rq_ok e sample_call split: prod.split)
qed

theorem feed_is_the_clients_own_witness:
  "\<exists>tok payload t. fq_creds sample_feed_rq = Some tok \<and> fe_decode (sample_feed_env (JObj [])) tok = Some payload \<and>
    jget payload ''type'' = JStr CUSTOMER_TYPE \<and> members payload ''sub'' = Some (JStr t) \<and>
    parse_uuid t = Some (fq_user sample_feed_rq)"
proof (rule feed_is_the_clients_own [OF sample_feed [of "[]" sample_db]])
  show "replied (fst (present_offers (sample_feed_env (JObj [])) 3 [] sample_db)) \<or>
      \<lparr>fs_breaker = record_success sample_closed, fs_db = snd (present_offers (sample_feed_env (JObj [])) 3 [] sample_db)\<rparr> \<noteq>
      \<lparr>fs_breaker = sample_closed, fs_db = sample_db\<rparr>"
    by (simp add: present_offers_def raw_items_def fetch_campaign_context_def version_of_def jget_def members_def map_filter_def)
qed

theorem feed_changes_channels_only_witness:
  "\<exists>rids. fs_db (snd (get_mobile_recommendations (sample_feed_env (JObj [])) sample_feed_rq
      \<lparr>fs_breaker = sample_closed, fs_db = sample_db\<rparr>)) =
    sample_db\<lparr>recs := update_where (shown_now 3 rids) (\<lambda>r. r\<lparr>re_channel := Some ''IN_APP''\<rparr>) (recs sample_db)\<rparr>"
  using feed_changes_channels_only [of "sample_feed_env (JObj [])" sample_feed_rq "\<lparr>fs_breaker = sample_closed, fs_db = sample_db\<rparr>"]
  by (simp add: sample_feed_env_def) (simp add: sample_feed_rq_def)

lemma sample_served_ids:
  assumes "get_recommendations sample_rec_env (\<lambda>x. x) new_generator sample_watcher sample_rq sample_rec = (Reply resp, s')"
  shows "uuids_fit (rs_db s')"
proof -
  obtain resp0 s1 where r: "recommend sample_rec_env (\<lambda>x. x) new_generator sample_watcher DEFAULT_RULES True sample_rq sample_rec =
     (Reply (resp0, [''5411'' \<mapsto> sample_elig]), s1)" "rp_items resp0 = [offer_item sample_ranked 0 sample_elig]" "rs_db s1 = sample_db"
    using sample_recommend [of "\<lambda>_. None" True] by blast
  have e: "re_world sample_rec_env st d = d" "re_fault sample_rec_env st = None" "re_uuid sample_rec_env u = Some 3"
      "re_fresh sample_rec_env 0 = 100" for st d u
    by (simp_all add: sample_env_def)
  have i: "it_campaign (offer_item sample_ranked 0 sample_elig) = 7" "it_mcc (offer_item sample_ranked 0 sample_elig) = ''5411''"
    by (simp_all add: offer_item_def sample_ranked_def sample_elig_def elig_of_def sample_campaign_def Let_def)
  have m: "store_char4 ''5411'' = Some ''5411''" by (simp add: store_char4_def rtrim_def)
  have d: "find_by us_id 3 (users sample_db) \<noteq> None" "100 \<notin> re_id ` set (recs sample_db)" "uuids_fit sample_db"
      "find_by ca_id 7 (campaigns sample_db) = Some sample_campaign" "ca_id sample_campaign = 7"
    by (simp_all add: sample_db_def uuids_fit_def sample_campaign_def)
  have p: "persist_offers sample_rec_env u (rp_items resp0) v s1 = (Reply served, s2) \<Longrightarrow> uuids_fit (rs_db s2)" for u v served s2
    using d unfolding r(2) by (auto simp: persist_offers_def r(3) Let_def e i m store_offers_def uuids_fit_def offer_row_def)
  show ?thesis using assms
  proof (cases rule: get_recommendations_cases)
    case (stored resp1 camps s3 served s2 missed)
    then show ?thesis using r p by simp
  qed simp_all
qed


end
