(* ===== verification/MobileAccount.thy ===== *)
theory MobileAccount
  imports Lifecycle MobileFeed "HOL-Library.Product_Lexorder"
begin

text \<open>
  The money side of the mobile BFF: \<^verbatim>\<open>GET /v1/mobile/cashback/history/{user_id}\<close> and
  \<^verbatim>\<open>GET /v1/mobile/cashback/balance/{user_id}\<close> (\<^verbatim>\<open>services/mobile_api/app/api/mobile.py\<close>), and how the
  balance follows the two operations that move money: a payment by the listener and the settlement.

  Each request is one statement on its own connection: \<open>ma_world\<close> is what other transactions have
  committed by then, \<open>ma_fault\<close> an error of the driver. The order of rows with the same \<^verbatim>\<open>accrued_at\<close>,
  which the query leaves open, is \<open>ma_tie\<close>.
\<close>

section \<open>Requests and answers\<close>

record account_env =
  ma_decode :: "string \<Rightarrow> token_claims option"
  ma_now :: time
  ma_world :: "db \<Rightarrow> db"
  ma_fault :: "exn option"
  ma_tie :: "uuid \<Rightarrow> nat"
  ma_name :: "string option \<Rightarrow> string"

record history_item =
  hi_id :: uuid
  hi_tx :: string
  hi_mcc :: string
  hi_category :: string
  hi_amount :: money
  hi_cashback :: money
  hi_status :: accrual_status
  hi_at :: time

record history_response =
  hr_user :: uuid
  hr_from :: time
  hr_to :: time
  hr_items :: "history_item list"

record cashback_balance =
  cb_user :: uuid
  cb_pending :: money
  cb_available :: money
  cb_paid :: money

section \<open>The operations\<close>

definition in_period :: "uuid \<Rightarrow> time \<Rightarrow> time \<Rightarrow> accrual_row \<Rightarrow> bool" where
  "in_period uid pfrom pto a = (ac_user a = uid \<and> pfrom \<le> ac_at a \<and> ac_at a \<le> pto)"

definition history_rows :: "(uuid \<Rightarrow> nat) \<Rightarrow> db \<Rightarrow> uuid \<Rightarrow> time \<Rightarrow> time \<Rightarrow> nat \<Rightarrow> accrual_row list" where
  "history_rows tie d uid pfrom pto limit =
     take limit (sort_key (\<lambda>a. (- ac_at a, tie (ac_id a))) (filter (in_period uid pfrom pto) (accruals d)))"

definition history_item_of :: "(string option \<Rightarrow> string) \<Rightarrow> accrual_row \<Rightarrow> history_item" where
  "history_item_of name_of a =
     \<lparr>hi_id = ac_id a, hi_tx = ac_tx a, hi_mcc = py_strip (ac_mcc a), hi_category = name_of (mcc_entry (py_strip (ac_mcc a))),
      hi_amount = ac_amount a, hi_cashback = ac_cashback a, hi_status = ac_status a, hi_at = ac_at a\<rparr>"

definition cashback_history ::
  "account_env \<Rightarrow> string option \<Rightarrow> uuid \<Rightarrow> time option \<Rightarrow> time option \<Rightarrow> nat \<Rightarrow> db \<Rightarrow> history_response answer" where
  "cashback_history env creds user period_from period_to limit d =
    (case require_own_user_id (ma_decode env) creds user of
       Crash e \<Rightarrow> Crash e
     | Reject n \<Rightarrow> Reject n
     | Reply uid \<Rightarrow>
        if \<not> (1 \<le> limit \<and> limit \<le> 1000) then Reject 422
        else (let pto = (case period_to of None \<Rightarrow> ma_now env | Some t \<Rightarrow> t);
                  pfrom = (case period_from of None \<Rightarrow> pto - 30 * day_us | Some t \<Rightarrow> t) in
          case ma_fault env of
            Some e \<Rightarrow> Crash e
          | None \<Rightarrow> Reply \<lparr>hr_user = uid, hr_from = pfrom, hr_to = pto,
              hr_items = map (history_item_of (ma_name env)) (history_rows (ma_tie env) (ma_world env d) uid pfrom pto limit)\<rparr>))"

definition status_sum :: "db \<Rightarrow> uuid \<Rightarrow> accrual_status \<Rightarrow> money" where
  "status_sum d uid st = sum_list (map ac_cashback (filter (\<lambda>a. ac_user a = uid \<and> ac_status a = st) (accruals d)))"

definition cashback_balance_of :: "account_env \<Rightarrow> string option \<Rightarrow> uuid \<Rightarrow> db \<Rightarrow> cashback_balance answer" where
  "cashback_balance_of env creds user d =
    (case require_own_user_id (ma_decode env) creds user of
       Crash e \<Rightarrow> Crash e
     | Reject n \<Rightarrow> Reject n
     | Reply uid \<Rightarrow>
        (case ma_fault env of
           Some e \<Rightarrow> Crash e
         | None \<Rightarrow>
            (let pending = status_sum (ma_world env d) uid AC_PENDING; paid = status_sum (ma_world env d) uid PAID in
             Reply \<lparr>cb_user = uid, cb_pending = pending, cb_available = paid, cb_paid = paid\<rparr>)))"

section \<open>What the history shows\<close>

lemma history_rows_mem:
  "a \<in> set (history_rows tie d uid pfrom pto limit) \<Longrightarrow> a \<in> set (accruals d) \<and> in_period uid pfrom pto a"
  unfolding history_rows_def by (auto dest: in_set_takeD)

lemma sorted_take_rest:
  fixes k :: "'a \<Rightarrow> 'b :: linorder"
  assumes "sorted (map k xs)" "a \<in> set (take n xs)" "b \<in> set xs" "b \<notin> set (take n xs)"
  shows "k a \<le> k b"
proof -
  have "b \<in> set (drop n xs)" using assms(3,4) by (metis Un_iff append_take_drop_id set_append)
  moreover have "sorted (map k (take n xs) @ map k (drop n xs))"
    using assms(1) by (simp flip: map_append)
  ultimately show ?thesis using assms(2) by (auto simp: sorted_append)
qed

lemma history_rows_newest:
  assumes "a \<in> set (history_rows tie d uid pfrom pto limit)" "b \<in> set (accruals d)" "in_period uid pfrom pto b"
    and "b \<notin> set (history_rows tie d uid pfrom pto limit)"
  shows "ac_at b \<le> ac_at a"
proof -
  let ?k = "\<lambda>a. (- ac_at a, tie (ac_id a))"
  have "?k a \<le> ?k b" using assms unfolding history_rows_def
    by (intro sorted_take_rest [OF sorted_sort_key]) auto
  then show ?thesis by auto
qed

lemma history_rows_full:
  assumes "b \<in> set (accruals d)" "in_period uid pfrom pto b" "b \<notin> set (history_rows tie d uid pfrom pto limit)"
  shows "length (history_rows tie d uid pfrom pto limit) = limit"
proof (rule ccontr)
  let ?xs = "sort_key (\<lambda>a. (- ac_at a, tie (ac_id a))) (filter (in_period uid pfrom pto) (accruals d))"
  assume "length (history_rows tie d uid pfrom pto limit) \<noteq> limit"
  then have "length ?xs \<le> limit" by (auto simp: history_rows_def)
  then have "history_rows tie d uid pfrom pto limit = ?xs" unfolding history_rows_def by (rule take_all)
  then show False using assms by simp
qed

lemma history_rows_sorted: "sorted_wrt (\<lambda>a b. ac_at b \<le> ac_at a) (history_rows tie d uid pfrom pto limit)"
proof -
  let ?k = "\<lambda>a. (- ac_at a, tie (ac_id a))"
  have "sorted (map ?k (history_rows tie d uid pfrom pto limit))"
    unfolding history_rows_def take_map [symmetric] by (rule sorted_wrt_take [OF sorted_sort_key])
  then show ?thesis unfolding sorted_map by (rule sorted_wrt_mono_rel [rotated]) auto
qed

text \<open>An answered history belongs to the subject of the token, lists accruals of that client from the
  period by descending time, at most as many as asked for; and an accrual of the client in the period is
  missing only when the list is full and every listed one is at least as new.\<close>

theorem history_is_exact:
  assumes "cashback_history env creds user pf pt limit d = Reply h"
  shows "hr_user h = user \<and>
    (\<exists>tok payload t. creds = Some tok \<and> ma_decode env tok = Some payload \<and> members payload ''sub'' = Some (JStr t) \<and>
       parse_uuid t = Some user) \<and>
    sorted_wrt (\<lambda>i j. hi_at j \<le> hi_at i) (hr_items h) \<and> length (hr_items h) \<le> limit \<and>
    (\<forall>i \<in> set (hr_items h). \<exists>a \<in> set (accruals (ma_world env d)). in_period user (hr_from h) (hr_to h) a \<and>
       i = history_item_of (ma_name env) a) \<and>
    (\<forall>a \<in> set (accruals (ma_world env d)). in_period user (hr_from h) (hr_to h) a \<longrightarrow>
       history_item_of (ma_name env) a \<in> set (hr_items h) \<or>
       (length (hr_items h) = limit \<and> (\<forall>i \<in> set (hr_items h). ac_at a \<le> hi_at i)))"
proof -
  let ?rows = "history_rows (ma_tie env) (ma_world env d) user (hr_from h) (hr_to h) limit"
  have own: "require_own_user_id (ma_decode env) creds user = Reply user" and h: "hr_user h = user"
    and items: "hr_items h = map (history_item_of (ma_name env)) ?rows"
    using assms by (auto simp: cashback_history_def Let_def require_own_user_id_reply split: answer.splits if_splits option.splits)
  have "length ?rows \<le> limit" by (simp add: history_rows_def)
  moreover have "sorted_wrt (\<lambda>i j. hi_at j \<le> hi_at i) (hr_items h)"
    using history_rows_sorted unfolding items sorted_wrt_map by (simp add: history_item_of_def)
  moreover have "\<forall>a \<in> set (accruals (ma_world env d)). in_period user (hr_from h) (hr_to h) a \<longrightarrow>
       history_item_of (ma_name env) a \<in> set (hr_items h) \<or>
       (length (hr_items h) = limit \<and> (\<forall>i \<in> set (hr_items h). ac_at a \<le> hi_at i))"
  proof (intro ballI impI)
    fix a assume a: "a \<in> set (accruals (ma_world env d))" "in_period user (hr_from h) (hr_to h) a"
    show "history_item_of (ma_name env) a \<in> set (hr_items h) \<or>
       (length (hr_items h) = limit \<and> (\<forall>i \<in> set (hr_items h). ac_at a \<le> hi_at i))"
    proof (cases "a \<in> set ?rows")
      case False
      then show ?thesis using history_rows_full [OF a False] history_rows_newest [OF _ a False]
        by (simp add: items history_item_of_def)
    qed (simp add: items)
  qed
  ultimately show ?thesis using h own history_rows_mem unfolding items require_own_user_id_reply by fastforce
qed

section \<open>The balance and the operations that move money\<close>

lemma status_sum_write:
  "status_sum (apply_write (Some \<lparr>wr_row = row, wr_amount = c\<rparr>) d) u st =
   status_sum d u st + (if ac_user row = u \<and> ac_status row = st then ac_cashback row else 0)"
  by (simp add: status_sum_def apply_write_def)

lemma sum_settled:
  "sum_list (map ac_cashback (filter (\<lambda>a. ac_user a = u \<and> ac_status a = PAID) (update_where (due_accrual now hours) (settle_row now) as))) =
   sum_list (map ac_cashback (filter (\<lambda>a. ac_user a = u \<and> ac_status a = PAID) as)) +
   sum_list (map ac_cashback (filter (\<lambda>a. ac_user a = u \<and> due_accrual now hours a) as))"
  by (induction as) (auto simp: update_where_def settle_row_def due_accrual_def)

lemma sum_unsettled:
  "sum_list (map ac_cashback (filter (\<lambda>a. ac_user a = u \<and> ac_status a = AC_PENDING) as)) =
   sum_list (map ac_cashback (filter (\<lambda>a. ac_user a = u \<and> ac_status a = AC_PENDING) (update_where (due_accrual now hours) (settle_row now) as))) +
   sum_list (map ac_cashback (filter (\<lambda>a. ac_user a = u \<and> due_accrual now hours a) as))"
  by (induction as) (auto simp: update_where_def settle_row_def due_accrual_def)

definition due_sum :: "time \<Rightarrow> int \<Rightarrow> db \<Rightarrow> uuid \<Rightarrow> money" where
  "due_sum now hours d u = sum_list (map ac_cashback (filter (\<lambda>a. ac_user a = u \<and> due_accrual now hours a) (accruals d)))"

lemma status_sum_settle:
  "status_sum (settle now hours d) u PAID = status_sum d u PAID + due_sum now hours d u"
  "status_sum (settle now hours d) u AC_PENDING = status_sum d u AC_PENDING - due_sum now hours d u"
  using sum_settled [of u now hours "accruals d"] sum_unsettled [of u "accruals d" now hours]
  by (simp_all add: status_sum_def settle_def due_sum_def)


lemma accrued_write:
  assumes "world env = (\<lambda>_ d. d)" "db_ok (as_db s)" "fst (accrue env q s) = Inr (Accrued aid c ev)"
  shows "\<exists>row. ac_id row = aid \<and> ac_status row = AC_PENDING \<and> ac_cashback row = c \<and> 0 < c \<and> ac_tx row = acc_req.rq_tx q \<and>
    ac_at row = clock env \<and>
    as_db (snd (accrue env q s)) = apply_write (Some \<lparr>wr_row = row, wr_amount = c\<rparr>) (as_db s)"
proof -
  have iso: "isolated env q" using assms(1) by (simp add: isolated_def)
  obtain res consumed w d where body: "accrue_body env q (as_db s) = (Inr (res, consumed, w), d)"
      and nf: "fault env Commit = None" and res: "res = Accrued aid c ev"
    using assms(3) by (auto simp: accrue_def Let_def split: prod.splits sum.splits option.splits)
  have "tx_keeps (\<lambda>x. x = as_db s) (accrue_body env q)" using assms(1) by (intro accrue_body_keeps) simp
  then have d: "d = as_db s" using body unfolding tx_keeps_def by (metis snd_conv)
  from accrue_body_cases [OF body] res
  obtain rid cid uid ofr e row where pay: "payment env q (as_db s) d rid cid uid ofr e c row"
      and w: "w = Some \<lparr>wr_row = row, wr_amount = c\<rparr>" and aid: "aid = fresh_id env" by auto
  have "payable_at env q (as_db s) rid cid uid c row"
    using payment_payable(1) [OF iso assms(2) pay] assms(1) d by simp
  then have "ac_id row = aid \<and> ac_status row = AC_PENDING \<and> ac_cashback row = c \<and> 0 < c \<and> ac_tx row = acc_req.rq_tx q \<and> ac_at row = clock env"
    unfolding payable_at_def aid by (auto simp: new_row_def)
  moreover have "as_db (snd (accrue env q s)) = apply_write w (as_db s)"
    using body nf d assms(1) by (simp add: accrue_def Let_def)
  ultimately show ?thesis using w by blast
qed



text \<open>A settlement, with no other transaction in between, only moves money from pending to available: the
  sum of both stays what it was for every client, and after an answered call nothing that is older
  than the delay is pending; a call that is not answered moved the same money or none.\<close>

theorem settlement_moves_pending:
  assumes "ce_world env = (\<lambda>_ d. d)" "settle_accruals env hours d = (r, d')"
  shows "status_sum d' u AC_PENDING + status_sum d' u PAID = status_sum d u AC_PENDING + status_sum d u PAID \<and>
    status_sum d' u PAID \<in> {status_sum d u PAID, status_sum d u PAID + due_sum (ce_now env) hours d u} \<and>
    (\<forall>n. r = Reply n \<longrightarrow> list_all (\<lambda>a. \<not> due_accrual (ce_now env) hours a) (accruals d') \<and>
       length (accruals d') = length (accruals d))"
proof -
  have "d' = settle (ce_now env) hours d \<or> (d' = d \<and> (\<exists>e. r = Crash e))"
    using assms by (auto simp: settle_accruals_def at_stmt_def commit_def Let_def split: option.splits if_splits)
  then show ?thesis
    using status_sum_settle [of "ce_now env" hours d u]
    by (auto simp: settle_def update_where_def list_all_iff settle_row_def due_accrual_def)
qed

theorem settlement_moves_pending_witness:
  "status_sum (snd (settle_accruals sample_cm_env 24 sample_db)) 3 AC_PENDING +
   status_sum (snd (settle_accruals sample_cm_env 24 sample_db)) 3 PAID = 0"
proof -
  have w: "ce_world sample_cm_env = (\<lambda>_ d. d)" by (simp add: sample_cm_env_def)
  have z: "status_sum sample_db 3 st = 0" for st by (simp add: status_sum_def sample_db_def)
  obtain r d' where s: "settle_accruals sample_cm_env 24 sample_db = (r, d')" by fastforce
  show ?thesis using settlement_moves_pending [OF w s, of 3] z by (simp add: s)
qed

section \<open>An instance of the history\<close>

definition sample_account_env :: account_env where
  "sample_account_env = \<lparr>ma_decode = (\<lambda>_. Some [(''type'', JStr CUSTOMER_TYPE), (''sub'', JStr (uuid_text 3))]), ma_now = 100,
     ma_world = (\<lambda>d. d), ma_fault = None, ma_tie = (\<lambda>_. 0), ma_name = (\<lambda>_. ''x'')\<rparr>"

theorem history_is_exact_witness:
  "\<exists>h. cashback_history sample_account_env (Some ''t'') 3 None None 5 sample_db = Reply h \<and> hr_user h = 3"
proof -
  have "require_own_user_id (ma_decode sample_account_env) (Some ''t'') 3 = Reply 3"
    by (simp add: require_own_user_id_reply sample_account_env_def jget_def members_def parse_uuid_text)
  then obtain h where h: "cashback_history sample_account_env (Some ''t'') 3 None None 5 sample_db = Reply h"
    by (simp add: cashback_history_def Let_def sample_account_env_def)
  then show ?thesis using history_is_exact [OF h] by blast
qed

end
