(* ===== verification/AvroDecode.thy ===== *)
theory AvroDecode
  imports Json Faults
begin

text \<open>
  The decision the two Kafka consumers take on a message they cannot decode: is it the message's
  fault (dead-letter it) or may it be transient (retry)? \<^verbatim>\<open>_decode\<close> and \<^verbatim>\<open>_permanent_decode_failure\<close>
  of the listener, \<^verbatim>\<open>_deserialize\<close> and \<^verbatim>\<open>_permanent_failure\<close> of the ETL consumer. The Avro
  deserializer, the Schema Registry and fastavro are parameters.
\<close>

datatype msg_value = Bytes "nat list" | NotBytes

datatype decode_exn =
    RegistryError int int
  | TransportError exn
  | OtherError exn

record sr_schema =
  ss_references :: bool
  ss_reader :: "decode_exn + (nat list \<Rightarrow> bool)"

record decoder =
  dc_deserialize :: "msg_value \<Rightarrow> decode_exn + json"
  dc_schema :: "nat \<Rightarrow> decode_exn + sr_schema"

definition schema_not_found :: "int \<Rightarrow> int \<Rightarrow> bool" where
  "schema_not_found http_code err_code = (http_code = 404 \<and> err_code = 40403)"

definition big_endian :: "nat list \<Rightarrow> nat" where
  "big_endian bs = foldl (\<lambda>a b. 256 * a + b) 0 bs"

text \<open>The check of the bytes against the schema they name; \<open>Inr True\<close>: permanent.\<close>

definition check_bytes :: "decoder \<Rightarrow> nat list \<Rightarrow> decode_exn + bool" where
  "check_bytes dc bs =
    (if length bs \<le> 5 \<or> bs ! 0 \<noteq> 0 then Inr True
     else case dc_schema dc (big_endian (take 4 (drop 1 bs))) of
       Inl (RegistryError h e) \<Rightarrow> if schema_not_found h e then Inr True else Inl (RegistryError h e)
     | Inl x \<Rightarrow> Inl x
     | Inr sch \<Rightarrow> if ss_references sch then Inr False
         else (case ss_reader sch of Inl x \<Rightarrow> Inl x
               | Inr ok \<Rightarrow> Inr (\<not> ok (drop 5 bs))))"

definition permanent_decode_failure :: "decoder \<Rightarrow> msg_value \<Rightarrow> decode_exn \<Rightarrow> decode_exn + bool" where
  "permanent_decode_failure dc v x = (case x of
     RegistryError h e \<Rightarrow> Inr (schema_not_found h e)
   | TransportError _ \<Rightarrow> Inr False
   | OtherError _ \<Rightarrow> (case v of NotBytes \<Rightarrow> Inr True | Bytes bs \<Rightarrow> check_bytes dc bs))"

text \<open>The ETL consumer's variant of the last case: a value that is no bytes is transient there.\<close>

definition etl_permanent_failure :: "decoder \<Rightarrow> msg_value \<Rightarrow> decode_exn \<Rightarrow> decode_exn + bool" where
  "etl_permanent_failure dc v x = (case x of
     RegistryError h e \<Rightarrow> Inr (schema_not_found h e)
   | TransportError _ \<Rightarrow> Inr False
   | OtherError _ \<Rightarrow> (case v of NotBytes \<Rightarrow> Inr False | Bytes bs \<Rightarrow> check_bytes dc bs))"

text \<open>A decode error as the exception the caller sees.\<close>

fun exn_of_decode :: "decode_exn \<Rightarrow> exn" where
  "exn_of_decode (RegistryError h e) = Exn ''SchemaRegistryError'' [] None None None"
| "exn_of_decode (TransportError e) = e"
| "exn_of_decode (OtherError e) = e"

datatype decoded = Record "(string \<times> json) list" | Undecodable | Transient exn

fun dict_record :: "json \<Rightarrow> decoded" where
  "dict_record (JObj kvs) = Record kvs"
| "dict_record _ = Undecodable"

definition decode_with ::
  "(decoder \<Rightarrow> msg_value \<Rightarrow> decode_exn \<Rightarrow> decode_exn + bool) \<Rightarrow> decoder \<Rightarrow> msg_value \<Rightarrow> decoded" where
  "decode_with permanent dc v = (case dc_deserialize dc v of
     Inr j \<Rightarrow> dict_record j
   | Inl x \<Rightarrow> (case permanent dc v x of
       Inl y \<Rightarrow> Transient (exn_of_decode y)
     | Inr True \<Rightarrow> Undecodable
     | Inr False \<Rightarrow> Transient (exn_of_decode x)))"

definition decode :: "decoder \<Rightarrow> msg_value \<Rightarrow> decoded" where
  "decode = decode_with permanent_decode_failure"

definition etl_decode :: "decoder \<Rightarrow> msg_value \<Rightarrow> decoded" where
  "etl_decode = decode_with etl_permanent_failure"

text \<open>When the registry answers nothing (every lookup and every decode fails on the network), no
  message is ever declared undecodable.\<close>

definition registry_down :: "decoder \<Rightarrow> bool" where
  "registry_down dc = ((\<forall>v. \<exists>e. dc_deserialize dc v = Inl (TransportError e)) \<and>
     (\<forall>i. \<exists>e. dc_schema dc i = Inl (TransportError e)))"

lemma decode_registry_down: "registry_down dc \<Longrightarrow> \<exists>e. decode dc v = Transient e"
proof -
  assume "registry_down dc"
  then obtain e where "dc_deserialize dc v = Inl (TransportError e)" by (auto simp: registry_down_def)
  then show ?thesis by (simp add: decode_def decode_with_def permanent_decode_failure_def)
qed

lemma etl_decode_bytes: "etl_decode dc (Bytes bs) = decode dc (Bytes bs)"
  by (auto simp: etl_decode_def decode_def decode_with_def etl_permanent_failure_def
      permanent_decode_failure_def split: sum.split decode_exn.split)

end
