(* ===== verification/Backoff.thy ===== *)
theory Backoff
  imports Complex_Main
begin

text \<open>
  The pause that three loops of the services share (\<^verbatim>\<open>TransactionListener.run\<close>, \<^verbatim>\<open>supervise\<close>,
  \<^verbatim>\<open>AccrualStreamBridge._consume_loop\<close>): it starts at an initial delay, doubles after every failure
  up to a maximum, and is reset by a success. The contract is the locale \<open>backoff\<close>, a loop's
  delay after a history of outcomes (\<open>True\<close>: reset); each loop interprets it with its own step.
\<close>

locale backoff =
  fixes init :: rat and cap :: rat and step :: "bool \<Rightarrow> rat \<Rightarrow> rat"
  assumes init_pos: "0 < init" and init_cap: "init \<le> cap"
    and step_ok: "step True d = init"
    and step_fail: "step False d = min (d * 2) cap"
begin

definition delay_after :: "bool list \<Rightarrow> rat" where
  "delay_after outcomes = fold step outcomes init"

lemma step_range: "init \<le> d \<Longrightarrow> d \<le> cap \<Longrightarrow> init \<le> step b d \<and> step b d \<le> cap"
  using init_pos init_cap by (cases b) (auto simp: step_ok step_fail)

lemma fold_range: "init \<le> d \<Longrightarrow> d \<le> cap \<Longrightarrow> init \<le> fold step os d \<and> fold step os d \<le> cap"
  by (induction os arbitrary: d) (auto dest: step_range)

lemma delay_range: "init \<le> delay_after os \<and> delay_after os \<le> cap"
  unfolding delay_after_def using init_cap by (intro fold_range) auto

lemma delay_reset: "delay_after (os @ [True]) = init"
  by (simp add: delay_after_def step_ok)

lemma min_double: "min (min (init * 2 ^ n) cap * 2) cap = min (init * 2 ^ Suc n) cap"
  using init_pos init_cap by (auto simp: min_def)

lemma fold_failures: "fold step (replicate n False) (min (init * 2 ^ k) cap) = min (init * 2 ^ (n + k)) cap"
proof (induction n arbitrary: k)
  case 0
  then show ?case by simp
next
  case (Suc n)
  have "step False (min (init * 2 ^ k) cap) = min (init * 2 ^ Suc k) cap"
    by (simp only: step_fail min_double)
  with Suc.IH [of "Suc k"] show ?case by simp
qed

text \<open>After \<open>n\<close> failures in a row the pause is the initial one doubled \<open>n\<close> times, at most the cap.\<close>

lemma delay_failures: "delay_after (os @ True # replicate n False) = min (init * 2 ^ n) cap"
  using fold_failures [of n 0] init_cap by (simp add: delay_after_def step_ok)

lemma delay_initial_failures: "delay_after (replicate n False) = min (init * 2 ^ n) cap"
  using fold_failures [of n 0] init_cap by (simp add: delay_after_def)

end

end
