(* ===== verification/Listener.thy ===== *)
theory Listener
  imports Accrual AvroDecode Backoff
begin

text \<open>
  \<^verbatim>\<open>TransactionListener\<close> (\<^verbatim>\<open>services/transaction_listener/app/listener.py\<close>): reading a transaction out
  of a decoded record, one message (\<open>process\<close>, \<open>handle\<close> with the dead-letter queue), a polled batch
  with its commits and seeks, and the consumer loop as a step relation over the topic's log.

  Parameters: the Avro decoder, \<^verbatim>\<open>datetime.fromisoformat\<close> (\<open>rd\<close>), Redis and DLQ failures, and the
  environment of the accrual engine. Messages of errors are abbreviated.
\<close>

section \<open>A transaction\<close>

record transaction =
  tr_id :: string
  tr_user :: string
  tr_mcc :: string
  tr_amount :: money
  tr_at :: time

definition required_fields :: "string list" where
  "required_fields = [''transaction_id'', ''user_id'', ''mcc_code'', ''amount'', ''transaction_date'']"

text \<open>Naive times are UTC; \<open>IsoOverflow\<close> is an offset that leaves the range of \<^verbatim>\<open>datetime\<close>.\<close>

definition parse_transaction_date :: "(string \<Rightarrow> iso_result) \<Rightarrow> json \<Rightarrow> time option" where
  "parse_transaction_date rd v = (case v of
     JStr s \<Rightarrow> (case rd (replace_all ''Z'' ''+00:00'' (py_strip s)) of
       IsoBad \<Rightarrow> None | IsoNaive t \<Rightarrow> Some t | IsoAware t \<Rightarrow> Some t | IsoOverflow \<Rightarrow> None)
   | _ \<Rightarrow> None)"

definition field_missing :: "(string \<times> json) list \<Rightarrow> string \<Rightarrow> bool" where
  "field_missing kvs f = (case jget kvs f of JStr s \<Rightarrow> py_strip s = [] | _ \<Rightarrow> True)"

fun str_of :: "json \<Rightarrow> string" where
  "str_of (JStr s) = s"
| "str_of _ = []"

definition parse_transaction ::
  "(string \<Rightarrow> iso_result) \<Rightarrow> (string \<times> json) list \<Rightarrow> exn + transaction" where
  "parse_transaction rd kvs =
    (if list_ex (field_missing kvs) required_fields
     then Inl (permanent_error ''missing or empty fields'')
     else case parse_decimal (py_strip (str_of (jget kvs ''amount''))) of
       None \<Rightarrow> Inl (permanent_error ''amount is not a number'')
     | Some (Finite a) \<Rightarrow>
        (case parse_transaction_date rd (jget kvs ''transaction_date'') of
           None \<Rightarrow> Inl (permanent_error ''transaction_date is not ISO-8601'')
         | Some t \<Rightarrow> Inr \<lparr>tr_id = py_strip (str_of (jget kvs ''transaction_id'')),
             tr_user = py_strip (str_of (jget kvs ''user_id'')),
             tr_mcc = py_strip (str_of (jget kvs ''mcc_code'')), tr_amount = a, tr_at = t\<rparr>)
     | Some _ \<Rightarrow> Inl (permanent_error ''amount is not finite''))"

section \<open>One message\<close>

record msg =
  mg_tp :: "string \<times> nat"
  mg_offset :: int
  mg_value :: msg_value

record lis_env =
  le_decoder :: decoder
  le_iso :: "string \<Rightarrow> iso_result"
  le_now :: time
  le_redis_fault :: "exn option"
  le_dlq_fault :: "exn option"
  le_accrual :: acc_env

record lis_sys =
  ls_acc :: acc_sys
  ls_dlq :: "(string \<times> nat \<times> int) list"
  ls_outcomes :: "(msg \<times> string) list"


definition redis_get :: "lis_env \<Rightarrow> store \<Rightarrow> string \<Rightarrow> exn + rval option" where
  "redis_get env s k = (case le_redis_fault env of Some e \<Rightarrow> Inl e
     | None \<Rightarrow> (case kv_get (le_now env) s k of
         Some VNonString \<Rightarrow> Inl redis_wrongtype | r \<Rightarrow> Inr r))"

datatype offer_lookup = NoOffer | BadOffer | LegacyOffer | Offer string string

text \<open>What the hot-path key says: \<open>Offer campaign recommendation\<close> with both texts UUIDs.\<close>

definition read_offer :: "rval option \<Rightarrow> offer_lookup" where
  "read_offer r = (case r of
     None \<Rightarrow> NoOffer
   | Some (VBad t) \<Rightarrow> if t = [] then NoOffer else BadOffer
   | Some (VJson (JObj kvs)) \<Rightarrow>
      (let rid = jget kvs ''recommendation_id''; cid = jget kvs ''campaign_id'' in
       if \<not> py_truthy rid then LegacyOffer
       else if \<not> (json_is_uuid rid \<and> json_is_uuid cid) then BadOffer
       else (case (json_text cid, json_text rid) of
               (Some c, Some r) \<Rightarrow> Offer c r | _ \<Rightarrow> BadOffer))
   | Some _ \<Rightarrow> BadOffer)"

definition req_of :: "transaction \<Rightarrow> string \<Rightarrow> string \<Rightarrow> acc_req" where
  "req_of tx cid rid = \<lparr>rq_user = tr_user tx, rq_campaign = cid, rq_rec = rid, rq_tx = tr_id tx,
     rq_mcc = tr_mcc tx, rq_amount = tr_amount tx, rq_at = tr_at tx\<rparr>"

definition process_tx :: "lis_env \<Rightarrow> transaction \<Rightarrow> acc_sys \<Rightarrow> (exn + string) \<times> acc_sys" where
  "process_tx env tx s =
    (case redis_get env (as_redis s) (offer_key (tr_user tx) (tr_mcc tx)) of
       Inl e \<Rightarrow> (Inl e, s)
     | Inr r \<Rightarrow> (case read_offer r of
         NoOffer \<Rightarrow> (Inr ''no_offer'', s)
       | BadOffer \<Rightarrow> (Inr ''bad_offer'', s)
       | LegacyOffer \<Rightarrow> (Inr ''legacy_offer'', s)
       | Offer cid rid \<Rightarrow>
          if \<not> is_uuid (tr_user tx) then (Inl (permanent_error ''user_id is not a UUID''), s)
          else (case accrue (le_accrual env) (req_of tx cid rid) s of
             (Inl e, s') \<Rightarrow> (Inl e, s')
           | (Inr (Accrued aid cb ev), s') \<Rightarrow> (Inr ''accrued'', s')
           | (Inr (Skipped why), s') \<Rightarrow> (Inr why, s'))))"

definition process :: "lis_env \<Rightarrow> msg \<Rightarrow> acc_sys \<Rightarrow> (exn + string) \<times> acc_sys" where
  "process env m s = (case decode (le_decoder env) (mg_value m) of
     Transient e \<Rightarrow> (Inl e, s)
   | Undecodable \<Rightarrow> (Inl (permanent_error ''cannot be decoded''), s)
   | Record kvs \<Rightarrow> (case parse_transaction (le_iso env) kvs of
       Inl e \<Rightarrow> (Inl e, s)
     | Inr tx \<Rightarrow> process_tx env tx s))"

text \<open>\<^verbatim>\<open>_handle\<close>: a permanent failure goes to the DLQ; a failed publish is raised (and retried).\<close>

definition handle :: "lis_env \<Rightarrow> msg \<Rightarrow> lis_sys \<Rightarrow> (exn + string) \<times> lis_sys" where
  "handle env m s = (case process env m (ls_acc s) of
     (Inr why, a) \<Rightarrow> (Inr why, s\<lparr>ls_acc := a\<rparr>)
   | (Inl e, a) \<Rightarrow>
      (let s' = s\<lparr>ls_acc := a\<rparr> in
       if is_retryable e then (Inl e, s')
       else case le_dlq_fault env of
         Some e' \<Rightarrow> (Inl e', s')
       | None \<Rightarrow> (Inr ''dead_lettered'',
            s'\<lparr>ls_dlq := ls_dlq s @ [(fst (mg_tp m), snd (mg_tp m), mg_offset m)]\<rparr>)))"

section \<open>A batch\<close>

text \<open>The messages of one partition in order: the first that failed, and the offset after the last
  one done. \<open>ls_outcomes\<close> is the \<^verbatim>\<open>PROCESSED\<close> counter.\<close>

fun run_msgs ::
  "(msg \<Rightarrow> lis_env) \<Rightarrow> msg list \<Rightarrow> int option \<Rightarrow> lis_sys \<Rightarrow> msg option \<times> int option \<times> lis_sys" where
  "run_msgs env [] dn s = (None, dn, s)"
| "run_msgs env (m # ms) dn s = (case handle (env m) m s of
     (Inl e, s') \<Rightarrow> (Some m, dn, s')
   | (Inr why, s') \<Rightarrow> run_msgs env ms (Some (mg_offset m + 1))
        (s'\<lparr>ls_outcomes := ls_outcomes s' @ [(m, why)]\<rparr>))"

type_synonym tp = "string \<times> nat"

record batch_result =
  br_ok :: bool
  br_seeks :: "(tp \<times> int) list"
  br_commits :: "(tp \<times> int) list"

definition done_entry :: "tp \<Rightarrow> int option \<Rightarrow> (tp \<times> int) list" where
  "done_entry p dn = (case dn of None \<Rightarrow> [] | Some n \<Rightarrow> [(p, n)])"

text \<open>\<^verbatim>\<open>_process_batch\<close>: on a retryable failure the failed partition is sought back to the failed
  offset, every later partition to its first one, and what is done is committed.\<close>

fun process_batch ::
  "(msg \<Rightarrow> lis_env) \<Rightarrow> (tp \<times> msg list) list \<Rightarrow> (tp \<times> int) list \<Rightarrow> lis_sys \<Rightarrow> batch_result \<times> lis_sys" where
  "process_batch env [] acc s = (\<lparr>br_ok = True, br_seeks = [], br_commits = acc\<rparr>, s)"
| "process_batch env ((p, ms) # rest) acc s = (case run_msgs env ms None s of
     (Some m, dn, s') \<Rightarrow>
       (\<lparr>br_ok = False, br_seeks = (p, mg_offset m) # map (\<lambda>(p', ms'). (p', mg_offset (hd ms'))) rest,
         br_commits = acc @ done_entry p dn\<rparr>, s')
   | (None, dn, s') \<Rightarrow> process_batch env rest (acc @ done_entry p dn) s')"

section \<open>What a batch leaves behind\<close>

definition handled :: "lis_sys \<Rightarrow> msg set" where
  "handled s = fst ` set (ls_outcomes s)"

lemma handle_outcomes: "ls_outcomes (snd (handle env m s)) = ls_outcomes s"
  by (simp add: handle_def Let_def split: prod.split sum.split option.split)

lemma handled_outcome [simp]:
  "handled (s\<lparr>ls_outcomes := ls_outcomes s @ [(m, why)]\<rparr>) = insert m (handled s)"
  by (auto simp: handled_def)

lemma run_msgs_split:
  "run_msgs env ms dn s = (f, dn', s') \<Longrightarrow>
   \<exists>pre post. ms = pre @ post \<and> (case f of None \<Rightarrow> post = [] | Some m \<Rightarrow> \<exists>rest. post = m # rest) \<and>
     handled s' = handled s \<union> set pre \<and> (dn' = (if pre = [] then dn else Some (mg_offset (last pre) + 1)))"
proof (induction env ms dn s rule: run_msgs.induct)
  case (1 env dn s)
  then show ?case by auto
next
  case (2 env m ms dn s)
  obtain r s1 where h: "handle env' m s = (r, s1)" if "env' = env m" for env' by (cases "handle (env m) m s") auto
  then have hm: "handle (env m) m s = (r, s1)" by blast
  then have same: "handled s1 = handled s" by (metis handle_outcomes handled_def snd_conv)
  show ?case
  proof (cases r)
    case (Inl e)
    then have "f = Some m" "dn' = dn" "s' = s1" using 2 hm by auto
    with same show ?thesis by (intro exI [of _ "[]"] exI [of _ "m # ms"]) auto
  next
    case (Inr why)
    let ?s = "s1\<lparr>ls_outcomes := ls_outcomes s1 @ [(m, why)]\<rparr>"
    have run: "run_msgs env ms (Some (mg_offset m + 1)) ?s = (f, dn', s')" using 2 hm Inr by simp
    have "(Inr why, s1) = handle (env m) m s" using hm Inr by simp
    from "2.IH" [OF this refl run] obtain pre post where p: "ms = pre @ post"
        "case f of None \<Rightarrow> post = [] | Some m \<Rightarrow> \<exists>rest. post = m # rest"
        "handled s' = handled ?s \<union> set pre"
        "dn' = (if pre = [] then Some (mg_offset m + 1) else Some (mg_offset (last pre) + 1))" by blast
    then show ?thesis using same by (intro exI [of _ "m # pre"] exI [of _ post]) auto
  qed
qed

text \<open>Commits name only offsets whose predecessors in the batch are handled, seeks only the first
  unhandled message of their partition, and a partition without a seek is handled completely.\<close>

definition commit_sound :: "(tp \<times> msg list) list \<Rightarrow> msg set \<Rightarrow> tp \<times> int \<Rightarrow> bool" where
  "commit_sound batch H e = (\<exists>pre post. (fst e, pre @ post) \<in> set batch \<and> pre \<noteq> [] \<and> set pre \<subseteq> H \<and>
     snd e = mg_offset (last pre) + 1)"

definition seek_sound :: "(tp \<times> msg list) list \<Rightarrow> msg set \<Rightarrow> tp \<times> int \<Rightarrow> bool" where
  "seek_sound batch H e = (\<exists>pre m post. (fst e, pre @ m # post) \<in> set batch \<and> set pre \<subseteq> H \<and>
     snd e = mg_offset m)"

lemma process_batch_sound:
  assumes "process_batch env batch acc s = (r, s')" "\<forall>(p, ms) \<in> set batch. ms \<noteq> []"
  shows "handled s \<subseteq> handled s' \<and>
    (\<forall>e \<in> set (br_commits r). e \<in> set acc \<or> commit_sound batch (handled s') e) \<and>
    (\<forall>e \<in> set (br_seeks r). seek_sound batch (handled s') e) \<and>
    (\<forall>(p, ms) \<in> set batch. p \<notin> fst ` set (br_seeks r) \<longrightarrow> set ms \<subseteq> handled s')"
  using assms
proof (induction env batch acc s rule: process_batch.induct)
  case (1 env acc s)
  then show ?case by auto
next
  case (2 env p ms rest acc s)
  obtain f dn s1 where run: "run_msgs env ms None s = (f, dn, s1)" by (cases "run_msgs env ms None s") auto
  from run_msgs_split [OF run] obtain pre post where ms: "ms = pre @ post"
      "case f of None \<Rightarrow> post = [] | Some m \<Rightarrow> \<exists>rest. post = m # rest"
      "handled s1 = handled s \<union> set pre" "dn = (if pre = [] then None else Some (mg_offset (last pre) + 1))"
    by blast
  have entry: "commit_sound ((p, ms) # rest) H e" if "e \<in> set (done_entry p dn)" "handled s1 \<subseteq> H" for e H
  proof -
    have "e = (p, mg_offset (last pre) + 1)" "pre \<noteq> []"
      using that(1) ms(4) by (auto simp: done_entry_def split: if_splits)
    then show ?thesis using ms(1,3) that(2) unfolding commit_sound_def
      by (intro exI [of _ pre] exI [of _ post]) auto
  qed
  have weaken: "commit_sound ((p, ms) # rest) H e" if "commit_sound rest H e" for e H
    using that by (auto simp: commit_sound_def)
  have weaken': "seek_sound ((p, ms) # rest) H e" if "seek_sound rest H e" for e H
    using that by (auto simp: seek_sound_def)
  show ?case
  proof (cases f)
    case None
    then have rec: "process_batch env rest (acc @ done_entry p dn) s1 = (r, s')" using 2(2) run by simp
    have IH: "handled s1 \<subseteq> handled s' \<and>
      (\<forall>e \<in> set (br_commits r). e \<in> set (acc @ done_entry p dn) \<or> commit_sound rest (handled s') e) \<and>
      (\<forall>e \<in> set (br_seeks r). seek_sound rest (handled s') e) \<and>
      (\<forall>(p, ms) \<in> set rest. p \<notin> fst ` set (br_seeks r) \<longrightarrow> set ms \<subseteq> handled s')"
      using "2.IH" [OF run [symmetric, unfolded None] refl refl rec] 2(3) by simp
    then have all: "set ms \<subseteq> handled s'" using ms None by auto
    show ?thesis
    proof (intro conjI)
      show "handled s \<subseteq> handled s'" using IH ms(3) by blast
      show "\<forall>e \<in> set (br_commits r). e \<in> set acc \<or> commit_sound ((p, ms) # rest) (handled s') e"
        using IH entry weaken by (metis Un_iff set_append)
      show "\<forall>e \<in> set (br_seeks r). seek_sound ((p, ms) # rest) (handled s') e"
        using IH weaken' by blast
      show "\<forall>(p, ms) \<in> set ((p, ms) # rest). p \<notin> fst ` set (br_seeks r) \<longrightarrow> set ms \<subseteq> handled s'"
        using IH all by simp
    qed
  next
    case (Some m)
    then obtain after where post: "post = m # after" using ms(2) by auto
    have r: "r = \<lparr>br_ok = False, br_seeks = (p, mg_offset m) # map (\<lambda>(p', ms'). (p', mg_offset (hd ms'))) rest,
         br_commits = acc @ done_entry p dn\<rparr>" "s' = s1"
      using 2(2) run Some by auto
    have "seek_sound ((p, ms) # rest) (handled s') (p, mg_offset m)"
      unfolding seek_sound_def using ms(1,3) post r(2) by (intro exI [of _ pre] exI [of _ m] exI [of _ after]) auto
    moreover have "seek_sound ((p, ms) # rest) (handled s') (p', mg_offset (hd ms'))"
      if "(p', ms') \<in> set rest" for p' ms'
    proof -
      have "ms' \<noteq> []" using that 2(3) by auto
      then show ?thesis using that unfolding seek_sound_def
        by (intro exI [of _ "[]"] exI [of _ "hd ms'"] exI [of _ "tl ms'"]) auto
    qed
    ultimately have seeks: "\<forall>e \<in> set (br_seeks r). seek_sound ((p, ms) # rest) (handled s') e"
      using r(1) by auto
    have "p' \<in> fst ` set (br_seeks r)" if "(p', ms') \<in> set ((p, ms) # rest)" for p' ms'
      using that r(1) by force
    then have "\<forall>(p, ms) \<in> set ((p, ms) # rest). p \<notin> fst ` set (br_seeks r) \<longrightarrow> set ms \<subseteq> handled s'"
      by blast
    then show ?thesis using r ms(3) entry seeks by auto
  qed
qed

section \<open>The consumer loop\<close>

text \<open>
  \<^verbatim>\<open>run\<close>: the topic's log, the consumer's positions, the committed offsets and the pause. A poll
  processes what \<^verbatim>\<open>getmany\<close> returns (the next records of some partitions), moves the positions, applies
  the seeks and commits (a failed commit is logged and changes nothing). A restart or rebalance puts
  partitions back to their committed offsets.
\<close>

record consumer =
  cn_pos :: "tp \<Rightarrow> int"
  cn_committed :: "tp \<Rightarrow> int"
  cn_delay :: rat
  cn_sys :: lis_sys

definition log_sorted :: "(tp \<Rightarrow> msg list) \<Rightarrow> bool" where
  "log_sorted lg = (\<forall>p. sorted_wrt (\<lambda>a b. mg_offset a < mg_offset b) (lg p))"

definition fetched :: "(tp \<Rightarrow> msg list) \<Rightarrow> (tp \<Rightarrow> int) \<Rightarrow> (tp \<times> msg list) list \<Rightarrow> bool" where
  "fetched lg pos batch = (distinct (map fst batch) \<and>
     (\<forall>(p, ms) \<in> set batch. ms \<noteq> [] \<and>
        (\<exists>later. filter (\<lambda>m. pos p \<le> mg_offset m) (lg p) = ms @ later)))"

definition pos_after :: "(tp \<times> msg list) list \<Rightarrow> batch_result \<Rightarrow> (tp \<Rightarrow> int) \<Rightarrow> tp \<Rightarrow> int" where
  "pos_after batch r pos p = (case map_of (br_seeks r) p of Some n \<Rightarrow> n
     | None \<Rightarrow> (case map_of batch p of Some ms \<Rightarrow> mg_offset (last ms) + 1 | None \<Rightarrow> pos p))"

definition committed_after :: "bool \<Rightarrow> batch_result \<Rightarrow> (tp \<Rightarrow> int) \<Rightarrow> tp \<Rightarrow> int" where
  "committed_after commit_ok r com p =
     (if commit_ok then (case map_of (br_commits r) p of Some n \<Rightarrow> n | None \<Rightarrow> com p) else com p)"

definition retry_delay :: "rat \<Rightarrow> rat \<Rightarrow> bool \<Rightarrow> rat \<Rightarrow> rat" where
  "retry_delay init cap ok d = (if ok then init else min (d * 2) cap)"

definition poll ::
  "rat \<Rightarrow> rat \<Rightarrow> (msg \<Rightarrow> lis_env) \<Rightarrow> bool \<Rightarrow> (tp \<times> msg list) list \<Rightarrow> consumer \<Rightarrow> consumer" where
  "poll init cap env commit_ok batch c =
    (if batch = [] then c
     else case process_batch env batch [] (cn_sys c) of
       (r, s') \<Rightarrow> \<lparr>cn_pos = pos_after batch r (cn_pos c),
         cn_committed = committed_after commit_ok r (cn_committed c),
         cn_delay = retry_delay init cap (br_ok r) (cn_delay c), cn_sys = s'\<rparr>)"

inductive listens :: "rat \<Rightarrow> rat \<Rightarrow> (lis_env \<Rightarrow> bool) \<Rightarrow> (tp \<Rightarrow> msg list) \<Rightarrow> consumer \<Rightarrow> consumer \<Rightarrow> bool"
  for init cap okE lg where
  start: "listens init cap okE lg c c"
| polled: "listens init cap okE lg c c1 \<Longrightarrow> fetched lg (cn_pos c1) batch \<Longrightarrow> (\<And>m. okE (env m)) \<Longrightarrow>
     listens init cap okE lg c (poll init cap env commit_ok batch c1)"
| rebalanced: "listens init cap okE lg c c1 \<Longrightarrow>
     listens init cap okE lg c (c1\<lparr>cn_pos := \<lambda>p. if p \<in> ps then cn_committed c1 p else cn_pos c1 p\<rparr>)"

text \<open>Everything below the position or the committed offset of a partition has been handled.\<close>

definition below_handled :: "(tp \<Rightarrow> msg list) \<Rightarrow> lis_sys \<Rightarrow> (tp \<Rightarrow> int) \<Rightarrow> bool" where
  "below_handled lg s f = (\<forall>p. \<forall>m \<in> set (lg p). mg_offset m < f p \<longrightarrow> m \<in> handled s)"

lemma sorted_prefix:
  assumes "sorted_wrt (\<lambda>a b. mg_offset a < mg_offset b) (pre @ m # post)" "x \<in> set (pre @ m # post)"
    and "mg_offset x < mg_offset m"
  shows "x \<in> set pre"
  using assms by (auto simp: sorted_wrt_append)

lemma sorted_upto:
  assumes "sorted_wrt (\<lambda>a b. mg_offset a < mg_offset b) (ms @ later)" "ms \<noteq> []" "x \<in> set (ms @ later)"
    and "mg_offset x < mg_offset (last ms) + 1"
  shows "x \<in> set ms"
proof (rule ccontr)
  assume "x \<notin> set ms"
  then have "x \<in> set later" using assms(3) by simp
  then have "mg_offset (last ms) < mg_offset x"
    using assms(1,2) by (auto simp: sorted_wrt_append)
  with assms(4) show False by simp
qed

lemma fetched_sorted:
  assumes "log_sorted lg" "fetched lg pos batch" "(p, ms) \<in> set batch"
  obtains later where "filter (\<lambda>m. pos p \<le> mg_offset m) (lg p) = ms @ later" "ms \<noteq> []"
    "sorted_wrt (\<lambda>a b. mg_offset a < mg_offset b) (ms @ later)"
proof -
  obtain later where l: "filter (\<lambda>m. pos p \<le> mg_offset m) (lg p) = ms @ later" "ms \<noteq> []"
    using assms(2,3) by (fastforce simp: fetched_def)
  have "sorted_wrt (\<lambda>a b. mg_offset a < mg_offset b) (filter (\<lambda>m. pos p \<le> mg_offset m) (lg p))"
    using assms(1) unfolding log_sorted_def by (intro sorted_wrt_filter) blast
  with l that show thesis by metis
qed

text \<open>A message below a sound seek, or below a sound commit, was below the old position or is handled.\<close>

lemma seek_below:
  assumes "log_sorted lg" "fetched lg pos batch" "seek_sound batch H (p, n)"
    and "x \<in> set (lg p)" "mg_offset x < n"
  shows "mg_offset x < pos p \<or> x \<in> H"
proof (cases "pos p \<le> mg_offset x")
  case True
  obtain pre m post where s: "(p, pre @ m # post) \<in> set batch" "set pre \<subseteq> H" "n = mg_offset m"
    using assms(3) by (auto simp: seek_sound_def)
  obtain later where l: "filter (\<lambda>m. pos p \<le> mg_offset m) (lg p) = (pre @ m # post) @ later"
      "sorted_wrt (\<lambda>a b. mg_offset a < mg_offset b) ((pre @ m # post) @ later)"
    using fetched_sorted [OF assms(1,2) s(1)] by metis
  have "x \<in> set ((pre @ m # post) @ later)" unfolding l(1) [symmetric] using assms(4) True by simp
  then have "x \<in> set pre" using sorted_prefix [of pre m "post @ later" x] l(2) assms(5) s(3) by simp
  with s(2) show ?thesis by blast
qed simp

lemma commit_below:
  assumes "log_sorted lg" "fetched lg pos batch" "commit_sound batch H (p, n)"
    and "x \<in> set (lg p)" "mg_offset x < n"
  shows "mg_offset x < pos p \<or> x \<in> H"
proof (cases "pos p \<le> mg_offset x")
  case True
  obtain pre post where s: "(p, pre @ post) \<in> set batch" "pre \<noteq> []" "set pre \<subseteq> H" "n = mg_offset (last pre) + 1"
    using assms(3) by (auto simp: commit_sound_def)
  obtain later where l: "filter (\<lambda>m. pos p \<le> mg_offset m) (lg p) = (pre @ post) @ later"
      "sorted_wrt (\<lambda>a b. mg_offset a < mg_offset b) ((pre @ post) @ later)"
    using fetched_sorted [OF assms(1,2) s(1)] by metis
  have "x \<in> set ((pre @ post) @ later)" unfolding l(1) [symmetric] using assms(4) True by simp
  then have "x \<in> set (pre @ post @ later)" by simp
  then have "x \<in> set pre" using sorted_upto [of pre "post @ later" x] l(2) assms(5) s(2,4) by simp
  with s(3) show ?thesis by blast
qed simp

lemma fetched_below:
  assumes "log_sorted lg" "fetched lg pos batch" "(p, ms) \<in> set batch"
    and "x \<in> set (lg p)" "mg_offset x < mg_offset (last ms) + 1"
  shows "mg_offset x < pos p \<or> x \<in> set ms"
proof (cases "pos p \<le> mg_offset x")
  case True
  obtain later where l: "filter (\<lambda>m. pos p \<le> mg_offset m) (lg p) = ms @ later" "ms \<noteq> []"
      "sorted_wrt (\<lambda>a b. mg_offset a < mg_offset b) (ms @ later)"
    using fetched_sorted [OF assms(1-3)] by metis
  have "x \<in> set (ms @ later)" unfolding l(1) [symmetric] using assms(4) True by simp
  then have "x \<in> set ms" using sorted_upto [OF l(3,2) _ assms(5)] by blast
  then show ?thesis ..
qed simp

lemma below_handled_mono: "below_handled lg s f \<Longrightarrow> handled s \<subseteq> handled s' \<Longrightarrow> below_handled lg s' f"
  by (auto simp: below_handled_def)

lemma poll_below:
  assumes "log_sorted lg" "fetched lg (cn_pos c) batch" "batch \<noteq> []"
    and below: "below_handled lg (cn_sys c) (cn_pos c)" "below_handled lg (cn_sys c) (cn_committed c)"
    and c': "c' = poll init cap env commit_ok batch c"
  shows "below_handled lg (cn_sys c') (cn_pos c')" "below_handled lg (cn_sys c') (cn_committed c')"
    "handled (cn_sys c) \<subseteq> handled (cn_sys c')"
proof -
  obtain r s' where run: "process_batch env batch [] (cn_sys c) = (r, s')"
    by (cases "process_batch env batch [] (cn_sys c)")
  have c'_eq: "cn_pos c' = pos_after batch r (cn_pos c)" "cn_sys c' = s'"
      "cn_committed c' = committed_after commit_ok r (cn_committed c)"
    using c' run assms(3) by (simp_all add: poll_def)
  have ne: "\<forall>(p, ms) \<in> set batch. ms \<noteq> []" using assms(2) by (auto simp: fetched_def)
  have dist: "distinct (map fst batch)" using assms(2) by (simp add: fetched_def)
  note sound = process_batch_sound [OF run ne]
  then show sub: "handled (cn_sys c) \<subseteq> handled (cn_sys c')" by (simp add: c'_eq)
  have old: "x \<in> handled s'" if "x \<in> set (lg p)" "mg_offset x < cn_pos c p" for x p
    using below(1) sub that unfolding below_handled_def c'_eq by blast
  show "below_handled lg (cn_sys c') (cn_pos c')"
    unfolding below_handled_def c'_eq
  proof (intro allI ballI impI)
    fix p x
    assume x: "x \<in> set (lg p)" "mg_offset x < pos_after batch r (cn_pos c) p"
    show "x \<in> handled s'"
    proof (cases "map_of (br_seeks r) p")
      case (Some n)
      then have "seek_sound batch (handled s') (p, n)" using sound by (auto dest: map_of_SomeD)
      moreover have "mg_offset x < n" using x(2) Some by (simp add: pos_after_def)
      ultimately show ?thesis using seek_below [OF assms(1,2)] x(1) old by blast
    next
      case None
      show ?thesis
      proof (cases "map_of batch p")
        case None
        then show ?thesis using x old \<open>map_of (br_seeks r) p = None\<close> by (simp add: pos_after_def)
      next
        case (Some ms)
        then have ms: "(p, ms) \<in> set batch" by (rule map_of_SomeD)
        moreover have "p \<notin> fst ` set (br_seeks r)"
          using \<open>map_of (br_seeks r) p = None\<close> by (simp add: map_of_eq_None_iff)
        ultimately have "set ms \<subseteq> handled s'" using sound by blast
        moreover have "mg_offset x < mg_offset (last ms) + 1"
          using x(2) Some \<open>map_of (br_seeks r) p = None\<close> by (simp add: pos_after_def)
        ultimately show ?thesis using fetched_below [OF assms(1,2) ms x(1)] old x(1) by blast
      qed
    qed
  qed
  show "below_handled lg (cn_sys c') (cn_committed c')"
    unfolding below_handled_def c'_eq
  proof (intro allI ballI impI)
    fix p x
    assume x: "x \<in> set (lg p)" "mg_offset x < committed_after commit_ok r (cn_committed c) p"
    show "x \<in> handled s'"
    proof (cases "commit_ok \<and> map_of (br_commits r) p \<noteq> None")
      case True
      then obtain n where n: "map_of (br_commits r) p = Some n" by auto
      then have "commit_sound batch (handled s') (p, n)" using sound by (auto dest: map_of_SomeD)
      moreover have "mg_offset x < n" using x(2) n True by (simp add: committed_after_def)
      ultimately show ?thesis using commit_below [OF assms(1,2)] x(1) old by blast
    next
      case False
      then have "mg_offset x < cn_committed c p"
        using x(2) by (auto simp: committed_after_def split: if_splits option.splits)
      then show ?thesis using below(2) x(1) sub unfolding below_handled_def c'_eq by blast
    qed
  qed
qed

lemma listens_below:
  assumes "listens init cap okE lg c0 c" "log_sorted lg"
    and "below_handled lg (cn_sys c0) (cn_pos c0)" "below_handled lg (cn_sys c0) (cn_committed c0)"
  shows "below_handled lg (cn_sys c) (cn_pos c) \<and> below_handled lg (cn_sys c) (cn_committed c)"
  using assms
proof (induction rule: listens.induct)
  case (start c)
  then show ?case by simp
next
  case (polled c c1 batch env commit_ok)
  then have IH: "below_handled lg (cn_sys c1) (cn_pos c1)" "below_handled lg (cn_sys c1) (cn_committed c1)"
    by auto
  show ?case
  proof (cases "batch = []")
    case True
    with IH show ?thesis by (simp add: poll_def)
  next
    case False
    then show ?thesis using poll_below [OF polled.prems(1) polled.hyps(2) False IH refl] by blast
  qed
next
  case (rebalanced c c1 ps)
  then show ?case by (auto simp: below_handled_def)
qed

text \<open>C5: At-least-once. Whatever sequence of polls, failures at any message, failed commits and
  rebalances the listener goes through from a fresh consumer group, every record below a
  partition's committed offset or below its read position has been handled to the end: accrued,
  skipped by a business rule, or dead-lettered. No retryable failure is ever committed past.\<close>

theorem listener_at_least_once:
  assumes "listens init cap okE lg c0 c" "log_sorted lg"
    and "\<forall>p. \<forall>m \<in> set (lg p). cn_pos c0 p \<le> mg_offset m \<and> cn_committed c0 p \<le> mg_offset m"
    and "m \<in> set (lg p)" "mg_offset m < cn_committed c p \<or> mg_offset m < cn_pos c p"
  shows "m \<in> handled (cn_sys c)"
proof -
  have "below_handled lg (cn_sys c0) (cn_pos c0)" "below_handled lg (cn_sys c0) (cn_committed c0)"
    using assms(3) by (fastforce simp: below_handled_def)+
  from listens_below [OF assms(1,2) this] assms(4,5) show ?thesis
    unfolding below_handled_def by blast
qed

definition sample_decoder :: decoder where
  "sample_decoder = \<lparr>dc_deserialize = (\<lambda>v. case v of
       Bytes (b # bs) \<Rightarrow> Inr (JObj [(''transaction_id'', JStr ''tx-1''), (''user_id'', JStr (uuid_text 3)),
          (''mcc_code'', JStr ''5411''), (''amount'', JStr ''6000''), (''transaction_date'', JStr ''t60'')])
     | _ \<Rightarrow> Inr JNull), dc_schema = (\<lambda>_. Inl (RegistryError 404 40403))\<rparr>"

definition sample_lis_env :: lis_env where
  "sample_lis_env = \<lparr>le_decoder = sample_decoder, le_iso = (\<lambda>s. if s = ''t60'' then IsoNaive 60 else IsoBad),
     le_now = 60, le_redis_fault = None, le_dlq_fault = None, le_accrual = sample_env\<rparr>"

definition sample_log :: "tp \<Rightarrow> msg list" where
  "sample_log p = (if p = (''tx'', 0) then [\<lparr>mg_tp = (''tx'', 0), mg_offset = 4, mg_value = NotBytes\<rparr>] else [])"

definition sample_consumer :: consumer where
  "sample_consumer = \<lparr>cn_pos = (\<lambda>_. 0), cn_committed = (\<lambda>_. 0), cn_delay = 1,
     cn_sys = \<lparr>ls_acc = sample_sys, ls_dlq = [], ls_outcomes = []\<rparr>\<rparr>"

theorem listener_at_least_once_witness:
  "\<lparr>mg_tp = (''tx'', 0), mg_offset = 4, mg_value = NotBytes\<rparr> \<in>
     handled (cn_sys (poll 1 30 (\<lambda>_. sample_lis_env) True [((''tx'', 0), sample_log (''tx'', 0))] sample_consumer))"
proof -
  let ?b = "[((''tx'', 0::nat), sample_log (''tx'', 0))]"
  let ?c = "poll 1 30 (\<lambda>_. sample_lis_env) True ?b sample_consumer"
  have "fetched sample_log (cn_pos sample_consumer) ?b"
    by (simp add: fetched_def sample_log_def sample_consumer_def)
  then have run: "listens 1 30 (\<lambda>_. True) sample_log sample_consumer ?c"
    by (intro listens.polled listens.start) auto
  have sorted: "log_sorted sample_log" by (simp add: log_sorted_def sample_log_def)
  have low: "\<forall>p. \<forall>m \<in> set (sample_log p). cn_pos sample_consumer p \<le> mg_offset m \<and> cn_committed sample_consumer p \<le> mg_offset m"
    by (auto simp: sample_log_def sample_consumer_def)
  have "process sample_lis_env m s = (Inl (permanent_error ''cannot be decoded''), s)" if "mg_value m = NotBytes" for m s
    using that by (simp add: process_def sample_lis_env_def sample_decoder_def decode_def decode_with_def)
  then have "(4 :: int) < cn_committed ?c (''tx'', 0)"
    by (simp add: poll_def sample_log_def handle_def Let_def sample_consumer_def
        committed_after_def done_entry_def sample_lis_env_def)
  then show ?thesis
    using listener_at_least_once [OF run sorted low, of "\<lparr>mg_tp = (''tx'', 0), mg_offset = 4, mg_value = NotBytes\<rparr>" "(''tx'', 0)"]
    by (simp add: sample_log_def)
qed

section \<open>The listener over the engine\<close>

lemma process_acc:
  "snd (process env m s) = s \<or> (\<exists>q. snd (process env m s) = snd (accrue (le_accrual env) q s))"
  by (auto simp: process_def process_tx_def split: decoded.split sum.split offer_lookup.split
      acc_result.split prod.split) (metis snd_conv)+

lemma handle_acc: "ls_acc (snd (handle env m s)) = snd (process env m (ls_acc s))"
  by (simp add: handle_def Let_def split: prod.split sum.split option.split)

lemma handle_keeps:
  assumes "\<And>q a. P a \<Longrightarrow> P (snd (accrue (le_accrual env) q a))" "P (ls_acc s)"
  shows "P (ls_acc (snd (handle env m s)))"
  using process_acc [of env m "ls_acc s"] assms by (auto simp: handle_acc)

lemma run_msgs_keeps:
  assumes "\<And>m a q. P a \<Longrightarrow> P (snd (accrue (le_accrual (env m)) q a))"
  shows "P (ls_acc s) \<Longrightarrow> P (ls_acc (snd (snd (run_msgs env ms dn s))))"
proof (induction ms arbitrary: dn s)
  case Nil
  then show ?case by simp
next
  case (Cons m ms)
  obtain r s1 where h: "handle (env m) m s = (r, s1)" by (cases "handle (env m) m s")
  then have "P (ls_acc s1)" using handle_keeps [of P "env m" s m] assms Cons.prems by simp
  with Cons.IH h show ?case by (auto split: sum.split)
qed

lemma process_batch_keeps:
  assumes "\<And>m a q. P a \<Longrightarrow> P (snd (accrue (le_accrual (env m)) q a))"
  shows "P (ls_acc s) \<Longrightarrow> P (ls_acc (snd (process_batch env batch acc s)))"
proof (induction batch arbitrary: acc s)
  case Nil
  then show ?case by simp
next
  case (Cons b batch)
  obtain p ms where b: "b = (p, ms)" by (cases b)
  obtain f dn s1 where r: "run_msgs env ms None s = (f, dn, s1)" by (cases "run_msgs env ms None s") auto
  then have "P (ls_acc s1)" using run_msgs_keeps [of P env s ms None] assms Cons.prems by simp
  with Cons.IH r b show ?case by (auto split: option.split)
qed

lemma listens_keeps:
  assumes "listens init cap okE lg c0 c"
    and "\<And>e a q. okE e \<Longrightarrow> P a \<Longrightarrow> P (snd (accrue (le_accrual e) q a))"
  shows "P (ls_acc (cn_sys c0)) \<Longrightarrow> P (ls_acc (cn_sys c))"
  using assms(1)
proof (induction rule: listens.induct)
  case (start c)
  then show ?case by simp
next
  case (polled c c1 batch env commit_ok)
  have "P (ls_acc (snd (process_batch env batch [] (cn_sys c1))))"
  proof (rule process_batch_keeps)
    show "P (snd (accrue (le_accrual (env m)) q a))" if "P a" for m a q
      using assms(2) [OF polled.hyps(3) that] .
    show "P (ls_acc (cn_sys c1))" using polled.IH polled.prems .
  qed
  then show ?case using polled.IH polled.prems by (auto simp: poll_def split: prod.split)
next
  case (rebalanced c c1 ps)
  then show ?case by simp
qed



section \<open>Dead letters and pauses\<close>

text \<open>The reasons \<^verbatim>\<open>accrue\<close> skips with, and the outcomes of \<open>process\<close>; none is \<open>dead_lettered\<close>.\<close>

definition skip_reasons :: "string list" where
  "skip_reasons = [''offer_mismatch'', ''duplicate'', ''offer_not_accepted'', ''accepted_after_purchase'',
     ''offer_expired'', ''not_eligible'', ''zero_cashback'', ''daily_limit_reached'', ''budget_exhausted'']"

definition tx_yields :: "('a \<Rightarrow> bool) \<Rightarrow> 'a tx \<Rightarrow> bool" where
  "tx_yields P m = (\<forall>d x d'. m d = (Inr x, d') \<longrightarrow> P x)"

lemma tx_yields_return: "P x \<Longrightarrow> tx_yields P (tx_return x)"
  by (simp add: tx_yields_def tx_return_def)

lemma tx_yields_bind: "(\<And>x. tx_yields P (f x)) \<Longrightarrow> tx_yields P (tx_bind m f)"
  by (auto simp: tx_yields_def tx_bind_Inr)

definition known_result :: "acc_outcome \<Rightarrow> bool" where
  "known_result x = (case fst x of Accrued _ _ _ \<Rightarrow> True | Skipped r \<Rightarrow> r \<in> set skip_reasons)"

lemma known_skip: "r \<in> set skip_reasons \<Longrightarrow> tx_yields known_result (skip_acc r)"
  by (simp add: skip_acc_def tx_yields_return known_result_def)

lemma accrue_body_known: "tx_yields known_result (accrue_body env q)"
proof -
  have ins: "tx_yields known_result (insert_step env q uid cid rid cb)" for uid cid rid cb
    unfolding insert_step_def
    by (auto intro!: tx_yields_bind tx_yields_return simp: known_result_def skip_reasons_def split: option.split)
  have "tx_yields known_result (accrue_locked env q rid)" for rid
    unfolding accrue_locked_def
    by (auto intro!: tx_yields_bind known_skip ins simp: skip_reasons_def split: option.split)
  then show ?thesis
    unfolding accrue_body_def Let_def
    by (auto intro!: tx_yields_bind tx_yields_return known_skip
        simp: skip_reasons_def known_result_def split: option.split)
qed

lemma accrue_skip_known: "fst (accrue env q s) = Inr (Skipped r) \<Longrightarrow> r \<in> set skip_reasons"
  using accrue_body_known [of env q]
  by (fastforce simp: accrue_def Let_def tx_yields_def known_result_def
      split: prod.splits sum.splits option.splits)

lemma process_outcome: "fst (process env m s) = Inr why \<Longrightarrow> why \<noteq> ''dead_lettered''"
proof -
  assume "fst (process env m s) = Inr why"
  then have "why \<in> {''no_offer'', ''bad_offer'', ''legacy_offer'', ''accrued''} \<or>
      (\<exists>q. fst (accrue (le_accrual env) q s) = Inr (Skipped why))"
    by (auto simp: process_def process_tx_def split: decoded.splits sum.splits offer_lookup.splits
        acc_result.splits prod.splits if_splits) (metis fst_conv)
  then show ?thesis using accrue_skip_known by (fastforce simp: skip_reasons_def)
qed

definition dlq_entry :: "msg \<Rightarrow> string \<times> nat \<times> int" where
  "dlq_entry m = (fst (mg_tp m), snd (mg_tp m), mg_offset m)"

definition dlq_matches :: "lis_sys \<Rightarrow> bool" where
  "dlq_matches s = (ls_dlq s = map (dlq_entry \<circ> fst) (filter (\<lambda>x. snd x = ''dead_lettered'') (ls_outcomes s)))"

lemma handle_dlq:
  "(case fst (handle env m s) of Inl e \<Rightarrow> ls_dlq (snd (handle env m s)) = ls_dlq s
    | Inr why \<Rightarrow> ls_dlq (snd (handle env m s)) = ls_dlq s @ (if why = ''dead_lettered'' then [dlq_entry m] else []))"
proof (cases "process env m (ls_acc s)")
  case (Pair r a)
  then show ?thesis
    using process_outcome [of env m "ls_acc s"]
    by (cases r) (auto simp: handle_def Let_def dlq_entry_def split: option.split)
qed

lemma run_msgs_dlq: "dlq_matches s \<Longrightarrow> dlq_matches (snd (snd (run_msgs env ms dn s)))"
proof (induction ms arbitrary: dn s)
  case Nil
  then show ?case by simp
next
  case (Cons m ms)
  obtain r s1 where h: "handle (env m) m s = (r, s1)" by (cases "handle (env m) m s")
  have o1: "ls_outcomes s1 = ls_outcomes s" using handle_outcomes [of "env m" m s] h by simp
  show ?case
  proof (cases r)
    case (Inl e)
    then show ?thesis using handle_dlq [of "env m" m s] h o1 Cons.prems by (simp add: dlq_matches_def)
  next
    case (Inr why)
    then have "dlq_matches (s1\<lparr>ls_outcomes := ls_outcomes s1 @ [(m, why)]\<rparr>)"
      using handle_dlq [of "env m" m s] h o1 Cons.prems by (simp add: dlq_matches_def)
    with Cons.IH Inr h show ?thesis by simp
  qed
qed

lemma process_batch_dlq: "dlq_matches s \<Longrightarrow> dlq_matches (snd (process_batch env batch acc s))"
proof (induction batch arbitrary: acc s)
  case Nil
  then show ?case by simp
next
  case (Cons b batch)
  obtain p ms where b: "b = (p, ms)" by (cases b)
  obtain f dn s1 where r: "run_msgs env ms None s = (f, dn, s1)" by (cases "run_msgs env ms None s") auto
  then have "dlq_matches s1" using run_msgs_dlq [OF Cons.prems, of env ms None] by simp
  with Cons.IH r b show ?case by (auto split: option.split)
qed



text \<open>A registry that does not answer loses nothing: while the Schema Registry (or the network
  to it) is down, every message is retried; none is dead-lettered or handled.\<close>

theorem registry_outage_retries:
  assumes "registry_down (le_decoder env)"
    and "\<forall>v e. dc_deserialize (le_decoder env) v = Inl (TransportError e) \<longrightarrow>
           ex_class e \<noteq> ''PermanentMessageError'' \<and> sqlstate_of e = None \<and> ex_class e \<noteq> ''RedisResponseError''"
  shows "(\<exists>e. fst (handle env m s) = Inl e \<and> is_retryable e) \<and> snd (handle env m s) = s"
proof -
  obtain e where e: "dc_deserialize (le_decoder env) (mg_value m) = Inl (TransportError e)"
    using assms(1) by (auto simp: registry_down_def)
  then have "process env m (ls_acc s) = (Inl e, ls_acc s)"
    by (simp add: process_def decode_def decode_with_def permanent_decode_failure_def)
  moreover have "is_retryable e" using e assms(2) by (auto simp: is_retryable_def)
  ultimately show ?thesis by (simp add: handle_def Let_def)
qed

definition outage_decoder :: decoder where
  "outage_decoder = \<lparr>dc_deserialize = (\<lambda>_. Inl (TransportError (Exn ''ConnectionError'' [] None None None))),
     dc_schema = (\<lambda>_. Inl (TransportError (Exn ''ConnectionError'' [] None None None)))\<rparr>"

theorem registry_outage_retries_witness:
  "\<forall>m s. snd (handle (sample_lis_env\<lparr>le_decoder := outage_decoder\<rparr>) m s) = s"
  using registry_outage_retries [of "sample_lis_env\<lparr>le_decoder := outage_decoder\<rparr>"]
  by (simp add: registry_down_def outage_decoder_def)

text \<open>The settings of the service: 1 s doubling up to 30 s.\<close>

interpretation lis_backoff: backoff 1 30 "retry_delay 1 30"
  by unfold_locales (simp_all add: retry_delay_def)

text \<open>After \<open>n\<close> batches in a row that had to be re-read the listener pauses \<open>2 ^ n\<close> seconds, never
  more than 30; one batch that goes through resets the pause to a second.\<close>

theorem listener_pause:
  "fold (retry_delay 1 30) (os @ True # replicate n False) 1 = min (2 ^ n) 30 \<and>
   1 \<le> fold (retry_delay 1 30) os 1 \<and> fold (retry_delay 1 30) os 1 \<le> 30"
  using lis_backoff.delay_failures [of os n] lis_backoff.delay_range [of os]
  by (simp add: lis_backoff.delay_after_def)

end
