(* ===== verification/MlLimits.thy ===== *)
theory MlLimits
  imports CampaignViews Scheduling Bre "HOL-Library.AList"
begin

text \<open>
  The business limits of the recommendations (\<^verbatim>\<open>services/campaign_manager/app/api/ml_limits.py\<close>): the
  table, the payload and its validation, the two endpoints, the snapshot in Redis the serving path
  reads (\<^verbatim>\<open>ml_rate_cap.py\<close>, theory \<open>Bre\<close>) and the job that republishes it. A call is alone on the table.

  After the commit the session keeps its objects (\<^verbatim>\<open>expire_on_commit=False\<close>), so the rows it wrote are
  read back with the payload's values, not with those the columns rounded: \<open>session_view\<close>.
\<close>

record ml_row =
  mr_bucket :: string
  mr_min :: rat
  mr_max :: rat
  mr_budget :: rat
  mr_auto :: bool
  mr_risk :: string
  mr_enabled :: bool
  mr_by :: "string option"
  mr_at :: time

record ml_item =
  mi_bucket :: string
  mi_min :: rat
  mi_max :: rat
  mi_budget :: rat
  mi_auto :: bool
  mi_risk :: string

record ml_update =
  mu_global :: "bool option"
  mu_limits :: "ml_item list option"

record ml_response =
  mp_global :: bool
  mp_limits :: "ml_item list"
  mp_by :: "string option"
  mp_at :: "time option"

record ml_sys =
  ms_rows :: "ml_row list"
  ms_redis :: store

datatype ml_stmt = MGet string | MCommit | MSelect | MPublish | MLoad

record ml_env =
  me_fault :: "ml_stmt \<Rightarrow> exn option"
  me_applied :: bool
  me_clock :: time
  me_now :: time

section \<open>The payload\<close>

definition GLOBAL_ROW :: string where
  "GLOBAL_ROW = ''__global__''"

definition BUCKETS :: "string list" where
  "BUCKETS = [''premium'', ''mass'', ''young'', ''senior'', ''business'']"

definition RISK_LEVELS :: "string list" where
  "RISK_LEVELS = [''low'', ''medium'', ''high'']"

definition item_ok :: "ml_item \<Rightarrow> bool" where
  "item_ok i = (0 \<le> mi_min i \<and> mi_min i \<le> 100 \<and> 0 \<le> mi_max i \<and> mi_max i \<le> 100 \<and> 0 \<le> mi_budget i \<and>
     mi_bucket i \<in> set BUCKETS \<and> mi_risk i \<in> set RISK_LEVELS \<and> mi_min i \<le> mi_max i)"

definition validate_ml_update :: "ml_update \<Rightarrow> bool" where
  "validate_ml_update u = (case mu_limits u of None \<Rightarrow> True | Some is \<Rightarrow> is \<noteq> [] \<and> list_all item_ok is)"

section \<open>The snapshot\<close>

definition limit_json :: "ml_row \<Rightarrow> json" where
  "limit_json r = JObj [(''min_rate'', JFloat (fl (mr_min r))), (''max_rate'', JFloat (fl (mr_max r))),
     (''enabled'', JBool (mr_enabled r))]"

fun snapshot_fold :: "ml_row list \<Rightarrow> bool \<Rightarrow> (string \<times> json) list \<Rightarrow> bool \<times> (string \<times> json) list" where
  "snapshot_fold [] g bs = (g, bs)"
| "snapshot_fold (r # rs) g bs =
    (if mr_bucket r = GLOBAL_ROW then snapshot_fold rs (mr_enabled r) bs
     else snapshot_fold rs g (AList.update (mr_bucket r) (limit_json r) bs))"

definition build_snapshot :: "ml_row list \<Rightarrow> json" where
  "build_snapshot rows = (let (g, bs) = snapshot_fold rows True [] in
     JObj [(''global_enabled'', JBool g), (''buckets'', JObj (sort_key fst bs))])"

definition SNAPSHOT_TTL :: int where
  "SNAPSHOT_TTL = 24 * 3600"

text \<open>\<^verbatim>\<open>publish_snapshot\<close>: \<open>rows\<close> is what the session's \<^verbatim>\<open>SELECT\<close> gives.\<close>

definition publish_snapshot :: "ml_env \<Rightarrow> ml_row list \<Rightarrow> ml_sys \<Rightarrow> exn option \<times> ml_sys" where
  "publish_snapshot env rows s =
    (case me_fault env MSelect of
       Some e \<Rightarrow> (Some e, s)
     | None \<Rightarrow>
        (case me_fault env MPublish of
           Some e \<Rightarrow> (Some e, s)
         | None \<Rightarrow> (None, s\<lparr>ms_redis := kv_setex (me_now env) (ms_redis s) SNAPSHOT_KEY SNAPSHOT_TTL
             (VJson (build_snapshot rows))\<rparr>)))"

section \<open>Reading\<close>

definition item_of :: "ml_row \<Rightarrow> ml_item" where
  "item_of r = \<lparr>mi_bucket = mr_bucket r, mi_min = mr_min r, mi_max = mr_max r, mi_budget = mr_budget r,
     mi_auto = mr_auto r, mi_risk = mr_risk r\<rparr>"

fun latest_change :: "ml_row list \<Rightarrow> (time \<times> string option) option \<Rightarrow> (time \<times> string option) option" where
  "latest_change [] acc = acc"
| "latest_change (r # rs) acc =
    latest_change rs (case acc of
        None \<Rightarrow> Some (mr_at r, mr_by r)
      | Some (t, u) \<Rightarrow> if t < mr_at r then Some (mr_at r, mr_by r) else acc)"

definition load_limits :: "ml_row list \<Rightarrow> ml_response answer" where
  "load_limits rows =
    (let items = map item_of (filter (\<lambda>r. mr_bucket r \<noteq> GLOBAL_ROW) rows);
         seen = latest_change rows None in
     if list_all item_ok items
     then Reply \<lparr>mp_global = fst (snapshot_fold rows True []), mp_limits = sort_key mi_bucket items,
                 mp_by = (case seen of None \<Rightarrow> None | Some (t, u) \<Rightarrow> u), mp_at = map_option fst seen\<rparr>
     else Crash (py_error ''ValidationError''))"

definition get_ml_limits :: "ml_env \<Rightarrow> ml_sys \<Rightarrow> ml_response answer" where
  "get_ml_limits env s = (case me_fault env MLoad of Some e \<Rightarrow> Crash e | None \<Rightarrow> load_limits (ms_rows s))"

section \<open>Writing\<close>

text \<open>\<^verbatim>\<open>session.get\<close>: the session's object, else the row of the table.\<close>

definition session_get :: "ml_row list \<Rightarrow> ml_row list \<Rightarrow> string \<Rightarrow> ml_row option" where
  "session_get table mem b =
    (case find_by mr_bucket b mem of Some r \<Rightarrow> Some r | None \<Rightarrow> find_by mr_bucket b table)"

definition new_row :: "string \<Rightarrow> ml_row" where
  "new_row b = \<lparr>mr_bucket = b, mr_min = 0, mr_max = 100, mr_budget = 0, mr_auto = False,
     mr_risk = ''medium'', mr_enabled = True, mr_by = None, mr_at = 0\<rparr>"

definition put_object :: "ml_row \<Rightarrow> ml_row list \<Rightarrow> ml_row list" where
  "put_object r mem = (if find_by mr_bucket (mr_bucket r) mem = None then mem @ [r]
     else update_where (\<lambda>x. mr_bucket x = mr_bucket r) (\<lambda>_. r) mem)"

definition got :: "ml_row list \<Rightarrow> ml_row list \<Rightarrow> string \<Rightarrow> ml_row" where
  "got table mem b = (case session_get table mem b of None \<Rightarrow> new_row b | Some r \<Rightarrow> r)"

fun put_items ::
  "ml_env \<Rightarrow> string \<Rightarrow> ml_row list \<Rightarrow> ml_item list \<Rightarrow> ml_row list \<Rightarrow> exn + ml_row list" where
  "put_items env email table [] mem = Inr mem"
| "put_items env email table (i # is) mem =
    (case me_fault env (MGet (mi_bucket i)) of
       Some e \<Rightarrow> Inl e
     | None \<Rightarrow> put_items env email table is (put_object
         ((got table mem (mi_bucket i))\<lparr>mr_min := mi_min i, mr_max := mi_max i, mr_budget := mi_budget i,
            mr_auto := mi_auto i, mr_risk := mi_risk i, mr_by := Some email, mr_at := me_clock env\<rparr>) mem))"

definition put_global ::
  "ml_env \<Rightarrow> string \<Rightarrow> ml_row list \<Rightarrow> bool option \<Rightarrow> ml_row list \<Rightarrow> exn + ml_row list" where
  "put_global env email table g mem =
    (case g of
       None \<Rightarrow> Inr mem
     | Some b \<Rightarrow>
        (case me_fault env (MGet GLOBAL_ROW) of
           Some e \<Rightarrow> Inl e
         | None \<Rightarrow> Inr (put_object ((got table mem GLOBAL_ROW)\<lparr>mr_enabled := b, mr_by := Some email,
             mr_at := me_clock env\<rparr>) mem)))"

text \<open>The columns and \<^verbatim>\<open>ck_ml_limits_rates\<close>.\<close>

definition store_ml_row :: "ml_row \<Rightarrow> exn + ml_row" where
  "store_ml_row r =
    (case (store_rate (mr_min r), store_rate (mr_max r), store_money (mr_budget r)) of
       (Some lo, Some hi, Some b) \<Rightarrow>
         if 0 \<le> lo \<and> hi \<le> 100 \<and> lo \<le> hi then Inr (r\<lparr>mr_min := lo, mr_max := hi, mr_budget := b\<rparr>)
         else Inl (pg_error ''23514'')
     | _ \<Rightarrow> Inl (pg_error ''22003''))"

fun flush_rows :: "ml_row list \<Rightarrow> ml_row list \<Rightarrow> exn + ml_row list" where
  "flush_rows [] table = Inr table"
| "flush_rows (r # rs) table =
    (case store_ml_row r of
       Inl e \<Rightarrow> Inl e
     | Inr r1 \<Rightarrow> flush_rows rs (put_object r1 table))"

definition session_view :: "ml_row list \<Rightarrow> ml_row list \<Rightarrow> ml_row list" where
  "session_view mem table =
     map (\<lambda>r. case find_by mr_bucket (mr_bucket r) mem of None \<Rightarrow> r | Some m \<Rightarrow> m) table"

definition put_objects :: "ml_env \<Rightarrow> string \<Rightarrow> ml_update \<Rightarrow> ml_row list \<Rightarrow> exn + ml_row list" where
  "put_objects env email u table =
    (case put_items env email table (case mu_limits u of None \<Rightarrow> [] | Some is \<Rightarrow> is) [] of
       Inl e \<Rightarrow> Inl e
     | Inr mem \<Rightarrow> put_global env email table (mu_global u) mem)"

definition put_ml_limits :: "ml_env \<Rightarrow> string \<Rightarrow> ml_update \<Rightarrow> ml_sys \<Rightarrow> ml_response answer \<times> ml_sys" where
  "put_ml_limits env email u s =
    (if \<not> validate_ml_update u then (Reject 422, s) else
     case put_objects env email u (ms_rows s) of
       Inl e \<Rightarrow> (Crash e, s)
     | Inr mem \<Rightarrow>
        (case flush_rows mem (ms_rows s) of
           Inl e \<Rightarrow> (Crash e, s)
         | Inr table \<Rightarrow>
            (let s1 = s\<lparr>ms_rows := table\<rparr> in
             case me_fault env MCommit of
               Some e \<Rightarrow> (Crash e, if me_applied env then s1 else s)
             | None \<Rightarrow>
                (case publish_snapshot env (session_view mem table) s1 of
                   (Some e, s2) \<Rightarrow> (Reject 503, s2)
                 | (None, s2) \<Rightarrow>
                    ((case me_fault env MLoad of Some e \<Rightarrow> Crash e | None \<Rightarrow> load_limits (session_view mem table)), s2)))))"

text \<open>The scheduler's \<^verbatim>\<open>republish_ml_limits_snapshot\<close>, in a session of its own.\<close>

definition republish_ml_limits :: "bool \<Rightarrow> ml_env \<Rightarrow> ml_sys \<Rightarrow> exn option \<times> ml_sys" where
  "republish_ml_limits redis env s = (if redis then publish_snapshot env (ms_rows s) s else (None, s))"

section \<open>The table\<close>

definition ml_row_valid :: "ml_row \<Rightarrow> bool" where
  "ml_row_valid r = ((mr_bucket r = GLOBAL_ROW \<or> mr_bucket r \<in> set BUCKETS) \<and> 0 \<le> mr_min r \<and>
     mr_min r \<le> mr_max r \<and> mr_max r \<le> 100 \<and> 0 \<le> mr_budget r \<and> mr_risk r \<in> set RISK_LEVELS)"

definition ml_row_ok :: "ml_row \<Rightarrow> bool" where
  "ml_row_ok r = (ml_row_valid r \<and> cents (mr_min r) \<and> cents (mr_max r))"

definition ml_table_ok :: "ml_row list \<Rightarrow> bool" where
  "ml_table_ok rows = (unique_on mr_bucket rows \<and> list_all ml_row_ok rows)"

lemma new_row_valid [simp]: "b \<in> set BUCKETS \<or> b = GLOBAL_ROW \<Longrightarrow> ml_row_valid (new_row b)"
  by (auto simp: new_row_def ml_row_valid_def RISK_LEVELS_def)

lemma got_bucket [simp]: "mr_bucket (got table mem b) = b"
  by (auto simp: got_def session_get_def new_row_def dest: find_by_SomeD split: option.split)

lemma got_valid:
  assumes "list_all ml_row_valid table" "list_all ml_row_valid mem" "b \<in> set BUCKETS \<or> b = GLOBAL_ROW"
  shows "ml_row_valid (got table mem b)"
  using assms
  by (auto simp: got_def session_get_def list_all_iff dest: find_by_SomeD split: option.split)

lemma put_object_all: "list_all P mem \<Longrightarrow> P r \<Longrightarrow> list_all P (put_object r mem)"
  by (auto simp: put_object_def list_all_update_where)

lemma put_object_unique: "unique_on mr_bucket mem \<Longrightarrow> unique_on mr_bucket (put_object r mem)"
  by (auto simp: put_object_def find_by_None table_simps)

lemma find_put_object [simp]:
  "find_by mr_bucket b (put_object r mem) = (if b = mr_bucket r then Some r else find_by mr_bucket b mem)"
proof (cases "find_by mr_bucket (mr_bucket r) mem")
  case None
  then show ?thesis by (auto simp: put_object_def find_by_append split: option.split)
next
  case (Some x)
  then show ?thesis by (simp add: put_object_def find_by_replace find_by_replace_other)
qed

lemma put_items_valid:
  assumes "list_all ml_row_valid table" "list_all item_ok is" "list_all ml_row_valid mem"
    "put_items env email table is mem = Inr mem'"
  shows "list_all ml_row_valid mem'"
  using assms(2-4)
proof (induction "is" arbitrary: mem)
  case (Cons i "is")
  let ?r = "(got table mem (mi_bucket i))\<lparr>mr_min := mi_min i, mr_max := mi_max i, mr_budget := mi_budget i,
    mr_auto := mi_auto i, mr_risk := mi_risk i, mr_by := Some email, mr_at := me_clock env\<rparr>"
  have "ml_row_valid ?r" using Cons.prems by (simp add: item_ok_def ml_row_valid_def)
  then have "list_all ml_row_valid (put_object ?r mem)" using Cons.prems by (intro put_object_all)
  then show ?case using Cons.IH Cons.prems by (auto split: option.splits)
qed simp

lemma put_items_unique:
  "unique_on mr_bucket mem \<Longrightarrow> put_items env email table is mem = Inr mem' \<Longrightarrow> unique_on mr_bucket mem'"
  by (induction "is" arbitrary: mem) (auto split: option.splits intro: put_object_unique)

lemma put_objects_ok:
  assumes "list_all ml_row_valid table" "validate_ml_update u" "put_objects env email u table = Inr mem"
  shows "list_all ml_row_valid mem \<and> unique_on mr_bucket mem"
proof -
  obtain mem1 where m1: "put_items env email table (case mu_limits u of None \<Rightarrow> [] | Some is \<Rightarrow> is) [] = Inr mem1"
    and m2: "put_global env email table (mu_global u) mem1 = Inr mem"
    using assms(3) by (auto simp: put_objects_def split: sum.splits)
  have ok: "list_all ml_row_valid mem1" "unique_on mr_bucket mem1"
    using put_items_valid [OF assms(1) _ _ m1] put_items_unique [OF _ m1] assms(2)
    by (auto simp: validate_ml_update_def split: option.splits)
  have "ml_row_valid (got table mem1 GLOBAL_ROW)" by (rule got_valid [OF assms(1) ok(1)]) simp
  then show ?thesis
    using m2 ok
    by (auto simp: put_global_def ml_row_valid_def split: option.splits intro!: put_object_all put_object_unique)
qed

lemma store_ml_row_ok:
  assumes "ml_row_valid r" "store_ml_row r = Inr r1"
  shows "ml_row_ok r1 \<and> mr_bucket r1 = mr_bucket r \<and> mr_enabled r1 = mr_enabled r"
proof -
  obtain b where st: "store_money (mr_budget r) = Some b"
    "r1 = r\<lparr>mr_min := pg_round 2 (mr_min r), mr_max := pg_round 2 (mr_max r), mr_budget := b\<rparr>"
    "pg_round 2 (mr_min r) \<le> pg_round 2 (mr_max r)" "pg_round 2 (mr_max r) \<le> 100" "0 \<le> pg_round 2 (mr_min r)"
    using assms(2)
    by (auto simp: store_ml_row_def store_rate_def Let_def split: option.splits if_splits)
  have "0 \<le> b" using st(1) assms(1)
    by (auto simp: store_money_def Let_def ml_row_valid_def pg_round_nonneg split: if_splits)
  moreover have "cents (pg_round 2 x)" for x
    by (cases "x < 0") (auto simp: pg_round_def cents_iff intro: exI [of _ "- \<lfloor>- x * 100 + 1 / 2\<rfloor>"])
  ultimately show ?thesis
    using st assms(1) by (simp add: ml_row_ok_def ml_row_valid_def)
qed

lemma flush_ok:
  assumes "list_all ml_row_valid mem" "ml_table_ok table" "flush_rows mem table = Inr table'"
  shows "ml_table_ok table'"
  using assms
  by (induction mem arbitrary: table)
    (auto simp: ml_table_ok_def split: sum.splits intro!: put_object_unique put_object_all dest!: store_ml_row_ok)

lemma table_valid: "ml_table_ok table \<Longrightarrow> list_all ml_row_valid table"
  by (auto simp: ml_table_ok_def list_all_iff ml_row_ok_def)

lemma view_keys: "map mr_bucket (session_view mem table) = map mr_bucket table"
  by (auto simp: session_view_def dest: find_by_SomeD split: option.split)

lemma view_valid: "list_all ml_row_valid mem \<Longrightarrow> list_all ml_row_valid table \<Longrightarrow> list_all ml_row_valid (session_view mem table)"
  by (auto simp: session_view_def list_all_iff dest: find_by_SomeD split: option.split)

lemma find_view:
  "find_by mr_bucket b (session_view mem table) =
    (case find_by mr_bucket b table of
       None \<Rightarrow> None
     | Some r \<Rightarrow> (case find_by mr_bucket b mem of None \<Rightarrow> Some r | Some m \<Rightarrow> Some m))"
  by (induction table) (auto simp: session_view_def dest: find_by_SomeD split: option.splits)

lemma load_valid: "list_all ml_row_valid rows \<Longrightarrow> \<exists>r. load_limits rows = Reply r"
  by (auto simp: load_limits_def Let_def list_all_iff item_of_def item_ok_def ml_row_valid_def)

text \<open>C40: The table of ML limits stays sound. Whatever a \<^verbatim>\<open>PUT /ml-limits\<close> does (refused, failed, saved but
  not published, answered), the table keeps unique known buckets with \<open>0 \<le> min \<le> max \<le> 100\<close> to the
  cent, and both endpoints can always render it.\<close>

theorem ml_table_stays_sound:
  assumes "ml_table_ok (ms_rows s)" "put_ml_limits env email u s = (a, s')"
  shows "ml_table_ok (ms_rows s') \<and> (\<exists>r. load_limits (ms_rows s') = Reply r) \<and>
    (a = Reject 503 \<longrightarrow> ms_redis s' = ms_redis s)"
proof -
  have "ms_rows s' = ms_rows s \<or> (\<exists>mem. validate_ml_update u \<and> put_objects env email u (ms_rows s) = Inr mem \<and>
      flush_rows mem (ms_rows s) = Inr (ms_rows s'))"
    using assms(2)
    by (auto simp: put_ml_limits_def publish_snapshot_def Let_def split: if_splits sum.splits option.splits prod.splits)
  then have "ml_table_ok (ms_rows s')"
    using assms(1) put_objects_ok [OF table_valid [OF assms(1)]] flush_ok [OF _ assms(1)] by metis
  moreover have "a = Reject 503 \<Longrightarrow> ms_redis s' = ms_redis s"
    using assms(2)
    by (auto simp: put_ml_limits_def publish_snapshot_def Let_def load_limits_def
        split: if_splits sum.splits option.splits prod.splits)
  ultimately show ?thesis using load_valid table_valid by blast
qed

section \<open>The snapshot decides as the table\<close>

lemma decile_bucket_mirror: "decile_bucket s = bucket_of (Some s)"
  by (simp add: decile_bucket_def bucket_of_def DECILE_TO_BUCKET_def SEGMENT_BUCKETS_def)

text \<open>The rule on the table itself, in exact arithmetic.\<close>

definition limit_decision :: "ml_row list \<Rightarrow> int option \<Rightarrow> elig_row option \<Rightarrow> rule_outcome" where
  "limit_decision rows seg camp =
    (if (case find_by mr_bucket GLOBAL_ROW rows of None \<Rightarrow> False | Some g \<Rightarrow> \<not> mr_enabled g) then REJECT
     else case (bucket_of seg, camp) of
       (Some b, Some c) \<Rightarrow>
         (case find_by mr_bucket b rows of
            None \<Rightarrow> SKIP
          | Some r \<Rightarrow> if \<not> mr_enabled r \<or> mr_max r < el_rate c \<or> el_rate c < mr_min r then REJECT else PASS)
     | _ \<Rightarrow> SKIP)"

lemma fold_global:
  "unique_on mr_bucket rows \<Longrightarrow> fst (snapshot_fold rows g bs) =
     (case find_by mr_bucket GLOBAL_ROW rows of None \<Rightarrow> g | Some r \<Rightarrow> mr_enabled r)"
proof (induction rows arbitrary: g bs)
  case (Cons r rows)
  then have "mr_bucket r = GLOBAL_ROW \<Longrightarrow> find_by mr_bucket GLOBAL_ROW rows = None"
    by (auto simp: find_by_None)
  with Cons show ?case by simp
qed simp

lemma fold_buckets:
  "unique_on mr_bucket rows \<Longrightarrow> b \<noteq> GLOBAL_ROW \<Longrightarrow> map_of (snd (snapshot_fold rows g bs)) b =
     (case find_by mr_bucket b rows of None \<Rightarrow> map_of bs b | Some r \<Rightarrow> Some (limit_json r))"
proof (induction rows arbitrary: g bs)
  case (Cons r rows)
  then have "mr_bucket r = b \<Longrightarrow> find_by mr_bucket b rows = None"
    by (auto simp: find_by_None)
  with Cons show ?case by (auto simp: AList.update_conv' split: option.split)
qed simp

lemma fold_distinct: "distinct (map fst bs) \<Longrightarrow> distinct (map fst (snd (snapshot_fold rows g bs)))"
  by (induction rows arbitrary: g bs) (simp_all add: AList.distinct_update)

lemma members_sorted:
  assumes "distinct (map fst (bs :: (string \<times> json) list))"
  shows "members (sort_key fst bs) k = map_of bs k"
proof -
  have "distinct (map fst (sort_key fst bs))"
    using assms by (simp add: distinct_map)
  then have "map_of (rev (sort_key fst bs)) = map_of bs"
    using assms by (subst map_of_inject_set) (simp_all add: rev_map [symmetric])
  then show ?thesis by (simp add: members_def)
qed

lemma snapshot_get:
  assumes "unique_on mr_bucket rows"
  shows "\<exists>g bs. build_snapshot rows = JObj [(''global_enabled'', JBool g), (''buckets'', JObj bs)] \<and>
    g = (case find_by mr_bucket GLOBAL_ROW rows of None \<Rightarrow> True | Some r \<Rightarrow> mr_enabled r) \<and>
    (\<forall>b. b \<noteq> GLOBAL_ROW \<longrightarrow> members bs b = map_option limit_json (find_by mr_bucket b rows))"
proof -
  obtain g bs where f: "snapshot_fold rows True [] = (g, bs)" by fastforce
  have "distinct (map fst bs)" using fold_distinct [of "[]" rows True] f by simp
  then show ?thesis
    using fold_global [OF assms, of True "[]"] fold_buckets [OF assms, of _ True "[]"] f
    by (auto simp: build_snapshot_def members_sorted split: option.splits)
qed

lemma limit_members [simp]:
  "dict_get (limit_json r) ''enabled'' d = Inr (JBool (mr_enabled r))"
  "dict_get (limit_json r) ''max_rate'' d = Inr (JFloat (fl (mr_max r)))"
  "dict_get (limit_json r) ''min_rate'' d = Inr (JFloat (fl (mr_min r)))"
  by (simp_all add: dict_get_def limit_json_def members_def)

lemma bucket_not_global: "bucket_of seg = Some b \<Longrightarrow> b \<noteq> GLOBAL_ROW"
  by (auto simp: bucket_of_def DECILE_TO_BUCKET_def SEGMENT_BUCKETS_def GLOBAL_ROW_def split: option.splits if_splits)

lemma rate_cap_snapshot:
  assumes "unique_on mr_bucket rows"
  shows "rate_cap env (build_snapshot rows) ctx =
    (if (case find_by mr_bucket GLOBAL_ROW rows of None \<Rightarrow> False | Some g \<Rightarrow> \<not> mr_enabled g) then Inr REJECT
     else case (bucket_of (rc_segment ctx), rc_campaign ctx) of
       (Some b, Some c) \<Rightarrow>
         (case find_by mr_bucket b rows of
            None \<Rightarrow> Inr SKIP
          | Some r \<Rightarrow> Inr (if \<not> mr_enabled r \<or> fl (mr_max r) < fl (el_rate c) \<or> fl (el_rate c) < fl (mr_min r)
              then REJECT else PASS))
     | _ \<Rightarrow> Inr SKIP)"
proof -
  obtain g bs where s: "build_snapshot rows = JObj [(''global_enabled'', JBool g), (''buckets'', JObj bs)]"
    and g: "g = (case find_by mr_bucket GLOBAL_ROW rows of None \<Rightarrow> True | Some r \<Rightarrow> mr_enabled r)"
    and bs: "\<And>b. b \<noteq> GLOBAL_ROW \<Longrightarrow> members bs b = map_option limit_json (find_by mr_bucket b rows)"
    using snapshot_get [OF assms] by blast
  have seg: "decile_bucket (case rc_segment ctx of None \<Rightarrow> -1 | Some sg \<Rightarrow> if sg = 0 then -1 else sg) =
      bucket_of (rc_segment ctx)"
    by (auto simp: decile_bucket_mirror bucket_of_def DECILE_TO_BUCKET_def SEGMENT_BUCKETS_def split: option.split)
  have inner: "dict_get (if py_truthy (JObj bs) then JObj bs else JObj []) b JNull =
      Inr (case find_by mr_bucket b rows of None \<Rightarrow> JNull | Some r \<Rightarrow> limit_json r)"
    if "b \<noteq> GLOBAL_ROW" for b
    using bs [OF that] by (auto simp: dict_get_def members_def split: option.split)
  have nn: "limit_json r \<noteq> JNull" for r by (simp add: limit_json_def)
  have gl: "dict_get (JObj [(''global_enabled'', JBool g), (''buckets'', JObj bs)]) ''global_enabled'' d = Inr (JBool g)"
    "dict_get (JObj [(''global_enabled'', JBool g), (''buckets'', JObj bs)]) ''buckets'' d = Inr (JObj bs)" for d
    by (simp_all add: dict_get_def members_def)
  have "rate_cap env (build_snapshot rows) ctx = (if \<not> g then Inr REJECT
     else case (bucket_of (rc_segment ctx), rc_campaign ctx) of
       (Some b, Some c) \<Rightarrow>
         (case find_by mr_bucket b rows of
            None \<Rightarrow> Inr SKIP
          | Some r \<Rightarrow> Inr (if \<not> mr_enabled r \<or> fl (mr_max r) < fl (el_rate c) \<or> fl (el_rate c) < fl (mr_min r)
              then REJECT else PASS))
     | _ \<Rightarrow> Inr SKIP)"
    unfolding rate_cap_def s seg opt_error_def gl
    by (auto simp: json_float_def Let_def nn inner [OF bucket_not_global] simp del: py_truthy.simps(7)
        split: option.split)
  then show ?thesis by (simp add: g split: option.split)
qed

lemma fl_less_rate:
  assumes "cents a" "cents b" "0 \<le> a" "0 \<le> b" "a < 1000" "b < 1000"
  shows "fl a < fl b \<longleftrightarrow> a < b"
proof -
  obtain m n where "a * 100 = of_int m" "b * 100 = of_int n"
    using assms(1,2) by (auto simp: cents_def dest: sym)
  then show ?thesis by (rule fl_less_cents) (use assms in auto)
qed


section \<open>The kill switch\<close>

lemma flush_keeps_key:
  assumes "flush_rows mem table = Inr table'" "find_by mr_bucket b table \<noteq> None \<or> b \<in> mr_bucket ` set mem"
  shows "find_by mr_bucket b table' \<noteq> None"
  using assms
proof (induction mem arbitrary: table)
  case (Cons r mem)
  then show ?case
    by (auto simp: store_ml_row_def split: sum.splits option.splits if_splits)
qed simp

text \<open>C36: The kill switch works. After \<^verbatim>\<open>PUT /ml-limits\<close> with \<^verbatim>\<open>global_enabled = false\<close> has answered
  with success, every process of the recommendation API whose cached snapshot is not younger than 30
  seconds rejects every candidate by R7, as long as the published snapshot has not expired (24 hours)
  and Redis answers.\<close>

theorem kill_switch_takes_effect:
  assumes "ml_table_ok (ms_rows s)" "put_ml_limits env email u s = (Reply r, s')" "mu_global u = Some False"
    and "be_redis benv" "be_fault benv (OpGet SNAPSHOT_KEY) = None"
    and "br_redis b SNAPSHOT_KEY = ms_redis s' SNAPSHOT_KEY"
    and "be_now benv < me_now env + SNAPSHOT_TTL * second_us"
    and "\<And>t0 snap. br_cache b = Some (t0, snap) \<Longrightarrow> CACHE_TTL \<le> be_mono benv - t0"
  shows "fst (ml_rate_cap benv ctx b) = Inr (verdict ''R7_ml_rate_cap'' REJECT)"
proof -
  obtain mem table where p: "put_objects env email u (ms_rows s) = Inr mem"
      "flush_rows mem (ms_rows s) = Inr table" and v: "validate_ml_update u"
    and r: "ms_redis s' = kv_setex (me_now env) (ms_redis s) SNAPSHOT_KEY SNAPSHOT_TTL
      (VJson (build_snapshot (session_view mem table)))"
    using assms(2)
    by (auto simp: put_ml_limits_def publish_snapshot_def Let_def split: if_splits sum.splits option.splits prod.splits)
  have ok: "list_all ml_row_valid mem" "unique_on mr_bucket mem" "ml_table_ok table"
    using put_objects_ok [OF table_valid [OF assms(1)] v p(1)] flush_ok [OF _ assms(1) p(2)] by auto
  obtain g where g: "find_by mr_bucket GLOBAL_ROW mem = Some g" "\<not> mr_enabled g"
    using p(1) assms(3) by (auto simp: put_objects_def put_global_def split: sum.splits option.splits)
  have "find_by mr_bucket GLOBAL_ROW table \<noteq> None"
    using flush_keeps_key [OF p(2), of GLOBAL_ROW] find_by_SomeD [OF g(1)] by (metis rev_image_eqI)
  then have view: "find_by mr_bucket GLOBAL_ROW (session_view mem table) = Some g"
    using g(1) by (auto simp: find_view)
  have uniq: "unique_on mr_bucket (session_view mem table)"
    using ok(3) by (simp add: view_keys ml_table_ok_def)
  have "rate_cap benv (build_snapshot (session_view mem table)) ctx = Inr REJECT"
    using rate_cap_snapshot [OF uniq] view g(2) by simp
  moreover have "kv_get (be_now benv) (br_redis b) SNAPSHOT_KEY = Some (VJson (build_snapshot (session_view mem table)))"
    using assms(6,7) by (simp add: kv_get_def r kv_setex_def kv_set_def)
  moreover have "build_snapshot rows \<noteq> JNull" for rows
    by (simp add: build_snapshot_def split: prod.split)
  ultimately show ?thesis
    using assms(4,5,8)
    by (auto simp: ml_rate_cap_def load_snapshot_def bre_get_def split: option.split json.split)
qed

section \<open>Instances\<close>

text \<open>The rows migration 004 seeds.\<close>

definition seed_row :: "string \<Rightarrow> rat \<Rightarrow> rat \<Rightarrow> rat \<Rightarrow> bool \<Rightarrow> string \<Rightarrow> ml_row" where
  "seed_row b lo hi budget auto risk = \<lparr>mr_bucket = b, mr_min = lo, mr_max = hi, mr_budget = budget,
     mr_auto = auto, mr_risk = risk, mr_enabled = True, mr_by = None, mr_at = 0\<rparr>"

definition SEED_LIMITS :: "ml_row list" where
  "SEED_LIMITS =
    [seed_row ''premium'' 3 15 200000 True ''medium'', seed_row ''business'' 3 12 150000 True ''medium'',
     seed_row ''young'' 2 10 100000 False ''high'', seed_row ''mass'' 1 7 80000 False ''low'',
     seed_row ''senior'' 2 8 60000 True ''low'', seed_row ''__global__'' 0 100 0 False ''medium'']"

lemma seed_ok: "ml_table_ok SEED_LIMITS"
  by (simp add: ml_table_ok_def SEED_LIMITS_def seed_row_def ml_row_ok_def ml_row_valid_def BUCKETS_def
      RISK_LEVELS_def GLOBAL_ROW_def cents_def)

definition sample_ml_env :: ml_env where
  "sample_ml_env = \<lparr>me_fault = (\<lambda>_. None), me_applied = True, me_clock = 7, me_now = 7\<rparr>"

lemma sample_ml_quiet [simp]: "me_fault sample_ml_env st = None"
  by (simp add: sample_ml_env_def)

definition sample_ml :: ml_sys where
  "sample_ml = \<lparr>ms_rows = SEED_LIMITS, ms_redis = Map.empty\<rparr>"

definition switch_off :: ml_update where
  "switch_off = \<lparr>mu_global = Some False, mu_limits = None\<rparr>"

lemma sample_switch: "\<exists>r s'. put_ml_limits sample_ml_env ''a'' switch_off sample_ml = (Reply r, s')"
proof -
  let ?g = "(got SEED_LIMITS [] GLOBAL_ROW)\<lparr>mr_enabled := False, mr_by := Some ''a'', mr_at := 7\<rparr>"
  have puts: "put_objects sample_ml_env ''a'' switch_off SEED_LIMITS = Inr [?g]"
    by (simp add: put_objects_def put_global_def switch_off_def sample_ml_env_def put_object_def)
  have v: "validate_ml_update switch_off" by (simp add: validate_ml_update_def switch_off_def)
  have "pg_round 2 100 = 100" using pg_round_of_int [of 10000 2] by simp
  then have "store_ml_row ?g = Inr ?g"
    by (simp add: store_ml_row_def got_def session_get_def SEED_LIMITS_def seed_row_def GLOBAL_ROW_def
        store_rate_def store_money_def)
  then have f: "flush_rows [?g] SEED_LIMITS = Inr (put_object ?g SEED_LIMITS)" by simp
  have "list_all ml_row_valid (session_view [?g] (put_object ?g SEED_LIMITS))"
    using put_objects_ok [OF table_valid [OF seed_ok] v puts] table_valid [OF flush_ok [OF _ seed_ok f]]
    by (intro view_valid) auto
  then obtain r where "load_limits (session_view [?g] (put_object ?g SEED_LIMITS)) = Reply r"
    using load_valid by blast
  then show ?thesis
    by (simp add: put_ml_limits_def publish_snapshot_def sample_ml_def puts v f del: flush_rows.simps)
qed

theorem ml_table_stays_sound_witness:
  "ml_table_ok (ms_rows (snd (put_ml_limits sample_ml_env ''a'' switch_off sample_ml)))"
  using ml_table_stays_sound [of sample_ml sample_ml_env "''a''" switch_off, OF _ surjective_pairing] seed_ok
  by (simp add: sample_ml_def)


theorem kill_switch_takes_effect_witness:
  "\<exists>r s'. put_ml_limits sample_ml_env ''a'' switch_off sample_ml = (Reply r, s') \<and>
    fst (ml_rate_cap sample_bre_env sample_ctx \<lparr>br_redis = ms_redis s', br_cache = None\<rparr>) =
      Inr (verdict ''R7_ml_rate_cap'' REJECT)"
proof -
  obtain r s' where p: "put_ml_limits sample_ml_env ''a'' switch_off sample_ml = (Reply r, s')"
    using sample_switch by blast
  then have "fst (ml_rate_cap sample_bre_env sample_ctx \<lparr>br_redis = ms_redis s', br_cache = None\<rparr>) =
      Inr (verdict ''R7_ml_rate_cap'' REJECT)"
    by (intro kill_switch_takes_effect [OF _ p])
      (simp_all add: sample_ml_def seed_ok switch_off_def sample_bre_env_def sample_ml_env_def SNAPSHOT_TTL_def second_us_def)
  with p show ?thesis by blast
qed

end
