(* ===== verification/Auth.thy ===== *)
theory Auth
  imports KvStore Faults Campaigns
begin

text \<open>
  Accounts, tokens and permissions of the admin panel: \<^verbatim>\<open>services/campaign_manager/app/security.py\<close>,
  \<^verbatim>\<open>rbac.py\<close>, \<^verbatim>\<open>api/auth.py\<close> and \<^verbatim>\<open>api/roles.py\<close>.

  \<open>auth_env\<close> says what happens around one call: the fate of each Redis operation (done, applied with
  its reply lost, not applied), failures of the database, the clocks, fresh ids and the settings. JWT and
  bcrypt are parameters: \<open>au_decode token audience\<close> gives the claims of a token with a valid signature,
  issuer, audience and term, \<open>au_encode\<close> signs claims, \<open>au_hash\<close> and \<open>au_verify\<close> are bcrypt's, \<open>au_sha\<close>
  the first 32 hex digits of SHA-256. A call is alone on the accounts' tables. Text is ASCII where it is
  lowered.
\<close>

type_synonym claims = "(string \<times> json) list"

record admin_row =
  ad_id :: uuid
  ad_email :: string
  ad_hash :: string
  ad_name :: string
  ad_role :: string
  ad_active :: bool
  ad_created :: time
  ad_last_login :: "time option"
  ad_must_change :: bool
  ad_version :: int
  ad_changed :: "time option"

record auth_sys =
  as_users :: "admin_row list"
  as_roles :: "(string \<times> claims) list"
  as_redis :: store

datatype auth_op = AIncr string | ATtl string | AExpire string | ADel string | ASet string | ASetNx string | AGetdel string | AExists string

datatype fate = Done | ReplyLost | NotDone

datatype auth_stmt = AUser | ARole | ACommit

datatype fresh_id = FFam | FRefresh | FAccess

record auth_env =
  au_redis :: bool
  au_fate :: "auth_op \<Rightarrow> fate"
  au_fault :: "auth_stmt \<Rightarrow> exn option"
  au_applied :: bool
  au_now :: time
  au_clock :: time
  au_fresh :: "fresh_id \<Rightarrow> string"
  au_id :: uuid
  au_decode :: "string \<Rightarrow> string \<Rightarrow> claims option"
  au_encode :: "claims \<Rightarrow> string"
  au_hash :: "string \<Rightarrow> string"
  au_verify :: "string \<Rightarrow> string \<Rightarrow> bool"
  au_sha :: "string \<Rightarrow> string"
  au_access_min :: int
  au_refresh_days :: int
  au_window :: int
  au_pair_limit :: int
  au_ip_limit :: int

section \<open>Redis operations that may fail\<close>

type_synonym 'a redis = "store \<Rightarrow> 'a option \<times> store"

definition redis_do :: "auth_env \<Rightarrow> auth_op \<Rightarrow> 'a redis \<Rightarrow> 'a redis" where
  "redis_do env oper f st =
    (if \<not> au_redis env then (None, st)
     else case au_fate env oper of Done \<Rightarrow> f st | ReplyLost \<Rightarrow> (None, snd (f st)) | NotDone \<Rightarrow> (None, st))"

definition rbind :: "'a redis \<Rightarrow> ('a \<Rightarrow> 'b redis) \<Rightarrow> 'b redis" where
  "rbind p k = (\<lambda>st. case p st of (None, s1) \<Rightarrow> (None, s1) | (Some x, s1) \<Rightarrow> k x s1)"

definition rret :: "'a \<Rightarrow> 'a redis" where
  "rret x = (\<lambda>st. (Some x, st))"

text \<open>\<^verbatim>\<open>INCR\<close> keeps the expiry; \<^verbatim>\<open>TTL\<close> is \<open>-2\<close> without the key, \<open>-1\<close> without an expiry, else rounded seconds.\<close>

definition kv_incr :: "time \<Rightarrow> string \<Rightarrow> int redis" where
  "kv_incr now k st =
    (case kv_get now st k of
       None \<Rightarrow> (Some 1, kv_set st k (VJson (JInt 1)) None)
     | Some (VJson (JInt n)) \<Rightarrow>
         (Some (n + 1), kv_set st k (VJson (JInt (n + 1))) (case st k of None \<Rightarrow> None | Some (_, e) \<Rightarrow> e))
     | Some _ \<Rightarrow> (None, st))"

definition kv_ttl :: "time \<Rightarrow> string \<Rightarrow> int redis" where
  "kv_ttl now k st = (Some
    (if kv_get now st k = None then -2
     else case st k of Some (_, Some e) \<Rightarrow> (e - now + 500000) div 1000000 | _ \<Rightarrow> -1), st)"

definition kv_expire :: "time \<Rightarrow> string \<Rightarrow> int \<Rightarrow> unit redis" where
  "kv_expire now k ttl st = (Some (),
    (case kv_get now st k of None \<Rightarrow> st | Some v \<Rightarrow> kv_setex now st k ttl v))"

definition kv_take :: "time \<Rightarrow> string \<Rightarrow> rval option redis" where
  "kv_take now k st =
    (if kv_get now st k = Some VNonString then (None, st) else (Some (kv_get now st k), kv_del st k))"

definition kv_write :: "time \<Rightarrow> string \<Rightarrow> int \<Rightarrow> rval \<Rightarrow> unit redis" where
  "kv_write now k ttl v st = (Some (), kv_setex now st k ttl v)"

definition kv_unlink :: "string \<Rightarrow> unit redis" where
  "kv_unlink k st = (Some (), kv_del st k)"

definition kv_has :: "time \<Rightarrow> string \<Rightarrow> bool redis" where
  "kv_has now k st = (Some (kv_get now st k \<noteq> None), st)"

section \<open>Throttling of logins\<close>

definition pair_key :: "auth_env \<Rightarrow> string \<Rightarrow> string \<Rightarrow> string" where
  "pair_key env email ip = ''auth:login_fail:'' @ au_sha env email @ '':'' @ ip"

definition ip_key :: "string \<Rightarrow> string" where
  "ip_key ip = ''auth:login_ip:'' @ ip"

definition hit :: "auth_env \<Rightarrow> string \<Rightarrow> int redis" where
  "hit env key =
    rbind (redis_do env (AIncr key) (kv_incr (au_now env) key)) (\<lambda>n.
      let renew = rbind (redis_do env (AExpire key) (kv_expire (au_now env) key (au_window env))) (\<lambda>_. rret n) in
      if n = 1 then renew
      else rbind (redis_do env (ATtl key) (kv_ttl (au_now env) key)) (\<lambda>t. if t = -1 then renew else rret n))"

text \<open>\<^verbatim>\<open>_throttle_attempt\<close>: the \<^verbatim>\<open>Retry-After\<close> of a blocked attempt; a Redis failure lets it pass.\<close>

definition throttle_attempt :: "auth_env \<Rightarrow> string \<Rightarrow> string \<Rightarrow> store \<Rightarrow> int option \<times> store" where
  "throttle_attempt env email ip st =
    (let pk = pair_key env email ip; ik = ip_key ip in
     case rbind (hit env pk) (\<lambda>a. rbind (hit env ik) (\<lambda>b.
         if au_pair_limit env < a \<or> au_ip_limit env < b
         then let blocked = (if au_pair_limit env < a then pk else ik) in
           rbind (redis_do env (ATtl blocked) (kv_ttl (au_now env) blocked))
             (\<lambda>t. rret (Some (if 0 < t then t else au_window env)))
         else rret None)) st of
       (None, s1) \<Rightarrow> (None, s1)
     | (Some r, s1) \<Rightarrow> (r, s1))"

definition throttle_reset :: "auth_env \<Rightarrow> string \<Rightarrow> string \<Rightarrow> store \<Rightarrow> store" where
  "throttle_reset env email ip st =
     snd (redis_do env (ADel (pair_key env email ip)) (kv_unlink (pair_key env email ip)) st)"

section \<open>Tokens\<close>

definition ADMIN_AUDIENCE :: string where "ADMIN_AUDIENCE = ''cashback-admin''"
definition SSE_AUDIENCE :: string where "SSE_AUDIENCE = ''cashback-sse''"
definition ISSUER :: string where "ISSUER = ''cashback-campaign-manager''"

definition signed :: "auth_env \<Rightarrow> int \<Rightarrow> claims \<Rightarrow> string" where
  "signed env ttl_us c = au_encode env (c @ [(''iat'', JInt (au_clock env div second_us)),
     (''exp'', JInt ((au_clock env + ttl_us) div second_us))])"

definition access_claims :: "auth_env \<Rightarrow> admin_row \<Rightarrow> claims" where
  "access_claims env u =
    [(''iss'', JStr ISSUER), (''aud'', JStr ADMIN_AUDIENCE), (''type'', JStr ''access''),
     (''sub'', JStr (uuid_text (ad_id u))), (''email'', JStr (ad_email u)), (''role'', JStr (ad_role u)),
     (''ver'', JInt (ad_version u)), (''jti'', JStr (au_fresh env FAccess)), (''pwd_change'', JBool (ad_must_change u))]"

definition refresh_claims :: "auth_env \<Rightarrow> admin_row \<Rightarrow> string \<Rightarrow> claims" where
  "refresh_claims env u fam =
    [(''iss'', JStr ISSUER), (''aud'', JStr ADMIN_AUDIENCE), (''type'', JStr ''refresh''),
     (''sub'', JStr (uuid_text (ad_id u))), (''ver'', JInt (ad_version u)), (''jti'', JStr (au_fresh env FRefresh)),
     (''fam'', JStr fam)]"

definition make_access_token :: "auth_env \<Rightarrow> admin_row \<Rightarrow> string" where
  "make_access_token env u = signed env (au_access_min env * 60 * second_us) (access_claims env u)"

definition make_refresh_token :: "auth_env \<Rightarrow> admin_row \<Rightarrow> string \<Rightarrow> string \<times> string" where
  "make_refresh_token env u fam =
     (signed env (au_refresh_days env * day_us) (refresh_claims env u fam), au_fresh env FRefresh)"

definition decode_token :: "auth_env \<Rightarrow> string \<Rightarrow> string \<Rightarrow> string \<Rightarrow> claims answer" where
  "decode_token env tok typ aud =
    (case au_decode env tok aud of
       None \<Rightarrow> Reject 401
     | Some c \<Rightarrow> if jget c ''type'' = JStr typ then Reply c else Reject 401)"

definition load_token_user :: "auth_env \<Rightarrow> claims \<Rightarrow> auth_sys \<Rightarrow> admin_row answer" where
  "load_token_user env c s =
    (case (case json_text (jget c ''sub'') of None \<Rightarrow> None | Some t \<Rightarrow> parse_uuid t) of
       None \<Rightarrow> Reject 401
     | Some uid \<Rightarrow>
        (case jget c ''ver'' of
           JInt v \<Rightarrow>
             (case au_fault env AUser of
                Some e \<Rightarrow> Crash e
              | None \<Rightarrow>
                 (case find_by ad_id uid (as_users s) of
                    None \<Rightarrow> Reject 401
                  | Some u \<Rightarrow> if \<not> ad_active u \<or> ad_version u \<noteq> v then Reject 401 else Reply u))
         | _ \<Rightarrow> Reject 401))"

record auth_user =
  uu_id :: uuid
  uu_email :: string
  uu_role :: string
  uu_version :: int
  uu_must_change :: bool

definition auth_user_of :: "admin_row \<Rightarrow> auth_user" where
  "auth_user_of u = \<lparr>uu_id = ad_id u, uu_email = ad_email u, uu_role = ad_role u, uu_version = ad_version u,
     uu_must_change = ad_must_change u\<rparr>"

definition authenticate :: "auth_env \<Rightarrow> bool \<Rightarrow> string option \<Rightarrow> auth_sys \<Rightarrow> auth_user answer" where
  "authenticate env allow_pwd_change creds s =
    (case creds of
       None \<Rightarrow> Reject 401
     | Some tok \<Rightarrow>
        (case decode_token env tok ''access'' ADMIN_AUDIENCE of
           Reply c \<Rightarrow>
             (case load_token_user env c s of
                Reply u \<Rightarrow> if \<not> allow_pwd_change \<and> (ad_must_change u \<or> py_truthy (jget c ''pwd_change''))
                  then Reject 403 else Reply (auth_user_of u)
              | Reject n \<Rightarrow> Reject n
              | Crash e \<Rightarrow> Crash e)
         | Reject n \<Rightarrow> Reject n
         | Crash e \<Rightarrow> Crash e))"

definition require_role :: "string list \<Rightarrow> auth_user answer \<Rightarrow> auth_user answer" where
  "require_role allowed a = (case a of Reply u \<Rightarrow> if uu_role u \<in> set allowed then Reply u else Reject 403 | r \<Rightarrow> r)"

section \<open>Passwords\<close>

definition WEAK_PASSWORDS :: "string list" where
  "WEAK_PASSWORDS = [''dev-secret-change-me'', ''please-change-me'', ''change-me'', ''changeme'', ''secret'', ''test-secret'',
     ''admin'', ''password'', ''qwerty'', ''123456'', ''pass123'', ''admin123'']"

definition lower :: "string \<Rightarrow> string" where
  "lower = map lower_char"

text \<open>Lengths in characters and in bytes are the same for ASCII text.\<close>

definition password_policy_violation :: "string \<Rightarrow> string \<Rightarrow> string \<Rightarrow> string option" where
  "password_policy_violation new email current =
    (if length new < 12 then Some ''password must be at least 12 characters''
     else if 72 < length new then Some ''password must be at most 72 bytes''
     else if lower (py_strip new) \<in> set WEAK_PASSWORDS then Some ''password is a known default''
     else if lower (py_strip new) = lower (py_strip email) then Some ''password must differ from email''
     else if new = current then Some ''new password must differ from the current one''
     else None)"

section \<open>Pairs of tokens\<close>

record token_pair =
  tp_access :: string
  tp_refresh :: string
  tp_must_change :: bool

definition refresh_key :: "string \<Rightarrow> string" where
  "refresh_key jti = ''auth:refresh:'' @ jti"

definition family_revoked_key :: "string \<Rightarrow> string" where
  "family_revoked_key fam = ''auth:refresh_fam_revoked:'' @ fam"

definition refresh_ttl_s :: "auth_env \<Rightarrow> int" where
  "refresh_ttl_s env = au_refresh_days env * 86400"

definition issue_pair ::
  "auth_env \<Rightarrow> admin_row \<Rightarrow> string option \<Rightarrow> bool \<Rightarrow> auth_sys \<Rightarrow> token_pair answer \<times> auth_sys" where
  "issue_pair env u fam required s =
    (let f = (case fam of None \<Rightarrow> au_fresh env FFam | Some x \<Rightarrow> x);
         (tok, jti) = make_refresh_token env u f;
         rec = VJson (JObj [(''uid'', JStr (uuid_text (ad_id u))), (''fam'', JStr f)]);
         (stored, st) = redis_do env (ASet (refresh_key jti))
           (kv_write (au_now env) (refresh_key jti) (refresh_ttl_s env) rec) (as_redis s);
         s1 = s\<lparr>as_redis := st\<rparr> in
     if stored = None \<and> required then (Reject 503, s1)
     else (Reply \<lparr>tp_access = make_access_token env u, tp_refresh = tok, tp_must_change = ad_must_change u\<rparr>, s1))"

definition commit_users ::
  "auth_env \<Rightarrow> admin_row list \<Rightarrow> auth_sys \<Rightarrow> (auth_sys \<Rightarrow> 'a answer \<times> auth_sys) \<Rightarrow> 'a answer \<times> auth_sys" where
  "commit_users env us s k =
    (let s1 = s\<lparr>as_users := us\<rparr> in
     case au_fault env ACommit of None \<Rightarrow> k s1 | Some e \<Rightarrow> (Crash e, if au_applied env then s1 else s))"

definition put_user :: "admin_row \<Rightarrow> admin_row list \<Rightarrow> admin_row list" where
  "put_user u us = update_where (\<lambda>x. ad_id x = ad_id u) (\<lambda>_. u) us"

definition with_redis :: "store \<Rightarrow> auth_sys \<Rightarrow> auth_sys" where
  "with_redis st s = s\<lparr>as_redis := st\<rparr>"

definition check_throttle :: "auth_env \<Rightarrow> string \<Rightarrow> string \<Rightarrow> auth_sys \<Rightarrow> bool \<times> auth_sys" where
  "check_throttle env email ip s =
    (let (r, st) = throttle_attempt env email ip (as_redis s) in (r \<noteq> None, with_redis st s))"

section \<open>\<open>/auth/login\<close>, \<open>/refresh\<close>, \<open>/logout\<close>, \<open>/change-password\<close>\<close>

definition DUMMY_PASSWORD_HASH :: string where
  "DUMMY_PASSWORD_HASH = ''$2b$12$USjHm/0wd8jPzqu8OjInpu4Hge9HoWcHu5CXmD0fIleztcgnpS3Vm''"

definition login :: "auth_env \<Rightarrow> string \<Rightarrow> string \<Rightarrow> string \<Rightarrow> auth_sys \<Rightarrow> token_pair answer \<times> auth_sys" where
  "login env email0 password ip s =
    (if length email0 < 3 \<or> 255 < length email0 \<or> password = [] \<or> 128 < length password then (Reject 422, s)
     else let email = lower (py_strip email0); (blocked, s1) = check_throttle env email ip s in
       if blocked then (Reject 429, s1)
       else (case au_fault env AUser of
          Some e \<Rightarrow> (Crash e, s1)
        | None \<Rightarrow>
           (let found = find_by ad_email email (as_users s1);
                hashed = (case found of None \<Rightarrow> DUMMY_PASSWORD_HASH | Some u \<Rightarrow> ad_hash u);
                ok = au_verify env password hashed in
            case found of
              None \<Rightarrow> (Reject 401, s1)
            | Some u \<Rightarrow>
               if \<not> ok \<or> \<not> ad_active u then (Reject 401, s1)
               else (let s2 = with_redis (throttle_reset env email ip (as_redis s1)) s1;
                         u1 = u\<lparr>ad_last_login := Some (au_clock env)\<rparr> in
                 commit_users env (put_user u1 (as_users s2)) s2 (\<lambda>s3. issue_pair env u1 None False s3)))))"

text \<open>The claims \<^verbatim>\<open>jti\<close> and \<^verbatim>\<open>fam\<close>, when they are texts that are not empty.\<close>

definition text_claim :: "claims \<Rightarrow> string \<Rightarrow> string option" where
  "text_claim c k = (case jget c k of JStr t \<Rightarrow> if t = [] then None else Some t | _ \<Rightarrow> None)"

definition refresh_tokens :: "auth_env \<Rightarrow> string \<Rightarrow> auth_sys \<Rightarrow> token_pair answer \<times> auth_sys" where
  "refresh_tokens env tok s =
    (case decode_token env tok ''refresh'' ADMIN_AUDIENCE of
       Crash e \<Rightarrow> (Crash e, s)
     | Reject n \<Rightarrow> (Reject n, s)
     | Reply c \<Rightarrow>
        (case (text_claim c ''jti'', text_claim c ''fam'') of
           (Some jti, Some fam) \<Rightarrow>
             (let fk = family_revoked_key fam in
              case redis_do env (AGetdel (refresh_key jti)) (kv_take (au_now env) (refresh_key jti)) (as_redis s) of
                (None, st) \<Rightarrow> (Reject 503, with_redis st s)
              | (Some None, st) \<Rightarrow>
                 (case redis_do env (ASet fk) (kv_write (au_now env) fk (refresh_ttl_s env) (VJson (JInt 1))) st of
                    (None, st1) \<Rightarrow> (Reject 503, with_redis st1 s)
                  | (Some _, st1) \<Rightarrow> (Reject 401, with_redis st1 s))
              | (Some (Some rec), st) \<Rightarrow>
                 (case redis_do env (AExists fk) (kv_has (au_now env) fk) st of
                    (None, st1) \<Rightarrow> (Reject 503, with_redis st1 s)
                  | (Some revoked, st1) \<Rightarrow>
                     (let s1 = with_redis st1 s in
                      case rec of
                        VJson (JObj stored) \<Rightarrow>
                          if revoked \<or> jget stored ''fam'' \<noteq> JStr fam \<or> jget stored ''uid'' \<noteq> jget c ''sub''
                          then (Reject 401, s1)
                          else (case load_token_user env c s1 of
                              Reply u \<Rightarrow> issue_pair env u (Some fam) True s1
                            | Reject n \<Rightarrow> (Reject n, s1)
                            | Crash e \<Rightarrow> (Crash e, s1))
                      | _ \<Rightarrow> if revoked \<and> (case rec of VJson _ \<Rightarrow> True | _ \<Rightarrow> False) then (Reject 401, s1)
                             else (Crash (py_error ''ValueError''), s1))))
         | _ \<Rightarrow> (Reject 401, s)))"

definition logout :: "auth_env \<Rightarrow> string \<Rightarrow> auth_sys \<Rightarrow> unit answer \<times> auth_sys" where
  "logout env tok s =
    (case decode_token env tok ''refresh'' ADMIN_AUDIENCE of
       Reply c \<Rightarrow>
         (case text_claim c ''fam'' of
            None \<Rightarrow> (Reply (), s)
          | Some fam \<Rightarrow>
             (let fk = family_revoked_key fam in
              case redis_do env (ASet fk) (kv_write (au_now env) fk (refresh_ttl_s env) (VJson (JInt 1))) (as_redis s) of
                (None, st) \<Rightarrow> (Reject 503, with_redis st s)
              | (Some _, st) \<Rightarrow>
                 (case text_claim c ''jti'' of
                    None \<Rightarrow> (Reply (), with_redis st s)
                  | Some jti \<Rightarrow>
                     (case redis_do env (ADel (refresh_key jti)) (kv_unlink (refresh_key jti)) st of
                        (None, st1) \<Rightarrow> (Reject 503, with_redis st1 s)
                      | (Some _, st1) \<Rightarrow> (Reply (), with_redis st1 s)))))
     | _ \<Rightarrow> (Reply (), s))"

definition change_password ::
  "auth_env \<Rightarrow> string option \<Rightarrow> string \<Rightarrow> string \<Rightarrow> string \<Rightarrow> auth_sys \<Rightarrow> token_pair answer \<times> auth_sys" where
  "change_password env creds current new ip s =
    (case authenticate env True creds s of
       Reject n \<Rightarrow> (Reject n, s)
     | Crash e \<Rightarrow> (Crash e, s)
     | Reply me \<Rightarrow>
        if current = [] \<or> 128 < length current \<or> length new < 12 \<or> 72 < length new then (Reject 422, s)
        else let (blocked, s1) = check_throttle env (uu_email me) ip s in
          if blocked then (Reject 429, s1)
          else (case au_fault env AUser of
             Some e \<Rightarrow> (Crash e, s1)
           | None \<Rightarrow>
              (case find_by ad_id (uu_id me) (as_users s1) of
                 None \<Rightarrow> (Reject 401, s1)
               | Some u \<Rightarrow>
                  if \<not> ad_active u \<or> ad_version u \<noteq> uu_version me then (Reject 401, s1)
                  else if \<not> au_verify env current (ad_hash u) then (Reject 401, s1)
                  else (let s2 = with_redis (throttle_reset env (uu_email me) ip (as_redis s1)) s1 in
                    if password_policy_violation new (ad_email u) current \<noteq> None then (Reject 422, s2)
                    else if \<not> int4_ok (ad_version u + 1) then (Crash (py_error ''DataError''), s2)
                    else (let u1 = u\<lparr>ad_hash := au_hash env new, ad_must_change := False,
                            ad_changed := Some (au_clock env), ad_version := ad_version u + 1\<rparr> in
                      commit_users env (put_user u1 (as_users s2)) s2 (\<lambda>s3. issue_pair env u1 None False s3))))))"

section \<open>Permissions\<close>

definition PERMISSION_KEYS :: "string list" where
  "PERMISSION_KEYS = [''dashboard'', ''campaigns_view'', ''campaigns_create'', ''campaigns_edit'', ''campaigns_delete'',
     ''analytics'', ''users'']"

definition ROLES :: "string list" where
  "ROLES = [''ADMIN'', ''MARKETER'', ''ANALYST'']"

definition DEFAULT_PERMISSIONS :: "string \<Rightarrow> claims" where
  "DEFAULT_PERMISSIONS role =
    (if role = ''ADMIN'' then map (\<lambda>k. (k, JBool True)) PERMISSION_KEYS
     else if role = ''MARKETER'' then
       map (\<lambda>k. (k, JBool (k \<notin> {''campaigns_delete'', ''analytics'', ''users''}))) PERMISSION_KEYS
     else if role = ''ANALYST'' then
       map (\<lambda>k. (k, JBool (k \<in> {''dashboard'', ''campaigns_view'', ''analytics''}))) PERMISSION_KEYS
     else [])"

definition effective_permissions :: "string \<Rightarrow> claims option \<Rightarrow> (string \<times> bool) list" where
  "effective_permissions role stored =
    (let merged = DEFAULT_PERMISSIONS role @ (case stored of None \<Rightarrow> [] | Some p \<Rightarrow> p) in
     map (\<lambda>k. (k, jget merged k = JBool True)) PERMISSION_KEYS)"

definition permissions_for :: "auth_env \<Rightarrow> string \<Rightarrow> auth_sys \<Rightarrow> (string \<times> bool) list answer" where
  "permissions_for env role s =
    (if role = ''ADMIN'' then Reply (map (\<lambda>k. (k, True)) PERMISSION_KEYS)
     else case au_fault env ARole of
       Some e \<Rightarrow> Crash e
     | None \<Rightarrow> Reply (effective_permissions role (map_of (as_roles s) role)))"

definition require_permission :: "auth_env \<Rightarrow> string \<Rightarrow> string option \<Rightarrow> auth_sys \<Rightarrow> auth_user answer" where
  "require_permission env key creds s =
    (case authenticate env False creds s of
       Reply u \<Rightarrow>
         (case permissions_for env (uu_role u) s of
            Reply perms \<Rightarrow> if map_of perms key = Some True then Reply u else Reject 403
          | Reject n \<Rightarrow> Reject n
          | Crash e \<Rightarrow> Crash e)
     | r \<Rightarrow> r)"

definition forbid_admin_escalation :: "auth_user \<Rightarrow> string option list \<Rightarrow> bool" where
  "forbid_admin_escalation me roles = (uu_role me \<noteq> ''ADMIN'' \<and> Some ''ADMIN'' \<in> set roles)"

definition get_permissions :: "auth_env \<Rightarrow> string option \<Rightarrow> auth_sys \<Rightarrow> (string \<times> (string \<times> bool) list) list answer" where
  "get_permissions env creds s =
    (case require_permission env ''users'' creds s of
       Reply _ \<Rightarrow> (case au_fault env ARole of
          Some e \<Rightarrow> Crash e
        | None \<Rightarrow> Reply (map (\<lambda>r. (r, effective_permissions r (map_of (as_roles s) r))) ROLES))
     | Reject n \<Rightarrow> Reject n
     | Crash e \<Rightarrow> Crash e)"

text \<open>\<^verbatim>\<open>_MERGE_PERMISSIONS\<close>\<close>

definition merge_permissions :: "string \<Rightarrow> claims \<Rightarrow> (string \<times> claims) list \<Rightarrow> (string \<times> claims) list" where
  "merge_permissions role patch rows =
    (case map_of rows role of
       None \<Rightarrow> rows @ [(role, patch)]
     | Some old \<Rightarrow> map (\<lambda>(r, p). if r = role then (r, filter (\<lambda>(k, _). k \<notin> fst ` set patch) p @ patch) else (r, p)) rows)"

definition update_permissions ::
  "auth_env \<Rightarrow> string option \<Rightarrow> string \<Rightarrow> (string \<times> bool) list \<Rightarrow> auth_sys \<Rightarrow>
   (string \<times> bool) list answer \<times> auth_sys" where
  "update_permissions env creds role perms s =
    (case require_role [''ADMIN''] (authenticate env False creds s) of
       Reject n \<Rightarrow> (Reject n, s)
     | Crash e \<Rightarrow> (Crash e, s)
     | Reply me \<Rightarrow>
        if role \<notin> set ROLES \<or> perms = [] then (Reject 422, s)
        else if role = ''ADMIN'' then (Reject 403, s)
        else if \<not> set (map fst perms) \<subseteq> set PERMISSION_KEYS then (Reject 422, s)
        else (let rows = merge_permissions role (map (\<lambda>(k, b). (k, JBool b)) perms) (as_roles s);
                  s1 = s\<lparr>as_roles := rows\<rparr> in
          case au_fault env ARole of
            Some e \<Rightarrow> (Crash e, s)
          | None \<Rightarrow>
             (case au_fault env ACommit of
                Some e \<Rightarrow> (Crash e, if au_applied env then s1 else s)
              | None \<Rightarrow> (Reply (effective_permissions role (map_of rows role)), s1))))"

section \<open>Accounts\<close>

record user_create =
  uc_email :: string
  uc_password :: string
  uc_name :: string
  uc_role :: string

record user_update =
  up_name :: "string field"
  up_role :: "string field"
  up_active :: "bool field"
  up_password :: "string field"

definition create_ok :: "user_create \<Rightarrow> bool" where
  "create_ok p = (3 \<le> length (uc_email p) \<and> length (uc_email p) \<le> 255 \<and> 6 \<le> length (uc_password p) \<and>
     length (uc_password p) \<le> 72 \<and> uc_name p \<noteq> [] \<and> length (uc_name p) \<le> 255 \<and> uc_role p \<in> set ROLES)"

definition create_user :: "auth_env \<Rightarrow> string option \<Rightarrow> user_create \<Rightarrow> auth_sys \<Rightarrow> admin_row answer \<times> auth_sys" where
  "create_user env creds p s =
    (case require_permission env ''users'' creds s of
       Reject n \<Rightarrow> (Reject n, s)
     | Crash e \<Rightarrow> (Crash e, s)
     | Reply me \<Rightarrow>
        if \<not> create_ok p then (Reject 422, s)
        else if forbid_admin_escalation me [Some (uc_role p)] then (Reject 403, s)
        else (case au_fault env AUser of
           Some e \<Rightarrow> (Crash e, s)
         | None \<Rightarrow>
            if find_by ad_email (lower (uc_email p)) (as_users s) \<noteq> None then (Reject 409, s)
            else if find_by ad_id (au_id env) (as_users s) \<noteq> None then (Crash (pg_error ''23505''), s)
            else (let u = \<lparr>ad_id = au_id env, ad_email = lower (uc_email p), ad_hash = au_hash env (uc_password p),
                    ad_name = uc_name p, ad_role = uc_role p, ad_active = True, ad_created = au_clock env,
                    ad_last_login = None, ad_must_change = False, ad_version = 0, ad_changed = None\<rparr> in
              commit_users env (as_users s @ [u]) s (\<lambda>s1. (Reply u, s1)))))"

fun given_ok :: "('a \<Rightarrow> bool) \<Rightarrow> 'a field \<Rightarrow> bool" where
  "given_ok P (Given (Some x)) = P x"
| "given_ok P _ = True"

definition update_ok :: "user_update \<Rightarrow> bool" where
  "update_ok p = (given_ok (\<lambda>n. n \<noteq> [] \<and> length n \<le> 255) (up_name p) \<and> given_ok (\<lambda>r. r \<in> set ROLES) (up_role p) \<and>
     given_ok (\<lambda>w. 6 \<le> length w \<and> length w \<le> 72) (up_password p))"

text \<open>\<^verbatim>\<open>data.get(field)\<close>, and whether the field is sent with another value.\<close>

fun given :: "'a field \<Rightarrow> 'a option" where
  "given Unset = None"
| "given (Given x) = x"

fun changes :: "'a field \<Rightarrow> 'a \<Rightarrow> bool" where
  "changes Unset v = False"
| "changes (Given x) v = (x \<noteq> Some v)"

definition apply_update :: "auth_env \<Rightarrow> user_update \<Rightarrow> admin_row \<Rightarrow> admin_row" where
  "apply_update env p u =
    (let revoke = (changes (up_role p) (ad_role u) \<or> changes (up_active p) (ad_active u) \<or> given (up_password p) \<noteq> None);
         u1 = (case given (up_password p) of
             None \<Rightarrow> u
           | Some w \<Rightarrow> u\<lparr>ad_hash := au_hash env w, ad_changed := Some (au_clock env)\<rparr>) in
     u1\<lparr>ad_name := (case given (up_name p) of None \<Rightarrow> ad_name u | Some x \<Rightarrow> x),
        ad_role := (case given (up_role p) of None \<Rightarrow> ad_role u | Some x \<Rightarrow> x),
        ad_active := (case given (up_active p) of None \<Rightarrow> ad_active u | Some x \<Rightarrow> x),
        ad_version := (if revoke then ad_version u + 1 else ad_version u)\<rparr>)"

text \<open>A field sent as \<^verbatim>\<open>null\<close> reaches a column that takes none.\<close>

definition nulls :: "user_update \<Rightarrow> bool" where
  "nulls p = (up_name p = Given None \<or> up_role p = Given None \<or> up_active p = Given None)"

definition update_user ::
  "auth_env \<Rightarrow> string option \<Rightarrow> uuid \<Rightarrow> user_update \<Rightarrow> auth_sys \<Rightarrow> admin_row answer \<times> auth_sys" where
  "update_user env creds uid p s =
    (case require_permission env ''users'' creds s of
       Reject n \<Rightarrow> (Reject n, s)
     | Crash e \<Rightarrow> (Crash e, s)
     | Reply me \<Rightarrow>
        if \<not> update_ok p then (Reject 422, s)
        else (case au_fault env AUser of
           Some e \<Rightarrow> (Crash e, s)
         | None \<Rightarrow>
            (case find_by ad_id uid (as_users s) of
               None \<Rightarrow> (Reject 404, s)
             | Some u \<Rightarrow>
                if forbid_admin_escalation me [Some (ad_role u), given (up_role p)] then (Reject 403, s)
                else if uid = uu_id me \<and> (given (up_role p) \<notin> {None, Some ''ADMIN''} \<or> given (up_active p) = Some False)
                then (Reject 409, s)
                else if nulls p then (Crash (pg_error ''23502''), s)
                else if \<not> int4_ok (ad_version (apply_update env p u)) then (Crash (py_error ''DataError''), s)
                else commit_users env (put_user (apply_update env p u) (as_users s)) s
                  (\<lambda>s1. (Reply (apply_update env p u), s1)))))"

definition get_me :: "auth_env \<Rightarrow> string option \<Rightarrow> auth_sys \<Rightarrow> (admin_row \<times> (string \<times> bool) list) answer" where
  "get_me env creds s =
    (case authenticate env True creds s of
       Reply a \<Rightarrow>
         (case find_by ad_id (uu_id a) (as_users s) of
            None \<Rightarrow> Reject 401
          | Some u \<Rightarrow>
             (case permissions_for env (ad_role u) s of
                Reply p \<Rightarrow> Reply (u, p) | Reject n \<Rightarrow> Reject n | Crash e \<Rightarrow> Crash e))
     | Reject n \<Rightarrow> Reject n
     | Crash e \<Rightarrow> Crash e)"

definition list_users :: "auth_env \<Rightarrow> string option \<Rightarrow> auth_sys \<Rightarrow> admin_row list answer" where
  "list_users env creds s =
    (case require_permission env ''users'' creds s of
       Reply _ \<Rightarrow> (case au_fault env AUser of Some e \<Rightarrow> Crash e | None \<Rightarrow> Reply (sort_key ad_created (as_users s)))
     | Reject n \<Rightarrow> Reject n
     | Crash e \<Rightarrow> Crash e)"

end
