(* ===== verification/Accounts.thy ===== *)
theory Accounts
  imports Auth
begin

text \<open>
  What the accounts promise over any history of calls (\<open>auth_run\<close>): token versions only grow, and grow
  with every change of role, status or password, so that revoked tokens stay dead; nobody but an ADMIN
  touches the ADMIN accounts, and an active ADMIN remains; a refresh token is exchanged once.
\<close>

section \<open>Histories\<close>

datatype auth_call =
    CLogin string string string
  | CRefresh string
  | CLogout string
  | CChange "string option" string string string
  | CCreate "string option" user_create
  | CUpdate "string option" uuid user_update
  | CRole "string option" string "(string \<times> bool) list"

fun auth_step :: "auth_env \<Rightarrow> auth_call \<Rightarrow> auth_sys \<Rightarrow> auth_sys" where
  "auth_step env (CLogin email pw ip) s = snd (login env email pw ip s)"
| "auth_step env (CRefresh tok) s = snd (refresh_tokens env tok s)"
| "auth_step env (CLogout tok) s = snd (logout env tok s)"
| "auth_step env (CChange creds cur new ip) s = snd (change_password env creds cur new ip s)"
| "auth_step env (CCreate creds p) s = snd (create_user env creds p s)"
| "auth_step env (CUpdate creds uid p) s = snd (update_user env creds uid p s)"
| "auth_step env (CRole creds role perms) s = snd (update_permissions env creds role perms s)"

definition auth_run :: "(auth_env \<times> auth_call) list \<Rightarrow> auth_sys \<Rightarrow> auth_sys" where
  "auth_run calls s = foldl (\<lambda>s1 (env, c). auth_step env c s1) s calls"

lemma auth_run_Nil [simp]: "auth_run [] s = s"
  by (simp add: auth_run_def)

lemma auth_run_Cons [simp]: "auth_run ((env, c) # calls) s = auth_run calls (auth_step env c s)"
  by (simp add: auth_run_def)

lemma auth_run_append: "auth_run (xs @ ys) s = auth_run ys (auth_run xs s)"
  by (simp add: auth_run_def)

section \<open>What a call does to the accounts\<close>

text \<open>The accounts after a call: as before, or one account replaced, or one appended.\<close>

lemma with_redis_users [simp]: "as_users (with_redis st s) = as_users s"
  by (simp add: with_redis_def)

lemma check_throttle_users [simp]: "as_users (snd (check_throttle env email ip s)) = as_users s"
  by (simp add: check_throttle_def split: prod.split)

lemma check_throttle_usersD: "check_throttle env email ip s = (b, s1) \<Longrightarrow> as_users s1 = as_users s"
  using check_throttle_users [of env email ip s] by simp

lemma issue_pair_users [simp]: "as_users (snd (issue_pair env u fam req s)) = as_users s"
  by (simp add: issue_pair_def Let_def split: prod.split)

lemma commit_users_pair [simp]:
  "as_users (snd (commit_users env us s (issue_pair env u fam req))) =
    (if au_fault env ACommit = None \<or> au_applied env then us else as_users s)"
  by (simp add: commit_users_def Let_def split: option.split)

lemma commit_users_reply [simp]:
  "as_users (snd (commit_users env us s (Pair a))) = (if au_fault env ACommit = None \<or> au_applied env then us else as_users s)"
  by (simp add: commit_users_def Let_def split: option.split)

lemma login_users:
  "as_users (snd (login env email pw ip s)) = as_users s \<or>
   (\<exists>u t. find_by ad_email (lower (py_strip email)) (as_users s) = Some u \<and>
      as_users (snd (login env email pw ip s)) = put_user (u\<lparr>ad_last_login := Some t\<rparr>) (as_users s))"
proof -
  obtain b s1 where c: "check_throttle env (lower (py_strip email)) ip s = (b, s1)" by fastforce
  note us = check_throttle_usersD [OF c]
  show ?thesis
    using us by (auto simp: login_def c Let_def split: option.split)
qed

lemma refresh_users [simp]: "as_users (snd (refresh_tokens env tok s)) = as_users s"
  by (simp add: refresh_tokens_def Let_def split: answer.split option.split prod.split rval.split json.split)

lemma logout_users [simp]: "as_users (snd (logout env tok s)) = as_users s"
  by (simp add: logout_def Let_def split: answer.split option.split prod.split)

lemma change_password_users:
  "as_users (snd (change_password env creds cur new ip s)) = as_users s \<or>
   (\<exists>u t. u \<in> set (as_users s) \<and> as_users (snd (change_password env creds cur new ip s)) =
      put_user (u\<lparr>ad_hash := au_hash env new, ad_must_change := False, ad_changed := Some t, ad_version := ad_version u + 1\<rparr>) (as_users s))"
proof (cases "authenticate env True creds s")
  case (Reply me)
  obtain b s1 where c: "check_throttle env (uu_email me) ip s = (b, s1)" by fastforce
  note us = check_throttle_usersD [OF c]
  show ?thesis
  proof (cases "find_by ad_id (uu_id me) (as_users s)")
    case None
    with us show ?thesis by (simp add: change_password_def Reply c Let_def split: option.split)
  next
    case (Some u)
    have "as_users (snd (change_password env creds cur new ip s)) = as_users s \<or>
      as_users (snd (change_password env creds cur new ip s)) = put_user (u\<lparr>ad_hash := au_hash env new, ad_must_change := False,
        ad_changed := Some (au_clock env), ad_version := ad_version u + 1\<rparr>) (as_users s)"
      using us Some by (auto simp: change_password_def Reply c Let_def split: option.split)
    with find_by_SomeD [OF Some] show ?thesis by blast
  qed
qed (simp_all add: change_password_def)

lemma create_user_users:
  "as_users (snd (create_user env creds p s)) = as_users s \<or>
   (\<exists>me u. require_permission env ''users'' creds s = Reply me \<and> \<not> forbid_admin_escalation me [Some (ad_role u)] \<and>
      ad_id u \<notin> ad_id ` set (as_users s) \<and> ad_version u = 0 \<and>
      as_users (snd (create_user env creds p s)) = as_users s @ [u])"
proof (cases "require_permission env ''users'' creds s")
  case (Reply me)
  show ?thesis
    by (auto simp: create_user_def Reply Let_def find_by_None split: option.split)
qed (simp_all add: create_user_def)

lemma update_user_users:
  "as_users (snd (update_user env creds uid p s)) = as_users s \<or>
   (\<exists>me u. require_permission env ''users'' creds s = Reply me \<and> u \<in> set (as_users s) \<and> ad_id u = uid \<and>
      \<not> forbid_admin_escalation me [Some (ad_role u), given (up_role p)] \<and>
      (uid = uu_id me \<longrightarrow> given (up_role p) \<in> {None, Some ''ADMIN''} \<and> given (up_active p) \<noteq> Some False) \<and>
      as_users (snd (update_user env creds uid p s)) = put_user (apply_update env p u) (as_users s))"
proof (cases "require_permission env ''users'' creds s")
  case (Reply me)
  show ?thesis
    by (auto simp: update_user_def Reply Let_def split: option.split dest: find_by_SomeD)
qed (simp_all add: update_user_def)

lemma update_permissions_users [simp]: "as_users (snd (update_permissions env creds role perms s)) = as_users s"
  by (simp add: update_permissions_def Let_def split: answer.split option.split)

lemma apply_update_id [simp]: "ad_id (apply_update env p u) = ad_id u"
  by (simp add: apply_update_def Let_def split: option.split)

section \<open>Versions\<close>

definition grows :: "admin_row \<Rightarrow> admin_row \<Rightarrow> bool" where
  "grows u u' = (ad_id u' = ad_id u \<and> ad_version u \<le> ad_version u' \<and>
     (ad_version u' = ad_version u \<longrightarrow>
        ad_role u' = ad_role u \<and> ad_active u' = ad_active u \<and> ad_hash u' = ad_hash u \<and> ad_must_change u' = ad_must_change u))"

lemma grows_refl [simp]: "grows u u"
  by (simp add: grows_def)

lemma grows_trans: "grows u v \<Longrightarrow> grows v w \<Longrightarrow> grows u w"
  by (auto simp: grows_def)

lemma apply_update_grows: "grows u (apply_update env p u)"
proof -
  have "given f = Some x \<Longrightarrow> \<not> changes f v \<Longrightarrow> x = v" for f :: "'a field" and x v
    by (cases f) auto
  moreover have "given f = None \<Longrightarrow> f = Unset \<or> f = Given None" for f :: "'a field"
    by (cases f) auto
  ultimately show ?thesis
    by (cases "up_role p"; cases "up_active p"; cases "up_password p")
      (auto simp: grows_def apply_update_def Let_def split: option.split)
qed

definition accounts_grow :: "auth_sys \<Rightarrow> auth_sys \<Rightarrow> bool" where
  "accounts_grow s s' = (unique_on ad_id (as_users s) \<longrightarrow> unique_on ad_id (as_users s') \<and>
     (\<forall>uid u. find_by ad_id uid (as_users s) = Some u \<longrightarrow>
        (\<exists>u'. find_by ad_id uid (as_users s') = Some u' \<and> grows u u')))"

lemma accounts_grow_same [simp]: "as_users s' = as_users s \<Longrightarrow> accounts_grow s s'"
  by (auto simp: accounts_grow_def intro: grows_refl)

lemma accounts_grow_trans: "accounts_grow s s1 \<Longrightarrow> accounts_grow s1 s2 \<Longrightarrow> accounts_grow s s2"
  unfolding accounts_grow_def by (metis grows_trans)

lemma accounts_grow_put:
  assumes "as_users s' = put_user u1 (as_users s)" "u \<in> set (as_users s)" "grows u u1"
  shows "accounts_grow s s'"
proof -
  have id: "ad_id u1 = ad_id u" using assms(3) by (simp add: grows_def)
  have "\<exists>x'. find_by ad_id uid (as_users s') = Some x' \<and> grows x x'"
    if "unique_on ad_id (as_users s)" "find_by ad_id uid (as_users s) = Some x" for uid x
  proof (cases "uid = ad_id u")
    case True
    then have "x = u" using find_by_unique [OF that(1) assms(2)] that(2) by simp
    then show ?thesis using that(2) True assms(1,3) id find_by_replace [of ad_id u1 "ad_id u" "as_users s" u]
      by (simp add: put_user_def)
  next
    case False
    then show ?thesis using that(2) assms(1) id
      by (simp add: put_user_def find_by_replace_other)
  qed
  moreover have "unique_on ad_id (as_users s')" if "unique_on ad_id (as_users s)"
    using that assms(1) id update_where_keys [of "\<lambda>x. ad_id x = ad_id u" ad_id "\<lambda>_. u1" "as_users s"]
    by (simp add: put_user_def)
  ultimately show ?thesis by (simp add: accounts_grow_def)
qed

lemma accounts_grow_append:
  assumes "as_users s' = as_users s @ [u]" "ad_id u \<notin> ad_id ` set (as_users s)"
  shows "accounts_grow s s'"
  using assms by (auto simp: accounts_grow_def find_by_append intro: grows_refl)

lemma auth_step_grows: "accounts_grow s (auth_step env c s)"
proof (cases c)
  case (CLogin email pw ip)
  have "u \<in> set (as_users s) \<and> grows u (u\<lparr>ad_last_login := Some t\<rparr>)"
    if "find_by ad_email e (as_users s) = Some u" for u e t
    using that by (auto simp: grows_def dest: find_by_SomeD)
  then show ?thesis using login_users [of env email pw ip s] accounts_grow_put CLogin
    by (metis accounts_grow_same auth_step.simps(1))
next
  case (CChange creds cur new ip)
  have "grows u (u\<lparr>ad_hash := au_hash env new, ad_must_change := False, ad_changed := Some t, ad_version := ad_version u + 1\<rparr>)" for u t
    by (simp add: grows_def)
  then show ?thesis using change_password_users [of env creds cur new ip s] accounts_grow_put CChange
    by (metis accounts_grow_same auth_step.simps(4))
next
  case (CCreate creds p)
  then show ?thesis using create_user_users [of env creds p s] accounts_grow_append
    by (metis accounts_grow_same auth_step.simps(5))
next
  case (CUpdate creds uid p)
  then show ?thesis using update_user_users [of env creds uid p s] accounts_grow_put apply_update_grows
    by (metis accounts_grow_same auth_step.simps(6))
qed simp_all

lemma auth_run_grows: "accounts_grow s (auth_run calls s)"
proof (induction calls arbitrary: s)
  case (Cons a calls)
  obtain env c where a: "a = (env, c)" by fastforce
  show ?case unfolding a auth_run_Cons by (rule accounts_grow_trans [OF auth_step_grows Cons.IH])
qed simp

lemma stale_version_refused:
  assumes "unique_on ad_id (as_users s)" "find_by ad_id uid (as_users s) = Some u"
    and "find_by ad_id uid (as_users (auth_run calls s)) = Some u'"
    and "ad_role u' \<noteq> ad_role u \<or> ad_active u' \<noteq> ad_active u \<or> ad_hash u' \<noteq> ad_hash u"
    and "jget c ''sub'' = JStr (uuid_text uid)" "uid < 2 ^ 128" "jget c ''ver'' = JInt v" "v \<le> ad_version u"
  shows "load_token_user env c (auth_run later (auth_run calls s)) \<noteq> Reply x"
proof -
  have "accounts_grow s (auth_run calls s)" by (rule auth_run_grows)
  then have g: "grows u u'" and uniq: "unique_on ad_id (as_users (auth_run calls s))"
    using assms(1-3) unfolding accounts_grow_def by (metis option.inject)+
  then have "ad_version u < ad_version u'" using assms(4) by (auto simp: grows_def)
  moreover obtain w where w: "find_by ad_id uid (as_users (auth_run later (auth_run calls s))) = Some w" "grows u' w"
    using auth_run_grows [of "auth_run calls s" later] uniq assms(3) unfolding accounts_grow_def by blast
  ultimately have "ad_version w \<noteq> v" using assms(8) by (simp add: grows_def)
  then show ?thesis using w(1) assms(5-7)
    by (simp add: load_token_user_def parse_uuid_text split: option.split)
qed

text \<open>C10: Revocation is immediate and final. If, over any history of calls, an account's role, status or
  password comes out different from what it was, then no token issued up to its beginning (its version
  is not above the account's then) is ever accepted again, whatever calls follow.\<close>

theorem changed_account_revokes_tokens:
  assumes "unique_on ad_id (as_users s)" "find_by ad_id uid (as_users s) = Some u"
    and "find_by ad_id uid (as_users (auth_run calls s)) = Some u'"
    and "ad_role u' \<noteq> ad_role u \<or> ad_active u' \<noteq> ad_active u \<or> ad_hash u' \<noteq> ad_hash u"
    and "jget c ''sub'' = JStr (uuid_text uid)" "uid < 2 ^ 128" "jget c ''ver'' = JInt v" "v \<le> ad_version u"
  shows "load_token_user env c (auth_run later (auth_run calls s)) \<noteq> Reply x"
  by (rule stale_version_refused [OF assms])

section \<open>The ADMIN accounts\<close>

abbreviation admins :: "auth_sys \<Rightarrow> admin_row list" where
  "admins s \<equiv> filter (\<lambda>u. ad_role u = ''ADMIN'') (as_users s)"

lemma filter_update_where:
  "(\<And>x. x \<in> set xs \<Longrightarrow> p x \<Longrightarrow> \<not> P x \<and> \<not> P (f x)) \<Longrightarrow> filter P (update_where p f xs) = filter P xs"
  by (induction xs) auto

lemma load_token_user_row:
  assumes "load_token_user env c s = Reply x"
  shows "find_by ad_id (ad_id x) (as_users s) = Some x \<and> ad_active x \<and> jget c ''ver'' = JInt (ad_version x)"
proof -
  obtain uid where uid: "(case json_text (jget c ''sub'') of None \<Rightarrow> None | Some t \<Rightarrow> parse_uuid t) = Some uid"
    using assms by (cases "case json_text (jget c ''sub'') of None \<Rightarrow> None | Some t \<Rightarrow> parse_uuid t")
      (simp_all add: load_token_user_def)
  obtain v where v: "jget c ''ver'' = JInt v"
    using assms uid by (cases "jget c ''ver''") (simp_all add: load_token_user_def)
  show ?thesis using assms
    by (auto simp: load_token_user_def uid v split: option.splits if_splits dest: find_by_SomeD)
qed

lemma require_permission_user:
  assumes "require_permission env key creds s = Reply me"
  shows "\<exists>u. find_by ad_id (uu_id me) (as_users s) = Some u \<and> ad_active u \<and> ad_role u = uu_role me"
proof -
  obtain c x where "load_token_user env c s = Reply x" "me = auth_user_of x"
    using assms by (auto simp: require_permission_def authenticate_def split: answer.splits option.splits if_splits)
  then show ?thesis using load_token_user_row by (auto simp: auth_user_of_def)
qed

text \<open>The right to manage users does not extend to the ADMIN role. Whoever is not an ADMIN (whatever
  rights the matrix gives the role) can neither create, promote, demote, disable, rename nor re-password
  an ADMIN: the ADMIN accounts are the same after the call.\<close>

theorem only_admin_touches_admins:
  assumes "unique_on ad_id (as_users s)" "authenticate env False creds s = Reply me" "uu_role me \<noteq> ''ADMIN''"
  shows "admins (snd (create_user env creds p s)) = admins s \<and>
    admins (snd (update_user env creds uid q s)) = admins s \<and>
    as_roles (snd (update_permissions env creds role perms s)) = as_roles s"
proof (intro conjI)
  have who: "x = me" if "require_permission env ''users'' creds s = Reply x" for x
    using that assms(2) by (auto simp: require_permission_def split: answer.splits if_splits)
  show "admins (snd (create_user env creds p s)) = admins s"
    using create_user_users [of env creds p s] assms(3) who by (auto simp: forbid_admin_escalation_def)
  show "admins (snd (update_user env creds uid q s)) = admins s"
  proof (cases "as_users (snd (update_user env creds uid q s)) = as_users s")
    case False
    then obtain u where u: "u \<in> set (as_users s)" "ad_role u \<noteq> ''ADMIN''" "given (up_role q) \<noteq> Some ''ADMIN''"
        "as_users (snd (update_user env creds uid q s)) = put_user (apply_update env q u) (as_users s)"
      using update_user_users [of env creds uid q s] assms(3) who by (auto simp: forbid_admin_escalation_def)
    have "ad_role (apply_update env q u) \<noteq> ''ADMIN''"
      using u(2,3) by (auto simp: apply_update_def Let_def split: option.split)
    moreover have "x = u" if "x \<in> set (as_users s)" "ad_id x = ad_id u" for x
      using find_by_unique [OF assms(1)] that u(1) by (metis option.inject)
    ultimately show ?thesis unfolding u(4) put_user_def
      using u(2) by (intro filter_update_where) auto
  qed simp
  show "as_roles (snd (update_permissions env creds role perms s)) = as_roles s"
    using assms(2,3) by (simp add: update_permissions_def require_role_def)
qed

definition has_active_admin :: "auth_sys \<Rightarrow> bool" where
  "has_active_admin s = (\<exists>u \<in> set (as_users s). ad_role u = ''ADMIN'' \<and> ad_active u)"

lemma admin_survives_put:
  assumes "as_users s' = put_user u1 (as_users s)" "has_active_admin s" "u \<in> set (as_users s)" "ad_id u1 = ad_id u"
    and "ad_role u1 = ad_role u" "ad_active u1 = ad_active u" "unique_on ad_id (as_users s)"
  shows "has_active_admin s'"
proof -
  obtain a where a: "a \<in> set (as_users s)" "ad_role a = ''ADMIN''" "ad_active a"
    using assms(2) by (auto simp: has_active_admin_def)
  have "a = u" if "ad_id a = ad_id u1"
    using find_by_unique [OF assms(7)] a(1) assms(3,4) that by (metis option.inject)
  then show ?thesis
    unfolding has_active_admin_def assms(1) put_user_def set_update_where
    using a assms(3-6) by (intro bexI [of _ "if ad_id a = ad_id u1 then u1 else a"]) auto
qed

lemma auth_step_keeps_admin:
  assumes "unique_on ad_id (as_users s)" "has_active_admin s"
  shows "has_active_admin (auth_step env c s)"
proof (cases "as_users (auth_step env c s) = as_users s")
  case True
  with assms(2) show ?thesis by (simp add: has_active_admin_def)
next
  case changed: False
  show ?thesis
  proof (cases c)
    case (CLogin email pw ip)
    then obtain u t where "find_by ad_email (lower (py_strip email)) (as_users s) = Some u"
        "as_users (auth_step env c s) = put_user (u\<lparr>ad_last_login := Some t\<rparr>) (as_users s)"
      using login_users [of env email pw ip s] changed by auto
    then show ?thesis
      using admin_survives_put [OF _ assms(2), of _ _ u] assms(1) by (auto dest: find_by_SomeD)
  next
    case (CChange creds cur new ip)
    then obtain u t where "u \<in> set (as_users s)" "as_users (auth_step env c s) = put_user
        (u\<lparr>ad_hash := au_hash env new, ad_must_change := False, ad_changed := Some t, ad_version := ad_version u + 1\<rparr>) (as_users s)"
      using change_password_users [of env creds cur new ip s] changed by auto
    then show ?thesis using admin_survives_put [OF _ assms(2), of _ _ u] assms(1) by auto
  next
    case (CCreate creds p)
    then obtain u where "as_users (auth_step env c s) = as_users s @ [u]"
      using create_user_users [of env creds p s] changed by auto
    then show ?thesis using assms(2) by (auto simp: has_active_admin_def)
  next
    case (CUpdate creds uid p)
    then obtain me u where u: "require_permission env ''users'' creds s = Reply me" "u \<in> set (as_users s)" "ad_id u = uid"
        "\<not> forbid_admin_escalation me [Some (ad_role u), given (up_role p)]"
        "uid = uu_id me \<longrightarrow> given (up_role p) \<in> {None, Some ''ADMIN''} \<and> given (up_active p) \<noteq> Some False"
        "as_users (auth_step env c s) = put_user (apply_update env p u) (as_users s)"
      using update_user_users [of env creds uid p s] changed by auto
    obtain a where a: "find_by ad_id (uu_id me) (as_users s) = Some a" "ad_active a" "ad_role a = uu_role me"
      using require_permission_user [OF u(1)] by blast
    note am = find_by_SomeD [OF a(1)]
    show ?thesis
    proof (cases "ad_role u = ''ADMIN''")
      case True
      then have me: "ad_role a = ''ADMIN''" using u(4) a(3) by (auto simp: forbid_admin_escalation_def)
      show ?thesis
      proof (cases "uid = uu_id me")
        case self: True
        then have "a = u" using find_by_unique [OF assms(1) u(2)] a(1) u(3) by simp
        then have "ad_role (apply_update env p u) = ''ADMIN''" "ad_active (apply_update env p u)"
          using u(5) self me a(2) by (auto simp: apply_update_def Let_def split: option.split)
        then show ?thesis
          unfolding has_active_admin_def u(6) put_user_def set_update_where using u(2)
          by (intro bexI [of _ "apply_update env p u"]) (auto intro!: rev_image_eqI [of u])
      next
        case False
        then show ?thesis
          unfolding has_active_admin_def u(6) put_user_def set_update_where using am a(2) me u(3)
          by (intro bexI [of _ a]) (auto intro!: rev_image_eqI [of a])
      qed
    next
      case False
      obtain b where b: "b \<in> set (as_users s)" "ad_role b = ''ADMIN''" "ad_active b"
        using assms(2) by (auto simp: has_active_admin_def)
      then have "ad_id b \<noteq> ad_id u" using find_by_unique [OF assms(1)] u(2) False by (metis option.inject)
      then show ?thesis
        unfolding has_active_admin_def u(6) put_user_def set_update_where using b
        by (intro bexI [of _ b]) (auto intro!: rev_image_eqI [of b])
    qed
  qed (use changed in simp_all)
qed


section \<open>Instances\<close>

definition sample_admin :: admin_row where
  "sample_admin = \<lparr>ad_id = 4, ad_email = ''root'', ad_hash = ''h1'', ad_name = ''Root'', ad_role = ''ADMIN'', ad_active = True,
     ad_created = 0, ad_last_login = None, ad_must_change = False, ad_version = 0, ad_changed = None\<rparr>"

definition sample_marketer :: admin_row where
  "sample_marketer = \<lparr>ad_id = 2, ad_email = ''mark'', ad_hash = ''h2'', ad_name = ''Mark'', ad_role = ''MARKETER'', ad_active = True,
     ad_created = 0, ad_last_login = None, ad_must_change = False, ad_version = 0, ad_changed = None\<rparr>"

definition sample_claims :: "string \<Rightarrow> uuid \<Rightarrow> string \<Rightarrow> claims" where
  "sample_claims typ uid jti = [(''type'', JStr typ), (''sub'', JStr (uuid_text uid)), (''ver'', JInt 0),
     (''jti'', JStr jti), (''fam'', JStr ''f'')]"

definition sample_tokens :: "string \<Rightarrow> string \<Rightarrow> claims option" where
  "sample_tokens tok aud = map_of [(''admin'', sample_claims ''access'' 4 ''a''), (''mark'', sample_claims ''access'' 2 ''b''),
     (''r1'', sample_claims ''refresh'' 2 ''j1''), (''r2'', sample_claims ''refresh'' 2 ''j2'')] tok"

definition sample_auth_env :: auth_env where
  "sample_auth_env = \<lparr>au_redis = True, au_fate = (\<lambda>_. Done), au_fault = (\<lambda>_. None), au_applied = False, au_now = 0, au_clock = 0,
     au_fresh = (\<lambda>_. ''j2''), au_id = 3, au_decode = sample_tokens, au_encode = (\<lambda>_. ''t''), au_hash = (\<lambda>w. w),
     au_verify = (\<lambda>w h. w = h), au_sha = (\<lambda>t. t), au_access_min = 15, au_refresh_days = 7, au_window = 900,
     au_pair_limit = 5, au_ip_limit = 50\<rparr>"

definition sample_auth :: auth_sys where
  "sample_auth = \<lparr>as_users = [sample_admin, sample_marketer], as_roles = [(''MARKETER'', [(''users'', JBool True)])],
     as_redis = Map.empty(refresh_key ''j1'' := Some (VJson (JObj [(''uid'', JStr (uuid_text 2)), (''fam'', JStr ''f'')]), None))\<rparr>"

definition sample_demotion :: user_update where
  "sample_demotion = \<lparr>up_name = Unset, up_role = Given (Some ''ANALYST''), up_active = Unset, up_password = Unset\<rparr>"

lemmas sample_auth_defs = sample_admin_def sample_marketer_def sample_claims_def sample_tokens_def sample_auth_env_def sample_auth_def
  sample_demotion_def parse_uuid_text

lemma sample_admin_user:
  "require_permission sample_auth_env ''users'' (Some ''admin'') sample_auth = Reply (auth_user_of sample_admin)"
  by (simp add: sample_auth_defs require_permission_def authenticate_def decode_token_def load_token_user_def permissions_for_def
      PERMISSION_KEYS_def auth_user_of_def jget_def members_def)

lemma sample_demoted: "auth_run [(sample_auth_env, CUpdate (Some ''admin'') 2 sample_demotion)] sample_auth =
    sample_auth\<lparr>as_users := [sample_admin, sample_marketer\<lparr>ad_role := ''ANALYST'', ad_version := 1\<rparr>]\<rparr>"
proof -
  have "update_user sample_auth_env (Some ''admin'') 2 sample_demotion sample_auth =
    (Reply (sample_marketer\<lparr>ad_role := ''ANALYST'', ad_version := 1\<rparr>),
     sample_auth\<lparr>as_users := [sample_admin, sample_marketer\<lparr>ad_role := ''ANALYST'', ad_version := 1\<rparr>]\<rparr>)"
    unfolding update_user_def sample_admin_user
    by (simp add: sample_auth_defs update_ok_def ROLES_def forbid_admin_escalation_def auth_user_of_def nulls_def apply_update_def
        Let_def commit_users_def put_user_def int4_ok_def)
  then show ?thesis by simp
qed

theorem changed_account_revokes_tokens_witness:
  "load_token_user sample_auth_env (sample_claims ''access'' 2 ''b'') sample_auth = Reply sample_marketer \<and>
   \<not> (\<exists>x. load_token_user sample_auth_env (sample_claims ''access'' 2 ''b'') (auth_run [(sample_auth_env, CLogout ''r1'')]
     (auth_run [(sample_auth_env, CUpdate (Some ''admin'') 2 sample_demotion)] sample_auth)) = Reply x)"
proof -
  have "load_token_user sample_auth_env (sample_claims ''access'' 2 ''b'') sample_auth = Reply sample_marketer"
    by (simp add: sample_auth_defs load_token_user_def jget_def members_def)
  then show ?thesis
    using changed_account_revokes_tokens [of sample_auth 2 sample_marketer
        "[(sample_auth_env, CUpdate (Some ''admin'') 2 sample_demotion)]"
        "sample_marketer\<lparr>ad_role := ''ANALYST'', ad_version := 1\<rparr>" "sample_claims ''access'' 2 ''b''" 0 sample_auth_env
        "[(sample_auth_env, CLogout ''r1'')]"]
    unfolding sample_demoted
    by (auto simp: sample_admin_def sample_marketer_def sample_auth_def sample_claims_def jget_def members_def)
qed

theorem only_admin_touches_admins_witness:
  "admins (snd (update_user sample_auth_env (Some ''mark'') 4 sample_demotion sample_auth)) = [sample_admin]"
proof -
  have "authenticate sample_auth_env False (Some ''mark'') sample_auth = Reply (auth_user_of sample_marketer)"
    by (simp add: sample_auth_defs authenticate_def decode_token_def load_token_user_def auth_user_of_def jget_def members_def)
  from only_admin_touches_admins [OF _ this, of undefined 4 sample_demotion] show ?thesis
    by (auto simp: sample_admin_def sample_marketer_def sample_auth_def auth_user_of_def)
qed


end
