(* ===== verification/Sessions.thy ===== *)
theory Sessions
  imports Accounts
begin

text \<open>
  What the session store promises: a refresh token is exchanged at most once and presenting it again
  revokes its family; the login throttle; and what a patch of the permission matrix changes.
\<close>

section \<open>Keys a Redis operation leaves alone\<close>

definition frame :: "string \<Rightarrow> 'a redis \<Rightarrow> bool" where
  "frame k m = (\<forall>st. snd (m st) k = st k)"

named_theorems frame_intros

lemma frame_ret [frame_intros]: "frame k (rret x)"
  by (simp add: frame_def rret_def)

lemma frame_bind [frame_intros]: "frame k m \<Longrightarrow> (\<And>x. frame k (f x)) \<Longrightarrow> frame k (rbind m f)"
  by (auto simp: frame_def rbind_def split: prod.split option.split) (metis snd_conv)+

lemma frame_do [frame_intros]: "frame k f \<Longrightarrow> frame k (redis_do env oper f)"
  by (simp add: frame_def redis_do_def split: fate.split)

lemma frame_incr [frame_intros]: "k \<noteq> key \<Longrightarrow> frame k (kv_incr now key)"
  by (simp add: frame_def kv_incr_def kv_set_def split: option.split rval.split json.split)

lemma frame_ttl [frame_intros]: "frame k (kv_ttl now key)"
  by (simp add: frame_def kv_ttl_def)

lemma frame_expire [frame_intros]: "k \<noteq> key \<Longrightarrow> frame k (kv_expire now key ttl)"
  by (simp add: frame_def kv_expire_def kv_setex_def kv_set_def split: option.split)

lemma frame_take [frame_intros]: "k \<noteq> key \<Longrightarrow> frame k (kv_take now key)"
  by (simp add: frame_def kv_take_def kv_del_def)

lemma frame_write [frame_intros]: "k \<noteq> key \<Longrightarrow> frame k (kv_write now key ttl v)"
  by (simp add: frame_def kv_write_def kv_setex_def kv_set_def)

lemma frame_unlink [frame_intros]: "k \<noteq> key \<Longrightarrow> frame k (kv_unlink key)"
  by (simp add: frame_def kv_unlink_def kv_del_def)

lemma frame_has [frame_intros]: "frame k (kv_has now key)"
  by (simp add: frame_def kv_has_def)

lemma frame_if [frame_intros]: "(b \<Longrightarrow> frame k m) \<Longrightarrow> (\<not> b \<Longrightarrow> frame k n) \<Longrightarrow> frame k (if b then m else n)"
  by simp

lemma frameD: "frame k m \<Longrightarrow> m st = (x, st1) \<Longrightarrow> st1 k = st k"
  unfolding frame_def by (metis snd_conv)

lemma auth_keys [simp]:
  "refresh_key j \<noteq> pair_key env email ip" "refresh_key j \<noteq> ip_key ip" "refresh_key j \<noteq> family_revoked_key f"
  "family_revoked_key f \<noteq> pair_key env email ip" "family_revoked_key f \<noteq> ip_key ip" "family_revoked_key f \<noteq> refresh_key j"
  "pair_key env email ip \<noteq> ip_key ip'"
  by (simp_all add: refresh_key_def pair_key_def ip_key_def family_revoked_key_def)

lemma key_inj [simp]: "refresh_key j = refresh_key i \<longleftrightarrow> j = i" "family_revoked_key f = family_revoked_key g \<longleftrightarrow> f = g"
  by (simp_all add: refresh_key_def family_revoked_key_def)

definition throttle_steps :: "auth_env \<Rightarrow> string \<Rightarrow> string \<Rightarrow> int option redis" where
  "throttle_steps env pk ik = rbind (hit env pk) (\<lambda>a. rbind (hit env ik) (\<lambda>b.
     if au_pair_limit env < a \<or> au_ip_limit env < b
     then let blocked = (if au_pair_limit env < a then pk else ik) in
       rbind (redis_do env (ATtl blocked) (kv_ttl (au_now env) blocked))
         (\<lambda>t. rret (Some (if 0 < t then t else au_window env)))
     else rret None))"

lemma throttle_attempt_steps:
  "throttle_attempt env email ip st =
    (case throttle_steps env (pair_key env email ip) (ip_key ip) st of (None, s1) \<Rightarrow> (None, s1) | (Some r, s1) \<Rightarrow> (r, s1))"
  by (simp add: throttle_attempt_def throttle_steps_def Let_def)

lemma frame_hit [frame_intros]: "k \<noteq> key \<Longrightarrow> frame k (hit env key)"
  unfolding hit_def Let_def by (intro frame_intros) auto

lemma throttle_frame:
  assumes "k \<noteq> pair_key env email ip" "k \<noteq> ip_key ip"
  shows "snd (throttle_attempt env email ip st) k = st k"
proof -
  have f: "frame k (throttle_steps env (pair_key env email ip) (ip_key ip))"
    unfolding throttle_steps_def Let_def using assms by (intro frame_intros)
  obtain r s1 where r: "throttle_steps env (pair_key env email ip) (ip_key ip) st = (r, s1)" by fastforce
  show ?thesis using frameD [OF f r] by (simp add: throttle_attempt_steps r split: option.split)
qed

lemma check_throttle_frame:
  assumes "k \<noteq> pair_key env email ip" "k \<noteq> ip_key ip" "check_throttle env email ip s = (b, s1)"
  shows "as_redis s1 k = as_redis s k"
  using throttle_frame [OF assms(1,2), of "as_redis s"] assms(3)
  by (auto simp: check_throttle_def with_redis_def split: prod.splits)

lemma throttle_reset_frame: "k \<noteq> pair_key env email ip \<Longrightarrow> throttle_reset env email ip st k = st k"
  using frame_do [OF frame_unlink, of k "pair_key env email ip"] unfolding throttle_reset_def frame_def by auto

lemma issue_pair_frame: "k \<noteq> refresh_key (au_fresh env FRefresh) \<Longrightarrow> as_redis (snd (issue_pair env u fam req s)) k = as_redis s k"
  using frame_do [OF frame_write, of k "refresh_key (au_fresh env FRefresh)"]
  unfolding frame_def issue_pair_def make_refresh_token_def Let_def
  by (auto split: prod.split) (metis snd_conv)+

lemma commit_pair_frame:
  "k \<noteq> refresh_key (au_fresh env FRefresh) \<Longrightarrow>
   as_redis (snd (commit_users env us s (issue_pair env u fam req))) k = as_redis s k"
  by (simp add: commit_users_def Let_def issue_pair_frame split: option.split)

lemma with_redis_get [simp]: "as_redis (with_redis st s) = st"
  by (simp add: with_redis_def)

section \<open>Refresh keys and family keys over one call\<close>

definition other_key :: "auth_env \<Rightarrow> string \<Rightarrow> bool" where
  "other_key env k = (k \<noteq> refresh_key (au_fresh env FRefresh) \<and> (\<forall>e ip. k \<noteq> pair_key env e ip) \<and> (\<forall>ip. k \<noteq> ip_key ip))"

lemma login_frame:
  assumes "other_key env k"
  shows "as_redis (snd (login env email pw ip s)) k = as_redis s k"
proof -
  obtain b s1 where c: "check_throttle env (lower (py_strip email)) ip s = (b, s1)" by fastforce
  have "as_redis s1 k = as_redis s k" by (rule check_throttle_frame [OF _ _ c]) (use assms in \<open>auto simp: other_key_def\<close>)
  then show ?thesis using assms
    by (auto simp: login_def c Let_def other_key_def commit_pair_frame throttle_reset_frame split: option.split)
qed

lemma change_password_frame:
  assumes "other_key env k"
  shows "as_redis (snd (change_password env creds cur new ip s)) k = as_redis s k"
proof (cases "authenticate env True creds s")
  case (Reply u)
  obtain b s1 where c: "check_throttle env (uu_email u) ip s = (b, s1)" by fastforce
  have "as_redis s1 k = as_redis s k" by (rule check_throttle_frame [OF _ _ c]) (use assms in \<open>auto simp: other_key_def\<close>)
  then show ?thesis using assms
    by (auto simp: change_password_def Reply c Let_def other_key_def commit_pair_frame throttle_reset_frame split: option.split)
qed (simp_all add: change_password_def)

lemma create_update_frame [simp]: "as_redis (snd (create_user env creds p s)) = as_redis s"
  "as_redis (snd (update_user env creds uid q s)) = as_redis s"
  "as_redis (snd (update_permissions env creds role perms s)) = as_redis s"
  by (simp_all add: create_user_def update_user_def update_permissions_def commit_users_def Let_def
      split: answer.split option.split)

lemma redis_do_write:
  "redis_do env oper (kv_write now key ttl v) st = (x, st1) \<Longrightarrow> st1 = st \<or> st1 = kv_setex now st key ttl v"
  by (auto simp: redis_do_def kv_write_def split: if_splits fate.splits)

lemma redis_do_unlink: "redis_do env oper (kv_unlink key) st = (x, st1) \<Longrightarrow> st1 = st \<or> st1 = kv_del st key"
  by (auto simp: redis_do_def kv_unlink_def split: if_splits fate.splits)

lemma redis_do_take:
  "redis_do env oper (kv_take now key) st = (x, st1) \<Longrightarrow> (st1 = st \<and> x = None) \<or> st1 = kv_del st key"
  by (auto simp: redis_do_def kv_take_def split: if_splits fate.splits)

lemma redis_do_has: "redis_do env oper (kv_has now key) st = (x, st1) \<Longrightarrow> st1 = st"
  by (auto simp: redis_do_def kv_has_def split: if_splits fate.splits)

lemma issue_pair_at:
  "k \<noteq> refresh_key (au_fresh env FRefresh) \<Longrightarrow> issue_pair env u fam req s = (a, s1) \<Longrightarrow> as_redis s1 k = as_redis s k"
  using issue_pair_frame [of k env u fam req s] by simp

text \<open>The steps of an exchange.\<close>

lemma refresh_cases:
  assumes "refresh_tokens env tok s = (a, s')"
  obtains (refused) "s' = s" "\<not> (\<exists>p. a = Reply p)"
  | (lost) c jti fam st where "decode_token env tok ''refresh'' ADMIN_AUDIENCE = Reply c" "text_claim c ''jti'' = Some jti"
      "text_claim c ''fam'' = Some fam"
      "redis_do env (AGetdel (refresh_key jti)) (kv_take (au_now env) (refresh_key jti)) (as_redis s) = (None, st)"
      "a = Reject 503" "s' = with_redis st s"
  | (reused) c jti fam st x st1 where "decode_token env tok ''refresh'' ADMIN_AUDIENCE = Reply c" "text_claim c ''jti'' = Some jti"
      "text_claim c ''fam'' = Some fam"
      "redis_do env (AGetdel (refresh_key jti)) (kv_take (au_now env) (refresh_key jti)) (as_redis s) = (Some None, st)"
      "redis_do env (ASet (family_revoked_key fam)) (kv_write (au_now env) (family_revoked_key fam) (refresh_ttl_s env) (VJson (JInt 1))) st = (x, st1)"
      "a = (case x of None \<Rightarrow> Reject 503 | Some _ \<Rightarrow> Reject 401)" "s' = with_redis st1 s"
  | (taken) c jti fam rec st x st1 where "decode_token env tok ''refresh'' ADMIN_AUDIENCE = Reply c" "text_claim c ''jti'' = Some jti"
      "text_claim c ''fam'' = Some fam"
      "redis_do env (AGetdel (refresh_key jti)) (kv_take (au_now env) (refresh_key jti)) (as_redis s) = (Some (Some rec), st)"
      "redis_do env (AExists (family_revoked_key fam)) (kv_has (au_now env) (family_revoked_key fam)) st = (x, st1)"
      "(s' = with_redis st1 s \<and> \<not> (\<exists>p. a = Reply p)) \<or>
       (x = Some False \<and> (\<exists>u. load_token_user env c (with_redis st1 s) = Reply u \<and> issue_pair env u (Some fam) True (with_redis st1 s) = (a, s')))"
proof (cases "decode_token env tok ''refresh'' ADMIN_AUDIENCE")
  case c: (Reply c)
  show ?thesis
  proof (cases "text_claim c ''jti''")
    case None
    with assms c refused show ?thesis by (auto simp: refresh_tokens_def)
  next
    case j: (Some jti)
    show ?thesis
    proof (cases "text_claim c ''fam''")
      case None
      with assms c j refused show ?thesis by (auto simp: refresh_tokens_def)
    next
      case f: (Some fam)
      obtain r st where r: "redis_do env (AGetdel (refresh_key jti)) (kv_take (au_now env) (refresh_key jti)) (as_redis s) = (r, st)"
        by fastforce
      consider (none) "r = None" | (gone) "r = Some None" | (there) rec where "r = Some (Some rec)"
        by (cases r) auto
      then show ?thesis
      proof cases
        case none
        with assms c j f r show ?thesis by (intro lost [OF c j f, of st]) (simp_all add: refresh_tokens_def Let_def)
      next
        case gone
        obtain x st1 where w: "redis_do env (ASet (family_revoked_key fam))
            (kv_write (au_now env) (family_revoked_key fam) (refresh_ttl_s env) (VJson (JInt 1))) st = (x, st1)" by fastforce
        show ?thesis
          by (rule reused [OF c j f _ w]) (use assms c j f r gone w in \<open>auto simp: refresh_tokens_def Let_def split: option.splits\<close>)
      next
        case there
        obtain x st1 where w: "redis_do env (AExists (family_revoked_key fam)) (kv_has (au_now env) (family_revoked_key fam)) st = (x, st1)"
          by fastforce
        show ?thesis
        proof (rule taken [OF c j f _ w])
          show "redis_do env (AGetdel (refresh_key jti)) (kv_take (au_now env) (refresh_key jti)) (as_redis s) = (Some (Some rec), st)"
            using r there by simp
          show "(s' = with_redis st1 s \<and> \<not> (\<exists>p. a = Reply p)) \<or>
            (x = Some False \<and> (\<exists>u. load_token_user env c (with_redis st1 s) = Reply u \<and> issue_pair env u (Some fam) True (with_redis st1 s) = (a, s')))"
          proof (cases x)
            case None
            with assms c j f r there w show ?thesis by (auto simp: refresh_tokens_def Let_def)
          next
            case (Some b)
            show ?thesis
            proof (cases "load_token_user env c (with_redis st1 s)")
              case (Reply u)
              with assms c j f r there w Some show ?thesis
                by (cases rec) (auto simp: refresh_tokens_def Let_def split: json.splits if_splits)
            qed (use assms c j f r there w Some in
                \<open>cases rec; auto simp: refresh_tokens_def Let_def split: json.splits if_splits\<close>)+
          qed
        qed
      qed
    qed
  qed
next
  case (Reject n)
  with assms refused show ?thesis by (auto simp: refresh_tokens_def)
next
  case (Crash e)
  with assms refused show ?thesis by (auto simp: refresh_tokens_def)
qed

lemma kv_write_at: "kv_setex now st key ttl v k = (if k = key then Some (v, Some (now + ttl * second_us)) else st k)"
  by (simp add: kv_setex_def kv_set_def)

lemma refresh_at:
  assumes "k \<noteq> refresh_key (au_fresh env FRefresh)"
  shows "as_redis (snd (refresh_tokens env tok s)) k \<in> {as_redis s k, None} \<and> (\<forall>f. k = family_revoked_key f \<longrightarrow> as_redis (snd (refresh_tokens env tok s)) k = as_redis s k) \<or>
    (\<exists>f. k = family_revoked_key f \<and>
      as_redis (snd (refresh_tokens env tok s)) k = Some (VJson (JInt 1), Some (au_now env + refresh_ttl_s env * second_us)))"
proof -
  obtain a s' where r: "refresh_tokens env tok s = (a, s')" by fastforce
  then show ?thesis
  proof (cases rule: refresh_cases)
    case refused
    then show ?thesis using r by simp
  next
    case (lost c jti fam st)
    then show ?thesis using r redis_do_take [OF lost(4)] by (auto simp: kv_del_def split: if_splits)
  next
    case (reused c jti fam st x st1)
    then show ?thesis using r redis_do_take [OF reused(4)] redis_do_write [OF reused(5)]
      by (auto simp: kv_del_def kv_write_at split: if_splits)
  next
    case (taken c jti fam rec st x st1)
    have st1: "st1 = st" using redis_do_has [OF taken(5)] .
    have "as_redis s' k = st k"
      using taken(6) issue_pair_at [OF assms] by (auto simp: st1)
    moreover have "st = kv_del (as_redis s) (refresh_key jti)" using redis_do_take [OF taken(4)] by simp
    ultimately show ?thesis using r by (auto simp: kv_del_def split: if_splits)
  qed
qed

lemma logout_at:
  "as_redis (snd (logout env tok s)) k \<in> {as_redis s k, None} \<and> (\<forall>f. k = family_revoked_key f \<longrightarrow> as_redis (snd (logout env tok s)) k = as_redis s k) \<or>
    (\<exists>f. k = family_revoked_key f \<and>
      as_redis (snd (logout env tok s)) k = Some (VJson (JInt 1), Some (au_now env + refresh_ttl_s env * second_us)))"
proof (cases "decode_token env tok ''refresh'' ADMIN_AUDIENCE")
  case c: (Reply c)
  show ?thesis
  proof (cases "text_claim c ''fam''")
    case f: (Some fam)
    obtain x st where w: "redis_do env (ASet (family_revoked_key fam))
        (kv_write (au_now env) (family_revoked_key fam) (refresh_ttl_s env) (VJson (JInt 1))) (as_redis s) = (x, st)" by fastforce
    have st: "st k = as_redis s k \<or> (k = family_revoked_key fam \<and>
        st k = Some (VJson (JInt 1), Some (au_now env + refresh_ttl_s env * second_us)))"
      using redis_do_write [OF w] by (auto simp: kv_write_at split: if_splits)
    show ?thesis
    proof (cases "x = None \<or> text_claim c ''jti'' = None")
      case True
      then have "as_redis (snd (logout env tok s)) = st"
        using c f w by (auto simp: logout_def Let_def split: option.split)
      with st show ?thesis by auto
    next
      case False
      then obtain j where j: "text_claim c ''jti'' = Some j" by auto
      obtain y st1 where d: "redis_do env (ADel (refresh_key j)) (kv_unlink (refresh_key j)) st = (y, st1)" by fastforce
      have "as_redis (snd (logout env tok s)) = st1"
        using c f w j d False by (auto simp: logout_def Let_def split: option.split)
      moreover have "st1 = st \<or> st1 = kv_del st (refresh_key j)" using redis_do_unlink [OF d] .
      ultimately show ?thesis using st by (auto simp: kv_del_def split: if_splits)
    qed
  qed (use c in \<open>simp add: logout_def\<close>)
qed (simp_all add: logout_def)

text \<open>What one call may do to the key of a token it does not issue, and to the mark of a family.\<close>

lemma auth_step_at:
  assumes "au_fresh env FRefresh \<noteq> j"
  shows "as_redis (auth_step env c s) (refresh_key j) \<in> {as_redis s (refresh_key j), None}"
proof -
  have o: "other_key env (refresh_key j)" using assms by (auto simp: other_key_def)
  show ?thesis
    using login_frame [OF o] change_password_frame [OF o] refresh_at [of "refresh_key j" env _ s] logout_at [of env _ s "refresh_key j"] assms
    by (cases c) (auto dest: spec)
qed

lemma auth_step_family:
  "as_redis (auth_step env c s) (family_revoked_key f) = as_redis s (family_revoked_key f) \<or>
   as_redis (auth_step env c s) (family_revoked_key f) = Some (VJson (JInt 1), Some (au_now env + refresh_ttl_s env * second_us))"
proof -
  have o: "other_key env (family_revoked_key f)" by (auto simp: other_key_def)
  show ?thesis
  proof (cases c)
    case (CRefresh tok)
    then show ?thesis using refresh_at [of "family_revoked_key f" env tok s] by auto
  next
    case (CLogout tok)
    then show ?thesis using logout_at [of env tok s "family_revoked_key f"] by auto
  qed (use login_frame [OF o] change_password_frame [OF o] in simp_all)
qed

lemma auth_run_gone:
  assumes "as_redis s (refresh_key j) = None" "list_all (\<lambda>(e, _). au_fresh e FRefresh \<noteq> j) calls"
  shows "as_redis (auth_run calls s) (refresh_key j) = None"
  using assms
proof (induction calls arbitrary: s)
  case (Cons a calls)
  obtain e c where a: "a = (e, c)" by fastforce
  have "as_redis (auth_step e c s) (refresh_key j) = None"
    using auth_step_at [of e j c s] Cons.prems by (auto simp: a)
  with Cons show ?case by (simp add: a)
qed simp

lemma auth_run_family:
  assumes "as_redis s (family_revoked_key f) = Some (VJson (JInt 1), Some t)" "T \<le> t"
    and "list_all (\<lambda>(e, _). T \<le> au_now e + refresh_ttl_s e * second_us) calls"
  shows "\<exists>t'. as_redis (auth_run calls s) (family_revoked_key f) = Some (VJson (JInt 1), Some t') \<and> T \<le> t'"
  using assms
proof (induction calls arbitrary: s t)
  case (Cons a calls)
  obtain e c where a: "a = (e, c)" by fastforce
  obtain t1 where "as_redis (auth_step e c s) (family_revoked_key f) = Some (VJson (JInt 1), Some t1)" "T \<le> t1"
    using auth_step_family [of e c s f] Cons.prems by (auto simp: a)
  with Cons.IH [of "auth_step e c s" t1] Cons.prems(3) show ?case by (simp add: a)
qed auto

lemma refresh_takes:
  assumes "refresh_tokens env tok s = (Reply p, s1)" "decode_token env tok ''refresh'' ADMIN_AUDIENCE = Reply c"
    "text_claim c ''jti'' = Some j" "au_fresh env FRefresh \<noteq> j"
  shows "as_redis s1 (refresh_key j) = None"
  using assms(1)
proof (cases rule: refresh_cases)
  case (taken c' jti fam rec st x st1)
  have "jti = j" using taken(1,2) assms(2,3) by simp
  moreover have "st1 = st" using redis_do_has [OF taken(5)] .
  moreover have "st = kv_del (as_redis s) (refresh_key jti)" using redis_do_take [OF taken(4)] by simp
  moreover have "as_redis s1 (refresh_key j) = as_redis (with_redis st1 s) (refresh_key j)"
    using taken(6) issue_pair_at [of "refresh_key j" env] assms(4) by auto
  ultimately show ?thesis by (simp add: kv_del_def)
qed (auto split: option.splits)

lemma refresh_without_key:
  assumes "as_redis s (refresh_key j) = None" "decode_token env tok ''refresh'' ADMIN_AUDIENCE = Reply c"
    "text_claim c ''jti'' = Some j"
  shows "fst (refresh_tokens env tok s) \<noteq> Reply p"
proof -
  obtain a s' where r: "refresh_tokens env tok s = (a, s')" by fastforce
  then show ?thesis
  proof (cases rule: refresh_cases)
    case (taken c' jti fam rec st x st1)
    then have "jti = j" using assms(2,3) by simp
    with taken(4) assms(1) show ?thesis
      by (auto simp: redis_do_def kv_take_def kv_get_def split: if_splits fate.splits)
  qed (use r in \<open>auto split: option.splits\<close>)
qed

text \<open>C11: A refresh token works once. After a successful exchange, no later presentation of the token, in
  any environment and after any history of other calls (none of which draws the same random id), is
  answered with a pair.\<close>

theorem refresh_token_works_once:
  assumes "refresh_tokens env tok s = (Reply p, s1)"
    and "decode_token env tok ''refresh'' ADMIN_AUDIENCE = Reply c" "text_claim c ''jti'' = Some j"
    and "au_fresh env FRefresh \<noteq> j" "list_all (\<lambda>(e, _). au_fresh e FRefresh \<noteq> j) calls"
    and "decode_token env' tok' ''refresh'' ADMIN_AUDIENCE = Reply c'" "text_claim c' ''jti'' = Some j"
  shows "fst (refresh_tokens env' tok' (auth_run calls s1)) \<noteq> Reply p'"
  using auth_run_gone [OF refresh_takes [OF assms(1-4)] assms(5)] refresh_without_key assms(6,7) by blast

text \<open>C26: Reuse revokes the family. On a Redis that answers, presenting a refresh token that was exchanged
  or revoked is a 401, and from then on, until the mark expires (the lifetime of a refresh token), no
  token of the same family is exchanged, also not the one issued to the honest client.\<close>

theorem reuse_revokes_family:
  assumes "as_redis s (refresh_key j) = None" "au_redis env" "\<And>oper. au_fate env oper = Done" "0 < refresh_ttl_s env"
    and "decode_token env tok ''refresh'' ADMIN_AUDIENCE = Reply c" "text_claim c ''jti'' = Some j" "text_claim c ''fam'' = Some fam"
    and "list_all (\<lambda>(e, _). au_now env + refresh_ttl_s env * second_us \<le> au_now e + refresh_ttl_s e * second_us) calls"
    and "decode_token env' tok' ''refresh'' ADMIN_AUDIENCE = Reply c'" "text_claim c' ''fam'' = Some fam"
    and "au_now env' < au_now env + refresh_ttl_s env * second_us"
  shows "fst (refresh_tokens env tok s) = Reject 401 \<and>
    fst (refresh_tokens env' tok' (auth_run calls (snd (refresh_tokens env tok s)))) \<noteq> Reply p"
proof -
  let ?fk = "family_revoked_key fam" and ?T = "au_now env + refresh_ttl_s env * second_us"
  have get: "kv_get (au_now env) (as_redis s) (refresh_key j) = None" using assms(1) by (simp add: kv_get_def)
  have r: "refresh_tokens env tok s = (Reject 401, with_redis
      (kv_setex (au_now env) (kv_del (as_redis s) (refresh_key j)) ?fk (refresh_ttl_s env) (VJson (JInt 1))) s)"
    using assms(2,3,5-7) get by (simp add: refresh_tokens_def redis_do_def kv_take_def kv_write_def Let_def)
  then have "as_redis (snd (refresh_tokens env tok s)) ?fk = Some (VJson (JInt 1), Some ?T)"
    by (simp add: kv_write_at)
  then obtain t' where t': "as_redis (auth_run calls (snd (refresh_tokens env tok s))) ?fk = Some (VJson (JInt 1), Some t')" "?T \<le> t'"
    using auth_run_family assms(8) by blast
  obtain a s' where r2: "refresh_tokens env' tok' (auth_run calls (snd (refresh_tokens env tok s))) = (a, s')" by fastforce
  then have "a \<noteq> Reply p"
  proof (cases rule: refresh_cases)
    case (taken c1 jti fam1 rec st x st1)
    have "fam1 = fam" using taken(1,3) assms(9,10) by simp
    moreover have "st ?fk = Some (VJson (JInt 1), Some t')"
      using redis_do_take [OF taken(4)] t' by (auto simp: kv_del_def)
    ultimately have "x \<noteq> Some False"
      using taken(5) t'(2) assms(11)
      by (auto simp: redis_do_def kv_has_def kv_get_def split: if_splits fate.splits)
    then show ?thesis using taken(6) by auto
  qed (auto split: option.splits)
  then show ?thesis using r r2 by simp
qed

section \<open>The permission matrix\<close>

lemma map_of_filter_keys:
  "map_of (filter (\<lambda>(k, _). k \<notin> S) xs) k = (if k \<in> S then None else map_of xs k)"
  by (induction xs) auto

lemma jget_over: "jget (xs @ filter (\<lambda>(k, _). k \<notin> fst ` set ys) zs @ ys) k =
    (if k \<in> fst ` set ys then jget ys k else jget (xs @ zs) k)"
proof -
  have "map_of (rev ys) k = None \<longleftrightarrow> k \<notin> fst ` set ys" by (simp add: map_of_eq_None_iff)
  then show ?thesis
    by (auto simp: jget_def members_def map_add_def rev_filter map_of_filter_keys split: option.split)
qed

lemma jget_bools:
  assumes "distinct (map fst perms)" "k \<in> fst ` set perms"
  shows "jget (map (\<lambda>(k, b). (k, JBool b)) perms) k = JBool (the (map_of perms k))"
proof -
  obtain b where "map_of perms k = Some b" using assms(2) by (metis map_of_eq_None_iff not_None_eq)
  moreover have "map_of (rev (map (\<lambda>(k, b). (k, JBool b)) perms)) k = map_option JBool (map_of (rev perms) k)"
    by (simp add: map_of_map rev_map)
  moreover have "map_of (rev perms) = map_of perms"
    using assms(1) by (subst map_of_inject_set) (simp_all add: rev_map [symmetric])
  ultimately show ?thesis by (simp add: jget_def members_def)
qed

lemma effective_map: "k \<in> set PERMISSION_KEYS \<Longrightarrow>
    map_of (effective_permissions role stored) k =
      Some (jget (DEFAULT_PERMISSIONS role @ (case stored of None \<Rightarrow> [] | Some p \<Rightarrow> p)) k = JBool True)"
  by (simp add: effective_permissions_def Let_def map_of_map_restrict)

lemma merge_map_of:
  "map_of (merge_permissions role patch rows) r =
    (if r = role then Some (case map_of rows role of None \<Rightarrow> patch
        | Some old \<Rightarrow> filter (\<lambda>(k, _). k \<notin> fst ` set patch) old @ patch)
     else map_of rows r)"
proof (cases "map_of rows role")
  case None
  then show ?thesis by (auto simp: merge_permissions_def map_add_def split: option.split)
next
  case (Some old)
  have "map_of (map (\<lambda>(r, p). if r = role then (r, g p) else (r, p)) rows) r =
      (if r = role then map_option g (map_of rows role) else map_of rows r)" for g :: "claims \<Rightarrow> claims"
    by (induction rows) auto
  with Some show ?thesis by (simp add: merge_permissions_def)
qed

text \<open>A patch of the permission matrix changes exactly what it names. After \<^verbatim>\<open>PATCH /roles/{role}/permissions\<close>
  has answered with success, the role has each right of the patch as sent and every other right as
  before, all other roles are unchanged, and an ADMIN still has every right.\<close>

theorem permission_patch_is_exact:
  assumes "update_permissions env creds role perms s = (Reply shown, s')" "distinct (map fst perms)"
    and "k \<in> set PERMISSION_KEYS" "au_fault env' ARole = None"
  shows "(\<exists>old new. permissions_for env' r s = Reply old \<and> permissions_for env' r s' = Reply new \<and>
    map_of new k = (if r = role \<and> k \<in> fst ` set perms then map_of perms k else map_of old k)) \<and>
    permissions_for env' ''ADMIN'' s' = Reply (map (\<lambda>k. (k, True)) PERMISSION_KEYS) \<and> role \<noteq> ''ADMIN''"
proof -
  have role: "role \<noteq> ''ADMIN''" and rows: "as_roles s' = merge_permissions role (map (\<lambda>(k, b). (k, JBool b)) perms) (as_roles s)"
    using assms(1) by (auto simp: update_permissions_def Let_def split: answer.splits option.splits if_splits)
  have keys: "fst ` set (map (\<lambda>(k, b). (k, JBool b)) perms) = fst ` set perms" by force
  show ?thesis
  proof (cases "r = ''ADMIN''")
    case True
    with role show ?thesis by (simp add: permissions_for_def)
  next
    case False
    have "map_of (effective_permissions r (map_of (as_roles s') r)) k =
      (if r = role \<and> k \<in> fst ` set perms then map_of perms k else map_of (effective_permissions r (map_of (as_roles s) r)) k)"
    proof (cases "r = role")
      case True
      obtain b where b: "k \<in> fst ` set perms \<Longrightarrow> map_of perms k = Some b" by (metis map_of_eq_None_iff not_None_eq)
      define patch where "patch = map (\<lambda>(k, b). (k, JBool b)) perms"
      have over: "jget (DEFAULT_PERMISSIONS role @ filter (\<lambda>(k, _). k \<notin> fst ` set patch) zs @ patch) k =
          (if k \<in> fst ` set perms then JBool (the (map_of perms k)) else jget (DEFAULT_PERMISSIONS role @ zs) k)" for zs
        using jget_over [of "DEFAULT_PERMISSIONS role" patch zs k] jget_bools [OF assms(2)] keys by (auto simp: patch_def)
      then have "jget (DEFAULT_PERMISSIONS role @ patch) k =
          (if k \<in> fst ` set perms then JBool (the (map_of perms k)) else jget (DEFAULT_PERMISSIONS role) k)"
        using over [of "[]"] by simp
      with over show ?thesis using b True
        by (simp add: effective_map [OF assms(3)] rows merge_map_of patch_def [symmetric] split: option.split)
    next
      case False
      then show ?thesis by (simp add: rows merge_map_of)
    qed
    with role False assms(4) show ?thesis by (simp add: permissions_for_def)
  qed
qed

section \<open>Instances\<close>

definition sample_exchange :: "token_pair answer \<times> auth_sys" where
  "sample_exchange = refresh_tokens sample_auth_env ''r1'' sample_auth"

lemma sample_exchange: "sample_exchange =
    (Reply \<lparr>tp_access = ''t'', tp_refresh = ''t'', tp_must_change = False\<rparr>,
     sample_auth\<lparr>as_redis := Map.empty(refresh_key ''j1'' := None,
       refresh_key ''j2'' \<mapsto> (VJson (JObj [(''uid'', JStr (uuid_text 2)), (''fam'', JStr ''f'')]), Some (604800 * second_us)))\<rparr>)"
  by (simp add: sample_exchange_def refresh_tokens_def sample_auth_defs decode_token_def jget_def members_def text_claim_def redis_do_def
      kv_take_def kv_get_def kv_has_def kv_del_def load_token_user_def with_redis_def Let_def issue_pair_def
      make_refresh_token_def make_access_token_def signed_def kv_write_def kv_setex_def kv_set_def refresh_ttl_s_def)

lemma sample_r1:
  "decode_token sample_auth_env ''r1'' ''refresh'' ADMIN_AUDIENCE = Reply (sample_claims ''refresh'' 2 ''j1'')"
  "decode_token sample_auth_env ''r2'' ''refresh'' ADMIN_AUDIENCE = Reply (sample_claims ''refresh'' 2 ''j2'')"
  "text_claim (sample_claims ''refresh'' 2 ''j1'') ''jti'' = Some ''j1''" "text_claim (sample_claims typ 2 j) ''fam'' = Some ''f''"
  by (simp_all add: sample_claims_def sample_tokens_def sample_auth_env_def decode_token_def jget_def members_def text_claim_def)

theorem refresh_token_works_once_witness:
  "fst sample_exchange \<noteq> Reject 401 \<and>
   \<not> (\<exists>p. fst (refresh_tokens sample_auth_env ''r1''
      (auth_run [(sample_auth_env, CLogin ''mark'' ''h2'' ''ip'')] (snd sample_exchange))) = Reply p)"
  using refresh_token_works_once [OF sample_exchange [unfolded sample_exchange_def] sample_r1(1,3) _ _ sample_r1(1,3),
      of "[(sample_auth_env, CLogin ''mark'' ''h2'' ''ip'')]"]
  by (simp add: sample_exchange sample_auth_env_def)

theorem reuse_revokes_family_witness:
  "fst (refresh_tokens sample_auth_env ''r1'' (snd sample_exchange)) = Reject 401 \<and>
   \<not> (\<exists>p. fst (refresh_tokens sample_auth_env ''r2'' (auth_run [(sample_auth_env, CLogin ''mark'' ''h2'' ''ip'')]
      (snd (refresh_tokens sample_auth_env ''r1'' (snd sample_exchange))))) = Reply p)"
proof -
  have env: "au_redis sample_auth_env" "au_fate sample_auth_env oper = Done" "refresh_ttl_s sample_auth_env = 604800"
      "au_now sample_auth_env = 0" for oper
    by (simp_all add: sample_auth_env_def refresh_ttl_s_def)
  have "fst (refresh_tokens sample_auth_env ''r1'' (snd sample_exchange)) = Reject 401 \<and>
    fst (refresh_tokens sample_auth_env ''r2'' (auth_run [(sample_auth_env, CLogin ''mark'' ''h2'' ''ip'')]
      (snd (refresh_tokens sample_auth_env ''r1'' (snd sample_exchange))))) \<noteq> Reply p" for p
    by (rule reuse_revokes_family [OF _ env(1,2) _ sample_r1(1,3,4) _ sample_r1(2,4)])
      (simp_all add: env sample_exchange second_us_def)
  then show ?thesis by blast
qed

theorem permission_patch_is_exact_witness:
  "\<exists>old new. permissions_for sample_auth_env ''MARKETER'' sample_auth = Reply old \<and>
    permissions_for sample_auth_env ''MARKETER''
      (snd (update_permissions sample_auth_env (Some ''admin'') ''MARKETER'' [(''users'', False)] sample_auth)) = Reply new \<and>
    map_of old ''users'' = Some True \<and> map_of new ''users'' = Some False"
proof -
  let ?u = "update_permissions sample_auth_env (Some ''admin'') ''MARKETER'' [(''users'', False)] sample_auth"
  have "authenticate sample_auth_env False (Some ''admin'') sample_auth = Reply (auth_user_of sample_admin)"
    by (simp add: sample_auth_defs authenticate_def decode_token_def load_token_user_def auth_user_of_def jget_def members_def)
  then have "\<exists>shown. fst ?u = Reply shown"
    by (simp add: update_permissions_def require_role_def auth_user_of_def sample_admin_def ROLES_def PERMISSION_KEYS_def
        sample_auth_env_def Let_def)
  then obtain shown s' where u: "?u = (Reply shown, s')" by (metis prod.collapse)
  have "au_fault sample_auth_env ARole = None" by (simp add: sample_auth_env_def)
  from permission_patch_is_exact [OF u _ _ this, of "''users''" "''MARKETER''"] obtain old new where
    "permissions_for sample_auth_env ''MARKETER'' sample_auth = Reply old"
    "permissions_for sample_auth_env ''MARKETER'' s' = Reply new" "map_of new ''users'' = Some False"
    by (auto simp: PERMISSION_KEYS_def)
  moreover have "permissions_for sample_auth_env ''MARKETER'' sample_auth =
      Reply (map (\<lambda>k. (k, k \<notin> {''campaigns_delete'', ''analytics''})) PERMISSION_KEYS)"
    by (simp add: permissions_for_def sample_auth_env_def sample_auth_def effective_permissions_def DEFAULT_PERMISSIONS_def
        PERMISSION_KEYS_def jget_def members_def)
  ultimately show ?thesis by (auto simp: u PERMISSION_KEYS_def)
qed

end
