(* ===== verification/EventHub.thy ===== *)
theory EventHub
  imports Sessions Float64
begin

text \<open>
  The dashboard's event stream: \<^verbatim>\<open>services/campaign_manager/app/events.py\<close> (the broker, the
  aggregating bridge, the body of a stream) and \<^verbatim>\<open>api/events.py\<close> (who may open a stream).

  A queue is named by a number that is never used twice. The steps of the broker run on one event loop,
  so each is atomic. A Kafka message is what \<^verbatim>\<open>json.loads\<close> makes of it (\<open>None\<close>: not JSON).
\<close>

section \<open>The broker\<close>

datatype 'e item = Event 'e | Closed

definition MAX_QUEUE :: nat where
  "MAX_QUEUE = 100"

record 'e broker =
  br_queues :: "(nat \<times> 'e item list) list"
  br_owner :: "nat \<Rightarrow> string option"
  br_per_user :: "string \<Rightarrow> int"
  br_max :: "nat option"
  br_max_user :: "nat option"
  br_closed :: bool
  br_next :: nat

datatype refusal = ShuttingDown | TooMany | TooManyUser

definition over :: "nat option \<Rightarrow> int \<Rightarrow> bool" where
  "over lim_opt n = (case lim_opt of None \<Rightarrow> False | Some m \<Rightarrow> int m \<le> n)"

definition subscribe :: "string option \<Rightarrow> 'e broker \<Rightarrow> (refusal + nat) \<times> 'e broker" where
  "subscribe owner b =
    (if br_closed b then (Inl ShuttingDown, b)
     else if over (br_max b) (int (length (br_queues b))) then (Inl TooMany, b)
     else if (case owner of None \<Rightarrow> False | Some u \<Rightarrow> over (br_max_user b) (br_per_user b u)) then (Inl TooManyUser, b)
     else let q = br_next b in
       (Inr q, b\<lparr>br_queues := br_queues b @ [(q, [])], br_next := Suc q,
          br_owner := (br_owner b)(q := owner),
          br_per_user := (case owner of None \<Rightarrow> br_per_user b | Some u \<Rightarrow> (br_per_user b)(u := br_per_user b u + 1))\<rparr>))"

definition unsubscribe :: "nat \<Rightarrow> 'e broker \<Rightarrow> 'e broker" where
  "unsubscribe q b = b\<lparr>br_queues := filter (\<lambda>(p, _). p \<noteq> q) (br_queues b), br_owner := (br_owner b)(q := None),
     br_per_user := (case br_owner b q of None \<Rightarrow> br_per_user b | Some u \<Rightarrow> (br_per_user b)(u := br_per_user b u - 1))\<rparr>"

text \<open>\<^verbatim>\<open>put_nowait\<close>, with the event dropped when the queue is full.\<close>

definition offer :: "'e item \<Rightarrow> 'e item list \<Rightarrow> 'e item list" where
  "offer x xs = (if length xs < MAX_QUEUE then xs @ [x] else xs)"

definition publish :: "'e \<Rightarrow> 'e broker \<Rightarrow> 'e broker" where
  "publish e b = b\<lparr>br_queues := map (\<lambda>(q, xs). (q, offer (Event e) xs)) (br_queues b)\<rparr>"

definition close :: "'e broker \<Rightarrow> 'e broker" where
  "close b = (if br_closed b then b
     else b\<lparr>br_closed := True,
       br_queues := map (\<lambda>(q, xs). (q, offer Closed (if length xs < MAX_QUEUE then xs else tl xs))) (br_queues b)\<rparr>)"

text \<open>\<^verbatim>\<open>q.get()\<close> of the stream that reads the queue: \<open>None\<close> when it is empty.\<close>

definition take_item :: "nat \<Rightarrow> 'e broker \<Rightarrow> 'e item option \<times> 'e broker" where
  "take_item q b =
    (case map_of (br_queues b) q of
       Some (x # xs) \<Rightarrow> (Some x, b\<lparr>br_queues := map (\<lambda>(p, ys). (p, if p = q then xs else ys)) (br_queues b)\<rparr>)
     | _ \<Rightarrow> (None, b))"

section \<open>The bridge\<close>

datatype py_float = Fin rat | NonFinite

fun fadd :: "py_float \<Rightarrow> py_float \<Rightarrow> py_float" where
  "fadd (Fin a) (Fin b) = Fin (fl (a + b))"
| "fadd _ _ = NonFinite"

fun fround2 :: "py_float \<Rightarrow> py_float" where
  "fround2 (Fin a) = Fin (py_round 2 a)"
| "fround2 NonFinite = NonFinite"

text \<open>\<^verbatim>\<open>float(v or 0)\<close>; the texts of \<^verbatim>\<open>float\<close> are taken to be those of \<^verbatim>\<open>Decimal\<close>.\<close>

definition float_of :: "json \<Rightarrow> py_float option" where
  "float_of v =
    (if \<not> py_truthy v then Some (Fin 0)
     else case v of
       JBool _ \<Rightarrow> Some (Fin 1)
     | JInt i \<Rightarrow> if \<bar>i\<bar> < 2 ^ 1023 then Some (Fin (fl (of_int i))) else None
     | JFloat r \<Rightarrow> Some (Fin r)
     | JStr s \<Rightarrow> (case parse_decimal s of None \<Rightarrow> None | Some (Finite r) \<Rightarrow> Some (Fin (fl r)) | Some _ \<Rightarrow> Some NonFinite)
     | _ \<Rightarrow> None)"

record stats_event =
  se_campaign :: string
  se_spent :: py_float
  se_accepted :: nat

record bridge =
  bg_pending :: "(string \<times> py_float) list"
  bg_accepted :: "(string \<times> nat) list"

text \<open>A dict keeps the place of a key it has.\<close>

definition dict_put :: "string \<Rightarrow> 'v \<Rightarrow> (string \<times> 'v) list \<Rightarrow> (string \<times> 'v) list" where
  "dict_put k v kvs = (if k \<in> fst ` set kvs then map (\<lambda>(k', v'). (k', if k' = k then v else v')) kvs else kvs @ [(k, v)])"

definition dict_get :: "string \<Rightarrow> 'v \<Rightarrow> (string \<times> 'v) list \<Rightarrow> 'v" where
  "dict_get k dflt kvs = (case map_of kvs k of None \<Rightarrow> dflt | Some v \<Rightarrow> v)"

text \<open>\<open>repr\<close> is \<^verbatim>\<open>str\<close> of a float, a list or a dict.\<close>

definition parse_event :: "(json \<Rightarrow> string) \<Rightarrow> json option \<Rightarrow> (string \<times> py_float) option" where
  "parse_event repr raw =
    (case raw of
       Some (JObj kvs) \<Rightarrow>
         map_option (Pair (case json_text (jget kvs ''campaign_id'') of None \<Rightarrow> repr (jget kvs ''campaign_id'') | Some t \<Rightarrow> t))
           (float_of (jget kvs ''cashback_amount''))
     | _ \<Rightarrow> None)"

definition ingest :: "(json \<Rightarrow> string) \<Rightarrow> json option \<Rightarrow> bridge \<Rightarrow> bridge" where
  "ingest repr raw g =
    (case parse_event repr raw of
       None \<Rightarrow> g
     | Some (cid, amount) \<Rightarrow>
         g\<lparr>bg_pending := dict_put cid (fadd (dict_get cid (Fin 0) (bg_pending g)) amount) (bg_pending g),
           bg_accepted := dict_put cid (dict_get cid 0 (bg_accepted g) + 1) (bg_accepted g)\<rparr>)"

definition flush_events :: "bridge \<Rightarrow> stats_event list" where
  "flush_events g = map (\<lambda>(cid, d). \<lparr>se_campaign = cid, se_spent = fround2 d, se_accepted = dict_get cid 0 (bg_accepted g)\<rparr>)
     (bg_pending g)"

definition flush :: "bridge \<times> stats_event broker \<Rightarrow> bridge \<times> stats_event broker" where
  "flush gb = (let (g, b) = gb in
     if bg_pending g = [] then gb
     else (g\<lparr>bg_pending := [], bg_accepted := []\<rparr>, fold publish (flush_events g) b))"

text \<open>The pause before the next connection, in seconds.\<close>

definition reconnect_delay :: "bool \<Rightarrow> rat \<Rightarrow> rat" where
  "reconnect_delay started d = min ((if started then 1 else d) * 2) 30"

section \<open>Who may listen\<close>

definition SSE_TOKEN_TTL_SECONDS :: int where
  "SSE_TOKEN_TTL_SECONDS = 60"

definition sse_claims :: "auth_env \<Rightarrow> auth_user \<Rightarrow> claims" where
  "sse_claims env u = [(''iss'', JStr ISSUER), (''aud'', JStr SSE_AUDIENCE), (''type'', JStr ''sse''),
     (''sub'', JStr (uuid_text (uu_id u))), (''ver'', JInt (uu_version u)), (''jti'', JStr (au_fresh env FAccess))]"

definition issue_sse_token :: "auth_env \<Rightarrow> auth_user \<Rightarrow> string" where
  "issue_sse_token env u = signed env (SSE_TOKEN_TTL_SECONDS * second_us) (sse_claims env u)"

definition issue_stream_token :: "auth_env \<Rightarrow> string option \<Rightarrow> auth_sys \<Rightarrow> (string \<times> int) answer" where
  "issue_stream_token env creds s =
    (case require_permission env ''dashboard'' creds s of
       Reply u \<Rightarrow> Reply (issue_sse_token env u, SSE_TOKEN_TTL_SECONDS)
     | Reject n \<Rightarrow> Reject n
     | Crash e \<Rightarrow> Crash e)"

definition decode_sse_token :: "auth_env \<Rightarrow> string option \<Rightarrow> claims answer" where
  "decode_sse_token env tok =
    (case tok of
       None \<Rightarrow> Reject 401
     | Some t \<Rightarrow> if t = [] then Reject 401 else decode_token env t ''sse'' SSE_AUDIENCE)"

definition authenticate_sse_claims :: "auth_env \<Rightarrow> claims \<Rightarrow> auth_sys \<Rightarrow> auth_user answer" where
  "authenticate_sse_claims env c s =
    (case load_token_user env c s of
       Reply u \<Rightarrow> if ad_must_change u then Reject 403 else Reply (auth_user_of u)
     | Reject n \<Rightarrow> Reject n
     | Crash e \<Rightarrow> Crash e)"

definition stream_access :: "auth_env \<Rightarrow> claims \<Rightarrow> auth_sys \<Rightarrow> auth_user answer" where
  "stream_access env c s =
    (case authenticate_sse_claims env c s of
       Reply u \<Rightarrow>
         (case permissions_for env (uu_role u) s of
            Reply perms \<Rightarrow> if map_of perms ''dashboard'' = Some True then Reply u else Reject 403
          | Reject n \<Rightarrow> Reject n
          | Crash e \<Rightarrow> Crash e)
     | r \<Rightarrow> r)"

definition sse_used_key :: "string \<Rightarrow> string" where
  "sse_used_key jti = ''auth:sse_used:'' @ jti"

text \<open>\<^verbatim>\<open>SET \<dots> NX EX\<close>\<close>

definition kv_write_nx :: "time \<Rightarrow> string \<Rightarrow> int \<Rightarrow> rval \<Rightarrow> bool redis" where
  "kv_write_nx now k ttl v st =
    (if kv_exists now st k then (Some False, st) else (Some True, kv_setex now st k ttl v))"

definition use_once :: "auth_env \<Rightarrow> claims \<Rightarrow> auth_sys \<Rightarrow> unit answer \<times> auth_sys" where
  "use_once env c s =
    (case text_claim c ''jti'' of
       None \<Rightarrow> (Reject 401, s)
     | Some jti \<Rightarrow>
        (case redis_do env (ASetNx (sse_used_key jti))
            (kv_write_nx (au_now env) (sse_used_key jti) SSE_TOKEN_TTL_SECONDS (VJson (JInt 1))) (as_redis s) of
           (None, st) \<Rightarrow> (Reject 503, with_redis st s)
         | (Some True, st) \<Rightarrow> (Reply (), with_redis st s)
         | (Some False, st) \<Rightarrow> (Reject 401, with_redis st s)))"

definition require_sse_token :: "auth_env \<Rightarrow> string option \<Rightarrow> auth_sys \<Rightarrow> auth_user answer \<times> auth_sys" where
  "require_sse_token env tok s =
    (case decode_sse_token env tok of
       Reply c \<Rightarrow>
         (case stream_access env c s of
            Reply u \<Rightarrow>
              (case use_once env c s of
                 (Reply _, s1) \<Rightarrow> (Reply u, s1) | (Reject n, s1) \<Rightarrow> (Reject n, s1) | (Crash e, s1) \<Rightarrow> (Crash e, s1))
          | r \<Rightarrow> (r, s))
     | Reject n \<Rightarrow> (Reject n, s)
     | Crash e \<Rightarrow> (Crash e, s))"

text \<open>\<^verbatim>\<open>_still_allowed\<close> of an open stream.\<close>

definition still_allowed :: "auth_env \<Rightarrow> auth_user \<Rightarrow> auth_sys \<Rightarrow> bool" where
  "still_allowed env u s =
    (case stream_access env [(''sub'', JStr (uuid_text (uu_id u))), (''ver'', JInt (uu_version u))] s of
       Reply _ \<Rightarrow> True | _ \<Rightarrow> False)"

definition open_stream ::
  "auth_env \<Rightarrow> string option \<Rightarrow> auth_sys \<times> 'e broker \<Rightarrow> (auth_user \<times> nat) answer \<times> auth_sys \<times> 'e broker" where
  "open_stream env tok sb = (let (s, b) = sb in
     case require_sse_token env tok s of
       (Reply u, s1) \<Rightarrow>
         (case subscribe (Some (uuid_text (uu_id u))) b of
            (Inl TooManyUser, b1) \<Rightarrow> (Reject 429, s1, b1)
          | (Inl _, b1) \<Rightarrow> (Reject 503, s1, b1)
          | (Inr q, b1) \<Rightarrow> (Reply (u, q), s1, b1))
     | (Reject n, s1) \<Rightarrow> (Reject n, s1, b)
     | (Crash e, s1) \<Rightarrow> (Crash e, s1, b))"

section \<open>One turn of a stream\<close>

datatype 'e sse_out = Heartbeat | Data 'e | Ended

definition REVALIDATE_INTERVAL :: time where
  "REVALIDATE_INTERVAL = 60 * second_us"

text \<open>\<open>clock\<close> is \<^verbatim>\<open>loop.time()\<close> at the check, \<open>after\<close> once \<^verbatim>\<open>revalidate\<close> has returned; an empty queue gives
  a heartbeat after the timeout.\<close>

definition stream_turn :: "time \<Rightarrow> time \<Rightarrow> bool \<Rightarrow> nat \<Rightarrow> time \<Rightarrow> 'e broker \<Rightarrow> 'e sse_out \<times> time \<times> 'e broker" where
  "stream_turn clock after allowed q check_at b =
    (if check_at \<le> clock \<and> \<not> allowed then (Ended, check_at, unsubscribe q b)
     else let upcoming = (if check_at \<le> clock then after + REVALIDATE_INTERVAL else check_at) in
       case take_item q b of
         (None, b1) \<Rightarrow> (Heartbeat, upcoming, b1)
       | (Some Closed, b1) \<Rightarrow> (Ended, upcoming, unsubscribe q b1)
       | (Some (Event e), b1) \<Rightarrow> (Data e, upcoming, b1))"

section \<open>Histories of the broker\<close>

datatype 'e hub_op = HSub "string option" | HUnsub nat | HPub 'e | HClose | HTake nat

fun hub_step :: "'e hub_op \<Rightarrow> 'e broker \<Rightarrow> 'e broker" where
  "hub_step (HSub u) b = snd (subscribe u b)"
| "hub_step (HUnsub q) b = unsubscribe q b"
| "hub_step (HPub e) b = publish e b"
| "hub_step HClose b = close b"
| "hub_step (HTake q) b = snd (take_item q b)"

definition hub_run :: "'e hub_op list \<Rightarrow> 'e broker \<Rightarrow> 'e broker" where
  "hub_run steps b = fold hub_step steps b"

definition new_broker :: "nat option \<Rightarrow> nat option \<Rightarrow> 'e broker" where
  "new_broker m k = \<lparr>br_queues = [], br_owner = (\<lambda>_. None), br_per_user = (\<lambda>_. 0), br_max = m, br_max_user = k,
     br_closed = False, br_next = 0\<rparr>"

definition streams_of :: "'e broker \<Rightarrow> string \<Rightarrow> nat" where
  "streams_of b u = length (filter (\<lambda>q. br_owner b q = Some u) (map fst (br_queues b)))"

definition hub_ok :: "'e broker \<Rightarrow> bool" where
  "hub_ok b = (distinct (map fst (br_queues b)) \<and> (\<forall>q \<in> set (map fst (br_queues b)). q < br_next b) \<and>
     (\<forall>(q, xs) \<in> set (br_queues b). length xs \<le> MAX_QUEUE) \<and>
     (\<forall>q. br_owner b q \<noteq> None \<longrightarrow> q \<in> set (map fst (br_queues b))) \<and>
     (\<forall>u. br_per_user b u = int (streams_of b u)) \<and>
     (\<forall>m. br_max b = Some m \<longrightarrow> length (br_queues b) \<le> m) \<and>
     (\<forall>k u. br_max_user b = Some k \<longrightarrow> streams_of b u \<le> k))"

lemma hub_ok_new: "hub_ok (new_broker m k)"
  by (simp add: hub_ok_def new_broker_def streams_of_def)

lemma length_offer: "length xs \<le> MAX_QUEUE \<Longrightarrow> length (offer x xs) \<le> MAX_QUEUE"
  by (simp add: offer_def)

text \<open>A step that only changes what the queues hold.\<close>

lemma keys_contents [simp]: "fst \<circ> (\<lambda>(q, xs). (q, f q xs)) = fst"
  by auto

lemma hub_ok_contents:
  assumes "hub_ok b" "\<And>q xs. length xs \<le> MAX_QUEUE \<Longrightarrow> length (f q xs) \<le> MAX_QUEUE"
    and "br_queues b' = map (\<lambda>(q, xs). (q, f q xs)) (br_queues b)" "br_owner b' = br_owner b" "br_per_user b' = br_per_user b"
      "br_max b' = br_max b" "br_max_user b' = br_max_user b" "br_next b' = br_next b"
  shows "hub_ok b'"
proof -
  have keys: "map fst (br_queues b') = map fst (br_queues b)" by (simp add: assms(3) case_prod_beta comp_def)
  then have "streams_of b' u = streams_of b u" "length (br_queues b') = length (br_queues b)" for u
    by (simp_all add: streams_of_def assms(4)) (metis length_map)
  moreover have "(q, xs) \<in> set (br_queues b') \<Longrightarrow> length xs \<le> MAX_QUEUE" for q xs
    using assms(1,2) by (auto simp: assms(3) hub_ok_def)
  ultimately show ?thesis using assms(1) by (auto simp: hub_ok_def keys assms(4-8))
qed

lemma hub_ok_publish: "hub_ok b \<Longrightarrow> hub_ok (publish e b)"
  by (rule hub_ok_contents [where f = "\<lambda>_. offer (Event e)"]) (simp_all add: publish_def length_offer)

lemma hub_ok_close: "hub_ok b \<Longrightarrow> hub_ok (close b)"
proof (cases "br_closed b")
  case False
  assume ok: "hub_ok b"
  show ?thesis
    by (rule hub_ok_contents [OF ok, where f = "\<lambda>_ xs. offer Closed (if length xs < MAX_QUEUE then xs else tl xs)"])
      (use False in \<open>auto simp: close_def intro: length_offer\<close>)
qed (simp add: close_def)

lemma hub_ok_take: "hub_ok b \<Longrightarrow> hub_ok (snd (take_item q b))"
proof (cases "map_of (br_queues b) q")
  case (Some xs)
  assume ok: "hub_ok b"
  show ?thesis
  proof (cases xs)
    case (Cons x ys)
    have "length ys \<le> MAX_QUEUE" using ok map_of_SomeD [OF Some] Cons by (auto simp: hub_ok_def)
    then show ?thesis
      by (intro hub_ok_contents [OF ok, where f = "\<lambda>p zs. if p = q then ys else zs"])
        (simp_all add: take_item_def Some Cons)
  qed (use ok Some in \<open>simp add: take_item_def\<close>)
qed (simp add: take_item_def)

lemma hub_ok_subscribe:
  assumes ok: "hub_ok b"
  shows "hub_ok (snd (subscribe u b))"
proof (cases "fst (subscribe u b)")
  case (Inl r)
  then have "snd (subscribe u b) = b" by (auto simp: subscribe_def Let_def split: if_splits)
  with ok show ?thesis by simp
next
  case (Inr q)
  then have cond: "\<not> over (br_max b) (int (length (br_queues b)))"
      "\<And>v. u = Some v \<Longrightarrow> \<not> over (br_max_user b) (br_per_user b v)"
    by (auto simp: subscribe_def Let_def split: if_splits)
  define b' where "b' = snd (subscribe u b)"
  have b': "br_queues b' = br_queues b @ [(br_next b, [])]" "br_owner b' = (br_owner b)(br_next b := u)"
      "br_per_user b' = (case u of None \<Rightarrow> br_per_user b | Some v \<Rightarrow> (br_per_user b)(v := br_per_user b v + 1))"
      "br_max b' = br_max b" "br_max_user b' = br_max_user b" "br_next b' = Suc (br_next b)"
    using Inr by (auto simp: b'_def subscribe_def Let_def split: if_splits)
  have fresh: "br_next b \<notin> set (map fst (br_queues b))" using ok by (auto simp: hub_ok_def)
  have "filter (\<lambda>q. br_owner b' q = Some v) (map fst (br_queues b)) = filter (\<lambda>q. br_owner b q = Some v) (map fst (br_queues b))" for v
    using fresh by (intro filter_cong) (auto simp: b'(2) rev_image_eqI)
  then have streams: "streams_of b' v = streams_of b v + (if u = Some v then 1 else 0)" for v
    by (simp add: streams_of_def b'(1)) (simp add: b'(2))
  have "br_max b = Some m \<Longrightarrow> length (br_queues b) < m" for m using cond(1) by (simp add: over_def)
  moreover have "u = Some v \<Longrightarrow> br_max_user b = Some k \<Longrightarrow> streams_of b v < k" for v k
    using cond(2) ok by (auto simp: over_def hub_ok_def)
  ultimately have "hub_ok b'"
    using ok fresh unfolding hub_ok_def streams b' by (auto simp: Suc_le_eq split: option.split)
  then show ?thesis by (simp add: b'_def)
qed

lemma count_one: "distinct ps \<Longrightarrow> length (filter (\<lambda>p. p = q \<and> P p) ps) = (if q \<in> set ps \<and> P q then 1 else 0)"
  by (induction ps) auto

lemma hub_ok_unsubscribe:
  assumes ok: "hub_ok b"
  shows "hub_ok (unsubscribe q b)"
proof -
  define b' where "b' = unsubscribe q b"
  have keys: "map fst (br_queues b') = filter (\<lambda>p. p \<noteq> q) (map fst (br_queues b))"
    by (simp add: b'_def unsubscribe_def filter_map comp_def split_def)
  have "distinct (map fst (br_queues b))" "\<And>v. br_owner b q = Some v \<Longrightarrow> q \<in> set (map fst (br_queues b))"
    using ok by (auto simp: hub_ok_def)
  then have one: "length (filter (\<lambda>p. p = q \<and> br_owner b p = Some v) (map fst (br_queues b))) = (if br_owner b q = Some v then 1 else 0)" for v
    using count_one [of "map fst (br_queues b)" q "\<lambda>p. br_owner b p = Some v"] by auto
  have "filter (\<lambda>p. br_owner b' p = Some v) (map fst (br_queues b')) = filter (\<lambda>p. p \<noteq> q \<and> br_owner b p = Some v) (map fst (br_queues b))" for v
    unfolding keys filter_filter by (intro filter_cong) (auto simp: b'_def unsubscribe_def)
  then have "streams_of b' v = streams_of b v - (if br_owner b q = Some v then 1 else 0)" for v
    using sum_length_filter_compl [of "\<lambda>p. p = q" "filter (\<lambda>p. br_owner b p = Some v) (map fst (br_queues b))"] one [of v]
    by (simp add: streams_of_def conj_commute)
  moreover have "br_owner b q = Some v \<Longrightarrow> 0 < streams_of b v" for v
    using ok by (force simp: hub_ok_def streams_of_def filter_empty_conv)
  ultimately have streams: "int (streams_of b' v) = int (streams_of b v) - (if br_owner b q = Some v then 1 else 0)" "streams_of b' v \<le> streams_of b v" for v
    by (auto simp: of_nat_diff Suc_le_eq)
  have "length (br_queues b') \<le> length (br_queues b)" by (simp add: b'_def unsubscribe_def)
  moreover have "br_per_user b' v = int (streams_of b' v)" for v
  proof -
    have "br_per_user b' = (case br_owner b q of None \<Rightarrow> br_per_user b | Some u \<Rightarrow> (br_per_user b)(u := br_per_user b u - 1))"
      by (simp add: b'_def unsubscribe_def)
    then show ?thesis using ok by (auto simp: streams hub_ok_def split: option.split)
  qed
  moreover have "br_owner b' p \<noteq> None \<longrightarrow> p \<in> set (map fst (br_queues b'))" for p
  proof -
    have "br_owner b' p = (if p = q then None else br_owner b p)" by (simp add: b'_def unsubscribe_def)
    moreover have "set (map fst (br_queues b')) = set (map fst (br_queues b)) - {q}" by (simp only: keys set_filter) auto
    ultimately show ?thesis using ok unfolding hub_ok_def by (metis DiffI singletonD)
  qed
  moreover have "distinct (map fst (br_queues b'))" using ok unfolding keys hub_ok_def by simp
  moreover have "br_max b' = br_max b" "br_max_user b' = br_max_user b" "br_next b' = br_next b" "set (br_queues b') \<subseteq> set (br_queues b)"
    by (auto simp: b'_def unsubscribe_def)
  ultimately have "hub_ok b'"
    using ok unfolding hub_ok_def by (auto intro: order_trans [OF streams(2)] order_trans)
  then show ?thesis by (simp add: b'_def)
qed

lemma hub_ok_step: "hub_ok b \<Longrightarrow> hub_ok (hub_step s b)"
  by (cases s) (simp_all add: hub_ok_subscribe hub_ok_unsubscribe hub_ok_publish hub_ok_close hub_ok_take)

lemma hub_ok_run: "hub_ok b \<Longrightarrow> hub_ok (hub_run steps b)"
  by (induction steps arbitrary: b) (simp_all add: hub_run_def hub_ok_step)

text \<open>The limits hold and no place leaks. Over any history of subscriptions, repeated unsubscriptions,
  events, reads and the shutdown, the process serves at most its limit of streams and a user at most the
  user's, the counter of a user is the number of the user's open streams, no queue is longer than 100, and
  a refusal for the user's sake means that this many streams of the user are open.\<close>

theorem broker_limits_hold:
  fixes b :: "'e broker"
  assumes "b = hub_run steps (new_broker (Some m) (Some k))"
  shows "length (br_queues b) \<le> m \<and> streams_of b u \<le> k \<and> br_per_user b u = int (streams_of b u) \<and>
    (\<forall>(q, xs) \<in> set (br_queues b). length xs \<le> 100) \<and>
    (fst (subscribe (Some u) b) = Inl TooManyUser \<longrightarrow> streams_of b u = k)"
proof -
  have ok: "hub_ok b" unfolding assms by (intro hub_ok_run hub_ok_new)
  have "br_max (hub_step s c) = br_max c \<and> br_max_user (hub_step s c) = br_max_user c" for s and c :: "'e broker"
    by (cases s) (auto simp: subscribe_def unsubscribe_def publish_def close_def take_item_def Let_def split: option.split list.split)
  then have "br_max (hub_run steps c) = br_max c \<and> br_max_user (hub_run steps c) = br_max_user c" for c :: "'e broker"
    by (induction steps arbitrary: c) (simp_all add: hub_run_def)
  then have lims: "br_max b = Some m" "br_max_user b = Some k" by (simp_all add: assms new_broker_def)
  have "fst (subscribe (Some u) b) = Inl TooManyUser \<Longrightarrow> int k \<le> br_per_user b u"
    using lims by (auto simp: subscribe_def over_def Let_def split: if_splits)
  with ok lims show ?thesis by (auto simp: hub_ok_def MAX_QUEUE_def intro: antisym)
qed

section \<open>The shutdown\<close>

text \<open>The mark of the shutdown is among the first \<open>n\<close> items of the queue \<open>q\<close>.\<close>

definition closes_within :: "nat \<Rightarrow> nat \<Rightarrow> 'e broker \<Rightarrow> bool" where
  "closes_within n q b = (br_closed b \<and> distinct (map fst (br_queues b)) \<and>
     (\<exists>xs. map_of (br_queues b) q = Some xs \<and> Closed \<in> set (take n xs)))"

lemma map_of_contents: "map_of (map (\<lambda>(q, xs). (q, f q xs)) qs) q = map_option (f q) (map_of qs q)"
  by (induction qs) auto

lemma close_within:
  assumes "hub_ok b" "q \<in> set (map fst (br_queues b))" "\<not> br_closed b"
  shows "closes_within MAX_QUEUE q (close b)"
proof -
  obtain xs where xs: "map_of (br_queues b) q = Some xs"
    using assms(2) by (metis map_of_eq_None_iff not_None_eq set_map)
  then have len: "length xs \<le> MAX_QUEUE" using assms(1) by (auto simp: hub_ok_def dest: map_of_SomeD)
  define ys where "ys = (if length xs < MAX_QUEUE then xs else tl xs)"
  have "length ys < MAX_QUEUE" using len by (auto simp: ys_def MAX_QUEUE_def)
  then have "Closed \<in> set (take MAX_QUEUE (offer Closed ys))" by (simp add: offer_def)
  moreover have "map_of (br_queues (close b)) q = Some (offer Closed ys)"
    using xs assms(3) by (simp add: close_def ys_def map_of_contents)
  moreover have "distinct (map fst (br_queues (close b)))" using hub_ok_close [OF assms(1)] by (simp add: hub_ok_def)
  ultimately show ?thesis using assms(3) by (simp add: closes_within_def close_def)
qed

text \<open>What the stream of \<open>q\<close> reads.\<close>

fun reads :: "nat \<Rightarrow> 'e hub_op list \<Rightarrow> 'e broker \<Rightarrow> 'e item list" where
  "reads q [] b = []"
| "reads q (s # ss) b = (case s of HTake p \<Rightarrow> (if p = q then (case fst (take_item q b) of None \<Rightarrow> [] | Some x \<Rightarrow> [x]) else []) | _ \<Rightarrow> []) @
     reads q ss (hub_step s b)"

fun is_take :: "nat \<Rightarrow> 'e hub_op \<Rightarrow> bool" where
  "is_take q (HTake p) = (p = q)"
| "is_take q _ = False"

fun is_unsub :: "nat \<Rightarrow> 'e hub_op \<Rightarrow> bool" where
  "is_unsub q (HUnsub p) = (p = q)"
| "is_unsub q _ = False"

lemma take_offer: "x \<in> set (take n xs) \<Longrightarrow> x \<in> set (take n (offer y xs))"
  by (auto simp: offer_def)

lemma closes_step:
  assumes "closes_within n q b" "\<not> is_unsub q s" "\<not> is_take q s"
  shows "closes_within n q (hub_step s b)"
proof -
  obtain xs where xs: "map_of (br_queues b) q = Some xs" "Closed \<in> set (take n xs)" and cl: "br_closed b"
      and d: "distinct (map fst (br_queues b))"
    using assms(1) by (auto simp: closes_within_def)
  show ?thesis
  proof (cases s)
    case (HSub u)
    then show ?thesis using assms(1) cl by (simp add: subscribe_def)
  next
    case (HUnsub p)
    then have "p \<noteq> q" using assms(2) by simp
    then have "map_of (filter (\<lambda>(p', _). p' \<noteq> p) qs) q = map_of qs q" for qs :: "(nat \<times> 'a item list) list"
      by (induction qs) auto
    then show ?thesis using xs cl d HUnsub by (simp add: closes_within_def unsubscribe_def distinct_map_filter)
  next
    case (HPub e)
    then show ?thesis using xs cl d
      by (simp add: closes_within_def publish_def map_of_contents take_offer)
  next
    case HClose
    then show ?thesis using assms(1) cl by (simp add: close_def)
  next
    case (HTake p)
    then have p: "p \<noteq> q" using assms(3) by simp
    show ?thesis
    proof (cases "\<exists>x zs. map_of (br_queues b) p = Some (x # zs)")
      case True
      then obtain x zs where "map_of (br_queues b) p = Some (x # zs)" by blast
      then show ?thesis using xs cl d HTake p
        by (simp add: closes_within_def take_item_def map_of_contents)
    next
      case False
      then have "hub_step s b = b" by (auto simp: HTake take_item_def split: option.split list.split)
      then show ?thesis using assms(1) by simp
    qed
  qed
qed

lemma closes_take:
  assumes "closes_within (Suc n) q b" "fst (take_item q b) \<noteq> Some Closed"
  shows "closes_within n q (snd (take_item q b))"
proof -
  obtain xs where xs: "map_of (br_queues b) q = Some xs" "Closed \<in> set (take (Suc n) xs)" and cl: "br_closed b"
      and d: "distinct (map fst (br_queues b))"
    using assms(1) by (auto simp: closes_within_def)
  then obtain y ys where ys: "xs = y # ys" by (cases xs) auto
  have "y \<noteq> Closed" using assms(2) xs ys by (simp add: take_item_def)
  then have "Closed \<in> set (take n ys)" using xs ys by simp
  then show ?thesis using xs ys cl d
    by (simp add: closes_within_def take_item_def map_of_contents [of "\<lambda>p zs. if p = q then ys else zs"])
qed

lemma closed_read:
  assumes "closes_within n q b" "list_all (\<lambda>s. \<not> is_unsub q s) steps" "n \<le> length (filter (is_take q) steps)"
  shows "Closed \<in> set (reads q steps b)"
  using assms
proof (induction steps arbitrary: n b)
  case Nil
  then show ?case by (auto simp: closes_within_def)
next
  case (Cons s ss)
  show ?case
  proof (cases "is_take q s")
    case True
    then have s: "s = HTake q" by (cases s) auto
    show ?thesis
    proof (cases "fst (take_item q b) = Some Closed")
      case False
      from Cons.prems(1) obtain k where k: "n = Suc k" by (cases n) (auto simp: closes_within_def)
      have "Closed \<in> set (reads q ss (snd (take_item q b)))"
        using closes_take [OF Cons.prems(1) [unfolded k] False] Cons.prems(2,3) True by (intro Cons.IH [of k]) (auto simp: k)
      then show ?thesis by (simp add: s)
    qed (simp add: s)
  next
    case False
    have "\<not> is_unsub q s" "list_all (\<lambda>s. \<not> is_unsub q s) ss" "n \<le> length (filter (is_take q) ss)"
      using Cons.prems(2,3) False by simp_all
    then have "Closed \<in> set (reads q ss (hub_step s b))"
      using Cons.IH closes_step [OF Cons.prems(1) _ False] by blast
    then show ?thesis by (simp only: reads.simps set_append Un_iff simp_thms)
  qed
qed

text \<open>C37: A shutdown ends every stream. Once the broker is closed, a stream that is subscribed reads the
  end mark within 100 reads, whatever other streams and publishers do in between, also when its queue was
  full; and nobody can subscribe any more.\<close>

theorem closed_stream_ends:
  assumes "b = hub_run before (new_broker m k)" "\<not> br_closed b" "q \<in> set (map fst (br_queues b))"
    and "list_all (\<lambda>s. \<not> is_unsub q s) steps" "100 \<le> length (filter (is_take q) steps)"
  shows "Closed \<in> set (reads q steps (close b)) \<and> fst (subscribe u (close b)) = Inl ShuttingDown"
proof -
  have "hub_ok b" unfolding assms(1) by (intro hub_ok_run hub_ok_new)
  then have within: "closes_within 100 q (close b)" using close_within [of b q] assms(2,3) by (simp add: MAX_QUEUE_def)
  then have "br_closed (close b)" by (simp add: closes_within_def)
  with closed_read [OF within assms(4,5)] show ?thesis by (simp add: subscribe_def)
qed

end
