(* ===== verification/Streams.thy ===== *)
theory Streams
  imports EventHub
begin

text \<open>
  Who gets a dashboard stream, over any history of calls of the accounts and of openings: an sse token
  opens one stream, and a stream closes when its account changes; and what the bridge counts.
\<close>

section \<open>Histories with openings\<close>

datatype hub_call = HAuth auth_call | HOpen "string option"

fun hub_call_step :: "auth_env \<Rightarrow> hub_call \<Rightarrow> auth_sys \<Rightarrow> auth_sys" where
  "hub_call_step env (HAuth c) s = auth_step env c s"
| "hub_call_step env (HOpen tok) s = snd (require_sse_token env tok s)"

definition hub_calls :: "(auth_env \<times> hub_call) list \<Rightarrow> auth_sys \<Rightarrow> auth_sys" where
  "hub_calls calls s = foldl (\<lambda>s1 (env, c). hub_call_step env c s1) s calls"

lemma hub_calls_Cons [simp]: "hub_calls ((env, c) # calls) s = hub_calls calls (hub_call_step env c s)"
  by (simp add: hub_calls_def)

lemma hub_calls_Nil [simp]: "hub_calls [] s = s"
  by (simp add: hub_calls_def)

section \<open>The key of a used token\<close>

lemma sse_keys [simp]:
  "sse_used_key j \<noteq> refresh_key i" "sse_used_key j \<noteq> family_revoked_key f" "sse_used_key j \<noteq> pair_key env e ip"
  "sse_used_key j \<noteq> ip_key ip" "sse_used_key j = sse_used_key i \<longleftrightarrow> j = i"
  by (simp_all add: sse_used_key_def refresh_key_def family_revoked_key_def pair_key_def ip_key_def)

lemma refresh_foreign: "as_redis (snd (refresh_tokens env tok s)) (sse_used_key j) = as_redis s (sse_used_key j)"
proof -
  let ?k = "sse_used_key j"
  obtain a s' where r: "refresh_tokens env tok s = (a, s')" by fastforce
  then show ?thesis
  proof (cases rule: refresh_cases)
    case refused
    then show ?thesis using r by simp
  next
    case (lost c jti fam st)
    then show ?thesis using r redis_do_take [OF lost(4)] by (auto simp: kv_del_def)
  next
    case (reused c jti fam st x st1)
    then show ?thesis using r redis_do_take [OF reused(4)] redis_do_write [OF reused(5)]
      by (auto simp: kv_del_def kv_write_at)
  next
    case (taken c jti fam rec st x st1)
    have "st1 = st" using redis_do_has [OF taken(5)] .
    moreover have "st = kv_del (as_redis s) (refresh_key jti)" using redis_do_take [OF taken(4)] by simp
    moreover have "as_redis s' ?k = st1 ?k"
      using taken(6) issue_pair_at [of ?k env] by auto
    ultimately show ?thesis using r by (simp add: kv_del_def)
  qed
qed

lemma logout_foreign: "as_redis (snd (logout env tok s)) (sse_used_key j) = as_redis s (sse_used_key j)"
proof (cases "decode_token env tok ''refresh'' ADMIN_AUDIENCE")
  case c: (Reply c)
  show ?thesis
  proof (cases "text_claim c ''fam''")
    case f: (Some fam)
    obtain x st where w: "redis_do env (ASet (family_revoked_key fam))
        (kv_write (au_now env) (family_revoked_key fam) (refresh_ttl_s env) (VJson (JInt 1))) (as_redis s) = (x, st)" by fastforce
    have st: "st (sse_used_key j) = as_redis s (sse_used_key j)" using redis_do_write [OF w] by (auto simp: kv_write_at)
    show ?thesis
    proof (cases "x = None \<or> text_claim c ''jti'' = None")
      case True
      then have "as_redis (snd (logout env tok s)) = st"
        using c f w by (auto simp: logout_def Let_def split: option.split)
      with st show ?thesis by auto
    next
      case False
      then obtain i where i: "text_claim c ''jti'' = Some i" by auto
      obtain y st1 where d: "redis_do env (ADel (refresh_key i)) (kv_unlink (refresh_key i)) st = (y, st1)" by fastforce
      have "as_redis (snd (logout env tok s)) = st1"
        using c f w i d False by (auto simp: logout_def Let_def split: option.split)
      with st redis_do_unlink [OF d] show ?thesis by (auto simp: kv_del_def)
    qed
  qed (use c in \<open>simp add: logout_def\<close>)
qed (simp_all add: logout_def)

lemma auth_step_foreign: "as_redis (auth_step env c s) (sse_used_key j) = as_redis s (sse_used_key j)"
proof -
  have o: "other_key env (sse_used_key j)" by (auto simp: other_key_def)
  show ?thesis
    using login_frame [OF o] change_password_frame [OF o] by (cases c) (simp_all add: refresh_foreign logout_foreign)
qed

text \<open>An opening that draws a fresh mark, finds the mark, or fails.\<close>

lemma use_once_cases:
  assumes "use_once env c s = (a, s1)"
  obtains (failed) "\<not> (\<exists>u. a = Reply u)"
      "as_redis s1 = as_redis s \<or> (\<exists>j. text_claim c ''jti'' = Some j \<and> \<not> kv_exists (au_now env) (as_redis s) (sse_used_key j) \<and>
         as_redis s1 = kv_setex (au_now env) (as_redis s) (sse_used_key j) SSE_TOKEN_TTL_SECONDS (VJson (JInt 1)))"
  | (used) j where "text_claim c ''jti'' = Some j" "\<not> kv_exists (au_now env) (as_redis s) (sse_used_key j)" "a = Reply ()"
      "as_redis s1 = kv_setex (au_now env) (as_redis s) (sse_used_key j) SSE_TOKEN_TTL_SECONDS (VJson (JInt 1))"
proof (cases "text_claim c ''jti''")
  case None
  with assms failed show ?thesis by (auto simp: use_once_def)
next
  case (Some j)
  obtain x st where r: "redis_do env (ASetNx (sse_used_key j))
      (kv_write_nx (au_now env) (sse_used_key j) SSE_TOKEN_TTL_SECONDS (VJson (JInt 1))) (as_redis s) = (x, st)" by fastforce
  have st: "st = as_redis s \<and> x \<noteq> Some True \<or> \<not> kv_exists (au_now env) (as_redis s) (sse_used_key j) \<and>
      st = kv_setex (au_now env) (as_redis s) (sse_used_key j) SSE_TOKEN_TTL_SECONDS (VJson (JInt 1)) \<and> x \<noteq> Some False"
    using r by (auto simp: redis_do_def kv_write_nx_def split: if_splits fate.splits)
  show ?thesis
  proof (cases "x = Some True")
    case True
    then show ?thesis using assms Some r st used [of j] by (auto simp: use_once_def)
  next
    case False
    then show ?thesis using assms Some r st failed by (auto simp: use_once_def split: option.splits bool.splits)
  qed
qed

lemma require_sse_cases:
  assumes "require_sse_token env tok s = (a, s1)"
  obtains (early) "s1 = s" "\<not> (\<exists>u. a = Reply u)"
  | (checked) c u b where "decode_sse_token env tok = Reply c" "stream_access env c s = Reply u" "use_once env c s = (b, s1)"
      "a = (case b of Reply _ \<Rightarrow> Reply u | Reject n \<Rightarrow> Reject n | Crash e \<Rightarrow> Crash e)"
proof (cases "decode_sse_token env tok")
  case c: (Reply c)
  show ?thesis
  proof (cases "stream_access env c s")
    case (Reply u)
    then show ?thesis using assms c checked [of c u "fst (use_once env c s)"]
      by (cases "use_once env c s") (auto simp: require_sse_token_def split: answer.splits)
  next
    case (Reject n)
    then have "a = Reject n" "s1 = s" using assms c by (simp_all add: require_sse_token_def)
    then show ?thesis by (intro early) simp_all
  next
    case (Crash e)
    then have "a = Crash e" "s1 = s" using assms c by (simp_all add: require_sse_token_def)
    then show ?thesis by (intro early) simp_all
  qed
qed (use assms early in \<open>auto simp: require_sse_token_def\<close>)

text \<open>While the mark of a token lasts until \<open>T\<close>, a call keeps a mark that lasts as long.\<close>

definition marked :: "time \<Rightarrow> string \<Rightarrow> auth_sys \<Rightarrow> bool" where
  "marked T j s = (\<exists>t. as_redis s (sse_used_key j) = Some (VJson (JInt 1), Some t) \<and> T \<le> t)"

lemma hub_call_marked:
  assumes "marked T j s" "T \<le> au_now env + SSE_TOKEN_TTL_SECONDS * second_us"
  shows "marked T j (hub_call_step env c s)"
proof (cases c)
  case (HAuth c)
  with assms(1) show ?thesis by (simp add: marked_def auth_step_foreign)
next
  case (HOpen tok)
  obtain a s1 where r: "require_sse_token env tok s = (a, s1)" by fastforce
  then have "marked T j s1"
  proof (cases rule: require_sse_cases)
    case (checked c u b)
    from checked(3) show ?thesis
    proof (cases rule: use_once_cases)
      case failed
      then show ?thesis using assms by (auto simp: marked_def kv_write_at)
    next
      case (used i)
      then show ?thesis using assms by (auto simp: marked_def kv_write_at)
    qed
  qed (use assms(1) in simp)
  then show ?thesis by (simp add: HOpen r)
qed

lemma hub_calls_marked:
  assumes "marked T j s" "list_all (\<lambda>(e, _). T \<le> au_now e + SSE_TOKEN_TTL_SECONDS * second_us) calls"
  shows "marked T j (hub_calls calls s)"
  using assms
proof (induction calls arbitrary: s)
  case (Cons a calls)
  then show ?case by (cases a) (simp add: hub_call_marked)
qed simp

text \<open>C32: An sse token opens one stream. Once a token has opened a stream, no token with the same id is
  accepted until the mark expires after the token's own lifetime, whatever calls follow on clocks that do
  not run backwards: a token read from a proxy's log is worthless.\<close>

theorem sse_token_single_use:
  assumes "require_sse_token env tok s = (Reply u, s1)" "decode_sse_token env tok = Reply c" "text_claim c ''jti'' = Some j"
    and "list_all (\<lambda>(e, _). au_now env \<le> au_now e) calls"
    and "decode_sse_token env' tok' = Reply c'" "text_claim c' ''jti'' = Some j"
    and "au_now env' < au_now env + SSE_TOKEN_TTL_SECONDS * second_us"
  shows "fst (require_sse_token env' tok' (hub_calls calls s1)) \<noteq> Reply u'"
proof -
  let ?T = "au_now env + SSE_TOKEN_TTL_SECONDS * second_us"
  have "marked ?T j s1"
    using assms(1)
  proof (cases rule: require_sse_cases)
    case (checked c1 u1 b)
    from checked(3) show ?thesis
    proof (cases rule: use_once_cases)
      case failed
      then show ?thesis using checked(4) by (auto split: answer.splits)
    next
      case (used i)
      then show ?thesis using checked(1) assms(2,3) by (auto simp: marked_def kv_write_at)
    qed
  qed simp
  then have m: "marked ?T j (hub_calls calls s1)"
    by (rule hub_calls_marked) (use assms(4) in \<open>auto simp: list_all_iff\<close>)
  obtain a s2 where r: "require_sse_token env' tok' (hub_calls calls s1) = (a, s2)" by fastforce
  then have "a \<noteq> Reply u'"
  proof (cases rule: require_sse_cases)
    case (checked c1 u1 b)
    from checked(3) show ?thesis
    proof (cases rule: use_once_cases)
      case failed
      then show ?thesis using checked(4) by (auto split: answer.splits)
    next
      case (used i)
      then have "i = j" using checked(1) assms(5,6) by simp
      then show ?thesis using used(2) m assms(7) by (auto simp: marked_def kv_exists_def kv_get_def)
    qed
  qed auto
  with r show ?thesis by simp
qed

text \<open>Access ends with the account's change. A stream opened by an account is closed at its next check
  (\<open>still_allowed\<close> is false) once the account's role, status or password is no longer what it was when the
  stream was opened, whatever calls made the change and whatever calls follow it.\<close>

theorem changed_account_closes_stream:
  assumes "unique_on ad_id (as_users s)" "stream_access env c s = Reply u" "uu_id u < 2 ^ 128"
    and "find_by ad_id (uu_id u) (as_users s) = Some a"
    and "find_by ad_id (uu_id u) (as_users (auth_run calls s)) = Some a'"
    and "ad_role a' \<noteq> ad_role a \<or> ad_active a' \<noteq> ad_active a \<or> ad_hash a' \<noteq> ad_hash a"
  shows "\<not> still_allowed env' u (auth_run later (auth_run calls s))"
proof -
  obtain x where x: "load_token_user env c s = Reply x" "u = auth_user_of x"
    using assms(2) by (auto simp: stream_access_def authenticate_sse_claims_def split: answer.splits if_splits)
  have "x = a" using load_token_user_row [OF x(1)] assms(4) x(2) by (simp add: auth_user_of_def)
  then have ver: "uu_version u = ad_version a" using x(2) by (simp add: auth_user_of_def)
  let ?c = "[(''sub'', JStr (uuid_text (uu_id u))), (''ver'', JInt (uu_version u))]"
  have "load_token_user env' ?c (auth_run later (auth_run calls s)) \<noteq> Reply y" for y
    by (rule stale_version_refused [OF assms(1,4,5,6) _ assms(3), where v = "ad_version a"])
      (simp_all add: jget_def members_def ver)
  then show ?thesis
    by (auto simp: still_allowed_def stream_access_def authenticate_sse_claims_def split: answer.split)
qed

section \<open>What the bridge counts\<close>

datatype bridge_op = BIngest "json option" | BFlush

text \<open>The state of the bridge and all events it has published.\<close>

fun bridge_step :: "(json \<Rightarrow> string) \<Rightarrow> bridge_op \<Rightarrow> bridge \<times> stats_event list \<Rightarrow> bridge \<times> stats_event list" where
  "bridge_step repr (BIngest raw) (g, out) = (ingest repr raw g, out)"
| "bridge_step repr BFlush (g, out) = (fst (flush (g, new_broker None None)), out @ flush_events g)"

definition bridge_run :: "(json \<Rightarrow> string) \<Rightarrow> bridge_op list \<Rightarrow> bridge \<times> stats_event list" where
  "bridge_run repr ops = fold (bridge_step repr) ops (\<lparr>bg_pending = [], bg_accepted = []\<rparr>, [])"

fun arrives :: "(json \<Rightarrow> string) \<Rightarrow> string \<Rightarrow> bridge_op \<Rightarrow> bool" where
  "arrives repr cid (BIngest raw) = (map_option fst (parse_event repr raw) = Some cid)"
| "arrives repr cid BFlush = False"

definition arrivals :: "(json \<Rightarrow> string) \<Rightarrow> string \<Rightarrow> bridge_op list \<Rightarrow> nat" where
  "arrivals repr cid ops = length (filter (arrives repr cid) ops)"

definition reported :: "string \<Rightarrow> stats_event list \<Rightarrow> nat" where
  "reported cid out = sum_list (map se_accepted (filter (\<lambda>e. se_campaign e = cid) out))"

lemma dict_get_put: "dict_get k dflt (dict_put k' v kvs) = (if k = k' then v else dict_get k dflt kvs)"
proof -
  have "map_of (map (\<lambda>(a, b). (a, if a = k' then v else b)) kvs) k =
      (if k = k' then map_option (\<lambda>_. v) (map_of kvs k) else map_of kvs k)"
    by (induction kvs) auto
  moreover have "map_of kvs k' \<noteq> None" if "k' \<in> fst ` set kvs" using that by (simp add: map_of_eq_None_iff)
  moreover have "map_of kvs k' = None" if "k' \<notin> fst ` set kvs" using that by (simp add: map_of_eq_None_iff)
  ultimately show ?thesis
    by (cases "k' \<in> fst ` set kvs") (auto simp: dict_get_def dict_put_def map_add_def split: option.split)
qed

lemma dict_put_keys: "map fst (dict_put k v kvs) = (if k \<in> set (map fst kvs) then map fst kvs else map fst kvs @ [k])"
  by (induction kvs) (auto simp: dict_put_def)

lemma flush_reported:
  assumes "distinct (map fst (bg_pending g))" "map fst (bg_accepted g) = map fst (bg_pending g)"
  shows "reported cid (flush_events g) = dict_get cid 0 (bg_accepted g)"
proof -
  have "sum_list (map (\<lambda>p. n (fst p)) (filter (\<lambda>p. fst p = cid) ps)) = (if cid \<in> set (map fst ps) then n cid else 0)"
    if "distinct (map fst ps)" for ps :: "(string \<times> py_float) list" and n :: "string \<Rightarrow> nat"
    using that by (induction ps) (auto simp: filter_empty_conv rev_image_eqI)
  from this [OF assms(1), of "\<lambda>k. dict_get k 0 (bg_accepted g)"]
  have "reported cid (flush_events g) = (if cid \<in> set (map fst (bg_accepted g)) then dict_get cid 0 (bg_accepted g) else 0)"
    by (simp add: reported_def flush_events_def filter_map comp_def split_def assms(2))
  also have "\<dots> = dict_get cid 0 (bg_accepted g)"
    by (auto simp: dict_get_def split: option.split dest: map_of_SomeD) (metis image_eqI fst_conv map_of_SomeD)
  finally show ?thesis .
qed

text \<open>The bridge counts exactly. For every campaign the accepted offers it has published and those it
  still holds are together the valid messages that arrived for it, whatever the order of messages and
  flushes.\<close>

theorem bridge_counts_exactly:
  "reported cid (snd (bridge_run repr ops)) + dict_get cid 0 (bg_accepted (fst (bridge_run repr ops))) = arrivals repr cid ops"
proof -
  have "distinct (map fst (bg_pending (fst (bridge_run repr ops)))) \<and>
      map fst (bg_accepted (fst (bridge_run repr ops))) = map fst (bg_pending (fst (bridge_run repr ops))) \<and> ?thesis"
  proof (induction ops rule: rev_induct)
    case Nil
    then show ?case by (simp add: bridge_run_def reported_def arrivals_def dict_get_def)
  next
    case (snoc s ops)
    obtain g out where r: "bridge_run repr ops = (g, out)" by fastforce
    then have step: "bridge_run repr (ops @ [s]) = bridge_step repr s (g, out)" by (simp add: bridge_run_def)
    have IH: "distinct (map fst (bg_pending g))" "map fst (bg_accepted g) = map fst (bg_pending g)"
        "reported cid out + dict_get cid 0 (bg_accepted g) = arrivals repr cid ops"
      using snoc by (simp_all add: r)
    show ?case
    proof (cases s)
      case (BIngest raw)
      show ?thesis
      proof (cases "parse_event repr raw")
        case None
        then show ?thesis using IH by (simp add: BIngest step [unfolded BIngest] ingest_def arrivals_def)
      next
        case (Some ca)
        then show ?thesis using IH
          by (cases ca) (auto simp: BIngest step [unfolded BIngest] ingest_def arrivals_def dict_put_keys dict_get_put)
      qed
    next
      case BFlush
      have "bg_pending g = [] \<Longrightarrow> bg_accepted g = []" using IH(2) by simp
      then have "fst (flush (g, new_broker None None)) = g\<lparr>bg_pending := [], bg_accepted := []\<rparr>"
        by (cases g) (auto simp: flush_def)
      moreover have "reported cid (out @ flush_events g) = arrivals repr cid ops"
        using IH flush_reported [OF IH(1,2), of cid] by (simp add: reported_def)
      ultimately show ?thesis by (simp add: BFlush step [unfolded BFlush] arrivals_def dict_get_def)
    qed
  qed
  then show ?thesis by blast
qed

section \<open>Instances\<close>

definition sample_hub_env :: auth_env where
  "sample_hub_env = sample_auth_env\<lparr>au_decode := (\<lambda>_ _. Some (sample_claims ''sse'' 4 ''s''))\<rparr>"

lemma sample_sse:
  "decode_sse_token sample_hub_env (Some ''t'') = Reply (sample_claims ''sse'' 4 ''s'')"
  "text_claim (sample_claims ''sse'' 4 ''s'') ''jti'' = Some ''s''"
  "stream_access sample_hub_env (sample_claims ''sse'' 4 ''s'') sample_auth = Reply (auth_user_of sample_admin)"
  by (simp_all add: sample_hub_env_def decode_sse_token_def decode_token_def sample_claims_def jget_def members_def text_claim_def
      stream_access_def authenticate_sse_claims_def load_token_user_def parse_uuid_text sample_auth_env_def sample_auth_def
      sample_admin_def permissions_for_def auth_user_of_def PERMISSION_KEYS_def)

lemma sample_opened: "\<exists>s1. require_sse_token sample_hub_env (Some ''t'') sample_auth = (Reply (auth_user_of sample_admin), s1)"
proof -
  have "sse_used_key ''s'' \<noteq> refresh_key ''j1''" by simp
  then have "kv_exists 0 (as_redis sample_auth) (sse_used_key ''s'') = False"
    by (simp add: sample_auth_def kv_exists_def kv_get_def)
  then show ?thesis
    by (simp add: require_sse_token_def sample_sse use_once_def redis_do_def)
      (simp add: sample_hub_env_def sample_auth_env_def kv_write_nx_def)
qed

theorem sse_token_single_use_witness:
  "\<exists>u s1. require_sse_token sample_hub_env (Some ''t'') sample_auth = (Reply u, s1) \<and>
    fst (require_sse_token sample_hub_env (Some ''t'') (hub_calls [(sample_hub_env, HAuth (CLogout ''r1''))] s1)) \<noteq> Reply u"
proof -
  obtain s1 where s1: "require_sse_token sample_hub_env (Some ''t'') sample_auth = (Reply (auth_user_of sample_admin), s1)"
    using sample_opened by blast
  have "au_now sample_hub_env = 0" by (simp add: sample_hub_env_def sample_auth_env_def)
  with sse_token_single_use [OF s1 sample_sse(1,2) _ sample_sse(1,2), of "[(sample_hub_env, HAuth (CLogout ''r1''))]"]
  show ?thesis using s1 by (auto simp: SSE_TOKEN_TTL_SECONDS_def second_us_def)
qed

theorem changed_account_closes_stream_witness:
  "still_allowed sample_auth_env (auth_user_of sample_marketer) sample_auth \<and>
   \<not> still_allowed sample_auth_env (auth_user_of sample_marketer)
     (auth_run [] (auth_run [(sample_auth_env, CUpdate (Some ''admin'') 2 sample_demotion)] sample_auth))"
proof -
  have o: "stream_access sample_auth_env [(''sub'', JStr (uuid_text 2)), (''ver'', JInt 0)] sample_auth =
      Reply (auth_user_of sample_marketer)"
    by (simp add: jget_def members_def stream_access_def authenticate_sse_claims_def load_token_user_def parse_uuid_text
        sample_auth_env_def sample_auth_def sample_admin_def sample_marketer_def permissions_for_def auth_user_of_def
        PERMISSION_KEYS_def effective_permissions_def DEFAULT_PERMISSIONS_def)
  have u: "uu_id (auth_user_of sample_marketer) = 2" "uu_version (auth_user_of sample_marketer) = 0"
    by (simp_all add: auth_user_of_def sample_marketer_def)
  have "\<not> still_allowed sample_auth_env (auth_user_of sample_marketer)
     (auth_run [] (auth_run [(sample_auth_env, CUpdate (Some ''admin'') 2 sample_demotion)] sample_auth))"
    by (rule changed_account_closes_stream [OF _ o, where a = sample_marketer
        and a' = "sample_marketer\<lparr>ad_role := ''ANALYST'', ad_version := 1\<rparr>"])
      (simp_all only: u sample_demoted, simp_all add: sample_auth_def sample_admin_def sample_marketer_def)
  with o show ?thesis by (simp add: still_allowed_def u)
qed

definition sample_steps :: "nat hub_op list" where
  "sample_steps = [HSub (Some ''u''), HPub 7]"

theorem broker_limits_hold_witness:
  "streams_of (hub_run sample_steps (new_broker (Some 1) (Some 1))) ''u'' \<le> 1 \<and>
   streams_of (hub_run sample_steps (new_broker (Some 1) (Some 1))) ''u'' = 1"
  using broker_limits_hold [OF refl, of sample_steps 1 1 "''u''"]
  by (simp add: hub_run_def sample_steps_def new_broker_def subscribe_def over_def publish_def streams_of_def Let_def)

theorem closed_stream_ends_witness:
  "Closed \<in> set (reads 0 (HPub 8 # replicate 100 (HTake 0)) (close (hub_run sample_steps (new_broker None None))))"
proof -
  have b: "\<not> br_closed (hub_run sample_steps (new_broker None None))"
      "0 \<in> set (map fst (br_queues (hub_run sample_steps (new_broker None None))))"
    by (simp_all add: hub_run_def sample_steps_def new_broker_def subscribe_def over_def publish_def Let_def)
  from closed_stream_ends [OF refl b, of "HPub 8 # replicate 100 (HTake 0)"] show ?thesis
    by (simp add: list_all_iff)
qed

end
