(* ===== verification/Notify.thy ===== *)
theory Notify
  imports KvStore Faults Float64 Schema
begin

text \<open>
  Notifications: \<^verbatim>\<open>services/transaction_listener/app/notification/\<close> (optimal send time, the chain of
  channels, the recorded channel) and \<^verbatim>\<open>NotificationConsumer\<close> of \<^verbatim>\<open>app/main.py\<close>.

  \<open>nt_env\<close> says what happens while one message of \<^verbatim>\<open>recommendations.created\<close> is handled: the answers of the
  push gateway, Redis, the template, the disk and Postgres. A message is what \<^verbatim>\<open>json.loads\<close> makes of it
  (\<open>None\<close>: empty or no JSON). Lists of Redis are kept apart from its strings.
\<close>

section \<open>Message\<close>

record offer_note =
  on_user :: string
  on_mcc :: string
  on_campaign :: json
  on_rec :: json
  on_rate :: json
  on_name :: json

record note_prefs =
  np_user :: string
  np_channels :: "json list"
  np_email :: json
  np_phone :: json
  np_push :: json

record nt_env =
  ne_now :: time
  ne_repr :: "json \<Rightarrow> string"
  ne_redis :: bool
  ne_hours :: "nat set"
  ne_push :: "(exn + int) option"
  ne_lpush :: bool
  ne_expire :: bool
  ne_template :: bool
  ne_disk :: bool
  ne_db :: "exn option"
  ne_applied :: bool
  ne_world :: "db \<Rightarrow> db"

text \<open>\<open>ne_push\<close> is \<open>None\<close> without a gateway. \<open>no_channels\<close> is the log of what was handed over.\<close>

record nt_sys =
  no_db :: db
  no_redis :: store
  no_inbox :: "string \<Rightarrow> (offer_note list \<times> time option) option"
  no_sent :: "(string \<times> offer_note) list"

datatype note_error = MissingField | BadPayload

definition note_text :: "nt_env \<Rightarrow> json \<Rightarrow> string" where
  "note_text env v = (case json_text v of None \<Rightarrow> ne_repr env v | Some t \<Rightarrow> t)"

text \<open>Whether \<^verbatim>\<open>float\<close> takes the score; its texts are taken to be those of \<^verbatim>\<open>Decimal\<close>.\<close>

fun score_ok :: "json \<Rightarrow> bool" where
  "score_ok (JBool _) = True"
| "score_ok (JInt i) = (\<bar>i\<bar> < 2 ^ 1024)"
| "score_ok (JFloat _) = True"
| "score_ok (JStr s) = (parse_decimal s \<noteq> None)"
| "score_ok _ = False"

definition get_default :: "(string \<times> json) list \<Rightarrow> string \<Rightarrow> json \<Rightarrow> json" where
  "get_default kvs k dflt = (case members kvs k of None \<Rightarrow> dflt | Some v \<Rightarrow> v)"

definition to_recommendation :: "nt_env \<Rightarrow> (string \<times> json) list \<Rightarrow> note_error + offer_note" where
  "to_recommendation env p =
    (case members p ''user_id'' of
       None \<Rightarrow> Inl MissingField
     | Some u \<Rightarrow>
        if score_ok (get_default p ''score'' (JInt 0))
        then Inr \<lparr>on_user = note_text env u, on_mcc = note_text env (get_default p ''mcc_code'' (JStr [])),
          on_campaign = jget p ''campaign_id'', on_rec = jget p ''recommendation_id'', on_rate = jget p ''cashback_rate'',
          on_name = get_default p ''campaign_name'' (JStr ''Cashback offer'')\<rparr>
        else Inl BadPayload)"

text \<open>\<^verbatim>\<open>list(v)\<close>\<close>

fun py_list :: "json \<Rightarrow> json list option" where
  "py_list (JArr vs) = Some vs"
| "py_list (JStr s) = Some (map (\<lambda>c. JStr [c]) s)"
| "py_list (JObj kvs) = Some (map JStr (remdups (map fst kvs)))"
| "py_list _ = None"

definition to_prefs :: "nt_env \<Rightarrow> (string \<times> json) list \<Rightarrow> note_error + note_prefs" where
  "to_prefs env p =
    (let prefs = (if py_truthy (jget p ''preferences'') then jget p ''preferences'' else JObj []) in
     case prefs of
       JObj kvs \<Rightarrow>
         (case py_list (get_default kvs ''allowed_channels''
             (JArr [JStr ''push'', JStr ''in_app'', JStr ''email'', JStr ''sms''])) of
            None \<Rightarrow> Inl BadPayload
          | Some ch \<Rightarrow>
             (case members p ''user_id'' of
                None \<Rightarrow> Inl MissingField
              | Some u \<Rightarrow> Inr \<lparr>np_user = note_text env u, np_channels = ch, np_email = jget kvs ''email'',
                  np_phone = jget kvs ''phone'', np_push = jget kvs ''push_token''\<rparr>))
     | _ \<Rightarrow> Inl BadPayload)"

section \<open>Optimal send time\<close>

definition ost_key :: "string \<Rightarrow> string" where
  "ost_key user = ''ost:'' @ user"

definition hour_of :: "time \<Rightarrow> nat" where
  "hour_of t = nat (t div hour_us) mod 24"

definition ost_update :: "time \<Rightarrow> string \<Rightarrow> int list \<Rightarrow> int option \<Rightarrow> json \<Rightarrow> store \<Rightarrow> exn + store" where
  "ost_update now user counts ttl stamp st =
    (if length counts \<noteq> 24 then Inl (py_error ''ValueError'')
     else Inr (kv_setex now st (ost_key user) (case ttl of None \<Rightarrow> 2592000 | Some t \<Rightarrow> if t = 0 then 2592000 else t)
       (VJson (JObj [(''hours'', JArr (map JInt counts)), (''updated_at'', stamp)]))))"

text \<open>A number of the histogram, as \<^verbatim>\<open>sum\<close> and \<^verbatim>\<open>>\<close> take it. A list with anything else raises.\<close>

fun json_number :: "json \<Rightarrow> rat option" where
  "json_number (JBool b) = Some (if b then 1 else 0)"
| "json_number (JInt i) = Some (of_int i)"
| "json_number (JFloat r) = Some r"
| "json_number _ = None"

fun numbers :: "json list \<Rightarrow> rat list option" where
  "numbers [] = Some []"
| "numbers (v # vs) = (case (json_number v, numbers vs) of (Some x, Some xs) \<Rightarrow> Some (x # xs) | _ \<Rightarrow> None)"

text \<open>Counts are integers, so \<^verbatim>\<open>sum\<close> is exact; the average is the double nearest to the quotient.\<close>

definition busy_hours :: "rat list \<Rightarrow> nat set" where
  "busy_hours hs = {h. h < length hs \<and> fl (sum_list hs / of_nat (length hs)) < hs ! h}"

definition active_of :: "nat set \<Rightarrow> rval option \<Rightarrow> exn + nat set" where
  "active_of dflt raw =
    (case raw of
       None \<Rightarrow> Inr dflt
     | Some (VBad _) \<Rightarrow> Inr dflt
     | Some VNonString \<Rightarrow> Inr dflt
     | Some (VJson (JObj kvs)) \<Rightarrow>
        (if \<not> py_truthy (jget kvs ''hours'') then Inr dflt
         else case jget kvs ''hours'' of
           JArr vs \<Rightarrow>
             (case numbers vs of
                None \<Rightarrow> Inl (py_error ''TypeError'')
              | Some hs \<Rightarrow> if sum_list hs = 0 then Inr dflt else Inr (busy_hours hs))
         | _ \<Rightarrow> Inl (py_error ''TypeError''))
     | Some (VJson _) \<Rightarrow> Inl (py_error ''AttributeError''))"

definition load_active_hours :: "nt_env \<Rightarrow> string \<Rightarrow> store \<Rightarrow> exn + nat set" where
  "load_active_hours env user st =
    (if ne_redis env then active_of (ne_hours env) (kv_get (ne_now env) st (ost_key user)) else Inr (ne_hours env))"

definition should_deliver_now :: "nt_env \<Rightarrow> string \<Rightarrow> store \<Rightarrow> exn + bool" where
  "should_deliver_now env user st =
    (case load_active_hours env user st of Inl e \<Rightarrow> Inl e | Inr a \<Rightarrow> Inr (a = {} \<or> hour_of (ne_now env) \<in> a))"

definition floor_hour :: "time \<Rightarrow> time" where
  "floor_hour t = (t div hour_us) * hour_us"

fun next_window :: "nat set \<Rightarrow> time \<Rightarrow> nat \<Rightarrow> nat \<Rightarrow> time option" where
  "next_window active now k 0 = None"
| "next_window active now k (Suc n) =
    (let c = floor_hour (now + int k * hour_us) in
     if hour_of c \<in> active then Some c else next_window active now (Suc k) n)"

definition next_send_time :: "nt_env \<Rightarrow> int \<Rightarrow> string \<Rightarrow> store \<Rightarrow> exn + time" where
  "next_send_time env max_defer user st =
    (case load_active_hours env user st of
       Inl e \<Rightarrow> Inl e
     | Inr a \<Rightarrow>
        if a = {} \<or> hour_of (ne_now env) \<in> a then Inr (ne_now env)
        else (case next_window a (ne_now env) 1 (nat (max 1 max_defer)) of
           Some t \<Rightarrow> Inr t | None \<Rightarrow> Inr (ne_now env)))"

section \<open>Channels\<close>

datatype adapter = Push | InApp | Email | Sms

primrec adapter_name :: "adapter \<Rightarrow> string" where
  "adapter_name Push = ''push''"
| "adapter_name InApp = ''in_app''"
| "adapter_name Email = ''email''"
| "adapter_name Sms = ''sms''"

definition can_handle :: "note_prefs \<Rightarrow> adapter \<Rightarrow> bool" where
  "can_handle prefs a = (JStr (adapter_name a) \<in> set (np_channels prefs) \<and>
     (case a of Push \<Rightarrow> py_truthy (np_push prefs) | InApp \<Rightarrow> True
       | Email \<Rightarrow> py_truthy (np_email prefs) | Sms \<Rightarrow> py_truthy (np_phone prefs)))"

definition inbox_key :: "string \<Rightarrow> string" where
  "inbox_key user = ''in_app_queue:'' @ user"

definition inbox_now :: "time \<Rightarrow> (offer_note list \<times> time option) option \<Rightarrow> offer_note list \<times> time option" where
  "inbox_now now box =
    (case box of
       None \<Rightarrow> ([], None)
     | Some (xs, e) \<Rightarrow> (case e of None \<Rightarrow> (xs, e) | Some t \<Rightarrow> if now < t then (xs, e) else ([], None)))"

definition lpush :: "time \<Rightarrow> string \<Rightarrow> offer_note \<Rightarrow> nt_sys \<Rightarrow> nt_sys" where
  "lpush now k x s = (let (xs, e) = inbox_now now (no_inbox s k) in s\<lparr>no_inbox := (no_inbox s)(k \<mapsto> (x # xs, e))\<rparr>)"

definition inbox_expire :: "time \<Rightarrow> string \<Rightarrow> int \<Rightarrow> nt_sys \<Rightarrow> nt_sys" where
  "inbox_expire now k ttl s =
    (case no_inbox s k of
       None \<Rightarrow> s
     | Some (xs, e) \<Rightarrow> s\<lparr>no_inbox := (no_inbox s)(k \<mapsto> (xs, Some (now + ttl * second_us)))\<rparr>)"

definition sent :: "adapter \<Rightarrow> offer_note \<Rightarrow> nt_sys \<Rightarrow> nt_sys" where
  "sent a r s = s\<lparr>no_sent := no_sent s @ [(adapter_name a, r)]\<rparr>"

text \<open>\<^verbatim>\<open>deliver\<close> of each adapter: the answer (\<open>None\<close> when it raises) and what was done.\<close>

definition deliver_push :: "nt_env \<Rightarrow> offer_note \<Rightarrow> nt_sys \<Rightarrow> bool option \<times> nt_sys" where
  "deliver_push env r s =
    (case ne_push env of
       None \<Rightarrow> (Some True, sent Push r s)
     | Some (Inl e) \<Rightarrow> (Some False, s)
     | Some (Inr code) \<Rightarrow> if 200 \<le> code \<and> code < 300 then (Some True, sent Push r s) else (Some False, s))"

definition deliver_in_app :: "nt_env \<Rightarrow> offer_note \<Rightarrow> note_prefs \<Rightarrow> nt_sys \<Rightarrow> bool option \<times> nt_sys" where
  "deliver_in_app env r prefs s =
    (if ne_lpush env
     then let s1 = lpush (ne_now env) (inbox_key (np_user prefs)) r s in
       if ne_expire env then (Some True, inbox_expire (ne_now env) (inbox_key (np_user prefs)) 604800 s1)
       else (Some False, s1)
     else (Some False, s))"

definition deliver_email :: "nt_env \<Rightarrow> offer_note \<Rightarrow> nt_sys \<Rightarrow> bool option \<times> nt_sys" where
  "deliver_email env r s =
    (if \<not> ne_template env then (Some False, s)
     else if \<not> ne_disk env then (None, s)
     else (Some True, sent Email r s))"

definition deliver_sms :: "offer_note \<Rightarrow> nt_sys \<Rightarrow> bool option \<times> nt_sys" where
  "deliver_sms r s = (Some True, sent Sms r s)"

primrec deliver :: "nt_env \<Rightarrow> offer_note \<Rightarrow> note_prefs \<Rightarrow> adapter \<Rightarrow> nt_sys \<Rightarrow> bool option \<times> nt_sys" where
  "deliver env r prefs Push s = deliver_push env r s"
| "deliver env r prefs InApp s = deliver_in_app env r prefs s"
| "deliver env r prefs Email s = deliver_email env r s"
| "deliver env r prefs Sms s = deliver_sms r s"

lemmas deliver_defs = deliver_push_def deliver_in_app_def deliver_email_def deliver_sms_def

fun select_channel :: "nt_env \<Rightarrow> offer_note \<Rightarrow> note_prefs \<Rightarrow> adapter list \<Rightarrow> nt_sys \<Rightarrow> adapter option \<times> nt_sys" where
  "select_channel env r prefs [] s = (None, s)"
| "select_channel env r prefs (a # chain) s =
    (if \<not> can_handle prefs a then select_channel env r prefs chain s
     else case deliver env r prefs a s of
       (Some True, s1) \<Rightarrow> (Some a, s1)
     | (_, s1) \<Rightarrow> select_channel env r prefs chain s1)"

definition CHAIN :: "adapter list" where
  "CHAIN = [Push, InApp, Email, Sms]"

section \<open>The recorded channel\<close>

primrec CHANNEL_BY_ADAPTER :: "adapter \<Rightarrow> string" where
  "CHANNEL_BY_ADAPTER Push = ''PUSH''"
| "CHANNEL_BY_ADAPTER InApp = ''IN_APP''"
| "CHANNEL_BY_ADAPTER Email = ''EMAIL''"
| "CHANNEL_BY_ADAPTER Sms = ''SMS''"

definition record_write :: "uuid \<Rightarrow> string \<Rightarrow> db \<Rightarrow> db" where
  "record_write rid ch d = d\<lparr>recs := update_where (\<lambda>r. re_id r = rid \<and> re_channel r = None) (\<lambda>r. r\<lparr>re_channel := Some ch\<rparr>) (recs d)\<rparr>"

definition record_channel :: "nt_env \<Rightarrow> json \<Rightarrow> adapter \<Rightarrow> nt_sys \<Rightarrow> bool \<times> nt_sys" where
  "record_channel env rid a s =
    (case (if py_truthy rid then (case json_text rid of None \<Rightarrow> None | Some t \<Rightarrow> parse_uuid t) else None) of
       None \<Rightarrow> (False, s)
     | Some u \<Rightarrow>
        (let d = ne_world env (no_db s); d1 = record_write u (CHANNEL_BY_ADAPTER a) d in
         case ne_db env of
           Some e \<Rightarrow> (False, s\<lparr>no_db := if ne_applied env then d1 else d\<rparr>)
         | None \<Rightarrow> (list_ex (\<lambda>r. re_id r = u \<and> re_channel r = None) (recs d), s\<lparr>no_db := d1\<rparr>)))"

section \<open>One message\<close>

datatype note_outcome = NBadPayload | NMissing | NNoChannel | NDelivered adapter | NError exn

definition process_note :: "nt_env \<Rightarrow> json option \<Rightarrow> nt_sys \<Rightarrow> note_outcome \<times> nt_sys" where
  "process_note env msg s =
    (case msg of
       Some (JObj p) \<Rightarrow>
         (case (case to_recommendation env p of Inl e \<Rightarrow> Inl e | Inr r \<Rightarrow> map_sum id (Pair r) (to_prefs env p)) of
            Inl MissingField \<Rightarrow> (NMissing, s)
          | Inl BadPayload \<Rightarrow> (NBadPayload, s)
          | Inr (r, prefs) \<Rightarrow>
             (case should_deliver_now env (on_user r) (no_redis s) of
                Inl e \<Rightarrow> (NError e, s)
              | Inr now_ok \<Rightarrow>
                 (let allowed = (if now_ok then prefs else prefs\<lparr>np_channels := filter (\<lambda>c. c = JStr ''in_app'') (np_channels prefs)\<rparr>) in
                  case select_channel env r allowed CHAIN s of
                    (None, s1) \<Rightarrow> (NNoChannel, s1)
                  | (Some a, s1) \<Rightarrow> (NDelivered a, snd (record_channel env (on_rec r) a s1)))))
     | _ \<Rightarrow> (NBadPayload, s))"

definition note_run :: "(nt_env \<times> json option) list \<Rightarrow> nt_sys \<Rightarrow> nt_sys" where
  "note_run msgs s = foldl (\<lambda>s1 (env, m). snd (process_note env m s1)) s msgs"

section \<open>The supervisor\<close>

text \<open>The pause after a run of \<open>lasted\<close> and the delay kept for the next one.\<close>

definition supervise_turn :: "rat \<Rightarrow> rat \<Rightarrow> rat \<Rightarrow> rat \<Rightarrow> rat \<times> rat" where
  "supervise_turn init cap lasted delay =
    (let d = (if cap \<le> lasted then init else delay) in (d, min (2 * d) cap))"

section \<open>What a message does\<close>

lemma process_note_cases:
  assumes "process_note env msg s = (out, s')"
  obtains (dropped) "s' = s" "\<not> (\<exists>a. out = NDelivered a)"
  | (chosen) p r prefs now_ok allowed c s1 where "msg = Some (JObj p)" "to_recommendation env p = Inr r" "to_prefs env p = Inr prefs"
      "should_deliver_now env (on_user r) (no_redis s) = Inr now_ok"
      "allowed = (if now_ok then prefs else prefs\<lparr>np_channels := filter (\<lambda>c. c = JStr ''in_app'') (np_channels prefs)\<rparr>)"
      "select_channel env r allowed CHAIN s = (c, s1)"
      "case c of None \<Rightarrow> out = NNoChannel \<and> s' = s1 | Some a \<Rightarrow> out = NDelivered a \<and> s' = snd (record_channel env (on_rec r) a s1)"
proof -
  let ?parsed = "\<lambda>p. case to_recommendation env p of Inl e \<Rightarrow> Inl e | Inr r \<Rightarrow> map_sum id (Pair r) (to_prefs env p)"
  show ?thesis
  proof (cases "\<exists>p r prefs now_ok. msg = Some (JObj p) \<and> to_recommendation env p = Inr r \<and> to_prefs env p = Inr prefs \<and>
      should_deliver_now env (on_user r) (no_redis s) = Inr now_ok")
    case True
    then obtain p r prefs now_ok where m: "msg = Some (JObj p)" "to_recommendation env p = Inr r" "to_prefs env p = Inr prefs"
        "should_deliver_now env (on_user r) (no_redis s) = Inr now_ok" by blast
    define allowed where "allowed = (if now_ok then prefs else prefs\<lparr>np_channels := filter (\<lambda>c. c = JStr ''in_app'') (np_channels prefs)\<rparr>)"
    obtain c s1 where c: "select_channel env r allowed CHAIN s = (c, s1)" by fastforce
    have "case c of None \<Rightarrow> out = NNoChannel \<and> s' = s1 | Some a \<Rightarrow> out = NDelivered a \<and> s' = snd (record_channel env (on_rec r) a s1)"
      using assms m c by (auto simp: process_note_def allowed_def [symmetric] Let_def split: option.split)
    with m allowed_def c show ?thesis by (rule chosen)
  next
    case False
    have "s' = s \<and> \<not> (\<exists>a. out = NDelivered a)"
    proof (cases "\<exists>p. msg = Some (JObj p)")
      case True
      then obtain p where p: "msg = Some (JObj p)" by blast
      show ?thesis
      proof (cases "?parsed p")
        case (Inl e)
        then show ?thesis using assms p by (cases e) (auto simp: process_note_def)
      next
        case (Inr rp)
        then obtain r prefs where rp: "to_recommendation env p = Inr r" "to_prefs env p = Inr prefs" "rp = (r, prefs)"
          by (cases "to_recommendation env p"; cases "to_prefs env p") auto
        with False p obtain e where "should_deliver_now env (on_user r) (no_redis s) = Inl e"
          by (cases "should_deliver_now env (on_user r) (no_redis s)") auto
        then show ?thesis using assms p rp by (auto simp: process_note_def)
      qed
    next
      case False
      then show ?thesis using assms by (auto simp: process_note_def split: option.splits json.splits)
    qed
    then show ?thesis by (intro dropped) auto
  qed
qed

lemma deliver_frame [simp]:
  "no_db (snd (deliver env r prefs a s)) = no_db s" "no_redis (snd (deliver env r prefs a s)) = no_redis s"
  by (cases a; auto simp: deliver_defs sent_def lpush_def inbox_expire_def Let_def split: option.split sum.split prod.split)+

lemma select_frame [simp]:
  "no_db (snd (select_channel env r prefs chain s)) = no_db s \<and> no_redis (snd (select_channel env r prefs chain s)) = no_redis s"
proof (induction chain arbitrary: s)
  case (Cons a chain)
  obtain ok s1 where d: "deliver env r prefs a s = (ok, s1)" by fastforce
  have "no_db s1 = no_db s" "no_redis s1 = no_redis s" using deliver_frame [of env r prefs a s] d by simp_all
  with Cons.IH show ?case by (simp add: d split: option.split bool.split)
qed simp

lemma record_frame [simp]:
  "no_sent (snd (record_channel env rid a s)) = no_sent s" "no_inbox (snd (record_channel env rid a s)) = no_inbox s"
  by (simp_all add: record_channel_def Let_def split: option.split)

section \<open>Quiet hours\<close>

lemma select_in_app:
  assumes "np_channels prefs = filter (\<lambda>c. c = JStr ''in_app'') chs" "select_channel env r prefs chain s = (c, s1)"
  shows "no_sent s1 = no_sent s"
  using assms(2)
proof (induction chain arbitrary: s)
  case (Cons a chain)
  have only: "can_handle prefs a \<Longrightarrow> a = InApp" by (cases a) (auto simp: can_handle_def assms(1))
  obtain ok s2 where d: "deliver env r prefs a s = (ok, s2)" by fastforce
  have "can_handle prefs a \<Longrightarrow> no_sent s2 = no_sent s"
    using d only by (auto simp: deliver_defs lpush_def inbox_expire_def Let_def split: if_splits prod.splits option.splits)
  with Cons d show ?case by (auto split: if_splits option.splits bool.splits)
qed simp

text \<open>C34: Quiet hours are respected. Outside the hours the client is active in, a message is at most put
  into the client's inbox in the application: nothing is pushed, mailed or texted.\<close>

theorem quiet_hours_respected:
  assumes "process_note env (Some (JObj p)) s = (out, s')" "to_recommendation env p = Inr r"
    and "should_deliver_now env (on_user r) (no_redis s) = Inr False"
  shows "no_sent s' = no_sent s \<and> out \<in> {NBadPayload, NMissing, NNoChannel, NDelivered InApp}"
  using assms(1)
proof (cases rule: process_note_cases)
  case dropped
  have "out \<in> {NBadPayload, NMissing, NNoChannel}"
    using assms dropped
    by (cases "to_prefs env p") (auto simp: process_note_def Let_def split: note_error.splits prod.splits option.splits)
  with dropped show ?thesis by auto
next
  case (chosen p' r' prefs now_ok allowed c s1)
  then have a: "np_channels allowed = filter (\<lambda>c. c = JStr ''in_app'') (np_channels prefs)" using assms by simp
  have "c = Some a \<Longrightarrow> can_handle allowed a" for a
  proof -
    have "select_channel env r allowed chain s = (Some a, s1) \<Longrightarrow> can_handle allowed a" for chain s s1
      by (induction chain arbitrary: s) (auto split: if_splits option.splits bool.splits prod.splits)
    then show "c = Some a \<Longrightarrow> can_handle allowed a" using chosen assms by auto
  qed
  note able = this
  have "c \<in> {None, Some InApp}"
  proof (cases c)
    case (Some b)
    with able [of b] have "JStr (adapter_name b) = JStr ''in_app''" by (simp add: can_handle_def a)
    with Some show ?thesis by (cases b) auto
  qed simp
  then show ?thesis using select_in_app [OF a chosen(6)] chosen(7) by (auto split: option.splits)
qed

section \<open>One delivery\<close>

text \<open>How many notices are in the client's inbox.\<close>

definition inbox_size :: "time \<Rightarrow> string \<Rightarrow> nt_sys \<Rightarrow> nat" where
  "inbox_size now user s = length (fst (inbox_now now (no_inbox s (inbox_key user))))"

lemma deliver_effect:
  assumes "deliver env r prefs a s = (ok, s1)"
  shows "(if ok = Some True then
      (if a = InApp then no_sent s1 = no_sent s \<and> inbox_size (ne_now env) (np_user prefs) s1 = inbox_size (ne_now env) (np_user prefs) s + 1
       else no_sent s1 = no_sent s @ [(adapter_name a, r)] \<and> no_inbox s1 = no_inbox s)
    else no_sent s1 = no_sent s \<and> (a = InApp \<and> ne_lpush env \<and> \<not> ne_expire env \<and>
        inbox_size (ne_now env) (np_user prefs) s1 = inbox_size (ne_now env) (np_user prefs) s + 1 \<or> no_inbox s1 = no_inbox s))"
  using assms
  by (cases a) (auto simp: deliver_defs sent_def lpush_def inbox_expire_def inbox_size_def inbox_now_def second_us_def Let_def
      split: option.splits sum.splits if_splits prod.splits)

text \<open>What the client got between two states, when \<open>c\<close> is the channel that delivered.\<close>

definition reached :: "time \<Rightarrow> string \<Rightarrow> nt_sys \<Rightarrow> nt_sys \<Rightarrow> adapter option \<Rightarrow> bool" where
  "reached now user s s1 c =
    (case c of
       None \<Rightarrow> no_sent s1 = no_sent s \<and> no_inbox s1 = no_inbox s
     | Some a \<Rightarrow> if a = InApp then no_sent s1 = no_sent s \<and> inbox_size now user s1 = inbox_size now user s + 1
         else (\<exists>r. no_sent s1 = no_sent s @ [(adapter_name a, r)]) \<and> no_inbox s1 = no_inbox s)"

lemma reached_same: "no_sent s2 = no_sent s \<Longrightarrow> no_inbox s2 = no_inbox s \<Longrightarrow> reached now user s2 s1 c = reached now user s s1 c"
  by (cases c) (simp_all add: reached_def inbox_size_def)

lemma select_effect:
  assumes "select_channel env r prefs chain s = (c, s1)" "ne_lpush env \<longrightarrow> ne_expire env"
  shows "reached (ne_now env) (np_user prefs) s s1 c"
  using assms(1)
proof (induction chain arbitrary: s)
  case (Cons a chain)
  obtain ok s2 where d: "deliver env r prefs a s = (ok, s2)" by fastforce
  note eff = deliver_effect [OF d]
  show ?case
  proof (cases "can_handle prefs a \<and> ok = Some True")
    case True
    then have "c = Some a" "s1 = s2" using Cons.prems d by auto
    then show ?thesis using eff True by (simp add: reached_def split: if_splits)
  next
    case False
    show ?thesis
    proof (cases "can_handle prefs a")
      case True
      then have same: "no_sent s2 = no_sent s" "no_inbox s2 = no_inbox s"
        using eff False assms(2) by (auto split: if_splits)
      have "select_channel env r prefs chain s2 = (c, s1)"
        using Cons.prems d True False by (auto split: option.splits bool.splits)
      from Cons.IH [OF this] show ?thesis by (simp only: reached_same [OF same])
    next
      case no: False
      then have "select_channel env r prefs chain s = (c, s1)" using Cons.prems by simp
      from Cons.IH [OF this] show ?thesis .
    qed
  qed
qed (simp add: reached_def)

text \<open>A message is delivered once. If an entry in an inbox also gets its term, a message that is
  delivered reaches the client through exactly one channel, the one the outcome names, and a message that
  is not delivered reaches nobody.\<close>

theorem one_channel_delivers:
  assumes "process_note env (Some (JObj p)) s = (out, s')" "ne_lpush env \<longrightarrow> ne_expire env" "to_prefs env p = Inr prefs"
  shows "reached (ne_now env) (np_user prefs) s s' (case out of NDelivered a \<Rightarrow> Some a | _ \<Rightarrow> None)"
  using assms(1)
proof (cases rule: process_note_cases)
  case dropped
  then show ?thesis by (auto simp: reached_def split: note_outcome.split)
next
  case (chosen p' r prefs' now_ok allowed c s1)
  then have u: "np_user allowed = np_user prefs" using assms(3) by simp
  show ?thesis
    using select_effect [OF chosen(6) assms(2)] chosen(7)
    by (cases c) (auto simp: u reached_def inbox_size_def split: if_splits)
qed

section \<open>The channel of an offer\<close>

definition channel_moves :: "db \<Rightarrow> db \<Rightarrow> bool" where
  "channel_moves d d' = (list_all2 (\<lambda>r r'. r'\<lparr>re_channel := None\<rparr> = r\<lparr>re_channel := None\<rparr> \<and> (re_channel r \<noteq> None \<longrightarrow> r' = r))
     (recs d) (recs d'))"

lemma channel_moves_refl: "channel_moves d d"
  by (simp add: channel_moves_def list_all2_refl)

lemma channel_moves_trans:
  assumes "channel_moves d d1" "channel_moves d1 d2"
  shows "channel_moves d d2"
  using assms unfolding channel_moves_def by (rule list_all2_trans [rotated]) metis

lemma channel_moves_write: "channel_moves d (record_write u ch d)"
proof -
  have "list_all2 (\<lambda>r r'. r'\<lparr>re_channel := None\<rparr> = r\<lparr>re_channel := None\<rparr> \<and> (re_channel r \<noteq> None \<longrightarrow> r' = r)) rs
      (update_where (\<lambda>r. re_id r = u \<and> re_channel r = None) (\<lambda>r. r\<lparr>re_channel := Some ch\<rparr>) rs)" for rs
    by (induction rs) auto
  then show ?thesis by (simp add: channel_moves_def record_write_def)
qed

lemma process_channel:
  assumes "ne_world env = id"
  shows "channel_moves (no_db s) (no_db (snd (process_note env m s)))"
proof -
  obtain out s' where p: "process_note env m s = (out, s')" by fastforce
  then show ?thesis
  proof (cases rule: process_note_cases)
    case dropped
    then show ?thesis using p by (simp add: channel_moves_refl)
  next
    case (chosen p' r prefs now_ok allowed c s1)
    have same: "no_db s1 = no_db s" using select_frame [of env r allowed CHAIN s] chosen(6) by simp
    have "channel_moves (no_db s1) (no_db (snd (record_channel env rid a s1)))" for rid a
      using assms by (simp add: record_channel_def Let_def channel_moves_refl channel_moves_write split: option.split)
    then show ?thesis using p chosen(7) same by (auto simp: channel_moves_refl split: option.splits)
  qed
qed

text \<open>The channel of an offer is written once. Over any run of messages, redelivered ones and failures
  included, a channel that is recorded stays, and nothing else of an offer changes.\<close>

theorem channel_recorded_once:
  assumes "list_all (\<lambda>(env, _). ne_world env = id) msgs"
  shows "channel_moves (no_db s) (no_db (note_run msgs s))"
  using assms
proof (induction msgs arbitrary: s)
  case Nil
  then show ?case by (simp add: note_run_def channel_moves_refl)
next
  case (Cons m msgs)
  obtain env x where m: "m = (env, x)" by fastforce
  have "channel_moves (no_db s) (no_db (snd (process_note env x s)))" using Cons.prems m by (intro process_channel) (simp add: id_def)
  moreover have "channel_moves (no_db (snd (process_note env x s))) (no_db (note_run msgs (snd (process_note env x s))))"
    using Cons by simp
  ultimately show ?case by (simp add: m note_run_def) (rule channel_moves_trans)
qed

section \<open>The next window\<close>

lemma floor_hour_bounds: "floor_hour t \<le> t \<and> t < floor_hour t + hour_us"
proof -
  have "floor_hour t + t mod hour_us = t" by (simp add: floor_hour_def)
  moreover have "0 \<le> t mod hour_us" "t mod hour_us < hour_us" by (simp_all add: hour_us_def second_us_def)
  ultimately show ?thesis by linarith
qed

lemma next_window_bounds:
  assumes "next_window active now k n = Some t" "1 \<le> k"
  shows "now < t \<and> t \<le> now + int (k + n - 1) * hour_us \<and> hour_of t \<in> active \<and> t mod hour_us = 0"
  using assms
proof (induction active now k n rule: next_window.induct)
  case (2 active now k n)
  let ?c = "floor_hour (now + int k * hour_us)"
  have pos: "0 < hour_us" by (simp add: hour_us_def second_us_def)
  show ?case
  proof (cases "hour_of ?c \<in> active")
    case True
    then have t: "t = ?c" using 2 by (simp add: Let_def)
    have "int k * hour_us \<ge> hour_us" using 2(3) pos by simp
    moreover have "int k * hour_us \<le> int (k + Suc n - 1) * hour_us" using pos by (intro mult_right_mono) auto
    ultimately have "now < t \<and> t \<le> now + int (k + Suc n - 1) * hour_us"
      using floor_hour_bounds [of "now + int k * hour_us"] t by linarith
    moreover have "t mod hour_us = 0" by (simp add: t floor_hour_def)
    ultimately show ?thesis using True t by simp
  next
    case False
    then have "next_window active now (Suc k) n = Some t" using 2(2) by (simp add: Let_def)
    with 2(1) [OF refl False] show ?thesis by simp
  qed
qed simp

text \<open>A deferred notice is not late. \<open>next_send_time\<close> answers with now, or with the full hour of an
  active hour of the client within the budget of hours.\<close>

theorem deferral_within_budget:
  assumes "next_send_time env m user st = Inr t"
  shows "t = ne_now env \<or> ne_now env < t \<and> t \<le> ne_now env + max 1 m * hour_us \<and> t mod hour_us = 0 \<and>
    (\<exists>active. load_active_hours env user st = Inr active \<and> hour_of t \<in> active)"
proof (cases "t = ne_now env")
  case False
  with assms obtain a where a: "load_active_hours env user st = Inr a" "next_window a (ne_now env) 1 (nat (max 1 m)) = Some t"
    by (auto simp: next_send_time_def split: sum.splits if_splits option.splits)
  from next_window_bounds [OF a(2)] a(1) show ?thesis by (simp add: max_def split: if_splits)
qed simp

section \<open>Two defects\<close>

text \<open>An inbox entry whose term cannot be set is delivered again. When \<^verbatim>\<open>LPUSH\<close> succeeds and \<^verbatim>\<open>EXPIRE\<close>
  fails, the entry stays in the inbox (without a term) and the notice is also mailed.\<close>

theorem in_app_sent_twice:
  assumes "ne_lpush env" "\<not> ne_expire env" "ne_template env" "ne_disk env"
    and "can_handle prefs InApp" "\<not> can_handle prefs Push" "can_handle prefs Email"
    and "select_channel env r prefs CHAIN s = (c, s1)"
  shows "c = Some Email \<and> no_sent s1 = no_sent s @ [(''email'', r)] \<and>
    inbox_size (ne_now env) (np_user prefs) s1 = inbox_size (ne_now env) (np_user prefs) s + 1"
  using assms by (auto simp: CHAIN_def deliver_defs sent_def lpush_def inbox_size_def inbox_now_def Let_def split: option.split prod.splits if_splits)

text \<open>A histogram that is JSON but no object loses the notice. The reader falls back to the default hours
  for a missing or unreadable value only; any other JSON value makes it raise, and the message is dropped
  although every channel is up.\<close>

theorem foreign_histogram_drops_note:
  assumes "process_note env (Some (JObj p)) s = (out, s')" "to_recommendation env p = Inr r" "to_prefs env p = Inr prefs"
    and "ne_redis env" "kv_get (ne_now env) (no_redis s) (ost_key (on_user r)) = Some (VJson v)" "\<not> (\<exists>kvs. v = JObj kvs)"
  shows "out = NError (py_error ''AttributeError'') \<and> s' = s"
proof -
  have "should_deliver_now env (on_user r) (no_redis s) = Inl (py_error ''AttributeError'')"
    using assms(4-6) by (cases v) (auto simp: should_deliver_now_def load_active_hours_def active_of_def)
  then show ?thesis using assms(1-3) by (simp add: process_note_def)
qed

section \<open>Instances\<close>

definition sample_note :: "(string \<times> json) list" where
  "sample_note = [(''user_id'', JStr ''u''), (''recommendation_id'', JStr (uuid_text 2)),
     (''preferences'', JObj [(''email'', JStr ''e''), (''allowed_channels'', JArr [JStr ''email'', JStr ''in_app''])])]"

definition sample_offer_note :: offer_note where
  "sample_offer_note = \<lparr>on_user = ''u'', on_mcc = [], on_campaign = JNull, on_rec = JStr (uuid_text 2), on_rate = JNull,
     on_name = JStr ''Cashback offer''\<rparr>"

definition sample_note_prefs :: note_prefs where
  "sample_note_prefs = \<lparr>np_user = ''u'', np_channels = [JStr ''email'', JStr ''in_app''], np_email = JStr ''e'', np_phone = JNull, np_push = JNull\<rparr>"

definition sample_nt_env :: nt_env where
  "sample_nt_env = \<lparr>ne_now = 2 * hour_us, ne_repr = (\<lambda>_. []), ne_redis = True, ne_hours = {8..<22}, ne_push = None, ne_lpush = True, ne_expire = True,
     ne_template = True, ne_disk = True, ne_db = None, ne_applied = False, ne_world = id\<rparr>"

definition sample_nt :: nt_sys where
  "sample_nt = \<lparr>no_db = \<lparr>users = [], campaigns = [], categories = [], recs = [], consents = [], accruals = []\<rparr>,
     no_redis = Map.empty, no_inbox = (\<lambda>_. None), no_sent = []\<rparr>"

lemma sample_parsed [simp]:
  "to_recommendation sample_nt_env sample_note = Inr sample_offer_note" "to_prefs sample_nt_env sample_note = Inr sample_note_prefs"
  by (simp_all add: sample_note_def to_recommendation_def to_prefs_def note_text_def get_default_def jget_def members_def
      sample_offer_note_def sample_note_prefs_def Let_def)

lemma sample_quiet: "should_deliver_now sample_nt_env ''u'' (no_redis sample_nt) = Inr False"
  by (simp add: should_deliver_now_def load_active_hours_def sample_nt_env_def sample_nt_def active_of_def kv_get_def
      hour_of_def hour_us_def second_us_def)

lemma sample_processed: "\<exists>s'. process_note sample_nt_env (Some (JObj sample_note)) sample_nt = (NDelivered InApp, s')"
proof -
  have "on_user sample_offer_note = ''u''" by (simp add: sample_offer_note_def)
  then have q: "should_deliver_now sample_nt_env (on_user sample_offer_note) (no_redis sample_nt) = Inr False"
    using sample_quiet by simp
  have env: "ne_lpush sample_nt_env" "ne_expire sample_nt_env" by (simp_all add: sample_nt_env_def)
  show ?thesis
    by (simp add: process_note_def q CHAIN_def can_handle_def sample_note_prefs_def deliver_in_app_def env Let_def)
qed

theorem quiet_hours_respected_witness:
  "no_sent (snd (process_note sample_nt_env (Some (JObj sample_note)) sample_nt)) = []"
proof -
  obtain s' where s': "process_note sample_nt_env (Some (JObj sample_note)) sample_nt = (NDelivered InApp, s')"
    using sample_processed by blast
  have "on_user sample_offer_note = ''u''" by (simp add: sample_offer_note_def)
  then have "no_sent s' = no_sent sample_nt" using quiet_hours_respected [OF s' sample_parsed(1)] sample_quiet by simp
  moreover have "no_sent sample_nt = []" by (simp add: sample_nt_def)
  ultimately show ?thesis by (simp add: s')
qed

theorem one_channel_delivers_witness:
  "inbox_size (ne_now sample_nt_env) ''u'' (snd (process_note sample_nt_env (Some (JObj sample_note)) sample_nt)) = 1"
proof -
  obtain s' where s': "process_note sample_nt_env (Some (JObj sample_note)) sample_nt = (NDelivered InApp, s')"
    using sample_processed by blast
  have "inbox_size (ne_now sample_nt_env) ''u'' sample_nt = 0" by (simp add: inbox_size_def inbox_now_def sample_nt_def)
  moreover have "np_user sample_note_prefs = ''u''" "ne_expire sample_nt_env" by (simp_all add: sample_note_prefs_def sample_nt_env_def)
  ultimately show ?thesis using one_channel_delivers [OF s' _ sample_parsed(2)] by (simp add: s' reached_def)
qed

theorem channel_recorded_once_witness:
  "channel_moves (no_db sample_nt) (no_db (note_run [(sample_nt_env, Some (JObj sample_note)), (sample_nt_env, None)] sample_nt))"
  by (rule channel_recorded_once) (simp add: sample_nt_env_def)

theorem deferral_within_budget_witness:
  "\<exists>t. next_send_time sample_nt_env 18 ''u'' (no_redis sample_nt) = Inr t \<and> t \<le> 20 * hour_us"
proof -
  have a: "load_active_hours sample_nt_env ''u'' (no_redis sample_nt) = Inr {8..<22}"
    by (simp add: load_active_hours_def sample_nt_env_def sample_nt_def active_of_def kv_get_def)
  then have "\<exists>t. next_send_time sample_nt_env 18 ''u'' (no_redis sample_nt) = Inr t"
    by (simp add: next_send_time_def split: option.split)
  then obtain t where t: "next_send_time sample_nt_env 18 ''u'' (no_redis sample_nt) = Inr t" by blast
  from deferral_within_budget [OF t] have "t \<le> 20 * hour_us" by (auto simp: sample_nt_env_def hour_us_def second_us_def)
  with t show ?thesis by blast
qed

theorem in_app_sent_twice_witness:
  "fst (select_channel (sample_nt_env\<lparr>ne_expire := False\<rparr>) sample_offer_note sample_note_prefs CHAIN sample_nt) = Some Email"
proof -
  have "can_handle sample_note_prefs InApp" "\<not> can_handle sample_note_prefs Push" "can_handle sample_note_prefs Email"
    by (simp_all add: can_handle_def sample_note_prefs_def)
  with in_app_sent_twice [of "sample_nt_env\<lparr>ne_expire := False\<rparr>" sample_note_prefs] show ?thesis
    by (simp add: sample_nt_env_def split_paired_all) (metis prod.collapse)
qed

theorem foreign_histogram_drops_note_witness:
  "fst (process_note sample_nt_env (Some (JObj sample_note)) (sample_nt\<lparr>no_redis := [ost_key ''u'' \<mapsto> (VJson (JArr []), None)]\<rparr>)) =
    NError (py_error ''AttributeError'')"
proof -
  let ?s = "sample_nt\<lparr>no_redis := [ost_key ''u'' \<mapsto> (VJson (JArr []), None)]\<rparr>"
  obtain out s' where p: "process_note sample_nt_env (Some (JObj sample_note)) ?s = (out, s')" by fastforce
  have "ne_redis sample_nt_env" by (simp add: sample_nt_env_def)
  moreover have "kv_get (ne_now sample_nt_env) (no_redis ?s) (ost_key (on_user sample_offer_note)) = Some (VJson (JArr []))"
    by (simp add: kv_get_def sample_offer_note_def)
  ultimately show ?thesis using foreign_histogram_drops_note [OF p sample_parsed] p by simp
qed

end
