(* ===== verification/EtlConsumer.thy ===== *)
theory EtlConsumer
  imports AvroDecode "HOL-Library.AList"
begin

text \<open>
  The extract step of the ETL (\<^verbatim>\<open>services/etl/app/kafka_consumer.py\<close>): polled messages are decoded, staged
  as Parquet files or set aside as dead letters, and described by a manifest whose offsets are
  committed later. The broker's answers, the decoder at each message, the clock behind a file's name,
  \<^verbatim>\<open>strftime\<close>, pandas' \<^verbatim>\<open>astype(str)\<close> and the failures of writes are parameters. All messages are of the
  one topic the consumer subscribes to. Texts of errors are left out of the dead letters.
\<close>

section \<open>Messages, files and state\<close>

type_synonym row = "(string \<times> json) list"

record kmsg =
  km_part :: int
  km_offset :: int
  km_ts :: "int option"
  km_key :: "nat list option"
  km_value :: msg_value

record dead_letter =
  dl_topic :: string
  dl_part :: int
  dl_offset :: int
  dl_ts :: "int option"
  dl_key :: "nat list option"
  dl_value :: msg_value

datatype staged_file =
    Parquet "row list"
  | DeadLetters "dead_letter list"
  | ManifestText json

type_synonym files = "string \<Rightarrow> staged_file option"

record extract_env =
  xe_topic :: string
  xe_group :: string
  xe_base :: string
  xe_poll :: "nat \<Rightarrow> exn + (int \<times> kmsg list) list"
  xe_decoder :: "nat \<Rightarrow> nat \<Rightarrow> decoder"
  xe_clock :: "nat \<Rightarrow> time"
  xe_day :: "time \<Rightarrow> string"
  xe_stamp :: "time \<Rightarrow> string"
  xe_astype :: "json option \<Rightarrow> string"
  xe_write :: "nat \<Rightarrow> exn option"

record extract_consumer =
  es_next :: "(int \<times> int) list"
  es_last_polled :: nat
  es_dead_count :: nat
  es_dead_paths :: "string list"
  es_files :: files
  es_poll :: nat
  es_write :: nat

definition BATCH_SIZE :: nat where
  "BATCH_SIZE = 5000"

section \<open>Staging\<close>

definition out_path :: "extract_env \<Rightarrow> nat \<Rightarrow> string \<Rightarrow> string \<Rightarrow> string" where
  "out_path env n prefix suffix = (let now = xe_clock env n in
     xe_base env @ ''/dt='' @ xe_day env now @ ''/'' @ prefix @ ''_'' @ xe_stamp env now @ suffix)"

definition put_file :: "extract_env \<Rightarrow> string \<Rightarrow> string \<Rightarrow> staged_file \<Rightarrow> extract_consumer \<Rightarrow> (exn + string) \<times> extract_consumer" where
  "put_file env prefix suffix content s =
    (let n = es_write s; path = out_path env n prefix suffix; s1 = s\<lparr>es_write := Suc n\<rparr> in
     case xe_write env n of
       Some e \<Rightarrow> (Inl e, s1)
     | None \<Rightarrow> (Inr path, s1\<lparr>es_files := (es_files s1)(path \<mapsto> content)\<rparr>))"

text \<open>\<^verbatim>\<open>df["amount"] = df["amount"].astype(str)\<close>: a column of the frame when any record has it.\<close>

definition amount_text :: "extract_env \<Rightarrow> row \<Rightarrow> row" where
  "amount_text env r = AList.update ''amount'' (JStr (xe_astype env (members r ''amount''))) r"

definition frame_rows :: "extract_env \<Rightarrow> row list \<Rightarrow> row list" where
  "frame_rows env rs =
    (if list_ex (\<lambda>r. members r ''amount'' \<noteq> None) rs then map (amount_text env) rs else rs)"

definition write_batch :: "extract_env \<Rightarrow> row list \<Rightarrow> extract_consumer \<Rightarrow> (exn + string) \<times> extract_consumer" where
  "write_batch env rs s =
    (if rs = [] then (Inl (py_error ''ValueError''), s)
     else put_file env ''batch'' ''.parquet'' (Parquet (frame_rows env rs)) s)"

definition write_dead_letters ::
  "extract_env \<Rightarrow> dead_letter list \<Rightarrow> extract_consumer \<Rightarrow> (exn + string) \<times> extract_consumer" where
  "write_dead_letters env ds s =
    (if ds = [] then (Inl (py_error ''ValueError''), s)
     else put_file env ''dead_letter'' ''.jsonl'' (DeadLetters ds) s)"

section \<open>Decoding what was polled\<close>

definition advance :: "kmsg \<Rightarrow> (int \<times> int) list \<Rightarrow> (int \<times> int) list" where
  "advance m ns = AList.update (km_part m)
     (max (case map_of ns (km_part m) of None \<Rightarrow> 0 | Some o' \<Rightarrow> o') (km_offset m + 1)) ns"

definition advanced :: "kmsg \<Rightarrow> extract_consumer \<Rightarrow> extract_consumer" where
  "advanced m s = s\<lparr>es_next := advance m (es_next s)\<rparr>"

definition dead_letter_of :: "extract_env \<Rightarrow> kmsg \<Rightarrow> dead_letter" where
  "dead_letter_of env m = \<lparr>dl_topic = xe_topic env, dl_part = km_part m, dl_offset = km_offset m,
     dl_ts = km_ts m, dl_key = km_key m, dl_value = km_value m\<rparr>"

definition counted_dead :: "extract_consumer \<Rightarrow> extract_consumer" where
  "counted_dead s = s\<lparr>es_dead_count := Suc (es_dead_count s)\<rparr>"

text \<open>\<open>i\<close> numbers the poll, \<open>j\<close> the message in it: the registry may answer differently each time.\<close>

fun decode_all :: "extract_env \<Rightarrow> nat \<Rightarrow> nat \<Rightarrow> kmsg list \<Rightarrow> extract_consumer \<Rightarrow>
    (exn + row list \<times> dead_letter list) \<times> extract_consumer" where
  "decode_all env i j [] s = (Inr ([], []), s)"
| "decode_all env i j (m # ms) s =
    (case etl_decode (xe_decoder env i j) (km_value m) of
       Transient e \<Rightarrow> (Inl e, s)
     | Record r \<Rightarrow>
         (case decode_all env i (Suc j) ms (advanced m s) of
            (Inl e, s1) \<Rightarrow> (Inl e, s1)
          | (Inr (rs, ds), s1) \<Rightarrow> (Inr (r # rs, ds), s1))
     | Undecodable \<Rightarrow>
         (case decode_all env i (Suc j) ms (advanced m (counted_dead s)) of
            (Inl e, s1) \<Rightarrow> (Inl e, s1)
          | (Inr (rs, ds), s1) \<Rightarrow> (Inr (rs, dead_letter_of env m # ds), s1)))"

definition poll_once :: "extract_env \<Rightarrow> extract_consumer \<Rightarrow> (exn + kmsg list) \<times> extract_consumer" where
  "poll_once env s = (map_sum id (\<lambda>r. concat (map snd r)) (xe_poll env (es_poll s)),
     s\<lparr>es_poll := Suc (es_poll s)\<rparr>)"

text \<open>One turn of the loop of \<^verbatim>\<open>consume_batch\<close>: a poll and the decoding of what it brought.
  \<open>None\<close> where nothing was polled.\<close>

definition poll_turn :: "extract_env \<Rightarrow> extract_consumer \<Rightarrow>
    (exn + (nat \<times> row list \<times> dead_letter list) option) \<times> extract_consumer" where
  "poll_turn env s = (case poll_once env s of
     (Inl e, s1) \<Rightarrow> (Inl e, s1)
   | (Inr ms, s1) \<Rightarrow>
       if ms = [] then (Inr None, s1)
       else (case decode_all env (es_poll s) 0 ms (s1\<lparr>es_last_polled := es_last_polled s1 + length ms\<rparr>) of
         (Inl e, s2) \<Rightarrow> (Inl e, s2)
       | (Inr (rs, ds), s2) \<Rightarrow> (Inr (Some (length ms, rs, ds)), s2)))"

partial_function (option) consume_loop ::
  "extract_env \<Rightarrow> row list \<Rightarrow> dead_letter list \<Rightarrow> extract_consumer \<Rightarrow>
    ((exn + row list \<times> dead_letter list) \<times> extract_consumer) option" where
  "consume_loop env rs ds s =
    (if BATCH_SIZE \<le> length rs then Some (Inr (rs, ds), s)
     else (case poll_turn env s of
       (Inl e, s1) \<Rightarrow> Some (Inl e, s1)
     | (Inr None, s1) \<Rightarrow> Some (Inr (rs, ds), s1)
     | (Inr (Some (n, rs', ds')), s1) \<Rightarrow>
         if n < BATCH_SIZE then Some (Inr (rs @ rs', ds @ ds'), s1)
         else consume_loop env (rs @ rs') (ds @ ds') s1))"

definition stage_dead :: "extract_env \<Rightarrow> dead_letter list \<Rightarrow> extract_consumer \<Rightarrow> (exn + unit) \<times> extract_consumer" where
  "stage_dead env ds s =
    (if ds = [] then (Inr (), s)
     else (case write_dead_letters env ds s of
       (Inl e, s1) \<Rightarrow> (Inl e, s1)
     | (Inr p, s1) \<Rightarrow> (Inr (), s1\<lparr>es_dead_paths := es_dead_paths s1 @ [p]\<rparr>)))"

definition stage_records ::
  "extract_env \<Rightarrow> row list \<Rightarrow> extract_consumer \<Rightarrow> (exn + nat \<times> string option) \<times> extract_consumer" where
  "stage_records env rs s =
    (if rs = [] then (Inr (0, None), s)
     else (case write_batch env rs s of
       (Inl e, s1) \<Rightarrow> (Inl e, s1)
     | (Inr p, s1) \<Rightarrow> (Inr (length rs, Some p), s1)))"

definition consume_batch ::
  "extract_env \<Rightarrow> extract_consumer \<Rightarrow> ((exn + nat \<times> string option) \<times> extract_consumer) option" where
  "consume_batch env s = (case consume_loop env [] [] (s\<lparr>es_last_polled := 0\<rparr>) of
     None \<Rightarrow> None
   | Some (Inl e, s1) \<Rightarrow> Some (Inl e, s1)
   | Some (Inr (rs, ds), s1) \<Rightarrow>
       (case stage_dead env ds s1 of
          (Inl e, s2) \<Rightarrow> Some (Inl e, s2)
        | (Inr _, s2) \<Rightarrow> Some (stage_records env rs s2)))"

section \<open>The manifest\<close>

record manifest =
  mf_topic :: string
  mf_group :: string
  mf_offsets :: "(int \<times> int) list"
  mf_files :: "string list"
  mf_records :: nat
  mf_dead_files :: "string list"
  mf_dead_count :: nat

partial_function (option) drain_loop ::
  "extract_env \<Rightarrow> nat \<Rightarrow> nat \<Rightarrow> string list \<Rightarrow> nat \<Rightarrow> nat \<Rightarrow> extract_consumer \<Rightarrow>
    ((exn + string list \<times> nat) \<times> extract_consumer) option" where
  "drain_loop env max_batches max_empty fs records empties s =
    (if empties < max_empty \<and> length fs < max_batches
     then (case consume_batch env s of
         None \<Rightarrow> None
       | Some (Inl e, s1) \<Rightarrow> Some (Inl e, s1)
       | Some (Inr (n, p), s1) \<Rightarrow>
           if es_last_polled s1 = 0
           then drain_loop env max_batches max_empty fs records (Suc empties) s1
           else (case p of
               None \<Rightarrow> drain_loop env max_batches max_empty fs records 0 s1
             | Some f \<Rightarrow> drain_loop env max_batches max_empty (fs @ [f]) (records + n) 0 s1))
     else Some (Inr (fs, records), s))"

definition manifest_of :: "extract_env \<Rightarrow> string list \<Rightarrow> nat \<Rightarrow> extract_consumer \<Rightarrow> manifest" where
  "manifest_of env fs records s = \<lparr>mf_topic = xe_topic env, mf_group = xe_group env,
     mf_offsets = es_next s, mf_files = fs, mf_records = records,
     mf_dead_files = es_dead_paths s, mf_dead_count = es_dead_count s\<rparr>"

definition drain :: "extract_env \<Rightarrow> nat \<Rightarrow> nat \<Rightarrow> extract_consumer \<Rightarrow> ((exn + manifest) \<times> extract_consumer) option" where
  "drain env max_batches max_empty s = (case drain_loop env max_batches max_empty [] 0 0 s of
     None \<Rightarrow> None
   | Some (Inl e, s1) \<Rightarrow> Some (Inl e, s1)
   | Some (Inr (fs, records), s1) \<Rightarrow> Some (Inr (manifest_of env fs records s1), s1))"

text \<open>A consumer as the task makes it, on the files already staged.\<close>

definition new_consumer :: "files \<Rightarrow> extract_consumer" where
  "new_consumer fs = \<lparr>es_next = [], es_last_polled = 0, es_dead_count = 0, es_dead_paths = [],
     es_files = fs, es_poll = 0, es_write = 0\<rparr>"

text \<open>\<^verbatim>\<open>int(text)\<close>: spaces around, a sign, digits with single underscores between them.\<close>

fun dec_digits :: "bool \<Rightarrow> nat \<Rightarrow> string \<Rightarrow> nat option" where
  "dec_digits u acc [] = (if u then None else Some acc)"
| "dec_digits u acc (c # cs) =
    (if c = CHR ''_'' then (if u then None else dec_digits True acc cs)
     else if is_digit c then dec_digits False (10 * acc + digit_value c) cs else None)"

definition py_int :: "string \<Rightarrow> int option" where
  "py_int s = (case split_sign (strip_by int_space s) of (neg, t) \<Rightarrow>
     map_option (\<lambda>n. if neg then - int n else int n) (dec_digits True 0 t))"

text \<open>\<^verbatim>\<open>int(value)\<close> of a JSON value; a float is cut off at its point.\<close>

fun json_int :: "json \<Rightarrow> exn + int" where
  "json_int (JInt i) = Inr i"
| "json_int (JBool b) = Inr (if b then 1 else 0)"
| "json_int (JFloat r) = Inr (if 0 \<le> r then \<lfloor>r\<rfloor> else - \<lfloor>- r\<rfloor>)"
| "json_int (JStr s) = (case py_int s of None \<Rightarrow> Inl (py_error ''ValueError'') | Some i \<Rightarrow> Inr i)"
| "json_int _ = Inl (py_error ''TypeError'')"

text \<open>\<^verbatim>\<open>to_json\<close> and \<^verbatim>\<open>read\<close>, on the value \<^verbatim>\<open>json.dumps\<close> writes and \<^verbatim>\<open>json.loads\<close> reads back.\<close>

definition manifest_json :: "manifest \<Rightarrow> json" where
  "manifest_json mf = JObj
    [(''topic'', JStr (mf_topic mf)), (''group_id'', JStr (mf_group mf)),
     (''offsets'', JObj (map (\<lambda>(p, n). (int_text p, JInt n)) (sort_key fst (mf_offsets mf)))),
     (''files'', JArr (map JStr (mf_files mf))), (''records'', JInt (int (mf_records mf))),
     (''dead_letter_files'', JArr (map JStr (mf_dead_files mf))),
     (''dead_letter_count'', JInt (int (mf_dead_count mf)))]"

fun read_offsets :: "(string \<times> json) list \<Rightarrow> (int \<times> int) list \<Rightarrow> exn + (int \<times> int) list" where
  "read_offsets [] acc = Inr acc"
| "read_offsets ((k, v) # kvs) acc = (case py_int k of
     None \<Rightarrow> Inl (py_error ''ValueError'')
   | Some p \<Rightarrow> (case json_int v of
       Inl e \<Rightarrow> Inl e
     | Inr n \<Rightarrow> read_offsets kvs (AList.update p n acc)))"

definition manifest_fields :: "string list" where
  "manifest_fields = [''topic'', ''group_id'', ''offsets'', ''files'', ''records'',
     ''dead_letter_files'', ''dead_letter_count'']"

fun str_list :: "json \<Rightarrow> string list option" where
  "str_list (JArr []) = Some []"
| "str_list (JArr (JStr s # vs)) = map_option ((#) s) (str_list (JArr vs))"
| "str_list _ = None"

text \<open>\<^verbatim>\<open>cls(**data)\<close>: an unknown or a missing required field is a \<^verbatim>\<open>TypeError\<close>. The dataclass does not
  check the types of the other values; here a value of another type is a \<^verbatim>\<open>TypeError\<close> as well,
  where the code would fail at its first use.\<close>

definition manifest_of_fields :: "(string \<times> json) list \<Rightarrow> (int \<times> int) list \<Rightarrow> exn + manifest" where
  "manifest_of_fields kvs offsets =
    (let field = (\<lambda>k d. case members kvs k of None \<Rightarrow> d | Some v \<Rightarrow> v) in
     if \<not> set (map fst kvs) \<subseteq> set manifest_fields then Inl (py_error ''TypeError'')
     else case (field ''topic'' JNull, field ''group_id'' JNull, str_list (field ''files'' (JArr [])),
         field ''records'' (JInt 0), str_list (field ''dead_letter_files'' (JArr [])),
         field ''dead_letter_count'' (JInt 0)) of
       (JStr t, JStr g, Some fs, JInt n, Some dfs, JInt d) \<Rightarrow>
         Inr \<lparr>mf_topic = t, mf_group = g, mf_offsets = offsets, mf_files = fs, mf_records = nat n,
           mf_dead_files = dfs, mf_dead_count = nat d\<rparr>
     | _ \<Rightarrow> Inl (py_error ''TypeError''))"

definition read_manifest :: "json \<Rightarrow> exn + manifest" where
  "read_manifest v = (case v of
     JObj kvs \<Rightarrow> (case members kvs ''offsets'' of
         None \<Rightarrow> Inl (py_error ''KeyError'')
       | Some (JObj ps) \<Rightarrow> (case read_offsets ps [] of
             Inl e \<Rightarrow> Inl e
           | Inr offsets \<Rightarrow> manifest_of_fields kvs offsets)
       | Some _ \<Rightarrow> Inl (py_error ''AttributeError''))
   | _ \<Rightarrow> Inl (py_error ''TypeError''))"

definition write_manifest :: "extract_env \<Rightarrow> manifest \<Rightarrow> extract_consumer \<Rightarrow> (exn + string) \<times> extract_consumer" where
  "write_manifest env mf s = put_file env ''manifest'' ''.json'' (ManifestText (manifest_json mf)) s"

section \<open>Committing a manifest\<close>

text \<open>The offsets the broker keeps for the group on the topic, and what can fail: joining, the lookup
  of one partition, the commit, which may have been applied all the same.\<close>

type_synonym group_offsets = "int \<rightharpoonup> int"

record commit_env =
  xc_start :: "exn option"
  xc_lookup :: "int \<Rightarrow> exn option"
  xc_commit :: "exn option"
  xc_applied :: bool

fun to_commit :: "commit_env \<Rightarrow> group_offsets \<Rightarrow> (int \<times> int) list \<Rightarrow> exn + (int \<times> int) list" where
  "to_commit env g [] = Inr []"
| "to_commit env g ((p, n) # wanted) = (case xc_lookup env p of
     Some e \<Rightarrow> Inl e
   | None \<Rightarrow> (case to_commit env g wanted of
       Inl e \<Rightarrow> Inl e
     | Inr rest \<Rightarrow> Inr (case g p of
           None \<Rightarrow> (p, n) # rest
         | Some current \<Rightarrow> if n \<le> current then rest else (p, n) # rest)))"

definition committed_map :: "group_offsets \<Rightarrow> (int \<times> int) list \<Rightarrow> group_offsets" where
  "committed_map g ps = g ++ map_of ps"

definition commit_offsets :: "commit_env \<Rightarrow> manifest \<Rightarrow> group_offsets \<Rightarrow>
    (exn + (int \<times> int) list) \<times> group_offsets" where
  "commit_offsets env mf g =
    (if mf_offsets mf = [] then (Inr [], g)
     else case xc_start env of
       Some e \<Rightarrow> (Inl e, g)
     | None \<Rightarrow> (case to_commit env g (mf_offsets mf) of
         Inl e \<Rightarrow> (Inl e, g)
       | Inr [] \<Rightarrow> (Inr [], g)
       | Inr ps \<Rightarrow> (case xc_commit env of
           Some e \<Rightarrow> (Inl e, if xc_applied env then committed_map g ps else g)
         | None \<Rightarrow> (Inr ps, committed_map g ps))))"

section \<open>What was polled\<close>

text \<open>The messages of the polls \<open>a..<b\<close> with what the decoder made of each.\<close>

fun outcomes :: "extract_env \<Rightarrow> nat \<Rightarrow> nat \<Rightarrow> kmsg list \<Rightarrow> (kmsg \<times> decoded) list" where
  "outcomes env i j [] = []"
| "outcomes env i j (m # ms) =
    (m, etl_decode (xe_decoder env i j) (km_value m)) # outcomes env i (Suc j) ms"

definition polled :: "extract_env \<Rightarrow> nat \<Rightarrow> (kmsg \<times> decoded) list" where
  "polled env i = (case xe_poll env i of Inl _ \<Rightarrow> []
     | Inr r \<Rightarrow> outcomes env i 0 (concat (map snd r)))"

definition polled_in :: "extract_env \<Rightarrow> nat \<Rightarrow> nat \<Rightarrow> (kmsg \<times> decoded) list" where
  "polled_in env a b = concat (map (polled env) [a..<b])"

fun record_of :: "kmsg \<times> decoded \<Rightarrow> row list" where
  "record_of (m, Record r) = [r]"
| "record_of (m, _) = []"

fun dead_of :: "extract_env \<Rightarrow> kmsg \<times> decoded \<Rightarrow> dead_letter list" where
  "dead_of env (m, Undecodable) = [dead_letter_of env m]"
| "dead_of env (m, _) = []"

abbreviation records_of :: "(kmsg \<times> decoded) list \<Rightarrow> row list" where
  "records_of xs \<equiv> concat (map record_of xs)"

abbreviation deads_of :: "extract_env \<Rightarrow> (kmsg \<times> decoded) list \<Rightarrow> dead_letter list" where
  "deads_of env xs \<equiv> concat (map (dead_of env) xs)"

definition no_transient :: "(kmsg \<times> decoded) list \<Rightarrow> bool" where
  "no_transient xs = (\<forall>x \<in> set xs. \<forall>e. snd x \<noteq> Transient e)"

definition next_of :: "(kmsg \<times> decoded) list \<Rightarrow> (int \<times> int) list \<Rightarrow> (int \<times> int) list" where
  "next_of xs = fold advance (map fst xs)"

lemma map_fst_outcomes [simp]: "map fst (outcomes env i j ms) = ms"
  by (induction ms arbitrary: j) auto

lemma length_outcomes [simp]: "length (outcomes env i j ms) = length ms"
  by (induction ms arbitrary: j) auto

lemma polled_in_self [simp]: "polled_in env a a = []"
  by (simp add: polled_in_def)

lemma polled_in_Suc: "a \<le> b \<Longrightarrow> polled_in env a (Suc b) = polled_in env a b @ polled env b"
  by (simp add: polled_in_def)

lemma polled_in_one [simp]: "polled_in env a (Suc a) = polled env a"
  by (simp add: polled_in_def)

lemma polled_in_append: "a \<le> b \<Longrightarrow> b \<le> c \<Longrightarrow> polled_in env a c = polled_in env a b @ polled_in env b c"
  using upt_add_eq_append [of a b "c - b"] by (simp add: polled_in_def)

lemma no_transient_append [simp]: "no_transient (xs @ ys) \<longleftrightarrow> no_transient xs \<and> no_transient ys"
  by (auto simp: no_transient_def)

lemma no_transient_Nil [simp]: "no_transient []"
  by (simp add: no_transient_def)

lemma no_transient_Cons [simp]:
  "no_transient (x # xs) \<longleftrightarrow> (\<forall>e. snd x \<noteq> Transient e) \<and> no_transient xs"
  by (simp add: no_transient_def)

lemma next_of_append: "next_of (xs @ ys) ns = next_of ys (next_of xs ns)"
  by (simp add: next_of_def)

lemma next_of_Nil [simp]: "next_of [] ns = ns"
  by (simp add: next_of_def)

section \<open>One batch\<close>

text \<open>From \<open>s\<close> to \<open>s'\<close> exactly the polls in between were taken: their records and dead letters are
  \<open>rs\<close> and \<open>ds\<close>, and nothing was written.\<close>

definition took :: "extract_env \<Rightarrow> extract_consumer \<Rightarrow> extract_consumer \<Rightarrow> row list \<Rightarrow> dead_letter list \<Rightarrow> bool" where
  "took env s s' rs ds = (\<exists>n xs. es_poll s \<le> n \<and> xs = polled_in env (es_poll s) n \<and>
     rs = records_of xs \<and> ds = deads_of env xs \<and> no_transient xs \<and>
     s' = s\<lparr>es_poll := n, es_next := next_of xs (es_next s),
       es_dead_count := es_dead_count s + length ds, es_last_polled := es_last_polled s + length xs\<rparr>)"

lemma tookI:
  "es_poll s \<le> n \<Longrightarrow> xs = polled_in env (es_poll s) n \<Longrightarrow> rs = records_of xs \<Longrightarrow> ds = deads_of env xs \<Longrightarrow>
   no_transient xs \<Longrightarrow> s' = s\<lparr>es_poll := n, es_next := next_of xs (es_next s),
     es_dead_count := es_dead_count s + length ds, es_last_polled := es_last_polled s + length xs\<rparr> \<Longrightarrow>
   took env s s' rs ds"
  unfolding took_def by blast

lemma took_refl: "took env s s [] []"
  by (rule tookI [where n = "es_poll s" and xs = "[]"]) simp_all

lemma took_trans:
  assumes "took env s s1 rs ds" "took env s1 s2 rs' ds'"
  shows "took env s s2 (rs @ rs') (ds @ ds')"
proof -
  obtain n xs where 1: "es_poll s \<le> n" "xs = polled_in env (es_poll s) n" "rs = records_of xs"
    "ds = deads_of env xs" "no_transient xs"
    and s1: "s1 = s\<lparr>es_poll := n, es_next := next_of xs (es_next s),
       es_dead_count := es_dead_count s + length ds, es_last_polled := es_last_polled s + length xs\<rparr>"
    using assms(1) unfolding took_def by blast
  obtain k ys where 2: "n \<le> k" "ys = polled_in env n k" "rs' = records_of ys"
    "ds' = deads_of env ys" "no_transient ys"
    and s2: "s2 = s1\<lparr>es_poll := k, es_next := next_of ys (es_next s1),
       es_dead_count := es_dead_count s1 + length ds', es_last_polled := es_last_polled s1 + length ys\<rparr>"
    using assms(2) unfolding took_def by (auto simp: s1)
  show ?thesis
    by (rule tookI [where n = k and xs = "xs @ ys"])
      (use 1 2 in \<open>simp_all add: s1 s2 next_of_append polled_in_append [of "es_poll s" n k]\<close>)
qed

lemma decode_all_ok:
  "decode_all env i j ms s = (Inr (rs, ds), s') \<Longrightarrow>
   rs = records_of (outcomes env i j ms) \<and> ds = deads_of env (outcomes env i j ms) \<and>
   no_transient (outcomes env i j ms) \<and>
   s' = s\<lparr>es_next := fold advance ms (es_next s), es_dead_count := es_dead_count s + length ds\<rparr>"
proof (induction ms arbitrary: j s rs ds)
  case Nil
  then show ?case by simp
next
  case (Cons m ms)
  show ?case
  proof (cases "etl_decode (xe_decoder env i j) (km_value m)")
    case (Record r)
    with Cons.prems obtain rs1 where "decode_all env i (Suc j) ms (advanced m s) = (Inr (rs1, ds), s')"
      "rs = r # rs1" by (auto split: prod.splits sum.splits)
    with Cons.IH [OF this(1)] Record show ?thesis by (simp add: advanced_def)
  next
    case Undecodable
    with Cons.prems obtain ds1 where
      "decode_all env i (Suc j) ms (advanced m (counted_dead s)) = (Inr (rs, ds1), s')"
      "ds = dead_letter_of env m # ds1" by (auto split: prod.splits sum.splits)
    with Cons.IH [OF this(1)] Undecodable show ?thesis by (simp add: advanced_def counted_dead_def)
  next
    case (Transient e)
    with Cons.prems show ?thesis by simp
  qed
qed

lemma poll_turn_none:
  assumes "poll_turn env s = (Inr None, s')"
  shows "took env s s' [] [] \<and> es_poll s' = Suc (es_poll s)"
proof -
  obtain r where r: "xe_poll env (es_poll s) = Inr r" and "concat (map snd r) = []"
    and s': "s' = s\<lparr>es_poll := Suc (es_poll s)\<rparr>"
    using assms by (cases "xe_poll env (es_poll s)")
      (auto simp: poll_turn_def poll_once_def simp del: concat_eq_Nil_conv split: prod.splits sum.splits if_splits)
  then have "polled env (es_poll s) = []" by (simp only: polled_def sum.case outcomes.simps)
  with s' show ?thesis by (auto intro!: tookI [where n = "Suc (es_poll s)"])
qed

lemma poll_turn_some:
  assumes "poll_turn env s = (Inr (Some (n, rs, ds)), s')"
  shows "took env s s' rs ds \<and> es_poll s' = Suc (es_poll s) \<and> n \<noteq> 0"
proof -
  obtain r where r: "xe_poll env (es_poll s) = Inr r"
    using assms by (cases "xe_poll env (es_poll s)") (auto simp: poll_turn_def poll_once_def)
  define ms where "ms = concat (map snd r)"
  have "ms \<noteq> []" and n: "n = length ms" and
    d: "decode_all env (es_poll s) 0 ms
      (s\<lparr>es_poll := Suc (es_poll s), es_last_polled := es_last_polled s + length ms\<rparr>) = (Inr (rs, ds), s')"
    using assms r by (auto simp: poll_turn_def poll_once_def ms_def split: prod.splits sum.splits if_splits)
  have p: "polled env (es_poll s) = outcomes env (es_poll s) 0 ms"
    by (simp add: polled_def r ms_def)
  show ?thesis using decode_all_ok [OF d] \<open>ms \<noteq> []\<close>
    by (auto intro!: tookI [where n = "Suc (es_poll s)"] simp: p n next_of_def)
qed

lemma consume_loop_took:
  "consume_loop env rs ds s = Some y \<Longrightarrow> y = (Inr (rs', ds'), s') \<Longrightarrow>
   \<exists>r d. rs' = rs @ r \<and> ds' = ds @ d \<and> took env s s' r d"
proof (induction arbitrary: rs' ds' s' rule: consume_loop.raw_induct [rotated, consumes 1, case_names 1])
  case (1 f env rs ds s y)
  show ?case
  proof (cases "BATCH_SIZE \<le> length rs")
    case True
    with 1(2,3) show ?thesis by (auto intro: took_refl)
  next
    case False
    obtain x s1 where t: "poll_turn env s = (x, s1)" by (cases "poll_turn env s")
    show ?thesis
    proof (cases x)
      case (Inl e)
      with 1(2,3) False t show ?thesis by simp
    next
      case (Inr w)
      show ?thesis
      proof (cases w)
        case None
        with 1(2,3) False t Inr have "rs' = rs @ []" "ds' = ds @ []" "s' = s1" by auto
        with t Inr None show ?thesis using poll_turn_none by blast
      next
        case (Some z)
        obtain n r d where z: "z = (n, r, d)" by (cases z)
        have tk: "took env s s1 r d" using t Inr Some z poll_turn_some by blast
        show ?thesis
        proof (cases "n < BATCH_SIZE")
          case True
          with 1(2,3) False t Inr Some z tk show ?thesis by auto
        next
          case big: False
          with 1(2) False t Inr Some z have "f env (rs @ r) (ds @ d) s1 = Some y" by simp
          from 1(1) [OF this 1(3)] obtain r' d' where "rs' = (rs @ r) @ r'" "ds' = (ds @ d) @ d'"
            "took env s1 s' r' d'" by blast
          with took_trans [OF tk] show ?thesis by auto
        qed
      qed
    qed
  qed
qed

section \<open>Names of files\<close>

text \<open>What the code relies on for a fresh name: \<^verbatim>\<open>%Y-%m-%d\<close> has ten characters, the stamp with its
  microseconds differs for different instants, and the clock moves between two writes.\<close>

definition stamps_ok :: "extract_env \<Rightarrow> bool" where
  "stamps_ok env = ((\<forall>t. length (xe_day env t) = 10) \<and> inj (xe_stamp env) \<and> strict_mono (xe_clock env))"

definition file_kinds :: "(string \<times> string) set" where
  "file_kinds = {(''batch'', ''.parquet''), (''dead_letter'', ''.jsonl''), (''manifest'', ''.json'')}"

lemma out_path_number:
  assumes "stamps_ok env" "(pre, suf) \<in> file_kinds" "(pre', suf') \<in> file_kinds"
    and eq: "out_path env k pre suf = out_path env n pre' suf'"
  shows "k = n"
proof -
  have len: "length (xe_day env a) = length (xe_day env b)" for a b
    using assms(1) by (simp add: stamps_ok_def)
  have "pre @ ''_'' @ xe_stamp env (xe_clock env k) @ suf = pre' @ ''_'' @ xe_stamp env (xe_clock env n) @ suf'"
    using eq by (simp add: out_path_def Let_def append_eq_append_conv [OF disjI1, OF len])
  then have "xe_stamp env (xe_clock env k) = xe_stamp env (xe_clock env n)"
    using assms(2,3) by (auto simp: file_kinds_def)
  then have "xe_clock env k = xe_clock env n" using assms(1) by (auto simp: stamps_ok_def dest: injD)
  then show ?thesis using assms(1) by (simp add: stamps_ok_def strict_mono_eq)
qed

text \<open>The files \<open>fs\<close>, named by earlier writes, hold the batches \<open>bs\<close>.\<close>

definition holds :: "extract_env \<Rightarrow> extract_consumer \<Rightarrow> string \<Rightarrow> string \<Rightarrow> ('b \<Rightarrow> staged_file) \<Rightarrow>
    string list \<Rightarrow> 'b list \<Rightarrow> bool" where
  "holds env s pre suf mk fs bs = list_all2 (\<lambda>f b. es_files s f = Some (mk b) \<and>
     (\<exists>k < es_write s. f = out_path env k pre suf)) fs bs"

lemma holds_Nil [simp]: "holds env s pre suf mk [] []"
  by (simp add: holds_def)

lemma put_file_ok:
  "put_file env pre suf c s = (Inr p, s') \<Longrightarrow> p = out_path env (es_write s) pre suf \<and>
   s' = s\<lparr>es_write := Suc (es_write s), es_files := (es_files s)(p \<mapsto> c)\<rparr>"
  by (auto simp: put_file_def Let_def split: option.splits)

lemma holds_put:
  assumes "stamps_ok env" "(pre, suf) \<in> file_kinds" "(pre', suf') \<in> file_kinds"
    and put: "put_file env pre' suf' c s = (Inr p, s')" and h: "holds env s pre suf mk fs bs"
  shows "holds env s' pre suf mk fs bs"
proof -
  have p: "p = out_path env (es_write s) pre' suf'"
    and s': "s' = s\<lparr>es_write := Suc (es_write s), es_files := (es_files s)(p \<mapsto> c)\<rparr>"
    using put_file_ok [OF put] by simp_all
  have "es_files s f = Some (mk b) \<and> (\<exists>k < es_write s. f = out_path env k pre suf) \<Longrightarrow>
      es_files s' f = Some (mk b) \<and> (\<exists>k < es_write s'. f = out_path env k pre suf)" for f b
    using out_path_number [OF assms(1-3)] by (auto simp: s' p) (blast intro: less_SucI)
  with h show ?thesis unfolding holds_def by (rule list_all2_mono)
qed

lemma holds_put_new:
  assumes "stamps_ok env" "(pre, suf) \<in> file_kinds"
    and put: "put_file env pre suf (mk b) s = (Inr p, s')" and h: "holds env s pre suf mk fs bs"
  shows "holds env s' pre suf mk (fs @ [p]) (bs @ [b])"
  using holds_put [OF assms(1,2,2) put h] put_file_ok [OF put]
  by (auto simp: holds_def intro!: list_all2_appendI)

lemma holds_frame:
  "es_files s' = es_files s \<Longrightarrow> es_write s' = es_write s \<Longrightarrow>
   holds env s' pre suf mk fs bs = holds env s pre suf mk fs bs"
  by (simp add: holds_def)

section \<open>The run\<close>

lemmas kinds = file_kinds_def insert_iff

lemma batch_kind [simp]: "(''batch'', ''.parquet'') \<in> file_kinds"
  and dead_kind [simp]: "(''dead_letter'', ''.jsonl'') \<in> file_kinds"
  by (simp_all add: file_kinds_def)

abbreviation holds_batches :: "extract_env \<Rightarrow> extract_consumer \<Rightarrow> string list \<Rightarrow> row list list \<Rightarrow> bool" where
  "holds_batches env s \<equiv> holds env s ''batch'' ''.parquet'' (\<lambda>b. Parquet (frame_rows env b))"

abbreviation holds_deads :: "extract_env \<Rightarrow> extract_consumer \<Rightarrow> string list \<Rightarrow> dead_letter list list \<Rightarrow> bool" where
  "holds_deads env s \<equiv> holds env s ''dead_letter'' ''.jsonl'' DeadLetters"

text \<open>After \<open>s\<close> the files \<open>fs\<close> with \<open>n\<close> records, and the dead-letter files, hold all that was polled.\<close>

definition staged :: "extract_env \<Rightarrow> string list \<Rightarrow> nat \<Rightarrow> extract_consumer \<Rightarrow> bool" where
  "staged env fs n s = (\<exists>xs bs dss. xs = polled_in env 0 (es_poll s) \<and> no_transient xs \<and>
     es_next s = next_of xs [] \<and> es_dead_count s = length (deads_of env xs) \<and>
     n = length (records_of xs) \<and> concat bs = records_of xs \<and> holds_batches env s fs bs \<and>
     concat dss = deads_of env xs \<and> holds_deads env s (es_dead_paths s) dss)"

lemma stage_dead_ok:
  assumes "stamps_ok env" "stage_dead env ds s = (Inr u, s')"
    and "holds_batches env s fs bs" "holds_deads env s (es_dead_paths s) dss" "concat dss = D"
  shows "\<exists>dss'. holds_batches env s' fs bs \<and> holds_deads env s' (es_dead_paths s') dss' \<and>
    concat dss' = D @ ds \<and> es_poll s' = es_poll s \<and> es_next s' = es_next s \<and>
    es_dead_count s' = es_dead_count s \<and> es_last_polled s' = es_last_polled s"
proof (cases "ds = []")
  case True
  with assms show ?thesis by (auto simp: stage_dead_def intro!: exI [of _ dss])
next
  case False
  then obtain p s1 where put: "put_file env ''dead_letter'' ''.jsonl'' (DeadLetters ds) s = (Inr p, s1)"
    and s': "s' = s1\<lparr>es_dead_paths := es_dead_paths s1 @ [p]\<rparr>"
    using assms(2) by (auto simp: stage_dead_def write_dead_letters_def split: prod.splits sum.splits)
  have "holds_batches env s1 fs bs"
    by (rule holds_put [OF assms(1) _ _ put assms(3)]) simp_all
  moreover have "holds_deads env s1 (es_dead_paths s @ [p]) (dss @ [ds])"
    by (rule holds_put_new [OF assms(1) _ put assms(4)]) simp
  ultimately show ?thesis using put_file_ok [OF put] assms(5)
    by (intro exI [of _ "dss @ [ds]"]) (simp add: s' holds_def)
qed

lemma stage_records_ok:
  assumes "stamps_ok env" "stage_records env rs s = (Inr (n, p), s')"
    and "holds_batches env s fs bs" "holds_deads env s (es_dead_paths s) dss"
  shows "n = length rs \<and> holds_deads env s' (es_dead_paths s') dss \<and> es_poll s' = es_poll s \<and>
    es_next s' = es_next s \<and> es_dead_count s' = es_dead_count s \<and> es_last_polled s' = es_last_polled s \<and>
    (case p of None \<Rightarrow> rs = [] \<and> holds_batches env s' fs bs
     | Some f \<Rightarrow> holds_batches env s' (fs @ [f]) (bs @ [rs]))"
proof (cases "rs = []")
  case True
  with assms show ?thesis by (auto simp: stage_records_def)
next
  case False
  then obtain f where put: "put_file env ''batch'' ''.parquet'' (Parquet (frame_rows env rs)) s = (Inr f, s')"
    and n: "n = length rs" and p: "p = Some f"
    using assms(2) by (auto simp: stage_records_def write_batch_def split: prod.splits sum.splits)
  have "holds_deads env s' (es_dead_paths s) dss"
    by (rule holds_put [OF assms(1) _ _ put assms(4)]) simp_all
  moreover have "holds_batches env s' (fs @ [f]) (bs @ [rs])"
    by (rule holds_put_new [OF assms(1) _ put assms(3)]) simp
  ultimately show ?thesis using put_file_ok [OF put] by (simp add: n p)
qed

lemma consume_batch_staged:
  assumes ok: "stamps_ok env" and c: "consume_batch env s = Some (Inr (n, p), s')"
    and st: "staged env fs k s"
  shows "(case p of None \<Rightarrow> n = 0 \<and> staged env fs k s' | Some f \<Rightarrow> staged env (fs @ [f]) (k + n) s') \<and>
    es_poll s \<le> es_poll s' \<and> (es_last_polled s' = 0 \<longrightarrow> p = None)"
proof -
  obtain rs ds s1 s2 u where l: "consume_loop env [] [] (s\<lparr>es_last_polled := 0\<rparr>) = Some (Inr (rs, ds), s1)"
    and d: "stage_dead env ds s1 = (Inr u, s2)" and r: "stage_records env rs s2 = (Inr (n, p), s')"
    using c by (auto simp: consume_batch_def split: option.splits prod.splits sum.splits)
  have "took env (s\<lparr>es_last_polled := 0\<rparr>) s1 rs ds" using consume_loop_took [OF l refl] by simp
  then obtain m ys where m: "es_poll s \<le> m" and ys: "ys = polled_in env (es_poll s) m"
    and rs: "rs = records_of ys" and ds: "ds = deads_of env ys" and nt: "no_transient ys"
    and s1: "s1 = s\<lparr>es_poll := m, es_next := next_of ys (es_next s),
      es_dead_count := es_dead_count s + length ds, es_last_polled := length ys\<rparr>"
    unfolding took_def by simp blast
  obtain xs bs dss where xs: "xs = polled_in env 0 (es_poll s)" "no_transient xs"
    "es_next s = next_of xs []" "es_dead_count s = length (deads_of env xs)"
    "k = length (records_of xs)" and bs: "concat bs = records_of xs" "holds_batches env s fs bs"
    and dss: "concat dss = deads_of env xs" "holds_deads env s (es_dead_paths s) dss"
    using st unfolding staged_def by blast
  have all: "polled_in env 0 m = xs @ ys" using polled_in_append [of 0 "es_poll s" m] m by (simp add: xs(1) ys)
  have "holds_batches env s1 fs bs" "holds_deads env s1 (es_dead_paths s1) dss"
    using bs(2) dss(2) by (simp_all add: s1 holds_def)
  from stage_dead_ok [OF ok d this dss(1)] obtain dss' where
    2: "holds_batches env s2 fs bs" "holds_deads env s2 (es_dead_paths s2) dss'"
      "concat dss' = deads_of env xs @ ds" "es_poll s2 = m" "es_next s2 = next_of ys (es_next s)"
      "es_dead_count s2 = es_dead_count s + length ds" "es_last_polled s2 = length ys"
    by (auto simp: s1)
  note 3 = stage_records_ok [OF ok r 2(1,2)]
  have base: "polled_in env 0 (es_poll s') = xs @ ys" "no_transient (xs @ ys)"
    "es_next s' = next_of (xs @ ys) []" "es_dead_count s' = length (deads_of env (xs @ ys))"
    "holds_deads env s' (es_dead_paths s') dss'" "concat dss' = deads_of env (xs @ ys)"
    using 2 3 xs nt by (simp_all add: all next_of_append ds)
  have "ys = [] \<Longrightarrow> rs = []" by (simp add: rs)
  moreover have "rs = [] \<Longrightarrow> p = None" using r by (simp add: stage_records_def)
  moreover have "es_last_polled s' = length ys" "es_poll s' = m" using 2 3 by simp_all
  ultimately have tail: "es_last_polled s' = 0 \<longrightarrow> p = None" "es_poll s \<le> es_poll s'" using m by auto
  show ?thesis
  proof (cases p)
    case None
    with 3 have "rs = []" "holds_batches env s' fs bs" "n = 0" by simp_all
    moreover from this have "staged env fs k s'"
      unfolding staged_def using base xs(5) bs(1) rs by (intro exI [of _ "xs @ ys"] exI [of _ bs] exI [of _ dss']) simp
    ultimately show ?thesis using None tail by simp
  next
    case (Some f)
    with 3 have "holds_batches env s' (fs @ [f]) (bs @ [rs])" "n = length rs" by simp_all
    then have "staged env (fs @ [f]) (k + n) s'"
      unfolding staged_def using base xs(5) bs(1) rs
      by (intro exI [of _ "xs @ ys"] exI [of _ "bs @ [rs]"] exI [of _ dss']) simp
    then show ?thesis using Some tail by simp
  qed
qed

lemma drain_loop_staged:
  "drain_loop env mb me fs k em s = Some y \<Longrightarrow> y = (Inr (fs', k'), s') \<Longrightarrow> stamps_ok env \<Longrightarrow>
   staged env fs k s \<Longrightarrow> staged env fs' k' s'"
proof (induction arbitrary: fs' k' s' rule: drain_loop.raw_induct [rotated, consumes 1, case_names 1])
  case (1 f env mb me fs k em s y)
  show ?case
  proof (cases "em < me \<and> length fs < mb")
    case False
    with 1(2-) show ?thesis by auto
  next
    case True
    with 1(2,3) obtain n p s1 where c: "consume_batch env s = Some (Inr (n, p), s1)"
      by (auto split: option.splits prod.splits sum.splits)
    note st = consume_batch_staged [OF 1(4) c 1(5)]
    show ?thesis
    proof (cases p)
      case None
      with st have "staged env fs k s1" by simp
      moreover have "\<exists>em'. f env mb me fs k em' s1 = Some y"
        using 1(2) True c None by (auto split: if_splits)
      ultimately show ?thesis using 1(1) 1(3,4) by blast
    next
      case (Some g)
      with st have "es_last_polled s1 \<noteq> 0" and g: "staged env (fs @ [g]) (k + n) s1" by auto
      with 1(2) True c Some have "f env mb me (fs @ [g]) (k + n) 0 s1 = Some y" by simp
      from 1(1) [OF this 1(3,4) g] show ?thesis .
    qed
  qed
qed

lemma new_consumer_staged: "staged env [] 0 (new_consumer fs)"
  unfolding staged_def
  by (intro exI [of _ "[]"]) (simp add: new_consumer_def)

lemma drain_staged:
  assumes "stamps_ok env" "drain env mb me (new_consumer fs) = Some (Inr mf, s')"
  shows "staged env (mf_files mf) (mf_records mf) s' \<and> mf_offsets mf = es_next s' \<and>
    mf_dead_files mf = es_dead_paths s' \<and> mf_dead_count mf = es_dead_count s'"
proof -
  obtain gs k where l: "drain_loop env mb me [] 0 0 (new_consumer fs) = Some (Inr (gs, k), s')"
    and mf: "mf = manifest_of env gs k s'"
    using assms(2) by (auto simp: drain_def split: option.splits prod.splits sum.splits)
  from drain_loop_staged [OF l refl assms(1) new_consumer_staged] show ?thesis
    by (simp add: mf manifest_of_def)
qed

section \<open>Offsets\<close>

lemma map_of_advance: "map_of (advance m ns) = (map_of ns)(km_part m \<mapsto>
    max (case map_of ns (km_part m) of None \<Rightarrow> 0 | Some o' \<Rightarrow> o') (km_offset m + 1))"
  by (simp add: advance_def update_conv')

lemma next_of_distinct: "distinct (map fst ns) \<Longrightarrow> distinct (map fst (next_of xs ns))"
  by (induction xs arbitrary: ns) (simp_all add: next_of_def advance_def distinct_update)

lemma next_of_grows:
  "map_of ns p = Some n \<Longrightarrow> \<exists>n'. n \<le> n' \<and> map_of (next_of xs ns) p = Some n'"
proof (induction xs arbitrary: ns n)
  case Nil
  then show ?case by simp
next
  case (Cons x xs)
  have "\<exists>k. n \<le> k \<and> map_of (advance (fst x) ns) p = Some k"
    using Cons.prems by (auto simp: map_of_advance)
  then obtain k where "n \<le> k" "map_of (advance (fst x) ns) p = Some k" by blast
  with Cons.IH [OF this(2)] show ?case by (auto simp: next_of_def)
qed

lemma next_of_covers:
  "x \<in> set xs \<Longrightarrow> \<exists>n. map_of (next_of xs ns) (km_part (fst x)) = Some n \<and> km_offset (fst x) < n"
proof (induction xs arbitrary: ns)
  case Nil
  then show ?case by simp
next
  case (Cons y xs)
  show ?case
  proof (cases "x = y")
    case True
    let ?n = "max (case map_of ns (km_part (fst x)) of None \<Rightarrow> 0 | Some o' \<Rightarrow> o') (km_offset (fst x) + 1)"
    have "map_of (advance (fst x) ns) (km_part (fst x)) = Some ?n" by (simp add: map_of_advance)
    from next_of_grows [OF this, of xs] True show ?thesis by (auto simp: next_of_def)
  next
    case False
    with Cons show ?thesis by (auto simp: next_of_def)
  qed
qed

lemma next_of_tight:
  "map_of (next_of xs ns) p = Some n \<Longrightarrow> \<forall>x \<in> set xs. 0 \<le> km_offset (fst x) \<Longrightarrow>
   map_of ns p = Some n \<or> (\<exists>x \<in> set xs. km_part (fst x) = p \<and> n = km_offset (fst x) + 1)"
proof (induction xs arbitrary: ns)
  case Nil
  then show ?case by simp
next
  case (Cons y xs)
  have "map_of (next_of xs (advance (fst y) ns)) p = Some n" using Cons.prems(1) by (simp add: next_of_def)
  from Cons.IH [OF this] Cons.prems(2) show ?case
    by (auto simp: map_of_advance max_def split: if_splits option.splits)
qed

section \<open>What a manifest says\<close>

lemma drain_covers:
  assumes ok: "stamps_ok env" and d: "drain env mb me (new_consumer fs) = Some (Inr mf, s')"
    and xs: "xs = polled_in env 0 (es_poll s')" and nonneg: "\<forall>x \<in> set xs. 0 \<le> km_offset (fst x)"
  shows "no_transient xs \<and>
    (\<exists>bs. concat bs = records_of xs \<and>
       map (es_files s') (mf_files mf) = map (\<lambda>b. Some (Parquet (frame_rows env b))) bs) \<and>
    (\<exists>dss. concat dss = deads_of env xs \<and>
       map (es_files s') (mf_dead_files mf) = map (\<lambda>ds. Some (DeadLetters ds)) dss) \<and>
    mf_records mf = length (records_of xs) \<and> mf_dead_count mf = length (deads_of env xs) \<and>
    distinct (map fst (mf_offsets mf)) \<and>
    (\<forall>x \<in> set xs. \<exists>n. map_of (mf_offsets mf) (km_part (fst x)) = Some n \<and> km_offset (fst x) < n) \<and>
    (\<forall>(p, n) \<in> set (mf_offsets mf). \<exists>x \<in> set xs. km_part (fst x) = p \<and> n = km_offset (fst x) + 1)"
proof -
  have st: "staged env (mf_files mf) (mf_records mf) s'"
    and mf: "mf_offsets mf = es_next s'" "mf_dead_files mf = es_dead_paths s'"
      "mf_dead_count mf = es_dead_count s'" using drain_staged [OF ok d] by simp_all
  obtain bs dss where f: "no_transient xs" "es_next s' = next_of xs []"
    "es_dead_count s' = length (deads_of env xs)" "mf_records mf = length (records_of xs)"
    "concat bs = records_of xs" "holds_batches env s' (mf_files mf) bs"
    "concat dss = deads_of env xs" "holds_deads env s' (es_dead_paths s') dss"
    using st unfolding staged_def xs by blast
  have m: "mf_offsets mf = next_of xs []" "mf_dead_files mf = es_dead_paths s'"
    "mf_dead_count mf = length (deads_of env xs)"
    using mf f(2,3) by simp_all
  have dis: "distinct (map fst (next_of xs []))" by (rule next_of_distinct) simp
  have files: "map (es_files s') (mf_files mf) = map (\<lambda>b. Some (Parquet (frame_rows env b))) bs"
    using f(6) by (simp add: holds_def list_all2_conv_all_nth list_eq_iff_nth_eq)
  have deads: "map (es_files s') (es_dead_paths s') = map (\<lambda>ds. Some (DeadLetters ds)) dss"
    using f(8) by (simp add: holds_def list_all2_conv_all_nth list_eq_iff_nth_eq)
  have tight: "\<exists>x \<in> set xs. km_part (fst x) = p \<and> n = km_offset (fst x) + 1"
    if "(p, n) \<in> set (next_of xs [])" for p n
    using next_of_tight [of xs "[]" p n] nonneg map_of_is_SomeI [OF dis that] by simp
  have cov: "\<forall>x \<in> set xs. \<exists>n. map_of (next_of xs []) (km_part (fst x)) = Some n \<and> km_offset (fst x) < n"
    using next_of_covers by blast
  have tights: "\<forall>(p, n) \<in> set (next_of xs []). \<exists>x \<in> set xs. km_part (fst x) = p \<and> n = km_offset (fst x) + 1"
    using tight by blast
  show ?thesis
    unfolding m using f(1,4,5,7) dis files deads cov tights by blast
qed

text \<open>C18: \<^verbatim>\<open>TransactionConsumer.drain\<close> and its \<^verbatim>\<open>ExtractManifest\<close>. When an extract run returns a manifest,
  no message it polled failed for a reason that may pass, the Parquet files it names hold exactly
  the records of all polled messages, in the order polled, the dead-letter files exactly the
  others with their bytes, the counts are theirs, and the offsets are, for exactly the partitions
  polled, the next offset after everything polled: nothing is skipped and nothing unread is claimed.\<close>

theorem manifest_covers_the_poll:
  assumes ok: "stamps_ok env" and d: "drain env mb me (new_consumer fs) = Some (Inr mf, s')"
    and xs: "xs = polled_in env 0 (es_poll s')" and nonneg: "\<forall>x \<in> set xs. 0 \<le> km_offset (fst x)"
  shows "no_transient xs \<and>
    (\<exists>bs. concat bs = records_of xs \<and>
       map (es_files s') (mf_files mf) = map (\<lambda>b. Some (Parquet (frame_rows env b))) bs) \<and>
    (\<exists>dss. concat dss = deads_of env xs \<and>
       map (es_files s') (mf_dead_files mf) = map (\<lambda>ds. Some (DeadLetters ds)) dss) \<and>
    mf_records mf = length (records_of xs) \<and> mf_dead_count mf = length (deads_of env xs) \<and>
    distinct (map fst (mf_offsets mf)) \<and>
    (\<forall>x \<in> set xs. \<exists>n. map_of (mf_offsets mf) (km_part (fst x)) = Some n \<and> km_offset (fst x) < n) \<and>
    (\<forall>(p, n) \<in> set (mf_offsets mf). \<exists>x \<in> set xs. km_part (fst x) = p \<and> n = km_offset (fst x) + 1)"
  using assms by (rule drain_covers)

section \<open>The run ends\<close>

text \<open>A topic with finitely many messages: from poll \<open>N\<close> on the broker has nothing.\<close>

definition drained_at :: "extract_env \<Rightarrow> nat \<Rightarrow> bool" where
  "drained_at env N = (\<forall>i \<ge> N. xe_poll env i = Inr [])"

lemma poll_turn_drained:
  "drained_at env N \<Longrightarrow> N \<le> es_poll s \<Longrightarrow> poll_turn env s = (Inr None, s\<lparr>es_poll := Suc (es_poll s)\<rparr>)"
  by (simp add: drained_at_def poll_turn_def poll_once_def)

lemma decode_all_poll: "decode_all env i j ms s = (r, s') \<Longrightarrow> es_poll s' = es_poll s"
proof (induction ms arbitrary: j s r)
  case Nil
  then show ?case by simp
next
  case (Cons m ms)
  then show ?case
    by (auto simp: advanced_def counted_dead_def split: decoded.splits prod.splits sum.splits dest!: Cons.IH)
qed

lemma poll_turn_counts: "poll_turn env s = (r, s1) \<Longrightarrow> es_poll s1 = Suc (es_poll s)"
  by (auto simp: poll_turn_def poll_once_def split: prod.splits sum.splits if_splits dest!: decode_all_poll)

lemma consume_loop_returns:
  assumes "drained_at env N"
  shows "\<exists>y. consume_loop env rs ds s = Some y"
proof (induction "N - es_poll s" arbitrary: rs ds s rule: less_induct)
  case less
  show ?case
  proof (cases "BATCH_SIZE \<le> length rs")
    case True
    then show ?thesis by (simp add: consume_loop.simps)
  next
    case False
    obtain x s1 where t: "poll_turn env s = (x, s1)" by (cases "poll_turn env s")
    show ?thesis
    proof (cases "N \<le> es_poll s")
      case True
      with False assms show ?thesis by (simp add: consume_loop.simps poll_turn_drained)
    next
      case before: False
      with poll_turn_counts [OF t] have "N - es_poll s1 < N - es_poll s" by simp
      note rec = less [OF this]
      show ?thesis
        using False t rec by (subst consume_loop.simps) (auto split: sum.split option.split)
    qed
  qed
qed

lemma put_file_polls: "put_file env pre suf c s = (r, s') \<Longrightarrow>
    es_poll s' = es_poll s \<and> es_last_polled s' = es_last_polled s"
  by (auto simp: put_file_def Let_def split: option.splits)

lemma stage_polls:
  "stage_dead env ds s = (r, s') \<Longrightarrow> es_poll s' = es_poll s \<and> es_last_polled s' = es_last_polled s"
  "stage_records env rs s = (q, s') \<Longrightarrow> es_poll s' = es_poll s \<and> es_last_polled s' = es_last_polled s"
  by (auto simp: stage_dead_def stage_records_def write_dead_letters_def write_batch_def
      split: if_splits prod.splits sum.splits dest!: put_file_polls)

text \<open>A batch that polled something read before the end of the topic, and moved on.\<close>

lemma consume_batch_moves:
  assumes "drained_at env N" "consume_batch env s = Some (Inr (n, p), s')"
  shows "es_poll s \<le> es_poll s' \<and>
    (es_last_polled s' \<noteq> 0 \<longrightarrow> es_poll s < es_poll s' \<and> es_poll s < N)"
proof -
  obtain rs ds s1 s2 u where l: "consume_loop env [] [] (s\<lparr>es_last_polled := 0\<rparr>) = Some (Inr (rs, ds), s1)"
    and d: "stage_dead env ds s1 = (Inr u, s2)" and r: "stage_records env rs s2 = (Inr (n, p), s')"
    using assms(2) by (auto simp: consume_batch_def split: option.splits prod.splits sum.splits)
  have "took env (s\<lparr>es_last_polled := 0\<rparr>) s1 rs ds" using consume_loop_took [OF l refl] by simp
  then obtain m where m: "es_poll s \<le> m" "es_poll s1 = m"
    "es_last_polled s1 = length (polled_in env (es_poll s) m)"
    unfolding took_def by auto
  have "polled env i = []" if "N \<le> i" for i
    using assms(1) that by (simp add: drained_at_def polled_def)
  then have "polled_in env (es_poll s) m = []" if "N \<le> es_poll s"
    using that by (auto simp: polled_in_def)
  moreover have "polled_in env (es_poll s) m = []" if "es_poll s = m" using that by simp
  ultimately show ?thesis using m stage_polls(1) [OF d] stage_polls(2) [OF r]
    by (cases "es_poll s = m"; cases "N \<le> es_poll s") auto
qed

lemma consume_batch_returns: "drained_at env N \<Longrightarrow> \<exists>y. consume_batch env s = Some y"
  using consume_loop_returns [of env N "[]" "[]" "s\<lparr>es_last_polled := 0\<rparr>"]
  by (auto simp: consume_batch_def split: sum.split prod.split)

lemma drain_loop_returns:
  assumes dr: "drained_at env N"
  shows "\<exists>y. drain_loop env mb me fs k em s = Some y"
proof (induction "(N - es_poll s, me - em)" arbitrary: fs k em s
    rule: wf_induct_rule [OF wf_lex_prod [OF wf_less_than wf_less_than]])
  case (1 em s fs k)
  obtain y where y: "consume_batch env s = Some y" using consume_batch_returns [OF dr] by blast
  show ?case
  proof (cases "em < me \<and> length fs < mb \<and> (\<exists>v. fst y = Inr v)")
    case False
    with y show ?thesis by (cases y; cases "fst y") (auto simp: drain_loop.simps)
  next
    case True
    then obtain n p s1 where c: "consume_batch env s = Some (Inr (n, p), s1)" using y by (cases y) auto
    note mv = consume_batch_moves [OF dr c]
    show ?thesis
    proof (cases "es_last_polled s1 = 0")
      case idle: True
      have "\<exists>y. drain_loop env mb me fs k (Suc em) s1 = Some y"
        using mv True by (intro 1) auto
      with True c idle show ?thesis by (subst drain_loop.simps) simp
    next
      case busy: False
      have "\<exists>y. drain_loop env mb me fs' k' 0 s1 = Some y" for fs' k'
        using mv busy by (intro 1) auto
      with True c busy show ?thesis by (subst drain_loop.simps) (simp split: option.split)
    qed
  qed
qed

text \<open>C38: \<^verbatim>\<open>TransactionConsumer.drain\<close> with its two nested loops. Whatever a broker with finitely many
  messages delivers, in whatever portions and with whatever failures, and whatever the decoder
  makes of it, an extract run returns.\<close>

theorem extract_returns:
  assumes "\<forall>i \<ge> N. xe_poll env i = Inr []"
  shows "\<exists>result s'. drain env max_batches max_empty s = Some (result, s')"
proof -
  have "drained_at env N" using assms by (simp add: drained_at_def)
  from drain_loop_returns [OF this] obtain y where
    "drain_loop env max_batches max_empty [] 0 0 s = Some y" by blast
  then show ?thesis by (auto simp: drain_def split: sum.split prod.split)
qed

section \<open>Committing\<close>

lemma to_commit_ok:
  "to_commit env g wanted = Inr ps \<Longrightarrow> ps = filter (\<lambda>(p, n). \<forall>c. g p = Some c \<longrightarrow> c < n) wanted"
  by (induction env g wanted arbitrary: ps rule: to_commit.induct)
    (auto split: option.splits sum.splits if_splits)

lemma to_commit_total: "(\<And>p. xc_lookup env p = None) \<Longrightarrow> \<exists>ps. to_commit env g wanted = Inr ps"
  by (induction env g wanted rule: to_commit.induct) (auto split: option.splits)

text \<open>The group after a call: untouched, or with every offset that moves forward.\<close>

lemma commit_offsets_effect:
  assumes "distinct (map fst (mf_offsets mf))" "commit_offsets env mf g = (r, g')"
  shows "g' = g \<and> ((\<exists>e. r = Inl e) \<or> r = Inr [] \<and> (\<forall>(p, n) \<in> set (mf_offsets mf). \<exists>c \<ge> n. g p = Some c)) \<or>
    (\<exists>ps. (r = Inr ps \<or> (\<exists>e. r = Inl e)) \<and> g' = committed_map g ps \<and>
      ps = filter (\<lambda>(p, n). \<forall>c. g p = Some c \<longrightarrow> c < n) (mf_offsets mf))"
proof (cases "to_commit env g (mf_offsets mf)")
  case (Inl e)
  have "g' = g \<and> ((\<exists>e. r = Inl e) \<or> r = Inr [] \<and> mf_offsets mf = [])"
    using assms(2) by (cases "mf_offsets mf = []"; cases "xc_start env") (simp_all add: commit_offsets_def Inl eq_commute)
  then show ?thesis by auto
next
  case (Inr ps)
  note ps = to_commit_ok [OF Inr]
  show ?thesis
  proof (cases ps)
    case Nil
    have "\<exists>c \<ge> n. g p = Some c" if "(p, n) \<in> set (mf_offsets mf)" for p n
    proof -
      from ps Nil have "filter (\<lambda>(p, n). \<forall>c. g p = Some c \<longrightarrow> c < n) (mf_offsets mf) = []" by simp
      with that have "\<not> (\<forall>c. g p = Some c \<longrightarrow> c < n)" by (auto simp: filter_empty_conv)
      then show ?thesis by (auto simp: not_less)
    qed
    with assms(2) Inr Nil show ?thesis by (auto simp: commit_offsets_def split: if_splits option.splits)
  next
    case (Cons q qs)
    have "(r, g') = (Inr [], g) \<or> (\<exists>e. (r, g') = (Inl e, g)) \<or> (\<exists>e. (r, g') = (Inl e, committed_map g ps)) \<or>
        (r, g') = (Inr ps, committed_map g ps)"
      using assms(2) Inr Cons by (auto simp: commit_offsets_def split: if_splits option.splits)
    moreover have "mf_offsets mf \<noteq> []" using ps Cons by auto
    then have "(r, g') \<noteq> (Inr [], g)" using assms(2) Inr Cons
      by (auto simp: commit_offsets_def split: if_splits option.splits)
    ultimately show ?thesis using ps by blast
  qed
qed

lemma committed_map_forward:
  assumes "distinct (map fst wanted)" "ps = filter (\<lambda>(p, n). \<forall>c. g p = Some c \<longrightarrow> c < n) wanted"
  shows "committed_map g ps p = g p \<or>
    (\<exists>n. (p, n) \<in> set wanted \<and> committed_map g ps p = Some n \<and> (\<forall>c. g p = Some c \<longrightarrow> c < n))"
    and "(p, n) \<in> set wanted \<Longrightarrow> \<exists>c \<ge> n. committed_map g ps p = Some c"
proof -
  have dis: "distinct (map fst ps)" using assms by (simp add: distinct_map_filter)
  show "committed_map g ps p = g p \<or>
    (\<exists>n. (p, n) \<in> set wanted \<and> committed_map g ps p = Some n \<and> (\<forall>c. g p = Some c \<longrightarrow> c < n))"
  proof (cases "map_of ps p")
    case None
    then show ?thesis by (simp add: committed_map_def map_add_def)
  next
    case (Some n)
    then have "(p, n) \<in> set ps" by (rule map_of_SomeD)
    then show ?thesis using Some assms(2) by (auto simp: committed_map_def map_add_def)
  qed
  show "\<exists>c \<ge> n. committed_map g ps p = Some c" if "(p, n) \<in> set wanted"
  proof (cases "\<forall>c. g p = Some c \<longrightarrow> c < n")
    case True
    with that assms(2) have "(p, n) \<in> set ps" by simp
    with dis have "map_of ps p = Some n" by (rule map_of_is_SomeI)
    then show ?thesis by (simp add: committed_map_def)
  next
    case False
    then obtain c where c: "g p = Some c" "n \<le> c" by (auto simp: not_less)
    have "map_of ps p = None"
    proof (rule ccontr)
      assume "map_of ps p \<noteq> None"
      then obtain k where "(p, k) \<in> set ps" by (auto dest: map_of_SomeD)
      then have "(p, k) \<in> set wanted" "\<forall>c. g p = Some c \<longrightarrow> c < k" using assms(2) by auto
      moreover from this(1) that assms(1) have "k = n" by (meson eq_key_imp_eq_value)
      ultimately show False using False by blast
    qed
    with c show ?thesis by (auto simp: committed_map_def map_add_def)
  qed
qed

definition reachable_broker :: commit_env where
  "reachable_broker = \<lparr>xc_start = None, xc_lookup = \<lambda>_. None, xc_commit = None, xc_applied = True\<rparr>"

lemma commit_offsets_spec:
  assumes dis: "distinct (map fst (mf_offsets mf))" and c: "commit_offsets env mf g = (r, g')"
  shows "(\<forall>p. g' p = g p \<or>
       (\<exists>n. (p, n) \<in> set (mf_offsets mf) \<and> g' p = Some n \<and> (\<forall>k. g p = Some k \<longrightarrow> k < n))) \<and>
    (\<forall>ps. r = Inr ps \<longrightarrow> (\<forall>(q, n) \<in> set (mf_offsets mf). \<exists>k \<ge> n. g' q = Some k) \<and>
       commit_offsets reachable_broker mf g' = (Inr [], g'))"
proof (intro conjI allI impI)
  fix p
  show "g' p = g p \<or> (\<exists>n. (p, n) \<in> set (mf_offsets mf) \<and> g' p = Some n \<and> (\<forall>k. g p = Some k \<longrightarrow> k < n))"
    using commit_offsets_effect [OF dis c] committed_map_forward(1) [OF dis refl, of g p] by auto
next
  fix ps
  assume "r = Inr ps"
  with commit_offsets_effect [OF dis c] committed_map_forward(2) [OF dis refl, of _ _ g]
  show cov: "\<forall>(q, n) \<in> set (mf_offsets mf). \<exists>k \<ge> n. g' q = Some k" by auto
  obtain qs where qs: "to_commit reachable_broker g' (mf_offsets mf) = Inr qs"
    using to_commit_total [of reachable_broker] by (auto simp: reachable_broker_def)
  have "qs = []" using cov unfolding to_commit_ok [OF qs] by (fastforce simp: filter_empty_conv)
  with qs show "commit_offsets reachable_broker mf g' = (Inr [], g')"
    by (simp add: commit_offsets_def reachable_broker_def)
qed

text \<open>\<^verbatim>\<open>commit_offsets\<close>. Whatever fails, and also where a failed commit was applied after all, the
  offsets of the group only move forward, only for partitions of the manifest, and only to its
  offsets. When the call returns, every partition of the manifest is committed at least as far
  as the manifest says, and calling it again on a reachable broker commits nothing more.\<close>

theorem commit_never_rewinds:
  assumes dis: "distinct (map fst (mf_offsets mf))" and c: "commit_offsets env mf g = (r, g')"
  shows "(\<forall>p. g' p = g p \<or>
       (\<exists>n. (p, n) \<in> set (mf_offsets mf) \<and> g' p = Some n \<and> (\<forall>k. g p = Some k \<longrightarrow> k < n))) \<and>
    (\<forall>ps. r = Inr ps \<longrightarrow> (\<forall>(q, n) \<in> set (mf_offsets mf). \<exists>k \<ge> n. g' q = Some k) \<and>
       commit_offsets reachable_broker mf g' = (Inr [], g'))"
  using assms by (rule commit_offsets_spec)

section \<open>Writing and reading a manifest\<close>

lemma digit_char: "d < 10 \<Longrightarrow> is_digit (char_of (48 + d)) \<and> digit_value (char_of (48 + d)) = d"
  for d :: nat
  by (simp add: is_digit_def digit_value_def Let_def)

lemma nat_text_digits: "nat_text n \<noteq> [] \<and> list_all is_digit (nat_text n) \<and> digits_nat (nat_text n) = n"
proof (induction n rule: nat_text.induct)
  case (1 n)
  show ?case
  proof (cases "n < 10")
    case True
    then show ?thesis using digit_char [of n] by (simp add: nat_text.simps [of n] digits_nat_def)
  next
    case False
    then show ?thesis using 1 digit_char [of "n mod 10"] by (simp add: nat_text.simps [of n] digits_nat_def)
  qed
qed

lemma dec_digits_all:
  "list_all is_digit ds \<Longrightarrow> u \<longrightarrow> ds \<noteq> [] \<Longrightarrow>
   dec_digits u acc ds = Some (foldl (\<lambda>a c. 10 * a + digit_value c) acc ds)"
proof (induction ds arbitrary: u acc)
  case Nil
  then show ?case by simp
next
  case (Cons c ds)
  have "c \<noteq> CHR ''_''" using Cons.prems by (auto simp: is_digit_def)
  with Cons show ?case by simp
qed

lemma digit_not_space: "is_digit c \<Longrightarrow> \<not> int_space c \<and> c \<noteq> CHR ''-'' \<and> c \<noteq> CHR ''+''"
  by (auto simp: is_digit_def int_space_def Let_def)

lemma split_sign_digits: "list_all is_digit ds \<Longrightarrow> split_sign ds = (False, ds)"
  by (cases ds) (auto dest: digit_not_space)

lemma py_int_text: "py_int (int_text i) = Some i"
proof -
  let ?ds = "nat_text (nat \<bar>i\<bar>)"
  have ds: "?ds \<noteq> []" "list_all is_digit ?ds" "foldl (\<lambda>a c. 10 * a + digit_value c) 0 ?ds = nat \<bar>i\<bar>"
    using nat_text_digits [of "nat \<bar>i\<bar>"] by (simp_all add: digits_nat_def)
  have sp: "\<not> int_space (hd ?ds)" "\<not> int_space (last ?ds)"
    using ds(1,2) digit_not_space by (auto simp: list_all_iff)
  have "dec_digits True 0 ?ds = Some (nat \<bar>i\<bar>)" using dec_digits_all [OF ds(2), of True 0] ds by simp
  moreover have "strip_by int_space (int_text i) = int_text i"
    using ds sp by (intro strip_by_id) (auto simp: int_text_def int_space_def)
  ultimately show ?thesis
    using split_sign_digits [OF ds(2)] by (cases "i < 0") (simp_all add: py_int_def int_text_def)
qed

lemma update_fresh: "p \<notin> fst ` set ps \<Longrightarrow> AList.update p n ps = ps @ [(p, n)]"
  by (induction ps) auto

lemma read_offsets_written:
  "distinct (map fst (acc @ ps)) \<Longrightarrow>
   read_offsets (map (\<lambda>(p, n). (int_text p, JInt n)) ps) acc = Inr (acc @ ps)"
proof (induction ps arbitrary: acc)
  case Nil
  then show ?case by simp
next
  case (Cons q ps)
  obtain p n where q: "q = (p, n)" by (cases q)
  have "AList.update p n acc = acc @ [(p, n)]" using Cons.prems by (intro update_fresh) (auto simp: q)
  with Cons show ?case by (simp add: q py_int_text)
qed

lemma str_list_written [simp]: "str_list (JArr (map JStr ss)) = Some ss"
  by (induction ss) simp_all

lemma read_manifest_written:
  assumes "distinct (map fst (mf_offsets mf))"
  shows "\<exists>offsets. read_manifest (manifest_json mf) = Inr (mf\<lparr>mf_offsets := offsets\<rparr>) \<and>
    map_of offsets = map_of (mf_offsets mf) \<and> set offsets = set (mf_offsets mf) \<and>
    distinct (map fst offsets) \<and> sorted (map fst offsets)"
proof -
  let ?ps = "sort_key fst (mf_offsets mf)"
  have dis: "distinct (map fst ?ps)" using assms
    by (simp add: distinct_map)
  have "read_offsets (map (\<lambda>(p, n). (int_text p, JInt n)) ?ps) [] = Inr ?ps"
    using read_offsets_written [of "[]" ?ps] dis by simp
  then have "read_manifest (manifest_json mf) = Inr (mf\<lparr>mf_offsets := ?ps\<rparr>)"
    by (simp add: read_manifest_def manifest_json_def manifest_of_fields_def manifest_fields_def members_def)
  moreover have "map_of ?ps = map_of (mf_offsets mf)"
    using dis assms by (intro map_of_inject_set [THEN iffD2]) simp_all
  ultimately show ?thesis using dis by (intro exI [of _ ?ps]) simp
qed

text \<open>C39: \<^verbatim>\<open>ExtractManifest.to_json\<close> and \<^verbatim>\<open>read\<close>. The tasks after the extract read back the manifest that was
  written: every field, and the same offset for every partition (they come back ordered by it).\<close>

theorem manifest_round_trip:
  assumes "distinct (map fst (mf_offsets mf))"
  shows "\<exists>offsets. read_manifest (manifest_json mf) = Inr (mf\<lparr>mf_offsets := offsets\<rparr>) \<and>
    map_of offsets = map_of (mf_offsets mf) \<and> set offsets = set (mf_offsets mf) \<and>
    distinct (map fst offsets) \<and> sorted (map fst offsets)"
  using assms by (rule read_manifest_written)

section \<open>Samples\<close>

text \<open>A broker with one record and one message that is no Avro, on two partitions.\<close>

definition sample_etl_decoder :: decoder where
  "sample_etl_decoder = \<lparr>dc_deserialize = \<lambda>v. (case v of
       Bytes bs \<Rightarrow> if length bs = 7 then Inr (JObj [(''transaction_id'', JStr ''t1''), (''amount'', JFloat 5)])
         else Inl (OtherError (py_error ''SerializationError''))
     | NotBytes \<Rightarrow> Inr JNull),
     dc_schema = \<lambda>_. Inl (TransportError (py_error ''ConnectError''))\<rparr>"

definition sample_message :: kmsg where
  "sample_message = \<lparr>km_part = 0, km_offset = 5, km_ts = None, km_key = None, km_value = Bytes [0, 0, 0, 0, 1, 2, 2]\<rparr>"

definition sample_junk :: kmsg where
  "sample_junk = \<lparr>km_part = 1, km_offset = 3, km_ts = None, km_key = None, km_value = Bytes [1]\<rparr>"

definition sample_extract :: extract_env where
  "sample_extract = \<lparr>xe_topic = ''transactions'', xe_group = ''etl'', xe_base = ''staging'',
     xe_poll = \<lambda>i. Inr (if i = 0 then [(0, [sample_message]), (1, [sample_junk])] else []),
     xe_decoder = \<lambda>_ _. sample_etl_decoder, xe_clock = int, xe_day = \<lambda>_. ''2026-01-01'',
     xe_stamp = int_text, xe_astype = \<lambda>_. ''5.0'', xe_write = \<lambda>_. None\<rparr>"

lemma sample_stamps: "stamps_ok sample_extract"
proof -
  have "inj int_text" by (rule injI) (metis option.inject py_int_text)
  then show ?thesis by (simp add: stamps_ok_def sample_extract_def strict_mono_def)
qed

lemma sample_drain:
  "\<exists>mf s'. drain sample_extract 200 3 (new_consumer (\<lambda>_. None)) = Some (Inr mf, s') \<and> es_poll s' = 4 \<and>
    mf_records mf = 1 \<and> mf_dead_count mf = 1 \<and> mf_offsets mf = [(0, 6), (1, 4)]"
  by (simp add: drain_def drain_loop.simps consume_batch_def consume_loop.simps poll_turn_def poll_once_def
      new_consumer_def sample_extract_def sample_message_def sample_junk_def etl_decode_def decode_with_def
      sample_etl_decoder_def BATCH_SIZE_def advanced_def advance_def counted_dead_def stage_dead_def
      stage_records_def write_dead_letters_def write_batch_def put_file_def manifest_of_def
      etl_permanent_failure_def check_bytes_def Let_def)

lemma manifest_covers_the_poll_witness:
  "\<exists>mf s'. drain sample_extract 200 3 (new_consumer (\<lambda>_. None)) = Some (Inr mf, s') \<and>
    mf_records mf = 1 \<and> length (polled_in sample_extract 0 (es_poll s')) = 2 \<and>
    no_transient (polled_in sample_extract 0 (es_poll s'))"
proof -
  obtain mf s' where d: "drain sample_extract 200 3 (new_consumer (\<lambda>_. None)) = Some (Inr mf, s')"
    and s': "es_poll s' = 4" and n: "mf_records mf = 1" using sample_drain by blast
  have xs: "map fst (polled_in sample_extract 0 4) = [sample_message, sample_junk]"
    by (simp add: polled_in_def polled_def sample_extract_def upt_rec)
  have "set (map fst (polled_in sample_extract 0 4)) = {sample_message, sample_junk}" by (simp add: xs)
  then have "fst x \<in> {sample_message, sample_junk}" if "x \<in> set (polled_in sample_extract 0 4)" for x
    using that by fastforce
  then have "\<forall>x \<in> set (polled_in sample_extract 0 (es_poll s')). 0 \<le> km_offset (fst x)"
    unfolding s' by (fastforce simp: sample_message_def sample_junk_def)
  from manifest_covers_the_poll [OF sample_stamps d refl this] d n
  show ?thesis using arg_cong [OF xs, of length] by (auto simp: s')
qed

lemma extract_returns_witness:
  "\<exists>r s'. drain sample_extract 1 2 (new_consumer (\<lambda>_. None)) = Some (r, s')"
  using extract_returns [of 1 sample_extract 1 2] by (simp add: sample_extract_def)

definition sample_manifest :: manifest where
  "sample_manifest = \<lparr>mf_topic = ''transactions'', mf_group = ''etl'', mf_offsets = [(12, 6), (0, 4)],
     mf_files = [''a.parquet''], mf_records = 1, mf_dead_files = [], mf_dead_count = 0\<rparr>"

text \<open>Partition 0 is ahead of the manifest, partition 12 behind; the commit's reply is lost.\<close>

lemma commit_never_rewinds_witness:
  "snd (commit_offsets \<lparr>xc_start = None, xc_lookup = \<lambda>_. None, xc_commit = Some (py_error ''KafkaError''),
      xc_applied = True\<rparr> sample_manifest [0 \<mapsto> 9, 12 \<mapsto> 2]) 0 = Some 9 \<and>
   commit_offsets reachable_broker sample_manifest
     (snd (commit_offsets reachable_broker sample_manifest [0 \<mapsto> 9, 12 \<mapsto> 2])) =
     (Inr [], snd (commit_offsets reachable_broker sample_manifest [0 \<mapsto> 9, 12 \<mapsto> 2]))"
proof -
  let ?g = "[0 \<mapsto> 9, 12 \<mapsto> 2] :: group_offsets"
  let ?lost = "\<lparr>xc_start = None, xc_lookup = \<lambda>_. None, xc_commit = Some (py_error ''KafkaError''),
      xc_applied = True\<rparr>"
  have dis: "distinct (map fst (mf_offsets sample_manifest))" by (simp add: sample_manifest_def)
  obtain r g' where c: "commit_offsets ?lost sample_manifest ?g = (r, g')" by fastforce
  from commit_never_rewinds [OF dis c] have
    "g' 0 = ?g 0 \<or> (\<exists>n. (0, n) \<in> set (mf_offsets sample_manifest) \<and> g' 0 = Some n \<and> (\<forall>k. ?g 0 = Some k \<longrightarrow> k < n))"
    by blast
  then have "g' 0 = Some 9" by (auto simp: sample_manifest_def)
  moreover obtain ps g2 where r: "commit_offsets reachable_broker sample_manifest ?g = (Inr ps, g2)"
    by (simp add: commit_offsets_def reachable_broker_def sample_manifest_def)
  from commit_never_rewinds [OF dis r] have "commit_offsets reachable_broker sample_manifest g2 = (Inr [], g2)"
    by blast
  ultimately show ?thesis by (simp only: c r snd_conv)
qed

lemma manifest_round_trip_witness:
  "\<exists>offsets. read_manifest (manifest_json sample_manifest) = Inr (sample_manifest\<lparr>mf_offsets := offsets\<rparr>) \<and>
    map_of offsets 12 = Some 6"
proof -
  have "distinct (map fst (mf_offsets sample_manifest))" by (simp add: sample_manifest_def)
  from manifest_round_trip [OF this] obtain offsets where
    "read_manifest (manifest_json sample_manifest) = Inr (sample_manifest\<lparr>mf_offsets := offsets\<rparr>)"
    "map_of offsets = map_of (mf_offsets sample_manifest)" by blast
  then show ?thesis by (intro exI [of _ offsets]) (simp add: sample_manifest_def)
qed

end
