(* ===== verification/EtlValidator.thy ===== *)
theory EtlValidator
  imports EtlConsumer "HOL-Library.Multiset"
begin

text \<open>
  The validator of the ETL (\<^verbatim>\<open>services/etl/app/validator.py\<close>, \<^verbatim>\<open>mcc_registry.py\<close>): the six rules, their
  order, the batch with its duplicates, and the cleansed record. The ids ClickHouse answers, the
  clock, \<^verbatim>\<open>datetime.fromisoformat\<close> and \<^verbatim>\<open>str\<close> of a value that is no string are parameters. The texts of
  the reasons leave out the values they quote.
\<close>

section \<open>The tables\<close>

definition MCC_REGISTRY :: "string list" where
  "MCC_REGISTRY = [
    ''5511'', ''5521'', ''5531'', ''5532'', ''5533'', ''5541'', ''5542'', ''5571'', ''5599'',
    ''4111'', ''4112'', ''4119'', ''4121'', ''4131'', ''4214'', ''4215'', ''4225'', ''4411'',
    ''4511'', ''4582'', ''4722'', ''4784'', ''4789'', ''4812'', ''4814'', ''4816'', ''4821'',
    ''4829'', ''4899'', ''4900'', ''5013'', ''5021'', ''5039'', ''5044'', ''5045'', ''5046'',
    ''5047'', ''5065'', ''5072'', ''5074'', ''5085'', ''5094'', ''5099'', ''5111'', ''5122'',
    ''5137'', ''5139'', ''5169'', ''5172'', ''5192'', ''5193'', ''5198'', ''5199'', ''5200'',
    ''5211'', ''5251'', ''5261'', ''5300'', ''5309'', ''5310'', ''5311'', ''5331'', ''5399'',
    ''5411'', ''5422'', ''5441'', ''5451'', ''5462'', ''5499'', ''5611'', ''5621'', ''5631'',
    ''5641'', ''5651'', ''5655'', ''5661'', ''5681'', ''5691'', ''5699'', ''5712'', ''5713'',
    ''5714'', ''5722'', ''5732'', ''5733'', ''5734'', ''5735'', ''5811'', ''5812'', ''5813'',
    ''5814'', ''5912'', ''5921'', ''5931'', ''5933'', ''5940'', ''5941'', ''5942'', ''5945'',
    ''5946'', ''5947'', ''5970'', ''5977'', ''5992'', ''5993'', ''5995'', ''5999'', ''7011'',
    ''7211'', ''7216'', ''7230'', ''7298'', ''7299'', ''7832'', ''7841'', ''7995'', ''8011'',
    ''8021'', ''8062'', ''8099'', ''8211'', ''8398'', ''8999'']"

definition ISO_4217 :: "string list" where
  "ISO_4217 = [
    ''RUB'', ''USD'', ''EUR'', ''GBP'', ''JPY'', ''CNY'', ''CHF'', ''CAD'', ''AUD'', ''NZD'',
    ''SEK'', ''NOK'', ''DKK'', ''PLN'', ''CZK'', ''HUF'', ''TRY'', ''BYN'', ''KZT'', ''UZS'',
    ''AMD'', ''AZN'', ''GEL'', ''UAH'', ''MDL'', ''AED'', ''SGD'', ''HKD'', ''KRW'', ''INR'',
    ''BRL'', ''MXN'', ''ZAR'', ''ILS'']"

definition REQUIRED_FIELDS :: "string list" where
  "REQUIRED_FIELDS = [''transaction_id'', ''user_id'', ''mcc_code'', ''amount'', ''currency'',
     ''transaction_date'', ''channel'']"

definition AMOUNT_MAX :: int where
  "AMOUNT_MAX = 10000000"

definition MAX_AGE_DAYS :: int where
  "MAX_AGE_DAYS = 365"

section \<open>The shapes\<close>

definition uuid_shape :: "string \<Rightarrow> bool" where
  "uuid_shape s = (length s = 36 \<and>
     list_all (\<lambda>i. if i \<in> {8, 13, 18, 23} then s ! i = CHR ''-'' else hex_value (s ! i) \<noteq> None) [0..<36])"

definition amount_shape :: "string \<Rightarrow> bool" where
  "amount_shape s = (let ip = takeWhile is_digit s; r = dropWhile is_digit s in
     1 \<le> length ip \<and> length ip \<le> 13 \<and>
     (case r of [] \<Rightarrow> True
      | c # fp \<Rightarrow> c = CHR ''.'' \<and> list_all is_digit fp \<and> 1 \<le> length fp \<and> length fp \<le> 2))"

text \<open>\<^verbatim>\<open>str.isdigit\<close> and \<^verbatim>\<open>str.isalpha\<close> on code points below 256. \<^verbatim>\<open>upper\<close> is written for ASCII: the upper
  case of another letter is no ASCII text of three letters, so it is in no list of codes.\<close>

definition py_isdigit :: "string \<Rightarrow> bool" where
  "py_isdigit s = (s \<noteq> [] \<and> list_all (\<lambda>c. is_digit c \<or> (of_char c :: nat) \<in> {178, 179, 185}) s)"

definition py_isalpha :: "string \<Rightarrow> bool" where
  "py_isalpha s = (s \<noteq> [] \<and> list_all (\<lambda>c. let n = (of_char c :: nat) in
     (65 \<le> n \<and> n \<le> 90) \<or> (97 \<le> n \<and> n \<le> 122) \<or> n \<in> {170, 181, 186} \<or>
     (192 \<le> n \<and> n \<noteq> 215 \<and> n \<noteq> 247)) s)"

definition upper_char :: "char \<Rightarrow> char" where
  "upper_char c = (let n = (of_char c :: nat) in if 97 \<le> n \<and> n \<le> 122 then char_of (n - 32) else c)"

definition is_valid_mcc :: "json \<Rightarrow> bool" where
  "is_valid_mcc v = (case v of
     JStr s \<Rightarrow> s \<noteq> [] \<and> length s = 4 \<and> py_isdigit s \<and> s \<in> set MCC_REGISTRY | _ \<Rightarrow> False)"

section \<open>The rules\<close>

record validate_env =
  ve_recent :: "(exn + string list) option"
  ve_now :: "nat \<Rightarrow> time"
  ve_iso :: "string \<Rightarrow> iso_result"
  ve_str :: "json \<Rightarrow> string"
  ve_currencies :: "string list"

text \<open>The answer of a rule: it raises, accepted (\<open>None\<close>) or names a reason.\<close>

type_synonym rule_verdict = "exn + string option"

definition fails :: "string \<Rightarrow> rule_verdict" where
  "fails why = Inr (Some why)"

definition accepted :: rule_verdict where
  "accepted = Inr None"

definition parse_date :: "(string \<Rightarrow> iso_result) \<Rightarrow> json \<Rightarrow> time option" where
  "parse_date rd v = (case v of
     JStr s \<Rightarrow> (case rd (replace_all ''Z'' ''+00:00'' s) of
       IsoBad \<Rightarrow> None | IsoNaive t \<Rightarrow> Some t | IsoAware t \<Rightarrow> Some t | IsoOverflow \<Rightarrow> None)
   | _ \<Rightarrow> None)"

definition check_not_null :: "row \<Rightarrow> rule_verdict" where
  "check_not_null r =
    (if list_ex (\<lambda>f. jget r f \<in> {JNull, JStr []}) REQUIRED_FIELDS then fails ''required field is null/empty''
     else case jget r ''user_id'' of
       JStr s \<Rightarrow> if uuid_shape s then accepted else fails ''user_id is not a UUID''
     | _ \<Rightarrow> fails ''user_id is not a UUID'')"

definition value_text :: "validate_env \<Rightarrow> json \<Rightarrow> string" where
  "value_text env v = (case v of JStr s \<Rightarrow> s | _ \<Rightarrow> ve_str env v)"

definition check_amount :: "validate_env \<Rightarrow> row \<Rightarrow> rule_verdict" where
  "check_amount env r = (let t = value_text env (jget r ''amount'') in
     if \<not> amount_shape t then fails ''amount is not a decimal with at most 2 fraction digits''
     else case parse_decimal t of
       Some (Finite v) \<Rightarrow>
         if v \<le> 0 then fails ''amount must be > 0''
         else if of_int AMOUNT_MAX < v then fails ''amount exceeds AMOUNT_MAX''
         else accepted
     | _ \<Rightarrow> Inl (py_error ''InvalidOperation''))"

definition check_mcc :: "row \<Rightarrow> rule_verdict" where
  "check_mcc r = (case jget r ''mcc_code'' of
     JStr s \<Rightarrow> if length s \<noteq> 4 \<or> \<not> py_isdigit s then fails ''mcc_code is not 4-digit ISO 18245''
       else if s \<notin> set MCC_REGISTRY then fails ''mcc_code not in ISO 18245 registry''
       else accepted
   | _ \<Rightarrow> fails ''mcc_code is not 4-digit ISO 18245'')"

definition check_timestamp :: "validate_env \<Rightarrow> nat \<Rightarrow> row \<Rightarrow> rule_verdict" where
  "check_timestamp env i r = (let raw = jget r ''transaction_date''; now = ve_now env i in
     if \<not> py_truthy raw then fails ''transaction_date missing''
     else case parse_date (ve_iso env) raw of
       None \<Rightarrow> fails ''transaction_date is not ISO-8601''
     | Some ts \<Rightarrow>
         if now + 5 * 60 * second_us < ts then fails ''transaction_date is in the future''
         else if ts < now - MAX_AGE_DAYS * day_us then fails ''transaction_date older than MAX_AGE_DAYS''
         else accepted)"

text \<open>What Python compares and hashes a value by in a set; lists and dicts have no hash.\<close>

fun hash_key :: "json \<Rightarrow> json option" where
  "hash_key (JBool b) = Some (JInt (if b then 1 else 0))"
| "hash_key (JFloat q) = Some (if of_int \<lfloor>q\<rfloor> = q then JInt \<lfloor>q\<rfloor> else JFloat q)"
| "hash_key (JArr vs) = None"
| "hash_key (JObj kvs) = None"
| "hash_key v = Some v"

definition check_deduplication :: "row \<Rightarrow> json list \<Rightarrow> rule_verdict \<times> json list" where
  "check_deduplication r ids = (let tid = jget r ''transaction_id'' in
     if \<not> py_truthy tid then (accepted, ids)
     else case hash_key tid of
       None \<Rightarrow> (Inl (py_error ''TypeError''), ids)
     | Some k \<Rightarrow> if k \<in> set ids then (fails ''duplicate transaction_id seen in last 24h'', ids)
                else (accepted, k # ids))"

definition currency_set :: "validate_env \<Rightarrow> string list" where
  "currency_set env = (if ve_currencies env = [] then ISO_4217 else ve_currencies env)"

definition check_currency :: "validate_env \<Rightarrow> row \<Rightarrow> rule_verdict" where
  "check_currency env r = (case jget r ''currency'' of
     JStr s \<Rightarrow> if length s \<noteq> 3 \<or> \<not> py_isalpha s then fails ''currency is not a 3-letter ISO 4217 code''
       else if map upper_char s \<notin> set (currency_set env) then fails ''currency not in ISO 4217 set''
       else accepted
   | _ \<Rightarrow> fails ''currency is not a 3-letter ISO 4217 code'')"

section \<open>A batch\<close>

type_synonym rule = "row \<Rightarrow> json list \<Rightarrow> rule_verdict \<times> json list"

definition stateless :: "(row \<Rightarrow> rule_verdict) \<Rightarrow> rule" where
  "stateless f r ids = (f r, ids)"

definition rules :: "validate_env \<Rightarrow> nat \<Rightarrow> (string \<times> rule) list" where
  "rules env i =
    [(''R1_not_null'', stateless check_not_null),
     (''R2_amount_range'', stateless (check_amount env)),
     (''R3_mcc_iso18245'', stateless check_mcc),
     (''R4_timestamp'', stateless (check_timestamp env i)),
     (''R5_deduplication'', check_deduplication),
     (''R6_iso4217_currency'', stateless (check_currency env))]"

fun first_failure :: "(string \<times> rule) list \<Rightarrow> row \<Rightarrow> json list \<Rightarrow> (string \<times> string) option \<times> json list" where
  "first_failure [] r ids = (None, ids)"
| "first_failure ((name, f) # fs) r ids = (case f r ids of
     (Inl e, ids') \<Rightarrow> (Some (name, ''rule raised''), ids')
   | (Inr (Some why), ids') \<Rightarrow> (Some (name, why), ids')
   | (Inr None, ids') \<Rightarrow> first_failure fs r ids')"

record report =
  vr_valid :: "row list"
  vr_errors :: "(row \<times> string \<times> string) list"

definition fetch_recent_ids :: "validate_env \<Rightarrow> json list" where
  "fetch_recent_ids env = (case ve_recent env of
     None \<Rightarrow> [] | Some (Inl _) \<Rightarrow> [] | Some (Inr ids) \<Rightarrow> map JStr ids)"

fun validate_rows :: "validate_env \<Rightarrow> nat \<Rightarrow> row list \<Rightarrow> json list \<Rightarrow> report" where
  "validate_rows env i [] ids = \<lparr>vr_valid = [], vr_errors = []\<rparr>"
| "validate_rows env i (r # rs) ids = (case first_failure (rules env i) r ids of
     (None, ids') \<Rightarrow> (let rep = validate_rows env (Suc i) rs ids' in rep\<lparr>vr_valid := r # vr_valid rep\<rparr>)
   | (Some e, ids') \<Rightarrow> (let rep = validate_rows env (Suc i) rs ids' in
       rep\<lparr>vr_errors := (r, e) # vr_errors rep\<rparr>))"

definition validate_batch :: "validate_env \<Rightarrow> row list \<Rightarrow> report" where
  "validate_batch env rs = validate_rows env 0 rs (fetch_recent_ids env)"

text \<open>The record as it is loaded: its date is the instant R4 accepted.\<close>

definition cleanse :: "(string \<Rightarrow> iso_result) \<Rightarrow> row \<Rightarrow> row \<times> time option" where
  "cleanse rd r = (r, parse_date rd (jget r ''transaction_date''))"

section \<open>A canonical UUID is a UUID\<close>

lemma hex_char_plain: "hex_value c \<noteq> None \<Longrightarrow>
    c \<noteq> CHR ''u'' \<and> c \<noteq> CHR ''_'' \<and> c \<noteq> CHR ''-'' \<and> c \<noteq> CHR ''+'' \<and> c \<noteq> CHR ''x'' \<and> c \<noteq> CHR ''X'' \<and>
    \<not> is_brace c \<and> \<not> int_space c"
  by (auto simp: hex_value_def is_brace_def int_space_def Let_def split: if_splits)

lemma hex_digits_all:
  "list_all (\<lambda>c. hex_value c \<noteq> None) h \<Longrightarrow> u \<longrightarrow> h \<noteq> [] \<Longrightarrow>
   \<exists>n. hex_digits u acc h = Some n \<and> n < (acc + 1) * 16 ^ length h"
proof (induction h arbitrary: u acc)
  case Nil
  then show ?case by simp
next
  case (Cons c h)
  then obtain d where d: "hex_value c = Some d" by auto
  then have "d < 16" by (auto simp: hex_value_def Let_def split: if_splits)
  obtain n where n: "hex_digits False (16 * acc + d) h = Some n" "n < (16 * acc + d + 1) * 16 ^ length h"
    using Cons by auto
  have "(16 * acc + d + 1) * 16 ^ length h \<le> (acc + 1) * 16 ^ length (c # h)"
  proof -
    have "16 * acc + d + 1 \<le> 16 * (acc + 1)" using \<open>d < 16\<close> by simp
    then have "(16 * acc + d + 1) * 16 ^ length h \<le> (16 * (acc + 1)) * 16 ^ length h" by (rule mult_le_mono1)
    then show ?thesis by (simp only: list.size power_Suc add_Suc_right add_0_right mult_ac)
  qed
  with n d hex_char_plain [of c] show ?case by (auto intro: order_less_le_trans)
qed

lemma uuid_shape_chars: "uuid_shape s \<Longrightarrow> c \<in> set s \<Longrightarrow> hex_value c \<noteq> None \<or> c = CHR ''-''"
proof -
  assume u: "uuid_shape s" and "c \<in> set s"
  then obtain i where "i < 36" "c = s ! i" by (auto simp: uuid_shape_def in_set_conv_nth)
  with u show ?thesis by (auto simp: uuid_shape_def list_all_iff split: if_splits)
qed

lemma uuid_shape_digits:
  assumes "uuid_shape s"
  shows "length (filter (\<lambda>c. c \<noteq> CHR ''-'') s) = 32"
proof -
  have len: "length s = 36" using assms by (simp add: uuid_shape_def)
  have "s ! i \<noteq> CHR ''-'' \<longleftrightarrow> i \<notin> {8, 13, 18, 23}" if "i < 36" for i
  proof -
    have "if i \<in> {8, 13, 18, 23} then s ! i = CHR ''-'' else hex_value (s ! i) \<noteq> None"
      using assms that by (simp add: uuid_shape_def list_all_iff)
    then show ?thesis using hex_char_plain [of "s ! i"] by (auto split: if_splits)
  qed
  then have "filter (\<lambda>i. s ! i \<noteq> CHR ''-'') [0..<36] = filter (\<lambda>i. i \<notin> {8, 13, 18, 23}) [0..<36]"
    by (intro filter_cong) auto
  moreover have "filter (\<lambda>c. c \<noteq> CHR ''-'') (map ((!) s) [0..<36]) =
      map ((!) s) (filter (\<lambda>i. s ! i \<noteq> CHR ''-'') [0..<36])"
    unfolding filter_map comp_def ..
  moreover have "map ((!) s) [0..<36] = s" using map_nth [of s] unfolding len .
  moreover have "length (filter (\<lambda>i::nat. i \<notin> {8, 13, 18, 23}) [0..<36]) = 32" by code_simp
  ultimately show ?thesis by (metis length_map)
qed

lemma uuid_shape_parses:
  assumes "uuid_shape s"
  shows "\<exists>n. parse_uuid s = Some n"
proof -
  let ?h = "filter (\<lambda>c. c \<noteq> CHR ''-'') s"
  have hex: "list_all (\<lambda>c. hex_value c \<noteq> None) ?h"
    using uuid_shape_chars [OF assms] by (auto simp: list_all_iff)
  have len: "length ?h = 32" by (rule uuid_shape_digits [OF assms])
  then obtain a b t where h: "?h = a # b # t" by (cases ?h; cases "tl ?h") auto
  have "CHR ''u'' \<notin> set s" using uuid_shape_chars [OF assms] hex_char_plain by fastforce
  moreover have nb: "\<not> is_brace c" if "c \<in> set s" for c
    using uuid_shape_chars [OF assms that] hex_char_plain by (auto simp: is_brace_def)
  have "strip_by is_brace s = s" using nb by (intro strip_by_id) simp_all
  moreover have plain: "\<not> int_space c" if "c \<in> set ?h" for c
    using that hex hex_char_plain by (auto simp: list_all_iff)
  have "strip_by int_space ?h = ?h" using plain [OF hd_in_set] plain [OF last_in_set]
    by (intro strip_by_id) blast+
  moreover have "hex_value a \<noteq> None" "hex_value b \<noteq> None" using hex h by simp_all
  then have "split_sign ?h = (False, ?h)" "drop_0x ?h = ?h" using hex_char_plain [of a] hex_char_plain [of b] h by auto
  moreover obtain n where "hex_digits True 0 ?h = Some n" "n < 16 ^ 32"
    using hex_digits_all [OF hex, of True 0] h len by auto
  ultimately show ?thesis
    using len by (simp add: parse_uuid_def replace_all_absent replace_all_single int_base16_def)
qed

section \<open>An amount is a number of cents\<close>

lemma digit_plain: "is_digit c \<Longrightarrow> c \<noteq> CHR ''_'' \<and> c \<noteq> CHR ''-'' \<and> c \<noteq> CHR ''+'' \<and> c \<noteq> CHR ''.'' \<and>
    \<not> py_space c \<and> lower_char c = c \<and> c \<noteq> CHR ''i'' \<and> c \<noteq> CHR ''n'' \<and> c \<noteq> CHR ''s''"
  by (auto simp: is_digit_def py_space_def lower_char_def Let_def)

lemma no_space_digits: "list_all is_digit s \<Longrightarrow> py_strip s = s"
  using digit_plain by (intro strip_by_id) (auto simp: list_all_iff dest: hd_in_set last_in_set)

lemma amount_shape_parts:
  assumes "amount_shape s"
  obtains ip fp where "list_all is_digit ip" "list_all is_digit fp" "ip \<noteq> []" "length ip \<le> 13" "length fp \<le> 2"
    "s = ip @ (if fp = [] then [] else CHR ''.'' # fp)"
proof -
  let ?ip = "takeWhile is_digit s" and ?r = "dropWhile is_digit s"
  have ip: "list_all is_digit ?ip" "?ip \<noteq> []" "length ?ip \<le> 13"
    using assms by (auto simp: amount_shape_def Let_def list_all_iff dest: set_takeWhileD)
  show thesis
  proof (cases ?r)
    case Nil
    then have "?ip = s" by (simp add: takeWhile_eq_all_conv dropWhile_eq_Nil_conv)
    with ip show thesis by (intro that [of s "[]"]) simp_all
  next
    case (Cons c fp)
    then have "s = ?ip @ c # fp" using takeWhile_dropWhile_id [of is_digit s] by simp
    moreover have "c = CHR ''.''" "list_all is_digit fp" "length fp \<le> 2" "fp \<noteq> []"
      using assms Cons by (auto simp: amount_shape_def Let_def)
    ultimately show thesis using ip by (intro that [of ?ip fp]) simp_all
  qed
qed

lemma amount_parts_value:
  assumes d: "list_all is_digit ip" "list_all is_digit fp" "ip \<noteq> []" and len: "length ip \<le> 13" "length fp \<le> 2"
    and s: "s = ip @ (if fp = [] then [] else CHR ''.'' # fp)"
  shows "parse_decimal s = Some (Finite (of_nat (digits_nat (ip @ fp) * 10 ^ (2 - length fp)) / 100))"
proof -
  have chars: "is_digit c \<or> c = CHR ''.''" if "c \<in> set s" for c
    using that d s by (auto simp: list_all_iff split: if_splits)
  have ne: "s \<noteq> []" using d(3) s by simp
  have strip: "strip_by py_space s = s"
    using chars [OF hd_in_set [OF ne]] chars [OF last_in_set [OF ne]] digit_plain
    by (intro strip_by_id) (auto simp: py_space_def)
  have us: "filter (\<lambda>c. c \<noteq> CHR ''_'') s = s" using chars digit_plain by (intro filter_True) fastforce
  obtain c cs where c: "ip = c # cs" "is_digit c" using d(1,3) by (cases ip) auto
  have sign: "split_sign s = (False, s)" using c digit_plain [of c] s by simp
  have low: "map lower_char s = s" 
  proof (rule map_idI)
    fix x assume "x \<in> set s"
    from chars [OF this] show "lower_char x = x" using digit_plain [of x] by (auto simp: lower_char_def)
  qed
  have words: "s \<notin> {''inf'', ''infinity''}" "\<not> nan_text s"
    using c digit_plain [of c] s low by (auto simp: nan_text_def Let_def split: if_splits)
  have tk: "takeWhile is_digit s = ip" "dropWhile is_digit s = (if fp = [] then [] else CHR ''.'' # fp)"
    using d s by (auto simp: takeWhile_append2 list_all_iff is_digit_def)
  have fr: "fraction_part (dropWhile is_digit s) = (fp, [])"
    using d(2) by (auto simp: tk list_all_iff takeWhile_eq_all_conv dropWhile_eq_Nil_conv)
  have "length (dropWhile (\<lambda>c. c = CHR ''0'') (ip @ fp)) \<le> 15"
    using len length_dropWhile_le [of "\<lambda>c. c = CHR ''0''" "ip @ fp"] by simp
  then have ok: "exponent_ok (ip @ fp) (- int (length fp))"
    using len by (auto simp: exponent_ok_def Let_def)
  have "decimal_number s = Some (rat_of_nat (digits_nat (ip @ fp)) * ten_to (- int (length fp)))"
    using d(3) ok by (simp add: decimal_number_def Let_def tk(1) fr)
  moreover have "rat_of_nat (digits_nat (ip @ fp)) * ten_to (- int (length fp)) =
      of_nat (digits_nat (ip @ fp) * 10 ^ (2 - length fp)) / 100"
  proof -
    consider "length fp = 0" | "length fp = 1" | "length fp = 2" using len(2) by linarith
    then show ?thesis by cases (simp_all add: ten_to_def)
  qed
  ultimately show "parse_decimal s = Some (Finite (of_nat (digits_nat (ip @ fp) * 10 ^ (2 - length fp)) / 100))"
    using words by (simp add: parse_decimal_def us strip sign low)
qed

lemma amount_shape_value:
  assumes "amount_shape s"
  shows "\<exists>k::nat. parse_decimal s = Some (Finite (of_nat k / 100))"
  by (rule amount_shape_parts [OF assms]) (blast intro: amount_parts_value)

section \<open>What the rules accept\<close>

text \<open>A record ClickHouse can store: a UUID, a \<open>Decimal(15, 2)\<close> within the bounds, a known MCC, an
  instant of the last year and a known currency.\<close>

definition storable :: "validate_env \<Rightarrow> nat \<Rightarrow> row \<Rightarrow> bool" where
  "storable env i r =
    ((\<forall>f \<in> set REQUIRED_FIELDS. jget r f \<noteq> JNull \<and> jget r f \<noteq> JStr []) \<and>
     (\<exists>u. jget r ''user_id'' = JStr u \<and> uuid_shape u) \<and>
     amount_shape (value_text env (jget r ''amount'')) \<and>
     (\<exists>k::nat. 0 < k \<and> k \<le> 10 ^ 9 \<and>
        parse_decimal (value_text env (jget r ''amount'')) = Some (Finite (of_nat k / 100))) \<and>
     is_valid_mcc (jget r ''mcc_code'') \<and>
     (\<exists>ts. parse_date (ve_iso env) (jget r ''transaction_date'') = Some ts \<and>
        ts \<le> ve_now env i + 5 * 60 * second_us \<and> ve_now env i - 365 * day_us \<le> ts) \<and>
     (\<exists>c. jget r ''currency'' = JStr c \<and> length c = 3 \<and> py_isalpha c \<and>
        map upper_char c \<in> set (currency_set env)))"

lemma check_not_null_passes: "check_not_null r = accepted \<longleftrightarrow>
    (\<forall>f \<in> set REQUIRED_FIELDS. jget r f \<noteq> JNull \<and> jget r f \<noteq> JStr []) \<and>
    (\<exists>u. jget r ''user_id'' = JStr u \<and> uuid_shape u)"
  by (auto simp: check_not_null_def accepted_def fails_def list_ex_iff split: json.split)

lemma check_amount_passes: "check_amount env r = accepted \<longleftrightarrow>
    amount_shape (value_text env (jget r ''amount'')) \<and>
    (\<exists>k::nat. 0 < k \<and> k \<le> 10 ^ 9 \<and>
       parse_decimal (value_text env (jget r ''amount'')) = Some (Finite (of_nat k / 100)))"
proof (cases "amount_shape (value_text env (jget r ''amount''))")
  case True
  from amount_shape_value [OF this] obtain k :: nat where
    k: "parse_decimal (value_text env (jget r ''amount'')) = Some (Finite (of_nat k / 100))" by blast
  have "of_int AMOUNT_MAX < (of_nat k / 100 :: rat) \<longleftrightarrow> 10 ^ 9 < k"
  proof -
    have "of_int AMOUNT_MAX < (of_nat k / 100 :: rat) \<longleftrightarrow> rat_of_nat (10 ^ 9) < rat_of_nat k"
      by (simp add: AMOUNT_MAX_def field_simps)
    then show ?thesis by (simp only: of_nat_less_iff)
  qed
  then have "check_amount env r = accepted \<longleftrightarrow> 0 < k \<and> k \<le> 10 ^ 9"
    using True k by (auto simp: check_amount_def accepted_def fails_def)
  moreover have "of_nat k / 100 = (of_nat k' / 100 :: rat) \<longleftrightarrow> k = k'" for k' by simp
  ultimately show ?thesis using True k by auto
next
  case False
  then show ?thesis by (simp add: check_amount_def accepted_def fails_def)
qed

lemma check_mcc_passes: "check_mcc r = accepted \<longleftrightarrow> is_valid_mcc (jget r ''mcc_code'')"
  by (auto simp: check_mcc_def is_valid_mcc_def accepted_def fails_def split: json.split)

lemma check_timestamp_passes: "check_timestamp env i r = accepted \<longleftrightarrow>
    (\<exists>ts. parse_date (ve_iso env) (jget r ''transaction_date'') = Some ts \<and>
       ts \<le> ve_now env i + 5 * 60 * second_us \<and> ve_now env i - 365 * day_us \<le> ts) \<and>
    py_truthy (jget r ''transaction_date'')"
  by (auto simp: check_timestamp_def accepted_def fails_def Let_def MAX_AGE_DAYS_def split: option.split)

lemma check_currency_passes: "check_currency env r = accepted \<longleftrightarrow>
    (\<exists>c. jget r ''currency'' = JStr c \<and> length c = 3 \<and> py_isalpha c \<and>
       map upper_char c \<in> set (currency_set env))"
  by (auto simp: check_currency_def accepted_def fails_def split: json.split)

text \<open>The id of a record as the set of seen ids holds it; a falsy id is not looked up.\<close>

definition seen_key :: "row \<Rightarrow> json list" where
  "seen_key r = (let tid = jget r ''transaction_id'' in
     if py_truthy tid then (case hash_key tid of None \<Rightarrow> [] | Some k \<Rightarrow> [k]) else [])"

lemma check_deduplication_cases:
  "check_deduplication r ids = (v, ids') \<Longrightarrow>
   (v = accepted \<and> ids' = seen_key r @ ids \<and> set (seen_key r) \<inter> set ids = {}) \<or>
   (v \<noteq> accepted \<and> ids' = ids \<and>
     (hash_key (jget r ''transaction_id'') = None \<or> set (seen_key r) \<inter> set ids \<noteq> {}))"
proof -
  assume d: "check_deduplication r ids = (v, ids')"
  let ?tid = "jget r ''transaction_id''"
  consider "\<not> py_truthy ?tid" | "py_truthy ?tid" "hash_key ?tid = None"
    | k where "py_truthy ?tid" "hash_key ?tid = Some k" by (cases "py_truthy ?tid"; cases "hash_key ?tid") auto
  then show ?thesis
  proof cases
    case 1
    with d show ?thesis by (simp add: check_deduplication_def seen_key_def)
  next
    case 2
    with d show ?thesis by (auto simp: check_deduplication_def accepted_def)
  next
    case (3 k)
    with d show ?thesis
      by (cases "k \<in> set ids") (auto simp: check_deduplication_def seen_key_def accepted_def fails_def)
  qed
qed

declare first_failure.simps(2) [simp del]

lemma first_failure_Cons: "first_failure ((name, f) # fs) r ids =
    (if fst (f r ids) = accepted then first_failure fs r (snd (f r ids))
     else (Some (name, case fst (f r ids) of Inl e \<Rightarrow> ''rule raised'' | Inr (Some why) \<Rightarrow> why
        | Inr None \<Rightarrow> []), snd (f r ids)))"
  by (auto simp: first_failure.simps accepted_def split: prod.split sum.split option.split)

lemma truthy_date: "parse_date rd v = Some ts \<Longrightarrow> v \<noteq> JStr [] \<Longrightarrow> py_truthy v"
  by (auto simp: parse_date_def split: json.splits)

text \<open>A record of which nothing is wrong but the id accepted, unless its id was seen or has no hash.\<close>

lemma first_failure_spec:
  assumes "first_failure (rules env i) r ids = (res, ids')"
  shows "case res of
      None \<Rightarrow> storable env i r \<and> set (seen_key r) \<inter> set ids = {} \<and> ids' = seen_key r @ ids
    | Some (rule, why) \<Rightarrow> (\<not> storable env i r \<and> (ids' = ids \<or> ids' = seen_key r @ ids)) \<or>
        (rule = ''R5_deduplication'' \<and> ids' = ids \<and>
         (hash_key (jget r ''transaction_id'') = None \<or> set (seen_key r) \<inter> set ids \<noteq> {}))"
proof (cases "check_not_null r = accepted \<and> check_amount env r = accepted \<and> check_mcc r = accepted \<and>
    check_timestamp env i r = accepted")
  case False
  then have "\<not> storable env i r"
    using truthy_date [of "ve_iso env" "jget r ''transaction_date''"]
    by (auto simp: storable_def check_not_null_passes check_amount_passes check_mcc_passes
        check_timestamp_passes REQUIRED_FIELDS_def)
  moreover have "\<exists>e. res = Some e \<and> ids' = ids"
    using assms False by (auto simp: rules_def first_failure_Cons stateless_def split: if_splits)
  ultimately show ?thesis by auto
next
  case True
  obtain v ids2 where d: "check_deduplication r ids = (v, ids2)" by (cases "check_deduplication r ids")
  have run: "(res, ids') = (if v = accepted then
      (if check_currency env r = accepted then (None, ids2)
       else (Some (''R6_iso4217_currency'', case check_currency env r of Inl e \<Rightarrow> ''rule raised''
          | Inr (Some why) \<Rightarrow> why | Inr None \<Rightarrow> []), ids2))
    else (Some (''R5_deduplication'', case v of Inl e \<Rightarrow> ''rule raised''
          | Inr (Some why) \<Rightarrow> why | Inr None \<Rightarrow> []), ids2))"
    using assms True d by (cases "v = accepted"; cases "check_currency env r = accepted")
      (simp_all add: rules_def first_failure_Cons stateless_def)
  have st: "storable env i r \<longleftrightarrow> check_currency env r = accepted"
    using True unfolding storable_def check_not_null_passes check_amount_passes check_mcc_passes
      check_timestamp_passes check_currency_passes by blast
  show ?thesis
  proof (cases "v = accepted")
    case True
    with check_deduplication_cases [OF d] have "ids2 = seen_key r @ ids" "set (seen_key r) \<inter> set ids = {}" by auto
    with run True st show ?thesis by (cases "check_currency env r = accepted") simp_all
  next
    case False
    with check_deduplication_cases [OF d] have "ids2 = ids"
      "hash_key (jget r ''transaction_id'') = None \<or> set (seen_key r) \<inter> set ids \<noteq> {}" by auto
    with run False show ?thesis by simp
  qed
qed

section \<open>Batches\<close>

definition earlier_keys :: "row list \<Rightarrow> nat \<Rightarrow> json set" where
  "earlier_keys rs j = set (concat (map seen_key (take j rs)))"

lemma earlier_keys_0 [simp]: "earlier_keys rs 0 = {}"
  by (simp add: earlier_keys_def)

lemma earlier_keys_Suc [simp]: "earlier_keys (r # rs) (Suc j) = set (seen_key r) \<union> earlier_keys rs j"
  by (simp add: earlier_keys_def)

text \<open>Why a rejected record at place \<open>j\<close> of the rows was rejected, \<open>ids\<close> being the ids seen before them.\<close>

definition justified :: "validate_env \<Rightarrow> nat \<Rightarrow> row list \<Rightarrow> json set \<Rightarrow> nat \<Rightarrow> string \<Rightarrow> bool" where
  "justified env i rs ids j rule = (\<not> storable env (i + j) (rs ! j) \<or>
     rule = ''R5_deduplication'' \<and> (hash_key (jget (rs ! j) ''transaction_id'') = None \<or>
       set (seen_key (rs ! j)) \<inter> (ids \<union> earlier_keys rs j) \<noteq> {}))"

lemma justified_Cons:
  "justified env (Suc i) rs ids' j rule \<Longrightarrow> ids' \<subseteq> ids \<union> set (seen_key r) \<Longrightarrow>
   justified env i (r # rs) ids (Suc j) rule"
  by (auto simp: justified_def)

lemma distinct_seen_key: "distinct (seen_key r)"
  by (simp add: seen_key_def Let_def split: option.split)

lemma validate_rows_spec:
  "let rep = validate_rows env i rs ids in
   mset rs = mset (vr_valid rep) + mset (map fst (vr_errors rep)) \<and>
   (\<forall>r \<in> set (vr_valid rep). set (seen_key r) \<inter> set ids = {} \<and>
      (\<exists>j < length rs. rs ! j = r \<and> storable env (i + j) r)) \<and>
   distinct (concat (map seen_key (vr_valid rep))) \<and>
   (\<forall>(r, rule, why) \<in> set (vr_errors rep). \<exists>j < length rs. rs ! j = r \<and> justified env i rs (set ids) j rule)"
proof (induction rs arbitrary: i ids)
  case Nil
  then show ?case by simp
next
  case (Cons r rs)
  obtain res ids' where run: "first_failure (rules env i) r ids = (res, ids')" by fastforce
  define rep where "rep = validate_rows env (Suc i) rs ids'"
  note sp = first_failure_spec [OF run]
  have IH: "mset rs = mset (vr_valid rep) + mset (map fst (vr_errors rep))"
    "\<forall>r \<in> set (vr_valid rep). set (seen_key r) \<inter> set ids' = {} \<and>
       (\<exists>j < length rs. rs ! j = r \<and> storable env (Suc i + j) r)"
    "distinct (concat (map seen_key (vr_valid rep)))"
    "\<forall>(r, rule, why) \<in> set (vr_errors rep). \<exists>j < length rs. rs ! j = r \<and> justified env (Suc i) rs (set ids') j rule"
    using Cons.IH [of "Suc i" ids'] by (simp_all add: rep_def Let_def)
  have sub: "set ids \<subseteq> set ids'" "set ids' \<subseteq> set ids \<union> set (seen_key r)"
    using sp by (auto split: option.splits)
  have valid: "\<forall>q \<in> set (vr_valid rep). set (seen_key q) \<inter> set ids = {} \<and>
      (\<exists>j < length (r # rs). (r # rs) ! j = q \<and> storable env (i + j) q)"
  proof
    fix q assume "q \<in> set (vr_valid rep)"
    with IH(2) sub(1) obtain j where "set (seen_key q) \<inter> set ids = {}" "j < length rs" "rs ! j = q"
      "storable env (Suc i + j) q" by blast
    then show "set (seen_key q) \<inter> set ids = {} \<and>
        (\<exists>j < length (r # rs). (r # rs) ! j = q \<and> storable env (i + j) q)"
      by (intro conjI exI [of _ "Suc j"]) simp_all
  qed
  have errors: "\<forall>(q, rule, why) \<in> set (vr_errors rep).
      \<exists>j < length (r # rs). (r # rs) ! j = q \<and> justified env i (r # rs) (set ids) j rule"
    using IH(4) justified_Cons [OF _ sub(2)] by fastforce
  show ?case
  proof (cases res)
    case None
    with sp have ok: "storable env i r" "set (seen_key r) \<inter> set ids = {}" "ids' = seen_key r @ ids" by simp_all
    have "set (seen_key r) \<inter> set (concat (map seen_key (vr_valid rep))) = {}"
      using IH(2) ok(3) by auto
    then have "distinct (concat (map seen_key (r # vr_valid rep)))" using IH(3) by (simp add: distinct_seen_key)
    moreover have "validate_rows env i (r # rs) ids = rep\<lparr>vr_valid := r # vr_valid rep\<rparr>"
      using run None by (simp add: rep_def Let_def)
    ultimately show ?thesis using IH(1) valid errors ok(1,2) by (auto simp: Let_def)
  next
    case (Some e)
    obtain rule why where e: "e = (rule, why)" by (cases e)
    from sp Some e have "justified env i (r # rs) (set ids) 0 rule" by (auto simp: justified_def)
    moreover have "validate_rows env i (r # rs) ids = rep\<lparr>vr_errors := (r, e) # vr_errors rep\<rparr>"
      using run Some by (simp add: rep_def Let_def)
    ultimately show ?thesis using IH(1,3) valid errors by (auto simp: Let_def e)
  qed
qed

lemma validate_batch_spec:
  "let rep = validate_batch env rs; ids = set (fetch_recent_ids env) in
   mset rs = mset (vr_valid rep) + mset (map fst (vr_errors rep)) \<and>
   (\<forall>r \<in> set (vr_valid rep). set (seen_key r) \<inter> ids = {} \<and>
      (\<exists>u n. jget r ''user_id'' = JStr u \<and> parse_uuid u = Some n) \<and>
      (\<exists>j < length rs. rs ! j = r \<and> storable env j r)) \<and>
   distinct (concat (map seen_key (vr_valid rep))) \<and>
   (\<forall>(r, rule, why) \<in> set (vr_errors rep). \<exists>j < length rs. rs ! j = r \<and> justified env 0 rs ids j rule)"
proof -
  have "\<exists>u n. jget r ''user_id'' = JStr u \<and> parse_uuid u = Some n" if "storable env j r" for j r
    using that uuid_shape_parses by (auto simp: storable_def)
  then show ?thesis
    using validate_rows_spec [of env 0 rs "fetch_recent_ids env"]
    unfolding Let_def validate_batch_def add_0 by blast
qed

text \<open>C19: \<^verbatim>\<open>DataValidator.validate_batch\<close>. Every record of a batch comes out exactly once, valid or with an
  error. A valid record can be stored: a UUID for user, an amount of 0.01 to 10 000 000.00 in whole
  cents, a known MCC, an instant of the last year, a known currency; no two valid records share an
  id and none has an id ClickHouse knows. A record is rejected only for breaking one of these, and
  one that could be stored only by R5, for an id seen earlier or of no hash.\<close>

theorem validation_is_exact:
  "let rep = validate_batch env rs; ids = set (fetch_recent_ids env) in
   mset rs = mset (vr_valid rep) + mset (map fst (vr_errors rep)) \<and>
   (\<forall>r \<in> set (vr_valid rep). set (seen_key r) \<inter> ids = {} \<and>
      (\<exists>u n. jget r ''user_id'' = JStr u \<and> parse_uuid u = Some n) \<and>
      (\<exists>j < length rs. rs ! j = r \<and> storable env j r)) \<and>
   distinct (concat (map seen_key (vr_valid rep))) \<and>
   (\<forall>(r, rule, why) \<in> set (vr_errors rep). \<exists>j < length rs. rs ! j = r \<and> justified env 0 rs ids j rule)"
  by (rule validate_batch_spec)

section \<open>A corrected record is taken for a duplicate\<close>

definition sample_validate :: validate_env where
  "sample_validate = \<lparr>ve_recent = None, ve_now = \<lambda>_. 1000, ve_iso = \<lambda>_. IsoAware 500,
     ve_str = \<lambda>_. [], ve_currencies = []\<rparr>"

definition sample_record :: "string \<Rightarrow> row" where
  "sample_record cur = [(''transaction_id'', JStr ''t1''), (''user_id'', JStr ''11111111-2222-3333-4444-555555555555''),
     (''mcc_code'', JStr ''5411''), (''amount'', JStr ''12.50''), (''currency'', JStr cur),
     (''transaction_date'', JStr ''2026-01-01''), (''channel'', JStr ''POS'')]"

lemmas sample_record_eval = jget_def members_def sample_record_def sample_validate_def

text \<open>
  R5 keeps the id of a record before R6 looks at its currency. Where the same transaction is sent with
  an unknown currency first and again with the right one, both are rejected: the second as a
  duplicate of a record that is not loaded.
\<close>

lemma corrected_currency_rejected:
  "vr_valid (validate_batch sample_validate [sample_record ''XXX'', sample_record ''RUB'']) = [] \<and>
   vr_valid (validate_batch sample_validate [sample_record ''RUB'']) = [sample_record ''RUB'']"
proof -
  have u: "uuid_shape ''11111111-2222-3333-4444-555555555555''" by code_simp
  have a: "amount_shape ''12.50''" "parse_decimal ''12.50'' = Some (Finite (25 / 2))"
    by (code_simp, rule parse_decimal_examples)
  have m: "''5411'' \<in> set MCC_REGISTRY" "py_isdigit ''5411''" by code_simp+
  have c: "py_isalpha ''RUB''" "map upper_char ''RUB'' \<in> set ISO_4217" "map upper_char ''XXX'' \<notin> set ISO_4217"
    "py_isalpha ''XXX''" by code_simp+
  have ok: "check_not_null (sample_record cur) = accepted" "check_amount sample_validate (sample_record cur) = accepted"
    "check_mcc (sample_record cur) = accepted" "check_timestamp sample_validate i (sample_record cur) = accepted"
    if "cur \<noteq> []" for cur i
    using that u a m
    by (simp_all add: sample_record_eval check_not_null_def check_amount_def check_mcc_def check_timestamp_def
        REQUIRED_FIELDS_def value_text_def AMOUNT_MAX_def MAX_AGE_DAYS_def parse_date_def second_us_def
        day_us_def hour_us_def)
  have cur: "check_currency sample_validate (sample_record ''RUB'') = accepted"
    "check_currency sample_validate (sample_record ''XXX'') = fails ''currency not in ISO 4217 set''"
    using c by (simp_all add: sample_record_eval check_currency_def currency_set_def)
  have dup: "check_deduplication (sample_record x) [] = (accepted, [JStr ''t1''])"
    "check_deduplication (sample_record x) [JStr ''t1''] = (fails ''duplicate transaction_id seen in last 24h'', [JStr ''t1''])" for x
    by (simp_all add: sample_record_eval check_deduplication_def)
  have ne: "fails why \<noteq> accepted" for why by (simp add: fails_def accepted_def)
  have ids: "fetch_recent_ids sample_validate = []" by (simp add: fetch_recent_ids_def sample_validate_def)
  show ?thesis
    using ok [of "''RUB''"] ok [of "''XXX''"]
    by (simp add: validate_batch_def ids rules_def first_failure_Cons stateless_def cur dup ne Let_def)
qed

lemma validation_is_exact_witness:
  "vr_valid (validate_batch sample_validate [[]]) = [] \<and>
   map fst (vr_errors (validate_batch sample_validate [[]])) = [[]]"
proof -
  let ?rep = "validate_batch sample_validate [[]]"
  have t: "mset [[]] = mset (vr_valid ?rep) + mset (map fst (vr_errors ?rep))"
    "\<forall>r \<in> set (vr_valid ?rep). \<exists>u n. jget r ''user_id'' = JStr u \<and> parse_uuid u = Some n"
    "\<forall>r \<in> set (vr_valid ?rep). \<exists>j < length [[] :: row]. [[]] ! j = r"
    using validation_is_exact [of sample_validate "[[]]"] unfolding Let_def by blast+
  have "r \<notin> set (vr_valid ?rep)" for r
  proof
    assume r: "r \<in> set (vr_valid ?rep)"
    with t(3) have "r = []" by fastforce
    with t(2) r show False by fastforce
  qed
  then have "vr_valid ?rep = []" by (cases "vr_valid ?rep") auto
  moreover from this t(1) have "mset (map fst (vr_errors ?rep)) = {#[]#}" by simp
  then have "map fst (vr_errors ?rep) = [[]]" by (rule mset_single_iff [THEN iffD1])
  ultimately show ?thesis ..
qed

end
