(* ===== verification/EtlLoad.thy ===== *)
theory EtlLoad
  imports EtlValidator
begin

text \<open>
  The load step of the ETL (\<^verbatim>\<open>services/etl/app/ch_loader.py\<close>): projection onto the columns of the buffer
  table, the ids already loaded, the insert that halves a block until the rows ClickHouse refuses
  are alone, the flushes and the quarantine. ClickHouse's answers, its column list, its time zone and
  Arrow's cast to a string are parameters. ClickHouse is not restarted between an insert and its
  flush: the buffer table keeps rows in memory only.
\<close>

section \<open>Rows and tables\<close>

type_synonym clean_row = "row \<times> time option"

record load_row =
  lr_id :: string
  lr_at :: "time option"
  lr_cells :: row

record warehouse =
  wh_target :: "load_row list"
  wh_buffer :: "load_row list"
  wh_calls :: nat
  wh_rejected :: "(load_row \<times> nat) list"

text \<open>\<open>le_code e\<close> is the number after \<^verbatim>\<open>Code:\<close> in the text of an error that is a \<^verbatim>\<open>DatabaseError\<close> and no
  \<^verbatim>\<open>OperationalError\<close>. The flag of a failure says that the server carried the call out all the same.\<close>

record load_env =
  le_columns :: "exn + (string \<times> string) list"
  le_cast :: "json \<Rightarrow> string"
  le_query :: "nat \<Rightarrow> exn option"
  le_zone :: "time \<Rightarrow> int"
  le_insert :: "nat \<Rightarrow> load_row list \<Rightarrow> (exn \<times> bool) option"
  le_flush :: "nat \<Rightarrow> (exn \<times> bool) option"
  le_code :: "exn \<Rightarrow> nat option"
  le_quarantine :: "nat \<Rightarrow> exn option"

definition ROW_DATA_ERROR_CODES :: "nat list" where
  "ROW_DATA_ERROR_CODES = [6, 27, 38, 41, 69, 70, 72, 131, 321, 376, 407, 691]"

definition row_data_error_code :: "load_env \<Rightarrow> exn \<Rightarrow> nat option" where
  "row_data_error_code env e = (case le_code env e of
     None \<Rightarrow> None
   | Some code \<Rightarrow> if code \<in> set ROW_DATA_ERROR_CODES then Some code else None)"

definition schema_mismatch :: exn where
  "schema_mismatch = py_error ''SchemaMismatchError''"

section \<open>Projection\<close>

definition target_columns :: "load_env \<Rightarrow> exn + string list" where
  "target_columns env = (case le_columns env of
     Inl e \<Rightarrow> Inl e
   | Inr cs \<Rightarrow> (let names = map fst (filter (\<lambda>(c, kind). kind \<notin> {''MATERIALIZED'', ''ALIAS''}) cs) in
       if list_ex (\<lambda>c. c \<notin> set names) REQUIRED_FIELDS then Inl schema_mismatch else Inr names))"

definition load_row_of :: "load_env \<Rightarrow> string list \<Rightarrow> clean_row \<Rightarrow> load_row" where
  "load_row_of env names = (\<lambda>(r, t).
     \<lparr>lr_id = (case jget r ''transaction_id'' of JStr s \<Rightarrow> s | v \<Rightarrow> le_cast env v), lr_at = t,
      lr_cells = filter (\<lambda>(k, v). k \<in> set names) r\<rparr>)"

text \<open>The columns of a file are those of its first record.\<close>

definition project :: "load_env \<Rightarrow> clean_row list \<Rightarrow> exn + load_row list" where
  "project env rows = (case target_columns env of
     Inl e \<Rightarrow> Inl e
   | Inr names \<Rightarrow>
       if list_ex (\<lambda>c. c \<notin> set (map fst (fst (hd rows)))) REQUIRED_FIELDS then Inl schema_mismatch
       else Inr (map (load_row_of env names) rows))"

section \<open>Calls of the server\<close>

definition flush_buffer :: "load_env \<Rightarrow> warehouse \<Rightarrow> (exn + unit) \<times> warehouse" where
  "flush_buffer env w = (let n = wh_calls w; w1 = w\<lparr>wh_calls := Suc n\<rparr>;
       done = w1\<lparr>wh_target := wh_target w1 @ wh_buffer w1, wh_buffer := []\<rparr> in
     case le_flush env n of
       None \<Rightarrow> (Inr (), done)
     | Some (e, applied) \<Rightarrow> (Inl e, if applied then done else w1))"

text \<open>\<^verbatim>\<open>toDate\<close> in the server's zone, and the days of the bounds, in UTC with a day of slack.\<close>

definition day_of :: "int \<Rightarrow> int" where
  "day_of t = t div day_us"

definition ID_CHUNK :: nat where
  "ID_CHUNK = 1000"

definition select_ids :: "load_env \<Rightarrow> warehouse \<Rightarrow> int \<Rightarrow> int \<Rightarrow> string list \<Rightarrow> string list" where
  "select_ids env w lo hi ids = map lr_id (filter (\<lambda>r. lr_id r \<in> set ids \<and> (case lr_at r of
       None \<Rightarrow> False | Some t \<Rightarrow> lo \<le> day_of (t + le_zone env t) \<and> day_of (t + le_zone env t) \<le> hi))
     (wh_target w))"

function query_chunks :: "load_env \<Rightarrow> int \<Rightarrow> int \<Rightarrow> string list \<Rightarrow> warehouse \<Rightarrow> (exn + string list) \<times> warehouse" where
  "query_chunks env lo hi ids w =
    (if ids = [] then (Inr [], w)
     else (let w1 = w\<lparr>wh_calls := Suc (wh_calls w)\<rparr> in
       case le_query env (wh_calls w) of
         Some e \<Rightarrow> (Inl e, w1)
       | None \<Rightarrow> (case query_chunks env lo hi (drop ID_CHUNK ids) w1 of
           (Inl e, w2) \<Rightarrow> (Inl e, w2)
         | (Inr found, w2) \<Rightarrow> (Inr (select_ids env w lo hi (take ID_CHUNK ids) @ found), w2))))"
  by pat_completeness auto
termination
  by (relation "measure (\<lambda>(env, lo, hi, ids, w). length ids)") (auto simp: ID_CHUNK_def)

declare query_chunks.simps [simp del]

definition existing_ids :: "load_env \<Rightarrow> load_row list \<Rightarrow> warehouse \<Rightarrow> (exn + string list) \<times> warehouse" where
  "existing_ids env rows w = (case List.map_filter lr_at rows of
     [] \<Rightarrow> (Inl schema_mismatch, w)
   | t # ts \<Rightarrow> query_chunks env (day_of (fold min ts t - day_us)) (day_of (fold max ts t + day_us))
       (remdups (map lr_id rows)) w)"

section \<open>The insert\<close>

lemma halves_shorter: "rows \<noteq> [] \<Longrightarrow> length rows \<noteq> Suc 0 \<Longrightarrow> length rows - length rows div 2 < length rows"
  by (cases rows; cases "tl rows") auto

text \<open>A block ClickHouse refuses for a value is not written at all. An empty block is never sent; if the
  server refused one, the halving would not end.\<close>

function insert_rows :: "load_env \<Rightarrow> load_row list \<Rightarrow> warehouse \<Rightarrow> (exn + nat) \<times> warehouse" where
  "insert_rows env rows w = (let w1 = w\<lparr>wh_calls := Suc (wh_calls w)\<rparr> in
     case le_insert env (wh_calls w) rows of
       None \<Rightarrow> (Inr (length rows), w1\<lparr>wh_buffer := wh_buffer w1 @ rows\<rparr>)
     | Some (e, applied) \<Rightarrow> (case row_data_error_code env e of
         None \<Rightarrow> (Inl e, if applied then w1\<lparr>wh_buffer := wh_buffer w1 @ rows\<rparr> else w1)
       | Some code \<Rightarrow>
           if rows = [] then (Inl (py_error ''RecursionError''), w1)
           else if length rows = 1 then (Inr 0, w1\<lparr>wh_rejected := wh_rejected w1 @ [(hd rows, code)]\<rparr>)
           else (case insert_rows env (take (length rows div 2) rows) w1 of
               (Inl e, w2) \<Rightarrow> (Inl e, w2)
             | (Inr n, w2) \<Rightarrow> (case insert_rows env (drop (length rows div 2) rows) w2 of
                 (Inl e, w3) \<Rightarrow> (Inl e, w3)
               | (Inr m, w3) \<Rightarrow> (Inr (n + m), w3)))))"
  by pat_completeness auto
termination
  by (relation "measure (\<lambda>(env, rows, w). length rows)") (auto intro!: halves_shorter)

declare insert_rows.simps [simp del]

section \<open>A file\<close>

text \<open>The rows refused in this call go to a quarantine file; \<open>quar\<close> are those set aside so far.\<close>

record loader =
  lo_wh :: warehouse
  lo_quar :: "(load_row \<times> nat) list"

definition quarantine :: "load_env \<Rightarrow> loader \<Rightarrow> (exn + unit) \<times> loader" where
  "quarantine env s = (let w = lo_wh s in
     if wh_rejected w = [] then (Inr (), s)
     else case le_quarantine env (wh_calls w) of
       Some e \<Rightarrow> (Inl e, s\<lparr>lo_wh := w\<lparr>wh_rejected := []\<rparr>\<rparr>)
     | None \<Rightarrow> (Inr (), s\<lparr>lo_wh := w\<lparr>wh_rejected := []\<rparr>, lo_quar := lo_quar s @ wh_rejected w\<rparr>))"

text \<open>The part after the existence check; \<open>w\<close> has an empty list of refused rows.\<close>

definition insert_new :: "load_env \<Rightarrow> load_row list \<Rightarrow> loader \<Rightarrow> (exn + nat) \<times> loader" where
  "insert_new env rows s =
    (if rows = [] then (Inr 0, s)
     else (case insert_rows env rows ((lo_wh s)\<lparr>wh_rejected := []\<rparr>) of
       (Inl e, w1) \<Rightarrow> (Inl e, s\<lparr>lo_wh := w1\<rparr>)
     | (Inr n, w1) \<Rightarrow> (case flush_buffer env w1 of
         (Inl e, w2) \<Rightarrow> (Inl e, s\<lparr>lo_wh := w2\<rparr>)
       | (Inr _, w2) \<Rightarrow> (case quarantine env (s\<lparr>lo_wh := w2\<rparr>) of
           (Inl e, s3) \<Rightarrow> (Inl e, s3)
         | (Inr _, s3) \<Rightarrow> (Inr n, s3)))))"

definition load_new :: "load_env \<Rightarrow> load_row list \<Rightarrow> loader \<Rightarrow> (exn + nat) \<times> loader" where
  "load_new env rows s = (case flush_buffer env (lo_wh s) of
     (Inl e, w1) \<Rightarrow> (Inl e, s\<lparr>lo_wh := w1\<rparr>)
   | (Inr _, w1) \<Rightarrow> (case existing_ids env rows w1 of
       (Inl e, w2) \<Rightarrow> (Inl e, s\<lparr>lo_wh := w2\<rparr>)
     | (Inr found, w2) \<Rightarrow>
         insert_new env (filter (\<lambda>r. lr_id r \<notin> set found) rows) (s\<lparr>lo_wh := w2\<rparr>)))"

text \<open>A missing file is \<open>None\<close>.\<close>

definition load_parquet :: "load_env \<Rightarrow> clean_row list option \<Rightarrow> loader \<Rightarrow> (exn + nat) \<times> loader" where
  "load_parquet env file s = (case file of
     None \<Rightarrow> (Inl (py_error ''FileNotFoundError''), s)
   | Some rows \<Rightarrow>
       if rows = [] then (Inr 0, s)
       else (case project env rows of
         Inl e \<Rightarrow> (Inl e, s)
       | Inr table \<Rightarrow> load_new env table s))"

fun load_paths :: "load_env \<Rightarrow> clean_row list option list \<Rightarrow> nat \<Rightarrow> loader \<Rightarrow> (exn + nat) \<times> loader" where
  "load_paths env [] n s = (Inr n, s)"
| "load_paths env (f # fs) n s = (case load_parquet env f s of
     (Inl e, s1) \<Rightarrow> (Inl e, s1)
   | (Inr k, s1) \<Rightarrow> load_paths env fs (n + k) s1)"

section \<open>The insert splits a block into what is loaded and what is refused\<close>

definition bad_free :: "(load_row \<Rightarrow> bool) \<Rightarrow> load_env \<Rightarrow> bool" where
  "bad_free bad env = (\<forall>n rows. rows \<noteq> [] \<longrightarrow> (if list_ex bad rows
     then (\<exists>e a code. le_insert env n rows = Some (e, a) \<and> row_data_error_code env e = Some code)
     else le_insert env n rows = None))"

text \<open>Whatever the server answers, the rows of a block are each buffered or refused at most once.\<close>

lemma insert_rows_cases:
  "insert_rows env rows w = (res, w') \<Longrightarrow>
   \<exists>ins rej. wh_buffer w' = wh_buffer w @ ins \<and> wh_rejected w' = wh_rejected w @ rej \<and>
     wh_target w' = wh_target w \<and> mset ins + mset (map fst rej) \<subseteq># mset rows \<and>
     (\<forall>n. res = Inr n \<longrightarrow> n = length ins \<and> mset ins + mset (map fst rej) = mset rows)"
proof (induction env rows w arbitrary: res w' rule: insert_rows.induct)
  case (1 env rows w)
  define w1 where "w1 = w\<lparr>wh_calls := Suc (wh_calls w)\<rparr>"
  have same: "wh_buffer w1 = wh_buffer w" "wh_rejected w1 = wh_rejected w" "wh_target w1 = wh_target w"
    by (simp_all add: w1_def)
  show ?case
  proof (cases "le_insert env (wh_calls w) rows")
    case None
    with 1(3) show ?thesis
      by (intro exI [of _ rows] exI [of _ "[]"]) (auto simp: insert_rows.simps [of env rows w] same)
  next
    case (Some ea)
    obtain e a where ea: "ea = (e, a)" by (cases ea)
    show ?thesis
    proof (cases "row_data_error_code env e")
      case None
      with 1(3) Some ea show ?thesis
        by (intro exI [of _ "if a then rows else []"] exI [of _ "[]"])
          (auto simp: insert_rows.simps [of env rows w] same)
    next
      case code: (Some code)
      consider "rows = []" | r where "rows = [r]" | "rows \<noteq> []" "length rows \<noteq> 1"
        by (cases rows; cases "tl rows") auto
      then show ?thesis
      proof cases
        case 1
        with \<open>insert_rows env rows w = (res, w')\<close> Some ea code show ?thesis
          by (intro exI [of _ "[]"]) (auto simp: insert_rows.simps [of env "[]" w] Let_def)
      next
        case (2 r)
        with \<open>insert_rows env rows w = (res, w')\<close> Some ea code show ?thesis
          by (intro exI [of _ "[]"] exI [of _ "[(r, code)]"])
            (auto simp: insert_rows.simps [of env "[r]" w] Let_def)
      next
        case 3
        let ?l = "take (length rows div 2) rows" and ?r = "drop (length rows div 2) rows"
        have split: "mset rows = mset ?l + mset ?r" by (metis append_take_drop_id mset_append)
        obtain r1 w2 where l: "insert_rows env ?l w1 = (r1, w2)" by (cases "insert_rows env ?l w1")
        from 1(1) [OF w1_def Some [unfolded ea] refl code 3 l] obtain ins rej where
          left: "wh_buffer w2 = wh_buffer w1 @ ins" "wh_rejected w2 = wh_rejected w1 @ rej"
            "wh_target w2 = wh_target w1" "mset ins + mset (map fst rej) \<subseteq># mset ?l"
            "\<forall>n. r1 = Inr n \<longrightarrow> n = length ins \<and> mset ins + mset (map fst rej) = mset ?l"
          by blast
        show ?thesis
        proof (cases r1)
          case (Inl e')
          with 1(3) Some ea code 3 l have "res = Inl e'" "w' = w2"
            by (simp_all add: insert_rows.simps [of env rows w] w1_def Let_def)
          with left same split show ?thesis
            by (intro exI [of _ ins] exI [of _ rej]) (auto intro: subset_mset.order_trans)
        next
          case (Inr n1)
          obtain r2 w3 where r: "insert_rows env ?r w2 = (r2, w3)" by (cases "insert_rows env ?r w2")
          from 1(2) [OF w1_def Some [unfolded ea] refl code 3 l [symmetric] Inr r] obtain ins' rej' where
            right: "wh_buffer w3 = wh_buffer w2 @ ins'" "wh_rejected w3 = wh_rejected w2 @ rej'"
              "wh_target w3 = wh_target w2" "mset ins' + mset (map fst rej') \<subseteq># mset ?r"
              "\<forall>n. r2 = Inr n \<longrightarrow> n = length ins' \<and> mset ins' + mset (map fst rej') = mset ?r"
            by blast
          have res: "w' = w3" "res = (case r2 of Inl e \<Rightarrow> Inl e | Inr m \<Rightarrow> Inr (n1 + m))"
            using 1(3) Some ea code 3 l Inr r
            by (auto simp: insert_rows.simps [of env rows w] w1_def Let_def split: sum.splits)
          have "mset (ins @ ins') + mset (map fst (rej @ rej')) \<subseteq># mset rows"
            unfolding split using subset_mset.add_mono [OF left(4) right(4)] by (simp add: ac_simps)
          moreover have "n = length (ins @ ins') \<and> mset (ins @ ins') + mset (map fst (rej @ rej')) = mset rows"
            if "res = Inr n" for n
          proof -
            from that res obtain m where "r2 = Inr m" "n = n1 + m" by (auto split: sum.splits)
            with left(5) right(5) Inr have "n = length (ins @ ins')"
              and eq: "mset ins + mset (map fst rej) = mset ?l" "mset ins' + mset (map fst rej') = mset ?r" by simp_all
            moreover have "mset (ins @ ins') + mset (map fst (rej @ rej')) =
              (mset ins + mset (map fst rej)) + (mset ins' + mset (map fst rej'))" by (simp add: ac_simps)
            ultimately show ?thesis by (simp add: eq split)
          qed
          ultimately show ?thesis using left right same res
            by (intro exI [of _ "ins @ ins'"] exI [of _ "rej @ rej'"]) simp
        qed
      qed
    qed
  qed
qed

text \<open>\<^verbatim>\<open>ClickHouseLoader._insert\<close>. Where ClickHouse refuses exactly the blocks that hold a bad row, with a
  value error, halving loads exactly the good rows, in their order, sets aside exactly the bad
  ones, in their order, and answers the number loaded; no bad row keeps a good one out.\<close>

theorem insert_isolates_bad_rows:
  assumes "bad_free bad env" "rows \<noteq> []"
  shows "\<exists>w' codes. insert_rows env rows w = (Inr (length (filter (\<lambda>r. \<not> bad r) rows)), w') \<and>
    wh_buffer w' = wh_buffer w @ filter (\<lambda>r. \<not> bad r) rows \<and>
    wh_rejected w' = wh_rejected w @ zip (filter bad rows) codes \<and> length codes = length (filter bad rows) \<and>
    wh_target w' = wh_target w"
  using assms
proof (induction env rows w rule: insert_rows.induct)
  case (1 env rows w)
  define w1 where "w1 = w\<lparr>wh_calls := Suc (wh_calls w)\<rparr>"
  have same: "wh_buffer w1 = wh_buffer w" "wh_rejected w1 = wh_rejected w" "wh_target w1 = wh_target w"
    by (simp_all add: w1_def)
  show ?case
  proof (cases "list_ex bad rows")
    case False
    with 1(3,4) have "le_insert env (wh_calls w) rows = None" by (auto simp: bad_free_def)
    moreover have "filter bad rows = []" "filter (\<lambda>r. \<not> bad r) rows = rows"
      using False by (auto simp: list_ex_iff filter_empty_conv)
    ultimately show ?thesis
      by (intro exI [of _ "w1\<lparr>wh_buffer := wh_buffer w1 @ rows\<rparr>"] exI [of _ "[]"])
        (simp add: insert_rows.simps [of env rows w] w1_def Let_def)
  next
    case True
    with 1(3,4) obtain e a code where e: "le_insert env (wh_calls w) rows = Some (e, a)"
      "row_data_error_code env e = Some code" unfolding bad_free_def by metis
    show ?thesis
    proof (cases "length rows = 1")
      case one: True
      with True obtain r where "rows = [r]" "bad r" by (cases rows) auto
      with e show ?thesis
        by (intro exI [of _ "w1\<lparr>wh_rejected := wh_rejected w1 @ [(r, code)]\<rparr>"] exI [of _ "[code]"])
          (simp add: insert_rows.simps [of env "[r]" w] w1_def Let_def)
    next
      case more: False
      let ?l = "take (length rows div 2) rows" and ?r = "drop (length rows div 2) rows"
      have ne: "?l \<noteq> []" "?r \<noteq> []" using more 1(4) by (cases rows; cases "tl rows"; simp)+
      have split: "filter P rows = filter P ?l @ filter P ?r" for P
        by (metis append_take_drop_id filter_append)
      from 1(1) [OF w1_def e(1) refl e(2) 1(4) more 1(3) ne(1)] obtain w2 cs where
        l: "insert_rows env ?l w1 = (Inr (length (filter (\<lambda>r. \<not> bad r) ?l)), w2)"
          "wh_buffer w2 = wh_buffer w1 @ filter (\<lambda>r. \<not> bad r) ?l"
          "wh_rejected w2 = wh_rejected w1 @ zip (filter bad ?l) cs" "length cs = length (filter bad ?l)"
          "wh_target w2 = wh_target w1" by blast
      from 1(2) [OF w1_def e(1) refl e(2) 1(4) more l(1) [symmetric] refl 1(3) ne(2)] obtain w3 ds where
        r: "insert_rows env ?r w2 = (Inr (length (filter (\<lambda>r. \<not> bad r) ?r)), w3)"
          "wh_buffer w3 = wh_buffer w2 @ filter (\<lambda>r. \<not> bad r) ?r"
          "wh_rejected w3 = wh_rejected w2 @ zip (filter bad ?r) ds" "length ds = length (filter bad ?r)"
          "wh_target w3 = wh_target w2" by blast
      have "insert_rows env rows w = (Inr (length (filter (\<lambda>r. \<not> bad r) rows)), w3)"
        using e more 1(4) l(1) r(1)
        by (simp add: insert_rows.simps [of env rows w] w1_def Let_def split [of "\<lambda>r. \<not> bad r"])
      then show ?thesis
        using l r same by (intro exI [of _ w3] exI [of _ "cs @ ds"]) (simp add: split)
    qed
  qed
qed

section \<open>What is already loaded\<close>

lemma query_chunks_spec:
  "query_chunks env lo hi ids w = (res, w') \<Longrightarrow>
   wh_target w' = wh_target w \<and> wh_buffer w' = wh_buffer w \<and> wh_rejected w' = wh_rejected w \<and>
   (\<forall>found. res = Inr found \<longrightarrow> set found = set (select_ids env w lo hi ids))"
proof (induction env lo hi ids w arbitrary: res w' rule: query_chunks.induct)
  case (1 env lo hi ids w)
  define w1 where "w1 = w\<lparr>wh_calls := Suc (wh_calls w)\<rparr>"
  have sel: "select_ids env w1 lo hi xs = select_ids env w lo hi xs" for xs
    by (simp add: select_ids_def w1_def)
  have parts: "set (select_ids env w lo hi ids) =
      set (select_ids env w lo hi (take ID_CHUNK ids)) \<union> set (select_ids env w lo hi (drop ID_CHUNK ids))"
  proof -
    have "set ids = set (take ID_CHUNK ids) \<union> set (drop ID_CHUNK ids)"
      by (metis append_take_drop_id set_append)
    then show ?thesis by (auto simp: select_ids_def)
  qed
  show ?case
  proof (cases "ids = [] \<or> le_query env (wh_calls w) \<noteq> None")
    case True
    with 1(2) show ?thesis
      by (cases "ids = []"; cases "le_query env (wh_calls w)")
        (auto simp: query_chunks.simps [of env lo hi ids w] query_chunks.simps [of env lo hi "[]" w] select_ids_def Let_def)
  next
    case False
    then have f: "ids \<noteq> []" "le_query env (wh_calls w) = None" by auto
    obtain q w2 where q: "query_chunks env lo hi (drop ID_CHUNK ids) w1 = (q, w2)" by fastforce
    note IH = 1(1) [OF f(1) w1_def f(2) q]
    show ?thesis
      using 1(2) f q IH
      by (cases q) (auto simp: query_chunks.simps [of env lo hi ids w] w1_def Let_def parts sel [unfolded w1_def])
  qed
qed

lemma day_window:
  assumes "\<bar>z\<bar> \<le> day_us" "a \<le> t" "t \<le> b"
  shows "day_of (a - day_us) \<le> day_of (t + z) \<and> day_of (t + z) \<le> day_of (b + day_us)"
proof -
  have "0 < day_us" by (simp add: day_us_def hour_us_def second_us_def)
  moreover have "a - day_us \<le> t + z" "t + z \<le> b + day_us" using assms by linarith+
  ultimately show ?thesis unfolding day_of_def by (intro conjI zdiv_mono1)
qed

lemma fold_min_le: "fold min ts t \<le> (t :: int) \<and> (\<forall>u \<in> set ts. fold min ts t \<le> u)"
  by (induction ts arbitrary: t) (auto intro: order_trans, fastforce+)

lemma fold_max_ge: "(t :: int) \<le> fold max ts t \<and> (\<forall>u \<in> set ts. u \<le> fold max ts t)"
  by (induction ts arbitrary: t) (auto intro: order_trans, fastforce+)

text \<open>A server's zone is less than a day from UTC, which is what the slack of a day is for.\<close>

definition zone_ok :: "load_env \<Rightarrow> bool" where
  "zone_ok env = (\<forall>t. \<bar>le_zone env t\<bar> \<le> day_us)"

lemma existing_ids_frame:
  "existing_ids env rows w = (res, w') \<Longrightarrow>
   wh_target w' = wh_target w \<and> wh_buffer w' = wh_buffer w \<and> wh_rejected w' = wh_rejected w"
  by (auto simp: existing_ids_def split: list.splits dest!: query_chunks_spec)

lemma existing_ids_sound:
  "existing_ids env rows w = (Inr found, w') \<Longrightarrow> i \<in> set found \<Longrightarrow> i \<in> lr_id ` set (wh_target w)"
  by (auto simp: existing_ids_def select_ids_def split: list.splits dest!: query_chunks_spec)

lemma existing_ids_complete:
  assumes "zone_ok env" "existing_ids env rows w = (Inr found, w')"
    and "r \<in> set rows" "lr_at r = Some t" "q \<in> set (wh_target w)" "lr_id q = lr_id r" "lr_at q = Some t"
  shows "lr_id r \<in> set found"
proof -
  let ?ts = "List.map_filter lr_at rows"
  have mem: "t \<in> set ?ts" using assms(3,4) by (force simp: map_filter_def)
  then obtain u us where ts: "?ts = u # us" by (cases ?ts) auto
  have q: "query_chunks env (day_of (fold min us u - day_us)) (day_of (fold max us u + day_us))
      (remdups (map lr_id rows)) w = (Inr found, w')"
    using assms(2) ts by (simp add: existing_ids_def)
  have "fold min us u \<le> t" "t \<le> fold max us u"
    using mem ts fold_min_le [of us u] fold_max_ge [of u us] by auto
  with assms(1) day_window [of "le_zone env t" "fold min us u" t "fold max us u"]
  have "day_of (fold min us u - day_us) \<le> day_of (t + le_zone env t) \<and>
      day_of (t + le_zone env t) \<le> day_of (fold max us u + day_us)" by (simp add: zone_ok_def)
  moreover have "lr_id q \<in> set (remdups (map lr_id rows))" using assms(3,6) by simp
  ultimately have "lr_id q \<in> set (select_ids env w (day_of (fold min us u - day_us))
      (day_of (fold max us u + day_us)) (remdups (map lr_id rows)))"
    using assms(5,7) unfolding select_ids_def set_map set_filter by (intro imageI) (simp del: set_remdups)
  with query_chunks_spec [OF q] assms(6) show ?thesis by simp
qed

section \<open>Loading a file\<close>

definition row_key :: "load_row \<Rightarrow> string \<times> time option" where
  "row_key r = (lr_id r, lr_at r)"

abbreviation held :: "warehouse \<Rightarrow> load_row list" where
  "held w \<equiv> wh_target w @ wh_buffer w"

definition no_duplicates :: "warehouse \<Rightarrow> bool" where
  "no_duplicates w = distinct (map row_key (held w))"

text \<open>Nothing that is loaded goes away; nothing set aside goes away.\<close>

definition kept :: "loader \<Rightarrow> loader \<Rightarrow> bool" where
  "kept s s' = (set (held (lo_wh s)) \<subseteq> set (held (lo_wh s')) \<and> set (wh_target (lo_wh s)) \<subseteq> set (wh_target (lo_wh s')) \<and>
     set (lo_quar s) \<subseteq> set (lo_quar s'))"

lemma kept_refl [simp]: "kept s s"
  by (simp add: kept_def)

lemma kept_trans: "kept s s1 \<Longrightarrow> kept s1 s2 \<Longrightarrow> kept s s2"
  by (auto simp: kept_def)

lemma flush_buffer_spec:
  "flush_buffer env w = (res, w') \<Longrightarrow> held w' = held w \<and> set (wh_target w) \<subseteq> set (wh_target w') \<and>
   wh_rejected w' = wh_rejected w \<and> (\<forall>u. res = Inr u \<longrightarrow> wh_buffer w' = [])"
  by (cases "le_flush env (wh_calls w)") (auto simp: flush_buffer_def Let_def split: prod.splits if_splits)

lemma distinct_key_add:
  assumes "distinct (map row_key xs)" "distinct (map lr_id ys)"
    and "\<And>y. y \<in> set ys \<Longrightarrow> row_key y \<notin> row_key ` set xs"
  shows "distinct (map row_key (xs @ ys))"
proof -
  have "distinct (map row_key ys)" using assms(2) by (induction ys) (auto simp: row_key_def)
  moreover have "row_key ` set xs \<inter> row_key ` set ys = {}"
  proof (rule equals0I)
    fix k assume k: "k \<in> row_key ` set xs \<inter> row_key ` set ys"
    then have "k \<in> row_key ` set ys" by (rule IntD2)
    then obtain y where "k = row_key y" "y \<in> set ys" by (rule imageE)
    with assms(3) [of y] IntD1 [OF k] show False by simp
  qed
  ultimately show ?thesis using assms(1) by simp
qed

lemma distinct_ids_sub: "mset xs \<subseteq># mset ys \<Longrightarrow> distinct (map lr_id ys) \<Longrightarrow> distinct (map lr_id xs)"
proof -
  assume sub: "mset xs \<subseteq># mset ys" and dis: "distinct (map lr_id ys)"
  then obtain zs where "mset ys = mset (xs @ zs)"
    by (metis ex_mset mset_append mset_subset_eq_exists_conv)
  then have "mset (map lr_id ys) = mset (map lr_id (xs @ zs))" by (simp only: mset_map)
  with dis have "distinct (map lr_id (xs @ zs))" using mset_eq_imp_distinct_iff by blast
  then show ?thesis by simp
qed

text \<open>Each row of a file is in the warehouse or set aside.\<close>

definition placed :: "loader \<Rightarrow> load_row \<Rightarrow> bool" where
  "placed s r = (lr_id r \<in> lr_id ` set (wh_target (lo_wh s)) \<or> r \<in> fst ` set (lo_quar s))"

lemma placed_kept: "placed s r \<Longrightarrow> kept s s' \<Longrightarrow> placed s' r"
  by (auto simp: placed_def kept_def)

lemma quarantine_spec:
  "quarantine env s = (res, s') \<Longrightarrow> wh_buffer (lo_wh s') = wh_buffer (lo_wh s) \<and>
   wh_target (lo_wh s') = wh_target (lo_wh s) \<and> set (lo_quar s) \<subseteq> set (lo_quar s') \<and>
   (\<forall>u. res = Inr u \<longrightarrow> set (wh_rejected (lo_wh s)) \<subseteq> set (lo_quar s'))"
  by (auto simp: quarantine_def Let_def split: if_splits option.splits)

lemma insert_new_spec:
  assumes run: "insert_new env rows s = (res, s')" and ids: "distinct (map lr_id rows)"
    and dup: "no_duplicates (lo_wh s)" and new: "\<forall>r \<in> set rows. row_key r \<notin> row_key ` set (held (lo_wh s))"
  shows "no_duplicates (lo_wh s') \<and> kept s s' \<and> (\<forall>n. res = Inr n \<longrightarrow> (\<forall>r \<in> set rows. placed s' r))"
proof (cases "rows = []")
  case True
  with run dup show ?thesis by (auto simp: insert_new_def)
next
  case False
  define w where "w = (lo_wh s)\<lparr>wh_rejected := []\<rparr>"
  obtain q w1 where q: "insert_rows env rows w = (q, w1)" by fastforce
  obtain ins rej where ir: "wh_buffer w1 = wh_buffer w @ ins" "wh_rejected w1 = rej"
      "wh_target w1 = wh_target w" and sub: "mset ins + mset (map fst rej) \<subseteq># mset rows"
    and all: "\<forall>n. q = Inr n \<longrightarrow> n = length ins \<and> mset ins + mset (map fst rej) = mset rows"
    using insert_rows_cases [OF q] by (auto simp: w_def)
  have h1: "held w1 = held (lo_wh s) @ ins" using ir by (simp add: w_def)
  have le: "mset ins \<subseteq># mset rows" using sub subset_mset.order_trans [OF mset_subset_eq_add_left] by blast
  then have "set ins \<subseteq> set rows" using mset_subset_eqD by fastforce
  with new have "row_key y \<notin> row_key ` set (held (lo_wh s))" if "y \<in> set ins" for y using that by blast
  from distinct_key_add [OF _ distinct_ids_sub [OF le ids] this] dup
  have dup1: "no_duplicates w1" unfolding no_duplicates_def h1 by simp
  have kept1: "kept s (s\<lparr>lo_wh := w1\<rparr>)" using ir by (auto simp: kept_def w_def)
  show ?thesis
  proof (cases q)
    case (Inl e)
    with run False q dup1 kept1 show ?thesis by (auto simp: insert_new_def w_def)
  next
    case (Inr n)
    obtain f w2 where f: "flush_buffer env w1 = (f, w2)" by fastforce
    note fl = flush_buffer_spec [OF f]
    have dup2: "no_duplicates w2" using dup1 fl by (simp add: no_duplicates_def)
    have kept2: "kept s (s\<lparr>lo_wh := w2\<rparr>)" using kept1 fl by (auto simp: kept_def)
    show ?thesis
    proof (cases f)
      case (Inl e)
      with run False q \<open>q = Inr n\<close> f dup2 kept2 show ?thesis by (auto simp: insert_new_def w_def)
    next
      case (Inr u)
      obtain g s3 where g: "quarantine env (s\<lparr>lo_wh := w2\<rparr>) = (g, s3)" by fastforce
      note qu = quarantine_spec [OF g]
      have s': "s' = s3" and res: "res = Inr m \<longrightarrow> (\<exists>u. g = Inr u)" for m
        using run False q \<open>q = Inr n\<close> f Inr g by (auto simp: insert_new_def w_def split: sum.splits)
      have "held (lo_wh s') = held w2" using qu by (simp add: s')
      then have "no_duplicates (lo_wh s')" using dup2 unfolding no_duplicates_def by (simp only:)
      moreover have "kept s s'" using kept2 qu by (auto simp: kept_def s')
      moreover have "placed s' r" if res_m: "res = Inr m" and r_in: "r \<in> set rows" for m r
      proof -
        have "r \<in># mset ins + mset (map fst rej)" using all \<open>q = Inr n\<close> r_in by simp
        then consider "r \<in> set ins" | "r \<in> fst ` set rej" by auto
        then show ?thesis
        proof cases
          case inserted: 1
          then have "r \<in> set (held w2)" using fl h1 by simp
          with fl Inr qu show ?thesis by (auto simp: placed_def s')
        next
          case 2
          obtain u where "g = Inr u" using res res_m by blast
          with qu have "set (wh_rejected w2) \<subseteq> set (lo_quar s3)" by simp
          then have "set rej \<subseteq> set (lo_quar s')" using fl ir(2) by (simp add: s')
          with 2 have "r \<in> fst ` set (lo_quar s')" by (meson image_mono subsetD)
          then show ?thesis by (simp add: placed_def)
        qed
      qed
      ultimately show ?thesis by blast
    qed
  qed
qed

lemma load_new_spec:
  assumes run: "load_new env rows s = (res, s')" and zone: "zone_ok env" and ids: "distinct (map lr_id rows)"
    and dates: "\<forall>r \<in> set rows. lr_at r \<noteq> None" and dup: "no_duplicates (lo_wh s)"
  shows "no_duplicates (lo_wh s') \<and> kept s s' \<and> (\<forall>n. res = Inr n \<longrightarrow> (\<forall>r \<in> set rows. placed s' r))"
proof -
  obtain f w1 where f: "flush_buffer env (lo_wh s) = (f, w1)" by fastforce
  note fl = flush_buffer_spec [OF f]
  have dup1: "no_duplicates w1" using dup fl by (simp add: no_duplicates_def)
  have kept1: "kept s (s\<lparr>lo_wh := w1\<rparr>)" using fl by (auto simp: kept_def)
  show ?thesis
  proof (cases f)
    case (Inl e)
    with run f dup1 kept1 show ?thesis by (auto simp: load_new_def)
  next
    case (Inr u)
    obtain x w2 where x: "existing_ids env rows w1 = (x, w2)" by fastforce
    note fr = existing_ids_frame [OF x]
    have dup2: "no_duplicates w2" using dup1 fr by (simp add: no_duplicates_def)
    have kept2: "kept s (s\<lparr>lo_wh := w2\<rparr>)" using kept1 fr by (auto simp: kept_def)
    show ?thesis
    proof (cases x)
      case (Inl e)
      with run f Inr x dup2 kept2 show ?thesis by (auto simp: load_new_def)
    next
      case found: (Inr found)
      let ?rows = "filter (\<lambda>r. lr_id r \<notin> set found) rows"
      have run2: "insert_new env ?rows (s\<lparr>lo_wh := w2\<rparr>) = (res, s')"
        using run f Inr x found by (simp add: load_new_def)
      have held2: "held w2 = wh_target w1" using fl fr Inr by simp
      have new: "row_key r \<notin> row_key ` set (held w2)" if r: "r \<in> set ?rows" for r
      proof
        assume "row_key r \<in> row_key ` set (held w2)"
        then obtain q where q: "q \<in> set (wh_target w1)" "row_key r = row_key q" unfolding held2 by (rule imageE)
        from r have r1: "r \<in> set rows" and r2: "lr_id r \<notin> set found" by simp_all
        obtain t where t: "lr_at r = Some t" using dates r1 by blast
        have "lr_id q = lr_id r" "lr_at q = Some t" using q(2) t by (simp_all add: row_key_def)
        from existing_ids_complete [OF zone x [unfolded found] r1 t q(1) this] r2 show False by simp
      qed
      have "distinct (map lr_id ?rows)" using ids by (simp add: distinct_map_filter)
      from insert_new_spec [OF run2 this] dup2 new
      have 3: "no_duplicates (lo_wh s')" "kept (s\<lparr>lo_wh := w2\<rparr>) s'"
        "\<forall>n. res = Inr n \<longrightarrow> (\<forall>r \<in> set ?rows. placed s' r)" by auto
      have "placed s' r" if "lr_id r \<in> set found" for r
      proof -
        have "lr_id r \<in> lr_id ` set (wh_target w1)" by (rule existing_ids_sound [OF x [unfolded found] that])
        then have "placed (s\<lparr>lo_wh := w2\<rparr>) r" using fr by (simp add: placed_def)
        then show ?thesis by (rule placed_kept [OF _ 3(2)])
      qed
      with 3 kept_trans [OF kept2] show ?thesis by auto
    qed
  qed
qed

text \<open>A file the validator wrote: every row has its instant, and no two rows have the same id.\<close>

definition clean_file :: "load_env \<Rightarrow> clean_row list \<Rightarrow> bool" where
  "clean_file env rows = ((\<forall>(r, t) \<in> set rows. t \<noteq> None) \<and>
     distinct (map (\<lambda>r. lr_id (load_row_of env [] r)) rows))"

lemma load_row_of_id: "lr_id (load_row_of env names x) = lr_id (load_row_of env [] x)"
  by (cases x) (simp add: load_row_of_def)

lemma load_parquet_spec:
  assumes "load_parquet env (Some rows) s = (res, s')" "zone_ok env" "clean_file env rows"
    and "no_duplicates (lo_wh s)"
  shows "no_duplicates (lo_wh s') \<and> kept s s' \<and>
    (\<forall>n. res = Inr n \<longrightarrow> (\<forall>x \<in> set rows. \<exists>names. placed s' (load_row_of env names x)))"
proof (cases "rows = []")
  case True
  with assms show ?thesis by (auto simp: load_parquet_def)
next
  case False
  show ?thesis
  proof (cases "project env rows")
    case (Inl e)
    with assms False show ?thesis by (auto simp: load_parquet_def)
  next
    case (Inr table)
    then obtain names where t: "table = map (load_row_of env names) rows"
      by (auto simp: project_def split: sum.splits if_splits)
    have run: "load_new env table s = (res, s')" using assms(1) False Inr by (simp add: load_parquet_def)
    have "distinct (map lr_id table)"
      using assms(3) by (simp add: t clean_file_def comp_def load_row_of_id [of env names])
    moreover have "\<forall>r \<in> set table. lr_at r \<noteq> None"
      using assms(3) by (auto simp: t clean_file_def load_row_of_def)
    ultimately have spec: "no_duplicates (lo_wh s')" "kept s s'" "\<forall>n. res = Inr n \<longrightarrow> (\<forall>r \<in> set table. placed s' r)"
      using load_new_spec [OF run assms(2) _ _ assms(4)] by simp_all
    have "\<exists>names. placed s' (load_row_of env names x)" if "res = Inr n" "x \<in> set rows" for n x
      using spec(3) that by (intro exI [of _ names]) (simp add: t)
    with spec(1,2) show ?thesis by blast
  qed
qed


section \<open>Samples\<close>

definition sample_load_row :: "string \<Rightarrow> load_row" where
  "sample_load_row i = \<lparr>lr_id = i, lr_at = Some 500, lr_cells = []\<rparr>"

text \<open>A server that refuses every block with the row \<open>''bad''\<close>, and loses the reply of its first flush.\<close>

definition sample_bad :: "load_row \<Rightarrow> bool" where
  "sample_bad r = (lr_id r = ''bad'')"

definition sample_load :: load_env where
  "sample_load = \<lparr>le_columns = Inr (map (\<lambda>c. (c, [])) REQUIRED_FIELDS), le_cast = \<lambda>_. [], le_query = \<lambda>_. None,
     le_zone = \<lambda>_. 0, le_insert = \<lambda>n rows. (if list_ex sample_bad rows then Some (py_error ''DatabaseError'', False) else None),
     le_flush = \<lambda>n. (if n = 0 then Some (py_error ''OperationalError'', True) else None),
     le_code = \<lambda>e. Some 376, le_quarantine = \<lambda>_. None\<rparr>"

definition sample_warehouse :: warehouse where
  "sample_warehouse = \<lparr>wh_target = [sample_load_row ''t0''], wh_buffer = [], wh_calls = 0, wh_rejected = []\<rparr>"

lemma sample_bad_free: "bad_free sample_bad sample_load"
  by (simp add: bad_free_def sample_load_def row_data_error_code_def ROW_DATA_ERROR_CODES_def) blast

lemma insert_isolates_bad_rows_witness:
  "\<exists>w'. insert_rows sample_load (map sample_load_row [''a'', ''bad'', ''c'']) sample_warehouse = (Inr 2, w') \<and>
    wh_buffer w' = map sample_load_row [''a'', ''c''] \<and> map fst (wh_rejected w') = [sample_load_row ''bad'']"
proof -
  let ?rows = "map sample_load_row [''a'', ''bad'', ''c'']"
  have ne: "?rows \<noteq> []" by simp
  have f: "filter (\<lambda>r. \<not> sample_bad r) ?rows = map sample_load_row [''a'', ''c'']"
    "filter sample_bad ?rows = [sample_load_row ''bad'']"
    by (simp_all add: sample_bad_def sample_load_row_def)
  from insert_isolates_bad_rows [OF sample_bad_free ne, of sample_warehouse] obtain w' codes where
    "insert_rows sample_load ?rows sample_warehouse = (Inr 2, w')"
    "wh_buffer w' = map sample_load_row [''a'', ''c'']"
    "wh_rejected w' = zip [sample_load_row ''bad''] codes" "length codes = 1"
    unfolding f by (auto simp: sample_warehouse_def)
  then show ?thesis by (intro exI [of _ w']) (auto simp: map_fst_zip)
qed

definition sample_loader :: loader where
  "sample_loader = \<lparr>lo_wh = sample_warehouse, lo_quar = []\<rparr>"


end
