(* ===== verification/EtlPipeline.thy ===== *)
theory EtlPipeline
  imports EtlLoad
begin

text \<open>
  The tasks of the daily run (\<^verbatim>\<open>services/etl/dags/cashback_daily_etl.py\<close>) put together: extract, validate and
  cleanse, load, commit. Airflow starts a task only when the tasks before it succeeded, retries a
  failed one and never has two runs of the DAG at once; a step relation lets the tasks of the
  current run happen in every order these rules allow, each with any outcome, and a new run begin
  at any time. Of the files derived from a staged file only the contents are kept, not the names.
\<close>

section \<open>The state between tasks\<close>

record etl_run =
  ru_manifest :: manifest
  ru_files :: files
  ru_clean :: "clean_row list list option"
  ru_loaded :: bool

record pipeline =
  pl_group :: group_offsets
  pl_loader :: loader
  pl_dead :: "dead_letter list"
  pl_rejected :: "row list"
  pl_run :: "etl_run option"

definition dead_contents :: "extract_consumer \<Rightarrow> dead_letter list" where
  "dead_contents s = concat (map (\<lambda>f. case es_files s f of Some (DeadLetters ds) \<Rightarrow> ds | _ \<Rightarrow> []) (es_dead_paths s))"

section \<open>The tasks\<close>

text \<open>\<^verbatim>\<open>extract_transactions\<close>; \<open>None\<close> where the drain does not return. The manifest is read back by the
  tasks that follow.\<close>

definition extract_transactions :: "extract_env \<Rightarrow> pipeline \<Rightarrow> pipeline option" where
  "extract_transactions env p = (case drain env 200 3 (new_consumer (\<lambda>_. None)) of
     None \<Rightarrow> None
   | Some (res, s) \<Rightarrow>
       (let p1 = p\<lparr>pl_dead := pl_dead p @ dead_contents s, pl_run := None\<rparr> in
        case res of
          Inl e \<Rightarrow> Some p1
        | Inr mf \<Rightarrow> (case write_manifest env mf s of
            (Inl e, s1) \<Rightarrow> Some p1
          | (Inr path, s1) \<Rightarrow> (case read_manifest (manifest_json mf) of
              Inl e \<Rightarrow> Some p1
            | Inr mf1 \<Rightarrow> Some (p1\<lparr>pl_run := Some \<lparr>ru_manifest = mf1, ru_files = es_files s1,
                ru_clean = None, ru_loaded = False\<rparr>\<rparr>)))))"

record validate_task =
  vt_env :: "nat \<Rightarrow> validate_env"
  vt_fault :: "nat \<Rightarrow> exn option"

text \<open>The staged files one after the other: rejected records, and the clean rows of each file that has
  any; the fault is a failure to read the file or to write what comes of it.\<close>

fun validate_files :: "validate_task \<Rightarrow> nat \<Rightarrow> files \<Rightarrow> string list \<Rightarrow>
    row list \<times> (exn + clean_row list list)" where
  "validate_files vt i fs [] = ([], Inr [])"
| "validate_files vt i fs (f # paths) = (case (vt_fault vt i, fs f) of
     (None, Some (Parquet rows)) \<Rightarrow>
       (let rep = validate_batch (vt_env vt i) rows;
            rest = validate_files vt (Suc i) fs paths;
            clean = map (cleanse (ve_iso (vt_env vt i))) (vr_valid rep) in
        (map fst (vr_errors rep) @ fst rest, (case snd rest of
           Inl e \<Rightarrow> Inl e
         | Inr cs \<Rightarrow> Inr (if vr_valid rep = [] then cs else clean # cs))))
   | (Some e, _) \<Rightarrow> ([], Inl e)
   | _ \<Rightarrow> ([], Inl (py_error ''FileNotFoundError'')))"

definition validate_and_cleanse :: "validate_task \<Rightarrow> etl_run \<Rightarrow> pipeline \<Rightarrow> pipeline" where
  "validate_and_cleanse vt ru p =
    (let out = validate_files vt 0 (ru_files ru) (mf_files (ru_manifest ru)) in
     p\<lparr>pl_rejected := pl_rejected p @ fst out,
       pl_run := Some (ru\<lparr>ru_clean := (case snd out of Inl e \<Rightarrow> None | Inr cs \<Rightarrow> Some cs), ru_loaded := False\<rparr>)\<rparr>)"

definition load_to_clickhouse :: "load_env \<Rightarrow> etl_run \<Rightarrow> clean_row list list \<Rightarrow> pipeline \<Rightarrow> pipeline" where
  "load_to_clickhouse env ru cs p = (case load_paths env (map Some cs) 0 (pl_loader p) of
     (Inl e, s) \<Rightarrow> p\<lparr>pl_loader := s, pl_run := Some (ru\<lparr>ru_loaded := False\<rparr>)\<rparr>
   | (Inr n, s) \<Rightarrow> p\<lparr>pl_loader := s, pl_run := Some (ru\<lparr>ru_loaded := True\<rparr>)\<rparr>)"

definition commit_kafka_offsets :: "commit_env \<Rightarrow> etl_run \<Rightarrow> pipeline \<Rightarrow> pipeline" where
  "commit_kafka_offsets env ru p = p\<lparr>pl_group := snd (commit_offsets env (ru_manifest ru) (pl_group p))\<rparr>"

text \<open>\<^verbatim>\<open>check_quarantine\<close> only makes the run red.\<close>

definition check_quarantine :: "manifest \<Rightarrow> nat \<Rightarrow> exn + unit" where
  "check_quarantine mf quarantined_rows =
    (if mf_dead_count mf \<noteq> 0 \<or> quarantined_rows \<noteq> 0 then Inl (py_error ''AirflowFailException'') else Inr ())"

section \<open>Kafka\<close>

type_synonym topic_log = "int \<Rightarrow> kmsg list"

definition log_ok :: "topic_log \<Rightarrow> bool" where
  "log_ok lg = (\<forall>q. sorted_wrt (<) (map km_offset (lg q)) \<and>
     (\<forall>m \<in> set (lg q). km_part m = q \<and> 0 \<le> km_offset m))"

text \<open>What the broker does: a consumer of the group gets, on every partition, the messages from the
  committed offset on (from the earliest where none is committed), in order and without a gap.\<close>

definition start_of :: "group_offsets \<Rightarrow> int \<Rightarrow> int" where
  "start_of g q = (case g q of None \<Rightarrow> 0 | Some n \<Rightarrow> n)"

definition delivers :: "topic_log \<Rightarrow> group_offsets \<Rightarrow> extract_env \<Rightarrow> bool" where
  "delivers lg g env = (\<forall>n q. \<exists>k. filter (\<lambda>m. km_part m = q) (map fst (polled_in env 0 n)) =
     take k (filter (\<lambda>m. start_of g q \<le> km_offset m) (lg q)))"

text \<open>What the registry does: schemas never change under their id, so bytes that decode at all decode
  to the record they determine, \<open>content\<close>; the schema of a transaction makes its id a string.\<close>

definition decodes :: "(msg_value \<Rightarrow> row option) \<Rightarrow> extract_env \<Rightarrow> bool" where
  "decodes content env = (\<forall>i j v r. etl_decode (xe_decoder env i j) v = Record r \<longrightarrow>
     content v = Some r \<and> (\<exists>t. jget r ''transaction_id'' = JStr t))"

section \<open>The steps\<close>

inductive etl_step :: "topic_log \<Rightarrow> (msg_value \<Rightarrow> row option) \<Rightarrow> pipeline \<Rightarrow> pipeline \<Rightarrow> bool"
  for lg content where
  Extract: "delivers lg (pl_group p) env \<Longrightarrow> stamps_ok env \<Longrightarrow> decodes content env \<Longrightarrow>
    extract_transactions env p = Some p' \<Longrightarrow> etl_step lg content p p'"
| Validate: "pl_run p = Some ru \<Longrightarrow> etl_step lg content p (validate_and_cleanse vt ru p)"
| Load: "pl_run p = Some ru \<Longrightarrow> ru_clean ru = Some cs \<Longrightarrow> zone_ok env \<Longrightarrow>
    etl_step lg content p (load_to_clickhouse env ru cs p)"
| Commit: "pl_run p = Some ru \<Longrightarrow> ru_loaded ru \<Longrightarrow> etl_step lg content p (commit_kafka_offsets env ru p)"

inductive_cases etl_stepE: "etl_step lg content p p'"

section \<open>What has become of a message\<close>

text \<open>A row as Parquet gives it back: the amount may have become text.\<close>

definition framed :: "row \<Rightarrow> row \<Rightarrow> bool" where
  "framed r r' = (r' = r \<or> (\<exists>t. r' = AList.update ''amount'' (JStr t) r))"

definition row_settled :: "pipeline \<Rightarrow> row \<Rightarrow> bool" where
  "row_settled p r = (r \<in> set (pl_rejected p) \<or>
     (\<exists>env names t. placed (pl_loader p) (load_row_of env names (r, t))))"

definition accounted :: "(msg_value \<Rightarrow> row option) \<Rightarrow> pipeline \<Rightarrow> kmsg \<Rightarrow> bool" where
  "accounted content p m =
    ((\<exists>d \<in> set (pl_dead p). dl_part d = km_part m \<and> dl_offset d = km_offset m \<and> dl_value d = km_value m) \<or>
     (\<exists>r r'. content (km_value m) = Some r \<and> framed r r' \<and> row_settled p r'))"

text \<open>A message whose record waits in a staged file of the run.\<close>

definition staged_rows :: "etl_run \<Rightarrow> row set" where
  "staged_rows ru = {r. \<exists>f \<in> set (mf_files (ru_manifest ru)). \<exists>rows. ru_files ru f = Some (Parquet rows) \<and> r \<in> set rows}"

definition waits :: "(msg_value \<Rightarrow> row option) \<Rightarrow> etl_run \<Rightarrow> kmsg \<Rightarrow> bool" where
  "waits content ru m = (\<exists>r r'. content (km_value m) = Some r \<and> framed r r' \<and> r' \<in> staged_rows ru)"

definition string_id :: "row \<Rightarrow> bool" where
  "string_id r = (\<exists>t. jget r ''transaction_id'' = JStr t)"

section \<open>The invariant\<close>

text \<open>A run: below its offsets every message is accounted or waits; once validated, every staged row is
  rejected or in a clean file, whose rows can be loaded; once loaded, every staged row is accounted.\<close>

definition run_ok :: "topic_log \<Rightarrow> (msg_value \<Rightarrow> row option) \<Rightarrow> pipeline \<Rightarrow> etl_run \<Rightarrow> bool" where
  "run_ok lg content p ru =
    (distinct (map fst (mf_offsets (ru_manifest ru))) \<and>
     (\<forall>(q, n) \<in> set (mf_offsets (ru_manifest ru)). \<forall>m \<in> set (lg q). km_offset m < n \<longrightarrow>
        accounted content p m \<or> waits content ru m) \<and>
     (\<forall>r \<in> staged_rows ru. string_id r) \<and>
     (\<forall>cs. ru_clean ru = Some cs \<longrightarrow>
        (\<forall>f \<in> set cs. \<forall>env. clean_file env f) \<and>
        (\<forall>r \<in> staged_rows ru. r \<in> set (pl_rejected p) \<or> (\<exists>f \<in> set cs. \<exists>t. (r, t) \<in> set f))) \<and>
     (ru_loaded ru \<longrightarrow> (\<forall>r \<in> staged_rows ru. row_settled p r)))"

definition nothing_lost :: "topic_log \<Rightarrow> (msg_value \<Rightarrow> row option) \<Rightarrow> pipeline \<Rightarrow> bool" where
  "nothing_lost lg content p = (\<forall>q n. pl_group p q = Some n \<longrightarrow>
     (\<forall>m \<in> set (lg q). km_offset m < n \<longrightarrow> accounted content p m))"

definition etl_inv :: "topic_log \<Rightarrow> (msg_value \<Rightarrow> row option) \<Rightarrow> pipeline \<Rightarrow> bool" where
  "etl_inv lg content p = (no_duplicates (lo_wh (pl_loader p)) \<and> nothing_lost lg content p \<and>
     (\<forall>ru. pl_run p = Some ru \<longrightarrow> run_ok lg content p ru))"

text \<open>What is accounted stays so as the journals and the warehouse grow.\<close>

definition journals_grow :: "pipeline \<Rightarrow> pipeline \<Rightarrow> bool" where
  "journals_grow p p' = (set (pl_dead p) \<subseteq> set (pl_dead p') \<and> set (pl_rejected p) \<subseteq> set (pl_rejected p') \<and>
     kept (pl_loader p) (pl_loader p'))"

lemma journals_grow_refl [simp]: "journals_grow p p"
  by (simp add: journals_grow_def)

lemma row_settled_grows: "row_settled p r \<Longrightarrow> journals_grow p p' \<Longrightarrow> row_settled p' r"
  unfolding row_settled_def journals_grow_def using placed_kept by blast

lemma accounted_grows: "accounted content p m \<Longrightarrow> journals_grow p p' \<Longrightarrow> accounted content p' m"
  unfolding accounted_def using row_settled_grows by (fastforce simp: journals_grow_def)

lemma nothing_lost_grows:
  "nothing_lost lg content p \<Longrightarrow> journals_grow p p' \<Longrightarrow> pl_group p' = pl_group p \<Longrightarrow> nothing_lost lg content p'"
  unfolding nothing_lost_def using accounted_grows by metis

lemma members_update_other: "k' \<noteq> k \<Longrightarrow> members (AList.update k v kvs) k' = members kvs k'"
  by (induction kvs) (auto simp: members_def map_add_def split: option.split)

lemma framed_id: "framed r r' \<Longrightarrow> jget r' ''transaction_id'' = jget r ''transaction_id''"
  by (auto simp: framed_def jget_def members_update_other)

lemma frame_rows_framed: "r \<in> set rs \<Longrightarrow> \<exists>r' \<in> set (frame_rows env rs). framed r r'"
  "r' \<in> set (frame_rows env rs) \<Longrightarrow> \<exists>r \<in> set rs. framed r r'"
  by (auto simp: frame_rows_def framed_def amount_text_def split: if_splits)

section \<open>The extract keeps the invariant\<close>

lemma outcomes_decoded: "(m, d) \<in> set (outcomes env i j ms) \<Longrightarrow> \<exists>k. d = etl_decode (xe_decoder env i k) (km_value m)"
  by (induction ms arbitrary: j) auto

lemma polled_decoded:
  "(m, d) \<in> set (polled_in env a b) \<Longrightarrow> \<exists>i j. d = etl_decode (xe_decoder env i j) (km_value m)"
  by (auto simp: polled_in_def polled_def split: sum.splits dest!: outcomes_decoded)

lemma record_of_Record: "r \<in> set (record_of x) \<Longrightarrow> snd x = Record r"
  by (cases x; cases "snd x") auto

lemma records_content:
  assumes "decodes content env" "r \<in> set (records_of (polled_in env 0 n))"
  shows "string_id r"
proof -
  obtain m d where "(m, d) \<in> set (polled_in env 0 n)" "r \<in> set (record_of (m, d))" using assms(2) by auto
  then have "(m, Record r) \<in> set (polled_in env 0 n)" using record_of_Record by fastforce
  from polled_decoded [OF this] assms(1) show ?thesis unfolding decodes_def string_id_def by metis
qed

lemma extract_files:
  assumes "stamps_ok env" "drain env mb me (new_consumer fs) = Some (Inr mf, s)"
    and "write_manifest env mf s = (Inr path, s1)"
  shows "\<exists>bs. concat bs = records_of (polled_in env 0 (es_poll s)) \<and>
    list_all2 (\<lambda>f b. es_files s1 f = Some (Parquet (frame_rows env b))) (mf_files mf) bs"
proof -
  from drain_staged [OF assms(1,2)] have "staged env (mf_files mf) (mf_records mf) s" by blast
  then obtain bs where bs: "concat bs = records_of (polled_in env 0 (es_poll s))" "holds_batches env s (mf_files mf) bs"
    unfolding staged_def by blast
  have "(''manifest'', ''.json'') \<in> file_kinds" by (simp add: file_kinds_def)
  from holds_put [OF assms(1) batch_kind this assms(3) [unfolded write_manifest_def] bs(2)] bs(1)
  show ?thesis unfolding holds_def by (intro exI [of _ bs]) (auto elim: list_all2_mono)
qed

text \<open>A message of the log below an offset of the manifest was accounted before, or polled.\<close>

lemma take_prefix_member:
  assumes "sorted_wrt (<) (map km_offset ms)" "x \<in> set (take k ms)" "m \<in> set ms" "km_offset m \<le> km_offset x"
  shows "m \<in> set (take k ms)"
proof -
  obtain i where i: "i < length ms" "i < k" "x = ms ! i" using assms(2) by (auto simp: in_set_conv_nth)
  obtain j where j: "j < length ms" "m = ms ! j" using assms(3) by (auto simp: in_set_conv_nth)
  have "j \<le> i"
  proof (rule ccontr)
    assume "\<not> j \<le> i"
    then have "km_offset (ms ! i) < km_offset (ms ! j)" using assms(1) j(1)
      by (simp add: sorted_wrt_iff_nth_less)
    with assms(4) i j show False by simp
  qed
  then have "take k ms ! j = m" "j < length (take k ms)" using i j by auto
  then show ?thesis by (metis nth_mem)
qed

lemma below_offset_polled:
  assumes "log_ok lg" "delivers lg g env" "x \<in> set (polled_in env 0 n)" "km_part (fst x) = q"
    and "m \<in> set (lg q)" "km_offset m < km_offset (fst x) + 1" "start_of g q \<le> km_offset m"
  shows "\<exists>d. (m, d) \<in> set (polled_in env 0 n)"
proof -
  let ?part = "filter (\<lambda>m. km_part m = q) (map fst (polled_in env 0 n))"
  let ?from = "filter (\<lambda>m. start_of g q \<le> km_offset m) (lg q)"
  obtain k where k: "?part = take k ?from" using assms(2) unfolding delivers_def by blast
  have "sorted_wrt (<) (map km_offset (lg q))" using assms(1) by (simp add: log_ok_def)
  then have "sorted_wrt (<) (map km_offset ?from)" by (simp add: sorted_wrt_map sorted_wrt_filter)
  moreover have "fst x \<in> set ?part" using assms(3,4) by simp
  then have "fst x \<in> set (take k ?from)" unfolding k .
  moreover have "m \<in> set ?from" using assms(5,7) by simp
  moreover have "km_offset m \<le> km_offset (fst x)" using assms(6) by simp
  ultimately have "m \<in> set (take k ?from)" by (rule take_prefix_member)
  then have "m \<in> set ?part" unfolding k .
  then have "m \<in> fst ` set (polled_in env 0 n)" by simp
  then show ?thesis by fastforce
qed

lemma dead_contents_all:
  assumes "stamps_ok env" "drain env mb me (new_consumer fs) = Some (Inr mf, s)"
  shows "set (dead_contents s) = set (deads_of env (polled_in env 0 (es_poll s)))"
proof -
  from drain_staged [OF assms] have "staged env (mf_files mf) (mf_records mf) s" by blast
  then obtain dss where d: "concat dss = deads_of env (polled_in env 0 (es_poll s))"
    "holds_deads env s (es_dead_paths s) dss" unfolding staged_def by blast
  have "map (\<lambda>f. case es_files s f of Some (DeadLetters ds) \<Rightarrow> ds | _ \<Rightarrow> []) (es_dead_paths s) = dss"
    using d(2) by (simp add: holds_def list_all2_conv_all_nth list_eq_iff_nth_eq)
  with d(1) show ?thesis by (simp only: dead_contents_def)
qed

lemma Extract_inv:
  assumes lg: "log_ok lg" and inv: "etl_inv lg content p" and del: "delivers lg (pl_group p) env"
    and st: "stamps_ok env" and dec: "decodes content env" and run: "extract_transactions env p = Some p'"
  shows "etl_inv lg content p'"
proof -
  obtain res s where d: "drain env 200 3 (new_consumer (\<lambda>_. None)) = Some (res, s)"
    using run by (auto simp: extract_transactions_def split: option.splits)
  define p1 where "p1 = p\<lparr>pl_dead := pl_dead p @ dead_contents s, pl_run := None\<rparr>"
  have g1: "journals_grow p p1" by (simp add: journals_grow_def p1_def)
  have inv1: "etl_inv lg content p1"
    using inv nothing_lost_grows [OF _ g1] by (simp add: etl_inv_def p1_def)
  show ?thesis
  proof (cases "p' = p1")
    case True
    with inv1 show ?thesis by simp
  next
    case False
    with run d obtain mf path s1 mf1 where mf: "res = Inr mf" and w: "write_manifest env mf s = (Inr path, s1)"
      and r: "read_manifest (manifest_json mf) = Inr mf1"
      and p': "p' = p1\<lparr>pl_run := Some \<lparr>ru_manifest = mf1, ru_files = es_files s1, ru_clean = None, ru_loaded = False\<rparr>\<rparr>"
      by (auto simp: extract_transactions_def p1_def Let_def split: sum.splits prod.splits)
    define ru where "ru = \<lparr>ru_manifest = mf1, ru_files = es_files s1, ru_clean = None, ru_loaded = False\<rparr>"
    define xs where "xs = polled_in env 0 (es_poll s)"
    note d = d [unfolded mf]
    have offs: "mf_offsets mf = next_of xs []"
      using drain_staged [OF st d] by (auto simp: staged_def xs_def)
    have dis: "distinct (map fst (mf_offsets mf))" unfolding offs by (rule next_of_distinct) simp
    from read_manifest_written [OF dis] r obtain offsets where
      mf1: "mf1 = mf\<lparr>mf_offsets := offsets\<rparr>" "set offsets = set (mf_offsets mf)" "distinct (map fst offsets)" by auto
    have nt: "no_transient xs" using drain_staged [OF st d] by (auto simp: staged_def xs_def)
    from extract_files [OF st d w] obtain bs where bs: "concat bs = records_of xs"
      "list_all2 (\<lambda>f b. es_files s1 f = Some (Parquet (frame_rows env b))) (mf_files mf) bs"
      unfolding xs_def by blast
    have rows: "staged_rows ru = (\<Union>b \<in> set bs. set (frame_rows env b))"
      using bs(2) by (force simp: staged_rows_def ru_def mf1(1) list_all2_conv_all_nth in_set_conv_nth)
    have ids: "\<forall>r \<in> staged_rows ru. string_id r"
    proof
      fix r' assume "r' \<in> staged_rows ru"
      then obtain b r where "b \<in> set bs" "r \<in> set b" "framed r r'" unfolding rows using frame_rows_framed(2) by blast
      moreover from this bs(1) have "r \<in> set (records_of xs)" by (metis UN_I set_concat)
      then have "string_id r" unfolding xs_def by (rule records_content [OF dec])
      ultimately show "string_id r'" by (simp add: string_id_def framed_id)
    qed
    have polled: "accounted content p' m \<or> waits content ru m" if m: "(m, v) \<in> set xs" for m v
    proof -
      obtain i j where v: "v = etl_decode (xe_decoder env i j) (km_value m)"
        using polled_decoded m unfolding xs_def by blast
      show ?thesis
      proof (cases v)
        case (Record r)
        with v dec have c: "content (km_value m) = Some r" unfolding decodes_def by metis
        have "r \<in> set (records_of xs)" using m Record by (force intro: bexI [of _ "(m, Record r)"])
        with bs(1) obtain b where b: "b \<in> set bs" "r \<in> set b" by (metis UN_E set_concat)
        then obtain r' where "r' \<in> set (frame_rows env b)" "framed r r'" using frame_rows_framed(1) by blast
        with c b(1) have "waits content ru m" unfolding waits_def rows by blast
        then show ?thesis ..
      next
        case Undecodable
        then have "dead_letter_of env m \<in> set (deads_of env xs)" using m by (force intro: bexI [of _ "(m, Undecodable)"])
        then have "dead_letter_of env m \<in> set (pl_dead p')"
          using dead_contents_all [OF st d] by (simp add: p' p1_def xs_def)
        then have "accounted content p' m" unfolding accounted_def by (force simp: dead_letter_of_def)
        then show ?thesis ..
      next
        case (Transient e)
        with m nt show ?thesis by (auto simp: no_transient_def)
      qed
    qed
    have g': "journals_grow p p'" using g1 by (simp add: p' p1_def journals_grow_def)
    have below: "accounted content p' m \<or> waits content ru m"
      if q: "(q, n) \<in> set (mf_offsets mf)" "m \<in> set (lg q)" "km_offset m < n" for q n m
    proof (cases "start_of (pl_group p) q \<le> km_offset m")
      case True
      have "map_of (next_of xs []) q = Some n" using q(1) dis unfolding offs by simp
      moreover have off: "0 \<le> km_offset (fst x)" if "x \<in> set xs" for x
      proof -
        obtain k where "filter (\<lambda>m. km_part m = km_part (fst x)) (map fst xs) =
            take k (filter (\<lambda>m. start_of (pl_group p) (km_part (fst x)) \<le> km_offset m) (lg (km_part (fst x))))"
          using del unfolding delivers_def xs_def by blast
        moreover have "fst x \<in> set (filter (\<lambda>m. km_part m = km_part (fst x)) (map fst xs))" using that by simp
        ultimately have "fst x \<in> set (lg (km_part (fst x)))" by (auto dest: in_set_takeD)
        with lg show ?thesis by (simp add: log_ok_def)
      qed
      ultimately obtain x where x: "x \<in> set xs" "km_part (fst x) = q" "n = km_offset (fst x) + 1"
        using next_of_tight [of xs "[]" q n] by auto
      from below_offset_polled [OF lg del x(1) [unfolded xs_def] x(2) q(2) q(3) [unfolded x(3)] True]
      obtain v where "(m, v) \<in> set xs" unfolding xs_def by blast
      then show ?thesis by (rule polled)
    next
      case False
      have "0 \<le> km_offset m" using lg q(2) by (simp add: log_ok_def)
      with False obtain k where "pl_group p q = Some k" "km_offset m < k"
        by (auto simp: start_of_def split: option.splits)
      with inv q(2) have "accounted content p m" unfolding etl_inv_def nothing_lost_def by blast
      then show ?thesis using accounted_grows [OF _ g'] by blast
    qed
    have "run_ok lg content p' ru"
      unfolding run_ok_def using below ids mf1 by (auto simp: ru_def)
    with inv1 nothing_lost_grows [OF _ g'] inv show ?thesis by (simp add: etl_inv_def p' p1_def ru_def)
  qed
qed

section \<open>The other tasks\<close>

lemma concat_singletons: "(\<And>x. x \<in> set xs \<Longrightarrow> f x = [g x]) \<Longrightarrow> concat (map f xs) = map g xs"
  by (induction xs) simp_all

lemma clean_rows_file:
  assumes "\<forall>r \<in> set rows. string_id r"
  shows "clean_file env (map (cleanse (ve_iso ve)) (vr_valid (validate_batch ve rows)))"
proof -
  let ?valid = "vr_valid (validate_batch ve rows)"
  have v: "storable ve j r \<and> string_id r" if "r \<in> set ?valid" "rows ! j = r" "j < length rows" "storable ve j r" for r j
    using assms that by (metis nth_mem)
  have spec: "\<forall>r \<in> set ?valid. \<exists>j < length rows. rows ! j = r \<and> storable ve j r"
    "distinct (concat (map seen_key ?valid))"
    using validate_batch_spec [of ve rows] by (simp_all add: Let_def)
  have ok: "\<exists>t. jget r ''transaction_id'' = JStr t \<and> t \<noteq> [] \<and>
      parse_date (ve_iso ve) (jget r ''transaction_date'') \<noteq> None" if r: "r \<in> set ?valid" for r
  proof -
    from spec(1) r obtain j where "j < length rows" "rows ! j = r" "storable ve j r" by blast
    with v [OF r] have "storable ve j r" "string_id r" by auto
    then show ?thesis by (auto simp: storable_def string_id_def REQUIRED_FIELDS_def)
  qed
  have "seen_key r = [JStr (lr_id (load_row_of env [] (cleanse (ve_iso ve) r)))]" if "r \<in> set ?valid" for r
    using ok [OF that] by (auto simp: seen_key_def cleanse_def load_row_of_def)
  then have "concat (map seen_key ?valid) =
      map (\<lambda>r. JStr (lr_id (load_row_of env [] (cleanse (ve_iso ve) r)))) ?valid"
    by (rule concat_singletons)
  with spec(2) have "distinct (map (\<lambda>r. lr_id (load_row_of env [] (cleanse (ve_iso ve) r))) ?valid)"
    by (simp add: distinct_map inj_on_def)
  moreover have "\<forall>x \<in> set (map (cleanse (ve_iso ve)) ?valid). snd x \<noteq> None" using ok by (auto simp: cleanse_def)
  ultimately show ?thesis by (auto simp: clean_file_def comp_def)
qed

lemma validate_files_spec:
  assumes "\<forall>f \<in> set paths. \<forall>rows. fs f = Some (Parquet rows) \<longrightarrow> (\<forall>r \<in> set rows. string_id r)"
    and "validate_files vt i fs paths = (rej, Inr cs)"
  shows "(\<forall>c \<in> set cs. \<forall>env. clean_file env c) \<and>
    (\<forall>f \<in> set paths. \<forall>rows. fs f = Some (Parquet rows) \<longrightarrow>
       (\<forall>r \<in> set rows. r \<in> set rej \<or> (\<exists>c \<in> set cs. \<exists>t. (r, t) \<in> set c)))"
  using assms
proof (induction paths arbitrary: i rej cs)
  case Nil
  then show ?case by simp
next
  case (Cons f paths)
  from Cons.prems(2) obtain rows where f: "vt_fault vt i = None" "fs f = Some (Parquet rows)"
    by (auto split: option.splits staged_file.splits)
  define ve where "ve = vt_env vt i"
  define rep where "rep = validate_batch ve rows"
  define clean where "clean = map (cleanse (ve_iso ve)) (vr_valid rep)"
  obtain rej1 res where rest: "validate_files vt (Suc i) fs paths = (rej1, res)" by fastforce
  from Cons.prems(2) f rest obtain cs1 where res: "res = Inr cs1" and rej: "rej = map fst (vr_errors rep) @ rej1"
    and cs: "cs = (if vr_valid rep = [] then cs1 else clean # cs1)"
    by (auto simp: Let_def rep_def ve_def clean_def split: sum.splits)
  note IH = Cons.IH [OF _ rest [unfolded res]]
  have "clean_file env clean" for env
    unfolding clean_def rep_def using Cons.prems(1) f(2) by (intro clean_rows_file) simp
  then have files: "\<forall>c \<in> set cs. \<forall>env. clean_file env c" using IH Cons.prems(1) by (auto simp: cs)
  have "mset rows = mset (vr_valid rep) + mset (map fst (vr_errors rep))"
    using validate_batch_spec [of ve rows] by (simp add: Let_def rep_def)
  then have split: "set rows = set (vr_valid rep) \<union> set (map fst (vr_errors rep))"
    by (metis set_mset_mset set_mset_union)
  have here: "r \<in> set rej \<or> (\<exists>c \<in> set cs. \<exists>t. (r, t) \<in> set c)" if "r \<in> set rows" for r
  proof -
    from that split consider "r \<in> set (vr_valid rep)" | "r \<in> set (map fst (vr_errors rep))" by blast
    then show ?thesis
    proof cases
      case 1
      then have "cleanse (ve_iso ve) r \<in> set clean" "vr_valid rep \<noteq> []" by (auto simp: clean_def)
      then show ?thesis by (auto simp: cs cleanse_def)
    next
      case 2
      then show ?thesis by (simp add: rej)
    qed
  qed
  have "r \<in> set rej \<or> (\<exists>c \<in> set cs. \<exists>t. (r, t) \<in> set c)"
    if "g \<in> set paths" "fs g = Some (Parquet rs)" "r \<in> set rs" for g rs r
  proof -
    have "r \<in> set rej1 \<or> (\<exists>c \<in> set cs1. \<exists>t. (r, t) \<in> set c)" using IH Cons.prems(1) that by simp
    moreover have "set rej1 \<subseteq> set rej" "set cs1 \<subseteq> set cs" by (auto simp: rej cs)
    ultimately show ?thesis by blast
  qed
  with files here f(2) show ?case by auto
qed

lemma Validate_inv:
  assumes inv: "etl_inv lg content p" and ru: "pl_run p = Some ru"
  shows "etl_inv lg content (validate_and_cleanse vt ru p)"
proof -
  define p' where "p' = validate_and_cleanse vt ru p"
  obtain rej res where v: "validate_files vt 0 (ru_files ru) (mf_files (ru_manifest ru)) = (rej, res)" by fastforce
  define ru' where "ru' = ru\<lparr>ru_clean := (case res of Inl e \<Rightarrow> None | Inr cs \<Rightarrow> Some cs), ru_loaded := False\<rparr>"
  have p': "p' = p\<lparr>pl_rejected := pl_rejected p @ rej, pl_run := Some ru'\<rparr>"
    by (simp add: p'_def validate_and_cleanse_def v ru'_def Let_def)
  have g: "journals_grow p p'" by (simp add: p' journals_grow_def)
  have ok: "run_ok lg content p ru" using inv ru by (simp add: etl_inv_def)
  have same: "staged_rows ru' = staged_rows ru" "ru_manifest ru' = ru_manifest ru"
    by (simp_all add: staged_rows_def ru'_def)
  have "waits content ru' m = waits content ru m" for m by (simp add: waits_def same)
  then have below: "\<forall>(q, n) \<in> set (mf_offsets (ru_manifest ru')). \<forall>m \<in> set (lg q). km_offset m < n \<longrightarrow>
      accounted content p' m \<or> waits content ru' m"
    using ok accounted_grows [OF _ g] unfolding run_ok_def same by blast
  have clean: "(\<forall>f \<in> set cs. \<forall>env. clean_file env f) \<and>
      (\<forall>r \<in> staged_rows ru'. r \<in> set (pl_rejected p') \<or> (\<exists>f \<in> set cs. \<exists>t. (r, t) \<in> set f))"
    if "ru_clean ru' = Some cs" for cs
  proof -
    from that have res: "res = Inr cs" by (auto simp: ru'_def split: sum.splits)
    have "\<forall>f \<in> set (mf_files (ru_manifest ru)). \<forall>rows. ru_files ru f = Some (Parquet rows) \<longrightarrow>
        (\<forall>r \<in> set rows. string_id r)"
    proof -
      have "\<forall>r \<in> staged_rows ru. string_id r" using ok unfolding run_ok_def by blast
      then show ?thesis unfolding staged_rows_def by blast
    qed
    from validate_files_spec [OF this v [unfolded res]] show ?thesis
      unfolding same by (fastforce simp: staged_rows_def p')
  qed
  have "run_ok lg content p' ru'"
    using ok below clean unfolding run_ok_def same by (simp add: ru'_def)
  with inv nothing_lost_grows [OF _ g] show ?thesis unfolding p'_def [symmetric] by (simp add: etl_inv_def p')
qed

lemma load_paths_spec:
  assumes "load_paths env (map Some cs) n s = (res, s')" "zone_ok env" "\<forall>f \<in> set cs. clean_file env f"
    and "no_duplicates (lo_wh s)"
  shows "no_duplicates (lo_wh s') \<and> kept s s' \<and>
    (\<forall>k. res = Inr k \<longrightarrow> (\<forall>f \<in> set cs. \<forall>x \<in> set f. \<exists>names. placed s' (load_row_of env names x)))"
  using assms
proof (induction cs arbitrary: n s)
  case Nil
  then show ?case by simp
next
  case (Cons c cs)
  obtain r s1 where r: "load_parquet env (Some c) s = (r, s1)" by fastforce
  from load_parquet_spec [OF r Cons.prems(2) _ Cons.prems(4)] Cons.prems(3) have
    1: "no_duplicates (lo_wh s1)" "kept s s1"
      "\<forall>k. r = Inr k \<longrightarrow> (\<forall>x \<in> set c. \<exists>names. placed s1 (load_row_of env names x))" by simp_all
  show ?case
  proof (cases r)
    case (Inl e)
    with Cons.prems(1) r 1 show ?thesis by auto
  next
    case (Inr k)
    with Cons.prems(1) r have l: "load_paths env (map Some cs) (n + k) s1 = (res, s')" by simp
    from Cons.IH [OF l Cons.prems(2) _ 1(1)] Cons.prems(3) have
      2: "no_duplicates (lo_wh s')" "kept s1 s'"
        "\<forall>k. res = Inr k \<longrightarrow> (\<forall>f \<in> set cs. \<forall>x \<in> set f. \<exists>names. placed s' (load_row_of env names x))" by simp_all
    have "\<forall>x \<in> set c. \<exists>names. placed s' (load_row_of env names x)"
      using 1(3) Inr placed_kept [OF _ 2(2)] by blast
    with 2 kept_trans [OF 1(2) 2(2)] show ?thesis by simp
  qed
qed

lemma Load_inv:
  assumes inv: "etl_inv lg content p" and ru: "pl_run p = Some ru" "ru_clean ru = Some cs" and z: "zone_ok env"
  shows "etl_inv lg content (load_to_clickhouse env ru cs p)"
proof -
  define p' where "p' = load_to_clickhouse env ru cs p"
  obtain res s where l: "load_paths env (map Some cs) 0 (pl_loader p) = (res, s)" by fastforce
  define ru' where "ru' = ru\<lparr>ru_loaded := (case res of Inl e \<Rightarrow> False | Inr n \<Rightarrow> True)\<rparr>"
  have p': "p' = p\<lparr>pl_loader := s, pl_run := Some ru'\<rparr>"
    by (simp add: p'_def load_to_clickhouse_def l ru'_def split: sum.split)
  have ok: "run_ok lg content p ru" using inv ru by (simp add: etl_inv_def)
  then have cf: "\<forall>f \<in> set cs. clean_file env f" using ru(2) by (simp add: run_ok_def)
  have nd: "no_duplicates (lo_wh (pl_loader p))" using inv by (simp add: etl_inv_def)
  note spec = load_paths_spec [OF l z cf nd]
  have g: "journals_grow p p'" using spec by (simp add: p' journals_grow_def)
  have same: "staged_rows ru' = staged_rows ru" "ru_manifest ru' = ru_manifest ru" "ru_clean ru' = ru_clean ru"
    by (simp_all add: staged_rows_def ru'_def)
  have "waits content ru' m = waits content ru m" for m by (simp add: waits_def same)
  then have below: "\<forall>(q, n) \<in> set (mf_offsets (ru_manifest ru')). \<forall>m \<in> set (lg q). km_offset m < n \<longrightarrow>
      accounted content p' m \<or> waits content ru' m"
    using ok accounted_grows [OF _ g] unfolding run_ok_def same by blast
  have "row_settled p' r" if loaded: "ru_loaded ru'" and r: "r \<in> staged_rows ru'" for r
  proof -
    obtain k where "res = Inr k" using loaded by (auto simp: ru'_def split: sum.splits)
    with spec have placed: "\<forall>f \<in> set cs. \<forall>x \<in> set f. \<exists>names. placed s (load_row_of env names x)" by blast
    from ok r ru(2) have "r \<in> set (pl_rejected p) \<or> (\<exists>f \<in> set cs. \<exists>t. (r, t) \<in> set f)"
      by (auto simp: run_ok_def same)
    then show ?thesis
    proof (elim disjE bexE exE)
      fix f t assume "f \<in> set cs" "(r, t) \<in> set f"
      with placed obtain names where "placed s (load_row_of env names (r, t))" by blast
      then show ?thesis unfolding row_settled_def p' by auto
    qed (simp add: row_settled_def p')
  qed
  then have "run_ok lg content p' ru'"
    using ok below ru(2) unfolding run_ok_def same by (simp add: p')
  with inv spec nothing_lost_grows [OF _ g] show ?thesis unfolding p'_def [symmetric] by (simp add: etl_inv_def p')
qed

lemma Commit_inv:
  assumes inv: "etl_inv lg content p" and ru: "pl_run p = Some ru" "ru_loaded ru"
  shows "etl_inv lg content (commit_kafka_offsets env ru p)"
proof -
  define p' where "p' = commit_kafka_offsets env ru p"
  obtain r g' where c: "commit_offsets env (ru_manifest ru) (pl_group p) = (r, g')" by fastforce
  have p': "p' = p\<lparr>pl_group := g'\<rparr>" by (simp add: p'_def commit_kafka_offsets_def c)
  have g: "journals_grow p p'" by (simp add: p' journals_grow_def)
  have ok: "run_ok lg content p ru" using inv ru by (simp add: etl_inv_def)
  have wait: "accounted content p m" if "waits content ru m" for m
  proof -
    from that obtain r r' where "content (km_value m) = Some r" "framed r r'" "r' \<in> staged_rows ru"
      unfolding waits_def by blast
    moreover from this ok ru(2) have "row_settled p r'" by (simp add: run_ok_def)
    ultimately show ?thesis unfolding accounted_def by blast
  qed
  have "accounted content p m" if q: "g' q = Some n" "m \<in> set (lg q)" "km_offset m < n" for q n m
  proof -
    have "distinct (map fst (mf_offsets (ru_manifest ru)))" using ok by (simp add: run_ok_def)
    from commit_offsets_spec [OF this c]
    have "g' q = pl_group p q \<or> (\<exists>k. (q, k) \<in> set (mf_offsets (ru_manifest ru)) \<and> g' q = Some k)" by blast
    with q(1) have "pl_group p q = Some n \<or> (q, n) \<in> set (mf_offsets (ru_manifest ru))" by auto
    then show ?thesis
    proof
      assume "pl_group p q = Some n"
      with inv q(2,3) show ?thesis unfolding etl_inv_def nothing_lost_def by blast
    next
      assume "(q, n) \<in> set (mf_offsets (ru_manifest ru))"
      with ok q(2,3) wait show ?thesis unfolding run_ok_def by blast
    qed
  qed
  then have "nothing_lost lg content p'" unfolding nothing_lost_def using accounted_grows [OF _ g] by (simp add: p')
  moreover have "run_ok lg content p' ru" using ok accounted_grows [OF _ g] row_settled_grows [OF _ g]
    unfolding run_ok_def by (fastforce simp: p')
  ultimately show ?thesis using inv ru unfolding p'_def [symmetric] by (simp add: etl_inv_def p')
qed

section \<open>Nothing is lost\<close>

lemma etl_step_inv: "etl_step lg content p p' \<Longrightarrow> log_ok lg \<Longrightarrow> etl_inv lg content p \<Longrightarrow> etl_inv lg content p'"
  by (elim etl_stepE) (auto intro: Extract_inv Validate_inv Load_inv Commit_inv)

lemma etl_steps_inv:
  "(etl_step lg content)\<^sup>*\<^sup>* p p' \<Longrightarrow> log_ok lg \<Longrightarrow> etl_inv lg content p \<Longrightarrow> etl_inv lg content p'"
  by (induction rule: rtranclp_induct) (auto intro: etl_step_inv)

definition fresh_pipeline :: "pipeline \<Rightarrow> bool" where
  "fresh_pipeline p = (no_duplicates (lo_wh (pl_loader p)) \<and> pl_group p = (\<lambda>_. None) \<and> pl_run p = None)"


section \<open>Samples\<close>

definition sample_topic_log :: topic_log where
  "sample_topic_log q = (if q = 0 then [sample_message] else if q = 1 then [sample_junk] else [])"

definition sample_content :: "msg_value \<Rightarrow> row option" where
  "sample_content v = (case v of
     Bytes bs \<Rightarrow> if length bs = 7 then Some [(''transaction_id'', JStr ''t1''), (''amount'', JFloat 5)] else None
   | NotBytes \<Rightarrow> None)"

definition sample_pipeline :: pipeline where
  "sample_pipeline = \<lparr>pl_group = \<lambda>_. None, pl_loader = sample_loader, pl_dead = [], pl_rejected = [], pl_run = None\<rparr>"

lemma sample_delivers: "delivers sample_topic_log (\<lambda>_. None) sample_extract"
proof -
  have later: "polled sample_extract i = []" if "0 < i" for i
    using that by (simp add: polled_def sample_extract_def)
  have first: "map fst (polled sample_extract 0) = [sample_message, sample_junk]"
    by (simp add: polled_def sample_extract_def)
  have all: "map fst (polled_in sample_extract 0 n) = (if n = 0 then [] else [sample_message, sample_junk])" for n
  proof (induction n)
    case (Suc n)
    then show ?case by (cases "n = 0") (simp_all add: polled_in_Suc first later)
  qed simp
  show ?thesis
    unfolding delivers_def all
    by (intro allI, rule_tac x = "if n = 0 then 0 else 1" in exI)
      (auto simp: sample_topic_log_def sample_message_def sample_junk_def start_of_def)
qed

lemma sample_decodes: "decodes sample_content sample_extract"
  by (auto simp: decodes_def sample_extract_def sample_etl_decoder_def etl_decode_def decode_with_def sample_content_def
      jget_def members_def split: sum.splits msg_value.splits if_splits bool.splits)

text \<open>The sample record has no user, so the validator rejects it.\<close>

lemma sample_not_storable: "sample_content v = Some r \<Longrightarrow> framed r r' \<Longrightarrow> \<not> storable ve j r'"
proof -
  assume "sample_content v = Some r" "framed r r'"
  then have "jget r' ''user_id'' = JNull"
    by (auto simp: sample_content_def framed_def jget_def members_def split: msg_value.splits if_splits)
  then show ?thesis by (auto simp: storable_def)
qed

lemma validate_files_none_valid:
  assumes "\<forall>f \<in> set paths. \<exists>rows. fs f = Some (Parquet rows) \<and> (\<forall>r \<in> set rows. \<forall>ve j. \<not> storable ve j r)"
    and "\<And>i. vt_fault vt i = None"
  shows "\<exists>rej. validate_files vt i fs paths = (rej, Inr [])"
  using assms(1)
proof (induction paths arbitrary: i)
  case Nil
  then show ?case by simp
next
  case (Cons f paths)
  then obtain rows where f: "fs f = Some (Parquet rows)" "\<forall>r \<in> set rows. \<forall>ve j. \<not> storable ve j r" by auto
  have "vr_valid (validate_batch ve rows) = []" for ve
  proof (rule ccontr)
    assume "vr_valid (validate_batch ve rows) \<noteq> []"
    then obtain r where "r \<in> set (vr_valid (validate_batch ve rows))" by (cases "vr_valid (validate_batch ve rows)") auto
    with validate_batch_spec [of ve rows] obtain j where "j < length rows" "rows ! j = r" "storable ve j r"
      unfolding Let_def by blast
    with f(2) show False by (metis nth_mem)
  qed
  moreover have "\<exists>rej. validate_files vt (Suc i) fs paths = (rej, Inr [])"
    using Cons.IH [of "Suc i"] Cons.prems by simp
  ultimately show ?case using f(1) assms(2) by (auto simp: Let_def)
qed

lemma commit_reachable: "\<exists>ps. fst (commit_offsets reachable_broker mf g) = Inr ps"
proof -
  obtain qs where "to_commit reachable_broker g (mf_offsets mf) = Inr qs"
    using to_commit_total [of reachable_broker] by (auto simp: reachable_broker_def)
  then show ?thesis by (cases qs) (simp_all add: commit_offsets_def, simp_all add: reachable_broker_def)
qed

lemma sample_etl_run:
  "\<exists>p. (etl_step sample_topic_log sample_content)\<^sup>*\<^sup>* sample_pipeline p \<and> pl_group p 0 = Some 6"
proof -
  obtain mf s where d: "drain sample_extract 200 3 (new_consumer (\<lambda>_. None)) = Some (Inr mf, s)"
    and offs: "mf_offsets mf = [(0, 6), (1, 4)]" using sample_drain by blast
  obtain path s1 where w: "write_manifest sample_extract mf s = (Inr path, s1)"
    by (simp add: write_manifest_def put_file_def sample_extract_def Let_def)
  obtain offsets where r: "read_manifest (manifest_json mf) = Inr (mf\<lparr>mf_offsets := offsets\<rparr>)"
    and o: "map_of offsets = map_of (mf_offsets mf)" "distinct (map fst offsets)"
    using read_manifest_written [of mf] by (auto simp: offs)
  define ru where "ru = \<lparr>ru_manifest = mf\<lparr>mf_offsets := offsets\<rparr>, ru_files = es_files s1, ru_clean = None, ru_loaded = False\<rparr>"
  define p1 where "p1 = sample_pipeline\<lparr>pl_dead := dead_contents s, pl_run := Some ru\<rparr>"
  have "extract_transactions sample_extract sample_pipeline = Some p1"
    by (simp add: extract_transactions_def d w r p1_def ru_def sample_pipeline_def)
  moreover have "delivers sample_topic_log (pl_group sample_pipeline) sample_extract"
    by (simp add: sample_pipeline_def sample_delivers)
  ultimately have 1: "etl_step sample_topic_log sample_content sample_pipeline p1"
    by (intro Extract [OF _ sample_stamps sample_decodes])
  define vt where "vt = \<lparr>vt_env = \<lambda>_. sample_validate, vt_fault = \<lambda>_. None\<rparr>"
  obtain bs where bs: "concat bs = records_of (polled_in sample_extract 0 (es_poll s))"
    "list_all2 (\<lambda>f b. es_files s1 f = Some (Parquet (frame_rows sample_extract b))) (mf_files mf) bs"
    using extract_files [OF sample_stamps d w] by blast
  have "\<not> storable ve j r'" if r': "b \<in> set bs" "r' \<in> set (frame_rows sample_extract b)" for b r' ve j
  proof -
    obtain r where r: "r \<in> set b" "framed r r'" using frame_rows_framed(2) [OF r'(2)] by blast
    then have "r \<in> set (records_of (polled_in sample_extract 0 (es_poll s)))" using bs(1) r'(1) by (metis UN_I set_concat)
    then obtain m v where "(m, v) \<in> set (polled_in sample_extract 0 (es_poll s))" "r \<in> set (record_of (m, v))" by auto
    then have "(m, Record r) \<in> set (polled_in sample_extract 0 (es_poll s))" using record_of_Record by fastforce
    from polled_decoded [OF this] sample_decodes have "sample_content (km_value m) = Some r"
      unfolding decodes_def by metis
    then show ?thesis using r(2) by (rule sample_not_storable)
  qed
  then have "\<forall>f \<in> set (mf_files mf). \<exists>rows. es_files s1 f = Some (Parquet rows) \<and>
      (\<forall>r \<in> set rows. \<forall>ve j. \<not> storable ve j r)"
    using bs(2) by (fastforce simp: list_all2_conv_all_nth in_set_conv_nth)
  then obtain rej where v: "validate_files vt 0 (es_files s1) (mf_files mf) = (rej, Inr [])"
    using validate_files_none_valid [of "mf_files mf" "es_files s1" vt 0] by (auto simp: vt_def)
  define ru2 where "ru2 = ru\<lparr>ru_clean := Some [], ru_loaded := False\<rparr>"
  define p2 where "p2 = validate_and_cleanse vt ru p1"
  have p2: "p2 = p1\<lparr>pl_rejected := pl_rejected p1 @ rej, pl_run := Some ru2\<rparr>"
    by (simp add: p2_def validate_and_cleanse_def ru_def v ru2_def Let_def)
  have 2: "etl_step sample_topic_log sample_content p1 p2" unfolding p2_def by (rule Validate) (simp add: p1_def)
  define p3 where "p3 = load_to_clickhouse sample_load ru2 [] p2"
  have "zone_ok sample_load" by (simp add: zone_ok_def sample_load_def day_us_def hour_us_def second_us_def)
  then have 3: "etl_step sample_topic_log sample_content p2 p3" unfolding p3_def
    by (intro Load) (simp_all add: p2 ru2_def)
  have p3: "pl_run p3 = Some (ru2\<lparr>ru_loaded := True\<rparr>)" "pl_group p3 = (\<lambda>_. None)"
    by (simp_all add: p3_def load_to_clickhouse_def p2 p1_def sample_pipeline_def)
  define p4 where "p4 = commit_kafka_offsets reachable_broker (ru2\<lparr>ru_loaded := True\<rparr>) p3"
  have 4: "etl_step sample_topic_log sample_content p3 p4" unfolding p4_def using p3(1) by (rule Commit) simp
  obtain q g' where c: "commit_offsets reachable_broker (mf\<lparr>mf_offsets := offsets\<rparr>) (\<lambda>_. None) = (q, g')" by fastforce
  have "(0, 6) \<in> set offsets" using o by (intro map_of_SomeD) (simp add: offs)
  moreover have "\<exists>ps. q = Inr ps"
    using c commit_reachable [of "mf\<lparr>mf_offsets := offsets\<rparr>" "\<lambda>_. None"] by simp
  ultimately obtain k where k: "6 \<le> k" "g' 0 = Some k" using commit_offsets_spec [OF _ c] o(2) by fastforce
  moreover have "g' 0 = None \<or> (0, k) \<in> set offsets" using commit_offsets_spec [OF _ c] o(2) k(2) by fastforce
  ultimately have "g' 0 = Some 6" using o by (auto dest!: map_of_is_SomeI [OF o(2)] simp: offs split: if_splits)
  then have "pl_group p4 0 = Some 6" using c by (simp add: p4_def commit_kafka_offsets_def p3(2) ru2_def ru_def)
  with 1 2 3 4 show ?thesis by (intro exI [of _ p4]) (meson converse_rtranclp_into_rtranclp rtranclp.rtrancl_refl)
qed


end
