(* ===== verification/Experiments.thy ===== *)
theory Experiments
  imports Campaigns Fsm Float64
begin

text \<open>
  A/B experiments: \<^verbatim>\<open>services/campaign_manager/app/api/ab_testing.py\<close> with the tables \<^verbatim>\<open>ab_*\<close> of
  migrations 001 and 010.

  \<open>ab_env\<close> says what happens around one call: failures of its statements, what other transactions
  commit before a statement (\<open>ae_world\<close>; a row the call itself has written is in their view, because
  its unique key makes them wait), the clocks and fresh ids, MD5 (the first eight hex digits as a number),
  the collation of the database, and \<^verbatim>\<open>sqrt\<close>, \<^verbatim>\<open>norm.sf\<close> and \<^verbatim>\<open>norm.ppf\<close> on doubles. \<^verbatim>\<open>strategy_params\<close> is
  storable as JSONB.
\<close>

section \<open>Tables\<close>

record exp_row =
  xp_id :: uuid
  xp_name :: string
  xp_status :: string
  xp_metric :: string
  xp_start :: time
  xp_end :: "time option"

record variant_row =
  va_id :: uuid
  va_exp :: uuid
  va_name :: string
  va_weight :: rat
  va_class :: string
  va_params :: "json option"
  va_control :: bool

record assignment_row =
  an_id :: uuid
  an_user :: uuid
  an_exp :: uuid
  an_variant :: uuid
  an_at :: time

record ab_event_row =
  xv_id :: uuid
  xv_assignment :: uuid
  xv_type :: string

record ab_db =
  ab_exps :: "exp_row list"
  ab_variants :: "variant_row list"
  ab_assigns :: "assignment_row list"
  ab_events :: "ab_event_row list"

datatype ab_stmt = XLoad | XVariants | XWrite | XRead | XCommit

record ab_env =
  ae_fault :: "ab_stmt \<Rightarrow> exn option"
  ae_world :: "ab_stmt \<Rightarrow> ab_db \<Rightarrow> ab_db"
  ae_applied :: bool
  ae_clock :: time
  ae_local :: "time \<Rightarrow> time"
  ae_fresh :: "nat \<Rightarrow> uuid"
  ae_md5 :: "string \<Rightarrow> nat"
  ae_collate :: "string \<Rightarrow> nat"
  ae_sqrt :: "rat \<Rightarrow> rat"
  ae_sf :: "rat \<Rightarrow> rat"
  ae_ppf :: "rat \<Rightarrow> rat"
  ae_alpha :: rat
  ae_trend :: rat
  ae_min_n :: nat

definition ab_at :: "ab_env \<Rightarrow> ab_stmt \<Rightarrow> ab_db \<Rightarrow> (ab_db \<Rightarrow> 'a answer \<times> ab_db) \<Rightarrow> 'a answer \<times> ab_db" where
  "ab_at env st d k =
    (let d1 = ae_world env st d in case ae_fault env st of Some e \<Rightarrow> (Crash e, d1) | None \<Rightarrow> k d1)"

definition ab_instant :: "ab_env \<Rightarrow> py_time \<Rightarrow> time" where
  "ab_instant env t = (case t of Naive x \<Rightarrow> ae_local env x | Aware x \<Rightarrow> x)"

section \<open>Payload\<close>

record variant_create =
  vc_name :: string
  vc_weight :: rat
  vc_class :: string
  vc_params :: "json option"
  vc_control :: "bool option"

record exp_create =
  xc_name :: string
  xc_metric :: string
  xc_start :: py_time
  xc_end :: "py_time option"
  xc_variants :: "variant_create list"

definition text_within :: "nat \<Rightarrow> string \<Rightarrow> bool" where
  "text_within n s = (s \<noteq> [] \<and> length s \<le> n)"

definition variant_ok :: "variant_create \<Rightarrow> bool" where
  "variant_ok v = (text_within 64 (vc_name v) \<and> 0 \<le> vc_weight v \<and> vc_weight v \<le> 1 \<and> text_within 255 (vc_class v))"

text \<open>\<^verbatim>\<open>sum\<close> of doubles, from the left.\<close>

definition fl_sum :: "rat list \<Rightarrow> rat" where
  "fl_sum ws = foldl (\<lambda>a w. fl (a + w)) 0 ws"

definition weights_sum_to_one :: "variant_create list \<Rightarrow> bool" where
  "weights_sum_to_one vs = (\<not> fl (1 / 10 ^ 6) < \<bar>fl (fl_sum (map vc_weight vs) - 1)\<bar>)"

definition exactly_one_control :: "variant_create list \<Rightarrow> variant_create list option" where
  "exactly_one_control vs =
    (if \<not> distinct (map vc_name vs) then None
     else let vs1 = (if list_all (\<lambda>v. vc_control v = None) vs
                     then (hd vs)\<lparr>vc_control := Some True\<rparr> # tl vs else vs) in
       if length (filter (\<lambda>v. vc_control v = Some True) vs1) \<noteq> 1 then None
       else Some (map (\<lambda>v. v\<lparr>vc_control := Some (vc_control v = Some True)\<rparr>) vs1))"

definition validate_experiment :: "exp_create \<Rightarrow> variant_create list option" where
  "validate_experiment p =
    (if text_within 255 (xc_name p) \<and> text_within 64 (xc_metric p) \<and> 2 \<le> length (xc_variants p) \<and>
        length (xc_variants p) \<le> 10 \<and> list_all variant_ok (xc_variants p) \<and> weights_sum_to_one (xc_variants p)
     then exactly_one_control (xc_variants p) else None)"

section \<open>Reading an experiment\<close>

record exp_response =
  xr_exp :: exp_row
  xr_variants :: "variant_row list"

definition control_first :: "ab_env \<Rightarrow> variant_row list \<Rightarrow> variant_row list" where
  "control_first env vs =
    (let by_name = sort_key (\<lambda>v. ae_collate env (va_name v)) vs in
     filter va_control by_name @ filter (\<lambda>v. \<not> va_control v) by_name)"

definition variants_of :: "ab_env \<Rightarrow> uuid \<Rightarrow> ab_db \<Rightarrow> variant_row list" where
  "variants_of env x d = control_first env (filter (\<lambda>v. va_exp v = x) (ab_variants d))"

definition get_experiment :: "ab_env \<Rightarrow> uuid \<Rightarrow> ab_db \<Rightarrow> exp_response answer \<times> ab_db" where
  "get_experiment env x d = ab_at env XLoad d (\<lambda>d1.
     case find_by xp_id x (ab_exps d1) of
       None \<Rightarrow> (Reject 404, d1)
     | Some e \<Rightarrow> ab_at env XVariants d1 (\<lambda>d2. (Reply \<lparr>xr_exp = e, xr_variants = variants_of env x d2\<rparr>, d2)))"

definition list_experiments :: "ab_env \<Rightarrow> nat \<Rightarrow> nat \<Rightarrow> ab_db \<Rightarrow> exp_response list answer \<times> ab_db" where
  "list_experiments env cnt off d =
    (if cnt < 1 \<or> 200 < cnt then (Reject 422, d)
     else ab_at env XLoad d (\<lambda>d1.
       let exps = take cnt (drop off (sort_key (\<lambda>e. - xp_start e) (ab_exps d1))) in
       if exps = [] then (Reply [], d1)
       else ab_at env XVariants d1 (\<lambda>d2.
         (Reply (map (\<lambda>e. \<lparr>xr_exp = e, xr_variants = variants_of env (xp_id e) d2\<rparr>) exps), d2))))"

section \<open>Creating\<close>

definition create_experiment :: "ab_env \<Rightarrow> exp_create \<Rightarrow> ab_db \<Rightarrow> exp_response answer \<times> ab_db" where
  "create_experiment env p d =
    (case validate_experiment p of
       None \<Rightarrow> (Reject 422, d)
     | Some vs \<Rightarrow>
        (let x = \<lparr>xp_id = ae_fresh env 0, xp_name = xc_name p, xp_status = ''DRAFT'', xp_metric = xc_metric p,
               xp_start = ab_instant env (xc_start p), xp_end = map_option (ab_instant env) (xc_end p)\<rparr>;
             rows = map (\<lambda>(i, v). \<lparr>va_id = ae_fresh env (Suc i), va_exp = xp_id x, va_name = vc_name v,
               va_weight = vc_weight v, va_class = vc_class v, va_params = vc_params v,
               va_control = (vc_control v = Some True)\<rparr>) (enumerate 0 vs) in
         ab_at env XWrite d (\<lambda>d1.
           if CHR 0x00 \<in> set (xp_name x) \<union> set (xp_metric x) then (Crash (pg_error ''22021''), d1)
           else if list_ex (\<lambda>v. CHR 0x00 \<in> set (vc_name v) \<union> set (vc_class v)) vs then (Crash (pg_error ''22P05''), d1)
           else if xp_id x \<in> xp_id ` set (ab_exps d1) then (Crash (pg_error ''23505''), d1)
           else if xp_name x \<in> xp_name ` set (ab_exps d1) then (Reject 409, d1)
           else if \<not> distinct (map va_id (ab_variants d1 @ rows)) then (Crash (pg_error ''23505''), d1)
           else (let d2 = d1\<lparr>ab_exps := ab_exps d1 @ [x], ab_variants := ab_variants d1 @ rows\<rparr> in
             case ae_fault env XCommit of
               Some e \<Rightarrow> (Crash e, if ae_applied env then d2 else d1)
             | None \<Rightarrow> (Reply \<lparr>xr_exp = x, xr_variants = rows\<rparr>, d2)))))"

section \<open>Status\<close>

definition FSM_AB :: "string \<Rightarrow> string \<Rightarrow> string option" where
  "FSM_AB st act = map_of [((''DRAFT'', ''start''), ''ACTIVE''), ((''ACTIVE'', ''stop''), ''STOPPED'')] (st, act)"

text \<open>The update is by primary key; the experiment in the answer is the one in the session.\<close>

definition patch_experiment_status :: "ab_env \<Rightarrow> uuid \<Rightarrow> string \<Rightarrow> ab_db \<Rightarrow> exp_response answer \<times> ab_db" where
  "patch_experiment_status env x act d =
    (if act \<noteq> ''start'' \<and> act \<noteq> ''stop'' then (Reject 422, d)
     else ab_at env XLoad d (\<lambda>d1.
       case find_by xp_id x (ab_exps d1) of
         None \<Rightarrow> (Reject 404, d1)
       | Some e \<Rightarrow>
          (case FSM_AB (xp_status e) act of
             None \<Rightarrow> (Reject 409, d1)
           | Some new \<Rightarrow> ab_at env XWrite d1 (\<lambda>d2.
               let d3 = d2\<lparr>ab_exps := update_where (\<lambda>y. xp_id y = x) (\<lambda>y. y\<lparr>xp_status := new\<rparr>) (ab_exps d2)\<rparr> in
               case ae_fault env XCommit of
                 Some er \<Rightarrow> (Crash er, if ae_applied env then d3 else d2)
               | None \<Rightarrow> ab_at env XVariants d3 (\<lambda>d4.
                   (Reply \<lparr>xr_exp = e\<lparr>xp_status := new\<rparr>, xr_variants = variants_of env x d4\<rparr>, d4))))))"

section \<open>Assignment\<close>

definition deterministic_bucket :: "ab_env \<Rightarrow> string \<Rightarrow> string \<Rightarrow> rat" where
  "deterministic_bucket env user x = of_nat (ae_md5 env (x @ '':'' @ user)) / 2 ^ 32"

fun pick_from :: "rat \<Rightarrow> rat \<Rightarrow> variant_row list \<Rightarrow> variant_row option" where
  "pick_from bucket cum [] = None"
| "pick_from bucket cum (v # vs) =
    (if bucket < fl (cum + va_weight v) then Some v else pick_from bucket (fl (cum + va_weight v)) vs)"

definition pick_variant :: "rat \<Rightarrow> variant_row list \<Rightarrow> variant_row" where
  "pick_variant bucket vs = (case pick_from bucket 0 vs of Some v \<Rightarrow> v | None \<Rightarrow> last vs)"

record assignment_response =
  ar_user :: uuid
  ar_exp :: uuid
  ar_variant :: uuid
  ar_name :: string
  ar_at :: time

definition find_assignment :: "uuid \<Rightarrow> uuid \<Rightarrow> ab_db \<Rightarrow> assignment_row option" where
  "find_assignment u x d = find (\<lambda>a. an_user a = u \<and> an_exp a = x) (ab_assigns d)"

definition shown_assignment :: "uuid \<Rightarrow> uuid \<Rightarrow> ab_db \<Rightarrow> assignment_response option" where
  "shown_assignment u x d =
    (case find_assignment u x d of
       None \<Rightarrow> None
     | Some a \<Rightarrow> map_option (\<lambda>v. \<lparr>ar_user = u, ar_exp = x, ar_variant = an_variant a, ar_name = va_name v, ar_at = an_at a\<rparr>)
         (find_by va_id (an_variant a) (ab_variants d)))"

definition withdraw :: "assignment_row option \<Rightarrow> ab_db \<Rightarrow> ab_db" where
  "withdraw own d = (case own of None \<Rightarrow> d
     | Some a \<Rightarrow> d\<lparr>ab_assigns := filter (\<lambda>b. an_id b \<noteq> an_id a) (ab_assigns d)\<rparr>)"

definition add_own :: "assignment_row option \<Rightarrow> ab_db \<Rightarrow> ab_db" where
  "add_own own d = (case own of None \<Rightarrow> d | Some a \<Rightarrow> d\<lparr>ab_assigns := ab_assigns d @ [a]\<rparr>)"

text \<open>The insert, the read of what is in the table, the commit.\<close>

definition read_assignment ::
  "ab_env \<Rightarrow> uuid \<Rightarrow> uuid \<Rightarrow> assignment_row option \<Rightarrow> ab_db \<Rightarrow> assignment_response answer \<times> ab_db" where
  "read_assignment env x u own d1 =
    (let d2 = ae_world env XRead (add_own own d1) in
     case (ae_fault env XRead, shown_assignment u x d2) of
       (Some e, _) \<Rightarrow> (Crash e, withdraw own d2)
     | (None, None) \<Rightarrow> (Crash (py_error ''NoResultFound''), withdraw own d2)
     | (None, Some r) \<Rightarrow>
        (case ae_fault env XCommit of
           Some e \<Rightarrow> (Crash e, if ae_applied env then d2 else withdraw own d2)
         | None \<Rightarrow> (Reply r, d2)))"

definition settle_assignment :: "ab_env \<Rightarrow> uuid \<Rightarrow> uuid \<Rightarrow> assignment_row \<Rightarrow> ab_db \<Rightarrow> assignment_response answer \<times> ab_db" where
  "settle_assignment env x u a d = ab_at env XWrite d (\<lambda>d1.
     if find_assignment u x d1 = None \<and> an_id a \<in> an_id ` set (ab_assigns d1) then (Crash (pg_error ''23505''), d1)
     else read_assignment env x u (if find_assignment u x d1 = None then Some a else None) d1)"

definition assign_user :: "ab_env \<Rightarrow> uuid \<Rightarrow> uuid \<Rightarrow> ab_db \<Rightarrow> assignment_response answer \<times> ab_db" where
  "assign_user env x u d = ab_at env XLoad d (\<lambda>d1.
     case find_by xp_id x (ab_exps d1) of
       None \<Rightarrow> (Reject 404, d1)
     | Some e \<Rightarrow>
        if xp_status e \<noteq> ''ACTIVE'' then (Reject 409, d1)
        else ab_at env XVariants d1 (\<lambda>d2.
          let vs = sort_key (\<lambda>v. ae_collate env (va_name v)) (filter (\<lambda>v. va_exp v = x) (ab_variants d2)) in
          if vs = [] then (Reject 409, d2)
          else settle_assignment env x u
            \<lparr>an_id = ae_fresh env 0, an_user = u, an_exp = x,
             an_variant = va_id (pick_variant (deterministic_bucket env (uuid_text u) (uuid_text x)) vs),
             an_at = ae_clock env\<rparr> d2))"

section \<open>Results\<close>

record z_result =
  zr_z :: rat
  zr_p :: rat
  zr_diff :: rat
  zr_ci :: "rat \<times> rat"

definition two_proportion_z_test :: "ab_env \<Rightarrow> nat \<Rightarrow> nat \<Rightarrow> nat \<Rightarrow> nat \<Rightarrow> rat \<Rightarrow> z_result option" where
  "two_proportion_z_test env sa na sb nb alpha =
    (if na = 0 \<or> nb = 0 then None
     else if \<not> (sa \<le> na \<and> sb \<le> nb) then None
     else let pa = fl (of_nat sa / of_nat na); pb = fl (of_nat sb / of_nat nb);
              pool = fl (of_nat (sa + sb) / of_nat (na + nb));
              var = fl (fl (pool * fl (1 - pool)) * fl (fl (1 / of_nat na) + fl (1 / of_nat nb))) in
       if var \<le> 0 then None
       else let diff = fl (pb - pa); z = fl (diff / ae_sqrt env var);
                se = ae_sqrt env (fl (fl (fl (pa * fl (1 - pa)) / of_nat na) + fl (fl (pb * fl (1 - pb)) / of_nat nb)));
                za = ae_ppf env (fl (1 - fl (alpha / 2))) in
         Some \<lparr>zr_z = z, zr_p = fl (2 * ae_sf env \<bar>z\<bar>), zr_diff = diff,
               zr_ci = (fl (diff - fl (za * se)), fl (diff + fl (za * se)))\<rparr>)"

definition significance_badge :: "ab_env \<Rightarrow> rat option \<Rightarrow> nat \<Rightarrow> string" where
  "significance_badge env p n =
    (case p of
       None \<Rightarrow> ''no_data''
     | Some x \<Rightarrow> if n < ae_min_n env then ''no_data''
         else if x < ae_alpha env then ''significant''
         else if x < ae_trend env then ''trending''
         else ''no_data'')"

definition winner :: "string \<Rightarrow> rat \<Rightarrow> string option" where
  "winner badge diff =
    (if badge = ''no_data'' \<or> diff = 0 then None
     else Some (if 0 < diff then ''treatment'' else ''control''))"

text \<open>Assignments of a variant, and those of them with a conversion.\<close>

definition variant_stats :: "ab_db \<Rightarrow> uuid \<Rightarrow> nat \<times> nat" where
  "variant_stats d v =
    (let ids = map an_id (filter (\<lambda>a. an_variant a = v) (ab_assigns d)) in
     (length (remdups ids),
      length (remdups (map xv_assignment (filter (\<lambda>e. xv_type e = ''CONVERSION'' \<and> xv_assignment e \<in> set ids) (ab_events d))))))"

record variant_result =
  vr_id :: uuid
  vr_name :: string
  vr_n :: nat
  vr_successes :: nat
  vr_rate :: rat

record ab_results =
  xs_control :: variant_result
  xs_treatment :: variant_result
  xs_diff :: rat
  xs_z :: "rat option"
  xs_p :: "rat option"
  xs_ci :: "(rat \<times> rat) option"
  xs_badge :: string
  xs_winner :: "string option"

definition variant_result_of :: "ab_db \<Rightarrow> variant_row \<Rightarrow> variant_result" where
  "variant_result_of d v =
    (let (n, s) = variant_stats d (va_id v) in
     \<lparr>vr_id = va_id v, vr_name = va_name v, vr_n = n, vr_successes = s,
      vr_rate = py_round 6 (if n = 0 then 0 else fl (of_nat s / of_nat n))\<rparr>)"

definition results_of :: "ab_env \<Rightarrow> variant_result \<Rightarrow> variant_result \<Rightarrow> ab_results" where
  "results_of env c t =
    (let zr = two_proportion_z_test env (vr_successes c) (vr_n c) (vr_successes t) (vr_n t) (ae_alpha env);
         diff = (case zr of None \<Rightarrow> fl (vr_rate t - vr_rate c) | Some z \<Rightarrow> zr_diff z);
         badge = significance_badge env (map_option zr_p zr) (vr_n c + vr_n t) in
     \<lparr>xs_control = c, xs_treatment = t, xs_diff = py_round 6 diff, xs_z = map_option zr_z zr, xs_p = map_option zr_p zr,
      xs_ci = map_option (\<lambda>z. (py_round 6 (fst (zr_ci z)), py_round 6 (snd (zr_ci z)))) zr,
      xs_badge = badge, xs_winner = winner badge diff\<rparr>)"

definition experiment_results :: "ab_env \<Rightarrow> uuid \<Rightarrow> ab_db \<Rightarrow> ab_results answer \<times> ab_db" where
  "experiment_results env x d = ab_at env XLoad d (\<lambda>d1.
     case find_by xp_id x (ab_exps d1) of
       None \<Rightarrow> (Reject 404, d1)
     | Some e \<Rightarrow> ab_at env XVariants d1 (\<lambda>d2.
         case variants_of env x d2 of
           c # t # _ \<Rightarrow>
             if \<not> va_control c then (Reject 409, d2)
             else ab_at env XRead d2 (\<lambda>d3. (Reply (results_of env (variant_result_of d3 c) (variant_result_of d3 t)), d3))
         | _ \<Rightarrow> (Reject 409, d2)))"

section \<open>Status machine\<close>

lemma FSM_AB_known: "FSM_AB s act = Some t \<Longrightarrow> s \<in> {''DRAFT'', ''ACTIVE'', ''STOPPED''} \<and> t \<in> {''ACTIVE'', ''STOPPED''}"
  by (auto simp: FSM_AB_def split: if_splits)

interpretation ab: machine FSM_AB "\<lambda>s. s = ''STOPPED''" "\<lambda>s. s \<in> {''DRAFT'', ''ACTIVE'', ''STOPPED''}"
  by unfold_locales (auto simp: FSM_AB_def split: if_splits)

section \<open>What the tables promise\<close>

definition ab_ok :: "ab_db \<Rightarrow> bool" where
  "ab_ok d = (unique_on xp_id (ab_exps d) \<and> unique_on va_id (ab_variants d) \<and>
     unique_on (\<lambda>a. (an_user a, an_exp a)) (ab_assigns d) \<and> unique_on an_id (ab_assigns d) \<and>
     (\<forall>a \<in> set (ab_assigns d). \<exists>v \<in> set (ab_variants d). va_id v = an_variant a \<and> va_exp v = an_exp a))"

definition ab_grows :: "ab_db \<Rightarrow> ab_db \<Rightarrow> bool" where
  "ab_grows d d' = (set (ab_assigns d) \<subseteq> set (ab_assigns d') \<and> set (ab_variants d) \<subseteq> set (ab_variants d'))"

text \<open>Other transactions keep the constraints and take no row away; no endpoint does.\<close>

definition ab_honest :: "ab_env \<Rightarrow> bool" where
  "ab_honest env = (\<forall>st d. ab_ok d \<longrightarrow> ab_ok (ae_world env st d) \<and> ab_grows d (ae_world env st d))"

definition ab_keeps :: "ab_db \<Rightarrow> ab_db \<Rightarrow> bool" where
  "ab_keeps d d' = (ab_ok d \<longrightarrow> ab_ok d' \<and> ab_grows d d')"

lemma ab_keeps_refl [simp]: "ab_keeps d d"
  by (simp add: ab_keeps_def ab_grows_def)

lemma ab_keeps_trans: "ab_keeps d d1 \<Longrightarrow> ab_keeps d1 d2 \<Longrightarrow> ab_keeps d d2"
  by (auto simp: ab_keeps_def ab_grows_def)

lemma ab_keeps_world: "ab_honest env \<Longrightarrow> ab_keeps d (ae_world env st d)"
  by (simp add: ab_keeps_def ab_honest_def)

lemma ab_at_keeps:
  assumes "ab_honest env" "\<And>d1. ab_keeps d d1 \<Longrightarrow> ab_keeps d1 (snd (k d1))"
  shows "ab_keeps d (snd (ab_at env st d k))"
proof -
  note w = ab_keeps_world [OF assms(1), of d st]
  from w have "ab_keeps d (snd (k (ae_world env st d)))" using assms(2) ab_keeps_trans by blast
  with w show ?thesis by (simp add: ab_at_def Let_def split: option.split)
qed

lemma find_assignment_Some:
  assumes "ab_ok d"
  shows "find_assignment u x d = Some a \<longleftrightarrow> a \<in> set (ab_assigns d) \<and> an_user a = u \<and> an_exp a = x"
proof
  assume "find_assignment u x d = Some a"
  then show "a \<in> set (ab_assigns d) \<and> an_user a = u \<and> an_exp a = x"
    by (auto simp: find_assignment_def find_Some_iff)
next
  assume a: "a \<in> set (ab_assigns d) \<and> an_user a = u \<and> an_exp a = x"
  then obtain b where b: "find_assignment u x d = Some b"
    by (cases "find_assignment u x d") (auto simp: find_assignment_def find_None_iff)
  then have "b \<in> set (ab_assigns d) \<and> an_user b = u \<and> an_exp b = x"
    by (auto simp: find_assignment_def find_Some_iff)
  moreover have "inj_on (\<lambda>a. (an_user a, an_exp a)) (set (ab_assigns d))"
    using assms by (simp add: ab_ok_def distinct_map)
  ultimately have "b = a" using a by (auto dest: inj_onD)
  with b show "find_assignment u x d = Some a" by simp
qed

lemma find_assignment_None: "find_assignment u x d = None \<longleftrightarrow> (\<forall>a \<in> set (ab_assigns d). \<not> (an_user a = u \<and> an_exp a = x))"
  by (auto simp: find_assignment_def find_None_iff)

section \<open>Every call keeps it\<close>

lemma get_experiment_keeps: "ab_honest env \<Longrightarrow> ab_keeps d (snd (get_experiment env x d))"
  unfolding get_experiment_def by (intro ab_at_keeps) (auto split: option.split intro!: ab_at_keeps)

lemma list_experiments_keeps: "ab_honest env \<Longrightarrow> ab_keeps d (snd (list_experiments env n k d))"
  unfolding list_experiments_def Let_def by (auto intro!: ab_at_keeps)

lemma experiment_results_keeps: "ab_honest env \<Longrightarrow> ab_keeps d (snd (experiment_results env x d))"
  unfolding experiment_results_def by (intro ab_at_keeps) (auto split: option.split list.split intro!: ab_at_keeps)

lemma ab_keeps_create:
  fixes d d2 :: ab_db
  assumes "ab_exps d2 = ab_exps d @ [x]" "ab_variants d2 = ab_variants d @ rows" "ab_assigns d2 = ab_assigns d"
    and "xp_id x \<notin> xp_id ` set (ab_exps d)" "distinct (map va_id (ab_variants d @ rows))"
  shows "ab_keeps d d2"
  using assms by (auto simp: ab_keeps_def ab_ok_def ab_grows_def)

lemma create_experiment_keeps:
  assumes "ab_honest env"
  shows "ab_keeps d (snd (create_experiment env p d))"
proof (cases "validate_experiment p")
  case (Some vs)
  show ?thesis unfolding create_experiment_def Some Let_def option.case
    by (intro ab_at_keeps [OF assms]) (auto intro!: ab_keeps_create split: option.split)
qed (simp add: create_experiment_def)

lemma ab_keeps_status:
  "ab_keeps d (d\<lparr>ab_exps := update_where p (\<lambda>y. y\<lparr>xp_status := new\<rparr>) (ab_exps d)\<rparr>)"
  using update_where_keys [of p xp_id "\<lambda>y. y\<lparr>xp_status := new\<rparr>" "ab_exps d"]
  by (simp add: ab_keeps_def ab_ok_def ab_grows_def)

lemma patch_keeps:
  assumes "ab_honest env"
  shows "ab_keeps d (snd (patch_experiment_status env x act d))"
proof -
  have "ab_keeps d1 (snd (ab_at env XWrite d1 (\<lambda>d2.
     let d3 = d2\<lparr>ab_exps := update_where (\<lambda>y. xp_id y = x) (\<lambda>y. y\<lparr>xp_status := new\<rparr>) (ab_exps d2)\<rparr> in
     case ae_fault env XCommit of
       Some er \<Rightarrow> (Crash er, if ae_applied env then d3 else d2)
     | None \<Rightarrow> ab_at env XVariants d3 (\<lambda>d4. (Reply (r d4), d4)))))" for d1 new and r :: "ab_db \<Rightarrow> exp_response"
  proof (rule ab_at_keeps [OF assms])
    fix d2 :: ab_db
    define d3 where "d3 = d2\<lparr>ab_exps := update_where (\<lambda>y. xp_id y = x) (\<lambda>y. y\<lparr>xp_status := new\<rparr>) (ab_exps d2)\<rparr>"
    have k: "ab_keeps d2 d3" unfolding d3_def by (rule ab_keeps_status)
    have "ab_keeps d3 (snd (ab_at env XVariants d3 (\<lambda>d4. (Reply (r d4), d4))))" by (rule ab_at_keeps [OF assms]) simp
    with k ab_keeps_trans [OF k]
    show "ab_keeps d2 (snd (let d3 = d2\<lparr>ab_exps := update_where (\<lambda>y. xp_id y = x) (\<lambda>y. y\<lparr>xp_status := new\<rparr>) (ab_exps d2)\<rparr> in
       case ae_fault env XCommit of
         Some er \<Rightarrow> (Crash er, if ae_applied env then d3 else d2)
       | None \<Rightarrow> ab_at env XVariants d3 (\<lambda>d4. (Reply (r d4), d4))))"
      by (simp add: d3_def [symmetric] split: option.split)
  qed
  then show ?thesis
    unfolding patch_experiment_status_def by (auto intro!: ab_at_keeps [OF assms] split: option.split)
qed

lemma ab_keeps_own:
  assumes "find_assignment (an_user a) (an_exp a) d = None" "an_id a \<notin> an_id ` set (ab_assigns d)"
    and "\<exists>v \<in> set (ab_variants d). va_id v = an_variant a \<and> va_exp v = an_exp a"
  shows "ab_keeps d (add_own (Some a) d)"
  using assms by (auto simp: ab_keeps_def ab_ok_def ab_grows_def add_own_def find_assignment_None)

lemma ab_keeps_withdraw:
  assumes "ab_keeps (add_own (Some a) d) d2" "ab_keeps d (add_own (Some a) d)" "an_id a \<notin> an_id ` set (ab_assigns d)"
  shows "ab_keeps d (withdraw (Some a) d2)"
proof -
  have "ab_ok (withdraw (Some a) d2)" if "ab_ok d2"
    using that by (auto simp: ab_ok_def withdraw_def distinct_map_filter)
  moreover have "b \<in> set (ab_assigns d) \<Longrightarrow> an_id b \<noteq> an_id a" for b using assms(3) by (metis image_eqI)
  ultimately show ?thesis using assms(1,2) by (auto simp: ab_keeps_def ab_grows_def add_own_def withdraw_def)
qed

lemma settle_assignment_keeps:
  assumes "ab_honest env" "an_user a = u" "an_exp a = x" "ab_ok d"
    and "\<exists>v \<in> set (ab_variants d). va_id v = an_variant a \<and> va_exp v = x"
  shows "ab_keeps d (snd (settle_assignment env x u a d))"
proof -
  define d1 where "d1 = ae_world env XWrite d"
  have w: "ab_keeps d d1" unfolding d1_def by (rule ab_keeps_world [OF assms(1)])
  then have v: "\<exists>v \<in> set (ab_variants d1). va_id v = an_variant a \<and> va_exp v = an_exp a"
    using assms(3-5) by (auto simp: ab_keeps_def ab_grows_def)
  define own where "own = (if find_assignment u x d1 = None then Some a else None)"
  define d2 where "d2 = ae_world env XRead (add_own own d1)"
  have own: "ab_keeps d1 d2 \<and> ab_keeps d1 (withdraw own d2)"
    if ok: "\<not> (find_assignment u x d1 = None \<and> an_id a \<in> an_id ` set (ab_assigns d1))"
  proof (cases "find_assignment u x d1 = None")
    case True
    have k: "ab_keeps d1 (add_own (Some a) d1)"
      by (rule ab_keeps_own [OF _ _ v]) (use True ok assms(2,3) in auto)
    have k2: "ab_keeps (add_own (Some a) d1) (ae_world env XRead (add_own (Some a) d1))" by (rule ab_keeps_world [OF assms(1)])
    have "ab_keeps d1 (withdraw (Some a) (ae_world env XRead (add_own (Some a) d1)))"
      by (rule ab_keeps_withdraw [OF k2 k]) (use True ok in auto)
    with ab_keeps_trans [OF k k2] True show ?thesis by (simp add: own_def d2_def)
  next
    case False
    then show ?thesis using ab_keeps_world [OF assms(1), of d1 XRead] by (auto simp: own_def d2_def add_own_def withdraw_def)
  qed
  have "ab_keeps d1 (snd (settle_assignment env x u a d))"
  proof (cases "find_assignment u x d1 = None \<and> an_id a \<in> an_id ` set (ab_assigns d1)")
    case True
    then show ?thesis by (simp add: settle_assignment_def ab_at_def d1_def [symmetric] split: option.split)
  next
    case False
    have "snd (read_assignment env x u own d1) \<in> {d2, withdraw own d2}"
      by (simp add: read_assignment_def d2_def [symmetric] split: option.split)
    then have "ab_keeps d1 (snd (read_assignment env x u own d1))" using own [OF False] by auto
    with False show ?thesis
      by (auto simp: settle_assignment_def ab_at_def d1_def [symmetric] own_def Let_def split: option.split if_split_asm)
  qed
  with w show ?thesis by (rule ab_keeps_trans)
qed

lemma pick_variant_in: "vs \<noteq> [] \<Longrightarrow> pick_variant bucket vs \<in> set vs"
proof -
  assume vs: "vs \<noteq> []"
  have "pick_from bucket cum ws = Some v \<Longrightarrow> v \<in> set ws" for cum ws v
    by (induction bucket cum ws rule: pick_from.induct) (auto split: if_splits)
  with vs show ?thesis by (auto simp: pick_variant_def split: option.split)
qed

lemma assign_user_cases:
  obtains (early) "\<not> (\<exists>r. fst (assign_user env x u d) = Reply r)"
      "snd (assign_user env x u d) \<in> {ae_world env XLoad d, ae_world env XVariants (ae_world env XLoad d)}"
  | (settled) a where "an_user a = u" "an_exp a = x"
      "\<exists>v \<in> set (ab_variants (ae_world env XVariants (ae_world env XLoad d))). va_id v = an_variant a \<and> va_exp v = x"
      "assign_user env x u d = settle_assignment env x u a (ae_world env XVariants (ae_world env XLoad d))"
proof -
  define d1 where "d1 = ae_world env XLoad d"
  define d2 where "d2 = ae_world env XVariants d1"
  define vs where "vs = sort_key (\<lambda>v. ae_collate env (va_name v)) (filter (\<lambda>v. va_exp v = x) (ab_variants d2))"
  define a where "a = \<lparr>an_id = ae_fresh env 0, an_user = u, an_exp = x,
     an_variant = va_id (pick_variant (deterministic_bucket env (uuid_text u) (uuid_text x)) vs), an_at = ae_clock env\<rparr>"
  note defs = assign_user_def ab_at_def d1_def [symmetric] d2_def [symmetric] vs_def [symmetric] a_def [symmetric] Let_def
  show ?thesis
  proof (cases "ae_fault env XLoad = None \<and> (\<exists>e. find_by xp_id x (ab_exps d1) = Some e \<and> xp_status e = ''ACTIVE'') \<and>
      ae_fault env XVariants = None \<and> vs \<noteq> []")
    case True
    then have "assign_user env x u d = settle_assignment env x u a d2" by (auto simp: defs)
    moreover have "\<exists>v \<in> set (ab_variants d2). va_id v = an_variant a \<and> va_exp v = x"
      using pick_variant_in [of vs] True by (auto simp: a_def vs_def)
    ultimately show ?thesis by (intro settled [of a]) (auto simp: a_def d2_def d1_def)
  next
    case False
    then have "\<not> (\<exists>r. fst (assign_user env x u d) = Reply r) \<and> snd (assign_user env x u d) \<in> {d1, d2}"
      by (auto simp: defs split: option.split)
    then show ?thesis by (intro early) (auto simp: d1_def d2_def)
  qed
qed

lemma assign_user_keeps:
  assumes "ab_honest env"
  shows "ab_keeps d (snd (assign_user env x u d))"
proof -
  note w1 = ab_keeps_world [OF assms, of d XLoad]
  note w2 = ab_keeps_trans [OF w1 ab_keeps_world [OF assms, of _ XVariants]]
  show ?thesis
  proof (rule assign_user_cases [of env x u d])
    assume "snd (assign_user env x u d) \<in> {ae_world env XLoad d, ae_world env XVariants (ae_world env XLoad d)}"
    then show ?thesis using w1 w2 by auto
  next
    fix a assume a: "an_user a = u" "an_exp a = x"
      "\<exists>v \<in> set (ab_variants (ae_world env XVariants (ae_world env XLoad d))). va_id v = an_variant a \<and> va_exp v = x"
      "assign_user env x u d = settle_assignment env x u a (ae_world env XVariants (ae_world env XLoad d))"
    show ?thesis
    proof (cases "ab_ok d")
      case True
      then have "ab_ok (ae_world env XVariants (ae_world env XLoad d))" using w2 by (simp add: ab_keeps_def)
      from ab_keeps_trans [OF w2 settle_assignment_keeps [OF assms a(1,2) this a(3)]] a(4) show ?thesis by simp
    qed (simp add: ab_keeps_def)
  qed
qed

text \<open>An answer shows what the table holds.\<close>

lemma assign_user_shows:
  assumes "assign_user env x u d = (Reply r, d')"
  shows "shown_assignment u x d' = Some r"
proof (rule assign_user_cases [of env x u d])
  fix a assume "assign_user env x u d = settle_assignment env x u a (ae_world env XVariants (ae_world env XLoad d))"
  with assms show ?thesis
    by (auto simp: settle_assignment_def ab_at_def read_assignment_def Let_def split: option.splits if_splits)
qed (use assms in auto)

lemma shown_stays:
  assumes "ab_ok d" "ab_keeps d d'" "shown_assignment u x d = Some r"
  shows "shown_assignment u x d' = Some r"
proof -
  obtain a v where a: "find_assignment u x d = Some a" and v: "find_by va_id (an_variant a) (ab_variants d) = Some v"
      and r: "r = \<lparr>ar_user = u, ar_exp = x, ar_variant = an_variant a, ar_name = va_name v, ar_at = an_at a\<rparr>"
    using assms(3) by (auto simp: shown_assignment_def split: option.splits)
  have d': "ab_ok d'" "ab_grows d d'" using assms(1,2) by (simp_all add: ab_keeps_def)
  have "find_assignment u x d' = Some a"
    using a d' by (auto simp: find_assignment_Some [OF assms(1)] find_assignment_Some [OF d'(1)] ab_grows_def)
  moreover have "find_by va_id (an_variant a) (ab_variants d') = Some v"
    using find_by_SomeD [OF v] d' find_by_unique [of va_id "ab_variants d'" v] by (auto simp: ab_ok_def ab_grows_def)
  ultimately show ?thesis by (simp add: shown_assignment_def r)
qed

section \<open>Histories\<close>

datatype ab_call =
    XCreate exp_create
  | XStatus uuid string
  | XAssign uuid uuid
  | XGet uuid
  | XResults uuid

fun ab_step :: "ab_env \<Rightarrow> ab_call \<Rightarrow> ab_db \<Rightarrow> ab_db" where
  "ab_step env (XCreate p) d = snd (create_experiment env p d)"
| "ab_step env (XStatus x act) d = snd (patch_experiment_status env x act d)"
| "ab_step env (XAssign x u) d = snd (assign_user env x u d)"
| "ab_step env (XGet x) d = snd (get_experiment env x d)"
| "ab_step env (XResults x) d = snd (experiment_results env x d)"

definition ab_run :: "(ab_env \<times> ab_call) list \<Rightarrow> ab_db \<Rightarrow> ab_db" where
  "ab_run calls d = foldl (\<lambda>d1 (env, c). ab_step env c d1) d calls"

lemma ab_step_keeps: "ab_honest env \<Longrightarrow> ab_keeps d (ab_step env c d)"
  by (cases c) (simp_all add: create_experiment_keeps patch_keeps assign_user_keeps get_experiment_keeps experiment_results_keeps)

lemma ab_run_keeps: "list_all (ab_honest \<circ> fst) calls \<Longrightarrow> ab_keeps d (ab_run calls d)"
proof (induction calls arbitrary: d)
  case (Cons a calls)
  then show ?case
    using ab_keeps_trans [OF ab_step_keeps [of "fst a" d "snd a"] Cons.IH] by (simp add: ab_run_def case_prod_beta)
qed (simp add: ab_run_def)

text \<open>C33: An assignment is for good. Whatever the clients and other transactions do in between (start,
  stop, create, assign, any failure), a user who was told a variant is told the same variant and the same
  moment again, and the table holds one assignment of the user in the experiment, to a variant of that
  experiment.\<close>

theorem assignment_is_sticky:
  assumes "ab_ok d" "ab_honest env" "assign_user env x u d = (Reply r, d1)"
    and "list_all (ab_honest \<circ> fst) calls" "ab_honest env'"
    and "assign_user env' x u (ab_run calls d1) = (Reply r', d2)"
  shows "r' = r \<and> (\<exists>a v. filter (\<lambda>b. an_user b = u \<and> an_exp b = x) (ab_assigns d2) = [a] \<and>
    an_variant a = ar_variant r \<and> v \<in> set (ab_variants d2) \<and> va_id v = ar_variant r \<and> va_exp v = x)"
proof -
  have ok1: "ab_ok d1" using assign_user_keeps [OF assms(2), of d x u] assms(1,3) by (simp add: ab_keeps_def)
  have k: "ab_keeps d1 d2"
    using ab_keeps_trans [OF ab_run_keeps [OF assms(4)] assign_user_keeps [OF assms(5)], of d1 x u] assms(6) by simp
  then have ok2: "ab_ok d2" using ok1 by (simp add: ab_keeps_def)
  have "shown_assignment u x d2 = Some r" by (rule shown_stays [OF ok1 k assign_user_shows [OF assms(3)]])
  moreover have "shown_assignment u x d2 = Some r'" by (rule assign_user_shows [OF assms(6)])
  ultimately have r: "r' = r" "shown_assignment u x d2 = Some r" by simp_all
  then obtain a where a: "find_assignment u x d2 = Some a" "an_variant a = ar_variant r"
    by (auto simp: shown_assignment_def split: option.splits)
  have in2: "a \<in> set (ab_assigns d2)" "an_user a = u" "an_exp a = x" using a find_assignment_Some [OF ok2] by auto
  have "filter (\<lambda>b. (an_user b, an_exp b) = (u, x)) (ab_assigns d2) = [a]"
  proof -
    have uq: "unique_on (\<lambda>a. (an_user a, an_exp a)) (ab_assigns d2)" using ok2 by (simp add: ab_ok_def)
    show ?thesis using filter_key_unique [OF uq, of "(u, x)"] find_by_unique [OF uq in2(1)] in2(2,3) by simp
  qed
  moreover obtain v where "v \<in> set (ab_variants d2)" "va_id v = an_variant a" "va_exp v = x"
    using ok2 in2 by (auto simp: ab_ok_def)
  ultimately show ?thesis using r(1) a(2) by auto
qed

section \<open>Stale status changes\<close>

text \<open>A change of status is not a compare-and-set. If the experiment was changed between the read and
  the update, the update goes through although the state machine refuses it for the state it overwrites:
  a \<^verbatim>\<open>start\<close> that read \<^verbatim>\<open>DRAFT\<close> brings an experiment that was meanwhile stopped back to \<^verbatim>\<open>ACTIVE\<close>.\<close>

theorem stale_start_revives:
  assumes "find_by xp_id x (ab_exps (ae_world env XLoad d)) = Some e" "xp_status e = ''DRAFT''"
    and "find_by xp_id x (ab_exps (ae_world env XWrite (ae_world env XLoad d))) = Some e2" "xp_status e2 = ''STOPPED''"
    and "\<And>st. ae_fault env st = None" "ae_world env XVariants = id"
  shows "FSM_AB (xp_status e2) ''start'' = None \<and>
    (\<exists>r d' e3. patch_experiment_status env x ''start'' d = (Reply r, d') \<and>
      find_by xp_id x (ab_exps d') = Some e3 \<and> xp_status e3 = ''ACTIVE'')"
proof -
  have "find_by xp_id x (update_where (\<lambda>y. xp_id y = x) (\<lambda>y. y\<lparr>xp_status := new\<rparr>) es) =
      map_option (\<lambda>y. y\<lparr>xp_status := new\<rparr>) (find_by xp_id x es)" for new and es :: "exp_row list"
    by (induction es) auto
  then show ?thesis using assms by (simp add: patch_experiment_status_def ab_at_def FSM_AB_def Let_def)
qed

section \<open>The verdict\<close>

lemma variant_successes: "variant_stats d v = (n, s) \<Longrightarrow> s \<le> n"
proof -
  assume a: "variant_stats d v = (n, s)"
  define ids where "ids = map an_id (filter (\<lambda>a. an_variant a = v) (ab_assigns d))"
  define ev where "ev = map xv_assignment (filter (\<lambda>e. xv_type e = ''CONVERSION'' \<and> xv_assignment e \<in> set ids) (ab_events d))"
  have "card (set ev) \<le> card (set ids)" by (intro card_mono) (auto simp: ev_def)
  then have "length (remdups ev) \<le> length (remdups ids)" by (simp only: length_remdups_card_conv)
  then show ?thesis using a by (simp add: variant_stats_def Let_def ids_def [symmetric] ev_def [symmetric])
qed

lemma z_test_diff:
  assumes "two_proportion_z_test env sa na sb nb alpha = Some zr"
  shows "0 < na \<and> 0 < nb \<and> zr_diff zr = fl (fl (of_nat sb / of_nat nb) - fl (of_nat sa / of_nat na))"
  using assms by (auto simp: two_proportion_z_test_def Let_def split: if_splits)

lemma diff_sign:
  assumes "0 < fl (fl x - fl y)" "0 \<le> x" "0 \<le> y"
  shows "y < x"
proof (rule ccontr)
  assume "\<not> y < x"
  then have "fl x - fl y \<le> 0" using fl_mono [of x y] assms(2) by simp
  then show False using fl_nonpos assms(1) by (meson not_less)
qed

text \<open>The verdict of an experiment is sound. The successes of a variant never exceed its size,
  duplicated conversions included, and when a winner is named there were enough observations, the p-value
  is below the bound of the badge, and the winner's observed rate, in exact arithmetic, is the higher one.\<close>

theorem experiment_verdict_sound:
  assumes "experiment_results env x d = (Reply r, d')"
  shows "vr_successes (xs_control r) \<le> vr_n (xs_control r) \<and> vr_successes (xs_treatment r) \<le> vr_n (xs_treatment r) \<and>
    (\<forall>w. xs_winner r = Some w \<longrightarrow>
      ae_min_n env \<le> vr_n (xs_control r) + vr_n (xs_treatment r) \<and>
      (\<exists>p. xs_p r = Some p \<and> (if xs_badge r = ''significant'' then p < ae_alpha env
        else xs_badge r = ''trending'' \<and> p < ae_trend env)) \<and>
      (let c = of_nat (vr_successes (xs_control r)) / of_nat (vr_n (xs_control r)) :: rat;
           t = of_nat (vr_successes (xs_treatment r)) / of_nat (vr_n (xs_treatment r)) in
       if w = ''treatment'' then c < t else w = ''control'' \<and> t < c))"
proof -
  obtain d2 c t where r: "r = results_of env (variant_result_of d2 c) (variant_result_of d2 t)"
    using assms by (auto simp: experiment_results_def ab_at_def Let_def split: option.splits list.splits if_splits)
  define rc rt where rct: "rc = variant_result_of d2 c" "rt = variant_result_of d2 t"
  have succ: "vr_successes rc \<le> vr_n rc" "vr_successes rt \<le> vr_n rt"
    by (auto simp: rct variant_result_of_def split: prod.split dest: variant_successes)
  have "ae_min_n env \<le> vr_n rc + vr_n rt \<and>
      (\<exists>p. xs_p r = Some p \<and> (if xs_badge r = ''significant'' then p < ae_alpha env
        else xs_badge r = ''trending'' \<and> p < ae_trend env)) \<and>
      (let c = of_nat (vr_successes rc) / of_nat (vr_n rc) :: rat; t = of_nat (vr_successes rt) / of_nat (vr_n rt) in
       if w = ''treatment'' then c < t else w = ''control'' \<and> t < c)" if w: "xs_winner r = Some w" for w
  proof (cases "two_proportion_z_test env (vr_successes rc) (vr_n rc) (vr_successes rt) (vr_n rt) (ae_alpha env)")
    case None
    then show ?thesis using w by (simp add: r rct [symmetric] results_of_def winner_def significance_badge_def)
  next
    case (Some zr)
    note diff = z_test_diff [OF Some]
    let ?c = "of_nat (vr_successes rc) / of_nat (vr_n rc) :: rat" and ?t = "of_nat (vr_successes rt) / of_nat (vr_n rt) :: rat"
    have neg: "fl (fl ?c - fl ?t) = - fl (fl ?t - fl ?c)" using fl_minus [of "fl ?t - fl ?c"] by simp
    have "0 < zr_diff zr \<Longrightarrow> ?c < ?t" "zr_diff zr < 0 \<Longrightarrow> ?t < ?c"
      using diff diff_sign [of ?t ?c] diff_sign [of ?c ?t] neg by simp_all
    then show ?thesis using w
      by (auto simp: r rct [symmetric] results_of_def Some winner_def significance_badge_def Let_def split: if_splits)
  qed
  moreover have "xs_control r = rc" "xs_treatment r = rt" by (simp_all add: r rct results_of_def Let_def)
  ultimately show ?thesis using succ by simp
qed

section \<open>Instances\<close>

definition sample_exp :: exp_row where
  "sample_exp = \<lparr>xp_id = 4, xp_name = ''e'', xp_status = ''ACTIVE'', xp_metric = ''ctr'', xp_start = 0, xp_end = None\<rparr>"

definition sample_variant :: "uuid \<Rightarrow> string \<Rightarrow> bool \<Rightarrow> variant_row" where
  "sample_variant i nm ctl = \<lparr>va_id = i, va_exp = 4, va_name = nm, va_weight = 1 / 2, va_class = ''s'', va_params = None, va_control = ctl\<rparr>"

definition sample_ab :: ab_db where
  "sample_ab = \<lparr>ab_exps = [sample_exp], ab_variants = [sample_variant 5 ''a'' True, sample_variant 6 ''b'' False],
     ab_assigns = [], ab_events = []\<rparr>"

definition sample_ab_env :: ab_env where
  "sample_ab_env = \<lparr>ae_fault = (\<lambda>_. None), ae_world = (\<lambda>_ d. d), ae_applied = False, ae_clock = 7, ae_local = (\<lambda>t. t),
     ae_fresh = (\<lambda>n. 10 + n), ae_md5 = (\<lambda>_. 0), ae_collate = length, ae_sqrt = (\<lambda>x. 1), ae_sf = (\<lambda>_. 0), ae_ppf = (\<lambda>_. 2),
     ae_alpha = 1 / 20, ae_trend = 1 / 5, ae_min_n = 2\<rparr>"

definition sample_tested :: ab_db where
  "sample_tested = sample_ab\<lparr>ab_assigns :=
     [\<lparr>an_id = 7, an_user = 2, an_exp = 4, an_variant = 5, an_at = 0\<rparr>, \<lparr>an_id = 8, an_user = 3, an_exp = 4, an_variant = 6, an_at = 0\<rparr>],
     ab_events := [\<lparr>xv_id = 20, xv_assignment = 8, xv_type = ''CONVERSION''\<rparr>, \<lparr>xv_id = 21, xv_assignment = 8, xv_type = ''CONVERSION''\<rparr>]\<rparr>"

lemmas sample_ab_defs = sample_exp_def sample_variant_def sample_ab_def sample_ab_env_def sample_tested_def

lemma sample_ab_honest: "ab_honest sample_ab_env"
  by (simp add: ab_honest_def sample_ab_env_def ab_grows_def)

lemma sample_assigned: "assign_user sample_ab_env 4 2 sample_ab =
  (Reply \<lparr>ar_user = 2, ar_exp = 4, ar_variant = 5, ar_name = ''a'', ar_at = 7\<rparr>,
   sample_ab\<lparr>ab_assigns := [\<lparr>an_id = 10, an_user = 2, an_exp = 4, an_variant = 5, an_at = 7\<rparr>]\<rparr>)"
proof -
  have "fl (1 / 2) = 1 / 2" by (rule fl_exact [of _ 1 "-1"]) (simp_all add: pow2_def)
  then show ?thesis
    by (simp add: sample_ab_defs assign_user_def ab_at_def Let_def pick_variant_def deterministic_bucket_def settle_assignment_def
        find_assignment_def read_assignment_def shown_assignment_def add_own_def)
qed

theorem assignment_is_sticky_witness:
  "filter (\<lambda>b. an_user b = 2 \<and> an_exp b = 4) (ab_assigns (snd (assign_user sample_ab_env 4 2
     (ab_run [(sample_ab_env, XStatus 5 ''stop'')] (snd (assign_user sample_ab_env 4 2 sample_ab)))))) \<noteq> [] \<and>
   fst (assign_user sample_ab_env 4 2 sample_ab) = Reply \<lparr>ar_user = 2, ar_exp = 4, ar_variant = 5, ar_name = ''a'', ar_at = 7\<rparr>"
proof -
  define d1 where "d1 = sample_ab\<lparr>ab_assigns := [\<lparr>an_id = 10, an_user = 2, an_exp = 4, an_variant = 5, an_at = 7\<rparr>]\<rparr>"
  have ok: "ab_ok sample_ab" by (simp add: ab_ok_def sample_ab_def sample_exp_def sample_variant_def)
  have run: "ab_run [(sample_ab_env, XStatus 5 ''stop'')] d1 = d1"
    by (simp add: ab_run_def patch_experiment_status_def ab_at_def d1_def sample_ab_defs)
  have again: "\<exists>r'. fst (assign_user sample_ab_env 4 2 d1) = Reply r'"
    by (simp add: d1_def sample_ab_defs assign_user_def ab_at_def Let_def settle_assignment_def
        find_assignment_def read_assignment_def shown_assignment_def add_own_def)
  then obtain r' d2 where d2: "assign_user sample_ab_env 4 2 d1 = (Reply r', d2)" by (metis prod.collapse)
  have "list_all (ab_honest \<circ> fst) [(sample_ab_env, XStatus 5 ''stop'')]" by (simp add: sample_ab_honest)
  from assignment_is_sticky [OF ok sample_ab_honest sample_assigned this sample_ab_honest, unfolded d1_def [symmetric] run, OF d2]
  obtain a where "filter (\<lambda>b. an_user b = 2 \<and> an_exp b = 4) (ab_assigns d2) = [a]" by auto
  then show ?thesis using run d2 by (simp add: sample_assigned d1_def [symmetric])
qed

theorem experiment_verdict_sound_witness:
  "\<exists>r. fst (experiment_results sample_ab_env 4 sample_tested) = Reply r \<and>
    xs_winner r = Some ''treatment'' \<and> vr_successes (xs_treatment r) \<le> vr_n (xs_treatment r) \<and> vr_n (xs_treatment r) = 1"
proof -
  have half: "fl (1 / 2) = 1 / 2" "fl (1 / 4) = 1 / 4" "fl 2 = 2"
    using fl_exact [of "1 / 2" 1 "-1"] fl_exact [of "1 / 4" 1 "-2"] fl_exact [of 2 1 1] by (simp_all add: pow2_def)
  define c where "c = variant_result_of sample_tested (sample_variant 5 ''a'' True)"
  define t where "t = variant_result_of sample_tested (sample_variant 6 ''b'' False)"
  have ct: "vr_n c = 1" "vr_successes c = 0" "vr_n t = 1" "vr_successes t = 1"
    by (simp_all add: c_def t_def variant_result_of_def variant_stats_def sample_ab_defs Let_def)
  have "two_proportion_z_test sample_ab_env 0 1 1 1 (1 / 20) =
      Some \<lparr>zr_z = 1, zr_p = 0, zr_diff = 1, zr_ci = (fl (1 - fl 2), fl (1 + fl 2))\<rparr>"
    by (simp add: half two_proportion_z_test_def Let_def sample_ab_env_def)
  then have win: "xs_winner (results_of sample_ab_env c t) = Some ''treatment''"
    by (simp add: results_of_def ct winner_def significance_badge_def Let_def) (simp add: sample_ab_env_def)
  have "experiment_results sample_ab_env 4 sample_tested = (Reply (results_of sample_ab_env c t), sample_tested)"
  proof -
    have "variants_of sample_ab_env 4 sample_tested = [sample_variant 5 ''a'' True, sample_variant 6 ''b'' False]"
      by (simp add: variants_of_def control_first_def Let_def sample_ab_defs)
    moreover have "find_by xp_id 4 (ab_exps sample_tested) = Some sample_exp" "va_control (sample_variant 5 ''a'' True)"
        "ae_world sample_ab_env st d = d" "ae_fault sample_ab_env st = None" for st d
      by (simp_all add: sample_ab_defs)
    ultimately show ?thesis by (simp add: c_def t_def experiment_results_def ab_at_def)
  qed
  moreover have "xs_treatment (results_of sample_ab_env c t) = t" by (simp add: results_of_def Let_def)
  ultimately obtain r where r: "experiment_results sample_ab_env 4 sample_tested = (Reply r, sample_tested)"
      "xs_winner r = Some ''treatment''" "vr_n (xs_treatment r) = 1"
    using win ct(3) by simp
  with experiment_verdict_sound [OF r(1)] show ?thesis by auto
qed

definition sample_race_env :: ab_env where
  "sample_race_env = sample_ab_env\<lparr>ae_world := (\<lambda>st d. if st = XWrite
     then d\<lparr>ab_exps := map (\<lambda>e. e\<lparr>xp_status := ''STOPPED''\<rparr>) (ab_exps d)\<rparr> else d)\<rparr>"

theorem stale_start_revives_witness:
  "\<exists>r d' e3. patch_experiment_status sample_race_env 4 ''start'' (sample_ab\<lparr>ab_exps := [sample_exp\<lparr>xp_status := ''DRAFT''\<rparr>]\<rparr>) = (Reply r, d') \<and>
    find_by xp_id 4 (ab_exps d') = Some e3 \<and> xp_status e3 = ''ACTIVE''"
  using stale_start_revives [of 4 sample_race_env "sample_ab\<lparr>ab_exps := [sample_exp\<lparr>xp_status := ''DRAFT''\<rparr>]\<rparr>"
      "sample_exp\<lparr>xp_status := ''DRAFT''\<rparr>" "sample_exp\<lparr>xp_status := ''STOPPED''\<rparr>"]
  by (simp add: sample_race_env_def sample_ab_env_def sample_ab_def sample_exp_def id_def)

end
