(* ===== verification/Migrations.thy ===== *)
theory Migrations
  imports Cashback Auth Experiments "HOL-Library.Product_Lexorder"
begin

text \<open>
  What the migrations do to the rows that are already there
  (\<^verbatim>\<open>db_migrations/migrations/versions\<close>): 008 replaces public passwords, 009 links old accruals to the
  offers they paid, 010 marks the control of old experiments, removes double conversions and dates the
  payments; and \<^verbatim>\<open>calculate_cashback\<close> as it was before 009, which the downgrade restores. A migration
  holds exclusive locks, so each is a function of the tables.
\<close>

section \<open>\<open>DISTINCT ON\<close>\<close>

text \<open>The first row of each group, of rows already in the order of \<^verbatim>\<open>ORDER BY\<close>.\<close>

function distinct_on :: "('a \<Rightarrow> 'k) \<Rightarrow> 'a list \<Rightarrow> 'a list" where
  "distinct_on f [] = []"
| "distinct_on f (x # xs) = x # distinct_on f (filter (\<lambda>y. f y \<noteq> f x) xs)"
  by pat_completeness auto
termination
  by (relation "measure (\<lambda>(f, xs). length xs)") (auto simp: le_imp_less_Suc)

section \<open>009: accruals and the offers they paid\<close>

definition offer_of_accrual :: "accrual_row \<Rightarrow> rec_row \<Rightarrow> bool" where
  "offer_of_accrual a r = (re_user r = ac_user a \<and> re_campaign r = ac_campaign a \<and> bpchar_eq (re_mcc r) (ac_mcc a) \<and>
     re_status r = ACCEPTED \<and> (case re_responded r of None \<Rightarrow> False | Some t \<Rightarrow> t \<le> ac_at a))"

definition last_accepted :: "db \<Rightarrow> accrual_row \<Rightarrow> rec_row option" where
  "last_accepted d a =
    (case sort_key (\<lambda>r. (- the (re_responded r), - int (re_id r))) (filter (offer_of_accrual a) (recs d)) of
       [] \<Rightarrow> None | r # _ \<Rightarrow> Some r)"

text \<open>Both \<^verbatim>\<open>DISTINCT ON\<close> queries take the earliest accrual of a group; the order of the groups does not
  matter to what follows.\<close>

definition earliest :: "(accrual_row \<times> rec_row) list \<Rightarrow> (accrual_row \<times> rec_row) list" where
  "earliest ps = sort_key (\<lambda>p. (ac_at (fst p), ac_id (fst p))) ps"

definition linked :: "db \<Rightarrow> (accrual_row \<times> rec_row) list" where
  "linked d = distinct_on (ac_tx \<circ> fst)
     (earliest (List.map_filter (\<lambda>a. map_option (Pair a) (last_accepted d a)) (accruals d)))"

definition first_per_offer :: "db \<Rightarrow> (accrual_row \<times> rec_row) list" where
  "first_per_offer d = distinct_on (re_id \<circ> snd) (earliest (linked d))"

definition backfill_recommendation :: "db \<Rightarrow> db" where
  "backfill_recommendation d = d\<lparr>accruals := map (\<lambda>a.
     case find (\<lambda>p. ac_id (fst p) = ac_id a) (first_per_offer d) of
       None \<Rightarrow> a | Some p \<Rightarrow> a\<lparr>ac_rec := Some (re_id (snd p))\<rparr>) (accruals d)\<rparr>"

section \<open>\<open>calculate_cashback\<close> before 009\<close>

definition calculate_cashback_v1 ::
  "(string \<Rightarrow> rat option) \<Rightarrow> db \<Rightarrow> uuid \<Rightarrow> money \<Rightarrow> sqlstate + money option" where
  "calculate_cashback_v1 num_in d cid amt =
    (case find_by ca_id cid (campaigns d) of
       None \<Rightarrow> Inl ''P0001''
     | Some c \<Rightarrow>
        if (case ca_min c of None \<Rightarrow> False | Some m \<Rightarrow> amt < m) then Inr (Some 0)
        else if scale_tiers c = [] then Inr (Some (pg_round 2 (amt * ca_rate c / 100)))
        else (case tier_rows num_in (scale_tiers c) of
                Inl e \<Rightarrow> Inl e
              | Inr ts \<Rightarrow> Inr (tiers_cashback amt ts)))"

section \<open>010: controls, conversions, payments\<close>

text \<open>The place of a variant in the body of the request that created the experiment (\<open>variants\<close> is the
  column \<^verbatim>\<open>ab_experiments.variants\<close>); \<open>NULLS LAST\<close>.\<close>

definition payload_place :: "json \<Rightarrow> string \<Rightarrow> nat option" where
  "payload_place variants nm =
    (case variants of
       JArr vs \<Rightarrow> map_option fst (find (\<lambda>(i, v). (case v of JObj kvs \<Rightarrow> jget kvs ''name'' | _ \<Rightarrow> JNull) = JStr nm)
          (zip [1..<Suc (length vs)] vs))
     | _ \<Rightarrow> None)"

definition control_order :: "(uuid \<Rightarrow> json) \<Rightarrow> variant_row \<Rightarrow> nat \<times> nat \<times> nat \<times> uuid" where
  "control_order variants v =
    (let c = (if map lower_char (va_name v) = ''control'' then 0 else 1) in
     case payload_place (variants (va_exp v)) (va_name v) of
       None \<Rightarrow> (1, 0, c, va_id v) | Some n \<Rightarrow> (0, n, c, va_id v))"

definition picked_controls :: "(uuid \<Rightarrow> json) \<Rightarrow> ab_db \<Rightarrow> variant_row list" where
  "picked_controls variants d = distinct_on va_exp (sort_key (control_order variants)
     (filter (\<lambda>v. find_by xp_id (va_exp v) (ab_exps d) \<noteq> None) (ab_variants d)))"

definition backfill_control :: "(uuid \<Rightarrow> json) \<Rightarrow> ab_db \<Rightarrow> ab_db" where
  "backfill_control variants d = d\<lparr>ab_variants :=
     update_where (\<lambda>v. va_id v \<in> va_id ` set (picked_controls variants d)) (\<lambda>v. v\<lparr>va_control := True\<rparr>) (ab_variants d)\<rparr>"

text \<open>\<open>event_at\<close> is the column of that name.\<close>

definition first_conversions :: "(uuid \<Rightarrow> time) \<Rightarrow> ab_db \<Rightarrow> ab_event_row list" where
  "first_conversions event_at d = distinct_on xv_assignment (sort_key (\<lambda>e. (event_at (xv_id e), xv_id e))
     (filter (\<lambda>e. xv_type e = ''CONVERSION'') (ab_events d)))"

definition dedupe_conversions :: "(uuid \<Rightarrow> time) \<Rightarrow> ab_db \<Rightarrow> ab_db" where
  "dedupe_conversions event_at d = d\<lparr>ab_events := filter (\<lambda>e. xv_type e \<noteq> ''CONVERSION'' \<or>
     xv_id e \<in> xv_id ` set (first_conversions event_at d)) (ab_events d)\<rparr>"

definition backfill_paid_at :: "db \<Rightarrow> db" where
  "backfill_paid_at d = d\<lparr>accruals := update_where (\<lambda>a. ac_status a = PAID) (\<lambda>a. a\<lparr>ac_paid := Some (ac_at a)\<rparr>) (accruals d)\<rparr>"

section \<open>008: public passwords\<close>

definition KNOWN_DEFAULT_PASSWORDS :: "string list" where
  "KNOWN_DEFAULT_PASSWORDS = [''admin'', ''dev-secret-change-me'', ''please-change-me'', ''change-me'', ''changeme'',
     ''secret'', ''test-secret'']"

definition utf8_length :: "string \<Rightarrow> nat" where
  "utf8_length s = sum_list (map (\<lambda>c. if (of_char c :: nat) < 128 then 1 else 2) s)"

text \<open>\<open>random\<close> is \<^verbatim>\<open>secrets.token_urlsafe(18)\<close>; \<open>None\<close> is the \<^verbatim>\<open>RuntimeError\<close> that stops the migration.\<close>

definition password_from_env :: "string list \<Rightarrow> string \<Rightarrow> string \<Rightarrow> (string \<times> bool) option" where
  "password_from_env weak random env_value =
    (if env_value = [] then Some (random, True)
     else if length env_value < 12 \<or> 72 < utf8_length env_value \<or> map lower_char (py_strip env_value) \<in> set weak then None
     else Some (env_value, False))"

text \<open>\<open>crypt\<close> takes a fresh salt for every row; the password is chosen only when a row needs it.\<close>

definition replace_public_passwords ::
  "(string \<Rightarrow> uuid \<Rightarrow> string) \<Rightarrow> time \<Rightarrow> string list \<Rightarrow> (string \<times> bool) option \<Rightarrow> admin_row list \<Rightarrow> admin_row list option" where
  "replace_public_passwords crypt now hashes choice us =
    (if \<not> list_ex (\<lambda>u. ad_hash u \<in> set hashes) us then Some us
     else case choice of
       None \<Rightarrow> None
     | Some (pw, generated) \<Rightarrow>
         Some (update_where (\<lambda>u. ad_hash u \<in> set hashes)
           (\<lambda>u. u\<lparr>ad_hash := crypt pw (ad_id u), ad_must_change := True, ad_changed := Some now\<rparr>) us))"

text \<open>\<open>boot\<close>: the table \<^verbatim>\<open>alembic_bootstrap\<close>, where there is one.\<close>

definition upgrade_008 ::
  "(string \<Rightarrow> uuid \<Rightarrow> string) \<Rightarrow> time \<Rightarrow> string list \<Rightarrow> string list \<Rightarrow> (string \<times> bool) option \<Rightarrow> (string \<times> bool) option \<Rightarrow>
   (string \<times> string) list option \<Rightarrow> admin_row list \<Rightarrow> admin_row list option" where
  "upgrade_008 crypt now admin_hashes demo_hashes admin_pw demo_pw boot us =
    (let us0 = map (\<lambda>u. u\<lparr>ad_must_change := False, ad_version := 0, ad_changed := None\<rparr>) us in
     case replace_public_passwords crypt now admin_hashes admin_pw us0 of
       None \<Rightarrow> None
     | Some us1 \<Rightarrow>
        (case replace_public_passwords crypt now demo_hashes demo_pw us1 of
           None \<Rightarrow> None
         | Some us2 \<Rightarrow> Some (case boot of
              None \<Rightarrow> us2
            | Some rows \<Rightarrow> update_where (\<lambda>u. (ad_email u, ad_hash u) \<in> set rows) (\<lambda>u. u\<lparr>ad_must_change := True\<rparr>) us2)))"


section \<open>\<open>DISTINCT ON\<close>: lemmas\<close>

lemma distinct_on_subset: "set (distinct_on f xs) \<subseteq> set xs"
  by (induction f xs rule: distinct_on.induct) auto

lemma distinct_on_keys: "distinct (map f (distinct_on f xs))"
proof (induction f xs rule: distinct_on.induct)
  case (2 f x xs)
  have "f x \<notin> f ` set (distinct_on f (filter (\<lambda>y. f y \<noteq> f x) xs))"
    using distinct_on_subset [of f "filter (\<lambda>y. f y \<noteq> f x) xs"] by auto
  with 2 show ?case by simp
qed simp

lemma distinct_on_map: "distinct (map g xs) \<Longrightarrow> distinct (map g (distinct_on f xs))"
proof (induction f xs rule: distinct_on.induct)
  case (2 f x xs)
  have "set (distinct_on f (filter (\<lambda>y. f y \<noteq> f x) xs)) \<subseteq> set xs" using distinct_on_subset by fastforce
  with 2 show ?case by (auto simp: distinct_map_filter)
qed simp

text \<open>The row kept comes first in its group.\<close>

lemma distinct_on_first:
  "sorted_wrt R xs \<Longrightarrow> (\<And>x. R x x) \<Longrightarrow> x \<in> set xs \<Longrightarrow> \<exists>y \<in> set (distinct_on f xs). f y = f x \<and> R y x"
proof (induction f xs rule: distinct_on.induct)
  case (2 f z zs)
  show ?case
  proof (cases "f x = f z")
    case True
    with 2(2-4) show ?thesis by auto
  next
    case False
    with 2(4) have "x \<in> set (filter (\<lambda>y. f y \<noteq> f z) zs)" by auto
    moreover have "sorted_wrt R (filter (\<lambda>y. f y \<noteq> f z) zs)" using 2(2) by (simp add: sorted_wrt_filter)
    ultimately show ?thesis using 2(1,3) by auto
  qed
qed simp

lemma sort_key_wrt: "sorted_wrt (\<lambda>x y. f x \<le> f y) (sort_key f xs)"
  using sorted_sort_key [of f xs] by (simp add: sorted_map)

section \<open>After 009\<close>

lemma last_accepted_offer: "last_accepted d a = Some r \<Longrightarrow> r \<in> set (recs d) \<and> offer_of_accrual a r"
proof -
  let ?xs = "sort_key (\<lambda>r. (- the (re_responded r), - int (re_id r))) (filter (offer_of_accrual a) (recs d))"
  assume "last_accepted d a = Some r"
  then have "r \<in> set ?xs" unfolding last_accepted_def by (cases ?xs) (simp_all del: set_sort set_filter)
  then show ?thesis by (simp only: set_sort set_filter mem_Collect_eq)
qed

lemma linked_mem: "(a, r) \<in> set (linked d) \<Longrightarrow> a \<in> set (accruals d) \<and> last_accepted d a = Some r"
  using distinct_on_subset unfolding linked_def
  by (fastforce simp: earliest_def map_filter_def split: if_splits)

lemma first_per_offer_mem: "(a, r) \<in> set (first_per_offer d) \<Longrightarrow> a \<in> set (accruals d) \<and> last_accepted d a = Some r"
  using distinct_on_subset linked_mem unfolding first_per_offer_def earliest_def by fastforce

lemma first_per_offer_keys:
  "distinct (map (re_id \<circ> snd) (first_per_offer d))" "distinct (map (ac_tx \<circ> fst) (first_per_offer d))"
proof -
  show "distinct (map (re_id \<circ> snd) (first_per_offer d))" by (simp only: first_per_offer_def distinct_on_keys)
  have "distinct (map (ac_tx \<circ> fst) (linked d))" by (simp only: linked_def distinct_on_keys)
  moreover have "mset (map (ac_tx \<circ> fst) (earliest (linked d))) = mset (map (ac_tx \<circ> fst) (linked d))"
    by (simp add: earliest_def)
  ultimately have "distinct (map (ac_tx \<circ> fst) (earliest (linked d)))" by (metis mset_eq_imp_distinct_iff)
  then show "distinct (map (ac_tx \<circ> fst) (first_per_offer d))"
    unfolding first_per_offer_def by (rule distinct_on_map)
qed

definition link_of :: "db \<Rightarrow> accrual_row \<Rightarrow> (accrual_row \<times> rec_row) option" where
  "link_of d a = find (\<lambda>p. ac_id (fst p) = ac_id a) (first_per_offer d)"

lemma backfill_row:
  "accruals (backfill_recommendation d) =
     map (\<lambda>a. case link_of d a of None \<Rightarrow> a | Some p \<Rightarrow> a\<lparr>ac_rec := Some (re_id (snd p))\<rparr>) (accruals d)"
  by (simp add: backfill_recommendation_def link_of_def)

lemma link_of_own:
  assumes "unique_on ac_id (accruals d)" "a \<in> set (accruals d)" "link_of d a = Some p"
  shows "fst p = a \<and> p \<in> set (first_per_offer d) \<and> last_accepted d a = Some (snd p)"
proof -
  have p: "p \<in> set (first_per_offer d)" "ac_id (fst p) = ac_id a" using assms(3) by (auto simp: link_of_def find_Some_iff)
  then have f: "fst p \<in> set (accruals d)" "last_accepted d (fst p) = Some (snd p)"
    using first_per_offer_mem [of "fst p" "snd p" d] by simp_all
  then have "fst p = a" using assms(1,2) p(2) by (auto simp: distinct_map dest: inj_onD)
  with p f show ?thesis by simp
qed

lemma link_of_listed:
  assumes "unique_on ac_id (accruals d)" "(a, r) \<in> set (first_per_offer d)"
  shows "link_of d a = Some (a, r)"
proof -
  have a: "a \<in> set (accruals d)" using first_per_offer_mem [OF assms(2)] by simp
  have "link_of d a \<noteq> None" using assms(2) by (auto simp: link_of_def find_None_iff)
  then obtain p where p: "link_of d a = Some p" by blast
  then have own: "fst p = a" "p \<in> set (first_per_offer d)" using link_of_own [OF assms(1) a] by auto
  have "last_accepted d a = Some (snd p)" "last_accepted d a = Some r"
    using link_of_own [OF assms(1) a p] first_per_offer_mem [OF assms(2)] by auto
  then show ?thesis using p own(1) by (cases p) auto
qed

lemma backfill_keys:
  assumes "unique_on ac_id (accruals d)" "unique_on (\<lambda>a. (ac_tx a, ac_campaign a)) (accruals d)"
    and "\<forall>a \<in> set (accruals d). ac_rec a = None"
  shows "accrual_keys_ok (accruals (backfill_recommendation d))"
proof -
  let ?as = "accruals d" and ?up = "\<lambda>a. case link_of d a of None \<Rightarrow> a | Some p \<Rightarrow> a\<lparr>ac_rec := Some (re_id (snd p))\<rparr>"
  have keep: "ac_id (?up a) = ac_id a" "ac_tx (?up a) = ac_tx a" "ac_campaign (?up a) = ac_campaign a" for a
    by (simp_all split: option.split)
  have paying: "paying_accruals (map ?up ?as) = map ?up (filter (\<lambda>a. link_of d a \<noteq> None) ?as)"
  proof -
    have "ac_rec (?up a) \<noteq> None \<longleftrightarrow> link_of d a \<noteq> None" if "a \<in> set ?as" for a
      using assms(3) that by (simp split: option.split)
    then show ?thesis by (simp add: paying_accruals_def filter_map comp_def cong: filter_cong)
  qed
  have dist: "distinct ?as" using assms(1) by (simp add: distinct_map)
  have inj: "a = b" if "a \<in> set ?as" "b \<in> set ?as" "link_of d a = Some p" "link_of d b = Some q"
      "ac_rec (?up a) = ac_rec (?up b) \<or> ac_tx a = ac_tx b" for a b p q
  proof -
    note own = link_of_own [OF assms(1) that(1,3)] link_of_own [OF assms(1) that(2,4)]
    have "re_id (snd p) = re_id (snd q) \<or> ac_tx (fst p) = ac_tx (fst q)" using that own by auto
    then have "p = q" using own first_per_offer_keys [of d] by (auto simp: distinct_map inj_on_def)
    with own show ?thesis by simp
  qed
  have "unique_on ac_rec (paying_accruals (map ?up ?as))" "unique_on ac_tx (paying_accruals (map ?up ?as))"
    unfolding paying using dist inj
    by (auto simp: distinct_map keep comp_def intro!: inj_onI distinct_filter)
  moreover have "unique_on ac_id (map ?up ?as)" "unique_on (\<lambda>a. (ac_tx a, ac_campaign a)) (map ?up ?as)"
    using assms(1,2) by (simp_all add: keep comp_def)
  ultimately show ?thesis by (simp add: backfill_row accrual_keys_ok_def)
qed


lemma backfill_sound:
  assumes "unique_on ac_id (accruals d)" "\<forall>a \<in> set (accruals d). ac_rec a = None"
    and "a' \<in> set (accruals (backfill_recommendation d))" "ac_rec a' = Some k"
  shows "\<exists>r \<in> set (recs d). re_id r = k \<and> offer_of_accrual a' r"
proof -
  obtain a where a: "a \<in> set (accruals d)"
      "a' = (case link_of d a of None \<Rightarrow> a | Some p \<Rightarrow> a\<lparr>ac_rec := Some (re_id (snd p))\<rparr>)"
    using assms(3) by (auto simp: backfill_row)
  with assms(2,4) obtain p where p: "link_of d a = Some p" "k = re_id (snd p)" by (auto split: option.splits)
  have "last_accepted d a = Some (snd p)" using link_of_own [OF assms(1) a(1) p(1)] by simp
  then have "snd p \<in> set (recs d)" "offer_of_accrual a (snd p)" using last_accepted_offer by blast+
  then show ?thesis using a(2) p by (intro bexI [of _ "snd p"]) (auto simp: offer_of_accrual_def split: option.splits)
qed

lemma earliest_first:
  assumes "(a, r) \<in> set ps"
  shows "\<exists>b r'. (b, r') \<in> set (distinct_on f (earliest ps)) \<and> f (b, r') = f (a, r) \<and> (ac_at b, ac_id b) \<le> (ac_at a, ac_id a)"
proof -
  have "sorted_wrt (\<lambda>p q. (ac_at (fst p), ac_id (fst p)) \<le> (ac_at (fst q), ac_id (fst q))) (earliest ps)"
    unfolding earliest_def by (rule sort_key_wrt)
  from distinct_on_first [OF this _ , of "(a, r)" f] assms show ?thesis by (fastforce simp: earliest_def)
qed

lemma backfill_complete:
  assumes "unique_on ac_id (accruals d)" "a \<in> set (accruals d)" "last_accepted d a = Some r"
  shows "\<exists>b \<in> set (accruals d). \<exists>r'. ac_tx b = ac_tx a \<and> (ac_at b, ac_id b) \<le> (ac_at a, ac_id a) \<and>
    last_accepted d b = Some r' \<and> Some (re_id r') \<in> ac_rec ` set (accruals (backfill_recommendation d))"
proof -
  have "(a, r) \<in> set (List.map_filter (\<lambda>a. map_option (Pair a) (last_accepted d a)) (accruals d))"
    using assms(2,3) by (force simp: map_filter_def image_iff)
  from earliest_first [OF this, of "ac_tx \<circ> fst"] obtain b r' where b: "(b, r') \<in> set (linked d)" "ac_tx b = ac_tx a"
      "(ac_at b, ac_id b) \<le> (ac_at a, ac_id a)"
    by (auto simp: linked_def)
  from earliest_first [OF b(1), of "re_id \<circ> snd"] obtain c q where c: "(c, q) \<in> set (first_per_offer d)" "re_id q = re_id r'"
    by (auto simp: first_per_offer_def)
  have "link_of d c = Some (c, q)" "c \<in> set (accruals d)"
    using link_of_listed [OF assms(1) c(1)] first_per_offer_mem [OF c(1)] by simp_all
  then have "Some (re_id r') \<in> ac_rec ` set (accruals (backfill_recommendation d))"
    using c(2) by (force simp: backfill_row image_iff)
  then show ?thesis using b linked_mem [OF b(1)] by blast
qed

text \<open>C21: Migration 009 turns every old ledger into one that its new constraints accept, so the migration
  cannot fail on them: afterwards no offer and no purchase is paid by two linked accruals. Every link is
  true, to an accepted offer of the same client, campaign and category that was answered no later than the
  accrual; and for every purchase with an offer to link, the offer of its earliest such accrual is linked.\<close>

theorem migration_009_establishes_keys:
  assumes "unique_on ac_id (accruals d)" "unique_on (\<lambda>a. (ac_tx a, ac_campaign a)) (accruals d)"
    and "\<forall>a \<in> set (accruals d). ac_rec a = None" "d' = backfill_recommendation d"
  shows "accrual_keys_ok (accruals d') \<and>
    (\<forall>a \<in> set (accruals d'). \<forall>k. ac_rec a = Some k \<longrightarrow> (\<exists>r \<in> set (recs d). re_id r = k \<and> offer_of_accrual a r)) \<and>
    (\<forall>a \<in> set (accruals d). \<forall>r. last_accepted d a = Some r \<longrightarrow> (\<exists>b \<in> set (accruals d). \<exists>r'. ac_tx b = ac_tx a \<and>
      (ac_at b, ac_id b) \<le> (ac_at a, ac_id a) \<and> last_accepted d b = Some r' \<and> Some (re_id r') \<in> ac_rec ` set (accruals d')))"
  using backfill_keys [OF assms(1-3)] backfill_sound [OF assms(1,3)] backfill_complete [OF assms(1)]
  unfolding assms(4) by blast

text \<open>An old ledger of a client with two accepted offers, of campaigns 7 and 8: the purchase \<open>t1\<close> paid the
  first; \<open>t2\<close> was paid twice, for both campaigns.\<close>

definition old_offer :: "uuid \<Rightarrow> uuid \<Rightarrow> rec_row" where
  "old_offer k c = \<lparr>re_id = k, re_user = 3, re_campaign = c, re_mcc = ''5411'', re_score = 0, re_generated = 0,
     re_status = ACCEPTED, re_expires = 100, re_responded = Some 5, re_channel = None\<rparr>"

definition old_accrual :: "uuid \<Rightarrow> uuid \<Rightarrow> string \<Rightarrow> time \<Rightarrow> accrual_row" where
  "old_accrual k c tx t = \<lparr>ac_id = k, ac_user = 3, ac_campaign = c, ac_rec = None, ac_tx = tx, ac_mcc = ''5411'',
     ac_amount = 100, ac_cashback = 5, ac_status = PAID, ac_at = t, ac_paid = None\<rparr>"

definition old_db :: db where
  "old_db = sample_db\<lparr>recs := [old_offer 100 7, old_offer 101 8],
     accruals := [old_accrual 11 7 ''t1'' 10, old_accrual 12 7 ''t2'' 20, old_accrual 13 8 ''t2'' 21]\<rparr>"

lemma old_last_accepted:
  "last_accepted old_db (old_accrual 11 7 ''t1'' 10) = Some (old_offer 100 7)"
  "last_accepted old_db (old_accrual 12 7 ''t2'' 20) = Some (old_offer 100 7)"
  "last_accepted old_db (old_accrual 13 8 ''t2'' 21) = Some (old_offer 101 8)"
  by (simp_all add: last_accepted_def old_db_def offer_of_accrual_def old_offer_def old_accrual_def)

lemma old_linked: "linked old_db = [(old_accrual 11 7 ''t1'' 10, old_offer 100 7), (old_accrual 12 7 ''t2'' 20, old_offer 100 7)]"
proof -
  have "accruals old_db = [old_accrual 11 7 ''t1'' 10, old_accrual 12 7 ''t2'' 20, old_accrual 13 8 ''t2'' 21]"
    by (simp add: old_db_def)
  then show ?thesis by (simp add: linked_def old_last_accepted earliest_def map_filter_def) (simp add: old_accrual_def)
qed

lemma old_first: "first_per_offer old_db = [(old_accrual 11 7 ''t1'' 10, old_offer 100 7)]"
  by (simp add: first_per_offer_def old_linked earliest_def) (simp add: old_accrual_def)

text \<open>The backfill leaves a paid offer unlinked although the keys would allow the link: the accrual of
  campaign 8 is not the earliest of its purchase, and the earliest one is not linked either, because an
  earlier purchase has taken its offer. The offer of campaign 8 stays payable to the new engine.\<close>

lemma backfill_leaves_paid_offer:
  "accruals (backfill_recommendation old_db) =
     [(old_accrual 11 7 ''t1'' 10)\<lparr>ac_rec := Some 100\<rparr>, old_accrual 12 7 ''t2'' 20, old_accrual 13 8 ''t2'' 21] \<and>
   accrual_keys_ok [(old_accrual 11 7 ''t1'' 10)\<lparr>ac_rec := Some 100\<rparr>, old_accrual 12 7 ''t2'' 20,
     (old_accrual 13 8 ''t2'' 21)\<lparr>ac_rec := Some 101\<rparr>]"
proof -
  have "accruals old_db = [old_accrual 11 7 ''t1'' 10, old_accrual 12 7 ''t2'' 20, old_accrual 13 8 ''t2'' 21]"
    by (simp add: old_db_def)
  then have "accruals (backfill_recommendation old_db) =
     [(old_accrual 11 7 ''t1'' 10)\<lparr>ac_rec := Some 100\<rparr>, old_accrual 12 7 ''t2'' 20, old_accrual 13 8 ''t2'' 21]"
    by (simp add: backfill_recommendation_def old_first) (simp add: old_accrual_def old_offer_def)
  then show ?thesis by (simp add: accrual_keys_ok_def paying_accruals_def old_accrual_def)
qed

theorem migration_009_establishes_keys_witness:
  "accrual_keys_ok (accruals (backfill_recommendation old_db)) \<and>
   (\<exists>a \<in> set (accruals (backfill_recommendation old_db)). ac_rec a = Some 100)"
proof -
  have "accrual_keys_ok (accruals (backfill_recommendation old_db))"
    by (rule migration_009_establishes_keys [OF _ _ _ refl, THEN conjunct1]) (simp_all add: old_db_def old_accrual_def)
  then show ?thesis using backfill_leaves_paid_offer by simp
qed

section \<open>The change of \<open>calculate_cashback\<close>\<close>

text \<open>009 changes a payout only through the categories: where the category belongs to the campaign and has
  no minimum of its own, the old function and the new one give the same, errors included.\<close>

lemma cashback_v1_agrees:
  "category_of d cid mcc = Some cc \<Longrightarrow> cc_min cc = None \<Longrightarrow>
   calculate_cashback num_in d cid mcc amt = calculate_cashback_v1 num_in d cid amt"
  by (simp add: calculate_cashback_def calculate_cashback_v1_def min_amount_def split: option.split)

section \<open>After 010\<close>

lemma picked_exp: "distinct (map va_exp (picked_controls variants d))"
  by (simp add: picked_controls_def distinct_on_keys)

lemma picked_mem: "v \<in> set (picked_controls variants d) \<Longrightarrow> v \<in> set (ab_variants d)"
  using distinct_on_subset unfolding picked_controls_def by fastforce

text \<open>Migration 010 leaves every experiment with variants exactly one control, and every assignment with
  a conversion exactly one conversion, so that both partial unique indexes can be created; variants and
  other events are otherwise unchanged.\<close>

theorem migration_010_establishes_keys:
  assumes "unique_on va_id (ab_variants d)" "\<forall>v \<in> set (ab_variants d). \<not> va_control v"
    and "\<forall>v \<in> set (ab_variants d). va_exp v \<in> xp_id ` set (ab_exps d)" "unique_on xv_id (ab_events d)"
    and "d' = dedupe_conversions event_at (backfill_control variants d)"
  shows "(\<forall>v \<in> set (ab_variants d). length (filter (\<lambda>w. va_exp w = va_exp v \<and> va_control w) (ab_variants d')) = 1) \<and>
    unique_on xv_assignment (filter (\<lambda>e. xv_type e = ''CONVERSION'') (ab_events d')) \<and>
    (\<forall>e \<in> set (ab_events d). xv_type e = ''CONVERSION'' \<longrightarrow> (\<exists>f \<in> set (ab_events d'). xv_type f = ''CONVERSION'' \<and>
      xv_assignment f = xv_assignment e \<and> event_at (xv_id f) \<le> event_at (xv_id e)))"
proof -
  let ?vs = "ab_variants d" and ?P = "va_id ` set (picked_controls variants d)"
  let ?cs = "filter (\<lambda>e. xv_type e = ''CONVERSION'') (ab_events d)" and ?F = "set (first_conversions event_at d)"
  have d': "ab_variants d' = update_where (\<lambda>v. va_id v \<in> ?P) (\<lambda>v. v\<lparr>va_control := True\<rparr>) ?vs"
      "ab_events d' = filter (\<lambda>e. xv_type e \<noteq> ''CONVERSION'' \<or> xv_id e \<in> xv_id ` ?F) (ab_events d)"
    by (simp_all add: assms(5) dedupe_conversions_def backfill_control_def first_conversions_def)
  have one: "length (filter (\<lambda>w. va_exp w = va_exp v \<and> va_control w) (ab_variants d')) = 1" if v: "v \<in> set ?vs" for v
  proof -
    let ?xs = "sort_key (control_order variants) (filter (\<lambda>v. find_by xp_id (va_exp v) (ab_exps d) \<noteq> None) ?vs)"
    have "v \<in> set ?xs" using v assms(3) by (simp add: find_by_None)
    from distinct_on_first [OF sort_key_wrt _ this, of va_exp] obtain u where u: "u \<in> set (picked_controls variants d)" "va_exp u = va_exp v"
      by (auto simp: picked_controls_def)
    have "va_exp w = va_exp v \<and> va_id w \<in> ?P \<longleftrightarrow> va_id w = va_id u" if w: "w \<in> set ?vs" for w
    proof
      assume wp: "va_exp w = va_exp v \<and> va_id w \<in> ?P"
      then obtain p where p: "p \<in> set (picked_controls variants d)" "va_id p = va_id w" by auto
      then have "p = w" using w assms(1) picked_mem by (auto simp: distinct_map dest: inj_onD)
      then have "p = u" using p(1) u wp picked_exp [of variants d] by (auto simp: distinct_map inj_on_def)
      then show "va_id w = va_id u" using p(2) by simp
    next
      assume e: "va_id w = va_id u"
      then have "w = u" using w assms(1) u(1) picked_mem by (auto simp: distinct_map dest: inj_onD)
      then show "va_exp w = va_exp v \<and> va_id w \<in> ?P" using u by auto
    qed
    then have "filter (\<lambda>w. va_exp w = va_exp v \<and> va_id w \<in> ?P) ?vs = filter (\<lambda>w. va_id w = va_id u) ?vs"
      by (rule filter_cong [OF refl])
    then have "length (filter (\<lambda>w. va_exp w = va_exp v \<and> va_id w \<in> ?P) ?vs) = length (filter (\<lambda>w. va_id w = va_id u) ?vs)"
      by (rule arg_cong)
    also have "\<dots> = 1"
      using filter_key_unique [OF assms(1), of "va_id u"] find_by_unique [OF assms(1) picked_mem [OF u(1)]] by simp
    finally have "length (filter (\<lambda>w. va_exp w = va_exp v \<and> va_id w \<in> ?P) ?vs) = 1" .
    moreover have "length (filter (\<lambda>w. va_exp w = x \<and> va_control w) (update_where (\<lambda>v. va_id v \<in> ?P) (\<lambda>v. v\<lparr>va_control := True\<rparr>) ws)) =
        length (filter (\<lambda>w. va_exp w = x \<and> va_id w \<in> ?P) ws)" if "\<forall>w \<in> set ws. \<not> va_control w"
        for ws :: "variant_row list" and x
      using that by (induction ws) auto
    ultimately show ?thesis using assms(2) by (simp add: d'(1))
  qed
  have cs: "filter (\<lambda>e. xv_type e = ''CONVERSION'') (ab_events d') = filter (\<lambda>e. xv_id e \<in> xv_id ` ?F) ?cs"
    by (auto simp: d'(2) intro!: filter_cong)
  have F: "?F \<subseteq> set ?cs" "distinct (map xv_assignment (first_conversions event_at d))"
    using distinct_on_subset [of xv_assignment "sort_key (\<lambda>e. (event_at (xv_id e), xv_id e)) ?cs"]
    by (auto simp: first_conversions_def distinct_on_keys)
  have mem: "e \<in> ?F" if "e \<in> set (ab_events d)" "xv_id e \<in> xv_id ` ?F" for e
    using that F(1) assms(4) by (auto simp: distinct_map dest: inj_onD)
  have "distinct (ab_events d)" using assms(4) by (simp add: distinct_map)
  then have "unique_on xv_assignment (filter (\<lambda>e. xv_id e \<in> xv_id ` ?F) ?cs)"
    using mem F(2) by (auto simp: distinct_map intro!: inj_onI dest: inj_onD)
  moreover have "\<exists>f \<in> set (ab_events d'). xv_type f = ''CONVERSION'' \<and> xv_assignment f = xv_assignment e \<and>
      event_at (xv_id f) \<le> event_at (xv_id e)" if "e \<in> set (ab_events d)" "xv_type e = ''CONVERSION''" for e
  proof -
    have "e \<in> set (sort_key (\<lambda>e. (event_at (xv_id e), xv_id e)) ?cs)" using that by simp
    from distinct_on_first [OF sort_key_wrt _ this, of xv_assignment] obtain f where f: "f \<in> ?F" "xv_assignment f = xv_assignment e"
        "(event_at (xv_id f), xv_id f) \<le> (event_at (xv_id e), xv_id e)"
      by (auto simp: first_conversions_def)
    then show ?thesis using F(1) by (intro bexI [of _ f]) (auto simp: d'(2))
  qed
  ultimately show ?thesis using one cs by simp
qed



definition old_ab :: ab_db where
  "old_ab = \<lparr>ab_exps = [\<lparr>xp_id = 5, xp_name = ''x'', xp_status = ''ACTIVE'', xp_metric = ''m'', xp_start = 0, xp_end = None\<rparr>],
     ab_variants = [\<lparr>va_id = 7, va_exp = 5, va_name = ''B'', va_weight = 1 / 2, va_class = ''c'', va_params = None, va_control = False\<rparr>,
       \<lparr>va_id = 6, va_exp = 5, va_name = ''Control'', va_weight = 1 / 2, va_class = ''c'', va_params = None, va_control = False\<rparr>],
     ab_assigns = [], ab_events = [\<lparr>xv_id = 21, xv_assignment = 9, xv_type = ''CONVERSION''\<rparr>,
       \<lparr>xv_id = 22, xv_assignment = 9, xv_type = ''CONVERSION''\<rparr>]\<rparr>"

theorem migration_010_establishes_keys_witness:
  "unique_on xv_assignment (filter (\<lambda>e. xv_type e = ''CONVERSION'')
     (ab_events (dedupe_conversions int (backfill_control (\<lambda>_. JNull) old_ab)))) \<and> length (ab_events old_ab) = 2"
proof -
  have "unique_on xv_assignment (filter (\<lambda>e. xv_type e = ''CONVERSION'')
     (ab_events (dedupe_conversions int (backfill_control (\<lambda>_. JNull) old_ab))))"
    by (rule migration_010_establishes_keys [OF _ _ _ _ refl, THEN conjunct2, THEN conjunct1]) (simp_all add: old_ab_def)
  then show ?thesis by (simp add: old_ab_def)
qed

text \<open>The paid accruals are dated; nothing else changes.\<close>

lemma backfill_paid_at_dates:
  "a \<in> set (accruals (backfill_paid_at d)) \<Longrightarrow> ac_status a = PAID \<Longrightarrow> ac_paid a = Some (ac_at a)"
  by (auto simp: backfill_paid_at_def set_update_where split: if_splits)

section \<open>After 008\<close>

definition row_kept :: "admin_row \<Rightarrow> admin_row \<Rightarrow> bool" where
  "row_kept u v = (ad_id v = ad_id u \<and> ad_version v = ad_version u)"

lemma replace_public:
  assumes "replace_public_passwords crypt now hashes choice us = Some us'" "\<forall>pw u. crypt pw u \<notin> set bad"
  shows "\<exists>f. us' = map f us \<and> (\<forall>u \<in> set us. row_kept u (f u) \<and>
    (if ad_hash u \<in> set hashes then ad_must_change (f u) \<and> ad_hash (f u) \<notin> set bad else f u = u))"
proof (cases "list_ex (\<lambda>u. ad_hash u \<in> set hashes) us")
  case False
  with assms(1) show ?thesis
    by (intro exI [of _ "\<lambda>u. u"]) (auto simp: replace_public_passwords_def list_ex_iff row_kept_def)
next
  case True
  then obtain pw g where c: "us' = update_where (\<lambda>u. ad_hash u \<in> set hashes)
      (\<lambda>u. u\<lparr>ad_hash := crypt pw (ad_id u), ad_must_change := True, ad_changed := Some now\<rparr>) us"
    using assms(1) by (auto simp: replace_public_passwords_def split: option.splits)
  show ?thesis
    by (rule exI, rule conjI [OF c [unfolded update_where_def]]) (simp add: row_kept_def assms(2))
qed

text \<open>After migration 008 no account can log in with a public password: no row holds one of the published
  hashes, every row that held one must change its password, the other hashes are kept, and every account
  starts with token version 0.\<close>

theorem migration_008_removes_public_passwords:
  assumes "upgrade_008 crypt now admin_hashes demo_hashes admin_pw demo_pw boot us = Some us'"
    and "\<forall>pw u. crypt pw u \<notin> set (admin_hashes @ demo_hashes)"
  shows "map ad_id us' = map ad_id us \<and> (\<forall>u \<in> set us'. ad_hash u \<notin> set (admin_hashes @ demo_hashes) \<and> ad_version u = 0) \<and>
    (\<forall>(u, v) \<in> set (zip us us'). if ad_hash u \<in> set (admin_hashes @ demo_hashes) then ad_must_change v else ad_hash v = ad_hash u)"
proof -
  let ?A = "set admin_hashes" and ?D = "set demo_hashes" and ?bad = "admin_hashes @ demo_hashes"
  define g :: "admin_row \<Rightarrow> admin_row" where "g = (\<lambda>u. u\<lparr>ad_must_change := False, ad_version := 0, ad_changed := None\<rparr>)"
  obtain us1 us2 where r1: "replace_public_passwords crypt now admin_hashes admin_pw (map g us) = Some us1"
    and r2: "replace_public_passwords crypt now demo_hashes demo_pw us1 = Some us2"
    and us': "us' = (case boot of None \<Rightarrow> us2
      | Some rows \<Rightarrow> update_where (\<lambda>u. (ad_email u, ad_hash u) \<in> set rows) (\<lambda>u. u\<lparr>ad_must_change := True\<rparr>) us2)"
    using assms(1) by (auto simp: upgrade_008_def g_def Let_def split: option.splits)
  obtain f1 where f1: "us1 = map f1 (map g us)" "\<forall>u \<in> set (map g us). row_kept u (f1 u) \<and>
      (if ad_hash u \<in> ?A then ad_must_change (f1 u) \<and> ad_hash (f1 u) \<notin> set ?bad else f1 u = u)"
    using replace_public [OF r1 assms(2)] by blast
  obtain f2 where f2: "us2 = map f2 us1" "\<forall>u \<in> set us1. row_kept u (f2 u) \<and>
      (if ad_hash u \<in> ?D then ad_must_change (f2 u) \<and> ad_hash (f2 u) \<notin> set ?bad else f2 u = u)"
    using replace_public [OF r2 assms(2)] by blast
  define h :: "admin_row \<Rightarrow> admin_row" where "h = (\<lambda>u. case boot of None \<Rightarrow> u
    | Some rows \<Rightarrow> if (ad_email u, ad_hash u) \<in> set rows then u\<lparr>ad_must_change := True\<rparr> else u)"
  define F where "F = (\<lambda>u. h (f2 (f1 (g u))))"
  have all: "us' = map F us" by (simp add: us' f1(1) f2(1) F_def h_def update_where_def comp_def split: option.split)
  have F: "ad_id (F u) = ad_id u \<and> ad_version (F u) = 0 \<and> ad_hash (F u) \<notin> set ?bad \<and>
      (if ad_hash u \<in> set ?bad then ad_must_change (F u) else ad_hash (F u) = ad_hash u)" if u: "u \<in> set us" for u
  proof -
    have g: "ad_id (g u) = ad_id u" "ad_hash (g u) = ad_hash u" "ad_version (g u) = 0" by (simp_all add: g_def)
    have 1: "row_kept (g u) (f1 (g u))" "ad_hash u \<in> ?A \<Longrightarrow> ad_must_change (f1 (g u)) \<and> ad_hash (f1 (g u)) \<notin> set ?bad"
        "ad_hash u \<notin> ?A \<Longrightarrow> f1 (g u) = g u"
      using f1(2) u by (auto simp: g)
    have 2: "row_kept (f1 (g u)) (f2 (f1 (g u)))"
        "ad_hash (f1 (g u)) \<in> ?D \<Longrightarrow> ad_must_change (f2 (f1 (g u))) \<and> ad_hash (f2 (f1 (g u))) \<notin> set ?bad"
        "ad_hash (f1 (g u)) \<notin> ?D \<Longrightarrow> f2 (f1 (g u)) = f1 (g u)"
      using f2(2) u by (auto simp: f1(1))
    have h: "ad_id (h v) = ad_id v" "ad_version (h v) = ad_version v" "ad_hash (h v) = ad_hash v"
        "ad_must_change v \<Longrightarrow> ad_must_change (h v)" for v
      by (simp_all add: h_def split: option.split)
    show ?thesis
      using 1 2 g h unfolding F_def row_kept_def
      by (cases "ad_hash u \<in> ?A"; cases "ad_hash (f1 (g u)) \<in> ?D") auto
  qed
  show ?thesis using F by (auto simp: all zip_map2 zip_same_conv_map)
qed

definition old_admin :: admin_row where
  "old_admin = \<lparr>ad_id = 1, ad_email = ''a'', ad_hash = ''pub'', ad_name = ''n'', ad_role = ''ADMIN'', ad_active = True,
     ad_created = 0, ad_last_login = None, ad_must_change = False, ad_version = 7, ad_changed = None\<rparr>"

theorem migration_008_removes_public_passwords_witness:
  "\<exists>us'. upgrade_008 (\<lambda>pw u. CHR ''$'' # pw) 0 [''pub''] [''demo''] (password_from_env KNOWN_DEFAULT_PASSWORDS ''rnd'' []) None None
      [old_admin] = Some us' \<and> map ad_id us' = [1] \<and> (\<forall>u \<in> set us'. ad_hash u \<noteq> ''pub'')"
proof -
  obtain us' where u: "upgrade_008 (\<lambda>pw u. CHR ''$'' # pw) 0 [''pub''] [''demo'']
      (password_from_env KNOWN_DEFAULT_PASSWORDS ''rnd'' []) None None [old_admin] = Some us'"
    by (simp add: upgrade_008_def replace_public_passwords_def password_from_env_def old_admin_def)
  from migration_008_removes_public_passwords [OF u] show ?thesis
    using u by (auto simp: old_admin_def)
qed

end
