(* ===== verification/Promotion.thy ===== *)
theory Promotion
  imports Faults Float64
begin

text \<open>
  The promotion of a trained model (\<^verbatim>\<open>services/ml_training/app/promote_model.py\<close>): the candidate of a run,
  the comparison with the model in production, the gate on the drift of the features, and the rollback.

  MLflow is a parameter: its registry is a state of any type \<open>'r\<close>, which \<open>pm_latest\<close> reads and
  \<open>pm_transition\<close> changes; so are the artefacts of a run (\<open>None\<close>: not to be had) and the PSI of two
  summaries of a feature. Metrics are doubles. \<open>mo_pushed\<close> is what was pushed to the gateway.
\<close>

definition MODEL_NAME :: string where "MODEL_NAME = ''cashback_lgbm_ranker''"

definition METRIC_KEY :: string where "METRIC_KEY = ''cv_roc_auc''"

record model_version =
  mv_name :: string
  mv_version :: string
  mv_run :: string

record pushed =
  pu_psi :: "rat option"
  pu_promoted :: bool
  pu_version :: "string option"

record 'r promo_env =
  pm_run :: "string \<Rightarrow> exn + (string \<times> rat) list"
  pm_versions :: "string \<Rightarrow> exn + model_version list"
  pm_latest :: "string \<Rightarrow> 'r \<Rightarrow> exn + model_version list"
  pm_transition :: "string \<Rightarrow> string \<Rightarrow> bool \<Rightarrow> 'r \<Rightarrow> exn + 'r"
  pm_quantiles :: "string \<Rightarrow> (string \<times> rat list) list option"
  pm_columns :: "string \<Rightarrow> string list option"
  pm_psi :: "rat list \<Rightarrow> rat list \<Rightarrow> rat"

record 'r promo_sys =
  mo_reg :: 'r
  mo_pushed :: "pushed list"

definition push_ml_metrics :: "rat option \<Rightarrow> bool \<Rightarrow> string option \<Rightarrow> 'r promo_sys \<Rightarrow> 'r promo_sys" where
  "push_ml_metrics psi promoted version s =
     s\<lparr>mo_pushed := mo_pushed s @ [\<lparr>pu_psi = psi, pu_promoted = promoted, pu_version = version\<rparr>]\<rparr>"

definition find_version_for_run :: "'r promo_env \<Rightarrow> string \<Rightarrow> string \<Rightarrow> exn + model_version option" where
  "find_version_for_run env run name =
    (case pm_versions env run of
       Inl e \<Rightarrow> Inl e
     | Inr vs \<Rightarrow> Inr (case find (\<lambda>v. mv_name v = name) vs of
         Some v \<Rightarrow> Some v | None \<Rightarrow> (case vs of [] \<Rightarrow> None | v # _ \<Rightarrow> Some v)))"

text \<open>A failed lookup counts as no model in production.\<close>

definition current_production :: "'r promo_env \<Rightarrow> 'r \<Rightarrow> model_version option" where
  "current_production env r =
    (case pm_latest env ''Production'' r of Inl e \<Rightarrow> None | Inr [] \<Rightarrow> None | Inr (v # _) \<Rightarrow> Some v)"

definition compute_psi_per_feature_from_quantiles ::
  "(rat list \<Rightarrow> rat list \<Rightarrow> rat) \<Rightarrow> (string \<times> rat list) list \<Rightarrow> (string \<times> rat list) list \<Rightarrow> (string \<times> rat) list" where
  "compute_psi_per_feature_from_quantiles psi ref cur =
     List.map_filter (\<lambda>(col, q). map_option (\<lambda>q'. (col, psi q q')) (map_of cur col)) ref"

definition max_psi :: "(string \<times> rat) list \<Rightarrow> rat" where
  "max_psi psi = (case map snd psi of [] \<Rightarrow> 0 | x # xs \<Rightarrow> fold max xs x)"

text \<open>The fingerprint of a run becomes a frame with its columns and no rows, which pandas calls empty
  whatever the columns, so that the comparison of the fallback is never made.\<close>

definition load_fingerprint :: "'r promo_env \<Rightarrow> string \<Rightarrow> (string list \<times> nat) option" where
  "load_fingerprint env run = map_option (\<lambda>cols. (cols, 0)) (pm_columns env run)"

definition frame_empty :: "string list \<times> nat \<Rightarrow> bool" where
  "frame_empty f = (fst f = [] \<or> snd f = 0)"

text \<open>The greatest drift (\<open>None\<close>: not compared). A summary without features is falsy.\<close>

definition drift :: "'r promo_env \<Rightarrow> string \<Rightarrow> string \<Rightarrow> (string \<times> rat) list \<Rightarrow> rat option" where
  "drift env new_run prod_run unreachable =
    (case (pm_quantiles env new_run, pm_quantiles env prod_run) of
       (Some (n # ns), Some (p # ps)) \<Rightarrow>
         Some (max_psi (compute_psi_per_feature_from_quantiles (pm_psi env) (p # ps) (n # ns)))
     | _ \<Rightarrow>
        (case (load_fingerprint env new_run, load_fingerprint env prod_run) of
           (Some f, Some g) \<Rightarrow> if \<not> frame_empty f \<and> \<not> frame_empty g then Some (max_psi unreachable) else None
         | _ \<Rightarrow> None))"

definition transition_to ::
  "'r promo_env \<Rightarrow> string \<Rightarrow> bool \<Rightarrow> rat option \<Rightarrow> 'r promo_sys \<Rightarrow> (exn + bool) \<times> 'r promo_sys" where
  "transition_to env version archive psi s =
    (case pm_transition env MODEL_NAME version archive (mo_reg s) of
       Inl e \<Rightarrow> (Inl e, s)
     | Inr r \<Rightarrow> (Inr True, push_ml_metrics psi True (Some version) (s\<lparr>mo_reg := r\<rparr>)))"

definition promote_if_better ::
  "'r promo_env \<Rightarrow> rat \<Rightarrow> rat \<Rightarrow> string \<Rightarrow> 'r promo_sys \<Rightarrow> (exn + bool) \<times> 'r promo_sys" where
  "promote_if_better env auc_delta_min psi_threshold new_run s =
    (case pm_run env new_run of
       Inl e \<Rightarrow> (Inl e, s)
     | Inr metrics \<Rightarrow>
        (case map_of metrics METRIC_KEY of
           None \<Rightarrow> (Inr False, s)
         | Some new_auc \<Rightarrow>
            (case find_version_for_run env new_run MODEL_NAME of
               Inl e \<Rightarrow> (Inl e, s)
             | Inr None \<Rightarrow> (Inr False, s)
             | Inr (Some candidate) \<Rightarrow>
                (case current_production env (mo_reg s) of
                   None \<Rightarrow> transition_to env (mv_version candidate) False (Some 0) s
                 | Some live \<Rightarrow>
                    (case pm_run env (mv_run live) of
                       Inl e \<Rightarrow> (Inl e, s)
                     | Inr prod_metrics \<Rightarrow>
                        (let prod_auc = (case map_of prod_metrics METRIC_KEY of None \<Rightarrow> 0 | Some a \<Rightarrow> a);
                             delta = fl (new_auc - prod_auc) in
                         if delta < auc_delta_min then (Inr False, push_ml_metrics None False None s)
                         else (let psi = drift env new_run (mv_run live) [] in
                           case psi of
                             Some m \<Rightarrow>
                               if psi_threshold < m then (Inr False, push_ml_metrics psi False None s)
                               else transition_to env (mv_version candidate) True psi s
                           | None \<Rightarrow> transition_to env (mv_version candidate) True psi s)))))))"

text \<open>\<open>number\<close> is \<^verbatim>\<open>int(v.version)\<close>.\<close>

definition rollback_to_previous ::
  "'r promo_env \<Rightarrow> (string \<Rightarrow> int) \<Rightarrow> 'r promo_sys \<Rightarrow> (exn + string option) \<times> 'r promo_sys" where
  "rollback_to_previous env number s =
    (case pm_latest env ''Archived'' (mo_reg s) of
       Inl e \<Rightarrow> (Inl e, s)
     | Inr vs \<Rightarrow>
        (case sort_key (\<lambda>v. - number (mv_version v)) vs of
           [] \<Rightarrow> (Inr None, s)
         | prev # _ \<Rightarrow>
            (case pm_transition env MODEL_NAME (mv_version prev) True (mo_reg s) of
               Inl e \<Rightarrow> (Inl e, s)
             | Inr r \<Rightarrow> (Inr (Some (mv_version prev)), s\<lparr>mo_reg := r\<rparr>))))"

section \<open>Properties\<close>

lemma transition_to_result:
  "transition_to env v b psi s = (Inr True, s') \<Longrightarrow> pm_transition env MODEL_NAME v b (mo_reg s) = Inr (mo_reg s')"
  by (auto simp: transition_to_def push_ml_metrics_def split: sum.splits)

lemma transition_to_other:
  "transition_to env v b psi s = (x, s') \<Longrightarrow> x \<noteq> Inr True \<Longrightarrow> s' = s"
  by (auto simp: transition_to_def split: sum.splits)

lemma max_psi_le: "max_psi psi \<le> t \<Longrightarrow> (col, v) \<in> set psi \<Longrightarrow> v \<le> t"
proof -
  assume le: "max_psi psi \<le> t" and mem: "(col, v) \<in> set psi"
  obtain x xs where xs: "map snd psi = x # xs" using mem by (cases psi) auto
  then have "max_psi psi = Max (set (x # xs))" by (simp only: max_psi_def list.case Max.set_eq_fold)
  moreover have "v \<in> set (x # xs)" using mem by (force simp flip: xs)
  ultimately show "v \<le> t" using le by (metis List.finite_set Max_ge order_trans)
qed

text \<open>A model reaches production only by merit. When a run is promoted while the registry names a model in
  production, its AUC exceeds that model's by at least the minimum, and, where both runs have a summary of
  their features, no feature they share has drifted beyond the threshold; the registry has then made the one
  transition of the candidate, archiving the others.\<close>

theorem promotion_presupposes:
  assumes "promote_if_better env dmin tmax run s = (Inr True, s')"
    and "current_production env (mo_reg s) = Some live"
  shows "\<exists>m a pm v. pm_run env run = Inr m \<and> map_of m METRIC_KEY = Some a \<and> pm_run env (mv_run live) = Inr pm \<and>
    dmin \<le> fl (a - (case map_of pm METRIC_KEY of None \<Rightarrow> 0 | Some b \<Rightarrow> b)) \<and>
    (\<forall>new old. pm_quantiles env run = Some new \<and> pm_quantiles env (mv_run live) = Some old \<longrightarrow>
      (\<forall>col q q'. (col, q) \<in> set old \<and> map_of new col = Some q' \<longrightarrow> pm_psi env q q' \<le> tmax)) \<and>
    find_version_for_run env run MODEL_NAME = Inr (Some v) \<and>
    pm_transition env MODEL_NAME (mv_version v) True (mo_reg s) = Inr (mo_reg s')"
proof -
  obtain m a v pm where 1: "pm_run env run = Inr m" "map_of m METRIC_KEY = Some a"
      "find_version_for_run env run MODEL_NAME = Inr (Some v)" "pm_run env (mv_run live) = Inr pm"
    using assms by (auto simp: promote_if_better_def split: sum.splits option.splits)
  let ?psi = "drift env run (mv_run live) []"
  have 2: "dmin \<le> fl (a - (case map_of pm METRIC_KEY of None \<Rightarrow> 0 | Some b \<Rightarrow> b))" "\<forall>x. ?psi = Some x \<longrightarrow> x \<le> tmax"
      "transition_to env (mv_version v) True ?psi s = (Inr True, s')"
    using assms 1 by (auto simp: promote_if_better_def Let_def split: option.splits if_splits)
  have "pm_psi env q q' \<le> tmax" if q: "pm_quantiles env run = Some new" "pm_quantiles env (mv_run live) = Some old"
      "(col, q) \<in> set old" "map_of new col = Some q'" for new old col q q'
  proof -
    have "new \<noteq> []" "old \<noteq> []" using q by auto
    then have "?psi = Some (max_psi (compute_psi_per_feature_from_quantiles (pm_psi env) old new))"
      using q(1,2) by (auto simp: drift_def neq_Nil_conv)
    moreover have "(col, pm_psi env q q') \<in> set (compute_psi_per_feature_from_quantiles (pm_psi env) old new)"
      using q(3,4) by (force simp: compute_psi_per_feature_from_quantiles_def map_filter_def)
    ultimately show ?thesis using 2(2) max_psi_le by blast
  qed
  then show ?thesis using 1 2 transition_to_result [OF 2(3)] by blast
qed

text \<open>A run that is not promoted, or whose promotion fails, leaves the registry as it was.\<close>

theorem unpromoted_leaves_registry:
  assumes "promote_if_better env dmin tmax run s = (x, s')" "x \<noteq> Inr True"
  shows "mo_reg s' = mo_reg s"
  using assms transition_to_other
  by (fastforce simp: promote_if_better_def push_ml_metrics_def Let_def split: sum.splits option.splits if_splits)

text \<open>A failed lookup of the registry promotes any run that has a metric: the AUC is not compared, the drift
  not looked at, and the model that is in production is not archived.\<close>

lemma lookup_failure_promotes:
  assumes "pm_run env run = Inr m" "map_of m METRIC_KEY = Some a" "find_version_for_run env run MODEL_NAME = Inr (Some v)"
    and "pm_latest env ''Production'' (mo_reg s) = Inl e" "pm_transition env MODEL_NAME (mv_version v) False (mo_reg s) = Inr r"
  shows "\<exists>s'. promote_if_better env dmin tmax run s = (Inr True, s') \<and> mo_reg s' = r"
  using assms by (simp add: promote_if_better_def current_production_def transition_to_def push_ml_metrics_def)

text \<open>A run registered only under another model moves the version of that number of the ranker.\<close>

lemma foreign_version_promoted:
  assumes "pm_versions env run = Inr (v # vs)" "\<forall>w \<in> set (v # vs). mv_name w \<noteq> MODEL_NAME"
  shows "find_version_for_run env run MODEL_NAME = Inr (Some v) \<and> mv_name v \<noteq> MODEL_NAME"
proof -
  have "find (\<lambda>w. mv_name w = MODEL_NAME) (v # vs) = None" using assms(2) by (simp only: find_None_iff) blast
  then show ?thesis using assms by (simp add: find_version_for_run_def)
qed

text \<open>The comparison of fingerprints is never made.\<close>

lemma fingerprints_never_compared:
  "pm_quantiles env new_run = None \<or> pm_quantiles env prod_run = None \<Longrightarrow> drift env new_run prod_run psi = None"
  by (auto simp: drift_def load_fingerprint_def frame_empty_def split: option.splits list.splits)


section \<open>Exactly one model in production\<close>

text \<open>The documented effect of a transition that archives: of the model's versions the one named is in
  production and no other (\<open>stage\<close> reads the stage of a version).\<close>

definition archives_others :: "('r \<Rightarrow> string \<Rightarrow> string) \<Rightarrow> 'r promo_env \<Rightarrow> bool" where
  "archives_others stage env = (\<forall>v r r'. pm_transition env MODEL_NAME v True r = Inr r' \<longrightarrow>
     (\<forall>w. stage r' w = ''Production'' \<longleftrightarrow> w = v))"

text \<open>A rollback that reports a version has put exactly that version into production, and it was one of
  the archived versions with the highest number.\<close>

theorem rollback_restores_one:
  assumes "archives_others stage env" "rollback_to_previous env number s = (Inr (Some v), s')"
  shows "(\<forall>w. stage (mo_reg s') w = ''Production'' \<longleftrightarrow> w = v) \<and>
    (\<exists>vs m. pm_latest env ''Archived'' (mo_reg s) = Inr vs \<and> m \<in> set vs \<and> mv_version m = v \<and>
      (\<forall>w \<in> set vs. number (mv_version w) \<le> number v))"
proof -
  obtain vs m ms where m: "pm_latest env ''Archived'' (mo_reg s) = Inr vs"
      "sort_key (\<lambda>v. - number (mv_version v)) vs = m # ms" "mv_version m = v"
      "pm_transition env MODEL_NAME v True (mo_reg s) = Inr (mo_reg s')"
    using assms(2) by (auto simp: rollback_to_previous_def split: sum.splits list.splits)
  have set: "set vs = set (m # ms)" by (metis m(2) set_sort)
  have "sorted (map (\<lambda>v. - number (mv_version v)) (m # ms))" by (metis m(2) sorted_sort_key)
  then have "\<forall>w \<in> set vs. number (mv_version w) \<le> number v" using m(3) unfolding set by auto
  moreover have "m \<in> set vs" by (simp add: set)
  ultimately show ?thesis using assms(1) m unfolding archives_others_def by blast
qed

section \<open>Instances\<close>

text \<open>A registry of two versions of the ranker: the list of those in production.\<close>

definition sample_promo :: "string list promo_env" where
  "sample_promo = \<lparr>
     pm_run = (\<lambda>r. Inr [(METRIC_KEY, if r = ''new'' then 3 / 4 else 1 / 2)]),
     pm_versions = (\<lambda>r. Inr [\<lparr>mv_name = MODEL_NAME, mv_version = ''2'', mv_run = r\<rparr>]),
     pm_latest = (\<lambda>st r. Inr (if st = ''Production'' then map (\<lambda>v. \<lparr>mv_name = MODEL_NAME, mv_version = v, mv_run = ''old''\<rparr>) r
        else [\<lparr>mv_name = MODEL_NAME, mv_version = ''1'', mv_run = ''old''\<rparr>])),
     pm_transition = (\<lambda>nm v b r. Inr (if b then [v] else v # r)),
     pm_quantiles = (\<lambda>_. Some [(''f'', [0, 1])]), pm_columns = (\<lambda>_. None), pm_psi = (\<lambda>_ _. 1 / 8)\<rparr>"

lemma sample_promotes:
  "promote_if_better sample_promo (1 / 8) (1 / 5) ''new'' \<lparr>mo_reg = [''1''], mo_pushed = []\<rparr> =
     (Inr True, \<lparr>mo_reg = [''2''], mo_pushed = [\<lparr>pu_psi = Some (1 / 8), pu_promoted = True, pu_version = Some ''2''\<rparr>]\<rparr>)"
proof -
  have "fl (1 / 4) = 1 / 4" by (rule fl_exact [of _ 1 "-2"]) (simp_all add: pow2_def)
  then show ?thesis
    by (simp add: promote_if_better_def sample_promo_def find_version_for_run_def current_production_def drift_def
        compute_psi_per_feature_from_quantiles_def map_filter_def max_psi_def transition_to_def push_ml_metrics_def)
      (rule exI [of _ "1 / 8"], simp)
qed

theorem promotion_presupposes_witness:
  "\<exists>m a. pm_run sample_promo ''new'' = Inr m \<and> map_of m METRIC_KEY = Some a \<and> 1 / 8 \<le> fl (a - 1 / 2)"
proof -
  have c: "current_production sample_promo (mo_reg \<lparr>mo_reg = [''1''], mo_pushed = []\<rparr>) =
      Some \<lparr>mv_name = MODEL_NAME, mv_version = ''1'', mv_run = ''old''\<rparr>"
    by (simp add: current_production_def sample_promo_def)
  have r: "pm_run sample_promo ''old'' = Inr [(METRIC_KEY, 1 / 2)]" by (simp add: sample_promo_def)
  have e: "map_of [(METRIC_KEY, 1 / 2 :: real)] METRIC_KEY = Some (1 / 2)" by simp
  show ?thesis using promotion_presupposes [OF sample_promotes c] r e by fastforce
qed

theorem unpromoted_leaves_registry_witness:
  "mo_reg (snd (promote_if_better sample_promo (1 / 8) (1 / 5) ''old'' \<lparr>mo_reg = [''1''], mo_pushed = []\<rparr>)) = [''1'']"
proof -
  obtain x s' where p: "promote_if_better sample_promo (1 / 8) (1 / 5) ''old'' \<lparr>mo_reg = [''1''], mo_pushed = []\<rparr> = (x, s')"
    by fastforce
  moreover have "x = Inr False"
    using p by (simp add: promote_if_better_def sample_promo_def find_version_for_run_def current_production_def)
  ultimately show ?thesis using unpromoted_leaves_registry [OF p] by simp
qed

theorem rollback_restores_one_witness:
  "\<forall>w. w \<in> set (mo_reg (snd (rollback_to_previous sample_promo (\<lambda>v. int (length v)) \<lparr>mo_reg = [''2''], mo_pushed = []\<rparr>))) \<longleftrightarrow> w = ''1''"
proof -
  let ?stage = "\<lambda>r w. if w \<in> set r then ''Production'' else ''Archived''"
  have a: "archives_others ?stage sample_promo" by (simp add: archives_others_def sample_promo_def)
  have r: "rollback_to_previous sample_promo (\<lambda>v. int (length v)) \<lparr>mo_reg = [''2''], mo_pushed = []\<rparr> =
      (Inr (Some ''1''), \<lparr>mo_reg = [''1''], mo_pushed = []\<rparr>)"
    by (simp add: rollback_to_previous_def sample_promo_def)
  show ?thesis using rollback_restores_one [OF a r] by (simp add: r split: if_splits)
qed

end
