(* ===== verification/Simulator.thy ===== *)
theory Simulator
  imports EtlValidator Listener Float64
begin

text \<open>
  The transaction simulator (\<^verbatim>\<open>services/tx_simulator/app/simulator.py\<close>): profiles of clients, the built
  transactions, the times of a backfill, pacing, publication with its delivery reports and the commands
  \<^verbatim>\<open>init-users\<close> and \<^verbatim>\<open>ensure-topic\<close>; and what the two consumers of the topic make of a simulated
  transaction.

  What the generators of numpy, Faker and \<^verbatim>\<open>uuid4\<close> return are draws handed to the operations. Parameters:
  \<^verbatim>\<open>Decimal(str(v))\<close> of a float (\<open>si_dec\<close>), \<^verbatim>\<open>isoformat(timespec="seconds")\<close> of an instant (\<open>si_iso\<close>), the
  answers of librdkafka and of the broker.
\<close>

section \<open>Distributions\<close>

definition TOP30_MCC :: "nat list" where
  "TOP30_MCC = [5411, 5812, 5814, 5541, 5499, 5912, 5311, 5651, 5732, 5942,
     5921, 5462, 4111, 4121, 4131, 4814, 4829, 4900, 7832, 7011,
     7299, 7211, 7230, 7538, 7995, 8011, 8021, 8062, 8099, 8211]"

definition HOUR_WEIGHTS :: "rat list" where
  "HOUR_WEIGHTS = map (\<lambda>n. fl (of_nat n / 100))
     [10, 5, 5, 5, 5, 5, 10, 30, 50, 60, 70, 90, 150, 150, 130, 80, 80, 90, 180, 180, 180, 150, 90, 40]"

definition hour_dow_weight :: "nat \<Rightarrow> nat \<Rightarrow> rat" where
  "hour_dow_weight hour dow =
     (let base = HOUR_WEIGHTS ! hour in if dow \<in> {4, 5} \<and> 17 \<le> hour \<and> hour \<le> 23 then fl (base * (3 / 2)) else base)"

definition CHANNELS :: "string list" where
  "CHANNELS = [''ONLINE'', ''POS'', ''ATM'', ''MOBILE'']"

definition channel_probs :: "nat \<Rightarrow> rat list" where
  "channel_probs mcc = map fl
    (if mcc = 5411 then [20 / 100, 65 / 100, 2 / 100, 13 / 100]
     else if mcc \<in> {4111, 4121, 4131} then [40 / 100, 10 / 100, 0, 50 / 100]
     else if mcc = 4900 then [70 / 100, 5 / 100, 0, 25 / 100]
     else [30 / 100, 45 / 100, 5 / 100, 20 / 100])"

definition sample_channel :: "nat \<Rightarrow> string" where
  "sample_channel draw = CHANNELS ! draw"

text \<open>The context of \<^verbatim>\<open>decimal\<close>: 28 significant digits, halves to even; \<^verbatim>\<open>quantize\<close> to cents, halves away
  from zero, refuses a result of more digits.\<close>

definition leading_place :: "rat \<Rightarrow> int" where
  "leading_place x = (let (p, q) = quotient_of \<bar>x\<bar>;
      e = int (length (nat_text (nat p))) - int (length (nat_text (nat q))) in
    if \<bar>x\<bar> < ten_to e then e - 1 else e)"

definition dec_context :: "rat \<Rightarrow> rat" where
  "dec_context x = (if x = 0 then 0 else let u = ten_to (leading_place x - 27) in of_int (half_even (x / u)) * u)"

definition quantize_cents :: "rat \<Rightarrow> exn + rat" where
  "quantize_cents x = (if 10 ^ 26 \<le> \<bar>pg_round 2 x\<bar> then Inl (py_error ''InvalidOperation'') else Inr (pg_round 2 x))"

section \<open>Profiles\<close>

record profile =
  pf_user :: uuid
  pf_external :: string
  pf_segment :: int
  pf_favourites :: "nat list"
  pf_ticket :: rat
  pf_freq :: rat

record profile_draws =
  pd_uuid :: uuid
  pd_segment :: int
  pd_favourites :: "nat list"
  pd_ticket :: rat
  pd_gamma :: rat

definition zero_padded :: "nat \<Rightarrow> nat \<Rightarrow> string" where
  "zero_padded k n = replicate (k - length (nat_text n)) CHR ''0'' @ nat_text n"

definition generate_profile :: "nat \<Rightarrow> profile_draws \<Rightarrow> profile" where
  "generate_profile idx dr =
     \<lparr>pf_user = pd_uuid dr, pf_external = ''sim_'' @ zero_padded 8 idx, pf_segment = pd_segment dr,
      pf_favourites = map (\<lambda>i. TOP30_MCC ! i) (pd_favourites dr), pf_ticket = pd_ticket dr,
      pf_freq = min (max (pd_gamma dr) (fl (2 / 10))) 12\<rparr>"

text \<open>The weights of the codes for a client before numpy divides them by their sum; \<open>base\<close> is
  \<^verbatim>\<open>MCC_BASE_PROBS\<close>.\<close>

definition user_mcc_weights :: "rat list \<Rightarrow> profile \<Rightarrow> rat list" where
  "user_mcc_weights base p = map (\<lambda>(code, w). if code \<in> set (pf_favourites p) then fl (w * 3) else w) (zip TOP30_MCC base)"

section \<open>One transaction\<close>

record sim_env =
  si_dec :: "rat \<Rightarrow> rat"
  si_iso :: "time \<Rightarrow> string"

record tx_draws =
  dr_code :: nat
  dr_lognormal :: rat
  dr_channel :: nat
  dr_tx :: uuid
  dr_random :: rat
  dr_bothify :: string

definition sample_amount :: "sim_env \<Rightarrow> rat \<Rightarrow> exn + rat" where
  "sample_amount env drawn = quantize_cents (si_dec env (max drawn 1))"

definition personal_amount :: "sim_env \<Rightarrow> profile \<Rightarrow> tx_draws \<Rightarrow> exn + rat" where
  "personal_amount env p dr =
    (case sample_amount env (dr_lognormal dr) of
       Inl e \<Rightarrow> Inl e
     | Inr amount \<Rightarrow> quantize_cents (dec_context (amount * si_dec env (fl (pf_ticket p / 900)))))"

text \<open>\<^verbatim>\<open>str\<close> of a decimal with two fraction digits that is not negative.\<close>

definition cents_text :: "nat \<Rightarrow> string" where
  "cents_text k = nat_text (k div 100) @ ''.'' @ nat_text (k mod 100 div 10) @ nat_text (k mod 10)"

definition build_transaction :: "sim_env \<Rightarrow> profile \<Rightarrow> time \<Rightarrow> tx_draws \<Rightarrow> exn + row" where
  "build_transaction env p ts dr =
    (case personal_amount env p dr of
       Inl e \<Rightarrow> Inl e
     | Inr amount \<Rightarrow>
        Inr [(''transaction_id'', JStr (uuid_text (dr_tx dr))), (''user_id'', JStr (uuid_text (pf_user p))),
          (''mcc_code'', JStr (zero_padded 4 (TOP30_MCC ! dr_code dr))), (''amount'', JStr (cents_text (nat \<lfloor>amount * 100\<rfloor>))),
          (''currency'', JStr ''RUB''), (''transaction_date'', JStr (si_iso env ts)),
          (''channel'', JStr (sample_channel (dr_channel dr))),
          (''merchant_id'', if fl (5 / 100) < dr_random dr then JStr (dr_bothify dr) else JNull), (''metadata'', JNull)])"

section \<open>The times of a backfill\<close>

text \<open>Monday is 0; the epoch was a Thursday.\<close>

definition weekday :: "time \<Rightarrow> nat" where
  "weekday ts = nat ((ts div day_us + 3) mod 7)"

definition replace_hms :: "time \<Rightarrow> nat \<times> nat \<times> nat \<Rightarrow> time" where
  "replace_hms ts hms = (case hms of (h, m, s) \<Rightarrow>
     floor_day ts + int h * hour_us + int m * 60 * second_us + int s * second_us + ts mod second_us)"

text \<open>Whether the draws of a time are possible: an hour of positive weight, a minute, a second.\<close>

definition hms_ok :: "nat \<Rightarrow> nat \<times> nat \<times> nat \<Rightarrow> bool" where
  "hms_ok dow hms = (case hms of (h, m, s) \<Rightarrow> h < 24 \<and> m < 60 \<and> s < 60 \<and> 0 < hour_dow_weight h dow)"

text \<open>One client: as many offsets (in microseconds, at most the span) as \<^verbatim>\<open>rng.poisson\<close> said, sorted, each with
  its hour, minute and second and the draws of its transaction.\<close>

record backfill_draws =
  bd_offsets :: "int list"
  bd_rest :: "((nat \<times> nat \<times> nat) \<times> tx_draws) list"

definition backfill_times :: "time \<Rightarrow> int \<Rightarrow> backfill_draws \<Rightarrow> time list" where
  "backfill_times now days bd =
     map2 (\<lambda>d r. replace_hms (floor_second now - days * day_us + d) (fst r)) (sort (bd_offsets bd)) (bd_rest bd)"

text \<open>The generator, as the list of what it yields or raises.\<close>

definition backfill_events :: "sim_env \<Rightarrow> time \<Rightarrow> int \<Rightarrow> (profile \<times> backfill_draws) list \<Rightarrow> (exn + row) list" where
  "backfill_events env now days ps = concat (map (\<lambda>(p, bd).
     map2 (\<lambda>ts r. build_transaction env p ts (snd r)) (backfill_times now days bd) (bd_rest bd)) ps)"

section \<open>Pacing and publication\<close>

text \<open>\<^verbatim>\<open>RateLimiter\<close>: the interval, and \<open>next\<close> with the instant at which \<^verbatim>\<open>wait\<close> was called.\<close>

definition limiter_interval :: "rat \<Rightarrow> rat" where
  "limiter_interval rate = (if 0 < rate then fl (1 / rate) else 0)"

text \<open>What \<^verbatim>\<open>wait\<close> leaves: the earliest instant at which it has returned and the new \<open>next\<close>.\<close>

definition limiter_wait :: "rat \<Rightarrow> rat \<Rightarrow> rat \<Rightarrow> rat \<times> rat" where
  "limiter_wait interval now nxt =
    (if interval \<le> 0 then (now, nxt) else (max now nxt, fl (max now nxt + interval)))"

datatype produced = Queued | BufferFull | Refused exn

text \<open>\<^verbatim>\<open>publish\<close>: the loop around \<^verbatim>\<open>produce\<close>, attempt by attempt.\<close>

partial_function (option) publish_row :: "(nat \<Rightarrow> produced) \<Rightarrow> nat \<Rightarrow> (exn + unit) option" where
  "publish_row answers i =
    (case answers i of
       Queued \<Rightarrow> Some (Inr ())
     | Refused e \<Rightarrow> Some (Inl e)
     | BufferFull \<Rightarrow> publish_row answers (Suc i))"

text \<open>\<^verbatim>\<open>stream_events\<close>: the rows handed to the producer; the outcome is \<open>None\<close> when a publication never ends. The
  reports are those that came before \<^verbatim>\<open>flush\<close> gave up: delivered, failed, or none at all.\<close>

fun publish_all :: "(nat \<Rightarrow> nat \<Rightarrow> produced) \<Rightarrow> nat \<Rightarrow> (exn + row) list \<Rightarrow> row list \<times> (exn + unit) option" where
  "publish_all answers k [] = ([], Some (Inr ()))"
| "publish_all answers k (Inl e # evs) = ([], Some (Inl e))"
| "publish_all answers k (Inr r # evs) =
    (case publish_row (answers k) 0 of
       None \<Rightarrow> ([], None)
     | Some (Inl e) \<Rightarrow> ([], Some (Inl e))
     | Some (Inr _) \<Rightarrow> (let (rs, res) = publish_all answers (Suc k) evs in (r # rs, res)))"

definition stream_events ::
  "(nat \<Rightarrow> nat \<Rightarrow> produced) \<Rightarrow> (nat \<Rightarrow> bool option) \<Rightarrow> (exn + row) list \<Rightarrow> row list \<times> (exn + nat \<times> nat) option" where
  "stream_events answers report_of evs =
    (let (rs, res) = publish_all answers 0 evs in
     (rs, case res of
        None \<Rightarrow> None
      | Some (Inl e) \<Rightarrow> Some (Inl e)
      | Some (Inr _) \<Rightarrow> Some (Inr (length (filter (\<lambda>k. report_of k = Some True) [0..<length rs]),
          length (filter (\<lambda>k. report_of k = Some False) [0..<length rs])))))"

section \<open>Commands\<close>

text \<open>\<^verbatim>\<open>INSERT \<dots> ON CONFLICT (external_id) DO NOTHING\<close>; a taken \<^verbatim>\<open>user_id\<close> is an error that rolls back.\<close>

fun insert_users :: "profile list \<Rightarrow> user_row list \<Rightarrow> exn + user_row list" where
  "insert_users [] us = Inr us"
| "insert_users (p # ps) us =
    (if pf_external p \<in> us_external ` set us then insert_users ps us
     else if pf_user p \<in> us_id ` set us then Inl (pg_error ''23505'')
     else insert_users ps (us @ [\<lparr>us_id = pf_user p, us_external = pf_external p, us_segment = Some (pf_segment p), us_rfm = None\<rparr>]))"

record sim_sys =
  ss_users :: "user_row list"
  ss_file :: "profile list option"

definition init_users :: "bool \<Rightarrow> profile_draws list \<Rightarrow> sim_sys \<Rightarrow> (exn + unit) \<times> sim_sys" where
  "init_users skip_postgres drs s =
    (let ps = map2 generate_profile [0..<length drs] drs in
     if skip_postgres then (Inr (), s\<lparr>ss_file := Some ps\<rparr>)
     else case insert_users ps (ss_users s) of
       Inl e \<Rightarrow> (Inl e, s)
     | Inr us \<Rightarrow> (Inr (), \<lparr>ss_users = us, ss_file = Some ps\<rparr>))"

datatype created = Created | AlreadyExists | CreateFailed exn

text \<open>\<^verbatim>\<open>ensure_topic\<close>: the configuration the topic has afterwards; altering is best effort.\<close>

definition TOPIC_CONFIG :: "(string \<times> string) list" where
  "TOPIC_CONFIG = [(''retention.ms'', ''604800000''), (''compression.type'', ''zstd''), (''max.message.bytes'', ''1048576'')]"

definition ensure_topic :: "created \<Rightarrow> bool \<Rightarrow> (string \<times> string) list option \<Rightarrow> (exn + unit) \<times> (string \<times> string) list option" where
  "ensure_topic answer altered topic =
    (case answer of
       Created \<Rightarrow> (Inr (), Some TOPIC_CONFIG)
     | AlreadyExists \<Rightarrow> (Inr (), if altered then Some TOPIC_CONFIG else topic)
     | CreateFailed e \<Rightarrow> (Inl e, topic))"


section \<open>Texts\<close>

lemma length_nat_text_digit: "n < 10 \<Longrightarrow> length (nat_text n) = 1"
  by (simp add: nat_text.simps)

lemma length_nat_text_le: "n < 10 ^ Suc k \<Longrightarrow> length (nat_text n) \<le> Suc k"
proof (induction k arbitrary: n)
  case 0
  then show ?case by (simp add: length_nat_text_digit)
next
  case (Suc k)
  show ?case
  proof (cases "n < 10")
    case True
    then show ?thesis by (simp add: length_nat_text_digit)
  next
    case False
    have "n div 10 < 10 ^ Suc k" using Suc.prems by (simp add: div_less_iff_less_mult)
    then show ?thesis using Suc.IH [of "n div 10"] False by (simp add: nat_text.simps [of n])
  qed
qed

lemma nat_text_length_gt: "10 ^ k \<le> n \<Longrightarrow> k < length (nat_text n)"
proof (induction k arbitrary: n)
  case 0
  then show ?case using nat_text_digits [of n] by simp
next
  case (Suc k)
  have "10 ^ Suc k \<le> n" by (rule Suc.prems)
  then have "10 ^ k \<le> n div 10" by (simp add: less_eq_div_iff_mult_less_eq mult.commute)
  moreover have "\<not> n < 10" using Suc.prems by (auto simp: not_less intro: order_trans [of 10 "10 ^ Suc k"])
  ultimately show ?case using Suc.IH [of "n div 10"] by (simp add: nat_text.simps [of n])
qed

lemma zero_padded_four: "1000 \<le> n \<Longrightarrow> n < 10000 \<Longrightarrow> zero_padded 4 n = nat_text n"
  using nat_text_length_gt [of 3 n] by (simp add: zero_padded_def)

lemma nat_text_takeWhile:
  "takeWhile is_digit (nat_text n @ ''.'' @ r) = nat_text n" "dropWhile is_digit (nat_text n @ ''.'' @ r) = ''.'' @ r"
  using nat_text_digits [of n] by (auto simp: list_all_iff is_digit_def takeWhile_append2 dropWhile_append2)

lemma fraction_digits:
  "list_all is_digit (nat_text (k mod 100 div 10) @ nat_text (k mod 10))"
  "length (nat_text (k mod 100 div 10) @ nat_text (k mod 10)) = 2"
proof -
  have "k mod 100 div 10 < 10" "k mod 10 < 10" by (auto simp: div_less_iff_less_mult)
  then show "length (nat_text (k mod 100 div 10) @ nat_text (k mod 10)) = 2"
    by (simp add: length_nat_text_digit)
  show "list_all is_digit (nat_text (k mod 100 div 10) @ nat_text (k mod 10))"
    using nat_text_digits by simp
qed

lemma cents_text_shape: "amount_shape (cents_text k) \<longleftrightarrow> k < 10 ^ 15"
proof -
  have "length (nat_text (k div 100)) \<le> 13 \<longleftrightarrow> k div 100 < 10 ^ 13"
    using length_nat_text_le [of "k div 100" 12] nat_text_length_gt [of 13 "k div 100"]
    by (cases "k div 100 < 10 ^ 13") (simp_all add: not_less)
  moreover have "k div 100 < 10 ^ 13 \<longleftrightarrow> k < 10 ^ 15" by (simp add: div_less_iff_less_mult)
  moreover have "1 \<le> length (nat_text (k div 100))" using nat_text_digits [of "k div 100"] by (simp add: Suc_le_eq)
  ultimately show ?thesis
    unfolding amount_shape_def cents_text_def Let_def nat_text_takeWhile using fraction_digits [of k] by simp
qed

lemma digits_nat_append: "digits_nat (xs @ [c, d]) = 100 * digits_nat xs + 10 * digit_value c + digit_value d"
  by (simp add: digits_nat_def)

lemma digit_text: "n < 10 \<Longrightarrow> nat_text n = [char_of (48 + n)] \<and> digit_value (char_of (48 + n)) = n"
  using digit_char [of n] by (simp add: nat_text.simps)


lemma cents_split: "100 * (k div 100) + 10 * (k mod 100 div 10) + k mod 10 = k" for k :: nat
proof -
  have "k mod 10 = k mod 100 mod 10" by (simp add: mod_mod_cancel)
  then have "10 * (k mod 100 div 10) + k mod 10 = k mod 100" by (simp add: mult_div_mod_eq)
  then show ?thesis using mult_div_mod_eq [of 100 k] by linarith
qed

lemma cents_text_value: "k < 10 ^ 15 \<Longrightarrow> parse_decimal (cents_text k) = Some (Finite (of_nat k / 100))"
proof -
  assume k: "k < 10 ^ 15"
  let ?ip = "nat_text (k div 100)" and ?fp = "nat_text (k mod 100 div 10) @ nat_text (k mod 10)"
  have small: "k mod 100 div 10 < 10" "k mod 10 < 10" by (auto simp: div_less_iff_less_mult)
  have "k div 100 < 10 ^ Suc 12" using k by (simp add: div_less_iff_less_mult)
  then have len: "length ?ip \<le> 13" using length_nat_text_le [of "k div 100" 12] by simp
  have "parse_decimal (cents_text k) = Some (Finite (of_nat (digits_nat (?ip @ ?fp) * 10 ^ (2 - length ?fp)) / 100))"
    using nat_text_digits [of "k div 100"] fraction_digits [of k] len
    by (intro amount_parts_value) (auto simp: cents_text_def)
  moreover have "digits_nat (?ip @ ?fp) = 100 * (k div 100) + 10 * (k mod 100 div 10) + k mod 10"
    using digit_text [OF small(1)] digit_text [OF small(2)] nat_text_digits [of "k div 100"]
    by (simp add: digits_nat_append)
  moreover have "100 * (k div 100) + 10 * (k mod 100 div 10) + k mod 10 = k" by (rule cents_split)
  ultimately show ?thesis using fraction_digits(2) [of k] by simp
qed

lemma hex_fixed_values: "i < n \<Longrightarrow> hex_value (hex_fixed n u ! i) \<noteq> None"
proof -
  assume "i < n"
  then have "hex_fixed n u ! i \<in> hex_lower" using set_hex_fixed [of n u] nth_mem [of i "hex_fixed n u"] by auto
  then show ?thesis by (auto simp: hex_lower_def hex_value_def Let_def)
qed

lemma uuid_text_shape: "uuid_shape (uuid_text u)"
proof -
  define h where "h = hex_fixed 32 u"
  have len: "length h = 32" by (simp add: h_def)
  have v: "hex_value (h ! i) \<noteq> None" if "i < 32" for i using hex_fixed_values [OF that] by (simp add: h_def)
  have "uuid_text u ! i = CHR ''-''" if "i \<in> {8, 13, 18, 23}" for i
    using that len by (auto simp: uuid_text_def uuid_dashes_def h_def [symmetric] nth_append)
  moreover have "hex_value (uuid_text u ! i) \<noteq> None" if "i < 36" "i \<notin> {8, 13, 18, 23}" for i
    using that len v
    by (auto simp: uuid_text_def uuid_dashes_def h_def [symmetric] nth_append not_less)
  ultimately show ?thesis using len
    by (auto simp: uuid_shape_def list_all_iff uuid_text_def uuid_dashes_def h_def [symmetric])
qed


section \<open>What the consumers make of a simulated transaction\<close>

text \<open>The documented behaviour the simulator relies on: \<^verbatim>\<open>fromisoformat\<close> reads back what \<^verbatim>\<open>isoformat\<close> prints, to
  the second and with its offset, and the text of a float denotes a number that rounds to it.\<close>

definition sim_ok :: "(string \<Rightarrow> iso_result) \<Rightarrow> sim_env \<Rightarrow> bool" where
  "sim_ok rd env = ((\<forall>t. rd (replace_all ''Z'' ''+00:00'' (si_iso env t)) = IsoAware (floor_second t) \<and>
       py_strip (si_iso env t) = si_iso env t \<and> si_iso env t \<noteq> []) \<and>
     (\<forall>v. fl (si_dec env (fl v)) = fl v) \<and> si_dec env 0 = 0)"

definition draws_ok :: "profile \<Rightarrow> tx_draws \<Rightarrow> bool" where
  "draws_ok p dr = (dr_code dr < 30 \<and> fl (dr_lognormal dr) = dr_lognormal dr \<and> 0 \<le> pf_ticket p \<and>
     dr_channel dr < 4 \<and> 0 < channel_probs (TOP30_MCC ! dr_code dr) ! dr_channel dr)"

lemma si_dec_nonneg:
  assumes "sim_ok rd env" "0 \<le> fl v"
  shows "0 \<le> si_dec env (fl v)"
proof (cases "fl v = 0")
  case True
  then show ?thesis using assms(1) by (simp add: sim_ok_def)
next
  case False
  have "fl (si_dec env (fl v)) = fl v" using assms(1) by (simp add: sim_ok_def)
  then show ?thesis using False assms(2) fl_mono_all [of "si_dec env (fl v)" 0] by (cases "0 \<le> si_dec env (fl v)") auto
qed

lemma ten_to_pos: "0 < ten_to e"
  by (simp add: ten_to_def)

lemma dec_context_nonneg: "0 \<le> x \<Longrightarrow> 0 \<le> dec_context x"
  using ten_to_pos [of "leading_place x - 27"]
  by (auto simp: dec_context_def Let_def intro!: mult_nonneg_nonneg half_even_nonneg divide_nonneg_pos)

lemma quantize_cents_nat:
  assumes "0 \<le> x" "quantize_cents x = Inr a"
  shows "\<exists>k::nat. a = of_nat k / 100 \<and> k < 10 ^ 28"
proof -
  have r: "a = pg_round 2 x" "\<bar>a\<bar> < 10 ^ 26"
    using assms(2) by (auto simp: quantize_cents_def not_le simp del: power_numeral split: if_splits)
  have a: "a = of_int \<lfloor>x * 100 + 1 / 2\<rfloor> / 100" using assms(1) by (simp add: r pg_round_def)
  define k where "k = nat \<lfloor>x * 100 + 1 / 2\<rfloor>"
  have "0 \<le> \<lfloor>x * 100 + 1 / 2\<rfloor>" using assms(1) by simp
  then have k: "a = of_nat k / 100" using a by (simp add: k_def)
  then have "rat_of_nat k < rat_of_nat (10 ^ 28)" using r(2) by (simp add: field_simps)
  then show ?thesis using k by (auto simp only: of_nat_less_iff)
qed

lemma personal_amount_cents:
  assumes "sim_ok rd env" "draws_ok p dr" "personal_amount env p dr = Inr a"
  shows "\<exists>k::nat. a = of_nat k / 100 \<and> k < 10 ^ 28"
proof -
  obtain a0 where a0: "sample_amount env (dr_lognormal dr) = Inr a0"
      and a: "quantize_cents (dec_context (a0 * si_dec env (fl (pf_ticket p / 900)))) = Inr a"
    using assms(3) by (auto simp: personal_amount_def split: sum.splits)
  have "fl (max (dr_lognormal dr) 1) = max (dr_lognormal dr) 1" using assms(2) by (auto simp: draws_ok_def max_def)
  then have "0 \<le> si_dec env (max (dr_lognormal dr) 1)" using si_dec_nonneg [OF assms(1), of "max (dr_lognormal dr) 1"] by simp
  then obtain k0 :: nat where "a0 = of_nat k0 / 100"
    using quantize_cents_nat [OF _ a0 [unfolded sample_amount_def]] by blast
  moreover have "0 \<le> fl (pf_ticket p / 900)"
    using assms(2) fl_mono_all [of 0 "pf_ticket p / 900"] by (simp add: draws_ok_def)
  then have "0 \<le> si_dec env (fl (pf_ticket p / 900))" by (rule si_dec_nonneg [OF assms(1)])
  ultimately have "0 \<le> dec_context (a0 * si_dec env (fl (pf_ticket p / 900)))"
    by (intro dec_context_nonneg mult_nonneg_nonneg) simp_all
  then show ?thesis using a by (rule quantize_cents_nat)
qed

lemma code_texts: "map nat_text TOP30_MCC =
    [''5411'', ''5812'', ''5814'', ''5541'', ''5499'', ''5912'', ''5311'', ''5651'', ''5732'', ''5942'', 
     ''5921'', ''5462'', ''4111'', ''4121'', ''4131'', ''4814'', ''4829'', ''4900'', ''7832'', ''7011'', 
     ''7299'', ''7211'', ''7230'', ''7538'', ''7995'', ''8011'', ''8021'', ''8062'', ''8099'', ''8211'']"
  by (simp add: TOP30_MCC_def nat_text.simps char_of_def bit_Suc_0_iff)

lemma registered_texts:
  "map (\<lambda>s. s \<in> set MCC_REGISTRY) (map nat_text TOP30_MCC) = map (\<lambda>c. c \<noteq> 7538) TOP30_MCC"
  unfolding code_texts by (simp add: TOP30_MCC_def MCC_REGISTRY_def)

lemma registered_codes: "list_all (\<lambda>c. 1000 \<le> c \<and> c < 10000 \<and> (nat_text c \<in> set MCC_REGISTRY \<longleftrightarrow> c \<noteq> 7538)) TOP30_MCC"
proof -
  have "list_all (\<lambda>c. 1000 \<le> c \<and> c < 10000) TOP30_MCC" by (simp add: TOP30_MCC_def)
  then show ?thesis using registered_texts by (simp add: list_all_iff)
qed

lemma code_cases:
  assumes "n < 30"
  shows "zero_padded 4 (TOP30_MCC ! n) = nat_text (TOP30_MCC ! n)" "length (nat_text (TOP30_MCC ! n)) = 4"
    "nat_text (TOP30_MCC ! n) \<in> set MCC_REGISTRY \<longleftrightarrow> TOP30_MCC ! n \<noteq> 7538"
proof -
  have "TOP30_MCC ! n \<in> set TOP30_MCC" using assms by (intro nth_mem) (simp add: TOP30_MCC_def)
  then have c: "1000 \<le> TOP30_MCC ! n" "TOP30_MCC ! n < 10000"
      "nat_text (TOP30_MCC ! n) \<in> set MCC_REGISTRY \<longleftrightarrow> TOP30_MCC ! n \<noteq> 7538"
    using registered_codes by (auto simp: list_all_iff)
  show "zero_padded 4 (TOP30_MCC ! n) = nat_text (TOP30_MCC ! n)" using c by (intro zero_padded_four)
  show "length (nat_text (TOP30_MCC ! n)) = 4"
    using nat_text_length_gt [of 3 "TOP30_MCC ! n"] length_nat_text_le [of "TOP30_MCC ! n" 3] c by simp
  show "nat_text (TOP30_MCC ! n) \<in> set MCC_REGISTRY \<longleftrightarrow> TOP30_MCC ! n \<noteq> 7538" by (rule c)
qed


lemma cents_text_strip: "py_strip (cents_text k) = cents_text k" "cents_text k \<noteq> []"
proof -
  have c: "c \<in> set (cents_text k) \<Longrightarrow> is_digit c \<or> c = CHR ''.''" for c
    using nat_text_digits [of "k div 100"] fraction_digits [of k] by (auto simp: cents_text_def list_all_iff)
  show ne: "cents_text k \<noteq> []" by (simp add: cents_text_def)
  show "py_strip (cents_text k) = cents_text k"
    using c [OF hd_in_set [OF ne]] c [OF last_in_set [OF ne]] digit_plain
    by (intro strip_by_id) (auto simp: py_space_def)
qed

lemma uuid_text_strip: "py_strip (uuid_text u) = uuid_text u" "uuid_text u \<noteq> []"
proof -
  have c: "\<not> py_space c" if "c \<in> set (uuid_text u)" for c
    using uuid_shape_chars [OF uuid_text_shape that] by (auto simp: hex_value_def py_space_def Let_def split: if_splits)
  have "length (uuid_text u) = 36" using uuid_text_shape [of u] unfolding uuid_shape_def by blast
  then show ne: "uuid_text u \<noteq> []" by (metis list.size(3) zero_neq_numeral)
  show "py_strip (uuid_text u) = uuid_text u"
    using c [OF hd_in_set [OF ne]] c [OF last_in_set [OF ne]] by (intro strip_by_id) auto
qed

lemma cents_text_accepted:
  "amount_shape (cents_text k) \<and>
     (\<exists>j::nat. 0 < j \<and> j \<le> 10 ^ 9 \<and> parse_decimal (cents_text k) = Some (Finite (of_nat j / 100))) \<longleftrightarrow> 1 \<le> k \<and> k \<le> 10 ^ 9"
proof (cases "k < 10 ^ 15")
  case True
  then show ?thesis using cents_text_shape [of k] cents_text_value [OF True] by auto
next
  case False
  then have "\<not> k \<le> 10 ^ 9" by simp
  then show ?thesis using cents_text_shape [of k] False by blast
qed

lemma event_fields:
  assumes "build_transaction env p ts dr = Inr e" "personal_amount env p dr = Inr (of_nat k / 100)"
  shows "jget e ''transaction_id'' = JStr (uuid_text (dr_tx dr))" "jget e ''user_id'' = JStr (uuid_text (pf_user p))"
    "jget e ''mcc_code'' = JStr (zero_padded 4 (TOP30_MCC ! dr_code dr))" "jget e ''amount'' = JStr (cents_text k)"
    "jget e ''currency'' = JStr ''RUB''" "jget e ''transaction_date'' = JStr (si_iso env ts)"
    "jget e ''channel'' = JStr (sample_channel (dr_channel dr))"
  using assms by (auto simp: build_transaction_def jget_def members_def)

lemma channel_not_empty: "n < 4 \<Longrightarrow> sample_channel n \<noteq> []"
proof -
  assume "n < 4"
  then consider "n = 0" | "n = 1" | "n = 2" | "n = 3" by linarith
  then show ?thesis by cases (simp_all add: sample_channel_def CHANNELS_def)
qed


section \<open>When a backfill happens\<close>

lemma replace_hms_day:
  assumes "h < 24" "m < 60" "s < 60"
  shows "floor_day ts \<le> replace_hms ts (h, m, s) \<and> replace_hms ts (h, m, s) < floor_day ts + day_us"
proof -
  have "0 \<le> ts mod second_us" "ts mod second_us < second_us" by (simp_all add: second_us_def)
  moreover have "int h \<le> 23" "int m \<le> 59" "int s \<le> 59" using assms by simp_all
  ultimately show ?thesis by (simp add: replace_hms_def day_us_def hour_us_def second_us_def)
qed

text \<open>Every instant of a backfill lies between the first moment of the day \<open>days\<close> days ago and the end of the
  current day of UTC.\<close>

theorem backfill_stays_in_days:
  assumes "list_all (\<lambda>d. 0 \<le> d \<and> d \<le> days * day_us) (bd_offsets bd)"
    and "list_all (\<lambda>r. \<exists>dow. hms_ok dow (fst r)) (bd_rest bd)" and "t \<in> set (backfill_times now days bd)"
  shows "floor_day (floor_second now - days * day_us) \<le> t \<and> t < floor_day now + day_us"
proof -
  obtain d r where z: "(d, r) \<in> set (zip (sort (bd_offsets bd)) (bd_rest bd))"
      and t: "t = replace_hms (floor_second now - days * day_us + d) (fst r)"
    using assms(3) by (auto simp: backfill_times_def)
  have r: "d \<in> set (bd_offsets bd)" "r \<in> set (bd_rest bd)"
    using set_zip_leftD [OF z] set_zip_rightD [OF z] by simp_all
  let ?ts = "floor_second now - days * day_us + d"
  have d: "0 \<le> d" "d \<le> days * day_us" using assms(1) r(1) by (auto simp: list_all_iff)
  obtain h m s where hms: "fst r = (h, m, s)" "h < 24" "m < 60" "s < 60"
  proof -
    obtain h m s where f: "fst r = (h, m, s)" by (cases "fst r") auto
    obtain dow where "hms_ok dow (fst r)" using assms(2) r(2) unfolding list_all_iff by blast
    then show thesis using that f by (simp add: hms_ok_def)
  qed
  have "floor_day (floor_second now - days * day_us) \<le> floor_day ?ts" using d by (intro floor_day_mono) simp
  moreover have "floor_day ?ts \<le> floor_day now" using d floor_second_le [of now] by (intro floor_day_mono) linarith
  ultimately show ?thesis using replace_hms_day [OF hms(2,3,4), of ?ts] unfolding t hms(1) by linarith
qed

text \<open>The hour is drawn anew after the offset has chosen the instant, so on the last day it may lie ahead: at
  noon, an offset of a second before now and the hour 23 give an event eleven hours in the future,
  which the validator rejects.\<close>

definition noon_draws :: backfill_draws where
  "noon_draws = \<lparr>bd_offsets = [day_us - second_us], bd_rest = [((23, 0, 0), \<lparr>dr_code = 0, dr_lognormal = 1, dr_channel = 0,
     dr_tx = 5, dr_random = 0, dr_bothify = []\<rparr>)]\<rparr>"

lemma backfill_in_future:
  "backfill_times (12 * hour_us) 1 noon_draws = [23 * hour_us + 0]"
  "parse_date rd (jget r ''transaction_date'') = Some (23 * hour_us) \<Longrightarrow> py_truthy (jget r ''transaction_date'') \<Longrightarrow>
   ve_now venv i = 12 * hour_us \<Longrightarrow> ve_iso venv = rd \<Longrightarrow> check_timestamp venv i r = fails ''transaction_date is in the future''"
  by (simp_all add: backfill_times_def noon_draws_def replace_hms_def floor_day_def floor_second_def day_us_def hour_us_def
      second_us_def check_timestamp_def Let_def)

section \<open>Pacing\<close>

text \<open>Two calls in a row are at least the interval apart, whatever the clock says at the second one.\<close>

lemma limiter_spaces:
  assumes "0 < interval" "limiter_wait interval now nxt = (left, nxt')"
  shows "nxt \<le> left \<and> now \<le> left \<and> fl (left + interval) \<le> fst (limiter_wait interval now' nxt')"
  using assms by (auto simp: limiter_wait_def)

section \<open>Publication\<close>

lemma publish_returns: "answers (i + n) \<noteq> BufferFull \<Longrightarrow> \<exists>res. publish_row answers i = Some res"
proof (induction n arbitrary: i)
  case 0
  then show ?case by (subst publish_row.simps) (auto split: produced.split)
next
  case (Suc n)
  then have "\<exists>res. publish_row answers (Suc i) = Some res" by simp
  then show ?case by (subst publish_row.simps) (auto split: produced.split)
qed

lemma publish_all_returns:
  "list_all (\<lambda>j. \<exists>n. answers j n \<noteq> BufferFull) [k..<k + length evs] \<Longrightarrow> \<exists>res. snd (publish_all answers k evs) = Some res"
proof (induction answers k evs rule: publish_all.induct)
  case (3 answers k r evs)
  have free: "\<exists>n. answers j n \<noteq> BufferFull" if "k \<le> j" "j \<le> k + length evs" for j
    using "3.prems" that by (cases "j = k + length evs") (auto simp: list_all_iff)
  have k: "\<exists>n. answers k n \<noteq> BufferFull" using free [of k] by simp
  have rest: "list_all (\<lambda>j. \<exists>n. answers j n \<noteq> BufferFull) [Suc k..<Suc k + length evs]"
    unfolding list_all_iff by (intro ballI free) auto
  from k obtain res where "publish_row (answers k) 0 = Some res" using publish_returns [of "answers k" 0] by auto
  with "3.IH" rest show ?case by (auto split: sum.split prod.split)
qed simp_all

text \<open>A stream returns whenever every message is at some attempt not turned away by a full buffer.\<close>

theorem stream_returns:
  assumes "list_all (\<lambda>k. \<exists>n. answers k n \<noteq> BufferFull) [0..<length evs]"
  shows "\<exists>res. snd (stream_events answers report_of evs) = Some res"
  using publish_all_returns [of answers 0 evs] assms
  by (auto simp: stream_events_def split: prod.split option.split sum.split)

lemma publish_all_done: "publish_all answers k evs = (rs, Some (Inr ())) \<Longrightarrow> evs = map Inr rs"
  by (induction answers k evs arbitrary: rs rule: publish_all.induct)
    (auto split: option.splits sum.splits prod.splits)

lemma publish_all_prefix: "publish_all answers k evs = (rs, res) \<Longrightarrow> \<exists>rest. evs = map Inr rs @ rest"
  by (induction answers k evs arbitrary: rs res rule: publish_all.induct)
    (auto split: option.splits sum.splits prod.splits)

lemma reports_split: "length (filter (\<lambda>k. f k = Some True) ks) + length (filter (\<lambda>k. f k = Some False) ks) =
    length (filter (\<lambda>k. f k \<noteq> None) ks)"
proof (induction ks)
  case (Cons k ks)
  then show ?case by (cases "f k") auto
qed simp

text \<open>The counts a stream returns are of exactly the events it was given, all of them published in order:
  delivered and failed together are at most as many, and as many when every message was reported.\<close>

theorem stream_counts_reports:
  assumes "stream_events answers report_of evs = (rs, Some (Inr (n_ok, n_err)))"
  shows "evs = map Inr rs \<and> n_ok + n_err \<le> length evs \<and>
    (list_all (\<lambda>k. report_of k \<noteq> None) [0..<length evs] \<longrightarrow> n_ok + n_err = length evs)"
proof -
  let ?ok = "filter (\<lambda>k. report_of k = Some True) [0..<length rs]" and ?err = "filter (\<lambda>k. report_of k = Some False) [0..<length rs]"
  have all: "publish_all answers 0 evs = (rs, Some (Inr ()))" "n_ok = length ?ok" "n_err = length ?err"
    using assms by (auto simp: stream_events_def split: prod.splits option.splits sum.splits)
  have evs: "evs = map Inr rs" by (rule publish_all_done [OF all(1)])
  have "length ?ok + length ?err = length (filter (\<lambda>k. report_of k \<noteq> None) [0..<length rs])" by (rule reports_split)
  moreover have "length (filter (\<lambda>k. report_of k \<noteq> None) [0..<length rs]) \<le> length rs"
    using length_filter_le [of _ "[0..<length rs]"] by simp
  moreover have "filter (\<lambda>k. report_of k \<noteq> None) [0..<length rs] = [0..<length rs]"
    if "list_all (\<lambda>k. report_of k \<noteq> None) [0..<length rs]"
    using that by (intro filter_True) (simp add: list_all_iff)
  ultimately show ?thesis using all(2,3) by (auto simp: evs)
qed


section \<open>The commands\<close>

lemma insert_users_known:
  "list_all (\<lambda>p. pf_external p \<in> us_external ` set us) ps \<Longrightarrow> insert_users ps us = Inr us"
  by (induction ps) auto

lemma insert_users_all:
  "insert_users ps us = Inr us' \<Longrightarrow> set us \<subseteq> set us' \<and> (\<forall>p \<in> set ps. pf_external p \<in> us_external ` set us')"
proof (induction ps us rule: insert_users.induct)
  case (2 p ps us)
  let ?row = "\<lparr>us_id = pf_user p, us_external = pf_external p, us_segment = Some (pf_segment p), us_rfm = None\<rparr>"
  show ?case
  proof (cases "pf_external p \<in> us_external ` set us")
    case True
    then show ?thesis using "2.IH"(1) "2.prems" by auto
  next
    case False
    then have "pf_user p \<notin> us_id ` set us" using "2.prems" by (auto split: if_splits)
    with False have "set (us @ [?row]) \<subseteq> set us' \<and> (\<forall>p \<in> set ps. pf_external p \<in> us_external ` set us')"
      using "2.IH"(2) "2.prems" by simp
    moreover from this have "us_external ?row \<in> us_external ` set us'" by (intro imageI) simp
    ultimately show ?thesis by simp
  qed
qed simp

lemma insert_users_ids:
  "insert_users ps us = Inr us' \<Longrightarrow> us_id ` set us' \<subseteq> us_id ` set us \<union> pf_user ` set ps"
  by (induction ps us rule: insert_users.induct) (auto split: if_splits)

lemma insert_users_unique:
  "insert_users ps us = Inr us' \<Longrightarrow> unique_on us_id us \<and> unique_on us_external us \<Longrightarrow>
   unique_on us_id us' \<and> unique_on us_external us'"
  by (induction ps us rule: insert_users.induct) (auto split: if_splits)

text \<open>\<^verbatim>\<open>init-users\<close> keeps the ids and external ids of the clients unique and leaves out nobody; it has stored
  either all of its new clients or nothing. But a second run stores no client at all while the profile
  file is replaced: a client drawn anew by it is unknown to the database (the ids are not derived from
  the seed).\<close>

theorem init_users_again:
  assumes "init_users False drs s = (Inr (), s1)" "init_users False drs' s1 = (r, s2)" "length drs' \<le> length drs"
    and "unique_on us_id (ss_users s)" "unique_on us_external (ss_users s)"
  shows "unique_on us_id (ss_users s1) \<and> unique_on us_external (ss_users s1) \<and>
    (\<forall>i < length drs. pf_external (generate_profile i (drs ! i)) \<in> us_external ` set (ss_users s1)) \<and>
    r = Inr () \<and> ss_users s2 = ss_users s1 \<and> ss_file s2 = Some (map2 generate_profile [0..<length drs'] drs') \<and>
    (\<forall>dr \<in> set drs'. pd_uuid dr \<notin> us_id ` set (ss_users s) \<union> pd_uuid ` set drs \<longrightarrow>
       pd_uuid dr \<notin> us_id ` set (ss_users s2))"
proof -
  let ?ps = "map2 generate_profile [0..<length drs] drs" and ?ps' = "map2 generate_profile [0..<length drs'] drs'"
  have ins: "insert_users ?ps (ss_users s) = Inr (ss_users s1)"
    using assms(1) by (auto simp: init_users_def Let_def split: sum.splits)
  have "generate_profile i (drs ! i) \<in> set ?ps" if "i < length drs" for i
    using that by (force simp: set_zip intro!: image_eqI [of _ _ "(i, drs ! i)"] exI [of _ i])
  then have stored: "pf_external (generate_profile i (drs ! i)) \<in> us_external ` set (ss_users s1)" if "i < length drs" for i
    using that insert_users_all [OF ins] by blast
  have "list_all (\<lambda>p. pf_external p \<in> us_external ` set (ss_users s1)) ?ps'"
    using stored assms(3) by (auto simp: list_all_iff set_zip generate_profile_def)
  then have again: "r = Inr ()" "s2 = \<lparr>ss_users = ss_users s1, ss_file = Some ?ps'\<rparr>"
    using assms(2) by (auto simp: init_users_def Let_def insert_users_known)
  have "us_id ` set (ss_users s1) \<subseteq> us_id ` set (ss_users s) \<union> pd_uuid ` set drs"
    using insert_users_ids [OF ins] by (auto simp: generate_profile_def dest!: set_zip_rightD)
  then show ?thesis using insert_users_unique [OF ins] assms(4,5) stored again by auto
qed


section \<open>Instances\<close>

text \<open>Instants printed and read in unary.\<close>

definition unary_instant :: "time \<Rightarrow> string" where
  "unary_instant t = (let u = floor_second t in
     if u < 0 then CHR ''n'' # replicate (nat (- u)) CHR ''x'' else CHR ''p'' # replicate (nat u) CHR ''x'')"

definition read_unary :: "string \<Rightarrow> iso_result" where
  "read_unary s = (case s of [] \<Rightarrow> IsoBad
     | c # r \<Rightarrow> IsoAware (if c = CHR ''n'' then - int (length r) else int (length r)))"

definition sample_sim_env :: sim_env where
  "sample_sim_env = \<lparr>si_dec = id, si_iso = unary_instant\<rparr>"

definition sample_profile :: profile where
  "sample_profile = \<lparr>pf_user = 3, pf_external = ''sim_00000000'', pf_segment = 1, pf_favourites = [], pf_ticket = 900, pf_freq = 1\<rparr>"

definition sample_tx_draws :: tx_draws where
  "sample_tx_draws = \<lparr>dr_code = 0, dr_lognormal = 1, dr_channel = 0, dr_tx = 5, dr_random = 0, dr_bothify = []\<rparr>"

definition sample_validate_env :: validate_env where
  "sample_validate_env = \<lparr>ve_recent = None, ve_now = (\<lambda>_. 0), ve_iso = read_unary, ve_str = (\<lambda>_. []), ve_currencies = []\<rparr>"

lemma unary_chars: "unary_instant t \<noteq> []" "c \<in> set (unary_instant t) \<Longrightarrow> c \<in> {CHR ''n'', CHR ''p'', CHR ''x''}"
  by (auto simp: unary_instant_def Let_def split: if_splits)

lemma sample_sim_ok: "sim_ok (ve_iso sample_validate_env) sample_sim_env"
proof -
  have "read_unary (replace_all ''Z'' ''+00:00'' (unary_instant t)) = IsoAware (floor_second t)" for t
  proof -
    have "CHR ''Z'' \<notin> set (unary_instant t)" using unary_chars(2) [of "CHR ''Z''" t] by auto
    then have "replace_all ''Z'' ''+00:00'' (unary_instant t) = unary_instant t" by (intro replace_all_absent) simp_all
    then show ?thesis by (auto simp: unary_instant_def read_unary_def Let_def)
  qed
  moreover have sp: "\<not> py_space c" if "c \<in> set (unary_instant t)" for c t
    using unary_chars(2) [OF that] by (auto simp: py_space_def)
  have "py_strip (unary_instant t) = unary_instant t" for t
    using sp [OF hd_in_set] sp [OF last_in_set] by (intro strip_by_id) auto
  ultimately show ?thesis by (simp add: sim_ok_def sample_sim_env_def sample_validate_env_def unary_chars fl_idem)
qed

lemma fl_pos: "1 / 8 \<le> x \<Longrightarrow> 0 < fl x"
proof -
  assume "1 / 8 \<le> x"
  moreover have "fl (1 / 8) = 1 / 8" by (rule fl_exact [of _ 1 "- 3"]) (simp_all add: pow2_def)
  ultimately show ?thesis using fl_mono_all [of "1 / 8" x] by linarith
qed

lemma sample_draws_ok: "draws_ok sample_profile sample_tx_draws"
proof -
  have "0 < fl (1 / 5)" by (rule fl_pos) simp
  then show ?thesis by (simp add: draws_ok_def sample_profile_def sample_tx_draws_def channel_probs_def TOP30_MCC_def)
qed

lemma sample_personal: "personal_amount sample_sim_env sample_profile sample_tx_draws = Inr 1"
proof -
  have r: "pg_round 2 1 = 1" by (simp add: pg_round_def floor_eq_iff)
  have "leading_place 1 = 0" by (simp add: leading_place_def ten_to_def)
  then have "dec_context 1 = 1" using half_even_of_int [of "10 ^ 27"] by (simp add: dec_context_def ten_to_def Let_def)
  then show ?thesis
    by (simp add: personal_amount_def sample_amount_def quantize_cents_def sample_sim_env_def sample_profile_def
        sample_tx_draws_def r)
qed


theorem backfill_stays_in_days_witness:
  "floor_day (floor_second (12 * hour_us) - 1 * day_us) \<le> 23 * hour_us \<and> 23 * hour_us < floor_day (12 * hour_us) + day_us"
proof (rule backfill_stays_in_days [where bd = noon_draws])
  show "list_all (\<lambda>d. 0 \<le> d \<and> d \<le> 1 * day_us) (bd_offsets noon_draws)"
    by (simp add: noon_draws_def day_us_def hour_us_def second_us_def)
  have "0 < fl (2 / 5)" by (rule fl_pos) simp
  then have "hms_ok 0 (23, 0, 0)" by (simp add: hms_ok_def hour_dow_weight_def HOUR_WEIGHTS_def Let_def)
  then show "list_all (\<lambda>r. \<exists>dow. hms_ok dow (fst r)) (bd_rest noon_draws)" by (auto simp: noon_draws_def)
  show "23 * hour_us \<in> set (backfill_times (12 * hour_us) 1 noon_draws)" by (simp add: backfill_in_future)
qed

theorem stream_returns_witness:
  "\<exists>res. snd (stream_events (\<lambda>k n. if n < 2 then BufferFull else Queued) (\<lambda>_. None) [Inr [], Inr []]) = Some res"
  by (rule stream_returns) (auto simp: list_all_iff intro!: exI [of _ 2])

theorem stream_counts_reports_witness:
  "\<exists>n_ok n_err. snd (stream_events (\<lambda>k n. Queued) (\<lambda>k. Some (k = 0)) [Inr [], Inr []]) = Some (Inr (n_ok, n_err)) \<and> n_ok + n_err = 2"
proof -
  have p: "publish_row (\<lambda>n. Queued) 0 = Some (Inr ())" by (subst publish_row.simps) simp
  obtain rs n_ok n_err where s: "stream_events (\<lambda>k n. Queued) (\<lambda>k. Some (k = 0)) [Inr [], Inr []] = (rs, Some (Inr (n_ok, n_err)))"
    by (simp add: stream_events_def p)
  show ?thesis using stream_counts_reports [OF s] by (auto simp: s list_all_iff)
qed

definition some_draws :: "uuid \<Rightarrow> profile_draws" where
  "some_draws u = \<lparr>pd_uuid = u, pd_segment = 1, pd_favourites = [], pd_ticket = 900, pd_gamma = 1\<rparr>"

theorem init_users_again_witness:
  "\<exists>s1 s2. init_users False [some_draws 11] \<lparr>ss_users = [], ss_file = None\<rparr> = (Inr (), s1) \<and>
    init_users False [some_draws 12] s1 = (Inr (), s2) \<and> 12 \<notin> us_id ` set (ss_users s2)"
proof -
  obtain s1 where s1: "init_users False [some_draws 11] \<lparr>ss_users = [], ss_file = None\<rparr> = (Inr (), s1)"
    by (simp add: init_users_def)
  obtain r s2 where s2: "init_users False [some_draws 12] s1 = (r, s2)" by fastforce
  show ?thesis using init_users_again [OF s1 s2] s1 s2 by (auto simp: some_draws_def)
qed

end
