(* ===== verification/Supervision.thy ===== *)
theory Supervision
  imports Notify EventHub Backoff
begin

text \<open>
  The loops that are never allowed to die: \<^verbatim>\<open>supervise\<close> of the transaction listener
  (\<^verbatim>\<open>services/transaction_listener/app/main.py\<close>), which restarts the two consumers, and the reconnects of
  \<^verbatim>\<open>AccrualStreamBridge._consume_loop\<close> (\<^verbatim>\<open>services/campaign_manager/app/events.py\<close>). Both are instances of the
  locale \<open>backoff\<close>, as the listener's own loop is (\<^verbatim>\<open>Listener\<close>).
\<close>

section \<open>The supervisor\<close>

text \<open>One round: how the run ended, whether \<open>stop\<close> was set by then, how long it lasted, and whether \<open>stop\<close> was set
  when the pause was over.\<close>

datatype run_end = Crashed | Returned | Cancelled

record round =
  ro_end :: run_end
  ro_stop :: bool
  ro_lasted :: rat
  ro_stop_after :: bool

datatype supervised = Supervising | Stopped | CancelRaised

text \<open>The pauses made and the state after the rounds.\<close>

fun supervise :: "rat \<Rightarrow> rat \<Rightarrow> rat \<Rightarrow> round list \<Rightarrow> rat list \<times> supervised" where
  "supervise init cap delay [] = ([], Supervising)"
| "supervise init cap delay (r # rs) =
    (if ro_end r = Cancelled then ([], CancelRaised)
     else if ro_end r = Returned \<and> ro_stop r then ([], Stopped)
     else let (p, d) = supervise_turn init cap (ro_lasted r) delay in
       if ro_stop_after r then ([p], Stopped)
       else let (ps, e) = supervise init cap d rs in (p # ps, e))"

text \<open>The next pause, given the last one and whether the run in between was long.\<close>

definition supervise_pause :: "bool \<Rightarrow> rat \<Rightarrow> rat" where
  "supervise_pause long p = fst (supervise_turn 1 30 (if long then 30 else 0) (snd (supervise_turn 1 30 0 p)))"

lemma supervise_turn_eq: "supervise_turn init cap lasted d =
    (if cap \<le> lasted then (init, min (2 * init) cap) else (d, min (2 * d) cap))"
  by (simp add: supervise_turn_def)

lemma supervise_pause_eq: "supervise_pause b p = (if b then 1 else min (2 * p) 30)"
  by (simp add: supervise_pause_def supervise_turn_eq)

interpretation sup_backoff: backoff 1 30 supervise_pause
proof unfold_locales
  show "supervise_pause False d = min (d * 2) 30" for d unfolding supervise_pause_eq by (simp only: if_False mult.commute)
qed (simp_all add: supervise_pause_eq)

text \<open>The pauses from a delay that a pause of \<open>p\<close> has left.\<close>

lemma supervise_pauses_fold:
  "(ps, e) = supervise 1 30 (min (p * 2) 30) rs \<Longrightarrow> i < length ps \<Longrightarrow>
   ps ! i = fold supervise_pause (map (\<lambda>r. 30 \<le> ro_lasted r) (take (Suc i) rs)) p"
proof (induction rs arbitrary: ps e p i)
  case (Cons r rs)
  let ?q = "supervise_pause (30 \<le> ro_lasted r) p"
  have turn: "supervise_turn 1 30 (ro_lasted r) (min (p * 2) 30) = (?q, min (?q * 2) 30)"
    unfolding supervise_turn_eq supervise_pause_eq by (simp only: mult.commute split: if_splits) simp
  show ?case
  proof (cases i)
    case 0
    then show ?thesis using Cons.prems turn by (auto split: if_splits prod.splits)
  next
    case (Suc j)
    then obtain ps' where "(ps', e) = supervise 1 30 (min (?q * 2) 30) rs" "ps = ?q # ps'" "j < length ps'"
      using Cons.prems turn by (auto split: if_splits prod.splits)
    then show ?thesis using Cons.IH [of ps' e ?q j] Suc by simp
  qed
qed simp

text \<open>The first pause is a second; every later one follows from the one before it.\<close>

lemma supervise_pauses:
  assumes "supervise 1 30 1 rs = (ps, e)" "i < length ps"
  shows "ps ! i = sup_backoff.delay_after (map (\<lambda>r. 30 \<le> ro_lasted r) (take i (tl rs)))"
proof -
  obtain r rs' where rs: "rs = r # rs'" using assms by (cases rs) auto
  have turn: "supervise_turn 1 30 (ro_lasted r) 1 = (1, min (1 * 2) 30)" by (simp add: supervise_turn_def)
  show ?thesis
  proof (cases i)
    case 0
    then show ?thesis using assms rs turn by (auto simp: sup_backoff.delay_after_def split: if_splits prod.splits)
  next
    case (Suc j)
    then obtain ps' where "(ps', e) = supervise 1 30 (min (1 * 2) 30) rs'" "ps = 1 # ps'" "j < length ps'"
      using assms rs turn by (auto split: if_splits prod.splits)
    then show ?thesis using supervise_pauses_fold [of ps' e 1 rs' j] Suc rs by (simp add: sup_backoff.delay_after_def)
  qed
qed

lemma supervise_length: "supervise init cap d rs = (ps, e) \<Longrightarrow> length ps \<le> length rs"
  by (induction rs arbitrary: ps e d) (auto split: if_splits prod.splits)

lemma supervise_goes_on:
  "supervise init cap d rs = (ps, e) \<Longrightarrow> list_all (\<lambda>r. ro_end r \<noteq> Cancelled \<and> \<not> ro_stop r \<and> \<not> ro_stop_after r) rs \<Longrightarrow>
   length ps = length rs \<and> e = Supervising"
  by (induction rs arbitrary: ps e d) (auto split: prod.splits)

lemma map_short: "list_all (\<lambda>r. \<not> P r) rs \<Longrightarrow> n \<le> length rs \<Longrightarrow> map P (take n rs) = replicate n False"
  by (intro nth_equalityI) (auto simp: list_all_length)

text \<open>A supervised loop pauses between a second and half a minute before every restart; in a series of runs
  that all end within half a minute the pauses double from a second up to the maximum; and the
  supervisor ends only by a cancellation or by \<open>stop\<close>, never because a run crashed or returned.\<close>

theorem supervised_loop_restarts:
  assumes "supervise 1 30 1 rs = (ps, e)"
  shows "list_all (\<lambda>p. 1 \<le> p \<and> p \<le> 30) ps \<and>
    (list_all (\<lambda>r. \<not> 30 \<le> ro_lasted r) rs \<longrightarrow> (\<forall>i < length ps. ps ! i = min (2 ^ i) 30)) \<and>
    (list_all (\<lambda>r. ro_end r \<noteq> Cancelled \<and> \<not> ro_stop r \<and> \<not> ro_stop_after r) rs \<longrightarrow>
       length ps = length rs \<and> e = Supervising)"
proof -
  note pause = supervise_pauses [OF assms]
  have "ps ! i = min (2 ^ i) 30" if short: "list_all (\<lambda>r. \<not> 30 \<le> ro_lasted r) rs" and i: "i < length ps" for i
  proof -
    have "i \<le> length (tl rs)" using i supervise_length [OF assms] by simp
    moreover have "list_all (\<lambda>r. \<not> 30 \<le> ro_lasted r) (tl rs)" using short by (cases rs) simp_all
    ultimately have "map (\<lambda>r. 30 \<le> ro_lasted r) (take i (tl rs)) = replicate i False" by (intro map_short)
    then show ?thesis using pause [OF i] sup_backoff.delay_initial_failures [of i] by simp
  qed
  moreover have "1 \<le> ps ! i \<and> ps ! i \<le> 30" if "i < length ps" for i
    using pause [OF that] sup_backoff.delay_range by simp
  ultimately show ?thesis using supervise_goes_on [OF assms] by (auto simp: list_all_length)
qed

theorem supervised_loop_restarts_witness:
  "fst (supervise 1 30 1 (replicate 3 \<lparr>ro_end = Crashed, ro_stop = False, ro_lasted = 2, ro_stop_after = False\<rparr>)) ! 2 = 4"
proof -
  let ?rs = "replicate 3 \<lparr>ro_end = Crashed, ro_stop = False, ro_lasted = 2, ro_stop_after = False\<rparr>"
  obtain ps e where s: "supervise 1 30 1 ?rs = (ps, e)" by fastforce
  from supervised_loop_restarts [OF s] have "length ps = 3" "\<forall>i < length ps. ps ! i = min (2 ^ i) 30"
    by (simp_all add: list_all_length)
  then show ?thesis by (simp add: s)
qed

section \<open>The bridge of the event stream\<close>

text \<open>The pauses between the connections, one for each consumer that ended: \<open>True\<close> when it had started.\<close>

fun bridge_pauses :: "rat \<Rightarrow> bool list \<Rightarrow> rat list" where
  "bridge_pauses d [] = []"
| "bridge_pauses d (started # ss) = (if started then 1 else d) # bridge_pauses (reconnect_delay started d) ss"

definition bridge_pause :: "bool \<Rightarrow> rat \<Rightarrow> rat" where
  "bridge_pause started p = (if started then 1 else reconnect_delay False p)"

interpretation bridge_backoff: backoff 1 30 bridge_pause
  by unfold_locales (simp_all add: bridge_pause_def reconnect_delay_def)

lemma bridge_pauses_fold:
  "i < length ss \<Longrightarrow> bridge_pauses (reconnect_delay False p) ss ! i = fold bridge_pause (take (Suc i) ss) p"
proof (induction ss arbitrary: p i)
  case (Cons s ss)
  have "reconnect_delay s (reconnect_delay False p) = reconnect_delay False (bridge_pause s p)"
    by (simp add: reconnect_delay_def bridge_pause_def)
  then show ?case using Cons by (cases i) (simp_all add: bridge_pause_def)
qed simp

text \<open>While the broker cannot be reached the pauses double from a second to half a minute; a connection that
  has started starts them anew.\<close>

lemma bridge_outage:
  "i \<le> n \<Longrightarrow> bridge_pauses d (True # replicate n False) ! i = min (2 ^ i) 30"
proof (cases i)
  case (Suc j)
  assume "i \<le> n"
  moreover have "reconnect_delay True d = reconnect_delay False 1" by (simp add: reconnect_delay_def)
  ultimately show ?thesis
    using bridge_pauses_fold [of j "replicate n False" 1] bridge_backoff.delay_initial_failures [of i] Suc
    by (simp add: bridge_backoff.delay_after_def min_absorb1 flip: replicate_Suc)
qed simp

end
