(* ===== verification/Settings.thy ===== *)
theory Settings
  imports Migrations
begin

text \<open>
  The settings the services refuse to start with (\<^verbatim>\<open>config.py\<close> of campaign_manager, mobile_api and
  recommendation_api): the keys that sign the tokens and the origins of CORS. \<open>None\<close> is a
  \<^verbatim>\<open>ValidationError\<close>; \<open>load\<close> is \<^verbatim>\<open>json.loads\<close> (\<open>None\<close> where it raises), \<open>str_of\<close> the text of a value that is no
  string. The other fields are plain values with defaults.
\<close>

section \<open>Keys\<close>

definition KNOWN_DEFAULT_SECRETS :: "string list" where
  "KNOWN_DEFAULT_SECRETS = [''dev-secret-change-me'', ''please-change-me'', ''change-me'', ''changeme'', ''secret'', ''test-secret'']"

definition MIN_SECRET_BYTES :: nat where
  "MIN_SECRET_BYTES = 32"

text \<open>Campaign manager.\<close>

definition check_secret :: "string \<Rightarrow> unit option" where
  "check_secret v =
    (if py_strip v = [] then None
     else if map lower_char (py_strip v) \<in> set KNOWN_DEFAULT_SECRETS then None
     else if utf8_length v < MIN_SECRET_BYTES then None
     else Some ())"

text \<open>Mobile API; the recommendation API has the same lines.\<close>

definition strong_secret :: "string \<Rightarrow> string option" where
  "strong_secret raw =
    (if py_strip raw = [] then None
     else if map lower_char (py_strip raw) \<in> set KNOWN_DEFAULT_SECRETS then None
     else if utf8_length raw < MIN_SECRET_BYTES then None
     else Some raw)"

section \<open>Origins\<close>

fun split_commas :: "string \<Rightarrow> string list" where
  "split_commas [] = [[]]"
| "split_commas (c # cs) =
    (if c = CHR '','' then [] # split_commas cs
     else case split_commas cs of [] \<Rightarrow> [[c]] | p # ps \<Rightarrow> (c # p) # ps)"

definition json_items :: "(string \<Rightarrow> json option) \<Rightarrow> string \<Rightarrow> json list option" where
  "json_items load raw = (case load raw of Some (JArr vs) \<Rightarrow> Some vs | _ \<Rightarrow> None)"

definition item_text :: "(json \<Rightarrow> string) \<Rightarrow> json \<Rightarrow> string" where
  "item_text str_of v = (case v of JStr s \<Rightarrow> s | _ \<Rightarrow> str_of v)"

text \<open>Campaign manager: every item becomes a stripped text, empty ones are left out, \<^verbatim>\<open>*\<close> is refused.\<close>

definition parse_cors_origins :: "(string \<Rightarrow> json option) \<Rightarrow> (json \<Rightarrow> string) \<Rightarrow> string \<Rightarrow> string list option" where
  "parse_cors_origins load str_of v =
    (let raw = py_strip v in
     case (if take 1 raw = ''['' then map_option (map (item_text str_of)) (json_items load raw) else Some (split_commas raw)) of
       None \<Rightarrow> None
     | Some items \<Rightarrow>
        (let origins = map py_strip (filter (\<lambda>i. py_strip i \<noteq> []) items) in
         if ''*'' \<in> set origins then None else Some origins))"

text \<open>Mobile API and recommendation API: the items of a JSON list are taken as they are and must be strings.\<close>

definition split_origins :: "(string \<Rightarrow> json option) \<Rightarrow> string \<Rightarrow> json list option" where
  "split_origins load v =
    (let raw = py_strip v in
     if take 1 raw = ''['' then json_items load raw
     else Some (map (JStr \<circ> py_strip) (filter (\<lambda>p. py_strip p \<noteq> []) (split_commas raw))))"

definition no_wildcard_origin :: "json list \<Rightarrow> string list option" where
  "no_wildcard_origin vs =
    (if list_all (\<lambda>v. case v of JStr _ \<Rightarrow> True | _ \<Rightarrow> False) vs
     then (let origins = map (item_text (\<lambda>_. [])) vs in if ''*'' \<in> set origins then None else Some origins)
     else None)"

definition service_origins :: "(string \<Rightarrow> json option) \<Rightarrow> string \<Rightarrow> string list option" where
  "service_origins load v = (case split_origins load v of None \<Rightarrow> None | Some vs \<Rightarrow> no_wildcard_origin vs)"

section \<open>The settings\<close>

record settings =
  se_own :: string
  se_service :: string
  se_origins :: "string list"

definition distinct_secrets :: "settings \<Rightarrow> settings option" where
  "distinct_secrets s = (if se_own s = se_service s then None else Some s)"

definition manager_settings ::
  "(string \<Rightarrow> json option) \<Rightarrow> (json \<Rightarrow> string) \<Rightarrow> string \<Rightarrow> string \<Rightarrow> string \<Rightarrow> settings option" where
  "manager_settings load str_of jwt service cors =
    (case (check_secret jwt, check_secret service, parse_cors_origins load str_of cors) of
       (Some _, Some _, Some origins) \<Rightarrow> distinct_secrets \<lparr>se_own = jwt, se_service = service, se_origins = origins\<rparr>
     | _ \<Rightarrow> None)"

definition mobile_settings :: "(string \<Rightarrow> json option) \<Rightarrow> string \<Rightarrow> string \<Rightarrow> string \<Rightarrow> settings option" where
  "mobile_settings load mobile service cors =
    (case (strong_secret mobile, strong_secret service, service_origins load cors) of
       (Some k, Some sk, Some origins) \<Rightarrow> distinct_secrets \<lparr>se_own = k, se_service = sk, se_origins = origins\<rparr>
     | _ \<Rightarrow> None)"

text \<open>The recommendation API holds the service key only.\<close>

definition recommendation_settings :: "(string \<Rightarrow> json option) \<Rightarrow> string \<Rightarrow> string \<Rightarrow> (string \<times> string list) option" where
  "recommendation_settings load service cors =
    (case (strong_secret service, service_origins load cors) of (Some sk, Some origins) \<Rightarrow> Some (sk, origins) | _ \<Rightarrow> None)"

section \<open>What a started service has\<close>

definition good_key :: "string \<Rightarrow> bool" where
  "good_key v = (32 \<le> utf8_length v \<and> map lower_char (py_strip v) \<notin> set KNOWN_DEFAULT_SECRETS \<and> py_strip v \<noteq> [])"

lemma check_secret_good: "check_secret v = Some () \<longleftrightarrow> good_key v"
  by (auto simp: check_secret_def good_key_def MIN_SECRET_BYTES_def)

lemma strong_secret_good: "strong_secret v = Some k \<longleftrightarrow> k = v \<and> good_key v"
  by (auto simp: strong_secret_def good_key_def MIN_SECRET_BYTES_def)

lemma origins_explicit:
  "parse_cors_origins load str_of v = Some o1 \<Longrightarrow> ''*'' \<notin> set o1"
  "service_origins load v = Some o2 \<Longrightarrow> ''*'' \<notin> set o2"
  by (auto simp: parse_cors_origins_def service_origins_def no_wildcard_origin_def Let_def split: option.splits if_splits)

text \<open>A service that has started signs and checks tokens with keys of at least 32 bytes that are no published
  default, the two keys of campaign_manager and of mobile_api differ, and CORS lists explicit origins.\<close>

theorem started_services_are_keyed:
  "(\<forall>s. manager_settings load str_of jwt service cors = Some s \<longrightarrow>
      good_key (se_own s) \<and> good_key (se_service s) \<and> se_own s \<noteq> se_service s \<and> ''*'' \<notin> set (se_origins s)) \<and>
   (\<forall>s. mobile_settings load jwt service cors = Some s \<longrightarrow>
      good_key (se_own s) \<and> good_key (se_service s) \<and> se_own s \<noteq> se_service s \<and> ''*'' \<notin> set (se_origins s)) \<and>
   (\<forall>k origins. recommendation_settings load service cors = Some (k, origins) \<longrightarrow> good_key k \<and> ''*'' \<notin> set origins)"
proof -
  have unit: "check_secret v = Some u \<longleftrightarrow> good_key v" for v u using check_secret_good [of v] by simp
  show ?thesis
    by (auto simp: manager_settings_def mobile_settings_def recommendation_settings_def distinct_secrets_def unit
        strong_secret_good origins_explicit split: option.splits if_splits)
qed

text \<open>The three services read a comma-separated list the same way, and so do they a JSON list whose texts have
  no space around them and are not empty: what one of them accepts the others accept with the same
  origins.\<close>

theorem services_read_origins_alike:
  assumes "take 1 (py_strip v) = ''['' \<Longrightarrow> \<exists>ts. load (py_strip v) = Some (JArr (map JStr ts)) \<and>
      list_all (\<lambda>t. py_strip t = t \<and> t \<noteq> []) ts"
  shows "parse_cors_origins load str_of v = service_origins load v"
proof (cases "take 1 (py_strip v) = ''[''")
  case True
  with assms obtain ts where ts: "load (py_strip v) = Some (JArr (map JStr ts))" "list_all (\<lambda>t. py_strip t = t \<and> t \<noteq> []) ts"
    by blast
  have "map (py_strip \<circ> (item_text f \<circ> JStr)) ts = ts \<and> map (item_text f \<circ> JStr) ts = ts \<and>
      filter (\<lambda>i. py_strip i \<noteq> []) ts = ts" for f
    using ts(2) by (auto simp: item_text_def list_all_iff intro!: map_idI filter_True)
  then show ?thesis
    using True ts by (simp add: parse_cors_origins_def service_origins_def split_origins_def no_wildcard_origin_def
        json_items_def Let_def list_all_iff item_text_def comp_def)
next
  case False
  then show ?thesis
    by (simp add: parse_cors_origins_def service_origins_def split_origins_def no_wildcard_origin_def Let_def
        list_all_iff item_text_def comp_def)
qed

theorem services_read_origins_alike_witness:
  "parse_cors_origins (\<lambda>_. None) (\<lambda>_. []) ''https://a.ru, https://b.ru'' = service_origins (\<lambda>_. None) ''https://a.ru, https://b.ru''"
  by (rule services_read_origins_alike) (simp add: strip_by_def py_space_def)

end
