(* ===== verification/Reference.thy ===== *)
theory Reference
  imports Analytics Migrations MobileFeed EtlValidator
begin

text \<open>
  The reference data of the campaign manager and the page of the model explanations:
  \<^verbatim>\<open>services/campaign_manager/app/api/reference.py\<close> with its cache, \<^verbatim>\<open>reference_data.py\<close>, \<^verbatim>\<open>api/ml_explain.py\<close> and
  \<^verbatim>\<open>issue_service_token\<close>; and the whole path of an explanation through the check of the caller in the
  recommendation API. Names are Cyrillic texts and handed in as functions.
\<close>

section \<open>Segments\<close>

definition BUCKET_ORDER :: "string list" where
  "BUCKET_ORDER = [''premium'', ''mass'', ''young'', ''senior'', ''business'']"

record segment_ref =
  sr_id :: string
  sr_name :: string
  sr_count :: nat
  sr_deciles :: "int list"

text \<open>\<^verbatim>\<open>GROUP BY segment_id\<close> of the clients with a segment.\<close>

definition segment_rows :: "db \<Rightarrow> (int option \<times> nat) list" where
  "segment_rows d = map (\<lambda>(k, us). (k, length us)) (group_by us_segment (filter (\<lambda>u. us_segment u \<noteq> None) (users d)))"

definition bucket_counts :: "(int option \<times> nat) list \<Rightarrow> string \<Rightarrow> nat" where
  "bucket_counts rows = fold (\<lambda>(seg, n) counts. case bucket_of seg of
     None \<Rightarrow> counts | Some b \<Rightarrow> counts(b := counts b + n)) rows (\<lambda>_. 0)"

definition load_segments :: "(string \<Rightarrow> string) \<Rightarrow> db \<Rightarrow> segment_ref list" where
  "load_segments name_of d = (let counts = bucket_counts (segment_rows d) in
     map (\<lambda>b. \<lparr>sr_id = b, sr_name = name_of b, sr_count = counts b,
       sr_deciles = (case map_of SEGMENT_BUCKETS b of None \<Rightarrow> [] | Some ds \<Rightarrow> ds)\<rparr>) BUCKET_ORDER)"

text \<open>One call of the endpoint: the monotonic clock, a failure of the statement, the database it sees. The cache
  is per process.\<close>

definition SEGMENTS_TTL :: int where
  "SEGMENTS_TTL = 60 * second_us"

record ref_call =
  rf_now :: time
  rf_fault :: "exn option"
  rf_db :: db

type_synonym segments_cache = "(time \<times> segment_ref list) option"

definition get_segments :: "(string \<Rightarrow> string) \<Rightarrow> ref_call \<Rightarrow> segments_cache \<Rightarrow> segment_ref list answer \<times> segments_cache" where
  "get_segments name_of c cache =
    (let reload = (case rf_fault c of
        Some e \<Rightarrow> (Crash e, cache)
      | None \<Rightarrow> (let v = load_segments name_of (rf_db c) in (Reply v, Some (rf_now c, v)))) in
     case cache of
       None \<Rightarrow> reload
     | Some (t, v) \<Rightarrow> if rf_now c - t < SEGMENTS_TTL then (Reply v, cache) else reload)"

fun segment_calls :: "(string \<Rightarrow> string) \<Rightarrow> ref_call list \<Rightarrow> segments_cache \<Rightarrow> segments_cache" where
  "segment_calls name_of [] cache = cache"
| "segment_calls name_of (c # cs) cache = segment_calls name_of cs (snd (get_segments name_of c cache))"

text \<open>The codes of the categories and the names of their icons.\<close>

definition MCC_CATEGORIES :: "(string \<times> string) list" where
  "MCC_CATEGORIES = [(''5411'', ''shopping-cart''), (''5912'', ''pill''), (''5541'', ''fuel''), (''5812'', ''utensils''),
     (''5999'', ''store''), (''7011'', ''hotel''), (''4111'', ''bus''), (''5045'', ''laptop''), (''5600'', ''shirt''),
     (''7832'', ''clapperboard''), (''5251'', ''hammer''), (''5122'', ''sparkles'')]"

section \<open>Explanations\<close>

record ml_customer =
  mc_id :: string
  mc_name :: string
  mc_segment :: "string option"
  mc_prediction :: rat

text \<open>The last recommendation of every client; \<open>tie\<close> orders what the query leaves open. A segment of \<open>None\<close> is the
  dash.\<close>

definition last_recommendations :: "(uuid \<Rightarrow> nat) \<Rightarrow> db \<Rightarrow> rec_row list" where
  "last_recommendations tie d = distinct_on re_user
     (sort_key (\<lambda>r. (- re_generated r, tie (re_id r))) (filter (\<lambda>r. known_client d (re_user r)) (recs d)))"

definition customer_name :: "(string \<Rightarrow> string) \<Rightarrow> db \<Rightarrow> uuid \<Rightarrow> string" where
  "customer_name client_text d uid = (case find_by us_id uid (users d) of
     Some u \<Rightarrow> if us_external u \<noteq> [] then us_external u else client_text (take 8 (uuid_text uid))
   | None \<Rightarrow> client_text (take 8 (uuid_text uid)))"

definition ml_customers :: "(string \<Rightarrow> string) \<Rightarrow> (string \<Rightarrow> string) \<Rightarrow> (uuid \<Rightarrow> nat) \<Rightarrow> nat \<Rightarrow> db \<Rightarrow> ml_customer list answer" where
  "ml_customers name_of client_text tie limit d =
    (if \<not> (1 \<le> limit \<and> limit \<le> 100) then Reject 422
     else Reply (map (\<lambda>r. \<lparr>mc_id = uuid_text (re_user r), mc_name = customer_name client_text d (re_user r),
         mc_segment = map_option name_of (bucket_of (client_segment d (re_user r))),
         mc_prediction = py_round 4 (re_score r)\<rparr>)
       (take limit (sort_key (\<lambda>r. (- re_score r, tie (re_id r))) (last_recommendations tie d)))))"

text \<open>The answer of the recommendation API: \<open>None\<close> where the body is no JSON.\<close>

datatype upstream = UpTimeout | UpDown | UpAnswer nat "json option"

definition ml_explain :: "nat \<Rightarrow> upstream \<Rightarrow> token_claims answer" where
  "ml_explain top_k up =
    (if \<not> (1 \<le> top_k \<and> top_k \<le> 20) then Reject 422
     else case up of
       UpTimeout \<Rightarrow> Reject 502
     | UpDown \<Rightarrow> Reject 502
     | UpAnswer code body \<Rightarrow>
        if code = 404 then Reject 404
        else if code \<noteq> 200 then Reject 502
        else (case body of Some (JObj kvs) \<Rightarrow> Reply kvs | _ \<Rightarrow> Reject 502))"

definition issue_service_token :: "auth_env \<Rightarrow> string" where
  "issue_service_token env = signed env (300 * second_us)
     [(''iss'', JStr ISSUER_CAMPAIGN_MANAGER), (''aud'', JStr ''recommendation-api''), (''sub'', JStr ISSUER_CAMPAIGN_MANAGER),
      (''type'', JStr SERVICE_TYPE)]"

text \<open>The endpoint of the recommendation API behind the check of its caller, as the campaign manager sees it.\<close>

definition explain_endpoint ::
  "(string \<Rightarrow> token_claims option) \<Rightarrow> (rec_response \<Rightarrow> json) \<Rightarrow> rec_env \<Rightarrow> (rat \<Rightarrow> rat) \<Rightarrow> generator \<Rightarrow> watcher \<Rightarrow>
   string option \<Rightarrow> uuid \<Rightarrow> nat \<Rightarrow> rec_sys \<Rightarrow> upstream \<times> rec_sys" where
  "explain_endpoint dec body env sigmoid g w creds user k s =
    (case require_campaign_manager dec creds of
       Crash e \<Rightarrow> (UpAnswer 500 None, s)
     | Reject n \<Rightarrow> (UpAnswer n (Some (JObj [])), s)
     | Reply _ \<Rightarrow>
        (case explain_recommendations env sigmoid g w (uuid_text user) k s of
           (Reply resp, s') \<Rightarrow> (UpAnswer 200 (Some (body resp)), s')
         | (Reject n, s') \<Rightarrow> (UpAnswer n (Some (JObj [])), s')
         | (Crash e, s') \<Rightarrow> (UpAnswer 500 None, s')))"

section \<open>The segments count every client once\<close>

lemma bucket_counts_sum:
  fixes c :: "string \<Rightarrow> nat"
  shows "fold (\<lambda>(seg, n) counts. case bucket_of seg of None \<Rightarrow> counts | Some b \<Rightarrow> counts(b := counts b + n)) rows c b =
   c b + sum_list (map snd (filter (\<lambda>(seg, n). bucket_of seg = Some b) rows))"
  by (induction rows arbitrary: c) (auto split: option.splits)

lemma bucket_counts_clients:
  "bucket_counts (segment_rows d) b = length (filter (\<lambda>u. bucket_of (us_segment u) = Some b) (users d))"
proof -
  let ?q = "\<lambda>seg. bucket_of seg = Some b" and ?us = "filter (\<lambda>u. us_segment u \<noteq> None) (users d)"
  have "bucket_counts (segment_rows d) b = sum_list (map (length \<circ> snd) (filter (?q \<circ> fst) (group_by us_segment ?us)))"
    by (simp add: bucket_counts_def bucket_counts_sum segment_rows_def filter_map comp_def case_prod_beta)
  also have "\<dots> = length (filter (?q \<circ> us_segment) ?us)" by (rule group_by_length_where)
  also have "\<dots> = length (filter (\<lambda>u. bucket_of (us_segment u) = Some b) (users d))"
    by (auto simp: comp_def bucket_of_def intro!: arg_cong [of _ _ length] filter_cong split: option.splits)
  finally show ?thesis .
qed

lemma decile_buckets: "bucket_of (Some s) = Some b \<longleftrightarrow> (\<exists>ds. map_of SEGMENT_BUCKETS b = Some ds \<and> s \<in> set ds)"
  unfolding bucket_of_def DECILE_TO_BUCKET_def SEGMENT_BUCKETS_def by (auto split: if_splits)

lemma bucket_in_order: "bucket_of seg = Some b \<Longrightarrow> b \<in> set BUCKET_ORDER"
  unfolding bucket_of_def DECILE_TO_BUCKET_def SEGMENT_BUCKETS_def BUCKET_ORDER_def by (auto split: option.splits if_splits)


lemma bucket_ids: "distinct BUCKET_ORDER"
  by (simp add: BUCKET_ORDER_def)

lemma count_by_key:
  "distinct bs \<Longrightarrow> (\<And>x. x \<in> set xs \<Longrightarrow> f x \<noteq> None \<Longrightarrow> the (f x) \<in> set bs) \<Longrightarrow>
   sum_list (map (\<lambda>b. length (filter (\<lambda>x. f x = Some b) xs)) bs) = length (filter (\<lambda>x. f x \<noteq> None) xs)"
proof (induction xs)
  case (Cons x xs)
  have split: "sum_list (map (\<lambda>b. length (filter (\<lambda>x. f x = Some b) (x # xs))) bs) =
      sum_list (map (\<lambda>b. if f x = Some b then 1 else 0) bs) + sum_list (map (\<lambda>b. length (filter (\<lambda>x. f x = Some b) xs)) bs)"
    by (simp add: sum_list_addf [symmetric] if_distrib cong: if_cong) (rule arg_cong [of _ _ sum_list], auto)
  have "sum_list (map (\<lambda>b. if f x = Some b then 1 else 0 :: nat) bs) = (if f x = None then 0 else 1)"
  proof (cases "f x")
    case (Some b)
    then have "b \<in> set bs" using Cons.prems(2) [of x] by simp
    then have "filter (\<lambda>b'. b = b') bs = [b]" using Cons.prems(1)
      by (induction bs) (auto simp: filter_empty_conv)
    then have "length (filter (\<lambda>b'. b = b') bs) = 1" by simp
    moreover have "sum_list (map (\<lambda>b'. if b = b' then 1 else 0 :: nat) bs) = length (filter (\<lambda>b'. b = b') bs)"
      by (induction bs) auto
    ultimately show ?thesis using Some by simp
  qed simp
  then show ?case unfolding split using Cons by simp
qed simp

text \<open>The list of segments has the five groups in their order, each with the number of clients whose decile
  belongs to it, and together they count every client with a decile of some group once.\<close>

theorem segments_count_clients:
  "map sr_id (load_segments name_of d) = BUCKET_ORDER \<and>
   list_all (\<lambda>r. sr_count r = length (filter (\<lambda>u. us_segment u \<in> Some ` set (sr_deciles r)) (users d))) (load_segments name_of d) \<and>
   sum_list (map sr_count (load_segments name_of d)) = length (filter (\<lambda>u. bucket_of (us_segment u) \<noteq> None) (users d))"
proof (intro conjI)
  show "map sr_id (load_segments name_of d) = BUCKET_ORDER" by (simp add: load_segments_def Let_def comp_def)
  have "bucket_of seg = Some b \<longleftrightarrow> seg \<in> Some ` set (case map_of SEGMENT_BUCKETS b of None \<Rightarrow> [] | Some ds \<Rightarrow> ds)" for seg b
    using decile_buckets [of _ b] by (cases seg; cases "map_of SEGMENT_BUCKETS b") (auto simp: bucket_of_def)
  then show "list_all (\<lambda>r. sr_count r = length (filter (\<lambda>u. us_segment u \<in> Some ` set (sr_deciles r)) (users d)))
      (load_segments name_of d)"
    by (simp add: load_segments_def Let_def list_all_iff bucket_counts_clients)
  show "sum_list (map sr_count (load_segments name_of d)) = length (filter (\<lambda>u. bucket_of (us_segment u) \<noteq> None) (users d))"
    using count_by_key [OF bucket_ids, of "users d" "\<lambda>u. bucket_of (us_segment u)"] bucket_in_order
    by (fastforce simp: load_segments_def Let_def comp_def bucket_counts_clients)
qed

section \<open>How old an answer can be\<close>

definition cached_from :: "(string \<Rightarrow> string) \<Rightarrow> ref_call list \<Rightarrow> segments_cache \<Rightarrow> bool" where
  "cached_from name_of cs cache = (case cache of None \<Rightarrow> True
     | Some (t, v) \<Rightarrow> \<exists>c \<in> set cs. rf_now c = t \<and> rf_fault c = None \<and> v = load_segments name_of (rf_db c))"

lemma get_segments_cached:
  "cached_from name_of cs cache \<Longrightarrow> cached_from name_of (cs @ [c]) (snd (get_segments name_of c cache))"
  by (auto simp: cached_from_def get_segments_def Let_def split: option.splits prod.splits)

lemma segment_calls_cached: "cached_from name_of cs0 cache \<Longrightarrow> cached_from name_of (cs0 @ cs) (segment_calls name_of cs cache)"
proof (induction cs arbitrary: cs0 cache)
  case (Cons c cs)
  then show ?case using Cons.IH [OF get_segments_cached [OF Cons.prems]] by simp
qed simp

text \<open>Whatever calls came before, an answer shows the database as one of the calls of the last minute saw it.\<close>

theorem segments_are_fresh:
  assumes "get_segments name_of c (segment_calls name_of cs None) = (Reply v, cache)"
  shows "\<exists>c0 \<in> set (cs @ [c]). v = load_segments name_of (rf_db c0) \<and> rf_now c - rf_now c0 < SEGMENTS_TTL"
proof -
  have "cached_from name_of ([] @ cs) (segment_calls name_of cs None)" by (rule segment_calls_cached) (simp add: cached_from_def)
  then show ?thesis using assms
    by (auto simp: get_segments_def Let_def cached_from_def SEGMENTS_TTL_def second_us_def split: option.splits prod.splits if_splits)
qed

theorem segments_are_fresh_witness:
  "fst (get_segments id \<lparr>rf_now = 7, rf_fault = None, rf_db = sample_db\<rparr>
     (segment_calls id [\<lparr>rf_now = 5, rf_fault = None, rf_db = sample_db\<rparr>] None)) = Reply (load_segments id sample_db)"
proof -
  let ?c = "\<lambda>t. \<lparr>rf_now = t, rf_fault = None, rf_db = sample_db\<rparr>"
  obtain v cache where g: "get_segments id (?c 7) (segment_calls id [?c 5] None) = (Reply v, cache)"
    by (simp add: get_segments_def Let_def SEGMENTS_TTL_def second_us_def)
  from segments_are_fresh [OF g] have "v = load_segments id sample_db" by auto
  then show ?thesis by (simp only: g fst_conv)
qed

section \<open>The list of clients\<close>

text \<open>A list of clients shows every client at most once, with the last recommendation of the client, by
  descending score; and a client with a recommendation is missing only when the list is full and nobody
  listed has a lower score.\<close>

theorem customers_show_last_scores:
  assumes "ml_customers name_of client_text tie limit d = Reply cs"
  shows "\<exists>rows. map mc_id cs = map (uuid_text \<circ> re_user) rows \<and> map mc_prediction cs = map (py_round 4 \<circ> re_score) rows \<and>
    distinct (map re_user rows) \<and> length rows \<le> limit \<and> sorted_wrt (\<lambda>r r'. re_score r' \<le> re_score r) rows \<and>
    (\<forall>r \<in> set rows. r \<in> set (recs d) \<and> (\<forall>r' \<in> set (recs d). re_user r' = re_user r \<longrightarrow> re_generated r' \<le> re_generated r)) \<and>
    (\<forall>r \<in> set (last_recommendations tie d). r \<in> set rows \<or> (length rows = limit \<and> (\<forall>r' \<in> set rows. re_score r \<le> re_score r')))"
proof -
  let ?last = "last_recommendations tie d" and ?k = "\<lambda>r. (- re_score r, tie (re_id r))"
  let ?srt = "sort_key ?k ?last"
  define rows where "rows = take limit ?srt"
  have cs: "map mc_id cs = map (uuid_text \<circ> re_user) rows" "map mc_prediction cs = map (py_round 4 \<circ> re_score) rows"
    using assms by (auto simp: ml_customers_def rows_def split: if_splits)
  have "distinct (map re_user ?last)" unfolding last_recommendations_def by (rule distinct_on_keys)
  then have "distinct (map re_user ?srt)" by (metis mset_map mset_sort mset_eq_imp_distinct_iff)
  then have dist: "distinct (map re_user rows)" unfolding rows_def by (metis distinct_take take_map)
  have srt: "sorted_wrt (\<lambda>r r'. ?k r \<le> ?k r') ?srt" by (rule sort_key_wrt)
  then have "sorted_wrt (\<lambda>r r'. ?k r \<le> ?k r') rows" unfolding rows_def by (rule sorted_wrt_take)
  then have desc: "sorted_wrt (\<lambda>r r'. re_score r' \<le> re_score r) rows" by (rule sorted_wrt_mono_rel [rotated]) auto
  have last: "r \<in> set (recs d) \<and> (\<forall>r' \<in> set (recs d). re_user r' = re_user r \<longrightarrow> re_generated r' \<le> re_generated r)"
    if "r \<in> set ?last" for r
  proof -
    let ?g = "\<lambda>r. (- re_generated r, tie (re_id r))" and ?rs = "filter (\<lambda>r. known_client d (re_user r)) (recs d)"
    have r: "r \<in> set (recs d)" "known_client d (re_user r)"
      using that distinct_on_subset [of re_user "sort_key ?g ?rs"] unfolding last_recommendations_def by auto
    have "re_generated r' \<le> re_generated r" if r': "r' \<in> set (recs d)" "re_user r' = re_user r" for r'
    proof -
      have "r' \<in> set (sort_key ?g ?rs)" using r r' by simp
      from distinct_on_first [OF sort_key_wrt _ this, of re_user]
      obtain y where y: "y \<in> set ?last" "re_user y = re_user r'" "?g y \<le> ?g r'"
        unfolding last_recommendations_def by auto
      have "y = r" using \<open>distinct (map re_user ?last)\<close> y(1,2) \<open>r \<in> set ?last\<close> r'(2) by (auto simp: distinct_map inj_on_def)
      then show ?thesis using y(3) by auto
    qed
    with r show ?thesis by blast
  qed
  have rest: "r \<in> set rows \<or> (length rows = limit \<and> (\<forall>r' \<in> set rows. re_score r \<le> re_score r'))" if r: "r \<in> set ?last" for r
  proof (cases "r \<in> set rows")
    case False
    have "r \<in> set ?srt" using r by simp
    then have "r \<in> set (drop limit ?srt)" using False unfolding rows_def
      by (metis Un_iff append_take_drop_id set_append)
    then have "limit < length ?srt" by (metis drop_all empty_iff list.set(1) not_le)
    moreover have "sorted_wrt (\<lambda>r r'. ?k r \<le> ?k r') (rows @ drop limit ?srt)" unfolding rows_def append_take_drop_id by (rule srt)
    then have "?k r' \<le> ?k r" if "r' \<in> set rows" for r'
      using that \<open>r \<in> set (drop limit ?srt)\<close> unfolding sorted_wrt_append by blast
    then have "re_score r \<le> re_score r'" if "r' \<in> set rows" for r' using that by fastforce
    moreover have "length rows = min limit (length ?srt)" by (simp add: rows_def min.commute)
    ultimately show ?thesis by simp
  qed simp
  have "set rows \<subseteq> set ?last" unfolding rows_def using set_take_subset by fastforce
  moreover have "length rows \<le> limit" by (simp add: rows_def)
  ultimately show ?thesis using cs dist desc last rest by (intro exI [of _ rows]) blast
qed

section \<open>An explanation from end to end\<close>

lemma explain_rejects: "explain_recommendations env sigmoid g w user k s = (Reject n, s') \<Longrightarrow> n \<in> {404, 422, 503}"
  by (auto simp: explain_recommendations_def recommend_def Let_def
      split: answer.splits prod.splits option.splits if_splits json.splits sum.splits)

text \<open>Asking for an explanation writes nothing on either side: the database, the topic and Redis of the
  recommendation API are as before; and an explanation is shown only if the token was one of the
  campaign manager.\<close>

theorem explanation_reads_only:
  assumes "alone env" "explain_endpoint dec body env sigmoid g w creds user k s = (up, s')"
  shows "rs_db s' = rs_db s \<and> rs_version s' = rs_version s \<and> rs_topic s' = rs_topic s \<and> br_redis (rs_bre s') = br_redis (rs_bre s) \<and>
    (\<forall>kvs. ml_explain k up = Reply kvs \<longrightarrow>
      (\<exists>tok claims resp. creds = Some tok \<and> dec tok = Some claims \<and> jget claims ''type'' = JStr SERVICE_TYPE \<and>
         jget claims ''iss'' = JStr ISSUER_CAMPAIGN_MANAGER \<and> body resp = JObj kvs))"
proof -
  obtain a s1 where e: "explain_recommendations env sigmoid g w (uuid_text user) k s = (a, s1)" by fastforce
  have keep: "rs_db s1 = rs_db s \<and> rs_version s1 = rs_version s \<and> rs_topic s1 = rs_topic s \<and>
      br_redis (rs_bre s1) = br_redis (rs_bre s)" by (rule explain_keeps [OF assms(1) e])
  have s': "s' = s \<or> s' = s1"
    using assms(2) e by (auto simp: explain_endpoint_def split: answer.splits)
  have "\<exists>tok claims resp. creds = Some tok \<and> dec tok = Some claims \<and> jget claims ''type'' = JStr SERVICE_TYPE \<and>
         jget claims ''iss'' = JStr ISSUER_CAMPAIGN_MANAGER \<and> body resp = JObj kvs" if "ml_explain k up = Reply kvs" for kvs
  proof -
    have up: "up = UpAnswer 200 (Some (JObj kvs))"
      using that by (auto simp: ml_explain_def split: upstream.splits option.splits json.splits if_splits)
    obtain claims where c: "require_campaign_manager dec creds = Reply claims"
      using assms(2) up by (cases "require_campaign_manager dec creds")
        (auto simp: explain_endpoint_def require_campaign_manager_def authorize_def decode_service_token_def
          split: option.splits json.splits if_splits)
    have "\<exists>resp. body resp = JObj kvs" using assms(2) up c e explain_rejects [of env sigmoid g w "uuid_text user" k s 200 s']
      by (auto simp: explain_endpoint_def split: answer.splits)
    then show ?thesis using c
      by (auto simp: require_campaign_manager_def authorize_def decode_service_token_def split: option.splits json.splits if_splits answer.splits)
  qed
  then show ?thesis using s' keep by auto
qed


theorem explanation_reads_only_witness:
  "rs_db (snd (explain_endpoint (\<lambda>_. None) (\<lambda>_. JObj []) sample_rec_env (\<lambda>x. x) new_generator sample_watcher (Some ''t'') 3 5 sample_rec)) =
     rs_db sample_rec"
  by (rule explanation_reads_only [OF sample_alone surjective_pairing, THEN conjunct1])

theorem customers_show_last_scores_witness:
  "\<forall>cs. ml_customers id id (\<lambda>_. 0) 20 sample_db = Reply cs \<longrightarrow> length cs \<le> 20"
proof (intro allI impI)
  fix cs assume "ml_customers id id (\<lambda>_. 0) 20 sample_db = Reply cs"
  from customers_show_last_scores [OF this] obtain rows :: "rec_row list"
    where "map mc_id cs = map (uuid_text \<circ> re_user) rows" "length rows \<le> 20" by blast
  then show "length cs \<le> 20" by (metis length_map)
qed

text \<open>The code of clothing that the pages offer is not in the registry of the ETL: its purchases can be paid, but
  are rejected before they reach ClickHouse.\<close>

lemma offered_code_not_registered: "\<exists>c \<in> set MCC_CATEGORIES. \<not> is_valid_mcc (JStr (fst c))"
proof
  show "(''5600'', ''shirt'') \<in> set MCC_CATEGORIES" by (simp add: MCC_CATEGORIES_def)
  show "\<not> is_valid_mcc (JStr (fst (''5600'', ''shirt'')))" by (simp add: is_valid_mcc_def MCC_REGISTRY_def)
qed

end
