(* ===== verification/Features.thy ===== *)
theory Features
  imports Ranking EtlValidator
begin

text \<open>
  The features of the clients (\<^verbatim>\<open>services/etl/app/feature_eng.py\<close>): the query over the loaded
  transactions, what is written to the table of features and to Redis, and what the feature store of the
  recommendation API then reads (\<^verbatim>\<open>Ranking\<close>).

  \<open>rfm_env\<close> says what happens around one run: the clock and calendar of ClickHouse, its \<^verbatim>\<open>uniq\<close> and \<^verbatim>\<open>avg\<close>
  (an estimate and a quotient of doubles), the text of a \<^verbatim>\<open>Decimal\<close>, the clock of Redis, and what fails. The flag of a
  failure says that the call was carried out all the same. The pipeline of \<^verbatim>\<open>redis-py\<close> is one
  transaction. A cell is what pandas holds; a UUID and a \<^verbatim>\<open>Decimal\<close> become texts by \<^verbatim>\<open>default=str\<close>.
\<close>

section \<open>The query\<close>

definition TOP50_MCC :: "string list" where
  "TOP50_MCC = [''5411'', ''5812'', ''5814'', ''5541'', ''5499'', ''5912'', ''5311'', ''5651'',
    ''5732'', ''5942'', ''5921'', ''5462'', ''4111'', ''4121'', ''4131'', ''4814'',
    ''4829'', ''4900'', ''7832'', ''7011'', ''7299'', ''7211'', ''7230'', ''7538'',
    ''7995'', ''8011'', ''8021'', ''8062'', ''8099'', ''8211'', ''8398'', ''8999'',
    ''5993'', ''5995'', ''5970'', ''5945'', ''5947'', ''5946'', ''5641'', ''5611'',
    ''5621'', ''5712'', ''5722'', ''5933'', ''5200'', ''5599'', ''5331'', ''5300'',
    ''4511'', ''5691'']"

record raw_tx =
  rt_user :: uuid
  rt_mcc :: string
  rt_amount :: money
  rt_at :: time

datatype cell = CNull | CInt int | CFloat rat | CDec money | CUuid uuid

type_synonym frame_row = "(string \<times> cell) list"

record rfm_env =
  rf_now :: time
  rf_since :: "int \<Rightarrow> time"
  rf_day :: "time \<Rightarrow> int"
  rf_month :: "time \<Rightarrow> int"
  rf_weekday :: "time \<Rightarrow> int"
  rf_hour :: "time \<Rightarrow> int"
  rf_uniq :: "string list \<Rightarrow> nat"
  rf_avg :: "rat \<Rightarrow> nat \<Rightarrow> rat"
  rf_dec :: "money \<Rightarrow> string"
  rf_query :: "exn option"
  rf_insert :: "(exn \<times> bool) option"
  rf_exec :: "(exn \<times> bool) option"
  rf_redis :: time
  rf_ttl :: int

definition freq_cols :: "string list \<Rightarrow> raw_tx list \<Rightarrow> frame_row" where
  "freq_cols codes ts = map (\<lambda>m. (''freq_'' @ m, CInt (int (length (filter (\<lambda>t. rt_mcc t = m) ts))))) codes"

definition amt_cols :: "string list \<Rightarrow> raw_tx list \<Rightarrow> frame_row" where
  "amt_cols codes ts = map (\<lambda>m. (''amt_'' @ m, CDec (sum_list (map rt_amount (filter (\<lambda>t. rt_mcc t = m) ts))))) codes"

definition share :: "rfm_env \<Rightarrow> (raw_tx \<Rightarrow> bool) \<Rightarrow> raw_tx list \<Rightarrow> cell" where
  "share env p ts = CFloat (rf_avg env (of_nat (length (filter p ts))) (length ts))"

text \<open>The transactions of one client; there is at least one.\<close>

definition base_cols :: "rfm_env \<Rightarrow> raw_tx list \<Rightarrow> frame_row" where
  "base_cols env ts =
    [(''recency_days'', CInt (rf_day env (rf_now env) - rf_day env (Max (set (map rt_at ts))))),
     (''frequency_total'', CInt (int (length ts))),
     (''monetary_total'', CDec (sum_list (map rt_amount ts))),
     (''avg_ticket'', CFloat (rf_avg env (sum_list (map rt_amount ts)) (length ts))),
     (''weekend_ratio'', share env (\<lambda>t. 6 \<le> rf_weekday env (rt_at t)) ts),
     (''evening_ratio'', share env (\<lambda>t. 18 \<le> rf_hour env (rt_at t) \<and> rf_hour env (rt_at t) \<le> 21) ts),
     (''distinct_mcc_count'', CInt (int (rf_uniq env (map rt_mcc ts))))]"

definition rfm_row :: "rfm_env \<Rightarrow> raw_tx list \<Rightarrow> uuid \<Rightarrow> frame_row" where
  "rfm_row env ts u = (''user_id'', CUuid u) # base_cols env ts @ freq_cols TOP50_MCC ts @ amt_cols TOP50_MCC ts @
     [(''tenure_months'', CInt (rf_month env (rf_now env) - rf_month env (Min (set (map rt_at ts)))))]"

definition rfm_window :: "rfm_env \<Rightarrow> int \<Rightarrow> raw_tx list \<Rightarrow> raw_tx list" where
  "rfm_window env days txs = filter (\<lambda>t. rf_since env days \<le> rt_at t) txs"

definition of_client :: "raw_tx list \<Rightarrow> uuid \<Rightarrow> raw_tx list" where
  "of_client ts u = filter (\<lambda>t. rt_user t = u) ts"

definition rfm_query :: "rfm_env \<Rightarrow> int \<Rightarrow> raw_tx list \<Rightarrow> frame_row list" where
  "rfm_query env days txs = (let ts = rfm_window env days txs in
     map (\<lambda>u. rfm_row env (of_client ts u) u) (remdups (map rt_user ts)))"

section \<open>The run\<close>

definition fillna :: "frame_row \<Rightarrow> frame_row" where
  "fillna = map (\<lambda>(c, v). (c, if c \<noteq> ''user_id'' \<and> v = CNull then CInt 0 else v))"

fun dump_cell :: "rfm_env \<Rightarrow> cell \<Rightarrow> json" where
  "dump_cell env CNull = JNull"
| "dump_cell env (CInt n) = JInt n"
| "dump_cell env (CFloat x) = JFloat x"
| "dump_cell env (CDec d) = JStr (rf_dec env d)"
| "dump_cell env (CUuid u) = JStr (uuid_text u)"

definition payload :: "rfm_env \<Rightarrow> frame_row \<Rightarrow> (string \<times> json) list" where
  "payload env r = map (\<lambda>(c, v). (c, dump_cell env v)) r"

text \<open>\<^verbatim>\<open>str(record["user_id"])\<close>.\<close>

definition cell_text :: "frame_row \<Rightarrow> string" where
  "cell_text r = (case map_of r ''user_id'' of Some (CUuid u) \<Rightarrow> uuid_text u | _ \<Rightarrow> ''None'')"

definition set_features :: "rfm_env \<Rightarrow> frame_row \<Rightarrow> store \<Rightarrow> store" where
  "set_features env r st = kv_setex (rf_redis env) st (features_key (cell_text r)) (rf_ttl env) (VJson (JObj (payload env r)))"

definition push_to_redis :: "rfm_env \<Rightarrow> frame_row list \<Rightarrow> store \<Rightarrow> (exn + nat) \<times> store" where
  "push_to_redis env df st = (let st1 = fold (set_features env) df st in
     case rf_exec env of
       Some (e, applied) \<Rightarrow> (Inl e, if applied \<and> 0 < rf_ttl env then st1 else st)
     | None \<Rightarrow> if rf_ttl env \<le> 0 then (Inl (py_error ''ResponseError''), st) else (Inr (length df), st1))"

record features =
  ft_table :: "(time \<times> frame_row) list"
  ft_store :: store

definition rfm_run :: "rfm_env \<Rightarrow> int \<Rightarrow> raw_tx list \<Rightarrow> features \<Rightarrow> (exn + nat) \<times> features" where
  "rfm_run env days txs s =
    (if days \<le> 0 then (Inl (py_error ''ValueError''), s)
     else case rf_query env of
       Some e \<Rightarrow> (Inl e, s)
     | None \<Rightarrow>
        (let df = map fillna (rfm_query env days txs);
             s1 = s\<lparr>ft_table := ft_table s @ map (Pair (rf_now env)) df\<rparr> in
         if df = [] then (Inr 0, s)
         else case rf_insert env of
           Some (e, applied) \<Rightarrow> (Inl e, if applied then s1 else s)
         | None \<Rightarrow>
            (case push_to_redis env df (ft_store s1) of
               (Inl e, st) \<Rightarrow> (Inl e, s1\<lparr>ft_store := st\<rparr>)
             | (Inr n, st) \<Rightarrow> (Inr (length df), s1\<lparr>ft_store := st\<rparr>))))"

text \<open>The row of the table the feature store asks for when Redis has nothing: the last computed one of the
  client. (The table replaces older rows of a client; the last one is the answer either way.)\<close>

definition table_row :: "features \<Rightarrow> string \<Rightarrow> frame_row option" where
  "table_row s user = (case filter (\<lambda>(c, r). cell_text r = user) (sort_key fst (ft_table s)) of
     [] \<Rightarrow> None
   | rs \<Rightarrow> Some (snd (List.last rs)))"

section \<open>The columns of a row\<close>

lemma top50_distinct: "distinct TOP50_MCC"
  by code_simp

lemma freq_cols_names: "map fst (freq_cols codes ts) = map ((@) ''freq_'') codes"
  by (simp add: freq_cols_def comp_def)

lemma amt_cols_names: "map fst (amt_cols codes ts) = map ((@) ''amt_'') codes"
  by (simp add: amt_cols_def comp_def)

lemma base_cols_names: "map fst (base_cols env ts) =
    [''recency_days'', ''frequency_total'', ''monetary_total'', ''avg_ticket'', ''weekend_ratio'', ''evening_ratio'',
     ''distinct_mcc_count'']"
  by (simp add: base_cols_def)

lemma append_inj: "inj_on ((@) p) A"
  by (simp add: inj_on_def)

lemma row_names_distinct: "distinct (map fst (rfm_row env ts u))"
  by (auto simp: rfm_row_def base_cols_names freq_cols_names amt_cols_names distinct_map top50_distinct append_inj)

lemma row_client [simp]: "cell_text (rfm_row env ts u) = uuid_text u"
  by (simp add: cell_text_def rfm_row_def)

lemma row_no_null: "(c, v) \<in> set (rfm_row env ts u) \<Longrightarrow> v \<noteq> CNull"
  by (auto simp: rfm_row_def base_cols_def freq_cols_def amt_cols_def share_def)

lemma fillna_row [simp]: "fillna (rfm_row env ts u) = rfm_row env ts u"
  unfolding fillna_def by (rule map_idI) (auto dest: row_no_null)

lemma jget_member:
  assumes "distinct (map fst kvs)" "(k, v) \<in> set kvs"
  shows "jget kvs k = v"
  using map_of_is_SomeI [of "rev kvs" k v] assms by (simp add: jget_def members_def rev_map [symmetric])

lemma payload_cell:
  assumes "(c, v) \<in> set (rfm_row env ts u)"
  shows "jget (payload env (rfm_row env ts u)) c = dump_cell env v"
proof (rule jget_member)
  have "map fst (payload env (rfm_row env ts u)) = map fst (rfm_row env ts u)"
    by (simp add: payload_def case_prod_unfold comp_def)
  then show "distinct (map fst (payload env (rfm_row env ts u)))" by (simp add: row_names_distinct)
  show "(c, dump_cell env v) \<in> set (payload env (rfm_row env ts u))"
    using assms by (force simp: payload_def)
qed

lemma features_key_inj [simp]: "features_key a = features_key b \<longleftrightarrow> a = b"
  by (simp add: features_key_def)

section \<open>What a run writes\<close>

lemma set_features_other:
  "k \<notin> (\<lambda>r. features_key (cell_text r)) ` set df \<Longrightarrow> fold (set_features env) df st k = st k"
  by (induction df arbitrary: st) (auto simp: set_features_def kv_setex_def kv_set_def)

lemma set_features_own:
  assumes "distinct (map cell_text df)" "r \<in> set df" "now < rf_redis env + rf_ttl env * second_us"
  shows "kv_get now (fold (set_features env) df st) (features_key (cell_text r)) = Some (VJson (JObj (payload env r)))"
  using assms(1,2)
proof (induction df arbitrary: st)
  case (Cons x df)
  show ?case
  proof (cases "r \<in> set df")
    case True
    then show ?thesis using Cons by simp
  next
    case False
    then have "r = x" using Cons.prems by simp
    moreover have "features_key (cell_text x) \<notin> (\<lambda>r. features_key (cell_text r)) ` set df"
      using Cons.prems(1) by auto
    ultimately show ?thesis
      using assms(3) by (simp add: kv_get_def set_features_other) (simp add: set_features_def kv_setex_def kv_set_def)
  qed
qed simp

lemma query_clients: "map cell_text (rfm_query env days txs) = map uuid_text (remdups (map rt_user (rfm_window env days txs)))"
  by (simp add: rfm_query_def Let_def comp_def)

lemma query_distinct:
  assumes "\<And>t. t \<in> set txs \<Longrightarrow> rt_user t < 2 ^ 128"
  shows "distinct (map cell_text (rfm_query env days txs))"
  unfolding query_clients distinct_map
  by (auto simp: inj_on_def rfm_window_def intro: uuid_text_inj [OF assms assms])

lemma fillna_query [simp]: "map fillna (rfm_query env days txs) = rfm_query env days txs"
  by (simp add: rfm_query_def Let_def comp_def)

lemma run_returned:
  assumes "rfm_run env days txs s = (Inr n, s')"
  shows "n = length (rfm_query env days txs) \<and>
    (rfm_query env days txs = [] \<and> s' = s \<or>
     0 < rf_ttl env \<and>
     s' = \<lparr>ft_table = ft_table s @ map (Pair (rf_now env)) (rfm_query env days txs),
           ft_store = fold (set_features env) (rfm_query env days txs) (ft_store s)\<rparr>)"
  using assms by (auto simp: rfm_run_def push_to_redis_def Let_def split: if_splits option.splits sum.splits prod.splits)

lemma run_table:
  assumes "rfm_run env days txs s = (res, s')"
  shows "ft_table s' = ft_table s \<or> ft_table s' = ft_table s @ map (Pair (rf_now env)) (rfm_query env days txs)"
  using assms by (auto simp: rfm_run_def push_to_redis_def Let_def split: if_splits option.splits sum.splits prod.splits)

lemma run_store:
  assumes "rfm_run env days txs s = (res, s')"
  shows "ft_store s' = ft_store s \<or> ft_store s' = fold (set_features env) (rfm_query env days txs) (ft_store s)"
  using assms by (auto simp: rfm_run_def push_to_redis_def Let_def split: if_splits option.splits sum.splits prod.splits)

lemma counts_by_code:
  "distinct codes \<Longrightarrow> (\<Sum>m\<leftarrow>codes. length (filter (\<lambda>t. rt_mcc t = m) ts)) = length (filter (\<lambda>t. rt_mcc t \<in> set codes) ts)"
proof (induction codes)
  case (Cons m codes)
  have "length (filter (\<lambda>t. rt_mcc t = m) ts) + length (filter (\<lambda>t. rt_mcc t \<in> set codes) ts) =
      length (filter (\<lambda>t. rt_mcc t = m \<or> rt_mcc t \<in> set codes) ts)"
    using Cons.prems by (induction ts) auto
  then show ?case using Cons by simp
qed simp

section \<open>What the feature store reads\<close>

definition freq_value :: "json \<Rightarrow> int" where
  "freq_value v = (case v of JInt n \<Rightarrow> n | _ \<Rightarrow> 0)"

lemma client_in_query:
  assumes "of_client (rfm_window env days txs) u \<noteq> []"
  shows "rfm_row env (of_client (rfm_window env days txs) u) u \<in> set (rfm_query env days txs)"
  using assms by (auto simp: rfm_query_def Let_def of_client_def filter_empty_conv)

lemma row_columns:
  "jget (payload env (rfm_row env ts u)) ''user_id'' = JStr (uuid_text u)"
  "jget (payload env (rfm_row env ts u)) ''frequency_total'' = JInt (int (length ts))"
  "jget (payload env (rfm_row env ts u)) ''monetary_total'' = JStr (rf_dec env (sum_list (map rt_amount ts)))"
  "m \<in> set TOP50_MCC \<Longrightarrow> jget (payload env (rfm_row env ts u)) (''freq_'' @ m) =
     JInt (int (length (filter (\<lambda>t. rt_mcc t = m) ts)))"
  "m \<in> set TOP50_MCC \<Longrightarrow> jget (payload env (rfm_row env ts u)) (''amt_'' @ m) =
     JStr (rf_dec env (sum_list (map rt_amount (filter (\<lambda>t. rt_mcc t = m) ts))))"
proof -
  let ?r = "rfm_row env ts u"
  have "(''user_id'', CUuid u) \<in> set ?r" by (simp add: rfm_row_def)
  from payload_cell [OF this] show "jget (payload env ?r) ''user_id'' = JStr (uuid_text u)" by simp
  have "(''frequency_total'', CInt (int (length ts))) \<in> set ?r" by (simp add: rfm_row_def base_cols_def)
  from payload_cell [OF this] show "jget (payload env ?r) ''frequency_total'' = JInt (int (length ts))" by simp
  have "(''monetary_total'', CDec (sum_list (map rt_amount ts))) \<in> set ?r" by (simp add: rfm_row_def base_cols_def)
  from payload_cell [OF this]
  show "jget (payload env ?r) ''monetary_total'' = JStr (rf_dec env (sum_list (map rt_amount ts)))" by simp
  assume m: "m \<in> set TOP50_MCC"
  have "(''freq_'' @ m, CInt (int (length (filter (\<lambda>t. rt_mcc t = m) ts)))) \<in> set ?r"
    using m by (auto simp: rfm_row_def freq_cols_def)
  from payload_cell [OF this]
  show "jget (payload env ?r) (''freq_'' @ m) = JInt (int (length (filter (\<lambda>t. rt_mcc t = m) ts)))" by simp
  have "(''amt_'' @ m, CDec (sum_list (map rt_amount (filter (\<lambda>t. rt_mcc t = m) ts)))) \<in> set ?r"
    using m by (auto simp: rfm_row_def amt_cols_def)
  from payload_cell [OF this]
  show "jget (payload env ?r) (''amt_'' @ m) = JStr (rf_dec env (sum_list (map rt_amount (filter (\<lambda>t. rt_mcc t = m) ts))))"
    by simp
qed

lemma row_frequencies:
  "(\<Sum>m\<leftarrow>TOP50_MCC. freq_value (jget (payload env (rfm_row env ts u)) (''freq_'' @ m))) =
    int (length (filter (\<lambda>t. rt_mcc t \<in> set TOP50_MCC) ts))"
proof -
  have "map (\<lambda>m. freq_value (jget (payload env (rfm_row env ts u)) (''freq_'' @ m))) TOP50_MCC =
      map (\<lambda>m. int (length (filter (\<lambda>t. rt_mcc t = m) ts))) TOP50_MCC"
    by (rule map_cong) (simp_all only: row_columns freq_value_def json.case refl)
  then show ?thesis
    by (simp only: counts_by_code [OF top50_distinct, symmetric] sum_list_of_nat [symmetric] map_map comp_def)
qed

text \<open>After a run that returned, the feature store of the recommendation API answers for every client who bought
  something in the window, as long as the keys live, with the features of exactly that client's purchases in the
  window, from Redis: their number, their sum, and both per category of the fifty, where every purchase is
  counted in at most one category. The run returns the number of these clients.\<close>

theorem features_are_served:
  assumes run: "rfm_run env days txs s = (Inr n, s')"
    and ids: "\<And>t. t \<in> set txs \<Longrightarrow> rt_user t < 2 ^ 128"
    and mine: "ts = of_client (rfm_window env days txs) u" "ts \<noteq> []"
    and read: "fe_get fenv = None" "fe_now fenv < rf_redis env + rf_ttl env * second_us"
  shows "\<exists>kvs. fs_get fenv warm (uuid_text u) (ft_store s') = (Some (JObj kvs), ft_store s') \<and>
      jget kvs ''user_id'' = JStr (uuid_text u) \<and>
      jget kvs ''frequency_total'' = JInt (int (length ts)) \<and>
      jget kvs ''monetary_total'' = JStr (rf_dec env (sum_list (map rt_amount ts))) \<and>
      (\<forall>m \<in> set TOP50_MCC.
         jget kvs (''freq_'' @ m) = JInt (int (length (filter (\<lambda>t. rt_mcc t = m) ts))) \<and>
         jget kvs (''amt_'' @ m) = JStr (rf_dec env (sum_list (map rt_amount (filter (\<lambda>t. rt_mcc t = m) ts))))) \<and>
      (\<Sum>m\<leftarrow>TOP50_MCC. freq_value (jget kvs (''freq_'' @ m))) =
        int (length (filter (\<lambda>t. rt_mcc t \<in> set TOP50_MCC) ts)) \<and>
      n = card (rt_user ` set (rfm_window env days txs))"
proof -
  let ?q = "rfm_query env days txs" and ?r = "rfm_row env ts u"
  have mem: "?r \<in> set ?q" using client_in_query [of env days txs u] mine by simp
  then have st: "ft_store s' = fold (set_features env) ?q (ft_store s)" and n: "n = length ?q"
    using run_returned [OF run] by auto
  have "kv_get (fe_now fenv) (ft_store s') (features_key (uuid_text u)) = Some (VJson (JObj (payload env ?r)))"
    using set_features_own [OF query_distinct [OF ids] mem read(2)] by (simp add: st)
  then have "fs_get fenv warm (uuid_text u) (ft_store s') = (Some (JObj (payload env ?r)), ft_store s')"
    using read(1) by (simp add: fs_get_def from_redis_def)
  moreover have "n = card (rt_user ` set (rfm_window env days txs))"
    by (simp add: n rfm_query_def Let_def length_remdups_card_conv)
  ultimately show ?thesis
    by (intro exI [of _ "payload env ?r"] conjI ballI) (simp_all only: row_columns row_frequencies)
qed

text \<open>A client with no purchase in the window keeps the row and the key of the last run that saw one, whatever
  becomes of the run: the fallback goes on answering with a recency that is not counted on.\<close>

lemma lapsed_client_keeps_features:
  assumes run: "rfm_run env days txs s = (res, s')"
    and ids: "\<And>t. t \<in> set txs \<Longrightarrow> rt_user t < 2 ^ 128" "u < 2 ^ 128"
    and none: "of_client (rfm_window env days txs) u = []"
  shows "table_row s' (uuid_text u) = table_row s (uuid_text u) \<and>
    ft_store s' (features_key (uuid_text u)) = ft_store s (features_key (uuid_text u))"
proof -
  have other: "uuid_text u \<noteq> cell_text r" if r: "r \<in> set (rfm_query env days txs)" for r
  proof
    assume eq: "uuid_text u = cell_text r"
    obtain t where t: "t \<in> set (rfm_window env days txs)" "cell_text r = uuid_text (rt_user t)"
      using r by (auto simp: rfm_query_def Let_def)
    then have "rt_user t = u" using eq ids by (auto simp: rfm_window_def intro: uuid_text_inj)
    then show False using t none by (auto simp: of_client_def filter_empty_conv)
  qed
  have "filter (\<lambda>(c, r). cell_text r = uuid_text u) (map (Pair (rf_now env)) (rfm_query env days txs)) = []"
    using other [symmetric] by (auto simp: filter_empty_conv)
  then have "table_row s' (uuid_text u) = table_row s (uuid_text u)"
    using run_table [OF run] by (auto simp: table_row_def filter_sort)
  moreover have "features_key (uuid_text u) \<notin> (\<lambda>r. features_key (cell_text r)) ` set (rfm_query env days txs)"
    by (auto dest: other)
  then have "ft_store s' (features_key (uuid_text u)) = ft_store s (features_key (uuid_text u))"
    using run_store [OF run] by (auto simp: set_features_other)
  ultimately show ?thesis by simp
qed

text \<open>One of the fifty codes is in no loaded purchase: its two columns are always zero.\<close>

lemma dead_feature_columns: "''7538'' \<in> set TOP50_MCC \<and> ''7538'' \<notin> set MCC_REGISTRY"
  by code_simp

section \<open>An instance\<close>

definition sample_rfm_env :: rfm_env where
  "sample_rfm_env = \<lparr>rf_now = 100 * day_us, rf_since = (\<lambda>d. (100 - d) * day_us), rf_day = (\<lambda>t. t div day_us),
     rf_month = (\<lambda>t. t div (30 * day_us)), rf_weekday = (\<lambda>t. (t div day_us + 3) mod 7 + 1),
     rf_hour = (\<lambda>t. t mod day_us div hour_us), rf_uniq = (\<lambda>xs. length (remdups xs)), rf_avg = (\<lambda>x n. x / of_nat n),
     rf_dec = (\<lambda>x. if x = 30 then ''30.00'' else ''other''), rf_query = None, rf_insert = None, rf_exec = None,
     rf_redis = 100 * day_us, rf_ttl = 3600\<rparr>"

definition sample_raw :: "raw_tx list" where
  "sample_raw = [\<lparr>rt_user = 7, rt_mcc = ''5411'', rt_amount = 10, rt_at = 99 * day_us\<rparr>,
     \<lparr>rt_user = 8, rt_mcc = ''5411'', rt_amount = 50, rt_at = 98 * day_us\<rparr>,
     \<lparr>rt_user = 7, rt_mcc = ''5999'', rt_amount = 20, rt_at = 97 * day_us\<rparr>,
     \<lparr>rt_user = 7, rt_mcc = ''5812'', rt_amount = 5, rt_at = 1 * day_us\<rparr>]"

definition sample_features :: features where
  "sample_features = \<lparr>ft_table = [], ft_store = (\<lambda>_. None)\<rparr>"

definition sample_fs_env :: fs_env where
  "sample_fs_env = \<lparr>fe_now = 100 * day_us + second_us, fe_get = None, fe_set = None, fe_ch = None, fe_ttl = 3600\<rparr>"

lemma sample_window: "of_client (rfm_window sample_rfm_env 90 sample_raw) 7 = [sample_raw ! 0, sample_raw ! 2]"
  "rt_user ` set (rfm_window sample_rfm_env 90 sample_raw) = {7, 8}"
  by (auto simp: of_client_def rfm_window_def sample_rfm_env_def sample_raw_def day_us_def hour_us_def second_us_def)

lemma sample_returns: "\<exists>s'. rfm_run sample_rfm_env 90 sample_raw sample_features = (Inr 2, s')"
  by (simp add: rfm_run_def push_to_redis_def Let_def sample_rfm_env_def rfm_query_def rfm_window_def sample_raw_def
      day_us_def hour_us_def second_us_def)

theorem features_are_served_witness:
  "\<exists>s' kvs. rfm_run sample_rfm_env 90 sample_raw sample_features = (Inr 2, s') \<and>
    fs_get sample_fs_env False (uuid_text 7) (ft_store s') = (Some (JObj kvs), ft_store s') \<and>
    jget kvs ''frequency_total'' = JInt 2 \<and> jget kvs ''monetary_total'' = JStr ''30.00'' \<and> jget kvs ''freq_5411'' = JInt 1"
proof -
  obtain s' where run: "rfm_run sample_rfm_env 90 sample_raw sample_features = (Inr 2, s')"
    using sample_returns by blast
  have ids: "\<And>t. t \<in> set sample_raw \<Longrightarrow> rt_user t < 2 ^ 128" by (auto simp: sample_raw_def)
  have m: "''5411'' \<in> set TOP50_MCC" by (simp add: TOP50_MCC_def)
  show ?thesis
    using features_are_served [OF run ids sample_window(1) [symmetric], of sample_fs_env False] run m
    by (force simp: sample_fs_env_def sample_rfm_env_def sample_raw_def second_us_def)
qed

end
