(* ===== verification/Psi.thy ===== *)
theory Psi
  imports Promotion
begin

text \<open>
  The drift of a feature between two training runs (\<^verbatim>\<open>services/ml_training/app/psi.py\<close>): the PSI of two samples
  and of two summaries of percentiles, and what the gate of \<^verbatim>\<open>promote_model.py\<close> makes of the latter.

  What numpy computes is written out in exact arithmetic (\<^verbatim>\<open>linspace\<close>, \<^verbatim>\<open>interp\<close>, \<^verbatim>\<open>quantile\<close>, \<^verbatim>\<open>unique\<close>,
  \<^verbatim>\<open>histogram\<close>, \<^verbatim>\<open>allclose\<close>); rounding is left out. The logarithm is the parameter \<open>lg\<close>. A sample is a list
  of optional values, \<open>None\<close> for a NaN or a cell that is no number.
\<close>

section \<open>Arrays\<close>

definition EPS :: rat where "EPS = 1 / 1000000"

definition linspace :: "nat \<Rightarrow> rat list" where
  "linspace n = map (\<lambda>i. of_nat i / of_nat (n - 1)) [0..<n]"

fun interp_from :: "rat list \<Rightarrow> rat list \<Rightarrow> rat \<Rightarrow> rat" where
  "interp_from (x0 # x1 # xs) (f0 # f1 # fs) x =
     (if x < x1 then f0 + (f1 - f0) / (x1 - x0) * (x - x0) else interp_from (x1 # xs) (f1 # fs) x)"
| "interp_from xs (f0 # fs) x = f0"
| "interp_from xs [] x = 0"

definition interp :: "rat \<Rightarrow> rat \<Rightarrow> rat list \<Rightarrow> rat list \<Rightarrow> rat \<Rightarrow> rat" where
  "interp left right xs fs x =
     (if x < hd xs then left else if List.last xs < x then right else interp_from xs fs x)"

definition allclose :: "rat list \<Rightarrow> rat \<Rightarrow> bool" where
  "allclose xs y = list_all (\<lambda>x. \<bar>x - y\<bar> \<le> 1 / 10 ^ 8 + \<bar>y\<bar> / 10 ^ 5) xs"

definition quantiles_of :: "nat \<Rightarrow> rat list \<Rightarrow> rat list" where
  "quantiles_of bins qs = map (interp (hd qs) (List.last qs) (linspace (length qs)) qs) (linspace (bins + 1))"

definition psi_term :: "(rat \<Rightarrow> rat) \<Rightarrow> rat \<Rightarrow> rat \<Rightarrow> rat" where
  "psi_term lg c r = (c - r) * lg (c / r)"

section \<open>Two samples\<close>

definition histogram :: "rat list \<Rightarrow> rat list \<Rightarrow> nat list" where
  "histogram inner xs = map (\<lambda>k. length (filter (\<lambda>x. length (filter (\<lambda>e. e \<le> x) inner) = k) xs)) [0..<Suc (length inner)]"

definition shares :: "rat list \<Rightarrow> rat list \<Rightarrow> rat list" where
  "shares inner xs = map (\<lambda>n. if n = 0 then EPS else of_nat n / of_nat (length xs)) (histogram inner xs)"

text \<open>The outer edges become infinite, so only the inner ones matter.\<close>

definition compute_psi :: "(rat \<Rightarrow> rat) \<Rightarrow> nat \<Rightarrow> rat option list \<Rightarrow> rat option list \<Rightarrow> rat" where
  "compute_psi lg bins reference current =
    (let ref = List.map_filter id reference; cur = List.map_filter id current in
     if ref = [] \<or> cur = [] then 0
     else if allclose ref (hd ref) \<and> allclose cur (hd cur) then 0
     else (let edges = sort (remdups (quantiles_of bins (sort ref))) in
       if length edges < 2 then 0
       else (let inner = butlast (tl edges) in
         sum_list (map2 (psi_term lg) (shares inner cur) (shares inner ref)))))"

definition compute_psi_per_feature ::
  "(rat \<Rightarrow> rat) \<Rightarrow> nat \<Rightarrow> (string \<times> rat option list) list \<Rightarrow> (string \<times> rat option list) list \<Rightarrow> (string \<times> rat) list" where
  "compute_psi_per_feature lg bins reference current =
     List.map_filter (\<lambda>(col, xs). map_option (\<lambda>ys. (col,
       if List.map_filter id xs = [] \<or> List.map_filter id ys = [] then 0 else compute_psi lg bins xs ys))
       (map_of current col)) reference"

section \<open>Two summaries\<close>

definition first_index :: "rat list \<Rightarrow> rat \<Rightarrow> nat" where
  "first_index qs v = length (takeWhile (\<lambda>x. x \<noteq> v) qs)"

text \<open>\<^verbatim>\<open>cdf_cur\<close>: percentiles read backwards; of equal values the first counts.\<close>

definition cdf_of :: "rat list \<Rightarrow> rat \<Rightarrow> rat" where
  "cdf_of qs = (let vals = sort (remdups qs) in
     interp 0 1 vals (map (\<lambda>v. linspace (length qs) ! first_index qs v) vals))"

definition bin_share :: "rat list \<Rightarrow> rat list \<Rightarrow> nat \<Rightarrow> nat \<Rightarrow> rat" where
  "bin_share edges cur bins i =
     max ((if i < bins - 1 then cdf_of cur (edges ! Suc i) else 1) - (if 0 < i then cdf_of cur (edges ! i) else 0)) EPS"

definition compute_psi_from_quantiles :: "(rat \<Rightarrow> rat) \<Rightarrow> nat \<Rightarrow> rat list \<Rightarrow> rat list \<Rightarrow> rat" where
  "compute_psi_from_quantiles lg bins ref cur =
    (if length ref < 2 \<or> length cur < 2 then 0
     else if allclose ref (hd ref) \<and> allclose cur (hd cur) then 0
     else (let edges = quantiles_of bins ref in
       sum_list (map (\<lambda>i. psi_term lg (bin_share edges cur bins i) (1 / of_nat bins)) [0..<bins])))"

section \<open>Facts about arrays\<close>

lemma linspace_length [simp]: "length (linspace n) = n"
  by (simp add: linspace_def)

lemma linspace_nth: "i < n \<Longrightarrow> linspace n ! i = of_nat i / of_nat (n - 1)"
  by (simp add: linspace_def)

lemma linspace_sorted: "2 \<le> n \<Longrightarrow> sorted_wrt (<) (linspace n)"
  by (simp add: sorted_wrt_iff_nth_less linspace_nth divide_strict_right_mono)

lemma interp_from_knot:
  "sorted_wrt (<) xs \<Longrightarrow> length fs = length xs \<Longrightarrow> j < length xs \<Longrightarrow> interp_from xs fs (xs ! j) = fs ! j"
proof (induction xs fs "xs ! j" arbitrary: j rule: interp_from.induct)
  case (1 x0 x1 xs f0 f1 fs)
  show ?case
  proof (cases j)
    case 0
    then show ?thesis using 1(2) by simp
  next
    case (Suc k)
    then have k: "k < length (x1 # xs)" using 1(4) by simp
    have "\<not> (x0 # x1 # xs) ! j < x1"
      using 1(2) k Suc by (cases k) (auto simp: not_less intro: less_imp_le)
    then show ?thesis using 1(1) [of k] 1(2,3) k Suc by simp
  qed
qed (auto simp: nth_Cons split: nat.splits)

lemma interp_knot:
  assumes "sorted_wrt (<) xs" "length fs = length xs" "j < length xs"
  shows "interp left right xs fs (xs ! j) = fs ! j"
proof -
  have s: "sorted xs" using assms(1) by (rule strict_sorted_imp_sorted)
  have "hd xs \<le> xs ! j" using s assms(3) by (cases xs) (auto simp: nth_Cons' )
  moreover have "xs ! j \<le> List.last xs"
    using s assms(3) by (subst last_conv_nth) (auto intro: sorted_nth_mono)
  ultimately show ?thesis
    using interp_from_knot [OF assms] by (simp add: interp_def)
qed

lemma edge_knot:
  assumes "length qs = bins * k + 1" "0 < k" "0 < bins" "i \<le> bins"
  shows "quantiles_of bins qs ! i = qs ! (i * k)"
proof -
  have n: "2 \<le> length qs" using assms by (cases bins; cases k) auto
  have j: "i * k < length qs" using assms by (simp add: less_Suc_eq_le)
  have "linspace (bins + 1) ! i = of_nat i / of_nat bins" using assms by (simp add: linspace_nth)
  also have "\<dots> = linspace (length qs) ! (i * k)" using assms j by (simp add: linspace_nth)
  finally have "quantiles_of bins qs ! i =
      interp (hd qs) (List.last qs) (linspace (length qs)) qs (linspace (length qs) ! (i * k))"
    using assms by (simp add: quantiles_of_def)
  also have "\<dots> = qs ! (i * k)" using n j by (intro interp_knot linspace_sorted) auto
  finally show ?thesis .
qed

lemma first_index_distinct: "distinct qs \<Longrightarrow> j < length qs \<Longrightarrow> first_index qs (qs ! j) = j"
proof (induction qs arbitrary: j)
  case (Cons x qs)
  then show ?case by (cases j) (auto simp: first_index_def)
qed simp

lemma cdf_knot:
  assumes "sorted_wrt (<) qs" "j < length qs"
  shows "cdf_of qs (qs ! j) = of_nat j / of_nat (length qs - 1)"
proof -
  have d: "distinct qs" and s: "sorted qs" using assms(1) by (auto simp: strict_sorted_iff)
  then have vals: "sort (remdups qs) = qs" by (simp add: distinct_remdups_id sorted_sort_id)
  show ?thesis
    using assms d unfolding cdf_of_def vals Let_def
    by (subst interp_knot) (simp_all add: first_index_distinct linspace_nth)
qed

section \<open>How large a drift is\<close>

text \<open>What is used of the logarithm.\<close>

definition log_like :: "(rat \<Rightarrow> rat) \<Rightarrow> bool" where
  "log_like lg = (\<forall>x. (1 \<le> x \<longrightarrow> 0 \<le> lg x) \<and> (0 < x \<and> x \<le> 1 \<longrightarrow> lg x \<le> 0))"

lemma EPS_pos [simp]: "0 < EPS"
  by (simp add: EPS_def)

lemma psi_term_nonneg:
  assumes "log_like lg" "0 < c" "0 < r"
  shows "0 \<le> psi_term lg c r"
proof (cases "r \<le> c")
  case True
  then have "1 \<le> c / r" using assms by simp
  then show ?thesis using True assms(1) by (simp add: psi_term_def log_like_def)
next
  case False
  then have "0 < c / r" "c / r \<le> 1" using assms by simp_all
  then show ?thesis using False assms(1) by (simp add: psi_term_def log_like_def mult_nonpos_nonpos)
qed

lemma bin_share_pos: "0 < bin_share edges cur bins i"
  by (simp add: bin_share_def less_max_iff_disj)

lemma quantile_psi_nonneg: "log_like lg \<Longrightarrow> 0 \<le> compute_psi_from_quantiles lg bins ref cur"
proof (cases "bins = 0")
  case False
  then show "log_like lg \<Longrightarrow> 0 \<le> compute_psi_from_quantiles lg bins ref cur"
    by (auto simp: compute_psi_from_quantiles_def Let_def bin_share_pos intro!: sum_list_nonneg psi_term_nonneg)
qed (simp add: compute_psi_from_quantiles_def Let_def)

lemma shares_pos: "c \<in> set (shares inner xs) \<Longrightarrow> 0 < c"
proof -
  assume c: "c \<in> set (shares inner xs)"
  show "0 < c"
  proof (cases "xs = []")
    case True
    then show ?thesis using c by (auto simp: shares_def histogram_def split: if_splits)
  next
    case False
    then show ?thesis using c by (auto simp: shares_def split: if_splits)
  qed
qed

lemma terms_nonneg:
  assumes "log_like lg" "\<And>c. c \<in> set cs \<Longrightarrow> 0 < c" "\<And>r. r \<in> set rs \<Longrightarrow> 0 < r"
  shows "0 \<le> sum_list (map2 (psi_term lg) cs rs)"
proof (rule sum_list_nonneg)
  fix t assume "t \<in> set (map2 (psi_term lg) cs rs)"
  then obtain c r where t: "t = psi_term lg c r" "(c, r) \<in> set (zip cs rs)" by auto
  from t(2) have "c \<in> set cs" "r \<in> set rs" by (auto dest: set_zip_leftD set_zip_rightD)
  then show "0 \<le> t" using t(1) assms by (simp add: psi_term_nonneg)
qed

lemma sample_psi_nonneg: "log_like lg \<Longrightarrow> 0 \<le> compute_psi lg bins xs ys"
  unfolding compute_psi_def Let_def by (simp add: terms_nonneg shares_pos)

lemma same_sample_terms: "sum_list (map2 (psi_term lg) cs cs) = 0"
  by (induction cs) (simp_all add: psi_term_def)

lemma sample_psi_self: "compute_psi lg bins xs xs = 0"
  by (simp add: compute_psi_def Let_def same_sample_terms)

section \<open>Drift of equal runs\<close>

lemma share_of_itself:
  assumes q: "sorted_wrt (<) qs" "length qs = bins * k + 1" "0 < k" and bins: "0 < bins" "bins \<le> 1000000" and i: "i < bins"
  shows "bin_share (quantiles_of bins qs) qs bins i = 1 / of_nat bins"
proof -
  have n: "of_nat (length qs - 1) = (of_nat bins * of_nat k :: rat)" using q(2) by simp
  have cdf: "cdf_of qs (quantiles_of bins qs ! j) = of_nat j / of_nat bins" if j: "j \<le> bins" for j
  proof -
    have "j * k < length qs" using q(2) j by (simp add: less_Suc_eq_le)
    then show ?thesis
      using cdf_knot [OF q(1)] edge_knot [OF q(2,3) bins(1) j] q(3) n by simp
  qed
  have e: "EPS \<le> 1 / of_nat bins"
    using bins by (simp add: EPS_def le_divide_eq)
  have hi: "(if i < bins - 1 then cdf_of qs (quantiles_of bins qs ! Suc i) else 1) = of_nat (Suc i) / of_nat bins"
  proof (cases "i < bins - 1")
    case False
    then have "Suc i = bins" using i by simp
    then show ?thesis using False bins by simp
  next
    case True
    then show ?thesis using cdf [of "Suc i"] by simp
  qed
  have lo: "(if 0 < i then cdf_of qs (quantiles_of bins qs ! i) else 0) = of_nat i / of_nat bins"
    using cdf [of i] i by simp
  have "of_nat (Suc i) / of_nat bins - of_nat i / of_nat bins = (1 / of_nat bins :: rat)"
    by (simp add: diff_divide_distrib [symmetric])
  then show ?thesis using e unfolding bin_share_def hi lo by simp
qed

text \<open>The drift of a feature is never negative. It is 0 for a sample and itself, and for a summary and itself where
  the percentiles are all different.\<close>

theorem psi_of_equal_runs:
  assumes "log_like lg" "sorted_wrt (<) qs" "length qs = 101"
  shows "0 \<le> compute_psi lg bins xs ys \<and> 0 \<le> compute_psi_from_quantiles lg bins ref cur \<and>
    compute_psi lg bins xs xs = 0 \<and> compute_psi_from_quantiles lg 10 qs qs = 0"
proof -
  have "bin_share (quantiles_of 10 qs) qs 10 i = 1 / 10" if "i < 10" for i
    using share_of_itself [of qs 10 10 i] assms that by simp
  then have "map (\<lambda>i. psi_term lg (bin_share (quantiles_of 10 qs) qs 10 i) (1 / 10)) [0..<10] = map (\<lambda>i. 0) [0..<10]"
    by (intro map_cong) (auto simp: psi_term_def)
  then have "sum_list (map (\<lambda>i. psi_term lg (bin_share (quantiles_of 10 qs) qs 10 i) (1 / of_nat 10)) [0..<10]) = 0"
    by (simp only: of_nat_numeral map_replicate_const sum_list_replicate mult_zero_right)
  then have "compute_psi_from_quantiles lg 10 qs qs = 0" by (simp add: compute_psi_from_quantiles_def Let_def)
  then show ?thesis using assms(1) by (simp add: sample_psi_nonneg quantile_psi_nonneg sample_psi_self)
qed

section \<open>Ties look like drift\<close>

text \<open>A bin between two equal deciles is empty in the candidate's summary as well, whatever it is.\<close>

lemma tied_bin_is_empty:
  assumes "0 < i" "i < bins - 1" "edges ! i = edges ! Suc i"
  shows "bin_share edges cur bins i = EPS"
  using assms by (simp add: bin_share_def EPS_def)

lemma tied_deciles_drift:
  assumes lg: "log_like lg" "lg (1 / 100000) \<le> - 11"
    and ref: "length ref = 101" "0 < i" "i < 9" "ref ! (10 * i) = ref ! (10 * Suc i)"
    and cur: "2 \<le> length cur" "\<not> (allclose ref (hd ref) \<and> allclose cur (hd cur))"
  shows "1 < compute_psi_from_quantiles lg 10 ref cur"
proof -
  let ?e = "quantiles_of 10 ref" and ?t = "\<lambda>i. psi_term lg (bin_share (quantiles_of 10 ref) cur 10 i) (1 / of_nat 10)"
  have "?e ! i = ?e ! Suc i"
    using edge_knot [of ref 10 10 i] edge_knot [of ref 10 10 "Suc i"] ref by (simp add: mult.commute)
  then have "bin_share ?e cur 10 i = EPS" using ref by (intro tied_bin_is_empty) auto
  then have "?t i = psi_term lg EPS (1 / 10)" by simp
  then have "?t i = (1 / 1000000 - 1 / 10) * lg (1 / 100000)" by (simp only: psi_term_def EPS_def) simp
  also have "\<dots> \<ge> (1 / 1000000 - 1 / 10) * (- 11)"
    using lg(2) by (intro mult_left_mono_neg) simp_all
  finally have big: "1 < ?t i" by simp
  have "?t i \<le> sum_list (map ?t [0..<10])"
  proof (rule member_le_sum_list)
    show "?t i \<in> set (map ?t [0..<10])" using ref(3) by simp
    show "\<And>x. x \<in> set (map ?t [0..<10]) \<Longrightarrow> 0 \<le> x" using lg(1) by (auto simp: psi_term_nonneg bin_share_pos)
  qed
  also have "\<dots> = compute_psi_from_quantiles lg 10 ref cur"
    using ref(1) cur by (auto simp: compute_psi_from_quantiles_def Let_def)
  finally show ?thesis using big by simp
qed

text \<open>So a model in production that has a feature with two equal inner deciles (a count that is zero for a fifth of the
  clients) is never replaced by a comparison: every candidate whose summary has the feature drifts.\<close>

lemma tied_deciles_stop_promotion:
  assumes psi: "pm_psi env = compute_psi_from_quantiles lg 10" "log_like lg" "lg (1 / 100000) \<le> - 11" "tmax \<le> 1"
    and live: "current_production env (mo_reg s) = Some live"
    and sums: "pm_quantiles env (mv_run live) = Some old" "pm_quantiles env run = Some new"
      "(col, ref) \<in> set old" "map_of new col = Some cur"
    and ref: "length ref = 101" "0 < i" "i < 9" "ref ! (10 * i) = ref ! (10 * Suc i)"
    and cur: "2 \<le> length cur" "\<not> (allclose ref (hd ref) \<and> allclose cur (hd cur))"
  shows "fst (promote_if_better env dmin tmax run s) \<noteq> Inr True \<and> mo_reg (snd (promote_if_better env dmin tmax run s)) = mo_reg s"
proof -
  obtain x s' where p: "promote_if_better env dmin tmax run s = (x, s')" by fastforce
  have "x \<noteq> Inr True"
  proof
    assume "x = Inr True"
    with p have "pm_psi env ref cur \<le> tmax"
      using promotion_presupposes [of env dmin tmax run s s' live] live sums by fastforce
    then show False using tied_deciles_drift [OF psi(2,3) ref cur] psi(1,4) by simp
  qed
  then show ?thesis using unpromoted_leaves_registry [OF p] p by simp
qed

section \<open>Instances\<close>

definition sample_log :: "rat \<Rightarrow> rat" where
  "sample_log x = (if x \<le> 1 / 100000 then - 11 else if x < 1 then - 1 / 2 else if x = 1 then 0 else 1 / 2)"

theorem psi_of_equal_runs_witness:
  "compute_psi_from_quantiles sample_log 10 (map of_nat [0..<101]) (map of_nat [0..<101]) = 0"
proof -
  have lg: "log_like sample_log" by (simp add: log_like_def sample_log_def)
  have s: "sorted_wrt (<) (map of_nat [0..<101] :: rat list)" by (simp add: sorted_wrt_iff_nth_less)
  show ?thesis using psi_of_equal_runs [OF lg s] by simp
qed

text \<open>A count that is zero for a quarter of the clients, in two runs on the same data.\<close>

definition sparse_summary :: "rat list" where
  "sparse_summary = replicate 26 0 @ map of_nat [1..<76]"

lemma sparse_feature_drifts: "1 < compute_psi_from_quantiles sample_log 10 sparse_summary sparse_summary"
proof (rule tied_deciles_drift [where i = 1])
  show "log_like sample_log" by (simp add: log_like_def sample_log_def)
  show "sample_log (1 / 100000) \<le> - 11" by (simp add: sample_log_def)
  have "sparse_summary ! 30 = of_nat 5" by (simp add: sparse_summary_def nth_append)
  then have "\<not> (\<bar>sparse_summary ! 30 - 0\<bar> \<le> 1 / 10 ^ 8 + \<bar>0\<bar> / 10 ^ 5)" by simp
  moreover have "hd sparse_summary = 0" by (simp add: sparse_summary_def)
  moreover have "sparse_summary ! 30 \<in> set sparse_summary" by (rule nth_mem) (simp add: sparse_summary_def)
  ultimately show "\<not> (allclose sparse_summary (hd sparse_summary) \<and> allclose sparse_summary (hd sparse_summary))"
    by (auto simp: allclose_def list_all_iff simp del: abs_le_iff)
qed (simp_all add: sparse_summary_def nth_append)

end
