(* ===== verification/Training.thy ===== *)
theory Training
  imports Features Psi
begin

text \<open>
  What the models are trained on: the pairs of \<^verbatim>\<open>services/ml_training/app/data_loader.py\<close>, the matrix of the
  retrieval model (\<^verbatim>\<open>svd_trainer.py\<close>), the weight of the positive class and the summary of percentiles that
  \<^verbatim>\<open>trainer.py\<close> logs for the gate on drift (theory \<open>Psi\<close>); and how they agree with what the models are served.

  The features are the table of theory \<open>Features\<close>. Parameters: the instants before which rows are not read
  (\<open>td_since\<close> of Postgres, \<open>td_ch_since\<close> of ClickHouse), the rounding to \<^verbatim>\<open>float32\<close> and \<^verbatim>\<open>numpy.log1p\<close>. Rows computed at the
  same instant are taken in the order of the table. Fitting and evaluating the models is third-party code.
\<close>

section \<open>The address of the database\<close>

text \<open>\<^verbatim>\<open>\w\<close> on code points below 256.\<close>

definition is_word :: "char \<Rightarrow> bool" where
  "is_word c = (let n = (of_char c :: nat) in
     (48 \<le> n \<and> n \<le> 57) \<or> (65 \<le> n \<and> n \<le> 90) \<or> n = 95 \<or> (97 \<le> n \<and> n \<le> 122) \<or>
     n \<in> {170, 178, 179, 181, 185, 186, 188, 189, 190} \<or> (192 \<le> n \<and> n \<noteq> 215 \<and> n \<noteq> 247))"

definition strip_prefix :: "string \<Rightarrow> string \<Rightarrow> string option" where
  "strip_prefix p s = (if take (length p) s = p then Some (drop (length p) s) else None)"

text \<open>\<^verbatim>\<open>+driver://\<close> at the start of the rest; what follows it.\<close>

definition strip_driver :: "string \<Rightarrow> string option" where
  "strip_driver s = (case strip_prefix ''+'' s of None \<Rightarrow> None
     | Some t \<Rightarrow> if takeWhile is_word t = [] then None else strip_prefix ''://'' (dropWhile is_word t))"

definition libpq_dsn :: "string \<Rightarrow> string" where
  "libpq_dsn s =
    (case Option.bind (strip_prefix ''postgresql'' s) strip_driver of
       Some rest \<Rightarrow> ''postgresql://'' @ rest
     | None \<Rightarrow>
        (case Option.bind (strip_prefix ''postgres'' s) strip_driver of
           Some rest \<Rightarrow> ''postgres://'' @ rest
         | None \<Rightarrow> s))"

section \<open>The pairs\<close>

definition TERMINAL_STATUSES :: "response_status list" where
  "TERMINAL_STATUSES = [ACCEPTED, DECLINED, EXPIRED, SNOOZE]"

record train_env =
  td_now :: time
  td_since :: time
  td_ch_since :: time
  td_f32 :: "rat \<Rightarrow> rat"

definition load_recommendations :: "train_env \<Rightarrow> rec_row list \<Rightarrow> rec_row list" where
  "load_recommendations env rows =
     filter (\<lambda>r. re_status r \<in> set TERMINAL_STATUSES \<and> td_since env \<le> re_generated r) rows"

text \<open>\<^verbatim>\<open>drop_duplicates(subset=["user_id"], keep="last")\<close>.\<close>

fun keep_last :: "frame_row list \<Rightarrow> frame_row list" where
  "keep_last [] = []"
| "keep_last (r # rs) = (if cell_text r \<in> cell_text ` set rs then keep_last rs else r # keep_last rs)"

definition load_rfm :: "train_env \<Rightarrow> (time \<times> frame_row) list \<Rightarrow> frame_row list" where
  "load_rfm env table = keep_last (map snd (sort_key fst (filter (\<lambda>(c, r). td_ch_since env \<le> c) table)))"

fun cell_number :: "cell \<Rightarrow> rat" where
  "cell_number (CInt n) = of_int n"
| "cell_number (CFloat x) = x"
| "cell_number (CDec d) = d"
| "cell_number _ = 0"

text \<open>\<^verbatim>\<open>zfill(4)\<close> (a sign becomes a 0 wherever it stands), every character that is no digit becomes a 0, \<^verbatim>\<open>astype(int)\<close>.\<close>

definition zfill4 :: "string \<Rightarrow> string" where
  "zfill4 s = replicate (4 - length s) CHR ''0'' @ s"

definition mcc_code_int :: "string \<Rightarrow> nat" where
  "mcc_code_int mcc = digits_nat (map (\<lambda>c. if is_digit c then c else CHR ''0'') (zfill4 mcc))"

definition merged :: "rec_row list \<Rightarrow> frame_row list \<Rightarrow> (rec_row \<times> frame_row) list" where
  "merged rows rfm = concat (map (\<lambda>r. map (Pair r) (filter (\<lambda>f. cell_text f = uuid_text (re_user r)) rfm)) rows)"

definition feature_cols :: "frame_row \<Rightarrow> string list" where
  "feature_cols f = [''model_score'', ''age_seconds''] @ filter (\<lambda>c. c \<noteq> ''user_id'') (map fst f) @ [''mcc_code_int'']"

definition x_row :: "train_env \<Rightarrow> rec_row \<Rightarrow> frame_row \<Rightarrow> rat list" where
  "x_row env r f = map (td_f32 env)
     ([re_score r, fl (of_int (td_now env - re_generated r) / 1000000)] @
      map (\<lambda>(c, v). cell_number v) (filter (\<lambda>(c, v). c \<noteq> ''user_id'') f) @ [of_nat (mcc_code_int (re_mcc r))])"

definition build_pairs ::
  "train_env \<Rightarrow> rec_row list \<Rightarrow> (time \<times> frame_row) list \<Rightarrow> exn + string list \<times> rat list list \<times> nat list" where
  "build_pairs env stored table =
    (let rows = load_recommendations env stored; rfm = load_rfm env table; ps = merged rows rfm in
     if rows = [] \<or> rfm = [] \<or> ps = [] then Inl (py_error ''RuntimeError'')
     else Inr (feature_cols (snd (hd ps)), map (\<lambda>(r, f). x_row env r f) ps,
       map (\<lambda>(r, f). if re_status r = ACCEPTED then 1 else 0) ps))"

section \<open>The trainers\<close>

definition scale_pos_weight :: "nat list \<Rightarrow> rat" where
  "scale_pos_weight y = (let positives = length (filter (\<lambda>v. v = 1) y); negatives = length (filter (\<lambda>v. v = 0) y) in
     if positives = 0 \<or> negatives = 0 then 1 else fl (of_nat negatives / of_nat positives))"

text \<open>\<^verbatim>\<open>X[col].quantile(quantile_grid)\<close>: 101 percentiles of a column.\<close>

definition feature_quantiles :: "rat list \<Rightarrow> rat list" where
  "feature_quantiles xs = (let s = sort xs in
     map (\<lambda>i. interp (hd s) (List.last s) (linspace (length s)) s (of_nat i / 100)) [0..<101])"

text \<open>The confidences of the retrieval model: client by row, category by column.\<close>

definition item_codes :: "frame_row list \<Rightarrow> string list" where
  "item_codes df = filter (\<lambda>c. \<forall>f \<in> set (take 1 df). ''freq_'' @ c \<in> set (map fst f) \<and> ''amt_'' @ c \<in> set (map fst f)) TOP50_MCC"

definition col_value :: "frame_row \<Rightarrow> string \<Rightarrow> rat" where
  "col_value f c = (case map_of f c of None \<Rightarrow> 0 | Some v \<Rightarrow> cell_number v)"

definition als_confidence :: "(rat \<Rightarrow> rat) \<Rightarrow> frame_row \<Rightarrow> string \<Rightarrow> rat" where
  "als_confidence log1p f c = col_value f (''freq_'' @ c) * log1p (col_value f (''amt_'' @ c))"

definition build_matrix ::
  "(rat \<Rightarrow> rat) \<Rightarrow> frame_row list \<Rightarrow> exn + (nat \<times> nat \<times> rat) list \<times> string list \<times> string list" where
  "build_matrix log1p df =
    (let codes = item_codes df in
     if df = [] \<or> codes = [] then Inl (py_error ''ValueError'')
     else Inr (concat (map (\<lambda>ii. map (\<lambda>ui. (ui, ii, als_confidence log1p (df ! ui) (codes ! ii)))
         (filter (\<lambda>ui. 0 < als_confidence log1p (df ! ui) (codes ! ii)) [0..<length df])) [0..<length codes]),
       map cell_text df, codes))"

section \<open>The address\<close>

lemma strip_prefix_Some: "strip_prefix p s = Some t \<longleftrightarrow> s = p @ t"
  by (auto simp: strip_prefix_def) (metis append_take_drop_id)

lemma strip_driver_Some:
  assumes "strip_driver s = Some rest"
  shows "\<exists>d. d \<noteq> [] \<and> list_all is_word d \<and> s = ''+'' @ d @ ''://'' @ rest"
proof -
  obtain t where t: "strip_prefix ''+'' s = Some t" "takeWhile is_word t \<noteq> []" "strip_prefix ''://'' (dropWhile is_word t) = Some rest"
    using assms by (auto simp: strip_driver_def split: option.splits if_splits)
  then have "t = takeWhile is_word t @ ''://'' @ rest" by (metis strip_prefix_Some takeWhile_dropWhile_id)
  moreover have "list_all is_word (takeWhile is_word t)" by (auto simp: list_all_iff dest: set_takeWhileD)
  ultimately show ?thesis using t(1,2) unfolding strip_prefix_Some by metis
qed

section \<open>One row per client\<close>

lemma keep_last_sub: "set (keep_last rs) \<subseteq> set rs"
  by (induction rs) auto

lemma keep_last_clients: "cell_text ` set (keep_last rs) = cell_text ` set rs"
  by (induction rs) auto

lemma keep_last_distinct: "distinct (map cell_text (keep_last rs))"
  by (induction rs) (simp_all add: keep_last_clients)

lemma none_in: "a \<notin> f ` set xs \<Longrightarrow> filter (\<lambda>y. f y = a) xs = []"
  by (induction xs) auto

lemma keep_last_is_last:
  "f \<in> set (keep_last rs) \<Longrightarrow> f = List.last (filter (\<lambda>g. cell_text g = cell_text f) rs)"
proof (induction rs)
  case (Cons r rs)
  show ?case
  proof (cases "f \<in> set (keep_last rs)")
    case True
    then have "filter (\<lambda>g. cell_text g = cell_text f) rs \<noteq> []"
      using keep_last_sub by (fastforce simp: filter_empty_conv)
    then show ?thesis using Cons.IH [OF True] by simp
  next
    case False
    then have "f = r" "cell_text r \<notin> cell_text ` set rs" using Cons.prems by (auto split: if_splits)
    then have "filter (\<lambda>g. cell_text g = cell_text f) rs = []" using none_in by fastforce
    then show ?thesis using \<open>f = r\<close> by simp
  qed
qed simp

lemma filter_one:
  "distinct (map f xs) \<Longrightarrow> x \<in> set xs \<Longrightarrow> filter (\<lambda>y. f y = f x) xs = [x]"
  by (induction xs) (auto simp: filter_empty_conv image_iff)

lemma merged_recs:
  assumes "distinct (map cell_text rfm)"
  shows "map fst (merged rows rfm) = filter (\<lambda>r. uuid_text (re_user r) \<in> cell_text ` set rfm) rows"
proof (induction rows)
  case (Cons r rows)
  have m: "merged (r # rows) rfm = map (Pair r) (filter (\<lambda>f. cell_text f = uuid_text (re_user r)) rfm) @ merged rows rfm"
    by (simp add: merged_def)
  show ?case
  proof (cases "uuid_text (re_user r) \<in> cell_text ` set rfm")
    case True
    then obtain f where f: "f \<in> set rfm" "uuid_text (re_user r) = cell_text f" by auto
    then have "filter (\<lambda>f. cell_text f = uuid_text (re_user r)) rfm = [f]"
      using filter_one [OF assms f(1)] by simp
    then show ?thesis using m True Cons.IH by simp
  next
    case False
    then have "filter (\<lambda>f. cell_text f = uuid_text (re_user r)) rfm = []" by (rule none_in)
    then show ?thesis using m False Cons.IH by simp
  qed
qed (simp add: merged_def)

lemma merged_rows: "(r, f) \<in> set (merged rows rfm) \<Longrightarrow> f \<in> set rfm \<and> cell_text f = uuid_text (re_user r)"
  by (auto simp: merged_def)

section \<open>What the pairs are\<close>

lemma load_rfm_distinct: "distinct (map cell_text (load_rfm env table))"
  by (simp add: load_rfm_def keep_last_distinct)

lemma load_rfm_clients: "cell_text ` set (load_rfm env table) = cell_text ` {f. \<exists>c. (c, f) \<in> set table \<and> td_ch_since env \<le> c}"
  by (auto simp: load_rfm_def keep_last_clients image_iff) force+

lemma load_rfm_row:
  assumes "f \<in> set (load_rfm env table)"
  shows "f = snd (List.last (filter (\<lambda>(c, g). td_ch_since env \<le> c \<and> cell_text g = cell_text f) (sort_key fst table)))"
proof -
  let ?s = "sort_key fst (filter (\<lambda>(c, r). td_ch_since env \<le> c) table)"
  have "f = List.last (filter (\<lambda>g. cell_text g = cell_text f) (map snd ?s))"
    using keep_last_is_last [of f "map snd ?s"] assms by (simp only: load_rfm_def)
  also have "\<dots> = List.last (map snd (filter (\<lambda>(c, g). td_ch_since env \<le> c \<and> cell_text g = cell_text f) (sort_key fst table)))"
    by (simp add: filter_map comp_def case_prod_unfold filter_sort [symmetric] conj_commute)
  also have "\<dots> = snd (List.last (filter (\<lambda>(c, g). td_ch_since env \<le> c \<and> cell_text g = cell_text f) (sort_key fst table)))"
  proof (rule last_map)
    have "f \<in> snd ` set ?s" using assms keep_last_sub by (fastforce simp: load_rfm_def)
    then show "filter (\<lambda>(c, g). td_ch_since env \<le> c \<and> cell_text g = cell_text f) (sort_key fst table) \<noteq> []"
      by (auto simp: filter_empty_conv)
  qed
  finally show ?thesis .
qed

text \<open>The training data has one pair for each answered recommendation of the last 180 days whose client has
  features, in the order of the recommendations, with the last row of features computed for this client; it is a
  positive one exactly if the offer was accepted.\<close>

theorem pairs_are_exact:
  assumes "build_pairs env stored table = Inr (cols, xs, ys)"
  shows "\<exists>ps. map fst ps = filter (\<lambda>r. re_status r \<noteq> RS_PENDING \<and> td_since env \<le> re_generated r \<and>
        (\<exists>c f. (c, f) \<in> set table \<and> td_ch_since env \<le> c \<and> cell_text f = uuid_text (re_user r))) stored \<and>
      xs = map (\<lambda>(r, f). x_row env r f) ps \<and>
      ys = map (\<lambda>(r, f). if re_status r = ACCEPTED then 1 else 0) ps \<and>
      list_all (\<lambda>(r, f). f = snd (List.last (filter (\<lambda>(c, g). td_ch_since env \<le> c \<and> cell_text g = uuid_text (re_user r))
        (sort_key fst table)))) ps"
proof -
  let ?ps = "merged (load_recommendations env stored) (load_rfm env table)"
  have terminal: "re_status r \<in> set TERMINAL_STATUSES \<longleftrightarrow> re_status r \<noteq> RS_PENDING" for r
    by (cases "re_status r") (simp_all add: TERMINAL_STATUSES_def)
  have client: "u \<in> cell_text ` set (load_rfm env table) \<longleftrightarrow>
      (\<exists>c f. (c, f) \<in> set table \<and> td_ch_since env \<le> c \<and> cell_text f = u)" for u
    by (auto simp: load_rfm_clients)
  have "map fst ?ps = filter (\<lambda>r. re_status r \<noteq> RS_PENDING \<and> td_since env \<le> re_generated r \<and>
      (\<exists>c f. (c, f) \<in> set table \<and> td_ch_since env \<le> c \<and> cell_text f = uuid_text (re_user r))) stored"
    unfolding merged_recs [OF load_rfm_distinct] load_recommendations_def client terminal filter_filter
    by (rule filter_cong) auto
  moreover have "f = snd (List.last (filter (\<lambda>(c, g). td_ch_since env \<le> c \<and> cell_text g = uuid_text (re_user r))
        (sort_key fst table)))" if "(r, f) \<in> set ?ps" for r f
    using merged_rows [OF that] load_rfm_row [of f env table] by simp
  ultimately show ?thesis
    using assms by (intro exI [of _ ?ps]) (auto simp: build_pairs_def Let_def list_all_iff split: if_splits)
qed

section \<open>Training and serving\<close>

lemma digits_zfill: "list_all is_digit s \<Longrightarrow> length s = 4 \<Longrightarrow> mcc_code_int s = digits_nat s"
  by (simp add: mcc_code_int_def zfill4_def list_all_iff map_idI)

lemma drop_user:
  "distinct (map fst f) \<Longrightarrow> f = (''user_id'', v) # g \<Longrightarrow> filter (\<lambda>(c, v). c \<noteq> ''user_id'') f = g"
  by (auto simp: filter_id_conv image_iff)

lemma row_without_user:
  "filter (\<lambda>(c, v). c \<noteq> ''user_id'') (rfm_row env ts u) = tl (rfm_row env ts u)"
  by (rule drop_user [OF row_names_distinct]) (simp add: rfm_row_def)

lemma row_names_without_user:
  "filter (\<lambda>c. c \<noteq> ''user_id'') (map fst (rfm_row env ts u)) = map fst (tl (rfm_row env ts u))"
  by (simp add: filter_map comp_def row_without_user [symmetric] case_prod_unfold)

lemma row_names_plain:
  assumes "c \<in> {''model_score'', ''age_seconds'', ''mcc_code_int''}"
  shows "c \<notin> fst ` set (rfm_row env ts u)"
proof -
  have "map fst (rfm_row env ts u) = ''user_id'' # map fst (base_cols env ts) @ map ((@) ''freq_'') TOP50_MCC @
      map ((@) ''amt_'') TOP50_MCC @ [''tenure_months'']"
    by (simp only: rfm_row_def list.map map_append freq_cols_names amt_cols_names fst_conv)
  then have "c \<notin> set (map fst (rfm_row env ts u))" using assms by (auto simp: base_cols_names simp del: set_map)  auto
  then show ?thesis by simp
qed

lemma served_cell:
  assumes "(c, v) \<in> set (rfm_row env ts u)"
  shows "members (payload env (rfm_row env ts u)) c = Some (dump_cell env v)"
proof -
  have d: "distinct (map fst (rev (payload env (rfm_row env ts u))))"
    using row_names_distinct [of env ts u] by (simp add: payload_def rev_map [symmetric] comp_def case_prod_unfold)
  have "(c, dump_cell env v) \<in> set (rev (payload env (rfm_row env ts u)))"
    using assms by (force simp: payload_def)
  from map_of_is_SomeI [OF d this] show ?thesis by (simp add: members_def)
qed

lemma served_missing:
  assumes "c \<in> {''model_score'', ''age_seconds''}"
  shows "members (payload env (rfm_row env ts u)) c = None"
proof -
  have "c \<notin> set (map fst (payload env (rfm_row env ts u)))"
    using row_names_plain [of c env ts u] assms by (simp add: payload_def comp_def case_prod_unfold image_iff) blast
  then show ?thesis by (simp add: members_def map_of_eq_None_iff)
qed

lemma mcc_int_digits:
  assumes "list_all is_digit s" "length s = 4"
  shows "mcc_int s = int (mcc_code_int s)"
proof -
  have "s \<noteq> []" using assms(2) by auto
  then show ?thesis
    using assms by (simp add: mcc_int_def no_space_digits signed_digits_def split_sign_digits digits_zfill)
qed


section \<open>The confidences\<close>

lemma row_value:
  assumes "m \<in> set TOP50_MCC"
  shows "col_value (rfm_row env ts u) (''freq_'' @ m) = of_nat (length (filter (\<lambda>t. rt_mcc t = m) ts))"
    "col_value (rfm_row env ts u) (''amt_'' @ m) = sum_list (map rt_amount (filter (\<lambda>t. rt_mcc t = m) ts))"
proof -
  have "(''freq_'' @ m, CInt (int (length (filter (\<lambda>t. rt_mcc t = m) ts)))) \<in> set (rfm_row env ts u)"
    using assms by (auto simp: rfm_row_def freq_cols_def)
  from map_of_is_SomeI [OF row_names_distinct this]
  show "col_value (rfm_row env ts u) (''freq_'' @ m) = of_nat (length (filter (\<lambda>t. rt_mcc t = m) ts))"
    by (simp only: col_value_def option.case cell_number.simps of_int_of_nat_eq)
  have "(''amt_'' @ m, CDec (sum_list (map rt_amount (filter (\<lambda>t. rt_mcc t = m) ts)))) \<in> set (rfm_row env ts u)"
    using assms by (auto simp: rfm_row_def amt_cols_def)
  from map_of_is_SomeI [OF row_names_distinct this]
  show "col_value (rfm_row env ts u) (''amt_'' @ m) = sum_list (map rt_amount (filter (\<lambda>t. rt_mcc t = m) ts))"
    by (simp only: col_value_def option.case cell_number.simps)
qed

lemma als_positive:
  assumes "m \<in> set TOP50_MCC" "\<And>x. 0 < x \<Longrightarrow> 0 < log1p x" "\<And>t. t \<in> set ts \<Longrightarrow> 0 < rt_amount t"
  shows "0 < als_confidence log1p (rfm_row env ts u) m \<longleftrightarrow> m \<in> rt_mcc ` set ts"
proof (cases "filter (\<lambda>t. rt_mcc t = m) ts = []")
  case True
  then have "m \<notin> rt_mcc ` set ts" by (auto simp: filter_empty_conv)
  then show ?thesis using True by (simp only: als_confidence_def row_value [OF assms(1)]) simp
next
  case False
  have pos: "0 < sum_list (map rt_amount ys)" if "ys \<noteq> []" "set ys \<subseteq> set ts" for ys
    using that assms(3) by (induction ys rule: list_nonempty_induct) (auto intro: add_pos_pos)
  have "m \<in> rt_mcc ` set ts" using False by (auto simp: filter_empty_conv)
  then show ?thesis
    using False assms(2) pos [of "filter (\<lambda>t. rt_mcc t = m) ts"]
    by (simp only: als_confidence_def row_value [OF assms(1)]) (simp add: zero_less_mult_iff)
qed

text \<open>Over the features of one run, the retrieval model gets a confidence for a client and a category exactly if the
  client bought something in the category in the window; its rows are the clients with purchases, in the order
  of the features, its columns the fifty categories.\<close>

theorem confidences_are_purchases:
  assumes built: "build_matrix log1p (rfm_query env days txs) = Inr (es, names, codes)"
    and log: "\<And>x. 0 < x \<Longrightarrow> 0 < log1p x"
    and paid: "\<And>t. t \<in> set txs \<Longrightarrow> 0 < rt_amount t"
    and us: "us = remdups (map rt_user (rfm_window env days txs))"
  shows "names = map uuid_text us \<and> codes = TOP50_MCC \<and>
    (\<forall>ui ii. (\<exists>v. (ui, ii, v) \<in> set es) \<longleftrightarrow> ui < length us \<and> ii < length TOP50_MCC \<and>
       (\<exists>t \<in> set (rfm_window env days txs). rt_user t = us ! ui \<and> rt_mcc t = TOP50_MCC ! ii))"
proof -
  let ?w = "rfm_window env days txs" and ?df = "rfm_query env days txs"
  have df: "?df = map (\<lambda>u. rfm_row env (of_client ?w u) u) us" by (simp add: rfm_query_def Let_def us)
  have cols: "''freq_'' @ c \<in> set (map fst (rfm_row env ts u)) \<and> ''amt_'' @ c \<in> set (map fst (rfm_row env ts u))"
    if "c \<in> set TOP50_MCC" for c ts u
    using that unfolding rfm_row_def list.map map_append freq_cols_names amt_cols_names by auto
  have codes: "item_codes ?df = TOP50_MCC"
    unfolding item_codes_def df
  proof (rule filter_True, intro ballI)
    fix c f assume c: "c \<in> set TOP50_MCC" and "f \<in> set (take 1 (map (\<lambda>u. rfm_row env (of_client ?w u) u) us))"
    then obtain u where "f = rfm_row env (of_client ?w u) u" by (auto dest!: in_set_takeD)
    then show "''freq_'' @ c \<in> set (map fst f) \<and> ''amt_'' @ c \<in> set (map fst f)" using cols [OF c] by blast
  qed
  have conf: "0 < als_confidence log1p (?df ! ui) (TOP50_MCC ! ii) \<longleftrightarrow>
      (\<exists>t \<in> set ?w. rt_user t = us ! ui \<and> rt_mcc t = TOP50_MCC ! ii)"
    if "ui < length us" "ii < length TOP50_MCC" for ui ii
  proof -
    have "?df ! ui = rfm_row env (of_client ?w (us ! ui)) (us ! ui)" using that(1) by (simp add: df)
    then have "0 < als_confidence log1p (?df ! ui) (TOP50_MCC ! ii) \<longleftrightarrow> TOP50_MCC ! ii \<in> rt_mcc ` set (of_client ?w (us ! ui))"
      using als_positive [of "TOP50_MCC ! ii" log1p "of_client ?w (us ! ui)"] that log paid
      by (simp add: of_client_def rfm_window_def)
    also have "\<dots> \<longleftrightarrow> (\<exists>t \<in> set ?w. rt_user t = us ! ui \<and> rt_mcc t = TOP50_MCC ! ii)"
      by (force simp: of_client_def)
    finally show ?thesis .
  qed
  have es: "es = concat (map (\<lambda>ii. map (\<lambda>ui. (ui, ii, als_confidence log1p (?df ! ui) (TOP50_MCC ! ii)))
         (filter (\<lambda>ui. 0 < als_confidence log1p (?df ! ui) (TOP50_MCC ! ii)) [0..<length us])) [0..<length TOP50_MCC])"
    and named: "names = map cell_text ?df" "codes = TOP50_MCC"
    using built codes by (auto simp: build_matrix_def Let_def df split: if_splits)
  have "(\<exists>v. (ui, ii, v) \<in> set es) \<longleftrightarrow> ui < length us \<and> ii < length TOP50_MCC \<and>
      0 < als_confidence log1p (?df ! ui) (TOP50_MCC ! ii)" for ui ii
    unfolding es by (simp add: image_iff)
  then show ?thesis using conf named by (auto simp: df comp_def)
qed

section \<open>Features at their minimum\<close>

lemma interp_plateau:
  assumes "sorted_wrt (<) xs" "length fs = length xs" "k < length xs" "\<And>i. i \<le> k \<Longrightarrow> fs ! i = c"
    and "hd xs \<le> x" "x \<le> xs ! k"
  shows "interp_from xs fs x = c"
  using assms
proof (induction xs fs x arbitrary: k rule: interp_from.induct)
  case (1 x0 x1 xs f0 f1 fs x)
  show ?case
  proof (cases k)
    case 0
    then have "x = x0" "f0 = c" using 1(5,6,7) 1(5) [of 0] by auto
    then show ?thesis using 1(2) by simp
  next
    case (Suc j)
    then have f: "f0 = c" "f1 = c" using 1(5) [of 0] 1(5) [of 1] by auto
    show ?thesis
    proof (cases "x < x1")
      case True
      then show ?thesis using f by simp
    next
      case False
      have "interp_from (x1 # xs) (f1 # fs) x = c"
        using 1(2,3,4,7) 1(5) [of "Suc _"] False Suc by (intro 1(1) [of j]) auto
      then show ?thesis using False by simp
    qed
  qed
qed (auto dest: meta_spec [of _ 0])

lemma sorted_minimum:
  assumes "i < length (filter (\<lambda>x. x = hd (sort xs)) xs)"
  shows "sort xs ! i = hd (sort xs)"
proof (rule ccontr)
  let ?s = "sort xs" and ?m = "hd (sort xs)"
  assume ne: "?s ! i \<noteq> ?m"
  have "length (filter (\<lambda>x. x = ?m) xs) = length (filter (\<lambda>x. x = ?m) ?s)"
    by (simp only: filter_sort length_sort)
  also have "\<dots> = card {j. j < length ?s \<and> ?s ! j = ?m}" by (simp add: length_filter_conv_card)
  also have "\<dots> \<le> card {..<i}"
  proof (rule card_mono)
    show "{j. j < length ?s \<and> ?s ! j = ?m} \<subseteq> {..<i}"
    proof
      fix j assume j: "j \<in> {j. j < length ?s \<and> ?s ! j = ?m}"
      show "j \<in> {..<i}"
      proof (rule ccontr)
        assume "j \<notin> {..<i}"
        then have "?s ! i \<le> ?m" using j sorted_nth_mono [of ?s i j] by simp
        moreover have "?m \<le> ?s ! i"
        proof -
          have "i < length ?s" using j \<open>j \<notin> {..<i}\<close> by simp
          moreover from this have "?s \<noteq> []" by (metis list.size(3) not_less_zero)
          ultimately show ?thesis using sorted_nth_mono [of ?s 0 i] by (simp add: hd_conv_nth)
        qed
        ultimately show False using ne by simp
      qed
    qed
  qed simp
  finally show False using assms by simp
qed

lemma minimum_ties:
  assumes n: "2 \<le> length xs" and z: "length xs + 4 \<le> 5 * length (filter (\<lambda>x. x = hd (sort xs)) xs)"
    and i: "i \<le> 20"
  shows "feature_quantiles xs ! i = hd (sort xs)"
proof -
  let ?s = "sort xs" and ?z = "length (filter (\<lambda>x. x = hd (sort xs)) xs)"
  have zn: "?z \<le> length xs" "1 \<le> ?z" using z n by simp_all
  have strict: "sorted_wrt (<) (linspace (length ?s))" using n by (simp add: linspace_sorted)
  have "linspace (length ?s) \<noteq> []" using n linspace_length [of "length ?s"] by (metis list.size(3) length_sort not_numeral_le_zero)
  moreover have "linspace (length xs) ! 0 = 0" using n by (subst linspace_nth) (linarith, simp)
  ultimately have ends: "hd (linspace (length ?s)) = 0" "List.last (linspace (length ?s)) = 1"
    using n by (auto simp: hd_conv_nth last_conv_nth linspace_nth)
  have "of_nat i / 100 \<le> (of_nat (?z - 1) / of_nat (length xs - 1) :: rat)"
  proof -
    have "i * (length xs - 1) \<le> 20 * (length xs - 1)" using i by simp
    also have "\<dots> \<le> 100 * (?z - 1)" using z by simp
    finally have "(of_nat (i * (length xs - 1)) :: rat) \<le> of_nat (100 * (?z - 1))" by (simp only: of_nat_le_iff)
    then show ?thesis using n by (simp add: field_simps)
  qed
  moreover have "linspace (length ?s) ! (?z - 1) = of_nat (?z - 1) / of_nat (length xs - 1)"
    unfolding length_sort by (rule linspace_nth) (use zn in linarith)
  ultimately have k: "of_nat i / 100 \<le> linspace (length ?s) ! (?z - 1)" by (simp only:)
  have "interp_from (linspace (length ?s)) ?s (of_nat i / 100) = hd ?s"
  proof (rule interp_plateau [OF strict, where k = "?z - 1"])
    show "?z - 1 < length (linspace (length ?s))" unfolding linspace_length length_sort using zn by linarith
    show "?s ! j = hd ?s" if "j \<le> ?z - 1" for j using sorted_minimum [of j xs] that zn by simp
  qed (use k ends in simp_all)
  then show ?thesis using i ends by (simp add: feature_quantiles_def Let_def interp_def)
qed

text \<open>From the training data to the gate: a model in production that was trained with a feature at its minimum in more than
  a fifth of the pairs (a count of purchases in one of the fifty categories) is never replaced by comparison.\<close>

lemma sparse_feature_stops_promotion:
  assumes psi: "pm_psi env = compute_psi_from_quantiles lg 10" "log_like lg" "lg (1 / 100000) \<le> - 11" "tmax \<le> 1"
    and live: "current_production env (mo_reg s) = Some live"
    and sums: "pm_quantiles env (mv_run live) = Some old" "pm_quantiles env run = Some new"
      "(col, feature_quantiles xs) \<in> set old" "map_of new col = Some (feature_quantiles ys)"
    and sparse: "2 \<le> length xs" "length xs + 4 \<le> 5 * length (filter (\<lambda>x. x = hd (sort xs)) xs)"
    and varies: "\<not> allclose (feature_quantiles xs) (hd (feature_quantiles xs))"
  shows "fst (promote_if_better env dmin tmax run s) \<noteq> Inr True \<and> mo_reg (snd (promote_if_better env dmin tmax run s)) = mo_reg s"
proof (rule tied_deciles_stop_promotion [OF psi live sums, where i = 1])
  show "feature_quantiles xs ! (10 * 1) = feature_quantiles xs ! (10 * Suc 1)"
    using minimum_ties [OF sparse, of 10] minimum_ties [OF sparse, of 20] by simp
qed (use varies in \<open>simp_all add: feature_quantiles_def Let_def\<close>)

section \<open>Instances\<close>

definition sample_train_env :: train_env where
  "sample_train_env = \<lparr>td_now = 200 * day_us, td_since = 20 * day_us, td_ch_since = 110 * day_us, td_f32 = (\<lambda>x. x)\<rparr>"

definition sample_offers :: "rec_row list" where
  "sample_offers = map (\<lambda>(n, st). \<lparr>re_id = n, re_user = 7, re_campaign = 1, re_mcc = ''5411'', re_score = 1 / 2,
     re_generated = 199 * day_us, re_status = st, re_expires = 210 * day_us, re_responded = None, re_channel = None\<rparr>)
     [(1, ACCEPTED), (2, RS_PENDING), (3, DECLINED)]"

definition sample_table :: "(time \<times> frame_row) list" where
  "sample_table = [(199 * day_us, [(''user_id'', CUuid 7), (''frequency_total'', CInt 3)]),
     (198 * day_us, [(''user_id'', CUuid 7), (''frequency_total'', CInt 2)])]"

lemma sample_rows: "load_recommendations sample_train_env sample_offers = [sample_offers ! 0, sample_offers ! 2]"
  by (simp add: load_recommendations_def sample_train_env_def sample_offers_def TERMINAL_STATUSES_def
      day_us_def hour_us_def second_us_def)

lemma sample_frames: "load_rfm sample_train_env sample_table = [snd (sample_table ! 0)]"
  by (simp add: load_rfm_def sample_train_env_def sample_table_def cell_text_def day_us_def hour_us_def second_us_def)

lemma sample_training:
  "\<exists>cols xs. build_pairs sample_train_env sample_offers sample_table = Inr (cols, xs, [1, 0])"
proof -
  have m: "merged [sample_offers ! 0, sample_offers ! 2] [snd (sample_table ! 0)] =
      [(sample_offers ! 0, snd (sample_table ! 0)), (sample_offers ! 2, snd (sample_table ! 0))]"
    by (simp add: merged_def sample_offers_def sample_table_def cell_text_def)
  have "re_status (sample_offers ! 0) = ACCEPTED" "re_status (sample_offers ! 2) = DECLINED"
    by (simp_all add: sample_offers_def)
  then show ?thesis by (simp add: build_pairs_def sample_rows sample_frames m)
qed

theorem pairs_are_exact_witness:
  "\<exists>ps. length (filter (\<lambda>r. re_status r \<noteq> RS_PENDING \<and> td_since sample_train_env \<le> re_generated r \<and>
        (\<exists>c f. (c, f) \<in> set sample_table \<and> td_ch_since sample_train_env \<le> c \<and> cell_text f = uuid_text (re_user r)))
      sample_offers) = length ps \<and> [1, 0] = map (\<lambda>(r, f). if re_status r = ACCEPTED then 1 else (0 :: nat)) (ps :: (rec_row \<times> frame_row) list)"
proof -
  obtain cols xs where b: "build_pairs sample_train_env sample_offers sample_table = Inr (cols, xs, [1, 0])"
    using sample_training by blast
  from pairs_are_exact [OF b] obtain ps where ps: "map fst ps = filter (\<lambda>r. re_status r \<noteq> RS_PENDING \<and>
        td_since sample_train_env \<le> re_generated r \<and>
        (\<exists>c f. (c, f) \<in> set sample_table \<and> td_ch_since sample_train_env \<le> c \<and> cell_text f = uuid_text (re_user r)))
      sample_offers" "[1, 0] = map (\<lambda>(r, f). if re_status r = ACCEPTED then 1 else (0 :: nat)) (ps :: (rec_row \<times> frame_row) list)"
    by (elim exE conjE) (rule that)
  from ps(1) [symmetric] have "length (filter (\<lambda>r. re_status r \<noteq> RS_PENDING \<and> td_since sample_train_env \<le> re_generated r \<and>
        (\<exists>c f. (c, f) \<in> set sample_table \<and> td_ch_since sample_train_env \<le> c \<and> cell_text f = uuid_text (re_user r)))
      sample_offers) = length ps" by (simp only: length_map)
  then show ?thesis using ps(2) by (intro exI [of _ ps] conjI)
qed

text \<open>Whole amounts written in strokes.\<close>

definition stroke_env :: rfm_env where
  "stroke_env = sample_rfm_env\<lparr>rf_dec := (\<lambda>d. replicate (nat \<lfloor>d\<rfloor>) CHR ''1'')\<rparr>"

definition stroke_num :: "json \<Rightarrow> rat" where
  "stroke_num v = (case v of JInt n \<Rightarrow> of_int n | JFloat x \<Rightarrow> x | JStr t \<Rightarrow> of_nat (length t) | _ \<Rightarrow> 0)"

lemma sample_sums: "(sum_list (map rt_amount (filter p sample_raw)) :: rat) \<in> \<nat>"
  by (simp add: sample_raw_def)

lemma stroke_cells:
  assumes "(c, v) \<in> set (rfm_row stroke_env sample_raw 7)" "c \<noteq> ''user_id''"
  shows "stroke_num (dump_cell stroke_env v) = cell_number v"
proof -
  have whole: "of_nat (nat \<lfloor>d\<rfloor>) = d" if "d \<in> \<nat>" for d :: rat using that by (auto elim: Nats_cases)
  have "(\<exists>n. v = CInt n) \<or> (\<exists>x. v = CFloat x) \<or> (\<exists>d. v = CDec d \<and> d \<in> \<nat>)"
    using assms sample_sums [of "\<lambda>_. True"] sample_sums
    by (auto simp: rfm_row_def base_cols_def freq_cols_def amt_cols_def share_def)
  then show ?thesis by (auto simp: stroke_num_def stroke_env_def whole)
qed


theorem confidences_are_purchases_witness:
  "\<exists>es names codes. build_matrix (\<lambda>x. x) (rfm_query sample_rfm_env 90 sample_raw) = Inr (es, names, codes) \<and>
    names = [uuid_text 8, uuid_text 7] \<and> (\<exists>v. (1, 0, v) \<in> set es)"
proof -
  have w: "rfm_window sample_rfm_env 90 sample_raw = take 3 sample_raw"
    by (simp add: rfm_window_def sample_rfm_env_def sample_raw_def day_us_def hour_us_def second_us_def)
  have us: "[8, 7] = remdups (map rt_user (rfm_window sample_rfm_env 90 sample_raw))"
    unfolding w by (simp add: sample_raw_def)
  have ne: "rfm_query sample_rfm_env 90 sample_raw \<noteq> []" by (simp add: rfm_query_def Let_def us [symmetric])
  have paid: "\<And>t. t \<in> set sample_raw \<Longrightarrow> 0 < rt_amount t" by (auto simp: sample_raw_def)
  have "item_codes (rfm_query sample_rfm_env 90 sample_raw) \<noteq> []"
  proof -
    have "''5411'' \<in> set (item_codes (rfm_query sample_rfm_env 90 sample_raw))"
      by (auto simp: item_codes_def rfm_query_def Let_def us [symmetric] rfm_row_def freq_cols_names amt_cols_names TOP50_MCC_def
          simp del: set_map simp add: freq_cols_def amt_cols_def)
    then show ?thesis by auto
  qed
  then obtain es names codes where b: "build_matrix (\<lambda>x. x) (rfm_query sample_rfm_env 90 sample_raw) = Inr (es, names, codes)"
    using ne by (auto simp: build_matrix_def Let_def)
  have t: "\<exists>t \<in> set (rfm_window sample_rfm_env 90 sample_raw). rt_user t = [8, 7] ! 1 \<and> rt_mcc t = TOP50_MCC ! 0"
    unfolding w by (simp add: sample_raw_def TOP50_MCC_def)
  show ?thesis
    using confidences_are_purchases [OF b _ paid us] b t by (auto simp: TOP50_MCC_def)
qed

end
