(* ===== verification/Minting.thy ===== *)
theory Minting
  imports MobileFeed EtlConsumer
begin

text \<open>
  The customer tokens of the demonstration (\<^verbatim>\<open>scripts/mint_customer_token.py\<close>): the \<^verbatim>\<open>.env\<close> file the script reads, the
  token it writes byte by byte, and what mobile_api makes of the token (\<open>decode_customer_token\<close>).

  HMAC-SHA256 is the parameter \<open>mac\<close> (of the secret and the signed text). A file is a text of code points below 256.
\<close>

section \<open>Base64url\<close>

definition b64_char :: "nat \<Rightarrow> char" where
  "b64_char n = (if n < 26 then char_of (65 + n) else if n < 52 then char_of (71 + n)
     else if n < 62 then char_of (n - 4) else if n = 62 then CHR ''-'' else CHR ''_'')"

text \<open>Groups of three bytes; the padding is stripped.\<close>

fun b64url :: "nat list \<Rightarrow> string" where
  "b64url [] = []"
| "b64url [a] = [b64_char (a div 4), b64_char (a mod 4 * 16)]"
| "b64url [a, b] = [b64_char (a div 4), b64_char (a mod 4 * 16 + b div 16), b64_char (b mod 16 * 4)]"
| "b64url (a # b # c # rest) =
     [b64_char (a div 4), b64_char (a mod 4 * 16 + b div 16), b64_char (b mod 16 * 4 + c div 64), b64_char (c mod 64)] @ b64url rest"

section \<open>Claims as text\<close>

text \<open>\<^verbatim>\<open>json.dumps\<close> of a text, in ASCII.\<close>

definition json_char :: "char \<Rightarrow> string" where
  "json_char c = (let n = (of_char c :: nat) in
     if n = 34 then [CHR 0x5C, c] else if n = 92 then [c, c]
     else if n = 8 then [CHR 0x5C, CHR ''b''] else if n = 9 then [CHR 0x5C, CHR ''t'']
     else if n = 10 then [CHR 0x5C, CHR ''n''] else if n = 12 then [CHR 0x5C, CHR ''f'']
     else if n = 13 then [CHR 0x5C, CHR ''r'']
     else if 32 \<le> n \<and> n \<le> 126 then [c] else [CHR 0x5C, CHR ''u''] @ hex_fixed 4 n)"

definition json_text :: "string \<Rightarrow> string" where
  "json_text s = [CHR 0x22] @ concat (map json_char s) @ [CHR 0x22]"

text \<open>\<^verbatim>\<open>json.dumps(part, separators=(",", ":"))\<close> of a flat object of texts and numbers.\<close>

definition dump_value :: "json \<Rightarrow> string" where
  "dump_value v = (case v of JStr s \<Rightarrow> json_text s | JInt n \<Rightarrow> int_text n | _ \<Rightarrow> ''null'')"

fun dump_members :: "(string \<times> json) list \<Rightarrow> string" where
  "dump_members [] = []"
| "dump_members [(k, v)] = json_text k @ '':'' @ dump_value v"
| "dump_members ((k, v) # m # ms) = json_text k @ '':'' @ dump_value v @ '','' @ dump_members (m # ms)"

definition dump_object :: "(string \<times> json) list \<Rightarrow> string" where
  "dump_object kvs = ''{'' @ dump_members kvs @ ''}''"

definition text_bytes :: "string \<Rightarrow> nat list" where
  "text_bytes = map of_char"

section \<open>Minting\<close>

definition TOKEN_AUDIENCE :: string where "TOKEN_AUDIENCE = ''cashback-mobile''"

definition DEFAULT_ISSUER :: string where "DEFAULT_ISSUER = ''cashback-demo-idp''"

definition customer_claims :: "string \<Rightarrow> uuid \<Rightarrow> int \<Rightarrow> int \<Rightarrow> (string \<times> json) list" where
  "customer_claims issuer u issued ttl =
     [(''iss'', JStr issuer), (''sub'', JStr (uuid_text u)), (''aud'', JStr TOKEN_AUDIENCE), (''type'', JStr CUSTOMER_TYPE),
      (''iat'', JInt issued), (''exp'', JInt (issued + ttl))]"

definition jwt_header :: "(string \<times> json) list" where
  "jwt_header = [(''alg'', JStr ''HS256''), (''typ'', JStr ''JWT'')]"

definition signing_input :: "(string \<times> json) list \<Rightarrow> string" where
  "signing_input claims = b64url (text_bytes (dump_object jwt_header)) @ ''.'' @
     b64url (text_bytes (dump_object claims))"

definition mint_customer_token ::
  "(string \<Rightarrow> string \<Rightarrow> nat list) \<Rightarrow> string \<Rightarrow> string \<Rightarrow> int \<Rightarrow> int \<Rightarrow> string \<Rightarrow> exn + string" where
  "mint_customer_token mac user secret ttl issued issuer =
    (if secret = [] \<or> ttl \<le> 0 then Inl (py_error ''ValueError'')
     else case parse_uuid user of
       None \<Rightarrow> Inl (py_error ''ValueError'')
     | Some u \<Rightarrow> (let input = signing_input (customer_claims issuer u issued ttl) in
         Inr (input @ ''.'' @ b64url (mac secret input))))"

section \<open>The environment\<close>

definition line_break :: "char \<Rightarrow> bool" where
  "line_break c = ((of_char c :: nat) \<in> {10, 11, 12, 13, 28, 29, 30, 133})"

text \<open>\<^verbatim>\<open>str.splitlines()\<close>.\<close>

function splitlines_from :: "string \<Rightarrow> string \<Rightarrow> string list" where
  "splitlines_from acc [] = (if acc = [] then [] else [rev acc])"
| "splitlines_from acc (c # cs) =
    (if c = CHR 0x0D \<and> take 1 cs = [CHR 0x0A] then rev acc # splitlines_from [] (drop 1 cs)
     else if line_break c then rev acc # splitlines_from [] cs
     else splitlines_from (c # acc) cs)"
  by pat_completeness auto
termination
  by (relation "measure (\<lambda>(acc, s). length s)") auto

definition strip_export :: "string \<Rightarrow> string" where
  "strip_export s = (if take 7 s = ''export '' then drop 7 s else s)"

text \<open>What stands before the first \<^verbatim>\<open>" #"\<close>.\<close>

fun before_comment :: "string \<Rightarrow> string" where
  "before_comment (c # d # cs) = (if c = CHR '' '' \<and> d = CHR ''#'' then [] else c # before_comment (d # cs))"
| "before_comment s = s"

definition rstrip :: "string \<Rightarrow> string" where
  "rstrip s = rev (dropWhile py_space (rev s))"

definition env_value :: "string \<Rightarrow> string" where
  "env_value v = (if 2 \<le> length v \<and> hd v = List.last v \<and> hd v \<in> {CHR 0x27, CHR 0x22}
     then butlast (tl v) else rstrip (before_comment v))"

definition env_line :: "string \<Rightarrow> (string \<times> string) option" where
  "env_line raw = (let line = py_strip raw in
     if line = [] \<or> hd line = CHR ''#'' \<or> CHR ''='' \<notin> set line then None
     else (let rest = strip_export line in
       Some (py_strip (takeWhile (\<lambda>c. c \<noteq> CHR ''='') rest),
         env_value (py_strip (tl (dropWhile (\<lambda>c. c \<noteq> CHR ''='') rest))))))"

text \<open>The last line of a name counts.\<close>

definition read_env_file :: "string \<Rightarrow> (string \<times> string) list" where
  "read_env_file t = List.map_filter env_line (splitlines_from [] t)"

definition env_lookup :: "(string \<times> string) list \<Rightarrow> string \<Rightarrow> string" where
  "env_lookup vs name = (case map_of (rev vs) name of None \<Rightarrow> [] | Some v \<Rightarrow> v)"

text \<open>\<open>file\<close> is the text of the file, \<open>given\<close> whether it was named on the command line; \<open>os\<close> the environment.\<close>

definition load_settings :: "(string \<Rightarrow> string option) \<Rightarrow> bool \<Rightarrow> string option \<Rightarrow> exn + string \<times> string" where
  "load_settings os given file =
    (if given \<and> file = None then Inl (py_error ''FileNotFoundError'')
     else (let vs = (case file of None \<Rightarrow> [] | Some t \<Rightarrow> read_env_file t);
               pick = (\<lambda>name. case os name of Some (c # v) \<Rightarrow> c # v | _ \<Rightarrow> env_lookup vs name);
               issuer = pick ''MOBILE_JWT_ISSUER'' in
       Inr (pick ''MOBILE_JWT_SECRET'', if issuer = [] then DEFAULT_ISSUER else issuer)))"

text \<open>The exit status and what is printed; 2 is also what \<^verbatim>\<open>argparse\<close> exits with.\<close>

definition mint_main ::
  "(string \<Rightarrow> string \<Rightarrow> nat list) \<Rightarrow> (string \<Rightarrow> string option) \<Rightarrow> bool \<Rightarrow> string option \<Rightarrow> int \<Rightarrow> string \<Rightarrow> int \<Rightarrow> exn + nat \<times> string" where
  "mint_main mac os given file issued user ttl =
    (if parse_uuid user = None \<or> ttl \<le> 0 then Inr (2, [])
     else case load_settings os given file of
       Inl e \<Rightarrow> Inr (2, [])
     | Inr (secret, issuer) \<Rightarrow>
         if secret = [] then Inr (2, [])
         else (case mint_customer_token mac user secret ttl issued issuer of Inl e \<Rightarrow> Inl e | Inr tok \<Rightarrow> Inr (0, tok)))"

section \<open>Base64url is read back\<close>

definition b64_value :: "char \<Rightarrow> nat option" where
  "b64_value c = (let n = (of_char c :: nat) in
     if 65 \<le> n \<and> n \<le> 90 then Some (n - 65) else if 97 \<le> n \<and> n \<le> 122 then Some (n - 71)
     else if 48 \<le> n \<and> n \<le> 57 then Some (n + 4) else if n = 45 then Some 62 else if n = 95 then Some 63 else None)"

fun b64_groups :: "nat list \<Rightarrow> nat list option" where
  "b64_groups [] = Some []"
| "b64_groups [w] = None"
| "b64_groups [w, x] = Some [w * 4 + x div 16]"
| "b64_groups [w, x, y] = Some [w * 4 + x div 16, x mod 16 * 16 + y div 4]"
| "b64_groups (w # x # y # z # rest) =
     map_option (\<lambda>bs. [w * 4 + x div 16, x mod 16 * 16 + y div 4, y mod 4 * 64 + z] @ bs) (b64_groups rest)"

definition b64url_decode :: "string \<Rightarrow> nat list option" where
  "b64url_decode s = Option.bind (those (map b64_value s)) b64_groups"

lemma b64_value_char: "n < 64 \<Longrightarrow> b64_value (b64_char n) = Some n"
  by (auto simp: b64_char_def b64_value_def Let_def)

text \<open>What the digits of a group say of its bytes.\<close>

lemma b64_arith:
  fixes a b c :: nat
  assumes "a < 256" "b < 256" "c < 256"
  shows "a div 4 < 64" "a mod 4 * 16 + b div 16 < 64" "b mod 16 * 4 + c div 64 < 64" "c mod 64 < 64"
    "a mod 4 * 16 < 64" "b mod 16 * 4 < 64"
    "(a div 4) * 4 + (a mod 4 * 16 + b div 16) div 16 = a" "(a div 4) * 4 + (a mod 4 * 16) div 16 = a"
    "(a mod 4 * 16 + b div 16) mod 16 * 16 + (b mod 16 * 4 + c div 64) div 4 = b"
    "(a mod 4 * 16 + b div 16) mod 16 * 16 + (b mod 16 * 4) div 4 = b"
    "(b mod 16 * 4 + c div 64) mod 4 * 64 + c mod 64 = c"
proof -
  have s: "b div 16 < 16" "c div 64 < 4" "a mod 4 < 4" "b mod 16 < 16" using assms by auto
  show "a div 4 < 64" "c mod 64 < 64" "a mod 4 * 16 < 64" "b mod 16 * 4 < 64" using assms s by auto
  show "a mod 4 * 16 + b div 16 < 64" "b mod 16 * 4 + c div 64 < 64" using s by linarith+
  have 1: "(a mod 4 * 16 + b div 16) div 16 = a mod 4" "(a mod 4 * 16 + b div 16) mod 16 = b div 16" using s by auto
  have 2: "(b mod 16 * 4 + c div 64) div 4 = b mod 16" "(b mod 16 * 4 + c div 64) mod 4 = c div 64" using s by auto
  show "(a div 4) * 4 + (a mod 4 * 16 + b div 16) div 16 = a" "(a div 4) * 4 + (a mod 4 * 16) div 16 = a"
    by (simp_all only: 1) simp_all
  show "(a mod 4 * 16 + b div 16) mod 16 * 16 + (b mod 16 * 4 + c div 64) div 4 = b"
    "(a mod 4 * 16 + b div 16) mod 16 * 16 + (b mod 16 * 4) div 4 = b"
    by (simp_all only: 1 2) simp_all
  show "(b mod 16 * 4 + c div 64) mod 4 * 64 + c mod 64 = c" by (simp only: 2) simp
qed

lemma b64url_values:
  assumes "list_all (\<lambda>b. b < 256) bs"
  shows "\<exists>vs. those (map b64_value (b64url bs)) = Some vs \<and> b64_groups vs = Some bs"
  using assms
proof (induction bs rule: b64url.induct)
  case (2 a)
  then show ?case using b64_arith [of a 0 0] by (simp add: b64_value_char del: mult_div_mod_eq)
next
  case (3 a b)
  then have "a < 256" "b < 256" by simp_all
  from b64_arith [OF this, of 0] show ?case by (simp add: b64_value_char)
next
  case (4 a b c rest)
  then obtain vs where vs: "those (map b64_value (b64url rest)) = Some vs" "b64_groups vs = Some rest" by auto
  have "a < 256" "b < 256" "c < 256" using 4 by simp_all
  note r = b64_arith [OF this]
  show ?case
    by (intro exI [of _ "[a div 4, a mod 4 * 16 + b div 16, b mod 16 * 4 + c div 64, c mod 64] @ vs"])
      (simp only: b64url.simps append_Cons append_Nil list.map those.simps b64_value_char r option.case option.map vs
        b64_groups.simps simp_thms)
qed simp

lemma b64url_round_trip: "list_all (\<lambda>b. b < 256) bs \<Longrightarrow> b64url_decode (b64url bs) = Some bs"
  using b64url_values [of bs] by (auto simp: b64url_decode_def)

section \<open>A minted token\<close>

text \<open>What \<^verbatim>\<open>jose.jwt.decode\<close> promises of HS256 tokens: three segments in base64url, the last one the HMAC of the text
  before it, whose second segment is an object with the demanded audience and issuer, a subject, a time of issue and a term that is
  not over, give that object. \<open>load\<close> is \<^verbatim>\<open>json.loads\<close> of bytes.\<close>

definition jose_reads ::
  "(string \<Rightarrow> token_claims option) \<Rightarrow> (nat list \<Rightarrow> json option) \<Rightarrow> (string \<Rightarrow> string \<Rightarrow> nat list) \<Rightarrow> string \<Rightarrow> string \<Rightarrow> int \<Rightarrow> bool" where
  "jose_reads dec load mac secret issuer now =
    (\<forall>header body claims e n sub.
       load header = Some (JObj jwt_header) \<and> load body = Some (JObj claims) \<and>
       jget claims ''aud'' = JStr TOKEN_AUDIENCE \<and> jget claims ''iss'' = JStr issuer \<and> jget claims ''sub'' = JStr sub \<and>
       jget claims ''iat'' = JInt n \<and> jget claims ''exp'' = JInt e \<and> now \<le> e \<longrightarrow>
       (let input = b64url header @ ''.'' @ b64url body in dec (input @ ''.'' @ b64url (mac secret input)) = Some claims))"

lemma claims_fields:
  "jget (customer_claims issuer u issued ttl) ''aud'' = JStr TOKEN_AUDIENCE"
  "jget (customer_claims issuer u issued ttl) ''iss'' = JStr issuer"
  "jget (customer_claims issuer u issued ttl) ''sub'' = JStr (uuid_text u)"
  "jget (customer_claims issuer u issued ttl) ''type'' = JStr CUSTOMER_TYPE"
  "jget (customer_claims issuer u issued ttl) ''iat'' = JInt issued"
  "jget (customer_claims issuer u issued ttl) ''exp'' = JInt (issued + ttl)"
  "members (customer_claims issuer u issued ttl) ''sub'' = Some (JStr (uuid_text u))"
  by (simp_all add: customer_claims_def jget_def members_def)

text \<open>While its term lasts, a token the script minted for a client opens the client's own routes of mobile_api that
  has the same secret and issuer, and is a 403 on the routes of every other client.\<close>

theorem minted_token_opens_own_account:
  assumes jose: "jose_reads dec load mac secret issuer now"
    and load: "load (text_bytes (dump_object jwt_header)) = Some (JObj jwt_header)"
      "\<And>u. parse_uuid user = Some u \<Longrightarrow>
         load (text_bytes (dump_object (customer_claims issuer u issued ttl))) = Some (JObj (customer_claims issuer u issued ttl))"
    and mint: "mint_customer_token mac user secret ttl issued issuer = Inr tok" "now \<le> issued + ttl"
  shows "\<exists>u. parse_uuid user = Some u \<and> (\<forall>uid. require_own_user_id dec (Some tok) uid = (if uid = u then Reply u else Reject 403))"
proof -
  obtain u where u: "parse_uuid user = Some u"
      "tok = (let input = signing_input (customer_claims issuer u issued ttl) in input @ ''.'' @ b64url (mac secret input))"
    using mint(1) by (auto simp: mint_customer_token_def Let_def split: if_splits option.splits)
  have "dec tok = Some (customer_claims issuer u issued ttl)"
    using jose [unfolded jose_reads_def, rule_format, OF conjI [OF load(1) conjI [OF load(2) [OF u(1)]]]]
      claims_fields [of issuer u issued ttl] mint(2)
    by (simp add: u(2) signing_input_def Let_def)
  then have "decode_customer_token dec tok = Reply u"
    using parse_uuid_text [OF parse_uuid_bound [OF u(1)]] by (simp add: decode_customer_token_def claims_fields)
  then show ?thesis using u(1) by (auto simp: require_own_user_id_def require_customer_def)
qed

section \<open>What the environment says\<close>

lemma plain_env_line:
  assumes key: "py_strip k = k" "k \<noteq> []" "hd k \<noteq> CHR ''#''" "CHR ''='' \<notin> set k" "take 7 k \<noteq> ''export ''"
    and "value": "py_strip v = v" "v \<noteq> []" "CHR ''#'' \<notin> set v" "hd v \<noteq> CHR 0x22" "hd v \<noteq> CHR 0x27"
  shows "env_line (k @ ''='' @ v) = Some (k, v)"
proof -
  have ends: "\<not> py_space (hd k)" "\<not> py_space (List.last v)"
    using key(1,2) "value"(1,2) hd_strip_by [of py_space k] last_strip_by [of py_space v] by auto
  have line: "py_strip (k @ ''='' @ v) = k @ ''='' @ v"
    using ends key(2) "value"(2) by (intro strip_by_id) auto
  have "take 7 (k @ ''='' @ v) \<noteq> ''export ''"
  proof (cases "7 \<le> length k")
    case False
    then have "CHR ''='' \<in> set (take 7 (k @ ''='' @ v))" by (cases "7 - length k") simp_all
    moreover have "CHR ''='' \<notin> set ''export ''" by simp
    ultimately show ?thesis by metis
  qed (use key(5) in simp)
  then have rest: "strip_export (k @ ''='' @ v) = k @ ''='' @ v" by (simp add: strip_export_def)
  have comment: "before_comment w = w" if "CHR ''#'' \<notin> set w" for w
    using that by (induction w rule: before_comment.induct) auto
  have "rstrip v = v" using "value"(1,2) ends(2) by (simp add: rstrip_def) (metis dropWhile.simps(2) hd_rev list.collapse rev_is_Nil_conv rev_rev_ident)
  then have v: "env_value v = v" using comment "value" by (auto simp: env_value_def)
  have tw: "takeWhile (\<lambda>c. c \<noteq> CHR ''='') (k @ ''='' @ v) = k" "dropWhile (\<lambda>c. c \<noteq> CHR ''='') (k @ ''='' @ v) = ''='' @ v"
    using key(4) by (auto simp: takeWhile_append dropWhile_append)
  have "hd (k @ ''='' @ v) = hd k" using key(2) by simp
  then show ?thesis
    using key "value"(1) by (simp add: env_line_def line rest tw v Let_def del: append_Cons)
qed

section \<open>An instance\<close>

definition sample_claims :: token_claims where
  "sample_claims = customer_claims DEFAULT_ISSUER 7 1000 3600"

definition sample_load :: "nat list \<Rightarrow> json option" where
  "sample_load bs = (if bs = text_bytes (dump_object jwt_header) then Some (JObj jwt_header)
     else if bs = text_bytes (dump_object sample_claims) then Some (JObj sample_claims) else None)"

definition sample_jose :: "string \<Rightarrow> token_claims option" where
  "sample_jose tok = (if tok = signing_input sample_claims @ ''.'' @ b64url [1, 2, 3] then Some sample_claims else None)"

lemma claims_text_inj: "dump_object jwt_header \<noteq> dump_object sample_claims"
  by (simp add: dump_object_def jwt_header_def sample_claims_def customer_claims_def json_text_def json_char_def)

lemma text_bytes_inj [simp]: "text_bytes s = text_bytes t \<longleftrightarrow> s = t"
proof
  assume "text_bytes s = text_bytes t"
  then have "map char_of (text_bytes s) = (map char_of (text_bytes t) :: string)" by simp
  then show "s = t" by (simp add: text_bytes_def comp_def)
qed simp

lemma sample_reads: "jose_reads sample_jose sample_load (\<lambda>k t. [1, 2, 3]) ''key'' DEFAULT_ISSUER 2000"
proof -
  have header: "h = text_bytes (dump_object jwt_header)" if "sample_load h = Some (JObj jwt_header)" for h
    using that by (auto simp: sample_load_def sample_claims_def customer_claims_def jwt_header_def split: if_splits)
  have body: "b = text_bytes (dump_object sample_claims) \<and> cs = sample_claims"
    if "sample_load b = Some (JObj cs)" "jget cs ''aud'' = JStr TOKEN_AUDIENCE" for b cs
    using that by (auto simp: sample_load_def jwt_header_def jget_def members_def split: if_splits)
  show ?thesis
    unfolding jose_reads_def by (auto dest!: header body simp: sample_jose_def signing_input_def Let_def)
qed

theorem minted_token_opens_own_account_witness:
  "\<exists>tok. mint_customer_token (\<lambda>k t. [1, 2, 3]) (uuid_text 7) ''key'' 3600 1000 DEFAULT_ISSUER = Inr tok \<and>
    require_own_user_id sample_jose (Some tok) 7 = Reply 7 \<and> require_own_user_id sample_jose (Some tok) 8 = Reject 403"
proof -
  have u: "parse_uuid (uuid_text 7) = Some 7" by (rule parse_uuid_text) simp
  let ?tok = "signing_input (customer_claims DEFAULT_ISSUER 7 1000 3600) @ ''.'' @ b64url [1, 2, 3]"
  have m: "mint_customer_token (\<lambda>k t. [1, 2, 3]) (uuid_text 7) ''key'' 3600 1000 DEFAULT_ISSUER = Inr ?tok"
    by (simp add: mint_customer_token_def u Let_def)
  have "\<exists>u. parse_uuid (uuid_text 7) = Some u \<and>
      (\<forall>uid. require_own_user_id sample_jose (Some ?tok) uid = (if uid = u then Reply u else Reject 403))"
  proof (rule minted_token_opens_own_account [OF sample_reads _ _ m])
    show "sample_load (text_bytes (dump_object jwt_header)) = Some (JObj jwt_header)" by (simp add: sample_load_def)
    show "sample_load (text_bytes (dump_object (customer_claims DEFAULT_ISSUER u 1000 3600))) =
        Some (JObj (customer_claims DEFAULT_ISSUER u 1000 3600))" if "parse_uuid (uuid_text 7) = Some u" for u
      using that u claims_text_inj by (auto simp: sample_load_def sample_claims_def)
  qed simp
  then show ?thesis using m u by (intro exI [of _ ?tok]) simp
qed

end
