(* ===== verification/Probes.thy ===== *)
theory Probes
  imports MobileFeed
begin

text \<open>
  The probes of the three services with an HTTP interface (\<^verbatim>\<open>app/api/health.py\<close>) and the two middlewares of
  \<^verbatim>\<open>campaign_manager/app/main.py\<close>. What a dependency does when it is asked is a parameter: it answers within
  the two seconds of \<^verbatim>\<open>wait_for\<close>, it fails, or it is late. The checks of one request run at the same time and none
  can keep another from its answer.
\<close>

section \<open>Checks\<close>

datatype probe = Answers | Fails | Late

definition check :: "string \<Rightarrow> probe \<Rightarrow> string \<times> bool" where
  "check label p = (label, p = Answers)"

text \<open>A client that could not be built at the start is an error at every check.\<close>

definition check_clickhouse :: "probe option \<Rightarrow> probe" where
  "check_clickhouse ch = (case ch of None \<Rightarrow> Fails | Some p \<Rightarrow> p)"

text \<open>\<^verbatim>\<open>resp.raise_for_status()\<close> of httpx: everything but a 2xx is an error.\<close>

definition http_probe :: "nat option \<Rightarrow> probe" where
  "http_probe code = (case code of None \<Rightarrow> Late | Some n \<Rightarrow> if 200 \<le> n \<and> n < 300 then Answers else Fails)"

record readiness =
  rd_code :: nat
  rd_status :: string
  rd_checks :: "(string \<times> json) list"
  rd_version :: "string option"

definition readiness_of :: "(string \<times> json) list \<Rightarrow> bool \<Rightarrow> string option \<Rightarrow> readiness" where
  "readiness_of checks ok version =
     \<lparr>rd_code = (if ok then 200 else 503), rd_status = (if ok then ''ready'' else ''not_ready''), rd_checks = checks,
      rd_version = version\<rparr>"

definition as_json :: "(string \<times> bool) list \<Rightarrow> (string \<times> json) list" where
  "as_json = map (\<lambda>(k, b). (k, JBool b))"

definition ready_manager :: "probe \<Rightarrow> probe \<Rightarrow> probe option \<Rightarrow> readiness" where
  "ready_manager pg redis ch =
    (let checks = [check ''postgres'' pg, check ''redis'' redis, check ''clickhouse'' (check_clickhouse ch)] in
     readiness_of (as_json checks) (list_all snd checks) None)"

definition ready_recommendation :: "probe \<Rightarrow> probe \<Rightarrow> probe option \<Rightarrow> nat option \<Rightarrow> watcher \<Rightarrow> string \<Rightarrow> readiness" where
  "ready_recommendation pg redis ch mlflow w version =
    (let checks = [check ''postgres'' pg, check ''redis'' redis, check ''clickhouse'' (check_clickhouse ch),
           check ''mlflow'' (http_probe mlflow)] @ [(''model_loaded'', wt_loaded w \<noteq> None)] in
     readiness_of (as_json checks) (list_all snd checks) (Some version))"

definition state_text :: "breaker_state \<Rightarrow> string" where
  "state_text s = (case s of Closed \<Rightarrow> ''closed'' | HalfOpen \<Rightarrow> ''half_open'' | OpenState \<Rightarrow> ''open'')"

text \<open>The state of the breaker is shown, not demanded.\<close>

definition ready_mobile :: "probe \<Rightarrow> probe \<Rightarrow> nat option \<Rightarrow> time \<Rightarrow> breaker \<Rightarrow> readiness" where
  "ready_mobile pg redis rec_api now b =
    (let checks = [check ''postgres'' pg, check ''redis'' redis, check ''recommendation_api'' (http_probe rec_api)];
         shown = as_json checks @ [(''circuit_breaker'', JStr (state_text (breaker_state now b)))] in
     readiness_of shown (list_all snd checks) None)"

section \<open>Middlewares\<close>

text \<open>Headers with their names as ASGI gives them.\<close>

type_synonym headers = "(string \<times> string) list"

definition request_id :: "headers \<Rightarrow> string \<Rightarrow> string" where
  "request_id hs fresh = (case map_of (map (\<lambda>(k, v). (map lower_char k, v)) hs) ''x-request-id'' of
     Some (c # v) \<Rightarrow> c # v | _ \<Rightarrow> take 16 fresh)"

definition sse_no_gzip :: "bool \<Rightarrow> string \<Rightarrow> headers \<Rightarrow> headers" where
  "sse_no_gzip http path hs = (if http \<and> take 8 path = ''/events/''
     then filter (\<lambda>(k, v). map lower_char k \<noteq> ''accept-encoding'') hs else hs)"

section \<open>Facts\<close>

lemma readiness_code: "rd_code (readiness_of checks ok version) = 200 \<longleftrightarrow> ok"
  by (simp add: readiness_of_def)

text \<open>A service is ready exactly if everything it needs answers in time: Postgres and Redis always, ClickHouse where
  it is asked (a client that could not be built counts as down), MLflow and a loaded model for the
  recommendation API, the recommendation API for mobile_api. The state of the circuit breaker does not matter.\<close>

theorem ready_iff_dependencies_answer:
  "(rd_code (ready_manager pg redis ch) = 200 \<longleftrightarrow> pg = Answers \<and> redis = Answers \<and> ch = Some Answers) \<and>
   (rd_code (ready_recommendation pg redis ch mlflow w version) = 200 \<longleftrightarrow>
      pg = Answers \<and> redis = Answers \<and> ch = Some Answers \<and> (\<exists>n. mlflow = Some n \<and> 200 \<le> n \<and> n < 300) \<and> wt_loaded w \<noteq> None) \<and>
   (rd_code (ready_mobile pg redis rec_api now b) = 200 \<longleftrightarrow>
      pg = Answers \<and> redis = Answers \<and> (\<exists>n. rec_api = Some n \<and> 200 \<le> n \<and> n < 300))"
  unfolding ready_manager_def ready_recommendation_def ready_mobile_def Let_def readiness_code
  by (auto simp: check_def check_clickhouse_def http_probe_def split: option.splits if_splits)

text \<open>The dashboard's stream is never compressed, whatever the spelling of the header; other routes are left alone.\<close>

lemma stream_is_not_compressed:
  "(k, v) \<in> set (sse_no_gzip True (''/events/'' @ rest) hs) \<Longrightarrow> map lower_char k \<noteq> ''accept-encoding''"
  "take 8 path \<noteq> ''/events/'' \<Longrightarrow> sse_no_gzip http path hs = hs"
  by (auto simp: sse_no_gzip_def)

end
